(* ===== verification/Hanos_Prelude.thy ===== *)
theory Hanos_Prelude
  imports Main "HOL-Library.Word"
begin

text \<open>
  Shared base of the HanOS development: the machine integer types, the outcome type in which
  every fallible C operation answers (a value, a fault, or no answer at all), the C counting loop
  over \<open>uint64_t\<close> with early exit, checked array access, and the generic lemmas on words,
  lists and loops that the component theories share.
\<close>

unbundle bit_operations_syntax

type_synonym u8 = "8 word"
type_synonym u16 = "16 word"
type_synonym u32 = "32 word"
type_synonym u64 = "64 word"

text \<open>The number of CPUs that the tables per CPU have room for.\<close>

definition CPU_MAX :: nat where "CPU_MAX = 256"

section \<open>Outcomes of C operations\<close>

text \<open>
  \<open>Returns v\<close> is a normal return. \<open>Faults e\<close> is a run that reaches an operation whose
  result the program does not define (an access outside its object, a dereference of NULL, a
  signed overflow), or
  the kernel's own \<open>kpanic\<close>. \<open>Diverges\<close> is a loop that never ends.
\<close>

datatype fault = OutOfBounds | NullDeref | Panic | DivByZero | IntOverflow

datatype 'a outcome = Returns 'a | Faults fault | Diverges

fun obind :: "'a outcome \<Rightarrow> ('a \<Rightarrow> 'b outcome) \<Rightarrow> 'b outcome" where
  "obind (Returns x) f = f x"
| "obind (Faults e) f = Faults e"
| "obind Diverges f = Diverges"

fun omap :: "('a \<Rightarrow> 'b) \<Rightarrow> 'a outcome \<Rightarrow> 'b outcome" where
  "omap f (Returns x) = Returns (f x)"
| "omap f (Faults e) = Faults e"
| "omap f Diverges = Diverges"

lemma obind_eq_Returns: "obind r f = Returns y \<longleftrightarrow> (\<exists>x. r = Returns x \<and> f x = Returns y)"
  by (cases r) auto

lemma omap_eq_Returns: "omap f r = Returns y \<longleftrightarrow> (\<exists>x. r = Returns x \<and> f x = y)"
  by (cases r) auto

lemma omap_omap: "omap f (omap g r) = omap (\<lambda>x. f (g x)) r"
  by (cases r) auto

lemma obind_assoc: "obind (obind r f) g = obind r (\<lambda>x. obind (f x) g)"
  by (cases r) auto

lemma obind_Returns_right [simp]: "obind r Returns = r"
  by (cases r) auto

lemma obind_omap: "obind (omap f r) g = obind r (\<lambda>x. g (f x))"
  by (cases r) auto

lemma omap_obind: "omap f (obind r g) = obind r (\<lambda>x. omap f (g x))"
  by (cases r) auto

lemma obind_Returns: "obind r (\<lambda>x. Returns (f x)) = omap f r"
  by (cases r) auto

lemmas outcome_laws = obind_assoc obind_omap omap_obind obind_Returns omap_omap

lemma obind_cong [fundef_cong]:
  "r = r' \<Longrightarrow> (\<And>x. r' = Returns x \<Longrightarrow> f x = g x) \<Longrightarrow> obind r f = obind r' g"
  by (cases r') auto

text \<open>For evaluation: the continuation is left alone until the result before it is known.\<close>

lemma obind_weak_cong: "r = r' \<Longrightarrow> obind r f = obind r' f"
  by simp

section \<open>Checked array access\<close>

definition rd :: "'a list \<Rightarrow> nat \<Rightarrow> 'a outcome" where
  "rd xs i = (if i < length xs then Returns (xs ! i) else Faults OutOfBounds)"

definition wr :: "'a list \<Rightarrow> nat \<Rightarrow> 'a \<Rightarrow> 'a list outcome" where
  "wr xs i v = (if i < length xs then Returns (xs[i := v]) else Faults OutOfBounds)"

lemma rd_in [simp]: "i < length xs \<Longrightarrow> rd xs i = Returns (xs ! i)"
  by (simp add: rd_def)

lemma rd_out [simp]: "length xs \<le> i \<Longrightarrow> rd xs i = Faults OutOfBounds"
  by (simp add: rd_def)

lemma wr_in [simp]: "i < length xs \<Longrightarrow> wr xs i v = Returns (xs[i := v])"
  by (simp add: wr_def)

lemma wr_out [simp]: "length xs \<le> i \<Longrightarrow> wr xs i v = Faults OutOfBounds"
  by (simp add: wr_def)

section \<open>The C counting loop\<close>

text \<open>
  \<open>for (uint64_t i = a; i < lim; i += step) body\<close>. The body answers \<open>Inl s\<close> to go on with
  state \<open>s\<close> and \<open>Inr r\<close> to leave the loop (break or return) with \<open>r\<close>. The counter wraps at
  \<open>2 ^ 64\<close>, so such a loop need not end: \<open>for_opt\<close> is \<open>None\<close> then.
\<close>

partial_function (option) for_opt ::
  "u64 \<Rightarrow> u64 \<Rightarrow> u64 \<Rightarrow> (u64 \<Rightarrow> 's \<Rightarrow> ('s + 'r) outcome) \<Rightarrow> 's \<Rightarrow> ('s + 'r) outcome option"
where
  "for_opt i lim step body s =
     (if i < lim then
        (case body i s of
           Returns (Inl s') \<Rightarrow> for_opt (i + step) lim step body s'
         | Returns (Inr r) \<Rightarrow> Some (Returns (Inr r))
         | Faults e \<Rightarrow> Some (Faults e)
         | Diverges \<Rightarrow> Some Diverges)
      else Some (Returns (Inl s)))"

definition for_u64 ::
  "u64 \<Rightarrow> u64 \<Rightarrow> u64 \<Rightarrow> (u64 \<Rightarrow> 's \<Rightarrow> ('s + 'r) outcome) \<Rightarrow> 's \<Rightarrow> ('s + 'r) outcome"
where
  "for_u64 i lim step body s =
     (case for_opt i lim step body s of None \<Rightarrow> Diverges | Some r \<Rightarrow> r)"

text \<open>One unfolding of the loop, and the same loop over an explicit list of counter values.\<close>

lemma for_u64_unfold:
  "for_u64 i lim step body s =
     (if i < lim then
        obind (body i s) (\<lambda>c. case c of Inl s' \<Rightarrow> for_u64 (i + step) lim step body s'
                                      | Inr r \<Rightarrow> Returns (Inr r))
      else Returns (Inl s))"
  unfolding for_u64_def
  by (subst for_opt.simps) (auto split: outcome.splits sum.splits option.splits)

text \<open>
  Partial correctness of the loop: an invariant of the counter and the state, kept by every
  iteration that goes on, gives the property of the exit taken.
\<close>

lemma for_u64_rule:
  assumes ret: "for_u64 i lim step body s = Returns c"
    and init: "I i s"
    and go: "\<And>i s s'. I i s \<Longrightarrow> i < lim \<Longrightarrow> body i s = Returns (Inl s') \<Longrightarrow> I (i + step) s'"
    and leave: "\<And>i s r. I i s \<Longrightarrow> i < lim \<Longrightarrow> body i s = Returns (Inr r) \<Longrightarrow> Q r"
    and fin: "\<And>i s. I i s \<Longrightarrow> \<not> i < lim \<Longrightarrow> R s"
  shows "case c of Inl s' \<Rightarrow> R s' | Inr r \<Rightarrow> Q r"
proof -
  let ?P = "\<lambda>i l st b s oc. l = lim \<longrightarrow> st = step \<longrightarrow> b = body \<longrightarrow> I i s \<longrightarrow>
     (\<forall>c. oc = Returns c \<longrightarrow> (case c of Inl s' \<Rightarrow> R s' | Inr r \<Rightarrow> Q r))"
  from ret have eq: "for_opt i lim step body s = Some (Returns c)"
    by (auto simp: for_u64_def split: option.splits)
  have "?P i lim step body s (Returns c)"
  proof (rule for_opt.raw_induct [where P = ?P, OF _ eq])
    fix f i l st b s oc
    assume IH: "\<And>i l st b s oc. f i l st b s = Some oc \<Longrightarrow> ?P i l st b s oc"
      and f: "(if i < l then (case b i s of
           Returns (Inl s') \<Rightarrow> f (i + st) l st b s'
         | Returns (Inr r) \<Rightarrow> Some (Returns (Inr r))
         | Faults e \<Rightarrow> Some (Faults e)
         | Diverges \<Rightarrow> Some Diverges) else Some (Returns (Inl s))) = Some oc"
    show "?P i l st b s oc"
    proof (intro impI allI)
      fix c assume a: "l = lim" "st = step" "b = body" "I i s" "oc = Returns c"
      show "case c of Inl s' \<Rightarrow> R s' | Inr r \<Rightarrow> Q r"
      proof (cases "i < lim")
        case False
        with f a fin [OF a(4)] show ?thesis by auto
      next
        case True
        show ?thesis
        proof (cases "body i s")
          case (Returns d)
          show ?thesis
          proof (cases d)
            case (Inl s')
            with f a True Returns have "f (i + step) lim step body s' = Some oc" by simp
            from IH [OF this] go [OF a(4) True] Returns Inl a(5) show ?thesis by blast
          next
            case (Inr r)
            with f a True Returns leave [OF a(4) True] show ?thesis by auto
          qed
        qed (use f a True in auto)
      qed
    qed
  qed
  with init show ?thesis by auto
qed

fun run_list :: "('i \<Rightarrow> 's \<Rightarrow> ('s + 'r) outcome) \<Rightarrow> 'i list \<Rightarrow> 's \<Rightarrow> ('s + 'r) outcome" where
  "run_list body [] s = Returns (Inl s)"
| "run_list body (i # is) s =
     obind (body i s) (\<lambda>c. case c of Inl s' \<Rightarrow> run_list body is s' | Inr r \<Rightarrow> Returns (Inr r))"

lemma run_list_append:
  "run_list body (is @ js) s =
     obind (run_list body is s)
       (\<lambda>c. case c of Inl s' \<Rightarrow> run_list body js s' | Inr r \<Rightarrow> Returns (Inr r))"
proof (induction "is" arbitrary: s)
  case Nil
  then show ?case by simp
next
  case (Cons i "is")
  then show ?case
    by (cases "body i s") (auto simp: obind_assoc split: sum.splits)
qed

lemma run_list_invariant:
  assumes "\<And>i s s'. i \<in> set is \<Longrightarrow> P s \<Longrightarrow> body i s = Returns (Inl s') \<Longrightarrow> P s'"
    and "P s" and "run_list body is s = Returns (Inl s')"
  shows "P s'"
  using assms
proof (induction "is" arbitrary: s)
  case Nil
  then show ?case by simp
next
  case (Cons i "is")
  from Cons.prems(3) obtain s1 where s1: "body i s = Returns (Inl s1)" "run_list body is s1 = Returns (Inl s')"
    by (cases "body i s") (auto split: sum.splits)
  from Cons.prems(1)[of i s s1] Cons.prems(2) s1(1) have "P s1" by simp
  with Cons.prems(1) s1(2) show ?case by (intro Cons.IH[of s1]) auto
qed

lemma run_list_total:
  assumes "\<And>i s. i \<in> set is \<Longrightarrow> P s \<Longrightarrow> \<exists>s'. body i s = Returns (Inl s') \<and> P s'"
    and "P s"
  shows "\<exists>s'. run_list body is s = Returns (Inl s') \<and> P s'"
  using assms
proof (induction "is" arbitrary: s)
  case Nil
  then show ?case by simp
next
  case (Cons i "is")
  from Cons.prems(1)[of i s] Cons.prems(2) obtain s1
    where s1: "body i s = Returns (Inl s1)" "P s1" by auto
  have "\<exists>s'. run_list body is s1 = Returns (Inl s') \<and> P s'"
    using Cons.prems(1) s1(2) by (intro Cons.IH) auto
  with s1 show ?case by auto
qed

text \<open>The counter values of a loop that runs \<open>n\<close> times from \<open>i\<close>.\<close>

definition steps_from :: "u64 \<Rightarrow> nat \<Rightarrow> nat \<Rightarrow> u64 list" where
  "steps_from i d n = map (\<lambda>k. i + of_nat (k * d)) [0..<n]"

lemma steps_from_0 [simp]: "steps_from i d 0 = []"
  by (simp add: steps_from_def)

lemma steps_from_Suc: "steps_from i d (Suc n) = i # steps_from (i + of_nat d) d n"
proof -
  have "map (\<lambda>k. i + of_nat (k * d)) [0..<Suc n]
      = i # map (\<lambda>k. i + of_nat d + of_nat (k * d)) [0..<n]"
    by (simp add: upt_conv_Cons map_Suc_upt [symmetric] distrib_right add.assoc del: upt_Suc)
  then show ?thesis
    by (simp add: steps_from_def del: upt_Suc)
qed

lemma length_steps_from [simp]: "length (steps_from i d n) = n"
  by (simp add: steps_from_def)

lemma set_steps_from: "set (steps_from i d n) = (\<lambda>k. i + of_nat (k * d)) ` {0..<n}"
  by (simp add: steps_from_def)

lemma unat_of_nat_small: "n < 2 ^ LENGTH('a) \<Longrightarrow> unat (of_nat n :: 'a::len word) = n"
  by (simp add: unat_of_nat)

lemma unat_ucast_up: "LENGTH('a::len) \<le> LENGTH('b::len) \<Longrightarrow> unat (ucast (w :: 'a word) :: 'b word) = unat w"
proof -
  assume "LENGTH('a) \<le> LENGTH('b)"
  then have "(2 :: nat) ^ LENGTH('a) \<le> 2 ^ LENGTH('b)" by simp
  then have "unat w < 2 ^ LENGTH('b)" using unsigned_less [of w] by (rule less_le_trans [rotated])
  then show ?thesis by (simp add: unsigned_ucast_eq take_bit_nat_eq_self)
qed

lemma unat_u64: "unat (w :: u64) < 2 ^ 64"
  and unat_u32: "unat (v :: u32) < 2 ^ 32"
  and unat_u16: "unat (h :: u16) < 2 ^ 16"
  and unat_u8: "unat (b :: u8) < 2 ^ 8"
  using unsigned_less [of w] unsigned_less [of v] unsigned_less [of h] unsigned_less [of b]
  by simp_all

lemma unat_add_of_nat: "unat (i :: u64) + k < 2 ^ 64 \<Longrightarrow> unat (i + of_nat k) = unat i + k"
  by (subst unat_word_ariths) (simp add: unat_of_nat)

lemma for_u64_run_list:
  assumes "\<And>k. k < n \<Longrightarrow> unat i + k * d < unat lim"
    and "unat lim \<le> unat i + n * d" and "unat i + n * d < 2 ^ 64"
  shows "for_u64 i lim (of_nat d) body s = run_list body (steps_from i d n) s"
  using assms
proof (induction n arbitrary: i s)
  case 0
  then have "\<not> i < lim" by (simp add: word_less_nat_alt)
  then show ?case by (subst for_u64_unfold) simp
next
  case (Suc n)
  have lt: "i < lim" using Suc.prems(1)[of 0] by (simp add: word_less_nat_alt)
  have u: "unat (i + of_nat d) = unat i + d"
    using Suc.prems(3) by (intro unat_add_of_nat) simp
  have IH: "for_u64 (i + of_nat d) lim (of_nat d) body s'
      = run_list body (steps_from (i + of_nat d) d n) s'" for s'
  proof (rule Suc.IH)
    fix k assume "k < n"
    then have "unat i + Suc k * d < unat lim" using Suc.prems(1)[of "Suc k"] by simp
    then show "unat (i + of_nat d) + k * d < unat lim" by (simp add: u)
  next
    show "unat lim \<le> unat (i + of_nat d) + n * d" using Suc.prems(2) by (simp add: u)
    show "unat (i + of_nat d) + n * d < 2 ^ 64" using Suc.prems(3) by (simp add: u)
  qed
  have "for_u64 (i + of_nat d) lim (of_nat d) body = run_list body (steps_from (i + of_nat d) d n)"
    by (rule ext) (rule IH)
  then show ?case
    by (subst for_u64_unfold) (simp add: lt steps_from_Suc)
qed

section \<open>A loop over a list of counters\<close>

text \<open>A statement list over a sequence of loop counters, left at the first fault.\<close>

fun foldo :: "('i \<Rightarrow> 's \<Rightarrow> 's outcome) \<Rightarrow> 'i list \<Rightarrow> 's \<Rightarrow> 's outcome" where
  "foldo f [] s = Returns s"
| "foldo f (i # is) s = obind (f i s) (foldo f is)"

lemma foldo_append: "foldo f (xs @ ys) s = obind (foldo f xs s) (foldo f ys)"
proof (induction xs arbitrary: s)
  case (Cons x xs)
  then have "foldo f (xs @ ys) = (\<lambda>s. obind (foldo f xs s) (foldo f ys))" by blast
  then show ?case by (simp add: obind_assoc)
qed simp

lemma foldo_invariant:
  assumes "\<And>i s. i \<in> set is \<Longrightarrow> I s \<Longrightarrow> \<exists>s'. f i s = Returns s' \<and> I s'" and "I s"
  shows "\<exists>s'. foldo f is s = Returns s' \<and> I s'"
  using assms
proof (induction "is" arbitrary: s)
  case (Cons i "is")
  then obtain s1 where "f i s = Returns s1" "I s1" by force
  with Cons show ?case by simp
qed simp

lemma foldo_cong [fundef_cong]:
  assumes "is = js" and "\<And>i s. i \<in> set js \<Longrightarrow> f i s = g i s"
  shows "foldo f is = foldo g js"
proof (rule ext)
  fix s show "foldo f is s = foldo g js s"
    using assms(2) unfolding assms(1) by (induction js arbitrary: s) (auto intro: obind_cong)
qed

section \<open>The C loop without a bound\<close>

text \<open>\<open>for (;;)\<close> and \<open>while\<close>: the body answers \<open>Inl\<close> to go on and \<open>Inr\<close> to leave.\<close>

partial_function (option) loop_opt :: "('s \<Rightarrow> ('s + 'r) outcome) \<Rightarrow> 's \<Rightarrow> 'r outcome option" where
  "loop_opt body s =
     (case body s of
        Returns (Inl s') \<Rightarrow> loop_opt body s'
      | Returns (Inr r) \<Rightarrow> Some (Returns r)
      | Faults e \<Rightarrow> Some (Faults e)
      | Diverges \<Rightarrow> Some Diverges)"

definition loop_c :: "('s \<Rightarrow> ('s + 'r) outcome) \<Rightarrow> 's \<Rightarrow> 'r outcome" where
  "loop_c body s = (case loop_opt body s of None \<Rightarrow> Diverges | Some r \<Rightarrow> r)"

lemma loop_c_unfold:
  "loop_c body s = obind (body s) (\<lambda>c. case c of Inl s' \<Rightarrow> loop_c body s' | Inr r \<Rightarrow> Returns r)"
  unfolding loop_c_def by (subst loop_opt.simps) (auto split: outcome.splits sum.splits option.splits)

text \<open>A loop that leaves after \<open>n\<close> rounds through the states \<open>f 0, f 1, ..., f n\<close>.\<close>

lemma loop_c_steps:
  assumes "\<And>k. k < n \<Longrightarrow> body (f k) = Returns (Inl (f (Suc k)))" and "body (f n) = Returns (Inr r)"
  shows "loop_c body (f 0) = Returns r"
proof -
  have "j \<le> n \<Longrightarrow> loop_c body (f (n - j)) = Returns r" for j
  proof (induction j)
    case 0
    with assms(2) show ?case by (simp add: loop_c_unfold)
  next
    case (Suc j)
    then have "body (f (n - Suc j)) = Returns (Inl (f (n - j)))"
      using assms(1) [of "n - Suc j"] by (simp add: Suc_diff_Suc)
    with Suc show ?case by (simp add: loop_c_unfold [of body "f (n - Suc j)"])
  qed
  from this [of n] show ?thesis by simp
qed

text \<open>Partial correctness of the unbounded loop, as for the counting loop.\<close>

lemma loop_c_rule:
  assumes ret: "loop_c body s = Returns r" and init: "I s"
    and go: "\<And>s s'. I s \<Longrightarrow> body s = Returns (Inl s') \<Longrightarrow> I s'"
    and leave: "\<And>s r. I s \<Longrightarrow> body s = Returns (Inr r) \<Longrightarrow> Q r"
  shows "Q r"
proof -
  let ?P = "\<lambda>b s oc. b = body \<longrightarrow> I s \<longrightarrow> (\<forall>r. oc = Returns r \<longrightarrow> Q r)"
  from ret have eq: "loop_opt body s = Some (Returns r)"
    by (auto simp: loop_c_def split: option.splits)
  have "?P body s (Returns r)"
  proof (rule loop_opt.raw_induct [where P = ?P, OF _ eq])
    fix f b s oc
    assume IH: "\<And>b s oc. f b s = Some oc \<Longrightarrow> ?P b s oc"
      and f: "(case b s of Returns (Inl s') \<Rightarrow> f b s' | Returns (Inr r) \<Rightarrow> Some (Returns r)
               | Faults e \<Rightarrow> Some (Faults e) | Diverges \<Rightarrow> Some Diverges) = Some oc"
    show "?P b s oc"
    proof (intro impI allI)
      fix r assume a: "b = body" "I s" "oc = Returns r"
      show "Q r"
      proof (cases "body s")
        case (Returns c)
        then show ?thesis
        proof (cases c)
          case (Inl s')
          with f a Returns have "f body s' = Some oc" by simp
          from IH [OF this] go [OF a(2)] Returns Inl a(3) show ?thesis by blast
        qed (use f a leave in auto)
      qed (use f a in auto)
    qed
  qed
  with init show ?thesis by blast
qed

text \<open>A loop whose body always goes on, from every state it reaches, never ends.\<close>

lemma loop_c_diverges:
  assumes "I s" and go: "\<And>s. I s \<Longrightarrow> \<exists>s'. body s = Returns (Inl s') \<and> I s'"
  shows "loop_c body s = Diverges"
proof -
  let ?P = "\<lambda>b s oc. b = body \<longrightarrow> \<not> I s"
  have "\<not> I s" if "loop_opt body s = Some oc" for oc s
  proof -
    have "?P body s oc"
    proof (rule loop_opt.raw_induct [where P = ?P, OF _ that])
      fix f b s oc
      assume IH: "\<And>b s oc. f b s = Some oc \<Longrightarrow> ?P b s oc"
        and f: "(case b s of Returns (Inl s') \<Rightarrow> f b s' | Returns (Inr r) \<Rightarrow> Some (Returns r)
                 | Faults e \<Rightarrow> Some (Faults e) | Diverges \<Rightarrow> Some Diverges) = Some oc"
      show "?P b s oc"
      proof (intro impI notI)
        assume b: "b = body" "I s"
        then obtain s' where s': "body s = Returns (Inl s')" "I s'" using go by blast
        with f b have "f body s' = Some oc" by simp
        from IH [OF this] s'(2) show False by simp
      qed
    qed
    then show ?thesis by simp
  qed
  with assms(1) show ?thesis by (auto simp: loop_c_def split: option.splits)
qed

section \<open>Word and bit facts\<close>

text \<open>\<open>1 << k\<close> at the width it is used at.\<close>

definition one_shl :: "nat \<Rightarrow> 'a::len word" where
  "one_shl k = push_bit k 1"

lemma bit_one_shl: "bit (one_shl k :: 'a::len word) j \<longleftrightarrow> j = k \<and> k < LENGTH('a)"
  by (auto simp: one_shl_def bit_simps)

lemma and_one_shl: "(b :: 'a::len word) AND one_shl k \<noteq> 0 \<longleftrightarrow> bit b k"
  by (auto simp: bit_eq_iff [where 'a = "'a word"] bit_simps bit_one_shl dest: bit_imp_le_length)

lemma and_one_shl_0: "(b :: 'a::len word) AND one_shl k = 0 \<longleftrightarrow> \<not> bit b k"
  using and_one_shl by blast

lemma bit_or_one_shl:
  "k < LENGTH('a) \<Longrightarrow> bit ((b :: 'a::len word) OR one_shl k) j \<longleftrightarrow> bit b j \<or> j = k"
  by (auto simp: bit_simps bit_one_shl)

lemma bit_and_not_one_shl:
  "bit ((b :: 'a::len word) AND NOT (one_shl k)) j \<longleftrightarrow> bit b j \<and> j \<noteq> k"
  by (auto simp: bit_simps bit_one_shl dest: bit_imp_le_length)

section \<open>Rings\<close>

text \<open>The \<open>n\<close> elements of a ring of \<open>N\<close> cells that starts at cell \<open>s\<close>.\<close>

definition ring :: "'a list \<Rightarrow> nat \<Rightarrow> nat \<Rightarrow> nat \<Rightarrow> 'a list" where
  "ring buf N s n = map (\<lambda>j. buf ! ((s + j) mod N)) [0..<n]"

lemma length_ring [simp]: "length (ring buf N s n) = n"
  by (simp add: ring_def)

lemma ring_push:
  assumes "n < N" "length buf = N"
  shows "ring (buf[(s + n) mod N := x]) N s (Suc n) = ring buf N s n @ [x]"
proof -
  have ne: "(s + n) mod N \<noteq> (s + j) mod N" if "j < n" for j
  proof
    assume "(s + n) mod N = (s + j) mod N"
    then have "N dvd (s + n) - (s + j)" using that by (simp add: mod_eq_dvd_iff_nat)
    then show False using that assms by (auto dest: dvd_imp_le)
  qed
  have "(s + n) mod N < N" using assms by simp
  with ne assms(2) show ?thesis by (simp add: ring_def)
qed

lemma ring_pop:
  assumes "0 < n"
  shows "ring buf N ((s + 1) mod N) (n - 1) = tl (ring buf N s n)"
proof -
  have "map (\<lambda>j. buf ! (Suc (s + j) mod N)) [0..<n - 1] = map (\<lambda>j. buf ! ((s + j) mod N)) (map Suc [0..<n - 1])"
    by simp
  also have "map Suc [0..<n - 1] = [1..<n]" using assms by (simp add: map_Suc_upt)
  finally show ?thesis using assms by (simp add: ring_def upt_conv_Cons mod_simps)
qed

end
