(* ===== verification/Fifo.thy ===== *)
theory Fifo
  imports Hanos_Prelude
begin

text \<open>
  The queue interface: what the users of a queue of the kernel rely on, whatever holds the
  elements. The task vector and the keyboard ring provide it.
\<close>

fun enqs :: "('s \<Rightarrow> 'a \<Rightarrow> 's outcome) \<Rightarrow> 'a list \<Rightarrow> 's \<Rightarrow> 's outcome" where
  "enqs enq [] s = Returns s"
| "enqs enq (x # xs) s = obind (enq s x) (enqs enq xs)"

fun deqs :: "('s \<Rightarrow> ('a option \<times> 's) outcome) \<Rightarrow> nat \<Rightarrow> 's \<Rightarrow> ('a list \<times> 's) outcome" where
  "deqs deq 0 s = Returns ([], s)"
| "deqs deq (Suc n) s =
     obind (deq s) (\<lambda>(x, s1). case x of None \<Rightarrow> Returns ([], s1)
       | Some y \<Rightarrow> omap (\<lambda>(ys, s2). (y # ys, s2)) (deqs deq n s1))"

locale fifo =
  fixes enq :: "'s \<Rightarrow> 'a \<Rightarrow> 's outcome"
    and deq :: "'s \<Rightarrow> ('a option \<times> 's) outcome"
    and inv :: "'s \<Rightarrow> bool"
    and content :: "'s \<Rightarrow> 'a list"
    and room :: "'s \<Rightarrow> bool"
  assumes enq_law: "inv s \<Longrightarrow> room s \<Longrightarrow> enq s x = Returns s' \<Longrightarrow> inv s' \<and> content s' = content s @ [x]"
    and deq_none: "inv s \<Longrightarrow> content s = [] \<Longrightarrow> deq s = Returns (None, s)"
    and deq_some: "inv s \<Longrightarrow> content s = x # xs \<Longrightarrow>
       \<exists>s'. deq s = Returns (Some x, s') \<and> inv s' \<and> content s' = xs"
begin

lemma drain:
  "inv s \<Longrightarrow> \<exists>s'. deqs deq (length (content s)) s = Returns (content s, s') \<and> inv s' \<and> content s' = []"
proof (induction "content s" arbitrary: s)
  case Nil
  then show ?case by auto
next
  case (Cons x xs)
  from deq_some [OF Cons.prems Cons.hyps(2) [symmetric]] obtain s1 where s1: "deq s = Returns (Some x, s1)"
    "inv s1" "content s1 = xs" by blast
  from Cons.hyps(1) [OF s1(3) [symmetric] s1(2)] obtain s' where
    "deqs deq (length xs) s1 = Returns (xs, s')" "inv s'" "content s' = []" by (auto simp: s1(3))
  with s1(1) Cons.hyps(2) [symmetric] show ?case by simp
qed

lemma enq_then_drain:
  assumes "inv s" and "content s = []" and "room s" and "enq s x = Returns s1"
  shows "\<exists>s2. deq s1 = Returns (Some x, s2) \<and> content s2 = []"
  using enq_law [OF assms(1,3,4)] assms(2) deq_some [of s1 x "[]"] by auto

text \<open>While there is room, whatever is put in comes out again, in the same order.\<close>

lemma fifo_order:
  assumes "inv s" and "content s = []" and "enqs enq xs s = Returns s1"
    and "\<And>s. inv s \<Longrightarrow> length (content s) < length xs \<Longrightarrow> room s"
  shows "\<exists>s2. deqs deq (length xs) s1 = Returns (xs, s2) \<and> content s2 = []"
proof -
  have gen: "inv s \<Longrightarrow> enqs enq ys s = Returns s1 \<Longrightarrow>
     (\<And>s. inv s \<Longrightarrow> length (content s) < k \<Longrightarrow> room s) \<Longrightarrow> length (content s) + length ys \<le> k \<Longrightarrow>
     inv s1 \<and> content s1 = content s @ ys" for s ys k
  proof (induction ys arbitrary: s)
    case Nil
    then show ?case by simp
  next
    case (Cons y ys)
    from Cons.prems(2) obtain t where t: "enq s y = Returns t" "enqs enq ys t = Returns s1"
      by (auto simp: obind_eq_Returns)
    have "room s" using Cons.prems(1,3,4) by simp
    from enq_law [OF Cons.prems(1) this t(1)] have t': "inv t" "content t = content s @ [y]" by auto
    with Cons.IH [OF t'(1) t(2) Cons.prems(3)] Cons.prems(4) show ?case by simp
  qed
  have "inv s1 \<and> content s1 = [] @ xs"
    using gen [OF assms(1,3), of "length xs"] assms(2,4) by simp
  with drain [of s1] show ?thesis by auto
qed

end

end
