(* ===== verification/Pmm.thy ===== *)
theory Pmm
  imports Hanos_Prelude
begin

text \<open>
  The physical memory manager, \<open>core/mm.c\<close> lines 42 to 155 with the macros of
  \<open>core/mm.h\<close>. One bit of \<open>bitmap\<close> per 4 KiB page, set when the page is free. The bitmap is
  a list of bytes, and an access outside it is the fault \<open>OutOfBounds\<close>. Addresses, counts
  and sizes are \<open>uint64_t\<close> values, so every sum and product wraps as in the code.
\<close>

section \<open>Constants and state\<close>

definition PAGE_SIZE :: u64 where "PAGE_SIZE = 4096"
definition BMP_PAGES_PER_BYTE :: u64 where "BMP_PAGES_PER_BYTE = 8"
definition USERSPACE_OFFSET :: u64 where "USERSPACE_OFFSET = 0x1000"
definition MEM_VIRT_OFFSET :: u64 where "MEM_VIRT_OFFSET = 0xffff800000000000"

definition NUM_PAGES :: "u64 \<Rightarrow> u64" where
  "NUM_PAGES num = (num + PAGE_SIZE - 1) div PAGE_SIZE"

definition VIRT_TO_PHYS :: "u64 \<Rightarrow> u64" where "VIRT_TO_PHYS a = a - MEM_VIRT_OFFSET"
definition PHYS_TO_VIRT :: "u64 \<Rightarrow> u64" where "PHYS_TO_VIRT a = a + MEM_VIRT_OFFSET"

text \<open>\<open>bitmap_at\<close> is the value of the pointer \<open>bitmap\<close>, \<open>bitmap\<close> the bytes it points to.\<close>

record mem_info =
  phys_limit :: u64
  total_size :: u64
  free_size :: u64
  bitmap_at :: u64
  bitmap :: "u8 list"

section \<open>The operations\<close>

text \<open>The two index expressions of the bitmap: the byte and the bit of an address.\<close>

definition bm_byte :: "u64 \<Rightarrow> nat" where
  "bm_byte i = unat (i div (PAGE_SIZE * BMP_PAGES_PER_BYTE))"

definition bm_bit :: "u64 \<Rightarrow> nat" where
  "bm_bit i = unat ((i div PAGE_SIZE) mod BMP_PAGES_PER_BYTE)"

definition markused_body :: "u64 \<Rightarrow> u8 list \<Rightarrow> (u8 list + unit) outcome" where
  "markused_body i bm =
     obind (rd bm (bm_byte i)) (\<lambda>b.
     obind (wr bm (bm_byte i) (b AND NOT (one_shl (bm_bit i)))) (\<lambda>bm'. Returns (Inl bm')))"

definition bitmap_markused :: "mem_info \<Rightarrow> u64 \<Rightarrow> u64 \<Rightarrow> mem_info outcome" where
  "bitmap_markused m addr numpages =
     obind (for_u64 addr (addr + numpages * PAGE_SIZE) PAGE_SIZE markused_body (bitmap m))
       (\<lambda>c. case c of Inl bm \<Rightarrow> Returns (m\<lparr>bitmap := bm\<rparr>) | Inr _ \<Rightarrow> Returns m)"

definition isfree_body :: "u8 list \<Rightarrow> u64 \<Rightarrow> bool \<Rightarrow> (bool + bool) outcome" where
  "isfree_body bm i free =
     obind (rd bm (bm_byte i)) (\<lambda>b.
       let free' = (b AND one_shl (bm_bit i) \<noteq> 0)
       in Returns (if \<not> free' then Inr free' else Inl free'))"

definition bitmap_isfree :: "mem_info \<Rightarrow> u64 \<Rightarrow> u64 \<Rightarrow> bool outcome" where
  "bitmap_isfree m addr numpages =
     obind (for_u64 addr (addr + numpages * PAGE_SIZE) PAGE_SIZE (isfree_body (bitmap m)) True)
       (\<lambda>c. case c of Inl free \<Rightarrow> Returns free | Inr free \<Rightarrow> Returns free)"

definition pmm_free_body :: "u64 \<Rightarrow> mem_info \<Rightarrow> (mem_info + unit) outcome" where
  "pmm_free_body i m =
     obind (bitmap_isfree m i 1) (\<lambda>isfree.
       let m1 = (if \<not> isfree then m\<lparr>free_size := free_size m + PAGE_SIZE\<rparr> else m)
       in obind (rd (bitmap m1) (bm_byte i)) (\<lambda>b.
          obind (wr (bitmap m1) (bm_byte i) (b OR one_shl (bm_bit i))) (\<lambda>bm'.
          Returns (Inl (m1\<lparr>bitmap := bm'\<rparr>)))))"

definition pmm_free :: "mem_info \<Rightarrow> u64 \<Rightarrow> u64 \<Rightarrow> mem_info outcome" where
  "pmm_free m addr numpages =
     obind (for_u64 addr (addr + numpages * PAGE_SIZE) PAGE_SIZE pmm_free_body m)
       (\<lambda>c. case c of Inl m' \<Rightarrow> Returns m' | Inr _ \<Rightarrow> Returns m)"

definition pmm_alloc :: "mem_info \<Rightarrow> u64 \<Rightarrow> u64 \<Rightarrow> (bool \<times> mem_info) outcome" where
  "pmm_alloc m addr numpages =
     obind (bitmap_isfree m addr numpages) (\<lambda>isfree.
       if \<not> isfree then Returns (False, m)
       else obind (bitmap_markused m addr numpages) (\<lambda>m1.
              Returns (True, m1\<lparr>free_size := free_size m1 - numpages * PAGE_SIZE\<rparr>)))"

definition pmm_get_body :: "u64 \<Rightarrow> u64 \<Rightarrow> mem_info \<Rightarrow> (mem_info + u64 \<times> mem_info) outcome" where
  "pmm_get_body numpages i m =
     obind (pmm_alloc m i numpages) (\<lambda>(ok, m'). Returns (if ok then Inr (i, m') else Inl m'))"

definition pmm_get :: "mem_info \<Rightarrow> u64 \<Rightarrow> u64 \<Rightarrow> (u64 \<times> mem_info) outcome" where
  "pmm_get m numpages baseaddr =
     obind (for_u64 baseaddr (phys_limit m) PAGE_SIZE (pmm_get_body numpages) m)
       (\<lambda>c. case c of Inl _ \<Rightarrow> Faults Panic | Inr r \<Rightarrow> Returns r)"

text \<open>
  The boot loader's memory map. Its header is not part of the repository; these are the fields
  and the entry types the code names, with one constructor for every other type.
\<close>

datatype memmap_type =
    MEMMAP_USABLE | MEMMAP_BOOTLOADER_RECLAIMABLE | MEMMAP_ACPI_RECLAIMABLE
  | MEMMAP_KERNEL_AND_MODULES | MEMMAP_FRAMEBUFFER | MEMMAP_OTHER

record memmap_entry =
  base :: u64
  elength :: u64
  etype :: memmap_type

text \<open>The three passes of \<open>pmm_init\<close> over the map: limits, a place for the bitmap, population.\<close>

fun pmm_scan :: "memmap_entry list \<Rightarrow> mem_info \<Rightarrow> mem_info" where
  "pmm_scan [] m = m"
| "pmm_scan (e # es) m =
     (let new_limit = base e + elength e;
          m1 = (if new_limit > phys_limit m then m\<lparr>phys_limit := new_limit\<rparr> else m);
          m2 = (if etype e = MEMMAP_USABLE \<or> etype e = MEMMAP_BOOTLOADER_RECLAIMABLE
                   \<or> etype e = MEMMAP_ACPI_RECLAIMABLE \<or> etype e = MEMMAP_KERNEL_AND_MODULES
                then m1\<lparr>total_size := total_size m1 + elength e\<rparr> else m1)
      in pmm_scan es m2)"

fun pmm_place :: "memmap_entry list \<Rightarrow> u64 \<Rightarrow> u64 option \<Rightarrow> u64 option" where
  "pmm_place [] bm_size got = got"
| "pmm_place (e # es) bm_size got =
     (if base e + elength e \<le> 0x100000 then pmm_place es bm_size got
      else if elength e \<ge> bm_size \<and> etype e = MEMMAP_USABLE
      then pmm_place es bm_size
             (case got of None \<Rightarrow> Some (PHYS_TO_VIRT (base e)) | Some a \<Rightarrow> Some a)
      else pmm_place es bm_size got)"

fun pmm_populate :: "memmap_entry list \<Rightarrow> mem_info \<Rightarrow> mem_info outcome" where
  "pmm_populate [] m = Returns m"
| "pmm_populate (e # es) m =
     (if base e + elength e \<le> 0x100000 then pmm_populate es m
      else if etype e = MEMMAP_USABLE
      then obind (pmm_free m (base e) (NUM_PAGES (elength e))) (pmm_populate es)
      else pmm_populate es m)"

text \<open>
  With no entry large enough the pointer keeps its value from static storage, NULL, and the
  \<open>memset\<close> of a non-empty bitmap writes through it.
\<close>

definition pmm_init :: "memmap_entry list \<Rightarrow> mem_info outcome" where
  "pmm_init mmap =
     (let m0 = \<lparr>phys_limit = 0, total_size = 0, free_size = 0, bitmap_at = 0, bitmap = []\<rparr>;
          m1 = pmm_scan mmap m0;
          bm_size = phys_limit m1 div (PAGE_SIZE * BMP_PAGES_PER_BYTE)
      in case pmm_place mmap bm_size None of
           None \<Rightarrow> if bm_size = 0 then obind (pmm_populate mmap m1) (\<lambda>m2.
                        obind (pmm_alloc m2 (VIRT_TO_PHYS 0) (NUM_PAGES bm_size)) (\<lambda>(_, m3). Returns m3))
                   else Faults NullDeref
         | Some a \<Rightarrow>
             obind (pmm_populate mmap (m1\<lparr>bitmap_at := a, bitmap := replicate (unat bm_size) 0\<rparr>)) (\<lambda>m2.
             obind (pmm_alloc m2 (VIRT_TO_PHYS (bitmap_at m2)) (NUM_PAGES bm_size)) (\<lambda>(_, m3).
             Returns m3)))"

text \<open>The figures \<open>pmm_dump_usage\<close> prints: total, free and used memory, in KB and in MB.\<close>

definition usage_figures :: "mem_info \<Rightarrow> u64 list" where
  "usage_figures m =
     (let t = total_size m; f = free_size m; u = t - f
      in [t div 1024, t div (1024 * 1024), f div 1024, f div (1024 * 1024),
          u div 1024, u div (1024 * 1024)])"

section \<open>Pages and the set of free pages\<close>

definition page_of :: "u64 \<Rightarrow> nat" where "page_of a = unat a div 4096"

definition page_run :: "u64 \<Rightarrow> nat \<Rightarrow> nat set" where
  "page_run a n = {page_of a ..< page_of a + n}"

text \<open>A run of \<open>n\<close> pages from \<open>a\<close> whose addresses do not wrap.\<close>

definition no_wrap :: "u64 \<Rightarrow> nat \<Rightarrow> bool" where
  "no_wrap a n \<longleftrightarrow> unat a + n * 4096 < 2 ^ 64"

definition bm_free :: "u8 list \<Rightarrow> nat set" where
  "bm_free bm = {p. p < 8 * length bm \<and> bit (bm ! (p div 8)) (p mod 8)}"

definition free_pages :: "mem_info \<Rightarrow> nat set" where
  "free_pages m = bm_free (bitmap m)"

definition covers :: "mem_info \<Rightarrow> nat \<Rightarrow> bool" where
  "covers m p \<longleftrightarrow> p \<le> 8 * length (bitmap m)"

text \<open>
  The accounting invariant: the bitmap has the size \<open>pmm_init\<close> gives it, and \<open>free_size\<close>
  is the number of bytes in free pages.
\<close>

definition pmm_inv :: "mem_info \<Rightarrow> bool" where
  "pmm_inv m \<longleftrightarrow> length (bitmap m) = unat (phys_limit m) div 32768
     \<and> unat (free_size m) = 4096 * card (free_pages m)"

lemma bm_byte_page: "bm_byte i = page_of i div 8"
  by (simp add: bm_byte_def page_of_def PAGE_SIZE_def BMP_PAGES_PER_BYTE_def unat_div
      div_mult2_eq [symmetric])

lemma bm_bit_page: "bm_bit i = page_of i mod 8"
  by (simp add: bm_bit_def page_of_def PAGE_SIZE_def BMP_PAGES_PER_BYTE_def unat_div unat_mod)

lemmas bm_index = bm_byte_page bm_bit_page

lemma no_wrap_Suc: "no_wrap a (Suc n) \<Longrightarrow> no_wrap (a + 4096) n"
  and page_of_next: "no_wrap a (Suc n) \<Longrightarrow> page_of (a + 4096) = Suc (page_of a)"
  and no_wrap_mono: "no_wrap a n \<Longrightarrow> k \<le> n \<Longrightarrow> no_wrap a k"
proof -
  assume nw: "no_wrap a (Suc n)"
  have "unat (a + of_nat 4096) = unat a + 4096"
    using nw by (intro unat_add_of_nat) (simp add: no_wrap_def)
  then have u: "unat (a + 4096) = unat a + 4096" by simp
  show "no_wrap (a + 4096) n" using nw by (simp add: no_wrap_def u)
  show "page_of (a + 4096) = Suc (page_of a)" by (simp add: page_of_def u)
next
  assume "no_wrap a n" and "k \<le> n"
  then show "no_wrap a k" by (auto simp: no_wrap_def intro: le_less_trans [rotated])
qed

lemma page_of_add: "no_wrap a n \<Longrightarrow> k \<le> n \<Longrightarrow> page_of (a + of_nat (k * 4096)) = page_of a + k"
  using unat_add_of_nat [of a "k * 4096"] no_wrap_mono [of a n k]
  by (simp add: page_of_def no_wrap_def)

lemma finite_bm_free [simp]: "finite (bm_free bm)"
  by (rule finite_subset [of _ "{..< 8 * length bm}"]) (auto simp: bm_free_def)

lemma finite_free_pages [simp]: "finite (free_pages m)"
  by (simp add: free_pages_def)

lemma bm_free_set:
  assumes "p < 8 * length bm"
  shows "bm_free (bm[p div 8 := (bm ! (p div 8)) OR one_shl (p mod 8)]) = insert p (bm_free bm)"
    and "bm_free (bm[p div 8 := (bm ! (p div 8)) AND NOT (one_shl (p mod 8))]) = bm_free bm - {p}"
proof -
  have ix: "p div 8 < length bm" using assms by simp
  have split: "q = p \<longleftrightarrow> q div 8 = p div 8 \<and> q mod 8 = p mod 8" for q :: nat
    by (metis div_mult_mod_eq)
  show "bm_free (bm[p div 8 := (bm ! (p div 8)) OR one_shl (p mod 8)]) = insert p (bm_free bm)"
    using assms ix by (auto simp: bm_free_def nth_list_update bit_or_one_shl split)
  show "bm_free (bm[p div 8 := (bm ! (p div 8)) AND NOT (one_shl (p mod 8))]) = bm_free bm - {p}"
    using assms ix by (auto simp: bm_free_def nth_list_update bit_and_not_one_shl split)
qed

text \<open>A C loop over a run of pages is a \<open>run_list\<close> over the page addresses.\<close>

lemma for_pages:
  assumes "no_wrap addr (unat numpages)"
  shows "for_u64 addr (addr + numpages * PAGE_SIZE) PAGE_SIZE body s
       = run_list body (steps_from addr 4096 (unat numpages)) s"
proof -
  have "unat (addr + of_nat (unat numpages * 4096)) = unat addr + unat numpages * 4096"
    using assms by (intro unat_add_of_nat) (simp add: no_wrap_def)
  then have u: "unat (addr + numpages * PAGE_SIZE) = unat addr + unat numpages * 4096"
    by (simp add: PAGE_SIZE_def)
  have "for_u64 addr (addr + numpages * PAGE_SIZE) (of_nat 4096) body s
      = run_list body (steps_from addr 4096 (unat numpages)) s"
    using assms by (intro for_u64_run_list) (auto simp: u no_wrap_def)
  then show ?thesis by (simp add: PAGE_SIZE_def)
qed

section \<open>What each operation does to the set of free pages\<close>

lemma isfree_body_eq:
  "page_of i < 8 * length bm \<Longrightarrow>
   isfree_body bm i f = Returns (if page_of i \<in> bm_free bm then Inl True else Inr False)"
  by (simp add: isfree_body_def bm_index and_one_shl and_one_shl_0 bm_free_def Let_def)

lemma page_run_Suc: "no_wrap a (Suc n) \<Longrightarrow> page_run a (Suc n) = insert (page_of a) (page_run (a + 4096) n)"
  by (auto simp: page_run_def page_of_next)

lemma page_run_0 [simp]: "page_run a 0 = {}"
  by (simp add: page_run_def)

lemma isfree_run:
  "no_wrap a n \<Longrightarrow> page_of a + n \<le> 8 * length bm \<Longrightarrow>
   run_list (isfree_body bm) (steps_from a 4096 n) True
     = Returns (if page_run a n \<subseteq> bm_free bm then Inl True else Inr False)"
proof (induction n arbitrary: a)
  case 0
  then show ?case by simp
next
  case (Suc n)
  have IH: "run_list (isfree_body bm) (steps_from (a + 4096) 4096 n) True
     = Returns (if page_run (a + 4096) n \<subseteq> bm_free bm then Inl True else Inr False)"
    using Suc.prems by (intro Suc.IH) (auto simp: no_wrap_Suc page_of_next)
  have "page_of a < 8 * length bm" using Suc.prems(2) by simp
  from isfree_body_eq [OF this] show ?case
    using Suc.prems(1) by (simp add: steps_from_Suc IH page_run_Suc)
qed

lemma bitmap_isfree_spec:
  assumes "no_wrap a (unat n)" and "covers m (page_of a + unat n)"
  shows "bitmap_isfree m a n = Returns (page_run a (unat n) \<subseteq> free_pages m)"
  using isfree_run [of a "unat n" "bitmap m"] assms
  by (simp add: bitmap_isfree_def for_pages covers_def free_pages_def)

lemma bitmap_isfree_first:
  assumes "no_wrap a (unat n)" and "0 < unat n" and "covers m (Suc (page_of a))"
    and "page_of a \<notin> free_pages m"
  shows "bitmap_isfree m a n = Returns False"
proof -
  obtain k where k: "unat n = Suc k" using assms(2) by (cases "unat n") auto
  have "page_of a < 8 * length (bitmap m)" using assms(3) by (simp add: covers_def)
  from isfree_body_eq [OF this] assms(4) show ?thesis
    by (simp add: bitmap_isfree_def for_pages [OF assms(1)] k steps_from_Suc free_pages_def)
qed

lemma page_run_1: "page_run a 1 = {page_of a}"
  by (auto simp: page_run_def)

lemma bitmap_isfree_one:
  assumes "no_wrap i 1" and "page_of i < 8 * length (bitmap m)"
  shows "bitmap_isfree m i 1 = Returns (page_of i \<in> free_pages m)"
  using bitmap_isfree_spec [of i 1 m] assms page_run_1 [of i] by (simp add: covers_def)

text \<open>\<open>bitmap_markused\<close> clears exactly the bits of the run.\<close>

lemma used_run:
  "no_wrap a n \<Longrightarrow> page_of a + n \<le> 8 * length bm \<Longrightarrow>
   \<exists>bm'. run_list markused_body (steps_from a 4096 n) bm = Returns (Inl bm')
       \<and> length bm' = length bm \<and> bm_free bm' = bm_free bm - page_run a n"
proof (induction n arbitrary: a bm)
  case 0
  then show ?case by simp
next
  case (Suc n)
  let ?p = "page_of a"
  let ?bm1 = "bm[?p div 8 := (bm ! (?p div 8)) AND NOT (one_shl (?p mod 8))]"
  have p: "?p < 8 * length bm" using Suc.prems(2) by simp
  have step: "markused_body a bm = Returns (Inl ?bm1)"
    using p by (simp add: markused_body_def bm_index)
  have "\<exists>bm'. run_list markused_body (steps_from (a + 4096) 4096 n) ?bm1 = Returns (Inl bm')
      \<and> length bm' = length ?bm1 \<and> bm_free bm' = bm_free ?bm1 - page_run (a + 4096) n"
    using Suc.prems by (intro Suc.IH) (auto simp: no_wrap_Suc page_of_next)
  then obtain bm' where "run_list markused_body (steps_from (a + 4096) 4096 n) ?bm1 = Returns (Inl bm')"
    "length bm' = length bm" "bm_free bm' = bm_free bm - page_run a (Suc n)"
    using Suc.prems(1) by (auto simp: bm_free_set [OF p] page_run_Suc)
  with step show ?case by (simp add: steps_from_Suc)
qed

lemma bitmap_markused_spec:
  assumes "no_wrap a (unat n)" and "covers m (page_of a + unat n)"
  shows "\<exists>m'. bitmap_markused m a n = Returns m' \<and> length (bitmap m') = length (bitmap m)
     \<and> free_pages m' = free_pages m - page_run a (unat n)
     \<and> phys_limit m' = phys_limit m \<and> free_size m' = free_size m \<and> total_size m' = total_size m
     \<and> bitmap_at m' = bitmap_at m"
  using used_run [of a "unat n" "bitmap m"] assms
  by (auto simp: bitmap_markused_def for_pages covers_def free_pages_def)

text \<open>The fields no operation on pages touches.\<close>

definition same_shape :: "mem_info \<Rightarrow> mem_info \<Rightarrow> bool" where
  "same_shape m m' \<longleftrightarrow> phys_limit m' = phys_limit m \<and> total_size m' = total_size m
     \<and> bitmap_at m' = bitmap_at m \<and> length (bitmap m') = length (bitmap m)"

lemma same_shape_refl [simp]: "same_shape m m"
  by (simp add: same_shape_def)

lemma same_shape_trans: "same_shape m1 m2 \<Longrightarrow> same_shape m2 m3 \<Longrightarrow> same_shape m1 m3"
  by (simp add: same_shape_def)

lemma covers_same_shape: "same_shape m m' \<Longrightarrow> covers m' = covers m"
  by (auto simp: same_shape_def covers_def)

lemma pmm_alloc_busy:
  assumes "no_wrap a (unat n)" and "covers m (page_of a + unat n)"
    and "\<not> page_run a (unat n) \<subseteq> free_pages m"
  shows "pmm_alloc m a n = Returns (False, m)"
  using assms(3) by (simp add: pmm_alloc_def bitmap_isfree_spec [OF assms(1,2)])

lemma pmm_alloc_first_busy:
  assumes "no_wrap a (unat n)" and "0 < unat n" and "covers m (Suc (page_of a))"
    and "page_of a \<notin> free_pages m"
  shows "pmm_alloc m a n = Returns (False, m)"
  by (simp add: pmm_alloc_def bitmap_isfree_first [OF assms])

lemma unat_pages: "no_wrap a (unat n) \<Longrightarrow> unat (n * PAGE_SIZE) = unat n * 4096"
  by (simp add: no_wrap_def PAGE_SIZE_def unat_word_ariths)

lemma card_page_run [simp]: "card (page_run a n) = n" "finite (page_run a n)"
  by (simp_all add: page_run_def)

lemma pmm_alloc_ok:
  assumes "no_wrap a (unat n)" and "covers m (page_of a + unat n)"
    and "page_run a (unat n) \<subseteq> free_pages m" and "pmm_inv m"
  shows "\<exists>m'. pmm_alloc m a n = Returns (True, m') \<and> same_shape m m' \<and> pmm_inv m'
     \<and> free_pages m' = free_pages m - page_run a (unat n)
     \<and> unat (free_size m') = unat (free_size m) - unat n * 4096"
proof -
  from bitmap_markused_spec [OF assms(1,2)] obtain m1
    where m1: "bitmap_markused m a n = Returns m1" "length (bitmap m1) = length (bitmap m)"
      "free_pages m1 = free_pages m - page_run a (unat n)" "phys_limit m1 = phys_limit m"
      "free_size m1 = free_size m" "total_size m1 = total_size m" "bitmap_at m1 = bitmap_at m"
    by blast
  let ?m' = "m1\<lparr>free_size := free_size m1 - n * PAGE_SIZE\<rparr>"
  have c: "card (free_pages m - page_run a (unat n)) = card (free_pages m) - unat n"
    using assms(3) by (subst card_Diff_subset) auto
  have le: "unat n \<le> card (free_pages m)"
    using card_mono [OF finite_free_pages assms(3)] by simp
  have fs: "unat (free_size m) = 4096 * card (free_pages m)"
    using assms(4) by (simp add: pmm_inv_def)
  then have "n * PAGE_SIZE \<le> free_size m"
    using le by (simp add: word_le_nat_alt unat_pages [OF assms(1)])
  then have sub: "unat (free_size m - n * PAGE_SIZE) = unat (free_size m) - unat n * 4096"
    by (simp add: unat_sub unat_pages [OF assms(1)])
  have fp: "free_pages ?m' = free_pages m - page_run a (unat n)"
    using m1(3) by (simp add: free_pages_def)
  have "pmm_inv ?m'"
    unfolding pmm_inv_def fp c using assms(4) m1 sub fs by (simp add: pmm_inv_def algebra_simps)
  moreover have "pmm_alloc m a n = Returns (True, ?m')"
    using assms(3) by (simp add: pmm_alloc_def bitmap_isfree_spec [OF assms(1,2)] m1(1))
  ultimately show ?thesis
    using m1 sub fp by (intro exI [of _ ?m']) (simp add: same_shape_def)
qed

text \<open>\<open>pmm_free\<close> adds the run, counting only the pages that were in use.\<close>

lemma card_bm_free: "card (bm_free bm) \<le> 8 * length bm"
  using card_mono [of "{..< 8 * length bm}" "bm_free bm"] by (auto simp: bm_free_def)

lemma pmm_free_step:
  assumes "pmm_inv m" and "no_wrap i 1" and p: "page_of i < 8 * length (bitmap m)"
  shows "\<exists>m'. pmm_free_body i m = Returns (Inl m') \<and> same_shape m m' \<and> pmm_inv m'
     \<and> free_pages m' = insert (page_of i) (free_pages m)"
proof -
  let ?p = "page_of i"
  let ?bm = "(bitmap m)[?p div 8 := (bitmap m ! (?p div 8)) OR one_shl (?p mod 8)]"
  let ?m' = "m\<lparr>free_size := (if ?p \<in> free_pages m then free_size m else free_size m + PAGE_SIZE),
                bitmap := ?bm\<rparr>"
  have step: "pmm_free_body i m = Returns (Inl ?m')"
    using p by (simp add: pmm_free_body_def bitmap_isfree_one [OF assms(2) p] bm_index)
  have fp: "free_pages ?m' = insert ?p (free_pages m)"
    using bm_free_set(1) [OF p] by (simp add: free_pages_def)
  have len: "length (bitmap m) = unat (phys_limit m) div 32768"
    and fs: "unat (free_size m) = 4096 * card (free_pages m)"
    using assms(1) by (simp_all add: pmm_inv_def)
  have lim: "4096 * (8 * length (bitmap m)) < 2 ^ 64"
    unfolding len using unat_u64 [of "phys_limit m"] by simp
  have "card (insert ?p (free_pages m)) \<le> 8 * length (bitmap m)"
    using card_bm_free [of ?bm] fp by (simp add: free_pages_def)
  then have "?p \<notin> free_pages m \<Longrightarrow> 4096 * card (free_pages m) + 4096 < 2 ^ 64"
    using lim by simp
  then have "?p \<notin> free_pages m \<Longrightarrow> unat (free_size m + PAGE_SIZE) = unat (free_size m) + 4096"
    using unat_add_of_nat [of "free_size m" 4096] fs by (simp add: PAGE_SIZE_def)
  then have "pmm_inv ?m'"
    unfolding pmm_inv_def fp using len fs by (simp add: insert_absorb)
  with step fp show ?thesis
    by (intro exI [of _ ?m']) (simp add: same_shape_def)
qed

lemma pmm_free_run:
  "pmm_inv m \<Longrightarrow> no_wrap a n \<Longrightarrow> page_of a + n \<le> 8 * length (bitmap m) \<Longrightarrow>
   \<exists>m'. run_list pmm_free_body (steps_from a 4096 n) m = Returns (Inl m') \<and> same_shape m m'
     \<and> pmm_inv m' \<and> free_pages m' = free_pages m \<union> page_run a n"
proof (induction n arbitrary: a m)
  case 0
  then show ?case by simp
next
  case (Suc n)
  have "no_wrap a 1" using no_wrap_mono [OF Suc.prems(2), of 1] by simp
  with pmm_free_step [of m a] Suc.prems obtain m1 where m1:
    "pmm_free_body a m = Returns (Inl m1)" "same_shape m m1" "pmm_inv m1"
    "free_pages m1 = insert (page_of a) (free_pages m)"
    by auto
  have "\<exists>m'. run_list pmm_free_body (steps_from (a + 4096) 4096 n) m1 = Returns (Inl m') \<and> same_shape m1 m'
     \<and> pmm_inv m' \<and> free_pages m' = free_pages m1 \<union> page_run (a + 4096) n"
    using Suc.prems m1(2,3) by (intro Suc.IH) (auto simp: no_wrap_Suc page_of_next same_shape_def)
  then show ?case
    using m1 Suc.prems(2) by (auto simp: steps_from_Suc page_run_Suc intro: same_shape_trans)
qed

lemma pmm_free_ok:
  assumes "pmm_inv m" and "no_wrap a (unat n)" and "covers m (page_of a + unat n)"
  shows "\<exists>m'. pmm_free m a n = Returns m' \<and> same_shape m m' \<and> pmm_inv m'
     \<and> free_pages m' = free_pages m \<union> page_run a (unat n)"
  using pmm_free_run [of m a "unat n"] assms
  by (auto simp: pmm_free_def for_pages covers_def)

section \<open>The first-fit search\<close>

lemma pmm_get_search:
  assumes "\<And>j. j < k \<Longrightarrow> pmm_alloc m (b + of_nat (j * 4096)) n = Returns (False, m)"
    and "\<And>j. j \<le> k \<Longrightarrow> b + of_nat (j * 4096) < phys_limit m"
    and "pmm_alloc m (b + of_nat (k * 4096)) n = Returns (True, m')"
  shows "for_u64 b (phys_limit m) PAGE_SIZE (pmm_get_body n) m
       = Returns (Inr (b + of_nat (k * 4096), m'))"
  using assms
proof (induction k arbitrary: b)
  case 0
  from 0(2)[of 0] 0(3) show ?case
    by (subst for_u64_unfold) (simp add: pmm_get_body_def)
next
  case (Suc k)
  have shift: "(b + 4096) + of_nat (j * 4096) = b + of_nat (Suc j * 4096)" for j
    by simp
  have "for_u64 (b + 4096) (phys_limit m) PAGE_SIZE (pmm_get_body n) m
      = Returns (Inr ((b + 4096) + of_nat (k * 4096), m'))"
  proof (rule Suc.IH)
    show "pmm_alloc m (b + 4096 + of_nat (j * 4096)) n = Returns (False, m)" if "j < k" for j
      unfolding shift using Suc.prems(1)[of "Suc j"] that by simp
    show "b + 4096 + of_nat (j * 4096) < phys_limit m" if "j \<le> k" for j
      unfolding shift using Suc.prems(2)[of "Suc j"] that by simp
    show "pmm_alloc m (b + 4096 + of_nat (k * 4096)) n = Returns (True, m')"
      unfolding shift by (rule Suc.prems(3))
  qed
  then show ?case
    using Suc.prems(1)[of 0] Suc.prems(2)[of 0] unfolding shift
    by (subst for_u64_unfold) (simp add: pmm_get_body_def PAGE_SIZE_def)
qed

lemma inv_covers_limit:
  assumes "pmm_inv m" and "covers m p"
  shows "p * 4096 \<le> unat (phys_limit m)"
proof -
  have "p * 4096 \<le> (unat (phys_limit m) div 32768) * 32768"
    using assms by (simp add: pmm_inv_def covers_def)
  also have "\<dots> \<le> unat (phys_limit m)" by simp
  finally show ?thesis .
qed

lemma aligned_page: "unat a mod 4096 = 0 \<Longrightarrow> unat a = page_of a * 4096"
  by (simp add: page_of_def) (metis div_mult_mod_eq add.right_neutral)

lemma pmm_get_first_fit_aux:
  assumes inv: "pmm_inv m" and al: "unat b mod 4096 = 0" and n: "0 < unat n"
    and cov: "covers m (page_of b + k + unat n)"
    and fit: "{page_of b + k ..< page_of b + k + unat n} \<subseteq> free_pages m"
    and first: "\<And>j. j < k \<Longrightarrow> \<not> {page_of b + j ..< page_of b + j + unat n} \<subseteq> free_pages m"
  shows "\<exists>m'. pmm_get m n b = Returns (b + of_nat (k * 4096), m') \<and> same_shape m m' \<and> pmm_inv m'
    \<and> free_pages m' = free_pages m - {page_of b + k ..< page_of b + k + unat n}
    \<and> unat (free_size m') = unat (free_size m) - unat n * 4096"
proof -
  have lim: "(page_of b + k + unat n) * 4096 \<le> unat (phys_limit m)"
    by (rule inv_covers_limit [OF inv cov])
  have nw: "no_wrap b (k + unat n)"
    using lim aligned_page [OF al] unat_u64 [of "phys_limit m"]
    by (simp add: no_wrap_def algebra_simps)
  have u: "unat (b + of_nat (j * 4096)) = unat b + j * 4096" if "j \<le> k" for j
    using nw that by (intro unat_add_of_nat) (auto simp: no_wrap_def intro: le_less_trans [rotated])
  have pg: "page_of (b + of_nat (j * 4096)) = page_of b + j" if "j \<le> k" for j
    using page_of_add [OF nw, of j] that by simp
  have nwj: "no_wrap (b + of_nat (j * 4096)) (unat n)" if "j \<le> k" for j
  proof -
    have "unat b + j * 4096 + unat n * 4096 \<le> unat b + (k + unat n) * 4096"
      using that by simp
    then show ?thesis using nw unfolding no_wrap_def u [OF that] by (rule le_less_trans)
  qed
  have covj: "covers m (page_of (b + of_nat (j * 4096)) + unat n)" if "j \<le> k" for j
    unfolding pg [OF that] using cov that by (simp add: covers_def)
  have busy: "pmm_alloc m (b + of_nat (j * 4096)) n = Returns (False, m)" if "j < k" for j
  proof -
    have "j \<le> k" using that by simp
    moreover have "\<not> page_run (b + of_nat (j * 4096)) (unat n) \<subseteq> free_pages m"
      unfolding page_run_def pg [OF \<open>j \<le> k\<close>] by (rule first [OF that])
    ultimately show ?thesis by (intro pmm_alloc_busy nwj covj)
  qed
  have below: "b + of_nat (j * 4096) < phys_limit m" if "j \<le> k" for j
  proof -
    have "(page_of b + j) * 4096 < (page_of b + k + unat n) * 4096"
      using that n by simp
    then show ?thesis
      using lim aligned_page [OF al] u [OF that] by (simp add: word_less_nat_alt algebra_simps)
  qed
  from pmm_alloc_ok [OF nwj covj _ inv, of k] fit obtain m'
    where m': "pmm_alloc m (b + of_nat (k * 4096)) n = Returns (True, m')" "same_shape m m'" "pmm_inv m'"
      "free_pages m' = free_pages m - {page_of b + k ..< page_of b + k + unat n}"
      "unat (free_size m') = unat (free_size m) - unat n * 4096"
    unfolding page_run_def pg [OF order_refl] by blast
  have "pmm_get m n b = Returns (b + of_nat (k * 4096), m')"
    by (simp only: pmm_get_def pmm_get_search [OF busy below m'(1)]) simp
  with m' show ?thesis by blast
qed

text \<open>Reading a result backwards: a successful check means the run lies inside the bitmap.\<close>

lemma isfree_run_inv:
  "no_wrap a n \<Longrightarrow> run_list (isfree_body bm) (steps_from a 4096 n) True = Returns (Inl f) \<Longrightarrow>
   0 < n \<Longrightarrow> page_of a + n \<le> 8 * length bm"
proof (induction n arbitrary: a)
  case 0
  then show ?case by simp
next
  case (Suc n)
  have p: "page_of a < 8 * length bm"
  proof (rule ccontr)
    assume "\<not> page_of a < 8 * length bm"
    then have "length bm \<le> page_of a div 8" by (simp add: less_eq_div_iff_mult_less_eq)
    then show False
      using Suc.prems(2) by (simp add: steps_from_Suc isfree_body_def bm_index)
  qed
  show ?case
  proof (cases "n = 0")
    case True
    with p show ?thesis by simp
  next
    case False
    have "run_list (isfree_body bm) (steps_from (a + 4096) 4096 n) True = Returns (Inl f)"
      using Suc.prems(2) isfree_body_eq [OF p] by (simp add: steps_from_Suc split: if_splits)
    then have "page_of (a + 4096) + n \<le> 8 * length bm"
      using Suc.prems(1) False by (intro Suc.IH) (auto simp: no_wrap_Suc)
    then show ?thesis using page_of_next [OF Suc.prems(1)] by simp
  qed
qed

lemma isfree_exits:
  "run_list (isfree_body bm) is True = Returns c \<Longrightarrow> c = Inl True \<or> c = Inr False"
proof (induction "is")
  case Nil
  then show ?case by simp
next
  case (Cons i "is")
  show ?case
  proof (cases "page_of i < 8 * length bm")
    case True
    with Cons isfree_body_eq [OF True, of True] show ?thesis by (auto split: if_splits)
  next
    case False
    then have "length bm \<le> page_of i div 8" by (simp add: less_eq_div_iff_mult_less_eq)
    with Cons.prems show ?thesis by (simp add: isfree_body_def bm_index)
  qed
qed

lemma page_aligned_next: "unat (i :: u64) mod 4096 = 0 \<Longrightarrow> unat (i + PAGE_SIZE) mod 4096 = 0"
proof -
  assume "unat i mod 4096 = 0"
  then have "(unat i + 4096) mod 4096 = 0" by simp
  moreover have "(unat i + 4096) mod 18446744073709551616 mod 4096 = (unat i + 4096) mod 4096"
    by (rule mod_mod_cancel) simp
  ultimately show ?thesis by (simp add: PAGE_SIZE_def unat_word_ariths)
qed

lemma bitmap_isfree_True:
  assumes "no_wrap a (unat n)" and "0 < unat n" and "bitmap_isfree m a n = Returns True"
  shows "covers m (page_of a + unat n) \<and> page_run a (unat n) \<subseteq> free_pages m"
proof -
  from assms(3) have "run_list (isfree_body (bitmap m)) (steps_from a 4096 (unat n)) True = Returns (Inl True)"
    using isfree_exits [of "bitmap m" "steps_from a 4096 (unat n)"]
    by (cases "run_list (isfree_body (bitmap m)) (steps_from a 4096 (unat n)) True")
      (auto simp: bitmap_isfree_def for_pages [OF assms(1)])
  from isfree_run_inv [OF assms(1) this assms(2)] have cov: "covers m (page_of a + unat n)"
    by (simp add: covers_def)
  with bitmap_isfree_spec [OF assms(1) cov] assms(3) show ?thesis by simp
qed

text \<open>
  A request fits when no run of its length that starts below \<open>phys_limit\<close> wraps. Whatever
  \<open>pmm_get\<close> answers for such a request is a free run, and it is now in use.
\<close>

definition fits :: "mem_info \<Rightarrow> u64 \<Rightarrow> bool" where
  "fits m n \<longleftrightarrow> 0 < unat n \<and> unat (phys_limit m) + unat n * 4096 < 2 ^ 64"

lemma pmm_alloc_inv:
  assumes "pmm_inv m" and "no_wrap a (unat n)" and "0 < unat n" and "pmm_alloc m a n = Returns (ok, m')"
  shows "if ok then page_run a (unat n) \<subseteq> free_pages m \<and> same_shape m m' \<and> pmm_inv m'
           \<and> free_pages m' = free_pages m - page_run a (unat n)
         else m' = m"
proof (cases ok)
  case False
  with assms(4) show ?thesis
    by (auto simp: pmm_alloc_def obind_eq_Returns split: if_splits)
next
  case True
  with assms(4) have "bitmap_isfree m a n = Returns True"
    by (auto simp: pmm_alloc_def obind_eq_Returns split: if_splits)
  from bitmap_isfree_True [OF assms(2,3) this]
  have cov: "covers m (page_of a + unat n)" and sub: "page_run a (unat n) \<subseteq> free_pages m" by auto
  from pmm_alloc_ok [OF assms(2) cov sub assms(1)] assms(4) True sub show ?thesis by auto
qed

lemma pmm_get_inv:
  assumes inv: "pmm_inv m" and "fits m n" and al: "unat b mod 4096 = 0"
    and get: "pmm_get m n b = Returns (a, m')"
  shows "page_run a (unat n) \<subseteq> free_pages m \<and> same_shape m m' \<and> pmm_inv m'
    \<and> free_pages m' = free_pages m - page_run a (unat n)
    \<and> unat a mod 4096 = 0 \<and> a < phys_limit m"
proof -
  let ?I = "\<lambda>i s. s = m \<and> unat i mod 4096 = 0"
  let ?Q = "\<lambda>(a, m'). page_run a (unat n) \<subseteq> free_pages m \<and> same_shape m m' \<and> pmm_inv m'
    \<and> free_pages m' = free_pages m - page_run a (unat n)
    \<and> unat a mod 4096 = 0 \<and> a < phys_limit m"
  from get obtain c where c: "for_u64 b (phys_limit m) PAGE_SIZE (pmm_get_body n) m = Returns c"
    and c_eq: "(case c of Inl _ \<Rightarrow> Faults Panic | Inr r \<Rightarrow> Returns r) = Returns (a, m')"
    by (auto simp: pmm_get_def obind_eq_Returns)
  have "case c of Inl s' \<Rightarrow> True | Inr r \<Rightarrow> ?Q r"
  proof (rule for_u64_rule [OF c, where I = ?I])
    show "?I b m" using al by simp
  next
    fix i s s' assume "?I i s" "i < phys_limit m" "pmm_get_body n i s = Returns (Inl s')"
    moreover from this have "no_wrap i (unat n)"
      using assms(2) by (auto simp: fits_def no_wrap_def word_less_nat_alt)
    ultimately show "?I (i + PAGE_SIZE) s'"
      using pmm_alloc_inv [OF inv _ _, of i n False s'] assms(2) page_aligned_next
      by (auto simp: pmm_get_body_def obind_eq_Returns fits_def split: if_splits)
  next
    fix i s r assume i: "?I i s" "i < phys_limit m" "pmm_get_body n i s = Returns (Inr r)"
    then have "no_wrap i (unat n)"
      using assms(2) by (auto simp: fits_def no_wrap_def word_less_nat_alt)
    moreover from i obtain m1 where "pmm_alloc m i n = Returns (True, m1)" "r = (i, m1)"
      by (auto simp: pmm_get_body_def obind_eq_Returns split: if_splits)
    ultimately show "?Q r"
      using pmm_alloc_inv [OF inv _ _, of i n True m1] i assms(2) by (auto simp: fits_def)
  qed simp
  with c_eq show ?thesis by (auto split: sum.splits)
qed

section \<open>The allocator interface\<close>

text \<open>
  What the clients of the page allocator (\<open>kmalloc\<close>, the page tables) rely on, over any state
  with a set of available pages: a successful request takes an available run away, and a release
  gives a run back.
\<close>

locale page_allocator =
  fixes get :: "'s \<Rightarrow> u64 \<Rightarrow> u64 \<Rightarrow> (u64 \<times> 's) outcome"
    and release :: "'s \<Rightarrow> u64 \<Rightarrow> u64 \<Rightarrow> 's outcome"
    and avail :: "'s \<Rightarrow> nat set"
    and managed :: "'s \<Rightarrow> nat \<Rightarrow> bool"
    and ok :: "'s \<Rightarrow> u64 \<Rightarrow> bool"
    and inv :: "'s \<Rightarrow> bool"
  assumes get_law:
    "inv s \<Longrightarrow> ok s n \<Longrightarrow> unat b mod 4096 = 0 \<Longrightarrow> get s n b = Returns (a, s') \<Longrightarrow>
       inv s' \<and> page_run a (unat n) \<subseteq> avail s \<and> avail s' = avail s - page_run a (unat n)
       \<and> unat a mod 4096 = 0 \<and> no_wrap a (unat n) \<and> managed s (page_of a + unat n)
       \<and> managed s' = managed s \<and> ok s' = ok s"
    and release_law:
    "inv s \<Longrightarrow> no_wrap a (unat n) \<Longrightarrow> managed s (page_of a + unat n) \<Longrightarrow>
       \<exists>s'. release s a n = Returns s' \<and> inv s' \<and> avail s' = avail s \<union> page_run a (unat n)
         \<and> managed s' = managed s \<and> ok s' = ok s"
begin

lemma get_get_disjoint:
  assumes "inv s" and "ok s n1" and "ok s n2" and "unat b1 mod 4096 = 0" and "unat b2 mod 4096 = 0"
    and "get s n1 b1 = Returns (a1, s1)" and "get s1 n2 b2 = Returns (a2, s2)"
  shows "page_run a1 (unat n1) \<inter> page_run a2 (unat n2) = {}"
  using get_law [OF assms(1,2,4,6)] get_law [of s1 n2 b2 a2 s2] assms(3,5,7) by auto

lemma get_release:
  assumes "inv s" and "ok s n" and "unat b mod 4096 = 0" and "get s n b = Returns (a, s1)"
  shows "\<exists>s2. release s1 a n = Returns s2 \<and> inv s2 \<and> avail s2 = avail s
     \<and> managed s2 = managed s \<and> ok s2 = ok s"
proof -
  from get_law [OF assms] have g: "inv s1" "page_run a (unat n) \<subseteq> avail s"
    "avail s1 = avail s - page_run a (unat n)" "no_wrap a (unat n)" "managed s1 (page_of a + unat n)"
    "managed s1 = managed s" "ok s1 = ok s"
    by auto
  from release_law [OF g(1,4,5)] g show ?thesis by auto
qed

lemma get_keeps_others:
  assumes "inv s" and "ok s n" and "unat b mod 4096 = 0" and "get s n b = Returns (a, s1)"
    and "used \<inter> avail s = {}"
  shows "used \<inter> page_run a (unat n) = {} \<and> used \<inter> avail s1 = {}"
  using get_law [OF assms(1-4)] assms(5) by auto

end

lemma fits_same_shape: "same_shape m m' \<Longrightarrow> fits m' = fits m"
  by (rule ext) (simp add: same_shape_def fits_def)

interpretation pmm: page_allocator pmm_get pmm_free free_pages covers fits pmm_inv
proof unfold_locales
  fix s n b a s'
  assume a: "pmm_inv s" "fits s n" "unat b mod 4096 = 0" "pmm_get s n b = Returns (a, s')"
  from pmm_get_inv [OF a] have g: "page_run a (unat n) \<subseteq> free_pages s" "same_shape s s'" "pmm_inv s'"
    "free_pages s' = free_pages s - page_run a (unat n)" "unat a mod 4096 = 0" "a < phys_limit s"
    by auto
  from a(2) g(6) have nw: "no_wrap a (unat n)" by (auto simp: fits_def no_wrap_def word_less_nat_alt)
  have "0 < unat n" using a(2) by (simp add: fits_def)
  then have "page_of a + unat n - 1 \<in> page_run a (unat n)" by (auto simp: page_run_def)
  with g(1) have "page_of a + unat n - 1 < 8 * length (bitmap s)" by (auto simp: free_pages_def bm_free_def)
  with \<open>0 < unat n\<close> have "covers s (page_of a + unat n)" by (simp add: covers_def)
  with g nw show "pmm_inv s' \<and> page_run a (unat n) \<subseteq> free_pages s
       \<and> free_pages s' = free_pages s - page_run a (unat n) \<and> unat a mod 4096 = 0
       \<and> no_wrap a (unat n) \<and> covers s (page_of a + unat n) \<and> covers s' = covers s \<and> fits s' = fits s"
    using covers_same_shape fits_same_shape by blast
next
  fix s :: mem_info and a n :: u64
  assume a: "pmm_inv s" "no_wrap a (unat n)" "covers s (page_of a + unat n)"
  from pmm_free_ok [OF a] show "\<exists>s'. pmm_free s a n = Returns s' \<and> pmm_inv s'
      \<and> free_pages s' = free_pages s \<union> page_run a (unat n) \<and> covers s' = covers s \<and> fits s' = fits s"
    using covers_same_shape fits_same_shape by blast
qed

section \<open>Start-up\<close>

definition entry_usable :: "memmap_entry \<Rightarrow> bool" where
  "entry_usable e \<longleftrightarrow> etype e = MEMMAP_USABLE \<and> \<not> base e + elength e \<le> 0x100000"

definition entry_pages :: "memmap_entry \<Rightarrow> nat set" where
  "entry_pages e = page_run (base e) (unat (elength e) div 4096)"

text \<open>
  What the boot protocol promises of a map: no entry wraps, usable entries are page aligned, and
  (an assumption of this kernel) the limit is a multiple of the 32 KiB one bitmap byte stands for.
\<close>

definition sane_entry :: "u64 \<Rightarrow> memmap_entry \<Rightarrow> bool" where
  "sane_entry lim e \<longleftrightarrow> unat (base e) + unat (elength e) \<le> unat lim
     \<and> (etype e = MEMMAP_USABLE \<longrightarrow> unat (base e) mod 4096 = 0 \<and> unat (elength e) mod 4096 = 0)"

lemma NUM_PAGES_unat: "unat n + 4095 < 2 ^ 64 \<Longrightarrow> unat (NUM_PAGES n) = (unat n + 4095) div 4096"
proof -
  assume "unat n + 4095 < 2 ^ 64"
  then have "unat (n + of_nat 4095) = unat n + 4095" by (rule unat_add_of_nat)
  moreover have "n + PAGE_SIZE - 1 = n + of_nat 4095" by (simp add: PAGE_SIZE_def)
  ultimately show ?thesis by (simp only: NUM_PAGES_def) (simp add: PAGE_SIZE_def unat_div)
qed

lemma NUM_PAGES_aligned: "unat n mod 4096 = 0 \<Longrightarrow> unat (NUM_PAGES n) = unat n div 4096"
proof -
  assume al: "unat n mod 4096 = 0"
  from al obtain k where k: "unat n = 4096 * k" by (auto simp: mod_eq_0_iff_dvd)
  then have "4096 * k < 4096 * 2 ^ 52" using unat_u64 [of n] by simp
  then have "k < 2 ^ 52" by simp
  then have "4096 * k + 4095 < 2 ^ 64" by simp
  then show ?thesis using k by (simp add: NUM_PAGES_unat)
qed

lemma pmm_scan_fields:
  "bitmap (pmm_scan es m) = bitmap m" "bitmap_at (pmm_scan es m) = bitmap_at m"
  "free_size (pmm_scan es m) = free_size m"
  by (induction es arbitrary: m) (auto simp: Let_def)

lemma pmm_populate_spec:
  "pmm_inv m \<Longrightarrow> unat (phys_limit m) mod 32768 = 0 \<Longrightarrow> (\<And>e. e \<in> set es \<Longrightarrow> sane_entry (phys_limit m) e) \<Longrightarrow>
   \<exists>m'. pmm_populate es m = Returns m' \<and> same_shape m m' \<and> pmm_inv m'
     \<and> free_pages m' = free_pages m \<union> (\<Union>e \<in> set (filter entry_usable es). entry_pages e)"
proof (induction es arbitrary: m)
  case Nil
  then show ?case by simp
next
  case (Cons e es)
  show ?case
  proof (cases "entry_usable e")
    case False
    with Cons show ?thesis by (simp add: entry_usable_def)
  next
    case True
    have sane: "unat (base e) + unat (elength e) \<le> unat (phys_limit m)"
      "unat (base e) mod 4096 = 0" "unat (elength e) mod 4096 = 0"
      using Cons.prems(3)[of e] True by (auto simp: sane_entry_def entry_usable_def)
    have np: "unat (NUM_PAGES (elength e)) = unat (elength e) div 4096"
      by (rule NUM_PAGES_aligned [OF sane(3)])
    from sane(2,3) Cons.prems(2) obtain x y z where xyz: "unat (base e) = 4096 * x"
      "unat (elength e) = 4096 * y" "unat (phys_limit m) = 32768 * z"
      by (auto simp: mod_eq_0_iff_dvd elim!: dvdE)
    have nw: "no_wrap (base e) (unat (NUM_PAGES (elength e)))"
      using sane(1) xyz unat_u64 [of "phys_limit m"] by (simp add: no_wrap_def np)
    have "length (bitmap m) = z" using Cons.prems(1) xyz by (simp add: pmm_inv_def)
    then have "covers m (page_of (base e) + unat (NUM_PAGES (elength e)))"
      using sane(1) xyz by (simp add: covers_def page_of_def np)
    from pmm_free_ok [OF Cons.prems(1) nw this] obtain m1 where m1:
      "pmm_free m (base e) (NUM_PAGES (elength e)) = Returns m1" "same_shape m m1" "pmm_inv m1"
      "free_pages m1 = free_pages m \<union> entry_pages e"
      by (auto simp: entry_pages_def np)
    have "phys_limit m1 = phys_limit m" using m1(2) by (simp add: same_shape_def)
    with Cons.IH [OF m1(3)] Cons.prems obtain m' where m':
      "pmm_populate es m1 = Returns m'" "same_shape m1 m'" "pmm_inv m'"
      "free_pages m' = free_pages m1 \<union> (\<Union>e \<in> set (filter entry_usable es). entry_pages e)"
      by auto
    with m1 True show ?thesis
      by (auto simp: entry_usable_def intro: same_shape_trans)
  qed
qed

lemma pmm_place_spec:
  "pmm_place es sz got = Some a \<Longrightarrow>
   got = Some a \<or> (\<exists>e \<in> set es. entry_usable e \<and> sz \<le> elength e \<and> a = PHYS_TO_VIRT (base e))"
proof (induction es arbitrary: got)
  case Nil
  then show ?case by simp
next
  case (Cons e es)
  let ?hit = "\<not> base e + elength e \<le> 0x100000 \<and> sz \<le> elength e \<and> etype e = MEMMAP_USABLE"
  show ?case
  proof (cases "?hit \<and> got = None")
    case True
    with Cons.prems Cons.IH [of "Some (PHYS_TO_VIRT (base e))"] show ?thesis
      by (auto simp: entry_usable_def)
  next
    case False
    then have "pmm_place es sz got = Some a"
      using Cons.prems by (auto split: if_splits option.splits)
    with Cons.IH show ?thesis by auto
  qed
qed

lemma VIRT_PHYS [simp]: "VIRT_TO_PHYS (PHYS_TO_VIRT a) = a"
  by (simp add: VIRT_TO_PHYS_def PHYS_TO_VIRT_def)

definition boot_state :: "memmap_entry list \<Rightarrow> mem_info" where
  "boot_state mmap = pmm_scan mmap \<lparr>phys_limit = 0, total_size = 0, free_size = 0, bitmap_at = 0, bitmap = []\<rparr>"

definition sane_map :: "memmap_entry list \<Rightarrow> bool" where
  "sane_map mmap \<longleftrightarrow> list_all (sane_entry (phys_limit (boot_state mmap))) mmap
     \<and> unat (phys_limit (boot_state mmap)) mod 32768 = 0"

definition boot_bm_size :: "memmap_entry list \<Rightarrow> u64" where
  "boot_bm_size mmap = phys_limit (boot_state mmap) div (PAGE_SIZE * BMP_PAGES_PER_BYTE)"

lemma pmm_init_eq:
  "pmm_place mmap (boot_bm_size mmap) None = Some a \<Longrightarrow>
   pmm_init mmap = obind (pmm_populate mmap ((boot_state mmap)\<lparr>bitmap_at := a,
                      bitmap := replicate (unat (boot_bm_size mmap)) 0\<rparr>)) (\<lambda>m2.
     obind (pmm_alloc m2 (VIRT_TO_PHYS (bitmap_at m2)) (NUM_PAGES (boot_bm_size mmap))) (\<lambda>(_, m3). Returns m3))"
  by (simp add: pmm_init_def boot_state_def boot_bm_size_def Let_def)

lemma bm_free_zero: "bm_free (replicate n 0) = {}"
  by (auto simp: bm_free_def)

lemma bitmap_pages_fit:
  assumes "sane_entry (phys_limit m) e" and "entry_usable e" and "sz \<le> elength e"
  shows "unat (NUM_PAGES sz) \<le> unat (elength e) div 4096"
proof -
  from assms(1,2) obtain x y where xy: "unat (base e) = 4096 * x" "unat (elength e) = 4096 * y"
    by (auto simp: sane_entry_def entry_usable_def mod_eq_0_iff_dvd elim!: dvdE)
  have "4096 * y < 4096 * 2 ^ 52" using xy unat_u64 [of "elength e"] by simp
  then have "y < 2 ^ 52" by simp
  moreover have le: "unat sz \<le> 4096 * y" using assms(3) xy by (simp add: word_le_nat_alt)
  ultimately have "unat sz + 4095 < 2 ^ 64" by simp
  moreover have "(unat sz + 4095) div 4096 \<le> (4096 * y + 4095) div 4096"
    using le by (intro div_le_mono) simp
  ultimately show ?thesis using xy by (simp add: NUM_PAGES_unat)
qed

lemma pmm_init_aux:
  assumes sane: "sane_map mmap" and place: "pmm_place mmap (boot_bm_size mmap) None = Some a"
  shows "\<exists>m. pmm_init mmap = Returns m \<and> pmm_inv m \<and> phys_limit m = phys_limit (boot_state mmap)
     \<and> free_pages m = (\<Union>e \<in> set (filter entry_usable mmap). entry_pages e)
         - page_run (VIRT_TO_PHYS a) (unat (NUM_PAGES (boot_bm_size mmap)))"
proof -
  let ?m1 = "(boot_state mmap)\<lparr>bitmap_at := a, bitmap := replicate (unat (boot_bm_size mmap)) 0\<rparr>"
  have bs: "unat (boot_bm_size mmap) = unat (phys_limit (boot_state mmap)) div 32768"
    by (simp add: boot_bm_size_def PAGE_SIZE_def BMP_PAGES_PER_BYTE_def unat_div)
  have inv1: "pmm_inv ?m1"
    by (simp add: pmm_inv_def bs free_pages_def bm_free_zero)
      (simp add: boot_state_def pmm_scan_fields)
  have free1: "free_pages ?m1 = {}" by (simp add: free_pages_def bm_free_zero)
  have lim1: "phys_limit ?m1 = phys_limit (boot_state mmap)" by simp
  have al1: "unat (phys_limit ?m1) mod 32768 = 0" using sane by (simp add: sane_map_def)
  have se1: "sane_entry (phys_limit ?m1) e" if "e \<in> set mmap" for e
    using sane that by (simp add: sane_map_def list_all_iff)
  obtain m2 where m2: "pmm_populate mmap ?m1 = Returns m2" "same_shape ?m1 m2" "pmm_inv m2"
    "free_pages m2 = (\<Union>e \<in> set (filter entry_usable mmap). entry_pages e)"
    using pmm_populate_spec [OF inv1 al1, of mmap, OF se1] free1 by auto
  have m2f: "bitmap_at m2 = a" "phys_limit m2 = phys_limit (boot_state mmap)"
    using m2(2) by (simp_all add: same_shape_def)
  obtain e where e: "e \<in> set mmap" "entry_usable e" "boot_bm_size mmap \<le> elength e" "a = PHYS_TO_VIRT (base e)"
    using pmm_place_spec [OF place] by auto
  have see: "sane_entry (phys_limit m2) e"
    using sane e(1) m2f by (simp add: sane_map_def list_all_iff)
  have fit: "unat (NUM_PAGES (boot_bm_size mmap)) \<le> unat (elength e) div 4096"
    by (rule bitmap_pages_fit [OF see e(2,3)])
  let ?n = "NUM_PAGES (boot_bm_size mmap)"
  have sub: "page_run (base e) (unat ?n) \<subseteq> free_pages m2"
  proof -
    have "page_run (base e) (unat ?n) \<subseteq> entry_pages e"
      using fit by (auto simp: entry_pages_def page_run_def)
    with e(1,2) show ?thesis unfolding m2(4) by auto
  qed
  have le: "unat (base e) + unat ?n * 4096 \<le> unat (phys_limit m2)"
  proof -
    have "unat ?n * 4096 \<le> unat (elength e) div 4096 * 4096" using fit by simp
    also have "\<dots> \<le> unat (elength e)" by simp
    finally show ?thesis using see by (simp add: sane_entry_def)
  qed
  then have nw: "no_wrap (base e) (unat ?n)"
    using unat_u64 [of "phys_limit m2"] by (simp add: no_wrap_def)
  from al1 m2f obtain z where z: "unat (phys_limit m2) = 32768 * z"
    by (auto simp: mod_eq_0_iff_dvd elim!: dvdE)
  have "unat (base e) = page_of (base e) * 4096"
    using see e(2) by (intro aligned_page) (simp add: sane_entry_def entry_usable_def)
  then have "(page_of (base e) + unat ?n) * 4096 \<le> 8 * z * 4096" using le z by simp
  then have cov: "covers m2 (page_of (base e) + unat ?n)"
    using m2(3) z by (simp add: covers_def pmm_inv_def)
  from pmm_alloc_ok [OF nw cov sub m2(3)] obtain m3 where
    "pmm_alloc m2 (base e) ?n = Returns (True, m3)" "same_shape m2 m3" "pmm_inv m3"
    "free_pages m3 = free_pages m2 - page_run (base e) (unat ?n)" by auto
  then show ?thesis
    using m2 m2f e(4) by (simp add: pmm_init_eq [OF place] same_shape_def)
qed

section \<open>A request the bitmap cannot answer\<close>

lemma isfree_run_busy:
  "no_wrap a n \<Longrightarrow> page_of a + k < 8 * length bm \<Longrightarrow> k < n \<Longrightarrow> page_of a + k \<notin> bm_free bm \<Longrightarrow>
   run_list (isfree_body bm) (steps_from a 4096 n) True = Returns (Inr False)"
proof (induction n arbitrary: a k)
  case 0
  then show ?case by simp
next
  case (Suc n)
  have p: "page_of a < 8 * length bm" using Suc.prems(2) by simp
  show ?case
  proof (cases "page_of a \<in> bm_free bm")
    case False
    then show ?thesis by (simp add: steps_from_Suc isfree_body_eq [OF p])
  next
    case True
    then obtain k' where k': "k = Suc k'" using Suc.prems(4) by (cases k) auto
    have "run_list (isfree_body bm) (steps_from (a + 4096) 4096 n) True = Returns (Inr False)"
      using Suc.prems k' by (intro Suc.IH [of _ k']) (auto simp: no_wrap_Suc page_of_next)
    then show ?thesis using True by (simp add: steps_from_Suc isfree_body_eq [OF p])
  qed
qed

lemma isfree_run_off_end:
  "no_wrap a n \<Longrightarrow> page_of a \<le> 8 * length bm \<Longrightarrow> 8 * length bm < page_of a + n \<Longrightarrow>
   {page_of a ..< 8 * length bm} \<subseteq> bm_free bm \<Longrightarrow>
   run_list (isfree_body bm) (steps_from a 4096 n) True = Faults OutOfBounds"
proof (induction n arbitrary: a)
  case 0
  then show ?case by simp
next
  case (Suc n)
  show ?case
  proof (cases "page_of a < 8 * length bm")
    case False
    then have "length bm \<le> page_of a div 8" by (simp add: less_eq_div_iff_mult_less_eq)
    then show ?thesis by (simp add: steps_from_Suc isfree_body_def bm_index)
  next
    case True
    have "run_list (isfree_body bm) (steps_from (a + 4096) 4096 n) True = Faults OutOfBounds"
      using Suc.prems True by (intro Suc.IH) (auto simp: no_wrap_Suc page_of_next)
    moreover have "page_of a \<in> bm_free bm" using Suc.prems(4) True by auto
    ultimately show ?thesis by (simp add: steps_from_Suc isfree_body_eq [OF True])
  qed
qed

lemma pmm_alloc_busy_at:
  assumes "no_wrap a (unat n)" and "k < unat n" and "covers m (Suc (page_of a + k))"
    and "page_of a + k \<notin> free_pages m"
  shows "pmm_alloc m a n = Returns (False, m)"
proof -
  have "run_list (isfree_body (bitmap m)) (steps_from a 4096 (unat n)) True = Returns (Inr False)"
    using assms by (intro isfree_run_busy [of _ _ k]) (simp_all add: covers_def free_pages_def)
  then have "bitmap_isfree m a n = Returns False"
    by (simp add: bitmap_isfree_def for_pages [OF assms(1)])
  then show ?thesis by (simp add: pmm_alloc_def)
qed

lemma pmm_get_search_none:
  assumes "\<And>j. j < k \<Longrightarrow> pmm_alloc m (b + of_nat (j * 4096)) n = Returns (False, m)"
    and "\<And>j. j < k \<Longrightarrow> b + of_nat (j * 4096) < phys_limit m"
  shows "for_u64 b (phys_limit m) PAGE_SIZE (pmm_get_body n) m
       = for_u64 (b + of_nat (k * 4096)) (phys_limit m) PAGE_SIZE (pmm_get_body n) m"
  using assms
proof (induction k)
  case 0
  then show ?case by simp
next
  case (Suc k)
  have "for_u64 b (phys_limit m) PAGE_SIZE (pmm_get_body n) m
      = for_u64 (b + of_nat (k * 4096)) (phys_limit m) PAGE_SIZE (pmm_get_body n) m"
    using Suc.prems by (intro Suc.IH) simp_all
  also have "\<dots> = for_u64 (b + of_nat (k * 4096) + PAGE_SIZE) (phys_limit m) PAGE_SIZE (pmm_get_body n) m"
    using Suc.prems [of k] by (subst for_u64_unfold) (simp add: pmm_get_body_def)
  also have "b + of_nat (k * 4096) + PAGE_SIZE = b + of_nat (Suc k * 4096)"
    by (simp add: PAGE_SIZE_def algebra_simps)
  finally show ?case .
qed

text \<open>
  No run of \<open>n\<close> free pages lies inside the bitmap from page \<open>p\<close> on. The search then gets to
  the last pages; \<open>tail_from q\<close> says that the pages from \<open>q\<close> to the end of the bitmap are free.
\<close>

definition no_run :: "mem_info \<Rightarrow> nat \<Rightarrow> nat \<Rightarrow> bool" where
  "no_run m p n \<longleftrightarrow> (\<forall>q \<ge> p. q + n \<le> 8 * length (bitmap m) \<longrightarrow> \<not> {q ..< q + n} \<subseteq> free_pages m)"

lemma no_run_busy:
  assumes "no_run m p n" and "p \<le> q" and "q \<le> r" and "r < 8 * length (bitmap m)" and "r \<notin> free_pages m"
    and "0 < n"
  shows "\<exists>t. t < n \<and> q + t < 8 * length (bitmap m) \<and> q + t \<notin> free_pages m"
proof (cases "q + n \<le> 8 * length (bitmap m)")
  case True
  with assms(1,2) have "\<not> {q ..< q + n} \<subseteq> free_pages m" by (simp add: no_run_def)
  then obtain x where "x \<in> {q ..< q + n}" "x \<notin> free_pages m" by blast
  with True show ?thesis by (intro exI [of _ "x - q"]) auto
next
  case False
  with assms(3-5) show ?thesis by (intro exI [of _ "r - q"]) auto
qed

lemma search_step_facts:
  assumes "pmm_inv m" and "fits m n" and "unat b mod 4096 = 0" and "page_of b + j < 8 * length (bitmap m)"
  shows "no_wrap (b + of_nat (j * 4096)) (unat n)" and "page_of (b + of_nat (j * 4096)) = page_of b + j"
    and "b + of_nat (j * 4096) < phys_limit m"
    and "unat (b + of_nat (j * 4096)) = (page_of b + j) * 4096"
proof -
  have lim: "Suc (page_of b + j) * 4096 \<le> unat (phys_limit m)"
    using assms(4) by (intro inv_covers_limit [OF assms(1)]) (simp add: covers_def)
  have b: "unat b = page_of b * 4096" by (rule aligned_page [OF assms(3)])
  have u: "unat (b + of_nat (j * 4096)) = unat b + j * 4096"
    using lim b unat_u64 [of "phys_limit m"] by (intro unat_add_of_nat) simp
  show u': "unat (b + of_nat (j * 4096)) = (page_of b + j) * 4096" using u b by simp
  show lt: "b + of_nat (j * 4096) < phys_limit m" using u' lim by (simp only: word_less_nat_alt) simp
  show "no_wrap (b + of_nat (j * 4096)) (unat n)"
    using assms(2) lt by (simp only: fits_def no_wrap_def word_less_nat_alt) simp
  show "page_of (b + of_nat (j * 4096)) = page_of b + j" by (simp only: page_of_def u') simp
qed

lemma pmm_get_panics_aux:
  assumes inv: "pmm_inv m" and fits: "fits m n" and al: "unat b mod 4096 = 0"
    and lim: "unat (phys_limit m) mod 32768 = 0" and b: "b \<le> phys_limit m"
    and none: "no_run m (page_of b) (unat n)"
    and last: "8 * length (bitmap m) - 1 \<notin> free_pages m"
  shows "pmm_get m n b = Faults Panic"
proof -
  let ?P = "8 * length (bitmap m)"
  from lim obtain z where z: "unat (phys_limit m) = 32768 * z" by (auto simp: mod_eq_0_iff_dvd elim!: dvdE)
  have P: "unat (phys_limit m) = ?P * 4096" using inv z by (simp add: pmm_inv_def)
  have ub: "unat b = page_of b * 4096" by (rule aligned_page [OF al])
  have le: "page_of b \<le> ?P" using b P ub by (simp add: word_le_nat_alt)
  have busy: "pmm_alloc m (b + of_nat (j * 4096)) n = Returns (False, m)" if j: "j < ?P - page_of b" for j
  proof -
    have jP: "page_of b + j < ?P" using j by simp
    note f = search_step_facts [OF inv fits al jP]
    have le1: "page_of b + j \<le> ?P - 1" and lt1: "?P - 1 < ?P" using jP by linarith+
    have "0 < unat n" using fits by (simp add: fits_def)
    then obtain t where "t < unat n" "page_of b + j + t < ?P" "page_of b + j + t \<notin> free_pages m"
      using no_run_busy [OF none le_add1 le1 lt1 last] by blast
    with f show ?thesis by (intro pmm_alloc_busy_at [of _ _ t]) (simp_all only: covers_def, simp)
  qed
  have below: "b + of_nat (j * 4096) < phys_limit m" if "j < ?P - page_of b" for j
    using search_step_facts(3) [OF inv fits al, of j] that by simp
  have "unat (b + of_nat ((?P - page_of b) * 4096)) = unat b + (?P - page_of b) * 4096"
    using le ub P unat_u64 [of "phys_limit m"] by (intro unat_add_of_nat) (simp add: algebra_simps)
  then have "unat (b + of_nat ((?P - page_of b) * 4096)) = unat (phys_limit m)"
    using le ub P by (simp add: algebra_simps)
  then have stop: "\<not> b + of_nat ((?P - page_of b) * 4096) < phys_limit m"
    by (simp only: word_less_nat_alt)
  have "for_u64 b (phys_limit m) PAGE_SIZE (pmm_get_body n) m = Returns (Inl m)"
    by (simp only: pmm_get_search_none [OF busy below]) (simp only: for_u64_unfold [of "b + _"] stop if_False)
  then show ?thesis by (simp add: pmm_get_def)
qed

lemma pmm_get_overruns_aux:
  assumes inv: "pmm_inv m" and fits: "fits m n" and al: "unat b mod 4096 = 0"
    and none: "no_run m (page_of b) (unat n)"
    and last: "8 * length (bitmap m) - 1 \<in> free_pages m" and b: "page_of b < 8 * length (bitmap m)"
  shows "pmm_get m n b = Faults OutOfBounds"
proof -
  let ?P = "8 * length (bitmap m)" let ?F = "free_pages m"
  define q where "q = (LEAST q. page_of b \<le> q \<and> {q ..< ?P} \<subseteq> ?F)"
  have ex: "page_of b \<le> ?P - 1 \<and> {?P - 1 ..< ?P} \<subseteq> ?F"
  proof -
    have "{?P - 1 ..< ?P} = {?P - 1}" using b by auto
    with last b show ?thesis by auto
  qed
  from LeastI [of "\<lambda>q. page_of b \<le> q \<and> {q ..< ?P} \<subseteq> ?F", OF ex]
  have q: "page_of b \<le> q" "{q ..< ?P} \<subseteq> ?F" by (simp_all add: q_def)
  from Least_le [of "\<lambda>q. page_of b \<le> q \<and> {q ..< ?P} \<subseteq> ?F", OF ex] b
  have qP: "q < ?P" by (simp add: q_def)
  have nbusy: "\<exists>r. i \<le> r \<and> r < ?P \<and> r \<notin> ?F" if "page_of b \<le> i" "i < q" for i
  proof -
    from not_less_Least [of i "\<lambda>q. page_of b \<le> q \<and> {q ..< ?P} \<subseteq> ?F"] that
    show ?thesis by (auto simp: q_def)
  qed
  have busy: "pmm_alloc m (b + of_nat (j * 4096)) n = Returns (False, m)" if j: "j < q - page_of b" for j
  proof -
    have jP: "page_of b + j < ?P" using j qP by simp
    note f = search_step_facts [OF inv fits al jP]
    have "page_of b + j < q" using j by linarith
    from nbusy [OF le_add1 this] obtain r where r: "page_of b + j \<le> r" "r < ?P" "r \<notin> ?F" by blast
    obtain t where "t < unat n" "page_of b + j + t < ?P" "page_of b + j + t \<notin> ?F"
      using no_run_busy [OF none _ r] fits by (auto simp: fits_def)
    with f show ?thesis by (intro pmm_alloc_busy_at [of _ _ t]) (simp_all only: covers_def, simp)
  qed
  have below: "b + of_nat (j * 4096) < phys_limit m" if "j < q - page_of b" for j
    using search_step_facts(3) [OF inv fits al, of j] that qP by simp
  let ?k = "q - page_of b"
  have kP: "page_of b + ?k < ?P" using q qP by simp
  note f = search_step_facts [OF inv fits al kP]
  have over: "?P < q + unat n"
  proof (rule ccontr)
    assume c: "\<not> ?P < q + unat n"
    then have "{q ..< q + unat n} \<subseteq> {q ..< ?P}" by auto
    with q(2) have "{q ..< q + unat n} \<subseteq> ?F" by blast
    with none q(1) c show False by (simp add: no_run_def)
  qed
  have "run_list (isfree_body (bitmap m)) (steps_from (b + of_nat (?k * 4096)) 4096 (unat n)) True
      = Faults OutOfBounds"
    using f q qP over by (intro isfree_run_off_end) (simp_all add: free_pages_def)
  then have "pmm_alloc m (b + of_nat (?k * 4096)) n = Faults OutOfBounds"
    by (simp only: pmm_alloc_def bitmap_isfree_def for_pages [OF f(1)] obind.simps)
  with f(3) have "for_u64 (b + of_nat (?k * 4096)) (phys_limit m) PAGE_SIZE (pmm_get_body n) m = Faults OutOfBounds"
    by (subst for_u64_unfold) (simp only: pmm_get_body_def obind.simps if_True)
  then show ?thesis
    by (simp only: pmm_get_def pmm_get_search_none [OF busy below] obind.simps)
qed

section \<open>Properties\<close>

lemma bm_free_code: "bm_free bm = set (filter (\<lambda>p. bit (bm ! (p div 8)) (p mod 8)) [0 ..< 8 * length bm])"
  by (auto simp: bm_free_def)

lemmas pmm_eval = pmm_inv_def free_pages_def bm_free_code page_of_def covers_def fits_def no_wrap_def

text \<open>A small memory for the examples: 16 pages, of which 4 to 9 and 12 are free.\<close>

definition demo_mem :: mem_info where
  "demo_mem = \<lparr>phys_limit = 65536, total_size = 65536, free_size = 28672, bitmap_at = 0,
     bitmap = [0xF0, 0x13]\<rparr>"

lemma demo_mem_facts:
  "pmm_inv demo_mem" "free_pages demo_mem = {4, 5, 6, 7, 8, 9, 12}" "length (bitmap demo_mem) = 2"
proof -
  show fp: "free_pages demo_mem = {4, 5, 6, 7, 8, 9, 12}"
    unfolding free_pages_def bm_free_code by code_simp
  show "length (bitmap demo_mem) = 2" by (simp add: demo_mem_def)
  show "pmm_inv demo_mem" unfolding pmm_inv_def fp by (simp add: demo_mem_def)
qed

definition demo_after :: mem_info where
  "demo_after = demo_mem\<lparr>free_size := 16384, bitmap := [0x80, 0x13]\<rparr>"

lemmas pmm_run = pmm_get_def demo_mem_def demo_after_def pmm_get_body_def pmm_alloc_def bitmap_isfree_def
  isfree_body_def bitmap_markused_def markused_body_def for_u64_unfold bm_byte_def bm_bit_def PAGE_SIZE_def
  BMP_PAGES_PER_BYTE_def one_shl_def rd_def wr_def Let_def

lemma demo_get: "pmm_get demo_mem 3 0x1000 = Returns (0x4000, demo_after)"
  and demo_get2: "pmm_get demo_after 2 0 = Returns (0x7000, demo_after\<lparr>free_size := 8192, bitmap := [0x00, 0x12]\<rparr>)"
  by (simp_all add: pmm_run cong: obind_weak_cong)

text \<open>
  C1: \<open>pmm_get\<close> is a first-fit allocator. When the first run of \<open>n\<close> free pages at or after the
  base address starts at page \<open>q\<close>, the call returns the address of \<open>q\<close>, takes exactly those
  pages from the set of free pages, lowers \<open>free_size\<close> by their size and keeps the accounting
  invariant and every other field.
\<close>

theorem pmm_get_first_fit:
  assumes "pmm_inv m" and "unat b mod 4096 = 0" and "0 < unat n"
    and "page_of b \<le> q" and "covers m (q + unat n)" and "{q ..< q + unat n} \<subseteq> free_pages m"
    and "\<And>p. page_of b \<le> p \<Longrightarrow> p < q \<Longrightarrow> \<not> {p ..< p + unat n} \<subseteq> free_pages m"
  shows "\<exists>m'. pmm_get m n b = Returns (of_nat (q * 4096), m') \<and> same_shape m m' \<and> pmm_inv m'
    \<and> free_pages m' = free_pages m - {q ..< q + unat n}
    \<and> unat (free_size m') = unat (free_size m) - unat n * 4096"
proof -
  let ?k = "q - page_of b"
  have q: "page_of b + ?k = q" using assms(4) by simp
  have "of_nat (q * 4096) = (of_nat (page_of b * 4096 + ?k * 4096) :: u64)"
    using assms(4) by (metis q add_mult_distrib)
  also have "\<dots> = b + of_nat (?k * 4096)"
    unfolding of_nat_add aligned_page [OF assms(2), symmetric] by simp
  finally have addr: "b + of_nat (?k * 4096) = of_nat (q * 4096)" by simp
  show ?thesis
    using pmm_get_first_fit_aux [OF assms(1,2,3), of ?k] assms(4-7) unfolding q addr by auto
qed

lemma pmm_get_first_fit_witness:
  "\<exists>m'. pmm_get demo_mem 3 0x1000 = Returns (of_nat (4 * 4096), m') \<and> same_shape demo_mem m' \<and> pmm_inv m'
    \<and> free_pages m' = free_pages demo_mem - {4 ..< 4 + unat (3 :: u64)}
    \<and> unat (free_size m') = unat (free_size demo_mem) - unat (3 :: u64) * 4096"
proof (rule pmm_get_first_fit)
  show "{4 ..< 4 + unat (3 :: u64)} \<subseteq> free_pages demo_mem"
    unfolding demo_mem_facts(2) by code_simp
  fix p :: nat assume "p < 4"
  then have "p \<in> {p ..< p + unat (3 :: u64)}" "p \<notin> free_pages demo_mem"
    by (auto simp: demo_mem_facts(2))
  then show "\<not> {p ..< p + unat (3 :: u64)} \<subseteq> free_pages demo_mem" by blast
qed (simp_all add: demo_mem_facts covers_def page_of_def)

text \<open>
  pages handed out by two successive requests never overlap, whatever the sizes and the base
  addresses, and neither request touches a page that was in use.
\<close>

theorem pmm_get_disjoint:
  assumes "pmm_inv m" and "fits m n1" and "fits m n2" and "unat b1 mod 4096 = 0" and "unat b2 mod 4096 = 0"
    and "pmm_get m n1 b1 = Returns (a1, m1)" and "pmm_get m1 n2 b2 = Returns (a2, m2)"
  shows "page_run a1 (unat n1) \<inter> page_run a2 (unat n2) = {}
    \<and> page_run a1 (unat n1) \<union> page_run a2 (unat n2) \<subseteq> free_pages m \<and> pmm_inv m2"
  using pmm.get_get_disjoint [OF assms] pmm.get_law [OF assms(1,2,4,6)] pmm.get_law [of m1 n2 b2 a2 m2] assms(3,5,7)
  by auto

lemma pmm_get_disjoint_witness:
  "page_run 0x4000 (unat (3 :: u64)) \<inter> page_run 0x7000 (unat (2 :: u64)) = {}
    \<and> page_run 0x4000 (unat (3 :: u64)) \<union> page_run 0x7000 (unat (2 :: u64)) \<subseteq> free_pages demo_mem
    \<and> pmm_inv (demo_after\<lparr>free_size := 8192, bitmap := [0x00, 0x12]\<rparr>)"
  by (rule pmm_get_disjoint [OF demo_mem_facts(1) _ _ _ _ demo_get demo_get2])
    (simp_all add: fits_def demo_mem_def)

text \<open>
  C17: releasing what \<open>pmm_get\<close> handed out brings back the set of free pages and \<open>free_size\<close>
  exactly.
\<close>

theorem pmm_get_free_roundtrip:
  assumes "pmm_inv m" and "fits m n" and "unat b mod 4096 = 0" and "pmm_get m n b = Returns (a, m1)"
  shows "\<exists>m2. pmm_free m1 a n = Returns m2 \<and> free_pages m2 = free_pages m \<and> free_size m2 = free_size m"
proof -
  from pmm.get_release [OF assms] obtain m2 where m2: "pmm_free m1 a n = Returns m2" "pmm_inv m2"
    "free_pages m2 = free_pages m" by blast
  then have "unat (free_size m2) = unat (free_size m)" using assms(1) by (simp add: pmm_inv_def)
  with m2 show ?thesis by (auto intro: word_unat_eq_iff [THEN iffD2])
qed

lemma pmm_get_free_roundtrip_witness:
  "\<exists>m2. pmm_free demo_after 0x4000 3 = Returns m2 \<and> free_pages m2 = free_pages demo_mem
     \<and> free_size m2 = free_size demo_mem"
  by (rule pmm_get_free_roundtrip [OF demo_mem_facts(1) _ _ demo_get]) (simp_all add: fits_def demo_mem_def)

text \<open>
  when no run of the requested length is free from the base address on, and the last page of
  the bitmap is in use, the search visits every page up to \<open>phys_limit\<close> and ends in the kernel
  panic "Out of Physical Memory"; it never answers with a page.
\<close>

theorem pmm_get_panics:
  assumes "pmm_inv m" and "fits m n" and "unat b mod 4096 = 0"
    and "unat (phys_limit m) mod 32768 = 0" and "b \<le> phys_limit m"
    and "no_run m (page_of b) (unat n)" and "8 * length (bitmap m) - 1 \<notin> free_pages m"
  shows "pmm_get m n b = Faults Panic"
  by (rule pmm_get_panics_aux [OF assms])

lemma demo_no_run: "no_run demo_mem 0 7"
proof -
  have "\<not> {q ..< q + 7} \<subseteq> {4, 5, 6, 7, 8, 9, 12 :: nat}" for q
  proof
    assume sub: "{q ..< q + 7} \<subseteq> {4, 5, 6, 7, 8, 9, 12 :: nat}"
    have "q \<in> {q ..< q + 7}" "q + 6 \<in> {q ..< q + 7}" "q + 5 \<in> {q ..< q + 7}" by auto
    with sub have "q \<in> {4, 5, 6, 7, 8, 9, 12}" "q + 6 \<in> {4, 5, 6, 7, 8, 9, 12}" "q + 5 \<in> {4, 5, 6, 7, 8, 9, 12}"
      by blast+
    then show False by auto
  qed
  then show ?thesis by (simp add: no_run_def demo_mem_facts)
qed

lemma pmm_get_panics_witness: "pmm_get demo_mem 7 0 = Faults Panic"
  by (rule pmm_get_panics [OF demo_mem_facts(1)])
    (simp_all add: fits_def demo_mem_facts demo_no_run page_of_def, simp_all add: demo_mem_def)

text \<open>
  the same exhausted request, when the last page of the bitmap is free, does not reach the
  panic: \<open>bitmap_isfree\<close> follows the free tail past the end of the bitmap, so the search reads
  memory that is not the bitmap.
\<close>

theorem pmm_get_overruns:
  assumes "pmm_inv m" and "fits m n" and "unat b mod 4096 = 0"
    and "no_run m (page_of b) (unat n)" and "page_of b < 8 * length (bitmap m)"
    and "8 * length (bitmap m) - 1 \<in> free_pages m"
  shows "pmm_get m n b = Faults OutOfBounds"
  by (rule pmm_get_overruns_aux [OF assms(1-4,6,5)])

definition demo_tail :: mem_info where
  "demo_tail = \<lparr>phys_limit = 32768, total_size = 32768, free_size = 4096, bitmap_at = 0, bitmap = [0x80]\<rparr>"

lemma demo_tail_free: "free_pages demo_tail = {7}"
  unfolding free_pages_def bm_free_code by code_simp

lemma pmm_get_overruns_witness: "pmm_get demo_tail 2 0 = Faults OutOfBounds"
proof (rule pmm_get_overruns)
  have "\<not> {q ..< q + 2} \<subseteq> {7 :: nat}" for q
  proof
    assume sub: "{q ..< q + 2} \<subseteq> {7 :: nat}"
    have "q \<in> {q ..< q + 2}" "q + 1 \<in> {q ..< q + 2}" by auto
    with sub have "q \<in> {7}" "q + 1 \<in> {7}" by blast+
    then show False by simp
  qed
  then show "no_run demo_tail (page_of 0) (unat (2 :: u64))"
    by (simp add: no_run_def demo_tail_free)
qed (simp_all add: pmm_inv_def demo_tail_free, simp_all add: demo_tail_def fits_def page_of_def)

text \<open>
  C18: from a memory map whose usable entries are page aligned and whose limit is a multiple of
  32 KiB, \<open>pmm_init\<close> returns with the accounting invariant established and the free pages being
  exactly the pages of the usable entries above 1 MiB, less the pages the bitmap itself occupies.
\<close>

theorem pmm_init_free_pages:
  assumes "sane_map mmap" and "pmm_place mmap (boot_bm_size mmap) None = Some a"
  shows "\<exists>m. pmm_init mmap = Returns m \<and> pmm_inv m \<and> phys_limit m = phys_limit (boot_state mmap)
     \<and> free_pages m = (\<Union>e \<in> set (filter entry_usable mmap). entry_pages e)
         - page_run (VIRT_TO_PHYS a) (unat (NUM_PAGES (boot_bm_size mmap)))"
  by (rule pmm_init_aux [OF assms])

definition demo_map :: "memmap_entry list" where
  "demo_map = [\<lparr>base = 0, elength = 0x9F000, etype = MEMMAP_USABLE\<rparr>,
     \<lparr>base = 0x9F000, elength = 0x61000, etype = MEMMAP_OTHER\<rparr>,
     \<lparr>base = 0x100000, elength = 0x40000, etype = MEMMAP_USABLE\<rparr>,
     \<lparr>base = 0x140000, elength = 0x8000, etype = MEMMAP_KERNEL_AND_MODULES\<rparr>]"

lemma pmm_init_free_pages_witness:
  "\<exists>m. pmm_init demo_map = Returns m \<and> pmm_inv m \<and> phys_limit m = phys_limit (boot_state demo_map)
     \<and> free_pages m = (\<Union>e \<in> set (filter entry_usable demo_map). entry_pages e)
         - page_run (VIRT_TO_PHYS 0xffff800000100000) (unat (NUM_PAGES (boot_bm_size demo_map)))"
  by (rule pmm_init_free_pages)
    (simp_all add: sane_map_def sane_entry_def boot_state_def boot_bm_size_def demo_map_def Let_def
      PAGE_SIZE_def BMP_PAGES_PER_BYTE_def PHYS_TO_VIRT_def MEM_VIRT_OFFSET_def)

end
