(* ===== verification/CMemory.thy ===== *)
theory CMemory
  imports Hanos_Prelude
begin

text \<open>
  Memory as the C code sees it, one byte per pointer value, with little-endian values of any
  width, the block operations of \<open>lib/memutils.c\<close> and the string functions of
  \<open>lib/string.c\<close>. Pointers are \<open>uint64_t\<close> values and pointer arithmetic wraps.
\<close>

type_synonym memory = "u64 \<Rightarrow> u8"

section \<open>Little-endian values\<close>

fun word_le :: "nat \<Rightarrow> 'a::len word \<Rightarrow> u8 list" where
  "word_le 0 w = []"
| "word_le (Suc n) w = ucast w # word_le n (drop_bit 8 w)"

fun le_word :: "u8 list \<Rightarrow> 'a::len word" where
  "le_word [] = 0"
| "le_word (b # bs) = ucast b OR push_bit 8 (le_word bs)"

lemma length_word_le [simp]: "length (word_le n w) = n"
  by (induction n arbitrary: w) simp_all

lemma bit_le_word:
  "bit (le_word bs :: 'a::len word) j \<longleftrightarrow> j < LENGTH('a) \<and> j < 8 * length bs \<and> bit (bs ! (j div 8)) (j mod 8)"
proof (induction bs arbitrary: j)
  case Nil
  then show ?case by simp
next
  case (Cons b bs)
  show ?case
  proof (cases "j < 8")
    case True
    then show ?thesis by (auto simp: bit_simps)
  next
    case False
    then obtain i where i: "j = 8 + i" using le_Suc_ex [of 8 j] by auto
    have "bit (ucast b :: 'a word) j = False"
      using i bit_imp_le_length [of b j] by (auto simp: bit_simps)
    moreover have "(8 + i) div 8 = Suc (i div 8)" by simp
    ultimately show ?thesis using Cons.IH [of i] i by (auto simp: bit_simps)
  qed
qed

lemma le_word_word_le: "(le_word (word_le n w) :: 'a::len word) = take_bit (8 * n) w"
proof (induction n arbitrary: w)
  case 0
  then show ?case by simp
next
  case (Suc n)
  have "(ucast (ucast w :: u8) :: 'a word) OR push_bit 8 (take_bit (8 * n) (drop_bit 8 w)) = take_bit (8 * Suc n) w"
    by (rule bit_word_eqI) (auto simp: bit_simps)
  then show ?case by (simp add: Suc.IH)
qed

lemma le_word_full [simp]: "LENGTH('a) \<le> 8 * n \<Longrightarrow> (le_word (word_le n w) :: 'a::len word) = w"
  by (simp add: le_word_word_le take_bit_word_eq_self)

lemma word_le_le_word: "8 * length bs \<le> LENGTH('a) \<Longrightarrow> word_le (length bs) (le_word bs :: 'a::len word) = bs"
proof (induction bs)
  case Nil
  then show ?case by simp
next
  case (Cons b bs)
  have "(ucast (ucast b OR push_bit 8 (le_word bs) :: 'a word) :: u8) = b"
    using Cons.prems by (intro bit_word_eqI) (auto simp: bit_simps dest: bit_imp_le_length)
  moreover have "drop_bit 8 (ucast b OR push_bit 8 (le_word bs) :: 'a word) = le_word bs"
    using Cons.prems
    by (intro bit_word_eqI) (auto simp: bit_simps bit_le_word dest: bit_imp_le_length)
  ultimately show ?case using Cons by simp
qed

section \<open>Loads and stores\<close>

definition load :: "memory \<Rightarrow> u64 \<Rightarrow> nat \<Rightarrow> u8 list" where
  "load m a n = map (\<lambda>k. m (a + of_nat k)) [0..<n]"

fun store :: "memory \<Rightarrow> u64 \<Rightarrow> u8 list \<Rightarrow> memory" where
  "store m a [] = m"
| "store m a (b # bs) = store (m(a := b)) (a + 1) bs"

definition ld64 :: "memory \<Rightarrow> u64 \<Rightarrow> u64" where "ld64 m a = le_word (load m a 8)"
definition st64 :: "memory \<Rightarrow> u64 \<Rightarrow> u64 \<Rightarrow> memory" where "st64 m a w = store m a (word_le 8 w)"

definition addrs :: "u64 \<Rightarrow> nat \<Rightarrow> u64 set" where
  "addrs a n = (\<lambda>k. a + of_nat k) ` {..<n}"

lemma length_load [simp]: "length (load m a n) = n"
  by (simp add: load_def)

lemma nth_load [simp]: "k < n \<Longrightarrow> load m a n ! k = m (a + of_nat k)"
  by (simp add: load_def)

lemma addrs_0 [simp]: "addrs a 0 = {}"
  by (simp add: addrs_def)

lemma addrs_Suc: "addrs a (Suc n) = insert a (addrs (a + 1) n)"
proof -
  have "(\<lambda>k. a + of_nat k) ` {..<Suc n} = insert (a + of_nat 0) ((\<lambda>k. a + of_nat (Suc k)) ` {..<n})"
    by (simp only: lessThan_Suc_eq_insert_0 image_insert image_image)
  then show ?thesis by (simp add: addrs_def add.assoc)
qed

lemma of_nat_inj_u64: "i < 2 ^ 64 \<Longrightarrow> j < 2 ^ 64 \<Longrightarrow> (of_nat i :: u64) = of_nat j \<longleftrightarrow> i = j"
  by (simp add: word_of_nat_eq_iff take_bit_nat_eq_self)

lemma in_addrs: "k < n \<Longrightarrow> a + of_nat k \<in> addrs a n"
  by (simp add: addrs_def)

lemma addrs_mono: "n \<le> k \<Longrightarrow> addrs a n \<subseteq> addrs a k"
  by (auto simp: addrs_def)

lemma first_notin_rest: "Suc n \<le> 2 ^ 64 \<Longrightarrow> a \<notin> addrs (a + 1) n"
proof
  assume n: "Suc n \<le> 2 ^ 64" and "a \<in> addrs (a + 1) n"
  then obtain k where k: "k < n" "a = a + 1 + of_nat k" by (auto simp: addrs_def)
  then have "(of_nat (Suc k) :: u64) = of_nat 0" by (simp add: add.assoc)
  then show False using k n of_nat_inj_u64 [of "Suc k" 0] by simp
qed

lemma store_other: "x \<notin> addrs a (length bs) \<Longrightarrow> store m a bs x = m x"
  by (induction bs arbitrary: m a) (auto simp: addrs_Suc)

lemma store_same:
  "length bs \<le> 2 ^ 64 \<Longrightarrow> k < length bs \<Longrightarrow> store m a bs (a + of_nat k) = bs ! k"
proof (induction bs arbitrary: m a k)
  case Nil
  then show ?case by simp
next
  case (Cons b bs)
  show ?case
  proof (cases k)
    case 0
    have "a \<notin> addrs (a + 1) (length bs)" using Cons.prems(1) by (intro first_notin_rest) simp
    with 0 show ?thesis by (simp add: store_other)
  next
    case (Suc j)
    with Cons.prems have "store (m(a := b)) (a + 1) bs ((a + 1) + of_nat j) = bs ! j"
      by (intro Cons.IH) simp_all
    with Suc show ?thesis by (simp add: add.assoc)
  qed
qed

lemma load_store: "length bs \<le> 2 ^ 64 \<Longrightarrow> load (store m a bs) a (length bs) = bs"
  by (rule nth_equalityI) (simp_all add: store_same)

lemma load_store_other: "addrs b n \<inter> addrs a (length bs) = {} \<Longrightarrow> load (store m a bs) b n = load m b n"
  by (rule nth_equalityI) (auto intro!: store_other simp: in_addrs dest: in_addrs [of _ n b])

lemma ld64_st64 [simp]: "ld64 (st64 m a w) a = w"
  using load_store [of "word_le 8 w" m a] by (simp add: ld64_def st64_def)

lemma ld64_st64_other: "addrs b 8 \<inter> addrs a 8 = {} \<Longrightarrow> ld64 (st64 m a w) b = ld64 m b"
  by (simp add: ld64_def st64_def load_store_other)

lemma st64_other: "x \<notin> addrs a 8 \<Longrightarrow> st64 m a w x = m x"
  by (simp add: st64_def store_other)

text \<open>Ranges given by their first address and no wrap: membership is an interval of numbers.\<close>

lemma in_addrs_iff:
  "unat a + n \<le> 2 ^ 64 \<Longrightarrow> x \<in> addrs a n \<longleftrightarrow> unat a \<le> unat x \<and> unat x < unat a + n"
proof -
  assume nw: "unat a + n \<le> 2 ^ 64"
  have u: "unat (a + of_nat k) = unat a + k" if "k < n" for k
    using nw that by (intro unat_add_of_nat) simp
  show ?thesis
  proof
    assume "x \<in> addrs a n"
    then show "unat a \<le> unat x \<and> unat x < unat a + n" by (auto simp: addrs_def u)
  next
    assume b: "unat a \<le> unat x \<and> unat x < unat a + n"
    then have "unat (a + of_nat (unat x - unat a)) = unat x" by (subst u) auto
    then have "x = a + of_nat (unat x - unat a)" by (simp only: word_unat_eq_iff)
    with b show "x \<in> addrs a n" unfolding addrs_def
      by (intro image_eqI [of _ _ "unat x - unat a"]) auto
  qed
qed

lemma addrs_disjoint:
  "unat a + n \<le> 2 ^ 64 \<Longrightarrow> unat b + k \<le> 2 ^ 64 \<Longrightarrow> unat a + n \<le> unat b \<or> unat b + k \<le> unat a \<Longrightarrow>
   addrs a n \<inter> addrs b k = {}"
  by (auto simp: in_addrs_iff)

section \<open>Block operations\<close>

text \<open>\<open>rep movsb\<close>: one byte after the other, from the first to the last.\<close>

fun movsb :: "nat \<Rightarrow> u64 \<Rightarrow> u64 \<Rightarrow> memory \<Rightarrow> memory" where
  "movsb 0 src dst m = m"
| "movsb (Suc n) src dst m = movsb n (src + 1) (dst + 1) (m(dst := m src))"

definition memcpy :: "memory \<Rightarrow> u64 \<Rightarrow> u64 \<Rightarrow> u64 \<Rightarrow> memory" where
  "memcpy m dst src len = movsb (unat len) src dst m"

definition memset :: "memory \<Rightarrow> u64 \<Rightarrow> u8 \<Rightarrow> u64 \<Rightarrow> memory" where
  "memset m a val len = fold (\<lambda>i m. m(a + of_nat i := val)) [0..<unat len] m"

fun memcmp_from :: "memory \<Rightarrow> u64 \<Rightarrow> u64 \<Rightarrow> nat \<Rightarrow> bool" where
  "memcmp_from m s1 s2 0 = True"
| "memcmp_from m s1 s2 (Suc n) = (if m s1 \<noteq> m s2 then False else memcmp_from m (s1 + 1) (s2 + 1) n)"

definition memcmp :: "memory \<Rightarrow> u64 \<Rightarrow> u64 \<Rightarrow> u64 \<Rightarrow> bool" where
  "memcmp m s1 s2 len = memcmp_from m s1 s2 (unat len)"

text \<open>
  A forward copy reads each source byte before it is overwritten when the destination does not
  begin inside the source after its start: that is, when the ranges are disjoint or \<open>dst\<close> comes
  first.
\<close>

definition copy_safe :: "u64 \<Rightarrow> u64 \<Rightarrow> nat \<Rightarrow> bool" where
  "copy_safe dst src n \<longleftrightarrow> n < 2 ^ 64 \<and> dst - src \<notin> of_nat ` {0 <..< n}"

lemma movsb_other: "x \<notin> addrs dst n \<Longrightarrow> movsb n src dst m x = m x"
  by (induction n arbitrary: src dst m) (auto simp: addrs_Suc)

lemma copy_safe_Suc: "copy_safe dst src (Suc n) \<Longrightarrow> copy_safe (dst + 1) (src + 1) n"
  by (auto simp: copy_safe_def)

lemma copy_safe_first: "copy_safe dst src (Suc n) \<Longrightarrow> j < n \<Longrightarrow> src + 1 + of_nat j \<noteq> dst"
proof
  assume c: "copy_safe dst src (Suc n)" and j: "j < n" and "src + 1 + of_nat j = dst"
  then have "dst - src = of_nat (Suc j)" by (auto simp: algebra_simps)
  moreover have "of_nat (Suc j) \<in> (of_nat ` {0 <..< Suc n} :: u64 set)" using j by (intro imageI) simp
  ultimately show False using c by (simp add: copy_safe_def del: of_nat_Suc)
qed

lemma movsb_copies:
  "copy_safe dst src n \<Longrightarrow> k < n \<Longrightarrow> movsb n src dst m (dst + of_nat k) = m (src + of_nat k)"
proof (induction n arbitrary: src dst m k)
  case 0
  then show ?case by simp
next
  case (Suc n)
  have n: "Suc n \<le> 2 ^ 64" using Suc.prems(1) by (simp add: copy_safe_def)
  show ?case
  proof (cases k)
    case 0
    then show ?thesis using first_notin_rest [OF n, of dst] by (simp add: movsb_other)
  next
    case (Suc j)
    have "movsb n (src + 1) (dst + 1) (m(dst := m src)) (dst + 1 + of_nat j)
        = (m(dst := m src)) (src + 1 + of_nat j)"
      using Suc.prems Suc by (intro Suc.IH copy_safe_Suc) auto
    also have "\<dots> = m (src + 1 + of_nat j)"
      using copy_safe_first [OF Suc.prems(1), of j] Suc Suc.prems(2) by simp
    finally show ?thesis using Suc by (simp add: add.assoc)
  qed
qed

lemma disjoint_copy_safe:
  assumes "addrs src n \<inter> addrs dst n = {}" and "n < 2 ^ 64"
  shows "copy_safe dst src n"
proof -
  have "dst - src \<noteq> of_nat k" if "k \<in> {0 <..< n}" for k
  proof
    assume "dst - src = of_nat k"
    then have "dst = src + of_nat k" by (simp add: algebra_simps)
    then have "dst \<in> addrs src n" using that by (simp add: in_addrs)
    moreover have "dst \<in> addrs dst n" using in_addrs [of 0 n dst] that by simp
    ultimately show False using assms(1) by blast
  qed
  then have "dst - src \<notin> of_nat ` {0 <..< n}" by blast
  then show ?thesis using assms(2) by (simp add: copy_safe_def)
qed

lemma memcpy_load:
  "copy_safe dst src (unat len) \<Longrightarrow> load (memcpy m dst src len) dst (unat len) = load m src (unat len)"
  by (rule nth_equalityI) (simp_all add: memcpy_def movsb_copies)

lemma memcpy_other: "x \<notin> addrs dst (unat len) \<Longrightarrow> memcpy m dst src len x = m x"
  by (simp add: memcpy_def movsb_other)

lemma load_memcpy_other:
  "addrs a n \<inter> addrs dst (unat len) = {} \<Longrightarrow> load (memcpy m dst src len) a n = load m a n"
  by (rule nth_equalityI) (auto intro!: memcpy_other dest: in_addrs [of _ n a])

lemma memset_fold:
  "fold (\<lambda>i m. m(a + of_nat i := val)) [0..<n] m x = (if x \<in> addrs a n then val else m x)"
  by (induction n) (auto simp: addrs_def lessThan_Suc)

lemma memset_spec: "memset m a val len x = (if x \<in> addrs a (unat len) then val else m x)"
  unfolding memset_def by (rule memset_fold)

lemma memcmp_from_iff: "memcmp_from m s1 s2 n \<longleftrightarrow> load m s1 n = load m s2 n"
proof (induction n arbitrary: s1 s2)
  case 0
  then show ?case by (simp add: load_def)
next
  case (Suc n)
  have ld: "load m a (Suc n) = m a # load m (a + 1) n" for a
    by (simp add: load_def upt_conv_Cons map_Suc_upt [symmetric] add.assoc del: upt_Suc)
  show ?case using Suc by (simp add: ld)
qed

lemma memcmp_iff: "memcmp m s1 s2 len \<longleftrightarrow> load m s1 (unat len) = load m s2 (unat len)"
  by (simp add: memcmp_def memcmp_from_iff)

section \<open>The byte copy of memory mapped I/O\<close>

text \<open>\<open>mmio_inn\<close> of \<open>core/cpu.h\<close>, a loop over the two pointers and the count.\<close>

definition mmio_step :: "memory \<times> u64 \<times> u64 \<times> u64 \<Rightarrow> ((memory \<times> u64 \<times> u64 \<times> u64) + memory) outcome" where
  "mmio_step x = (case x of (m, d, s, bytes) \<Rightarrow>
     if bytes > 0 then Returns (Inl (m(d := m s), d + 1, s + 1, bytes - 1)) else Returns (Inr m))"

definition mmio_inn :: "memory \<Rightarrow> u64 \<Rightarrow> u64 \<Rightarrow> u64 \<Rightarrow> memory outcome" where
  "mmio_inn m dst src bytes = loop_c mmio_step (m, dst, src, bytes)"

text \<open>It ends, and copies what \<open>memcpy\<close> copies.\<close>

theorem mmio_inn_copies: "mmio_inn m dst src bytes = Returns (memcpy m dst src bytes)"
proof -
  have "loop_c mmio_step (m, d, s, n) = Returns (movsb (unat n) s d m)" for m d s n
  proof (induction "unat n" arbitrary: m d s n)
    case 0
    then show ?case by (subst loop_c_unfold) (simp add: mmio_step_def unat_eq_0)
  next
    case (Suc k)
    then have n: "n \<noteq> 0" by auto
    then have k: "k = unat (n - 1)" using Suc.hyps(2) by (simp add: unat_minus_one)
    then have u: "unat n = Suc (unat (n - 1))" using Suc.hyps(2) by simp
    show ?case using Suc.hyps(1) [OF k] n by (subst loop_c_unfold) (simp add: mmio_step_def u word_gt_0)
  qed
  then show ?thesis by (simp add: mmio_inn_def memcpy_def)
qed

end
