(* ===== verification/CString.thy ===== *)
theory CString
  imports CMemory
begin

text \<open>
  The string functions of \<open>lib/string.c\<close> over byte memory. \<open>char\<close> is signed on the target, so
  the comparisons answer differences of \<open>sint\<close> values; \<open>int\<close> results are integers.
\<close>

section \<open>The functions\<close>

text \<open>\<open>strlen\<close> counts in an \<open>int\<close>: a string of \<open>2 ^ 31\<close> characters overflows it.\<close>

function strlen_from :: "memory \<Rightarrow> u64 \<Rightarrow> nat \<Rightarrow> nat outcome" where
  "strlen_from m s len =
     (if m (s + of_nat len) = 0 then Returns len
      else if len + 1 < 2 ^ 31 then strlen_from m s (len + 1)
      else Faults IntOverflow)"
  by pat_completeness auto
termination by (relation "measure (\<lambda>(m, s, len). 2 ^ 31 - len)") auto

declare strlen_from.simps [simp del]

definition strlen :: "memory \<Rightarrow> u64 \<Rightarrow> nat outcome" where
  "strlen m s = strlen_from m s 0"

definition char_diff :: "u8 \<Rightarrow> u8 \<Rightarrow> int" where
  "char_diff x y = sint x - sint y"

definition strcmp_body :: "memory \<Rightarrow> u64 \<Rightarrow> u64 \<Rightarrow> u64 \<Rightarrow> (u64 + int) outcome" where
  "strcmp_body m a b i =
     Returns (if m (a + i) \<noteq> m (b + i) \<or> m (a + i) = 0 \<or> m (b + i) = 0
              then Inr (char_diff (m (a + i)) (m (b + i))) else Inl (i + 1))"

definition strcmp :: "memory \<Rightarrow> u64 \<Rightarrow> u64 \<Rightarrow> int outcome" where
  "strcmp m a b = loop_c (strcmp_body m a b) 0"

fun strncmp_from :: "memory \<Rightarrow> u64 \<Rightarrow> u64 \<Rightarrow> nat \<Rightarrow> int" where
  "strncmp_from m a b 0 = 0"
| "strncmp_from m a b (Suc n) =
     (if m a \<noteq> m b \<or> m a = 0 \<or> m b = 0 then char_diff (m a) (m b)
      else strncmp_from m (a + 1) (b + 1) n)"

definition strncmp :: "memory \<Rightarrow> u64 \<Rightarrow> u64 \<Rightarrow> u64 \<Rightarrow> int" where
  "strncmp m a b len = strncmp_from m a b (unat len)"

definition strcpy_body :: "u64 \<Rightarrow> u64 \<Rightarrow> u64 \<times> memory \<Rightarrow> (u64 \<times> memory + u64 \<times> memory) outcome" where
  "strcpy_body dest src = (\<lambda>(i, m).
     let m' = m(dest + i := m (src + i))
     in Returns (if m' (src + i) = 0 then Inr (i, m') else Inl (i + 1, m')))"

text \<open>\<open>return i\<close> converts the \<open>size_t\<close> to \<open>int\<close>.\<close>

definition to_int :: "u64 \<Rightarrow> int" where
  "to_int i = sint (ucast i :: u32)"

definition strcpy :: "memory \<Rightarrow> u64 \<Rightarrow> u64 \<Rightarrow> (int \<times> memory) outcome" where
  "strcpy m dest src = omap (\<lambda>(i, m'). (to_int i, m')) (loop_c (strcpy_body dest src) (0, m))"

definition strcat_body :: "u64 \<Rightarrow> u64 \<Rightarrow> u64 \<Rightarrow> u64 \<times> memory \<Rightarrow> (u64 \<times> memory + u64 \<times> memory) outcome" where
  "strcat_body dest src dest_len = (\<lambda>(i, m).
     let m' = m(dest + i := m (src + (i - dest_len)))
     in Returns (if m' (src + (i - dest_len)) = 0 then Inr (i, m') else Inl (i + 1, m')))"

definition strcat :: "memory \<Rightarrow> u64 \<Rightarrow> u64 \<Rightarrow> (int \<times> memory) outcome" where
  "strcat m dest src =
     obind (strlen m dest) (\<lambda>n.
     omap (\<lambda>(i, m'). (to_int i, m')) (loop_c (strcat_body dest src (of_nat n)) (of_nat n, m)))"

definition strchrnul_body :: "memory \<Rightarrow> int \<Rightarrow> u64 \<Rightarrow> (u64 + u64) outcome" where
  "strchrnul_body m c s =
     Returns (if m s = 0 then Inr s else if sint (m s) = c then Inr (s + 1) else Inl (s + 1))"

definition strchrnul :: "memory \<Rightarrow> u64 \<Rightarrow> int \<Rightarrow> u64 outcome" where
  "strchrnul m s c = loop_c (strchrnul_body m c) s"

definition islower :: "int \<Rightarrow> bool" where "islower c \<longleftrightarrow> c \<ge> 97 \<and> c \<le> 122"
definition tolower :: "int \<Rightarrow> int" where
  "tolower c = (if c \<ge> 0x41 \<and> c \<le> 0x5a then c + 0x20 else c)"
definition toupper :: "int \<Rightarrow> int" where
  "toupper c = (if islower c then c - (97 - 65) else c)"

section \<open>Strings in memory\<close>

definition cstr :: "memory \<Rightarrow> u64 \<Rightarrow> u8 list \<Rightarrow> bool" where
  "cstr m a xs \<longleftrightarrow> load m a (length xs) = xs \<and> 0 \<notin> set xs \<and> m (a + of_nat (length xs)) = 0
     \<and> length xs + 1 < 2 ^ 31"

lemma cstr_nth: "cstr m a xs \<Longrightarrow> i < length xs \<Longrightarrow> m (a + of_nat i) = xs ! i"
  by (metis cstr_def nth_load)

lemma cstr_nz: "cstr m a xs \<Longrightarrow> i < length xs \<Longrightarrow> m (a + of_nat i) \<noteq> 0"
  by (metis cstr_def cstr_nth nth_mem)

lemma cstr_end: "cstr m a xs \<Longrightarrow> m (a + of_nat (length xs)) = 0"
  by (simp add: cstr_def)

lemma cstr_I:
  "length xs + 1 < 2 ^ 31 \<Longrightarrow> 0 \<notin> set xs \<Longrightarrow> (\<And>i. i < length xs \<Longrightarrow> m (a + of_nat i) = xs ! i) \<Longrightarrow>
   m (a + of_nat (length xs)) = 0 \<Longrightarrow> cstr m a xs"
  unfolding cstr_def by (auto intro!: nth_equalityI)

lemma cstr_unique: "cstr m a xs \<Longrightarrow> cstr m a ys \<Longrightarrow> xs = ys"
proof (rule nth_equalityI)
  assume x: "cstr m a xs" and y: "cstr m a ys"
  show len: "length xs = length ys"
    using cstr_nz [OF x, of "length ys"] cstr_nz [OF y, of "length xs"] cstr_end [OF x] cstr_end [OF y]
    by (meson linorder_neqE_nat)
  show "xs ! i = ys ! i" if "i < length xs" for i
    using cstr_nth [OF x that] cstr_nth [OF y, of i] that len by simp
qed

lemma strlen_from_cstr:
  "cstr m s xs \<Longrightarrow> k \<le> length xs \<Longrightarrow> strlen_from m s (length xs - k) = Returns (length xs)"
proof (induction k)
  case 0
  then show ?case by (simp add: strlen_from.simps cstr_end)
next
  case (Suc k)
  have "m (s + of_nat (length xs - Suc k)) \<noteq> 0"
    using Suc.prems by (intro cstr_nz) auto
  moreover have "length xs - Suc k + 1 < 2 ^ 31" using Suc.prems unfolding cstr_def by linarith
  moreover have "length xs - Suc k + 1 = length xs - k" using Suc.prems by simp
  ultimately show ?case using Suc by (subst strlen_from.simps) simp
qed

lemma strlen_cstr: "cstr m s xs \<Longrightarrow> strlen m s = Returns (length xs)"
  using strlen_from_cstr [of m s xs "length xs"] by (simp add: strlen_def)

section \<open>Comparison\<close>

text \<open>The specification: the difference at the first position where the strings differ.\<close>

fun str_diff :: "u8 list \<Rightarrow> u8 list \<Rightarrow> int" where
  "str_diff [] [] = 0"
| "str_diff (x # xs) [] = char_diff x 0"
| "str_diff [] (y # ys) = char_diff 0 y"
| "str_diff (x # xs) (y # ys) = (if x \<noteq> y then char_diff x y else str_diff xs ys)"

lemma char_diff_0 [simp]: "char_diff x y = 0 \<longleftrightarrow> x = y"
  by (auto simp: char_diff_def intro: signed_word_eqI)

lemma str_diff_0: "0 \<notin> set xs \<Longrightarrow> 0 \<notin> set ys \<Longrightarrow> str_diff xs ys = 0 \<longleftrightarrow> xs = ys"
  by (induction xs ys rule: str_diff.induct) (auto)

lemma str_diff_anti: "str_diff ys xs = - str_diff xs ys"
  by (induction xs ys rule: str_diff.induct) (auto simp: char_diff_def)

lemma str_diff_trans:
  "0 \<notin> set xs \<Longrightarrow> 0 \<notin> set ys \<Longrightarrow> 0 \<notin> set zs \<Longrightarrow> str_diff xs ys < 0 \<Longrightarrow> str_diff ys zs < 0 \<Longrightarrow> str_diff xs zs < 0"
proof (induction xs ys arbitrary: zs rule: str_diff.induct)
  case (2 x xs)
  then show ?case by (cases zs) (auto simp: char_diff_def)
next
  case (3 y ys)
  then show ?case by (cases zs) (auto simp: char_diff_def split: if_splits)
next
  case (4 x xs y ys)
  then show ?case by (cases zs) (auto simp: char_diff_def split: if_splits)
qed simp

lemma cstr_at: "cstr m a (us @ x # xs) \<Longrightarrow> m (a + of_nat (length us)) = x \<and> x \<noteq> 0"
  using cstr_nth [of m a "us @ x # xs" "length us"] by (auto simp: cstr_def)

lemma cstr_at_end: "cstr m a us \<Longrightarrow> m (a + of_nat (length us)) = 0"
  by (rule cstr_end)

lemma strcmp_loop:
  "cstr m a (us @ xs) \<Longrightarrow> cstr m b (vs @ ys) \<Longrightarrow> length vs = length us \<Longrightarrow>
   loop_c (strcmp_body m a b) (of_nat (length us)) = Returns (str_diff xs ys)"
proof (induction xs ys arbitrary: us vs rule: str_diff.induct)
  case 1
  then show ?case
    using cstr_at_end [of m a us] cstr_at_end [of m b vs] by (simp add: loop_c_unfold strcmp_body_def)
next
  case (2 x xs)
  then show ?case
    using cstr_at [of m a us x xs] cstr_at_end [of m b vs] by (simp add: loop_c_unfold strcmp_body_def)
next
  case (3 y ys)
  then show ?case
    using cstr_at [of m b vs y ys] cstr_at_end [of m a us] by (simp add: loop_c_unfold strcmp_body_def)
next
  case (4 x xs y ys)
  have at: "m (a + of_nat (length us)) = x" "x \<noteq> 0" "m (b + of_nat (length us)) = y" "y \<noteq> 0"
    using cstr_at [OF 4(2)] cstr_at [OF 4(3)] 4(4) by auto
  show ?case
  proof (cases "x = y")
    case False
    with at show ?thesis by (simp add: loop_c_unfold strcmp_body_def)
  next
    case True
    have "loop_c (strcmp_body m a b) (of_nat (length (us @ [x]))) = Returns (str_diff xs ys)"
      using 4(2-4) True by (intro 4(1) [of _ "vs @ [y]"]) simp_all
    with True at show ?thesis
      by (subst loop_c_unfold) (simp add: strcmp_body_def add.commute)
  qed
qed

lemma strcmp_cstr: "cstr m a xs \<Longrightarrow> cstr m b ys \<Longrightarrow> strcmp m a b = Returns (str_diff xs ys)"
  using strcmp_loop [of m a "[]" xs b "[]" ys] by (simp add: strcmp_def)

lemma load_Suc: "load m a (Suc n) = m a # load m (a + 1) n"
  by (simp add: load_def upt_conv_Cons map_Suc_upt [symmetric] add.assoc del: upt_Suc)

lemma cstr_Cons: "cstr m a (x # xs) \<Longrightarrow> m a = x \<and> x \<noteq> 0 \<and> cstr m (a + 1) xs"
  by (auto simp: cstr_def load_Suc add.assoc)

lemma cstr_Nil: "cstr m a [] \<Longrightarrow> m a = 0"
  by (simp add: cstr_def)

lemma strncmp_cstr_from:
  "cstr m a xs \<Longrightarrow> cstr m b ys \<Longrightarrow> strncmp_from m a b n = str_diff (take n xs) (take n ys)"
proof (induction n arbitrary: a b xs ys)
  case 0
  then show ?case by simp
next
  case (Suc n)
  then show ?case
    by (cases xs; cases ys) (auto dest!: cstr_Cons cstr_Nil)
qed

lemma strncmp_cstr:
  "cstr m a xs \<Longrightarrow> cstr m b ys \<Longrightarrow> strncmp m a b len = str_diff (take (unat len) xs) (take (unat len) ys)"
  by (simp add: strncmp_def strncmp_cstr_from)

section \<open>Copying\<close>

text \<open>Memory after the first \<open>k\<close> bytes at \<open>src\<close> have been copied to \<open>dest\<close>.\<close>

definition copied :: "memory \<Rightarrow> u64 \<Rightarrow> u64 \<Rightarrow> nat \<Rightarrow> memory" where
  "copied m dest src k = (\<lambda>x. if x \<in> addrs dest k then m (src + (x - dest)) else m x)"

lemma addrs_Suc_last: "addrs a (Suc k) = insert (a + of_nat k) (addrs a k)"
  by (simp add: addrs_def lessThan_Suc)

lemma copied_step:
  "src + of_nat k \<notin> addrs dest k \<Longrightarrow>
   (copied m dest src k)(dest + of_nat k := copied m dest src k (src + of_nat k)) = copied m dest src (Suc k)"
  by (rule ext) (simp add: copied_def addrs_Suc_last)

lemma copied_src: "x \<notin> addrs dest k \<Longrightarrow> copied m dest src k x = m x"
  by (simp add: copied_def)

lemma copied_dest: "i < k \<Longrightarrow> copied m dest src k (dest + of_nat i) = m (src + of_nat i)"
  by (simp add: copied_def in_addrs)

definition apart :: "u64 \<Rightarrow> nat \<Rightarrow> u64 \<Rightarrow> nat \<Rightarrow> bool" where
  "apart a n b k \<longleftrightarrow> addrs a n \<inter> addrs b k = {}"

lemma apartD: "apart src n dest k \<Longrightarrow> i < n \<Longrightarrow> j \<le> k \<Longrightarrow> src + of_nat i \<notin> addrs dest j"
  using in_addrs [of i n src] addrs_mono [of j k dest] by (auto simp: apart_def)

lemma strcat_loop:
  assumes s: "cstr m src ys" and ap: "apart src (Suc (length ys)) (dest + n) (Suc (length ys))"
  shows "loop_c (strcat_body dest src n) (n, m)
    = Returns (n + of_nat (length ys), copied m (dest + n) src (Suc (length ys)))"
proof -
  let ?f = "\<lambda>k. (n + of_nat k, copied m (dest + n) src k)"
  have wr: "(copied m (dest + n) src k)(dest + (n + of_nat k) := copied m (dest + n) src k (src + of_nat k))
      = copied m (dest + n) src (Suc k)" if "k \<le> length ys" for k
    using copied_step [of src k "dest + n" m] apartD [OF ap, of k k] that by (simp add: add.assoc)
  have rd: "copied m (dest + n) src (Suc k) (src + of_nat k) = m (src + of_nat k)"
    "copied m (dest + n) src k (src + of_nat k) = m (src + of_nat k)" if "k \<le> length ys" for k
    using apartD [OF ap, of k "Suc k"] apartD [OF ap, of k k] that by (auto intro!: copied_src)
  have body: "strcat_body dest src n (?f k)
      = Returns (if m (src + of_nat k) = 0 then Inr (n + of_nat k, copied m (dest + n) src (Suc k))
                 else Inl (?f (Suc k)))" if "k \<le> length ys" for k
    using rd [OF that] wr [OF that]
    by (cases "m (src + of_nat k) = 0") (simp_all add: strcat_body_def Let_def add.commute)
  have "loop_c (strcat_body dest src n) (?f 0)
    = Returns (n + of_nat (length ys), copied m (dest + n) src (Suc (length ys)))"
  proof (rule loop_c_steps)
    show "strcat_body dest src n (?f k) = Returns (Inl (?f (Suc k)))" if "k < length ys" for k
      using body [of k] cstr_nz [OF s that] that by simp
    show "strcat_body dest src n (?f (length ys))
        = Returns (Inr (n + of_nat (length ys), copied m (dest + n) src (Suc (length ys))))"
      using body [of "length ys"] cstr_end [OF s] by simp
  qed
  moreover have "copied m (dest + n) src 0 = m" by (simp add: copied_def)
  ultimately show ?thesis by simp
qed

lemma strcpy_as_strcat: "strcpy_body dest src = strcat_body dest src 0"
  by (rule ext) (simp add: strcpy_body_def strcat_body_def)

lemma to_int_small: "n < 2 ^ 31 \<Longrightarrow> to_int (of_nat n) = int n"
proof -
  assume n: "n < 2 ^ 31"
  then have "take_bit 64 n = n" by (intro take_bit_nat_eq_self) simp
  then have "(ucast (of_nat n :: u64) :: u32) = of_nat n" by (simp add: unsigned_of_nat)
  then show ?thesis
    using n by (simp add: to_int_def signed_of_nat signed_take_bit_int_eq_self)
qed

lemma strcpy_cstr:
  assumes "cstr m src ys" and "apart src (Suc (length ys)) dest (Suc (length ys))"
  shows "strcpy m dest src = Returns (int (length ys), copied m dest src (Suc (length ys)))"
  using strcat_loop [of m src ys dest 0] assms
  by (simp add: strcpy_def strcpy_as_strcat to_int_small cstr_def)

lemma strcat_cstr:
  assumes "cstr m dest xs" and "cstr m src ys"
    and "apart src (Suc (length ys)) (dest + of_nat (length xs)) (Suc (length ys))"
    and "length xs + length ys < 2 ^ 31"
  shows "strcat m dest src = Returns (int (length xs + length ys),
           copied m (dest + of_nat (length xs)) src (Suc (length ys)))"
  using strcat_loop [OF assms(2,3)] assms(4) to_int_small [of "length xs + length ys"]
  by (simp add: strcat_def strlen_cstr [OF assms(1)])

lemma cstr_copied:
  assumes "cstr m dest xs" and "cstr m src ys" and "length xs + length ys + 1 < 2 ^ 31"
  shows "cstr (copied m (dest + of_nat (length xs)) src (Suc (length ys))) dest (xs @ ys)"
proof (rule cstr_I)
  let ?d = "dest + of_nat (length xs)" let ?c = "copied m ?d src (Suc (length ys))"
  have new: "?c (dest + of_nat (length xs + j)) = m (src + of_nat j)" if "j \<le> length ys" for j
    using copied_dest [of j "Suc (length ys)" m ?d src] that by (simp add: add.assoc)
  have old: "?c (dest + of_nat i) = m (dest + of_nat i)" if i: "i < length xs" for i
  proof (rule copied_src)
    show "dest + of_nat i \<notin> addrs ?d (Suc (length ys))"
    proof
      assume "dest + of_nat i \<in> addrs ?d (Suc (length ys))"
      then obtain j where j: "j < Suc (length ys)" "dest + of_nat i = ?d + of_nat j"
        by (auto simp: addrs_def)
      then have "(of_nat i :: u64) = of_nat (length xs + j)" by (simp add: add.assoc)
      then show False using of_nat_inj_u64 [of i "length xs + j"] i j(1) assms(3) by simp
    qed
  qed
  show "?c (dest + of_nat i) = (xs @ ys) ! i" if "i < length (xs @ ys)" for i
  proof (cases "i < length xs")
    case True
    with old cstr_nth [OF assms(1)] show ?thesis by (simp add: nth_append)
  next
    case False
    then have "length xs + (i - length xs) = i" by simp
    with new [of "i - length xs"] cstr_nth [OF assms(2), of "i - length xs"] that False show ?thesis
      by (simp add: nth_append)
  qed
  show "?c (dest + of_nat (length (xs @ ys))) = 0"
    using new [of "length ys"] cstr_end [OF assms(2)] by simp
qed (use assms in \<open>auto simp: cstr_def\<close>)

section \<open>Searching\<close>

lemma strchrnul_loop:
  "cstr m s xs \<Longrightarrow> loop_c (strchrnul_body m c) s
     = Returns (s + of_nat (if c \<in> sint ` set xs then Suc (length (takeWhile (\<lambda>x. sint x \<noteq> c) xs)) else length xs))"
proof (induction xs arbitrary: s)
  case Nil
  then show ?case by (simp add: loop_c_unfold strchrnul_body_def cstr_Nil)
next
  case (Cons x xs)
  from cstr_Cons [OF Cons.prems] have x: "m s = x" "x \<noteq> 0" and t: "cstr m (s + 1) xs" by auto
  from x have "strchrnul_body m c s = Returns (if sint x = c then Inr (s + 1) else Inl (s + 1))"
    by (simp add: strchrnul_body_def)
  with Cons.IH [OF t] show ?case
    by (subst loop_c_unfold) (auto simp: add.assoc)
qed

lemma strchrnul_cstr:
  "cstr m s xs \<Longrightarrow> strchrnul m s c
     = Returns (s + of_nat (if c \<in> sint ` set xs then Suc (length (takeWhile (\<lambda>x. sint x \<noteq> c) xs)) else length xs))"
  by (simp add: strchrnul_def strchrnul_loop)

section \<open>Properties\<close>

definition demo_strs :: memory where
  "demo_strs = store (store (\<lambda>_. 0) 0x100 [0x61, 0x62]) 0x200 [0x61, 0xE9, 0x63]"

lemma demo_cstr: "cstr demo_strs 0x100 [0x61, 0x62]" "cstr demo_strs 0x200 [0x61, 0xE9, 0x63]"
  by (simp_all add: demo_strs_def cstr_def load_Suc load_def)

text \<open>
  on strings in memory, \<open>strcmp\<close> answers 0 exactly for equal strings, and its sign is
  antisymmetric: swapping the arguments negates the answer. It always returns.
\<close>

theorem strcmp_decides:
  assumes "cstr m a xs" and "cstr m b ys"
  shows "\<exists>r. strcmp m a b = Returns r \<and> (r = 0 \<longleftrightarrow> xs = ys) \<and> strcmp m b a = Returns (- r)
    \<and> strncmp m a b (of_nat (length xs)) = str_diff xs (take (length xs) ys)"
proof -
  have nz: "0 \<notin> set xs" "0 \<notin> set ys" and len: "length xs < 2 ^ 64"
    using assms by (auto simp: cstr_def)
  have "unat (of_nat (length xs) :: u64) = length xs"
    using len by (simp add: unat_of_nat)
  then show ?thesis
    using strcmp_cstr [OF assms] strcmp_cstr [OF assms(2,1)] str_diff_0 [OF nz] str_diff_anti [of ys xs]
      strncmp_cstr [OF assms] by simp
qed

lemma strcmp_decides_witness:
  "\<exists>r. strcmp demo_strs 0x100 0x200 = Returns r \<and> (r = 0 \<longleftrightarrow> [0x61, 0x62] = [0x61, 0xE9, 0x63 :: u8])
    \<and> strcmp demo_strs 0x200 0x100 = Returns (- r)
    \<and> strncmp demo_strs 0x100 0x200 (of_nat (length [0x61, 0x62 :: u8]))
        = str_diff [0x61, 0x62] (take (length [0x61, 0x62 :: u8]) [0x61, 0xE9, 0x63])"
  by (rule strcmp_decides [OF demo_cstr])

text \<open>
  \<open>strcat\<close> leaves the concatenation at \<open>dest\<close>, answers its length and writes nowhere outside
  the \<open>strlen src + 1\<close> bytes after the old end, provided the source does not overlap these bytes.
\<close>

theorem strcat_concatenates:
  assumes "cstr m dest xs" and "cstr m src ys" and "length xs + length ys + 1 < 2 ^ 31"
    and "apart src (Suc (length ys)) (dest + of_nat (length xs)) (Suc (length ys))"
  shows "\<exists>m'. strcat m dest src = Returns (int (length xs + length ys), m')
    \<and> cstr m' dest (xs @ ys)
    \<and> (\<forall>x. x \<notin> addrs (dest + of_nat (length xs)) (Suc (length ys)) \<longrightarrow> m' x = m x)"
  using strcat_cstr [OF assms(1,2,4)] cstr_copied [OF assms(1,2,3)] assms(3) by (auto simp: copied_def)

lemma strcat_concatenates_witness:
  "\<exists>m'. strcat demo_strs 0x200 0x100 = Returns (int (length [0x61, 0xE9, 0x63 :: u8] + length [0x61, 0x62 :: u8]), m')
    \<and> cstr m' 0x200 ([0x61, 0xE9, 0x63] @ [0x61, 0x62])
    \<and> (\<forall>x. x \<notin> addrs (0x200 + of_nat (length [0x61, 0xE9, 0x63 :: u8])) (Suc (length [0x61, 0x62 :: u8]))
         \<longrightarrow> m' x = demo_strs x)"
  by (rule strcat_concatenates [OF demo_cstr(2,1)])
    (simp_all add: apart_def addrs_disjoint)

end
