(* ===== verification/Kmalloc.thy ===== *)
theory Kmalloc
  imports Pmm CMemory
begin

text \<open>
  The kernel heap of \<open>lib/kmalloc.c\<close>: a block is a run of pages whose first page holds the
  metadata and whose other pages are the caller's. The state is the page allocator and the memory
  the pointers point to; every page allocator call and every store of the C code is a step.
\<close>

record heap =
  kpmm :: mem_info
  kmem :: memory

section \<open>The operations\<close>

text \<open>The two fields of \<open>metadata_t\<close>, at offsets 0 and 8.\<close>

definition meta_numpages :: "memory \<Rightarrow> u64 \<Rightarrow> u64" where "meta_numpages m d = ld64 m d"
definition meta_size :: "memory \<Rightarrow> u64 \<Rightarrow> u64" where "meta_size m d = ld64 m (d + 8)"

definition set_meta :: "memory \<Rightarrow> u64 \<Rightarrow> u64 \<Rightarrow> u64 \<Rightarrow> memory" where
  "set_meta m d np sz = st64 (st64 m d np) (d + 8) sz"

definition kmalloc :: "heap \<Rightarrow> u64 \<Rightarrow> (u64 \<times> heap) outcome" where
  "kmalloc h sz =
     obind (pmm_get (kpmm h) (NUM_PAGES sz + 1) 0) (\<lambda>(pa, p').
       let alloc = PHYS_TO_VIRT pa
       in Returns (alloc + PAGE_SIZE, \<lparr>kpmm = p', kmem = set_meta (kmem h) alloc (NUM_PAGES sz) sz\<rparr>))"

definition kmfree :: "heap \<Rightarrow> u64 \<Rightarrow> heap outcome" where
  "kmfree h addr =
     (let d = addr - PAGE_SIZE
      in obind (pmm_free (kpmm h) (VIRT_TO_PHYS d) (meta_numpages (kmem h) d + 1)) (\<lambda>p'.
         Returns (h\<lparr>kpmm := p'\<rparr>)))"

text \<open>The order of the two stores of the in-place case is the code's: size, then page count.\<close>

definition kmrealloc :: "heap \<Rightarrow> u64 \<Rightarrow> u64 \<Rightarrow> (u64 \<times> heap) outcome" where
  "kmrealloc h addr newsize =
     (if addr = 0 then kmalloc h newsize
      else let d = addr - PAGE_SIZE
        in if NUM_PAGES (meta_size (kmem h) d) = NUM_PAGES newsize
           then Returns (addr, h\<lparr>kmem := st64 (st64 (kmem h) (d + 8) newsize) d (NUM_PAGES newsize)\<rparr>)
           else obind (kmalloc h newsize) (\<lambda>(new, h1).
                  let osize = meta_size (kmem h1) d;
                      h2 = h1\<lparr>kmem := memcpy (kmem h1) new addr (if osize > newsize then newsize else osize)\<rparr>
                  in obind (kmfree h2 addr) (\<lambda>h3. Returns (new, h3))))"

definition umalloc :: "heap \<Rightarrow> u64 \<Rightarrow> (u64 \<times> heap) outcome" where
  "umalloc h sz =
     obind (pmm_get (kpmm h) (NUM_PAGES sz + 1) USERSPACE_OFFSET) (\<lambda>(alloc, p').
       Returns (alloc + PAGE_SIZE, \<lparr>kpmm = p', kmem = set_meta (kmem h) alloc (NUM_PAGES sz) sz\<rparr>))"

definition umfree :: "heap \<Rightarrow> u64 \<Rightarrow> heap outcome" where
  "umfree h addr =
     (let d = addr - PAGE_SIZE
      in obind (pmm_free (kpmm h) d (meta_numpages (kmem h) d + 1)) (\<lambda>p'. Returns (h\<lparr>kpmm := p'\<rparr>)))"

section \<open>Page runs in the direct map\<close>

lemma page_of_in_run:
  assumes "unat pa mod 4096 = 0" and "unat pa + n * 4096 \<le> 2 ^ 47"
    and "x \<in> addrs (PHYS_TO_VIRT pa) (n * 4096)"
  shows "page_of (VIRT_TO_PHYS x) \<in> page_run pa n"
proof -
  from assms(3) obtain k where k: "k < n * 4096" "x = PHYS_TO_VIRT pa + of_nat k"
    by (auto simp: addrs_def)
  then have "VIRT_TO_PHYS x = pa + of_nat k"
    by (simp add: VIRT_TO_PHYS_def PHYS_TO_VIRT_def)
  moreover have "unat pa + k < 2 ^ 64" using assms(2) k(1) by simp
  then have "unat (pa + of_nat k) = unat pa + k" by (rule unat_add_of_nat)
  moreover have "unat pa = page_of pa * 4096" by (rule aligned_page [OF assms(1)])
  ultimately have "unat (VIRT_TO_PHYS x) = page_of pa * 4096 + k" by (simp only:)
  then have "page_of (VIRT_TO_PHYS x) = page_of pa + k div 4096" by (simp add: page_of_def [of "VIRT_TO_PHYS x"])
  moreover have "k div 4096 < n" using k(1) by (simp add: less_mult_imp_div_less)
  ultimately show ?thesis by (simp add: page_run_def)
qed

lemma runs_disjoint:
  assumes "unat p mod 4096 = 0" "unat p + n * 4096 \<le> 2 ^ 47"
    and "unat q mod 4096 = 0" "unat q + k * 4096 \<le> 2 ^ 47" and "page_run p n \<inter> page_run q k = {}"
  shows "addrs (PHYS_TO_VIRT p) (n * 4096) \<inter> addrs (PHYS_TO_VIRT q) (k * 4096) = {}"
  using page_of_in_run [OF assms(1,2)] page_of_in_run [OF assms(3,4)] assms(5) by blast

section \<open>The block invariant\<close>

text \<open>
  \<open>B\<close> is the set of live blocks, from the address the caller holds to the size it asked for.
  The pages of a block are its data pages and the page before them.
\<close>

definition blk_phys :: "u64 \<Rightarrow> u64" where "blk_phys a = VIRT_TO_PHYS (a - PAGE_SIZE)"
definition blk_pages :: "u64 \<Rightarrow> nat" where "blk_pages sz = unat (NUM_PAGES sz) + 1"

definition blk_ok :: "heap \<Rightarrow> u64 \<Rightarrow> u64 \<Rightarrow> bool" where
  "blk_ok h a sz \<longleftrightarrow> unat (blk_phys a) mod 4096 = 0 \<and> no_wrap (blk_phys a) (blk_pages sz)
     \<and> covers (kpmm h) (page_of (blk_phys a) + blk_pages sz)
     \<and> page_run (blk_phys a) (blk_pages sz) \<inter> free_pages (kpmm h) = {}
     \<and> meta_numpages (kmem h) (a - PAGE_SIZE) = NUM_PAGES sz \<and> meta_size (kmem h) (a - PAGE_SIZE) = sz
     \<and> unat sz + 4095 < 2 ^ 64"

definition heap_inv :: "heap \<Rightarrow> (u64 \<rightharpoonup> u64) \<Rightarrow> bool" where
  "heap_inv h B \<longleftrightarrow> pmm_inv (kpmm h) \<and> unat (phys_limit (kpmm h)) \<le> 2 ^ 47
     \<and> (\<forall>a sz. B a = Some sz \<longrightarrow> blk_ok h a sz)
     \<and> (\<forall>a b sa sb. B a = Some sa \<longrightarrow> B b = Some sb \<longrightarrow> a \<noteq> b \<longrightarrow>
          page_run (blk_phys a) (blk_pages sa) \<inter> page_run (blk_phys b) (blk_pages sb) = {})"

definition request_ok :: "heap \<Rightarrow> u64 \<Rightarrow> bool" where
  "request_ok h sz \<longleftrightarrow> unat sz + 4095 < 2 ^ 64 \<and> fits (kpmm h) (NUM_PAGES sz + 1)"

text \<open>All addresses of a block, its metadata page included.\<close>

definition blk_addrs :: "u64 \<Rightarrow> u64 \<Rightarrow> u64 set" where
  "blk_addrs a sz = addrs (a - PAGE_SIZE) (blk_pages sz * 4096)"

lemma unat_pages_1: "unat (NUM_PAGES sz + 1) = blk_pages sz"
proof -
  have "unat (NUM_PAGES sz) \<le> 2 ^ 52"
    using unat_u64 [of "sz + PAGE_SIZE - 1"] by (simp add: NUM_PAGES_def PAGE_SIZE_def unat_div)
  then have "unat (NUM_PAGES sz + of_nat 1) = unat (NUM_PAGES sz) + 1"
    by (intro unat_add_of_nat) simp
  then show ?thesis by (simp add: blk_pages_def)
qed

lemma size_le_pages: "unat sz + 4095 < 2 ^ 64 \<Longrightarrow> unat sz + 4096 \<le> blk_pages sz * 4096"
proof -
  assume "unat sz + 4095 < 2 ^ 64"
  then have "unat (NUM_PAGES sz) = (unat sz + 4095) div 4096" by (rule NUM_PAGES_unat)
  moreover have "unat sz + 4095 = (unat sz + 4095) div 4096 * 4096 + (unat sz + 4095) mod 4096"
    by (rule div_mult_mod_eq [symmetric])
  moreover have "(unat sz + 4095) mod 4096 < 4096" by simp
  ultimately have "unat sz \<le> unat (NUM_PAGES sz) * 4096" by linarith
  then show ?thesis by (simp add: blk_pages_def)
qed

lemma blk_bound:
  assumes "heap_inv h B" and "blk_ok h a sz"
  shows "unat (blk_phys a) + blk_pages sz * 4096 \<le> 2 ^ 47"
proof -
  have "(page_of (blk_phys a) + blk_pages sz) * 4096 \<le> unat (phys_limit (kpmm h))"
    using assms by (intro inv_covers_limit) (auto simp: heap_inv_def blk_ok_def)
  moreover have "unat (blk_phys a) = page_of (blk_phys a) * 4096"
    using assms(2) by (intro aligned_page) (simp add: blk_ok_def)
  ultimately show ?thesis using assms(1) by (simp add: heap_inv_def add_mult_distrib)
qed

lemma PHYS_VIRT [simp]: "PHYS_TO_VIRT (VIRT_TO_PHYS a) = a"
  by (simp add: VIRT_TO_PHYS_def PHYS_TO_VIRT_def)

lemma blk_addrs_phys: "blk_addrs a sz = addrs (PHYS_TO_VIRT (blk_phys a)) (blk_pages sz * 4096)"
  by (simp add: blk_addrs_def blk_phys_def)

lemma blks_disjoint:
  assumes "heap_inv h B" and "B a = Some sa" and "B b = Some sb" and "a \<noteq> b"
  shows "blk_addrs a sa \<inter> blk_addrs b sb = {}"
proof -
  have ok: "blk_ok h a sa" "blk_ok h b sb" using assms by (auto simp: heap_inv_def)
  show ?thesis unfolding blk_addrs_phys
    using ok blk_bound [OF assms(1) ok(1)] blk_bound [OF assms(1) ok(2)] assms
    by (intro runs_disjoint) (auto simp: blk_ok_def heap_inv_def)
qed

lemma addrs_within: "off + n \<le> k \<Longrightarrow> addrs (b + of_nat off) n \<subseteq> addrs b k"
proof
  fix x assume le: "off + n \<le> k" and "x \<in> addrs (b + of_nat off) n"
  then obtain i where "i < n" "x = b + of_nat (off + i)" by (auto simp: addrs_def add.assoc)
  with le show "x \<in> addrs b k" by (simp only:) (rule in_addrs, simp)
qed

lemma data_in_blk: "unat sz + 4095 < 2 ^ 64 \<Longrightarrow> n \<le> unat sz \<Longrightarrow> addrs a n \<subseteq> blk_addrs a sz"
  using addrs_within [of 4096 n "blk_pages sz * 4096" "a - PAGE_SIZE"] size_le_pages [of sz]
  by (simp add: blk_addrs_def PAGE_SIZE_def)

lemma meta_in_blk: "addrs (a - PAGE_SIZE) 16 \<subseteq> blk_addrs a sz"
  unfolding blk_addrs_def by (rule addrs_mono) (simp add: blk_pages_def)

lemma meta_parts: "addrs d 8 \<subseteq> addrs d 16" "addrs (d + 8) 8 \<subseteq> addrs d 16"
  using addrs_within [of 8 8 16 d] addrs_mono [of 8 16 d] by simp_all

lemma meta_parts_apart: "addrs (d :: u64) 8 \<inter> addrs (d + 8) 8 = {}"
proof -
  have "d + of_nat i \<noteq> d + 8 + of_nat j" if "i < 8" "j < 8" for i j :: nat
  proof
    assume "d + of_nat i = d + 8 + of_nat j"
    then have "(of_nat i :: u64) = of_nat (8 + j)" by (simp add: add.assoc)
    then show False using of_nat_inj_u64 [of i "8 + j"] that by simp
  qed
  then show ?thesis by (auto simp: addrs_def)
qed

lemma set_meta_read [simp]:
  "meta_numpages (set_meta m d np sz) d = np" "meta_size (set_meta m d np sz) d = sz"
  using meta_parts_apart [of d]
  by (simp_all add: set_meta_def meta_numpages_def meta_size_def ld64_st64_other)

lemma set_meta_other: "x \<notin> addrs d 16 \<Longrightarrow> set_meta m d np sz x = m x"
proof -
  assume "x \<notin> addrs d 16"
  with meta_parts [of d] have "x \<notin> addrs d 8" "x \<notin> addrs (d + 8) 8" by blast+
  then show ?thesis by (simp add: set_meta_def st64_other)
qed

text \<open>A change of memory outside a block keeps its data and its metadata.\<close>

definition agree_on :: "u64 set \<Rightarrow> memory \<Rightarrow> memory \<Rightarrow> bool" where
  "agree_on A m m' \<longleftrightarrow> (\<forall>x. x \<in> A \<longrightarrow> m' x = m x)"

lemma agree_load: "agree_on A m m' \<Longrightarrow> addrs a n \<subseteq> A \<Longrightarrow> load m' a n = load m a n"
  by (rule nth_equalityI) (auto simp: agree_on_def dest: in_addrs [of _ n a])

lemma agree_meta:
  assumes "agree_on (blk_addrs a sz) m m'"
  shows "meta_numpages m' (a - PAGE_SIZE) = meta_numpages m (a - PAGE_SIZE)"
    and "meta_size m' (a - PAGE_SIZE) = meta_size m (a - PAGE_SIZE)"
  using agree_load [OF assms, of "a - PAGE_SIZE" 8] agree_load [OF assms, of "a - PAGE_SIZE + 8" 8]
    meta_in_blk [of a sz] meta_parts [of "a - PAGE_SIZE"]
  by (auto simp: meta_numpages_def meta_size_def ld64_def)

lemma blk_ok_frame:
  assumes "blk_ok h a sz" and "agree_on (blk_addrs a sz) (kmem h) (kmem h')"
    and "covers (kpmm h') = covers (kpmm h)"
    and "page_run (blk_phys a) (blk_pages sz) \<inter> free_pages (kpmm h') = {}"
  shows "blk_ok h' a sz"
  using assms(1,3,4) agree_meta [OF assms(2)] by (simp add: blk_ok_def)

section \<open>The operations keep the invariant\<close>

lemma kmalloc_ok:
  assumes inv: "heap_inv h B" and req: "request_ok h sz" and ret: "kmalloc h sz = Returns (a, h')"
  shows "heap_inv h' (B(a \<mapsto> sz)) \<and> B a = None
    \<and> (\<forall>b sb. B b = Some sb \<longrightarrow> agree_on (blk_addrs b sb) (kmem h) (kmem h'))
    \<and> page_run (blk_phys a) (blk_pages sz) \<subseteq> free_pages (kpmm h)
    \<and> free_pages (kpmm h') = free_pages (kpmm h) - page_run (blk_phys a) (blk_pages sz)
    \<and> covers (kpmm h') = covers (kpmm h)"
proof -
  from ret obtain pa p' where get: "pmm_get (kpmm h) (NUM_PAGES sz + 1) 0 = Returns (pa, p')"
    and a: "a = PHYS_TO_VIRT pa + PAGE_SIZE"
    and h': "h' = \<lparr>kpmm = p', kmem = set_meta (kmem h) (PHYS_TO_VIRT pa) (NUM_PAGES sz) sz\<rparr>"
    by (auto simp: kmalloc_def obind_eq_Returns Let_def)
  have pa: "blk_phys a = pa" "a - PAGE_SIZE = PHYS_TO_VIRT pa" by (simp_all add: a blk_phys_def)
  have law: "pmm_inv p'" "page_run pa (blk_pages sz) \<subseteq> free_pages (kpmm h)"
    "free_pages p' = free_pages (kpmm h) - page_run pa (blk_pages sz)" "unat pa mod 4096 = 0"
    "no_wrap pa (blk_pages sz)" "covers (kpmm h) (page_of pa + blk_pages sz)" "covers p' = covers (kpmm h)"
    using pmm.get_law [OF _ _ _ get] inv req unat_pages_1 [of sz]
    by (auto simp: heap_inv_def request_ok_def)
  have lim: "phys_limit p' = phys_limit (kpmm h)"
    using pmm_get_inv [OF _ _ _ get] inv req by (auto simp: heap_inv_def request_ok_def same_shape_def)
  have new: "blk_ok h' a sz" using law pa req by (auto simp: blk_ok_def h' request_ok_def)
  have bd: "unat pa + blk_pages sz * 4096 \<le> 2 ^ 47"
  proof -
    have "pmm_inv (kpmm h)" "unat (phys_limit (kpmm h)) \<le> 2 ^ 47" using inv by (auto simp: heap_inv_def)
    with inv_covers_limit [OF _ law(6)] aligned_page [OF law(4)] show ?thesis by (simp add: add_mult_distrib)
  qed
  have dis: "page_run pa (blk_pages sz) \<inter> page_run (blk_phys b) (blk_pages sb) = {}"
    and agree: "agree_on (blk_addrs b sb) (kmem h) (kmem h')" if b: "B b = Some sb" for b sb
  proof -
    have okb: "blk_ok h b sb" using inv b by (simp add: heap_inv_def)
    then show dis': "page_run pa (blk_pages sz) \<inter> page_run (blk_phys b) (blk_pages sb) = {}"
      using law(2) by (auto simp: blk_ok_def)
    have "blk_addrs a sz \<inter> blk_addrs b sb = {}"
      unfolding blk_addrs_phys pa using okb bd blk_bound [OF inv okb] dis' law(4)
      by (intro runs_disjoint) (auto simp: blk_ok_def)
    then show "agree_on (blk_addrs b sb) (kmem h) (kmem h')"
      using meta_in_blk [of a sz] by (auto simp: agree_on_def h' pa(2) intro!: set_meta_other)
  qed
  have fresh: "B a = None"
  proof (rule ccontr)
    assume "B a \<noteq> None"
    then obtain sb where "B a = Some sb" by auto
    from dis [OF this] have "page_run pa (blk_pages sz) \<inter> page_run pa (blk_pages sb) = {}" by (simp add: pa)
    moreover have "page_of pa \<in> page_run pa (blk_pages sz)" "page_of pa \<in> page_run pa (blk_pages sb)"
      by (simp_all add: page_run_def blk_pages_def)
    ultimately show False by blast
  qed
  have old: "blk_ok h' b sb" if b: "B b = Some sb" for b sb
  proof (rule blk_ok_frame [OF _ agree [OF b]])
    show "blk_ok h b sb" using inv b by (simp add: heap_inv_def)
    then show "page_run (blk_phys b) (blk_pages sb) \<inter> free_pages (kpmm h') = {}"
      using law(3) by (auto simp: blk_ok_def h')
  qed (simp add: h' law(7))
  have "heap_inv h' (B(a \<mapsto> sz))"
    unfolding heap_inv_def
  proof (intro conjI allI impI)
    show "pmm_inv (kpmm h')" "unat (phys_limit (kpmm h')) \<le> 2 ^ 47"
      using law(1) lim inv by (auto simp: h' heap_inv_def)
    show "blk_ok h' c sc" if "(B(a \<mapsto> sz)) c = Some sc" for c sc
      using that new old by (auto split: if_splits)
    show "page_run (blk_phys c) (blk_pages sc) \<inter> page_run (blk_phys e) (blk_pages se) = {}"
      if ce: "(B(a \<mapsto> sz)) c = Some sc" "(B(a \<mapsto> sz)) e = Some se" "c \<noteq> e" for c e sc se
    proof (cases "c = a")
      case True
      then have "B e = Some se" "sc = sz" using ce by simp_all
      with dis [of e se] True show ?thesis by (simp add: pa)
    next
      case c: False
      then have Bc: "B c = Some sc" using ce(1) by simp
      show ?thesis
      proof (cases "e = a")
        case True
        then have "se = sz" using ce(2) by simp
        with dis [OF Bc] True show ?thesis by (simp add: pa Int_commute)
      next
        case False
        then have "B e = Some se" using ce(2) by simp
        with inv ce(3) Bc show ?thesis unfolding heap_inv_def by blast
      qed
    qed
  qed
  then show ?thesis using fresh agree law pa by (simp add: h')
qed

lemma kmfree_ok:
  assumes inv: "heap_inv h B" and live: "B a = Some sz"
  shows "\<exists>h'. kmfree h a = Returns h' \<and> heap_inv h' (B(a := None)) \<and> kmem h' = kmem h
    \<and> free_pages (kpmm h') = free_pages (kpmm h) \<union> page_run (blk_phys a) (blk_pages sz)"
proof -
  have ok: "blk_ok h a sz" and pinv: "pmm_inv (kpmm h)" using inv live by (auto simp: heap_inv_def)
  let ?n = "meta_numpages (kmem h) (a - PAGE_SIZE) + 1"
  have n: "unat ?n = blk_pages sz" using ok unat_pages_1 [of sz] by (simp add: blk_ok_def)
  have "no_wrap (blk_phys a) (unat ?n)" "covers (kpmm h) (page_of (blk_phys a) + unat ?n)"
    using ok by (simp_all only: n) (simp_all add: blk_ok_def)
  from pmm_free_ok [OF pinv this] obtain p' where p': "pmm_free (kpmm h) (blk_phys a) ?n = Returns p'"
    "same_shape (kpmm h) p'" "pmm_inv p'" "free_pages p' = free_pages (kpmm h) \<union> page_run (blk_phys a) (blk_pages sz)"
    unfolding n by blast
  let ?h' = "h\<lparr>kpmm := p'\<rparr>"
  have ret: "kmfree h a = Returns ?h'"
    using p'(1) by (simp add: kmfree_def Let_def blk_phys_def)
  have others: "blk_ok ?h' b sb" if b: "B b = Some sb" "b \<noteq> a" for b sb
  proof (rule blk_ok_frame)
    show "blk_ok h b sb" using inv b by (simp add: heap_inv_def)
    moreover have "page_run (blk_phys a) (blk_pages sz) \<inter> page_run (blk_phys b) (blk_pages sb) = {}"
      using inv live b unfolding heap_inv_def by metis
    ultimately show "page_run (blk_phys b) (blk_pages sb) \<inter> free_pages (kpmm ?h') = {}"
      using p'(4) by (auto simp: blk_ok_def)
  qed (use covers_same_shape [OF p'(2)] in \<open>simp_all add: agree_on_def\<close>)
  have "heap_inv ?h' (B(a := None))"
    unfolding heap_inv_def
  proof (intro conjI allI impI)
    show "unat (phys_limit (kpmm ?h')) \<le> 2 ^ 47"
      using inv p'(2) by (simp add: heap_inv_def same_shape_def)
    show "blk_ok ?h' b sb" if "(B(a := None)) b = Some sb" for b sb
      using that others by (simp split: if_splits)
    show "page_run (blk_phys b) (blk_pages sb) \<inter> page_run (blk_phys c) (blk_pages sc) = {}"
      if "(B(a := None)) b = Some sb" "(B(a := None)) c = Some sc" "b \<noteq> c" for b c sb sc
      using that inv unfolding heap_inv_def by (simp split: if_splits)
  qed (simp add: p'(3))
  with ret p'(4) show ?thesis by simp
qed

text \<open>Writing to memory keeps the invariant when it changes no metadata.\<close>

lemma heap_inv_mem:
  assumes inv: "heap_inv h B"
    and m: "\<And>a sz. B a = Some sz \<Longrightarrow> agree_on (addrs (a - PAGE_SIZE) 16) (kmem h) m'"
  shows "heap_inv (h\<lparr>kmem := m'\<rparr>) B"
proof -
  have "blk_ok (h\<lparr>kmem := m'\<rparr>) a sz" if a: "B a = Some sz" for a sz
  proof -
    have ok: "blk_ok h a sz" using inv a by (simp add: heap_inv_def)
    have "load m' (a - PAGE_SIZE) 8 = load (kmem h) (a - PAGE_SIZE) 8"
      "load m' (a - PAGE_SIZE + 8) 8 = load (kmem h) (a - PAGE_SIZE + 8) 8"
      using agree_load [OF m [OF a]] meta_parts [of "a - PAGE_SIZE"] by blast+
    then show ?thesis using ok by (simp add: blk_ok_def meta_numpages_def meta_size_def ld64_def)
  qed
  then show ?thesis using inv by (simp add: heap_inv_def)
qed

lemma meta_data_apart: "n + 4096 \<le> 2 ^ 64 \<Longrightarrow> addrs (a - PAGE_SIZE) 16 \<inter> addrs a n = {}"
proof -
  assume n: "n + 4096 \<le> 2 ^ 64"
  have "a - PAGE_SIZE + of_nat i \<noteq> a + of_nat j" if "i < 16" "j < n" for i j
  proof
    assume "a - PAGE_SIZE + of_nat i = a + of_nat j"
    then have "(of_nat i :: u64) = of_nat (4096 + j)" by (simp add: PAGE_SIZE_def algebra_simps)
    then show False using of_nat_inj_u64 [of i "4096 + j"] that n by simp
  qed
  then show ?thesis by (auto simp: addrs_def)
qed

lemma in_place_agree:
  assumes "unat sz + 4095 < 2 ^ 64" and "n \<le> unat sz"
  shows "agree_on (addrs a n) m (st64 (st64 m (a - PAGE_SIZE + 8) x) (a - PAGE_SIZE) y)"
proof -
  have "addrs (a - PAGE_SIZE) 16 \<inter> addrs a n = {}" using assms by (intro meta_data_apart) simp
  with meta_parts [of "a - PAGE_SIZE"] have "addrs (a - PAGE_SIZE) 8 \<inter> addrs a n = {}"
    "addrs (a - PAGE_SIZE + 8) 8 \<inter> addrs a n = {}" by blast+
  then have "st64 (st64 m (a - PAGE_SIZE + 8) x) (a - PAGE_SIZE) y z = m z" if "z \<in> addrs a n" for z
    using that by (subst st64_other, blast, subst st64_other, blast) simp
  then show ?thesis by (simp add: agree_on_def)
qed

lemma realloc_in_place:
  assumes inv: "heap_inv h B" and live: "B a = Some osz"
    and np: "NUM_PAGES osz = NUM_PAGES nsz" and nsz: "unat nsz + 4095 < 2 ^ 64"
    and m': "m' = st64 (st64 (kmem h) (a - PAGE_SIZE + 8) nsz) (a - PAGE_SIZE) (NUM_PAGES nsz)"
  shows "heap_inv (h\<lparr>kmem := m'\<rparr>) (B(a \<mapsto> nsz))"
    and "\<And>b sb. B b = Some sb \<Longrightarrow> b \<noteq> a \<Longrightarrow> agree_on (blk_addrs b sb) (kmem h) m'"
proof -
  let ?d = "a - PAGE_SIZE" let ?h' = "h\<lparr>kmem := m'\<rparr>"
  have pages: "blk_pages nsz = blk_pages osz" using np by (simp add: blk_pages_def)
  have ok: "blk_ok h a osz" using inv live by (simp add: heap_inv_def)
  have read: "meta_numpages m' ?d = NUM_PAGES nsz" "meta_size m' ?d = nsz"
    using meta_parts_apart [of ?d]
    by (simp_all add: m' meta_numpages_def meta_size_def ld64_st64_other Int_commute)
  show agree: "agree_on (blk_addrs b sb) (kmem h) m'" if b: "B b = Some sb" "b \<noteq> a" for b sb
  proof -
    have "blk_addrs a osz \<inter> blk_addrs b sb = {}" using blks_disjoint [OF inv live b(1)] b(2) by simp
    with meta_in_blk [of a osz] meta_parts [of ?d]
    have "addrs ?d 8 \<inter> blk_addrs b sb = {}" "addrs (?d + 8) 8 \<inter> blk_addrs b sb = {}" by blast+
    then have "m' x = kmem h x" if "x \<in> blk_addrs b sb" for x
      unfolding m' using that by (subst st64_other, blast, subst st64_other, blast) simp
    then show ?thesis by (simp add: agree_on_def)
  qed
  have others: "blk_ok ?h' b sb" if b: "B b = Some sb" "b \<noteq> a" for b sb
  proof (rule blk_ok_frame)
    show "blk_ok h b sb" using inv b by (simp add: heap_inv_def)
    then show "page_run (blk_phys b) (blk_pages sb) \<inter> free_pages (kpmm ?h') = {}" by (simp add: blk_ok_def)
  qed (use agree [OF b] in simp_all)
  have self: "blk_ok ?h' a nsz" using ok nsz read by (simp add: blk_ok_def pages)
  show "heap_inv ?h' (B(a \<mapsto> nsz))"
    unfolding heap_inv_def
  proof (intro conjI allI impI)
    show "blk_ok ?h' b sb" if "(B(a \<mapsto> nsz)) b = Some sb" for b sb
      using that self others by (cases "b = a") simp_all
    show "page_run (blk_phys b) (blk_pages sb) \<inter> page_run (blk_phys c) (blk_pages sc) = {}"
      if bc: "(B(a \<mapsto> nsz)) b = Some sb" "(B(a \<mapsto> nsz)) c = Some sc" "b \<noteq> c" for b c sb sc
    proof -
      have old: "\<exists>s. B x = Some s \<and> blk_pages s = blk_pages sx" if "(B(a \<mapsto> nsz)) x = Some sx" for x sx
        using that live pages by (cases "x = a") auto
      from old [OF bc(1)] old [OF bc(2)] inv bc(3) show ?thesis unfolding heap_inv_def by metis
    qed
  qed (use inv in \<open>simp_all add: heap_inv_def\<close>)
qed

definition umin :: "u64 \<Rightarrow> u64 \<Rightarrow> u64" where "umin x y = (if x > y then y else x)"

lemma umin_le: "unat (umin x y) \<le> unat x" "unat (umin x y) \<le> unat y"
  by (auto simp: umin_def word_less_nat_alt)

lemma live_sizes:
  assumes "heap_inv h B" and "B a = Some osz"
  shows "meta_size (kmem h) (a - PAGE_SIZE) = osz" and "unat osz + 4095 < 2 ^ 64"
  using assms by (auto simp: heap_inv_def blk_ok_def)

lemma kmrealloc_move:
  assumes inv: "heap_inv h B" and live: "B a = Some osz" and nz: "a \<noteq> 0" and req: "request_ok h nsz"
    and np: "NUM_PAGES osz \<noteq> NUM_PAGES nsz" and alloc: "kmalloc h nsz = Returns (a', h1)"
  shows "\<exists>h'. kmrealloc h a nsz = Returns (a', h') \<and> heap_inv h' ((B(a := None))(a' \<mapsto> nsz)) \<and> B a' = None
    \<and> load (kmem h') a' (unat (umin osz nsz)) = load (kmem h) a (unat (umin osz nsz))
    \<and> (\<forall>b sb. B b = Some sb \<longrightarrow> b \<noteq> a \<longrightarrow> agree_on (blk_addrs b sb) (kmem h) (kmem h'))"
proof -
  let ?d = "a - PAGE_SIZE" let ?k = "umin osz nsz"
  note osz = live_sizes [OF inv live]
  have nsz: "unat nsz + 4095 < 2 ^ 64" using req by (simp add: request_ok_def)
  note k = umin_le [of osz nsz]
  from kmalloc_ok [OF inv req alloc] have inv1: "heap_inv h1 (B(a' \<mapsto> nsz))" and fresh: "B a' = None"
    and agree1: "\<And>b sb. B b = Some sb \<Longrightarrow> agree_on (blk_addrs b sb) (kmem h) (kmem h1)" by auto
  have ne: "a' \<noteq> a" using fresh live by auto
  have "meta_size (kmem h1) ?d = osz" using agree_meta(2) [OF agree1 [OF live]] osz(1) by simp
  then have len: "(if meta_size (kmem h1) ?d > nsz then nsz else meta_size (kmem h1) ?d) = ?k"
    by (simp add: umin_def)
  let ?m2 = "memcpy (kmem h1) a' a ?k"
  have new: "addrs a' (unat ?k) \<subseteq> blk_addrs a' nsz" by (rule data_in_blk [OF nsz k(2)])
  have live1: "(B(a' \<mapsto> nsz)) a' = Some nsz" "(B(a' \<mapsto> nsz)) a = Some osz" using live ne by simp_all
  have apart: "blk_addrs a' nsz \<inter> blk_addrs b sb = {}" if "B b = Some sb" for b sb
    using blks_disjoint [OF inv1 live1(1), of b sb] that fresh by (cases "b = a'") auto
  have agree2: "agree_on (blk_addrs b sb) (kmem h1) ?m2" if b: "B b = Some sb" for b sb
    using apart [OF b] new by (auto simp: agree_on_def intro!: memcpy_other)
  have "unat ?k + 4096 \<le> 2 ^ 64" using k(1) osz(2) by simp
  then have self: "agree_on (addrs (a' - PAGE_SIZE) 16) (kmem h1) ?m2"
    using meta_data_apart [of "unat ?k" a'] by (auto simp: agree_on_def intro!: memcpy_other)
  have inv2: "heap_inv (h1\<lparr>kmem := ?m2\<rparr>) (B(a' \<mapsto> nsz))"
  proof (rule heap_inv_mem [OF inv1])
    fix b sb assume b: "(B(a' \<mapsto> nsz)) b = Some sb"
    show "agree_on (addrs (b - PAGE_SIZE) 16) (kmem h1) ?m2"
    proof (cases "b = a'")
      case True
      with self show ?thesis by simp
    next
      case False
      then have "B b = Some sb" using b by simp
      from agree2 [OF this] meta_in_blk [of b sb] show ?thesis by (auto simp: agree_on_def)
    qed
  qed
  obtain h' where h': "kmfree (h1\<lparr>kmem := ?m2\<rparr>) a = Returns h'"
    "heap_inv h' ((B(a' \<mapsto> nsz))(a := None))" "kmem h' = ?m2"
    using kmfree_ok [OF inv2 live1(2)] by (auto simp del: fun_upd_apply)
  have ret: "kmrealloc h a nsz = Returns (a', h')"
    using nz osz(1) np by (simp add: kmrealloc_def Let_def alloc len h'(1))
  have "(B(a' \<mapsto> nsz))(a := None) = (B(a := None))(a' \<mapsto> nsz)" using ne by (auto simp: fun_upd_twist)
  moreover have data: "load ?m2 a' (unat ?k) = load (kmem h) a (unat ?k)"
  proof -
    have src: "addrs a (unat ?k) \<subseteq> blk_addrs a osz" by (rule data_in_blk [OF osz(2) k(1)])
    have "copy_safe a' a (unat ?k)"
      using src new apart [OF live] unat_u64 [of ?k] by (intro disjoint_copy_safe) auto
    then have "load ?m2 a' (unat ?k) = load (kmem h1) a (unat ?k)" by (rule memcpy_load)
    also have "\<dots> = load (kmem h) a (unat ?k)" by (rule agree_load [OF agree1 [OF live] src])
    finally show ?thesis .
  qed
  moreover have "agree_on (blk_addrs b sb) (kmem h) ?m2" if "B b = Some sb" for b sb
    using agree1 [OF that] agree2 [OF that] by (simp add: agree_on_def)
  ultimately show ?thesis using h' ret fresh by auto
qed

lemma kmrealloc_ok:
  assumes inv: "heap_inv h B" and live: "B a = Some osz" and nz: "a \<noteq> 0" and req: "request_ok h nsz"
    and ret: "kmrealloc h a nsz = Returns (a', h')"
  shows "heap_inv h' ((B(a := None))(a' \<mapsto> nsz)) \<and> (a' = a \<or> B a' = None)
    \<and> load (kmem h') a' (unat (umin osz nsz)) = load (kmem h) a (unat (umin osz nsz))
    \<and> (\<forall>b sb. B b = Some sb \<longrightarrow> b \<noteq> a \<longrightarrow> agree_on (blk_addrs b sb) (kmem h) (kmem h'))"
proof -
  let ?d = "a - PAGE_SIZE"
  note osz = live_sizes [OF inv live]
  have nsz: "unat nsz + 4095 < 2 ^ 64" using req by (simp add: request_ok_def)
  show ?thesis
  proof (cases "NUM_PAGES osz = NUM_PAGES nsz")
    case True
    let ?m' = "st64 (st64 (kmem h) (?d + 8) nsz) ?d (NUM_PAGES nsz)"
    from ret True nz osz have r: "a' = a" "h' = h\<lparr>kmem := ?m'\<rparr>" by (auto simp: kmrealloc_def Let_def)
    have "load ?m' a (unat (umin osz nsz)) = load (kmem h) a (unat (umin osz nsz))"
      using in_place_agree [OF osz(2) umin_le(1) [of osz nsz], of a "kmem h"] by (rule agree_load) simp
    with r realloc_in_place [OF inv live True nsz refl] show ?thesis by simp
  next
    case False
    from ret False nz osz(1) obtain h1 where "kmalloc h nsz = Returns (a', h1)"
      by (auto simp: kmrealloc_def Let_def obind_eq_Returns)
    from kmrealloc_move [OF inv live nz req False this] ret show ?thesis by (auto simp del: fun_upd_apply)
  qed
qed

section \<open>The heap interface\<close>

text \<open>
  What a client of the heap may rely on: an allocation adds a fresh block, a release removes one,
  and neither changes a byte of any other live block.
\<close>

locale block_heap =
  fixes alloc :: "'h \<Rightarrow> u64 \<Rightarrow> (u64 \<times> 'h) outcome"
    and release :: "'h \<Rightarrow> u64 \<Rightarrow> 'h outcome"
    and inv :: "'h \<Rightarrow> (u64 \<rightharpoonup> u64) \<Rightarrow> bool"
    and req :: "'h \<Rightarrow> u64 \<Rightarrow> bool"
    and bytes :: "'h \<Rightarrow> u64 \<Rightarrow> nat \<Rightarrow> u8 list"
  assumes alloc_law:
    "inv h B \<Longrightarrow> req h sz \<Longrightarrow> alloc h sz = Returns (a, h') \<Longrightarrow>
       inv h' (B(a \<mapsto> sz)) \<and> B a = None
       \<and> (\<forall>b sb n. B b = Some sb \<longrightarrow> n \<le> unat sb \<longrightarrow> bytes h' b n = bytes h b n)"
    and release_law:
    "inv h B \<Longrightarrow> B a = Some sz \<Longrightarrow>
       \<exists>h'. release h a = Returns h' \<and> inv h' (B(a := None))
         \<and> (\<forall>b sb n. B b = Some sb \<longrightarrow> n \<le> unat sb \<longrightarrow> bytes h' b n = bytes h b n)"
begin

lemma alloc_release:
  assumes "inv h B" and "req h sz" and "alloc h sz = Returns (a, h1)"
  shows "\<exists>h2. release h1 a = Returns h2 \<and> inv h2 B
     \<and> (\<forall>b sb n. B b = Some sb \<longrightarrow> n \<le> unat sb \<longrightarrow> bytes h2 b n = bytes h b n)"
proof -
  from alloc_law [OF assms] have a: "inv h1 (B(a \<mapsto> sz))" "B a = None"
    "\<And>b sb n. B b = Some sb \<Longrightarrow> n \<le> unat sb \<Longrightarrow> bytes h1 b n = bytes h b n" by auto
  from release_law [OF a(1), of a sz] obtain h2 where h2: "release h1 a = Returns h2"
    "inv h2 ((B(a \<mapsto> sz))(a := None))"
    "\<And>b sb n. (B(a \<mapsto> sz)) b = Some sb \<Longrightarrow> n \<le> unat sb \<Longrightarrow> bytes h2 b n = bytes h1 b n" by auto
  have "(B(a \<mapsto> sz))(a := None) = B" using a(2) by auto
  moreover have "bytes h2 b n = bytes h b n" if "B b = Some sb" "n \<le> unat sb" for b sb n
    using h2(3) [of b sb n] a(2,3) that by (cases "b = a") auto
  ultimately show ?thesis using h2(1,2) by auto
qed

lemma two_allocs_distinct:
  assumes "inv h B" and "req h s1" and "alloc h s1 = Returns (a1, h1)"
    and "req h1 s2" and "alloc h1 s2 = Returns (a2, h2)"
  shows "a1 \<noteq> a2 \<and> inv h2 (B(a1 \<mapsto> s1, a2 \<mapsto> s2))"
  using alloc_law [OF assms(1-3)] alloc_law [OF _ assms(4,5), of "B(a1 \<mapsto> s1)"] by auto

end

definition kbytes :: "heap \<Rightarrow> u64 \<Rightarrow> nat \<Rightarrow> u8 list" where
  "kbytes h a n = load (kmem h) a n"

interpretation kheap: block_heap kmalloc kmfree heap_inv request_ok kbytes
proof unfold_locales
  fix h B sz a h'
  assume a: "heap_inv h B" "request_ok h sz" "kmalloc h sz = Returns (a, h')"
  note k = kmalloc_ok [OF a]
  have "kbytes h' b n = kbytes h b n" if b: "B b = Some sb" "n \<le> unat sb" for b sb n
  proof -
    have "unat sb + 4095 < 2 ^ 64" using a(1) b(1) by (auto simp: heap_inv_def blk_ok_def)
    note sub = data_in_blk [OF this b(2), of b]
    have "agree_on (blk_addrs b sb) (kmem h) (kmem h')" using k b(1) by blast
    from agree_load [OF this sub] show ?thesis by (simp add: kbytes_def)
  qed
  with k show "heap_inv h' (B(a \<mapsto> sz)) \<and> B a = None
       \<and> (\<forall>b sb n. B b = Some sb \<longrightarrow> n \<le> unat sb \<longrightarrow> kbytes h' b n = kbytes h b n)" by blast
next
  fix h B a sz assume "heap_inv h B" "B a = Some sz"
  from kmfree_ok [OF this] show "\<exists>h'. kmfree h a = Returns h' \<and> heap_inv h' (B(a := None))
       \<and> (\<forall>b sb n. B b = Some sb \<longrightarrow> n \<le> unat sb \<longrightarrow> kbytes h' b n = kbytes h b n)"
    by (auto simp: kbytes_def)
qed

section \<open>Properties\<close>

definition demo_heap :: heap where
  "demo_heap = \<lparr>kpmm = demo_mem, kmem = (\<lambda>_. 0)\<rparr>"

lemma demo_heap_inv: "heap_inv demo_heap Map.empty"
  using demo_mem_facts by (simp add: heap_inv_def demo_heap_def) (simp add: demo_mem_def)

definition demo_heap1 :: heap where
  "demo_heap1 = \<lparr>kpmm = demo_after, kmem = set_meta (\<lambda>_. 0) 0xffff800000004000 2 5000\<rparr>"

lemma demo_kmalloc: "kmalloc demo_heap 5000 = Returns (0xffff800000005000, demo_heap1)"
proof -
  have "pmm_get demo_mem 3 0 = Returns (0x4000, demo_after)"
    by (simp add: pmm_run cong: obind_weak_cong)
  then show ?thesis
    by (simp add: kmalloc_def demo_heap_def demo_heap1_def NUM_PAGES_def PAGE_SIZE_def PHYS_TO_VIRT_def
        MEM_VIRT_OFFSET_def)
qed

lemma demo_request: "request_ok demo_heap 5000"
  by (simp add: request_ok_def fits_def demo_heap_def demo_mem_def NUM_PAGES_def PAGE_SIZE_def)

text \<open>
  C2: a block handed out by \<open>kmalloc\<close> is fresh, shares no address (its metadata page included)
  with any live block, its pages were free, the heap invariant holds with the block added, and no
  byte of a live block changes.
\<close>

theorem kmalloc_isolated:
  assumes "heap_inv h B" and "request_ok h sz" and "kmalloc h sz = Returns (a, h')"
  shows "heap_inv h' (B(a \<mapsto> sz)) \<and> B a = None
    \<and> (\<forall>b sb. B b = Some sb \<longrightarrow> blk_addrs a sz \<inter> blk_addrs b sb = {}
          \<and> agree_on (blk_addrs b sb) (kmem h) (kmem h'))
    \<and> page_run (blk_phys a) (blk_pages sz) \<subseteq> free_pages (kpmm h)"
proof -
  note k = kmalloc_ok [OF assms]
  have "blk_addrs a sz \<inter> blk_addrs b sb = {}" if "B b = Some sb" for b sb
    using k that blks_disjoint [of h' "B(a \<mapsto> sz)" a sz b sb] by (cases "a = b") auto
  with k show ?thesis by blast
qed

lemma kmalloc_isolated_witness:
  "heap_inv demo_heap1 (Map.empty(0xffff800000005000 \<mapsto> 5000))
    \<and> page_run (blk_phys 0xffff800000005000) (blk_pages 5000) \<subseteq> free_pages (kpmm demo_heap)"
  using kmalloc_isolated [OF demo_heap_inv demo_request demo_kmalloc] by blast

text \<open>
  C19: \<open>kmfree\<close> of a block just allocated succeeds and brings the heap invariant back for the old
  set of blocks, with every byte of the old blocks as it was before the allocation.
\<close>

theorem kmalloc_kmfree_roundtrip:
  assumes "heap_inv h B" and "request_ok h sz" and "kmalloc h sz = Returns (a, h1)"
  shows "\<exists>h2. kmfree h1 a = Returns h2 \<and> heap_inv h2 B \<and> free_pages (kpmm h2) = free_pages (kpmm h)
    \<and> (\<forall>b sb n. B b = Some sb \<longrightarrow> n \<le> unat sb \<longrightarrow> kbytes h2 b n = kbytes h b n)"
proof -
  note k = kmalloc_ok [OF assms]
  from kheap.alloc_release [OF assms] obtain h2 where h2: "kmfree h1 a = Returns h2" "heap_inv h2 B"
    "\<forall>b sb n. B b = Some sb \<longrightarrow> n \<le> unat sb \<longrightarrow> kbytes h2 b n = kbytes h b n" by blast
  have "free_pages (kpmm h2) = free_pages (kpmm h1) \<union> page_run (blk_phys a) (blk_pages sz)"
    using kmfree_ok [of h1 "B(a \<mapsto> sz)" a sz] k h2(1) by auto
  with k h2 show ?thesis by auto
qed

lemma kmalloc_kmfree_roundtrip_witness:
  "\<exists>h2. kmfree demo_heap1 0xffff800000005000 = Returns h2 \<and> heap_inv h2 Map.empty
    \<and> free_pages (kpmm h2) = free_pages (kpmm demo_heap)"
  using kmalloc_kmfree_roundtrip [OF demo_heap_inv demo_request demo_kmalloc] by blast

text \<open>
  C20: \<open>kmrealloc\<close> keeps the first \<open>min old new\<close> bytes of the block, whether it resizes in place
  or moves the block, replaces the block in the set of live blocks, and changes no byte of any
  other live block.
\<close>

theorem kmrealloc_preserves:
  assumes "heap_inv h B" and "B a = Some osz" and "a \<noteq> 0" and "request_ok h nsz"
    and "kmrealloc h a nsz = Returns (a', h')"
  shows "heap_inv h' ((B(a := None))(a' \<mapsto> nsz)) \<and> (a' = a \<or> B a' = None)
    \<and> load (kmem h') a' (unat (umin osz nsz)) = load (kmem h) a (unat (umin osz nsz))
    \<and> (\<forall>b sb. B b = Some sb \<longrightarrow> b \<noteq> a \<longrightarrow> agree_on (blk_addrs b sb) (kmem h) (kmem h'))"
  by (rule kmrealloc_ok [OF assms])

lemma demo_heap1_inv: "heap_inv demo_heap1 (Map.empty(0xffff800000005000 \<mapsto> 5000))"
  using kmalloc_ok [OF demo_heap_inv demo_request demo_kmalloc] by blast

lemma demo_kmrealloc:
  "\<exists>h'. kmrealloc demo_heap1 0xffff800000005000 100 = Returns (0xffff800000008000, h')"
proof -
  have req: "request_ok demo_heap1 100"
    by (simp add: request_ok_def fits_def demo_heap1_def demo_after_def demo_mem_def NUM_PAGES_def PAGE_SIZE_def)
  obtain h1 where k: "kmalloc demo_heap1 100 = Returns (0xffff800000008000, h1)"
    using demo_get2
    by (simp add: kmalloc_def demo_heap1_def NUM_PAGES_def PAGE_SIZE_def PHYS_TO_VIRT_def MEM_VIRT_OFFSET_def)
  have "NUM_PAGES 5000 \<noteq> NUM_PAGES 100" by (simp add: NUM_PAGES_def PAGE_SIZE_def)
  from kmrealloc_move [OF demo_heap1_inv, of "0xffff800000005000", OF _ _ req this k] show ?thesis by fastforce
qed

lemma kmrealloc_preserves_witness:
  "\<exists>h'. kmrealloc demo_heap1 0xffff800000005000 100 = Returns (0xffff800000008000, h')
    \<and> heap_inv h' (((Map.empty(0xffff800000005000 \<mapsto> 5000))(0xffff800000005000 := None))(0xffff800000008000 \<mapsto> 100))
    \<and> load (kmem h') 0xffff800000008000 (unat (umin 5000 100))
        = load (kmem demo_heap1) 0xffff800000005000 (unat (umin 5000 100))"
proof -
  have req: "request_ok demo_heap1 100"
    by (simp add: request_ok_def fits_def demo_heap1_def demo_after_def demo_mem_def NUM_PAGES_def PAGE_SIZE_def)
  obtain h' where r: "kmrealloc demo_heap1 0xffff800000005000 100 = Returns (0xffff800000008000, h')"
    using demo_kmrealloc by blast
  from kmrealloc_preserves [OF demo_heap1_inv _ _ req r, of 5000] r show ?thesis by auto
qed

text \<open>
  a request within 4095 bytes of \<open>2 ^ 64\<close> wraps in \<open>NUM_PAGES\<close>: \<open>kmalloc\<close> answers it with
  a block that owns its metadata page only, no data page at all, and records the full size.
\<close>

theorem kmalloc_wraps:
  assumes "pmm_inv (kpmm h)" and "fits (kpmm h) 1" and "2 ^ 64 - 4095 \<le> unat sz"
    and "kmalloc h sz = Returns (a, h')"
  shows "free_pages (kpmm h') = free_pages (kpmm h) - {page_of (blk_phys a)}
    \<and> page_of (VIRT_TO_PHYS a) \<notin> {page_of (blk_phys a)}
    \<and> meta_numpages (kmem h') (a - PAGE_SIZE) = 0 \<and> meta_size (kmem h') (a - PAGE_SIZE) = sz"
proof -
  have np: "NUM_PAGES sz = 0"
  proof -
    have "unat (sz + of_nat 4095) = (unat sz + 4095) mod 2 ^ 64"
      by (simp add: unat_word_ariths)
    also have "\<dots> < 4095"
      using assms(3) unat_u64 [of sz] by (subst mod_if) simp
    finally have "unat (sz + PAGE_SIZE - 1) < 4095" by (simp add: PAGE_SIZE_def add.commute)
    then have "unat (NUM_PAGES sz) = 0" by (simp add: NUM_PAGES_def unat_div PAGE_SIZE_def)
    then show ?thesis by (simp add: unat_eq_0)
  qed
  from assms(4) obtain pa p' where get: "pmm_get (kpmm h) 1 0 = Returns (pa, p')"
    and a: "a = PHYS_TO_VIRT pa + PAGE_SIZE"
    and h': "h' = \<lparr>kpmm = p', kmem = set_meta (kmem h) (PHYS_TO_VIRT pa) 0 sz\<rparr>"
    by (auto simp: kmalloc_def obind_eq_Returns Let_def np)
  have pa: "blk_phys a = pa" "a - PAGE_SIZE = PHYS_TO_VIRT pa" "VIRT_TO_PHYS a = pa + PAGE_SIZE"
    by (simp_all add: a blk_phys_def VIRT_TO_PHYS_def PHYS_TO_VIRT_def)
  from pmm.get_law [OF assms(1,2) _ get] have law: "free_pages p' = free_pages (kpmm h) - {page_of pa}"
    "no_wrap pa (Suc 0)" by (simp_all add: page_run_1 [unfolded One_nat_def])
  from page_of_next [OF law(2)] law show ?thesis
    by (simp only: pa h') (simp add: PAGE_SIZE_def)
qed

lemma kmalloc_wraps_witness:
  "\<exists>h'. kmalloc demo_heap 0xFFFFFFFFFFFFFFFF = Returns (0xffff800000005000, h')
    \<and> meta_numpages (kmem h') (0xffff800000005000 - PAGE_SIZE) = 0"
proof -
  have g: "pmm_get demo_mem 1 0 = Returns (0x4000, demo_mem\<lparr>free_size := 24576, bitmap := [0xE0, 0x13]\<rparr>)"
    by (simp add: pmm_run cong: obind_weak_cong)
  then obtain h' where r: "kmalloc demo_heap 0xFFFFFFFFFFFFFFFF = Returns (0xffff800000005000, h')"
    by (simp add: kmalloc_def demo_heap_def NUM_PAGES_def PAGE_SIZE_def PHYS_TO_VIRT_def MEM_VIRT_OFFSET_def)
  have "fits (kpmm demo_heap) 1" by (simp add: fits_def demo_heap_def demo_mem_def)
  from kmalloc_wraps [OF _ this _ r] demo_heap_inv r show ?thesis by (auto simp: heap_inv_def)
qed

end
