(* ===== verification/Vmm.thy ===== *)
theory Vmm
  imports Kmalloc
begin

text \<open>
  The virtual memory manager, \<open>core/mm.c\<close> from line 172: four-level page tables in memory,
  walked and grown by \<open>map_page\<close>, pruned by \<open>unmap_page\<close>. Entries are 8-byte loads and stores
  in the memory of the heap; tables come from \<open>pmm_get\<close>. \<open>cr3\<close> is the register the code
  reads, \<open>tlb\<close> the list of addresses given to \<open>invlpg\<close>, latest first.
\<close>

record vm =
  vheap :: heap
  vPML4 :: u64
  cr3 :: u64
  tlb :: "u64 list"

section \<open>The operations\<close>

definition VMM_FLAG_PRESENT :: u64 where "VMM_FLAG_PRESENT = 1"
definition VMM_FLAGS_DEFAULT :: u64 where "VMM_FLAGS_DEFAULT = 3"
definition VMM_FLAGS_USERMODE :: u64 where "VMM_FLAGS_USERMODE = 7"
definition VMM_FLAGS_MMIO :: u64 where "VMM_FLAGS_MMIO = 19"
definition MM_SIZE :: u64 where "MM_SIZE = 256 * 1024 * 1024"

definition MAKE_TABLE_ENTRY :: "u64 \<Rightarrow> u64 \<Rightarrow> u64" where
  "MAKE_TABLE_ENTRY address flags = (address AND NOT 0xfff) OR flags"

text \<open>\<open>(vaddr >> sh) & 0x1ff\<close>, kept in a \<open>uint16_t\<close>, used as an array index.\<close>

definition vidx :: "nat \<Rightarrow> u64 \<Rightarrow> nat" where
  "vidx sh vaddr = unat (ucast (drop_bit sh vaddr AND 0x1ff) :: u16)"

definition ent :: "memory \<Rightarrow> u64 \<Rightarrow> nat \<Rightarrow> u64" where
  "ent m t i = ld64 m (t + of_nat (8 * i))"

definition set_ent :: "memory \<Rightarrow> u64 \<Rightarrow> nat \<Rightarrow> u64 \<Rightarrow> memory" where
  "set_ent m t i e = st64 m (t + of_nat (8 * i)) e"

definition table_of :: "u64 \<Rightarrow> u64" where
  "table_of e = PHYS_TO_VIRT (e AND NOT 0xfff)"

text \<open>One level of \<open>map_page\<close>: the table an entry points to, made when the entry is not present.\<close>

definition next_table :: "heap \<Rightarrow> u64 \<Rightarrow> nat \<Rightarrow> (u64 \<times> heap) outcome" where
  "next_table h tbl i =
     (if ent (kmem h) tbl i AND VMM_FLAG_PRESENT = 0
      then obind (pmm_get (kpmm h) 1 0) (\<lambda>(pa, p').
             let t = PHYS_TO_VIRT pa;
                 m1 = memset (kmem h) t 0 PAGE_SIZE;
                 m2 = set_ent m1 tbl i (MAKE_TABLE_ENTRY (VIRT_TO_PHYS t) VMM_FLAGS_USERMODE)
             in Returns (t, \<lparr>kpmm = p', kmem = m2\<rparr>))
      else Returns (table_of (ent (kmem h) tbl i), h))"

definition flush :: "vm \<Rightarrow> u64 \<Rightarrow> vm" where
  "flush v vaddr = (if cr3 v = VIRT_TO_PHYS (vPML4 v) then v\<lparr>tlb := vaddr # tlb v\<rparr> else v)"

definition map_page :: "vm \<Rightarrow> u64 \<Rightarrow> u64 \<Rightarrow> u64 \<Rightarrow> vm outcome" where
  "map_page v vaddr paddr flags =
     obind (next_table (vheap v) (vPML4 v) (vidx 39 vaddr)) (\<lambda>(pdpt, h1).
     obind (next_table h1 pdpt (vidx 30 vaddr)) (\<lambda>(pd, h2).
     obind (next_table h2 pd (vidx 21 vaddr)) (\<lambda>(pt, h3).
       let e = MAKE_TABLE_ENTRY (paddr AND NOT 0xfff) flags;
           h4 = h3\<lparr>kmem := set_ent (kmem h3) pt (vidx 12 vaddr) e\<rparr>
       in Returns (flush (v\<lparr>vheap := h4\<rparr>) vaddr))))"

text \<open>\<open>unmap_page\<close> masks the entries with \<open>~0x1ff\<close> where \<open>map_page\<close> masks with \<open>~0xfff\<close>.\<close>

definition table_of_unmap :: "u64 \<Rightarrow> u64" where
  "table_of_unmap e = PHYS_TO_VIRT (e AND NOT 0x1ff)"

definition table_empty :: "memory \<Rightarrow> u64 \<Rightarrow> bool" where
  "table_empty m t \<longleftrightarrow> list_all (\<lambda>i. ent m t i = 0) [0..<512]"

text \<open>One level of the pruning: clear the parent's entry and give the table's page back.\<close>

definition drop_table :: "heap \<Rightarrow> u64 \<Rightarrow> nat \<Rightarrow> u64 \<Rightarrow> heap outcome" where
  "drop_table h parent i t =
     (let m = set_ent (kmem h) parent i 0
      in obind (pmm_free (kpmm h) (VIRT_TO_PHYS t) 1) (\<lambda>p'. Returns \<lparr>kpmm = p', kmem = m\<rparr>))"

definition unmap_prune :: "heap \<Rightarrow> u64 \<Rightarrow> u64 \<Rightarrow> u64 \<Rightarrow> u64 \<Rightarrow> u64 \<Rightarrow> heap outcome" where
  "unmap_prune h pml4 pdpt pd pt vaddr =
     (if \<not> table_empty (kmem h) pt then Returns h
      else obind (drop_table h pd (vidx 21 vaddr) pt) (\<lambda>h1.
        if \<not> table_empty (kmem h1) pd then Returns h1
        else obind (drop_table h1 pdpt (vidx 30 vaddr) pd) (\<lambda>h2.
          if \<not> table_empty (kmem h2) pdpt then Returns h2
          else drop_table h2 pml4 (vidx 39 vaddr) pdpt)))"

definition unmap_page :: "vm \<Rightarrow> u64 \<Rightarrow> vm outcome" where
  "unmap_page v vaddr =
     (let m = kmem (vheap v); pml4 = vPML4 v; e4 = ent m pml4 (vidx 39 vaddr)
      in if e4 AND VMM_FLAG_PRESENT = 0 then Returns v
      else let pdpt = table_of_unmap e4; e3 = ent m pdpt (vidx 30 vaddr)
      in if e3 AND VMM_FLAG_PRESENT = 0 then Returns v
      else let pd = table_of_unmap e3; e2 = ent m pd (vidx 21 vaddr)
      in if e2 AND VMM_FLAG_PRESENT = 0 then Returns v
      else let pt = table_of_unmap e2; e1 = ent m pt (vidx 12 vaddr)
      in if e1 AND VMM_FLAG_PRESENT = 0 then Returns v
      else let h1 = (vheap v)\<lparr>kmem := set_ent m pt (vidx 12 vaddr) 0\<rparr>;
               v1 = flush (v\<lparr>vheap := h1\<rparr>) vaddr
      in obind (unmap_prune h1 pml4 pdpt pd pt vaddr) (\<lambda>h2. Returns (v1\<lparr>vheap := h2\<rparr>)))"

definition vmm_map_body :: "u64 \<Rightarrow> u64 \<Rightarrow> u64 \<Rightarrow> u64 \<Rightarrow> vm \<Rightarrow> (vm + unit) outcome" where
  "vmm_map_body vaddr paddr flags i v = omap Inl (map_page v (vaddr + i) (paddr + i) flags)"

definition vmm_map :: "vm \<Rightarrow> u64 \<Rightarrow> u64 \<Rightarrow> u64 \<Rightarrow> u64 \<Rightarrow> vm outcome" where
  "vmm_map v vaddr paddr np flags =
     obind (for_u64 0 (np * PAGE_SIZE) PAGE_SIZE (vmm_map_body vaddr paddr flags) v)
       (\<lambda>c. case c of Inl v' \<Rightarrow> Returns v' | Inr _ \<Rightarrow> Returns v)"

definition vmm_unmap_body :: "u64 \<Rightarrow> u64 \<Rightarrow> vm \<Rightarrow> (vm + unit) outcome" where
  "vmm_unmap_body vaddr i v = omap Inl (unmap_page v (vaddr + i))"

definition vmm_unmap :: "vm \<Rightarrow> u64 \<Rightarrow> u64 \<Rightarrow> vm outcome" where
  "vmm_unmap v vaddr np =
     obind (for_u64 0 (np * PAGE_SIZE) PAGE_SIZE (vmm_unmap_body vaddr) v)
       (\<lambda>c. case c of Inl v' \<Rightarrow> Returns v' | Inr _ \<Rightarrow> Returns v)"

text \<open>Start-up: the two windows on low memory, then the entries of the memory map.\<close>

definition init_entry :: "u64 \<Rightarrow> u64 \<Rightarrow> memmap_entry \<Rightarrow> vm \<Rightarrow> vm outcome" where
  "init_entry virtual_base physical_base e v =
     (if etype e = MEMMAP_KERNEL_AND_MODULES
      then vmm_map v (virtual_base + base e - physical_base) (base e) (NUM_PAGES (elength e)) VMM_FLAGS_DEFAULT
      else if etype e = MEMMAP_FRAMEBUFFER
      then vmm_map v (PHYS_TO_VIRT (base e)) (base e) (NUM_PAGES (elength e)) VMM_FLAGS_DEFAULT
      else if etype e \<noteq> MEMMAP_USABLE \<and> (base e \<ge> MM_SIZE \<or> base e + elength e > MM_SIZE)
      then vmm_map v (PHYS_TO_VIRT (base e)) (base e) (NUM_PAGES (elength e)) VMM_FLAGS_DEFAULT
      else Returns v)"

fun init_entries :: "u64 \<Rightarrow> u64 \<Rightarrow> memmap_entry list \<Rightarrow> vm \<Rightarrow> vm outcome" where
  "init_entries vb pb [] v = Returns v"
| "init_entries vb pb (e # es) v = obind (init_entry vb pb e v) (init_entries vb pb es)"

definition vmm_init :: "memmap_entry list \<Rightarrow> u64 \<Rightarrow> u64 \<Rightarrow> heap \<Rightarrow> u64 \<Rightarrow> vm outcome" where
  "vmm_init mmap virtual_base physical_base h boot_cr3 =
     obind (kmalloc h PAGE_SIZE) (\<lambda>(pml4, h1).
       let h2 = h1\<lparr>kmem := memset (kmem h1) pml4 0 PAGE_SIZE\<rparr>;
           v = \<lparr>vheap = h2, vPML4 = pml4, cr3 = boot_cr3, tlb = []\<rparr>;
           np = (\<lambda>v. NUM_PAGES (min (phys_limit (kpmm (vheap v))) MM_SIZE))
       in obind (vmm_map v 0xffffffff80000000 0 (np v) VMM_FLAGS_USERMODE) (\<lambda>v1.
          obind (vmm_map v1 0xffff800000000000 0 (np v1) VMM_FLAGS_DEFAULT) (\<lambda>v2.
          obind (init_entries virtual_base physical_base mmap v2) (\<lambda>v3.
          Returns (v3\<lparr>cr3 := VIRT_TO_PHYS pml4\<rparr>)))))"

section \<open>Trees of tables\<close>

text \<open>
  The tables as a function from table and index to entry. A path is a list of indices, at most
  three to a table; \<open>leaf\<close> is the last-level entry of a full path.
\<close>

definition present :: "u64 \<Rightarrow> bool" where "present e \<longleftrightarrow> bit e 0"

fun table_at :: "(u64 \<Rightarrow> nat \<Rightarrow> u64) \<Rightarrow> u64 \<Rightarrow> nat list \<Rightarrow> u64 option" where
  "table_at E r [] = Some r"
| "table_at E r (i # is) = (if present (E r i) then table_at E (table_of (E r i)) is else None)"

definition valid_path :: "nat list \<Rightarrow> bool" where
  "valid_path p \<longleftrightarrow> length p \<le> 3 \<and> list_all (\<lambda>i. i < 512) p"

text \<open>
  A tree is well formed when no two paths lead to the same table, every table satisfies \<open>ok\<close>,
  and a present entry above the last level carries no bits 9 to 11, so that both masks the code
  uses read the same address.
\<close>

definition tree_wf :: "(u64 \<Rightarrow> nat \<Rightarrow> u64) \<Rightarrow> u64 \<Rightarrow> (u64 \<Rightarrow> bool) \<Rightarrow> bool" where
  "tree_wf E r ok \<longleftrightarrow>
     (\<forall>p q t. valid_path p \<longrightarrow> valid_path q \<longrightarrow> table_at E r p = Some t \<longrightarrow> table_at E r q = Some t \<longrightarrow> p = q)
   \<and> (\<forall>p t. valid_path p \<longrightarrow> table_at E r p = Some t \<longrightarrow> ok t)
   \<and> (\<forall>p t i. valid_path (p @ [i]) \<longrightarrow> table_at E r p = Some t \<longrightarrow> present (E t i) \<longrightarrow>
        table_of_unmap (E t i) = table_of (E t i))"

lemma tree_wf_inj:
  "tree_wf E r ok \<Longrightarrow> valid_path p \<Longrightarrow> valid_path q \<Longrightarrow> table_at E r p = Some t \<Longrightarrow> table_at E r q = Some t \<Longrightarrow> p = q"
  unfolding tree_wf_def by blast

lemma tree_wf_ok: "tree_wf E r ok \<Longrightarrow> valid_path p \<Longrightarrow> table_at E r p = Some t \<Longrightarrow> ok t"
  unfolding tree_wf_def by blast

lemma tree_wf_mask:
  "tree_wf E r ok \<Longrightarrow> valid_path (p @ [i]) \<Longrightarrow> table_at E r p = Some t \<Longrightarrow> present (E t i) \<Longrightarrow>
   table_of_unmap (E t i) = table_of (E t i)"
  unfolding tree_wf_def by blast

lemma table_at_snoc:
  "table_at E r (p @ [i]) = (case table_at E r p of None \<Rightarrow> None
     | Some t \<Rightarrow> if present (E t i) then Some (table_of (E t i)) else None)"
  by (induction p arbitrary: r) auto

lemma valid_path_snoc: "valid_path (p @ [i]) \<Longrightarrow> valid_path p"
  by (simp add: valid_path_def)

lemma valid_path_Nil [simp]: "valid_path []"
  by (simp add: valid_path_def)

text \<open>Growing: an absent entry of table \<open>t\<close> at path \<open>p\<close> gets a fresh empty table \<open>n\<close>.\<close>

definition grow :: "(u64 \<Rightarrow> nat \<Rightarrow> u64) \<Rightarrow> u64 \<Rightarrow> nat \<Rightarrow> u64 \<Rightarrow> u64 \<Rightarrow> (u64 \<Rightarrow> nat \<Rightarrow> u64)" where
  "grow E t i n e = (\<lambda>u j. if u = t \<and> j = i then e else if u = n then 0 else E u j)"

lemma grow_paths:
  assumes wf: "tree_wf E r ok" and t: "table_at E r p = Some t" and pi: "valid_path (p @ [i])"
    and absent: "\<not> present (E t i)" and fresh: "\<forall>q. valid_path q \<longrightarrow> table_at E r q \<noteq> Some n"
    and e: "present e" "table_of e = n"
  shows "valid_path q \<Longrightarrow> table_at (grow E t i n e) r q = (if q = p @ [i] then Some n else table_at E r q)"
proof (induction q rule: rev_induct)
  case Nil
  then show ?case by simp
next
  case (snoc j q)
  let ?E = "grow E t i n e"
  have vp: "valid_path p" using pi by (rule valid_path_snoc)
  have vq: "valid_path q" using snoc.prems by (rule valid_path_snoc)
  have nt: "n \<noteq> t" using fresh vp t by auto
  show ?case
  proof (cases "q = p @ [i]")
    case True
    then have at: "table_at ?E r q = Some n" using snoc.IH [OF vq] by simp
    have "?E n j = 0" using nt by (simp add: grow_def)
    then have "table_at ?E r (q @ [j]) = None" by (simp add: table_at_snoc [of _ _ q] at present_def)
    moreover have "table_at E r q = None" using t absent by (simp add: True table_at_snoc)
    then have "table_at E r (q @ [j]) = None" by (simp add: table_at_snoc [of _ _ q])
    moreover have "q @ [j] \<noteq> p @ [i]" using True by simp
    ultimately show ?thesis by simp
  next
    case False
    then have IH: "table_at ?E r q = table_at E r q" using snoc.IH [OF vq] by simp
    show ?thesis
    proof (cases "table_at E r q")
      case None
      then have "q @ [j] \<noteq> p @ [i]" using t by auto
      with None IH show ?thesis by (simp add: table_at_snoc)
    next
      case (Some u)
      then have un: "u \<noteq> n" using fresh vq by auto
      have ut: "u = t \<longleftrightarrow> q = p" using tree_wf_inj [OF wf vq vp] Some t by auto
      show ?thesis
      proof (cases "u = t \<and> j = i")
        case True
        with ut IH Some e show ?thesis by (simp add: table_at_snoc grow_def)
      next
        case False
        then have "?E u j = E u j" "q @ [j] \<noteq> p @ [i]" using un ut by (auto simp: grow_def)
        with IH Some show ?thesis by (auto simp: table_at_snoc)
      qed
    qed
  qed
qed

lemma grow_wf:
  assumes wf: "tree_wf E r ok" and t: "table_at E r p = Some t" and pi: "valid_path (p @ [i])"
    and absent: "\<not> present (E t i)" and fresh: "\<forall>q. valid_path q \<longrightarrow> table_at E r q \<noteq> Some n"
    and e: "present e" "table_of e = n" "table_of_unmap e = table_of e"
    and ok: "\<And>u. ok u \<Longrightarrow> u \<noteq> n \<Longrightarrow> ok' u" "ok' n"
  shows "tree_wf (grow E t i n e) r ok'"
proof -
  let ?E = "grow E t i n e"
  note gp = grow_paths [OF wf t pi absent fresh e(1,2)]
  have vp: "valid_path p" using pi by (rule valid_path_snoc)
  have nt: "n \<noteq> t" using fresh vp t by auto
  show ?thesis
    unfolding tree_wf_def
  proof (intro conjI allI impI)
    fix q q' u assume q: "valid_path q" "valid_path q'" "table_at ?E r q = Some u" "table_at ?E r q' = Some u"
    then show "q = q'"
      using gp [OF q(1)] gp [OF q(2)] fresh tree_wf_inj [OF wf q(1,2)] by (auto split: if_splits)
  next
    fix q u assume q: "valid_path q" "table_at ?E r q = Some u"
    then show "ok' u"
      using gp [OF q(1)] ok tree_wf_ok [OF wf q(1)] fresh q(1) by (auto split: if_splits)
  next
    fix q u j assume q: "valid_path (q @ [j])" "table_at ?E r q = Some u" "present (?E u j)"
    have vq: "valid_path q" using q(1) by (rule valid_path_snoc)
    show "table_of_unmap (?E u j) = table_of (?E u j)"
    proof (cases "u = t \<and> j = i")
      case True
      with e show ?thesis by (simp add: grow_def)
    next
      case False
      then have un: "u \<noteq> n" "?E u j = E u j" using q(3) by (auto simp: grow_def present_def split: if_splits)
      then have "table_at E r q = Some u" using gp [OF vq] q(2) by (auto split: if_splits)
      with tree_wf_mask [OF wf q(1)] q(3) un show ?thesis by simp
    qed
  qed
qed

text \<open>Writing an entry of a last-level table changes no path.\<close>

definition put :: "(u64 \<Rightarrow> nat \<Rightarrow> u64) \<Rightarrow> u64 \<Rightarrow> nat \<Rightarrow> u64 \<Rightarrow> (u64 \<Rightarrow> nat \<Rightarrow> u64)" where
  "put E t i e = (\<lambda>u j. if u = t \<and> j = i then e else E u j)"

lemma put_leaf_paths:
  assumes wf: "tree_wf E r ok" and t: "table_at E r p = Some t" and p: "valid_path p" "length p = 3"
  shows "valid_path q \<Longrightarrow> table_at (put E t i e) r q = table_at E r q"
proof (induction q rule: rev_induct)
  case Nil
  then show ?case by simp
next
  case (snoc j q)
  have vq: "valid_path q" using snoc.prems by (rule valid_path_snoc)
  have "u \<noteq> t" if "table_at E r q = Some u" for u
    using tree_wf_inj [OF wf vq p(1) that] t p(2) snoc.prems by (auto simp: valid_path_def)
  then show ?case using snoc.IH [OF vq] by (auto simp: table_at_snoc put_def split: option.splits)
qed

lemma put_leaf_wf:
  assumes wf: "tree_wf E r ok" and t: "table_at E r p = Some t" and p: "valid_path p" "length p = 3"
  shows "tree_wf (put E t i e) r ok"
proof -
  note pp = put_leaf_paths [OF assms]
  show ?thesis
    unfolding tree_wf_def
  proof (intro conjI allI impI)
    fix q q' u assume "valid_path q" "valid_path q'" "table_at (put E t i e) r q = Some u" "table_at (put E t i e) r q' = Some u"
    then show "q = q'" using tree_wf_inj [OF wf] pp by simp
  next
    fix q u assume "valid_path q" "table_at (put E t i e) r q = Some u"
    then show "ok u" using tree_wf_ok [OF wf] pp by simp
  next
    fix q u j assume q: "valid_path (q @ [j])" "table_at (put E t i e) r q = Some u" "present (put E t i e u j)"
    have vq: "valid_path q" using q(1) by (rule valid_path_snoc)
    then have tq: "table_at E r q = Some u" using q(2) pp by simp
    have "u \<noteq> t" using tree_wf_inj [OF wf vq p(1) tq] t p(2) q(1) by (auto simp: valid_path_def)
    then have "put E t i e u j = E u j" by (simp add: put_def)
    with q(3) tree_wf_mask [OF wf q(1) tq] show "table_of_unmap (put E t i e u j) = table_of (put E t i e u j)"
      by simp
  qed
qed

text \<open>What a full path is mapped to.\<close>

definition leaf :: "(u64 \<Rightarrow> nat \<Rightarrow> u64) \<Rightarrow> u64 \<Rightarrow> nat list \<times> nat \<Rightarrow> u64 option" where
  "leaf E r = (\<lambda>(p, i). case table_at E r p of None \<Rightarrow> None
     | Some t \<Rightarrow> if present (E t i) then Some (E t i) else None)"

definition full_path :: "nat list \<times> nat \<Rightarrow> bool" where
  "full_path = (\<lambda>(p, i). valid_path p \<and> length p = 3 \<and> i < 512)"

lemma grow_leaf:
  assumes "tree_wf E r ok" and "table_at E r p = Some t" and pi: "valid_path (p @ [i])"
    and "\<not> present (E t i)" and fresh: "\<forall>q. valid_path q \<longrightarrow> table_at E r q \<noteq> Some n"
    and "present e" "table_of e = n" and full: "full_path x"
  shows "leaf (grow E t i n e) r x = leaf E r x"
proof -
  obtain q j where x: "x = (q, j)" by (cases x)
  have vq: "valid_path q" "length q = 3" using full by (auto simp: x full_path_def)
  have vp: "valid_path p" using pi by (rule valid_path_snoc)
  have nt: "n \<noteq> t" using fresh vp assms(2) by auto
  note gp = grow_paths [OF assms(1-4) fresh assms(6,7) vq(1)]
  show ?thesis
  proof (cases "q = p @ [i]")
    case True
    with gp assms(2,4) nt show ?thesis by (simp add: x leaf_def grow_def table_at_snoc present_def)
  next
    case False
    then have eq: "table_at (grow E t i n e) r q = table_at E r q" using gp by simp
    have "grow E t i n e u j = E u j" if u: "table_at E r q = Some u" for u
    proof -
      have "length p < 3" using pi by (simp add: valid_path_def)
      then have "u \<noteq> t" using tree_wf_inj [OF assms(1) vq(1) vp u] assms(2) vq(2) by auto
      moreover have "u \<noteq> n" using fresh vq(1) u by auto
      ultimately show ?thesis by (simp add: grow_def)
    qed
    then show ?thesis by (simp add: x leaf_def eq split: option.split)
  qed
qed

lemma put_leaf_leaf:
  assumes "tree_wf E r ok" and "table_at E r p = Some t" and "valid_path p" "length p = 3" and "full_path x"
  shows "leaf (put E t i e) r x = (if x = (p, i) then if present e then Some e else None else leaf E r x)"
proof -
  obtain q j where x: "x = (q, j)" by (cases x)
  have vq: "valid_path q" using assms(5) by (auto simp: x full_path_def)
  note pp = put_leaf_paths [OF assms(1-4) vq, of i e]
  have "u = t \<longleftrightarrow> q = p" if "table_at E r q = Some u" for u
    using tree_wf_inj [OF assms(1) vq assms(3) that] that assms(2) by auto
  then show ?thesis using pp assms(2) by (auto simp: x leaf_def put_def split: option.splits)
qed

section \<open>The tree in memory\<close>

definition ents :: "memory \<Rightarrow> u64 \<Rightarrow> nat \<Rightarrow> u64" where
  "ents m t i = (if unat t mod 4096 = 0 \<and> i < 512 then ent m t i else 0)"

lemma page_interval: "p * 4096 \<le> (x :: nat) \<and> x < p * 4096 + 4096 \<longleftrightarrow> x div 4096 = p"
proof
  assume "p * 4096 \<le> x \<and> x < p * 4096 + 4096"
  then show "x div 4096 = p" by (intro div_nat_eqI) auto
next
  assume "x div 4096 = p"
  then have "x = p * 4096 + x mod 4096" by (metis div_mult_mod_eq)
  moreover have "x mod 4096 < 4096" by simp
  ultimately show "p * 4096 \<le> x \<and> x < p * 4096 + 4096" by linarith
qed

lemma page_addrs_iff: "unat t mod 4096 = 0 \<Longrightarrow> x \<in> addrs t 4096 \<longleftrightarrow> unat x div 4096 = unat t div 4096"
proof -
  assume al: "unat t mod 4096 = 0"
  then have t: "unat t = page_of t * 4096" by (rule aligned_page)
  have "page_of t * 4096 < 2 ^ 52 * 4096" using unat_u64 [of t] t by simp
  then have "page_of t < 2 ^ 52" by simp
  then have "unat t + 4096 \<le> 2 ^ 64" using t by simp
  from in_addrs_iff [OF this, of x]
  have "x \<in> addrs t 4096 \<longleftrightarrow> page_of t * 4096 \<le> unat x \<and> unat x < page_of t * 4096 + 4096"
    unfolding t .
  also have "\<dots> \<longleftrightarrow> unat x div 4096 = page_of t"
    by (rule page_interval)
  finally show ?thesis by (simp add: page_of_def)
qed

lemma pages_apart: "unat t mod 4096 = 0 \<Longrightarrow> unat u mod 4096 = 0 \<Longrightarrow> u \<noteq> t \<Longrightarrow> addrs t 4096 \<inter> addrs u 4096 = {}"
proof -
  assume al: "unat t mod 4096 = 0" "unat u mod 4096 = 0" and ne: "u \<noteq> t"
  have "unat t div 4096 \<noteq> unat u div 4096"
  proof
    assume "unat t div 4096 = unat u div 4096"
    then have "page_of t * 4096 = page_of u * 4096" by (simp only: page_of_def)
    then have "unat t = unat u" by (simp only: aligned_page [OF al(1), symmetric] aligned_page [OF al(2), symmetric])
    with ne show False by (simp only: word_unat_eq_iff)
  qed
  then show ?thesis by (auto simp: page_addrs_iff al)
qed

lemma ent_in_page: "i < 512 \<Longrightarrow> addrs (t + of_nat (8 * i)) 8 \<subseteq> addrs t 4096"
  by (rule addrs_within) simp

lemma ents_apart:
  assumes "i < 512" and "j < 512" and "i \<noteq> j"
  shows "addrs (t + of_nat (8 * i)) 8 \<inter> addrs (t + of_nat (8 * j)) 8 = {}"
proof -
  have "t + of_nat (8 * i) + of_nat x \<noteq> t + of_nat (8 * j) + of_nat y" if "x < 8" "y < 8" for x y
  proof
    assume "t + of_nat (8 * i) + of_nat x = t + of_nat (8 * j) + of_nat y"
    then have "(of_nat (8 * i + x) :: u64) = of_nat (8 * j + y)" by (simp add: add.assoc)
    then have "8 * i + x = 8 * j + y" using assms that by (subst (asm) of_nat_inj_u64) auto
    with assms(3) that show False by presburger
  qed
  then show ?thesis by (auto simp: addrs_def)
qed

lemma ents_set_ent:
  assumes "unat t mod 4096 = 0" and "i < 512"
  shows "ents (set_ent m t i e) = put (ents m) t i e"
proof (intro ext)
  fix u j
  have "ent (set_ent m t i e) u j = (if u = t \<and> j = i then e else ent m u j)"
    if u: "unat u mod 4096 = 0" "j < 512"
  proof (cases "u = t")
    case True
    with ents_apart [OF u(2) assms(2), of t] show ?thesis
      by (cases "j = i") (auto simp: ent_def set_ent_def intro!: ld64_st64_other)
  next
    case False
    with pages_apart [OF u(1) assms(1)] ent_in_page [OF u(2), of u] ent_in_page [OF assms(2), of t]
    have "addrs (u + of_nat (8 * j)) 8 \<inter> addrs (t + of_nat (8 * i)) 8 = {}" by blast
    with False show ?thesis by (simp add: ent_def set_ent_def ld64_st64_other)
  qed
  then show "ents (set_ent m t i e) u j = put (ents m) t i e u j"
    using assms by (auto simp: ents_def put_def)
qed

lemma le_word_zeros: "le_word (replicate n 0) = 0"
  by (induction n) simp_all

lemma ents_memset:
  assumes "unat t mod 4096 = 0"
  shows "ents (memset m t 0 PAGE_SIZE) = (\<lambda>u j. if u = t then 0 else ents m u j)"
proof (intro ext)
  fix u j
  have len: "unat PAGE_SIZE = 4096" by (simp add: PAGE_SIZE_def)
  have "ent (memset m t 0 PAGE_SIZE) u j = (if u = t then 0 else ent m u j)"
    if u: "unat u mod 4096 = 0" "j < 512"
  proof (cases "u = t")
    case True
    have "load (memset m t 0 PAGE_SIZE) (t + of_nat (8 * j)) 8 = replicate 8 0"
    proof (rule nth_equalityI)
      fix k assume "k < length (load (memset m t 0 PAGE_SIZE) (t + of_nat (8 * j)) 8)"
      then have "t + of_nat (8 * j) + of_nat k \<in> addrs t 4096"
        using ent_in_page [OF u(2), of t] in_addrs [of k 8 "t + of_nat (8 * j)"] by auto
      then show "load (memset m t 0 PAGE_SIZE) (t + of_nat (8 * j)) 8 ! k = replicate 8 0 ! k"
        using \<open>k < _\<close> by (simp add: memset_spec len)
    qed simp
    with True show ?thesis by (simp only: ent_def ld64_def le_word_zeros simp_thms if_True)
  next
    case False
    with pages_apart [OF assms u(1)] ent_in_page [OF u(2), of u]
    have "addrs (u + of_nat (8 * j)) 8 \<inter> addrs t 4096 = {}" by blast
    then have "u + of_nat (8 * j) + of_nat k \<notin> addrs t 4096" if "k < 8" for k
      using in_addrs [OF that, of "u + of_nat (8 * j)"] by blast
    then have "load (memset m t 0 PAGE_SIZE) (u + of_nat (8 * j)) 8 = load m (u + of_nat (8 * j)) 8"
      by (intro nth_equalityI) (simp_all add: memset_spec len)
    with False show ?thesis by (simp add: ent_def ld64_def)
  qed
  then show "ents (memset m t 0 PAGE_SIZE) u j = (if u = t then 0 else ents m u j)"
    using assms by (cases "unat u mod 4096 = 0 \<and> j < 512") (auto simp: ents_def)
qed

lemma ents_grow:
  assumes "unat t mod 4096 = 0" and "i < 512" and "unat n mod 4096 = 0" and "n \<noteq> t"
  shows "ents (set_ent (memset m n 0 PAGE_SIZE) t i e) = grow (ents m) t i n e"
  using assms by (auto simp: ents_set_ent ents_memset put_def grow_def)

section \<open>The invariant of the address space\<close>

definition tbl_ok :: "heap \<Rightarrow> u64 \<Rightarrow> bool" where
  "tbl_ok h t \<longleftrightarrow> unat t mod 4096 = 0 \<and> covers (kpmm h) (Suc (page_of (VIRT_TO_PHYS t)))
     \<and> page_of (VIRT_TO_PHYS t) \<notin> free_pages (kpmm h) \<and> unat (VIRT_TO_PHYS t) mod 4096 = 0"

definition vm_inv :: "heap \<Rightarrow> u64 \<Rightarrow> bool" where
  "vm_inv h r \<longleftrightarrow> pmm_inv (kpmm h) \<and> fits (kpmm h) 1 \<and> unat (phys_limit (kpmm h)) \<le> 2 ^ 47
     \<and> tree_wf (ents (kmem h)) r (tbl_ok h)"

lemma present_iff: "e AND VMM_FLAG_PRESENT = 0 \<longleftrightarrow> \<not> present e"
proof -
  have "(e AND one_shl 0 = 0) = (\<not> bit e 0)" by (rule and_one_shl_0)
  then show ?thesis by (simp add: VMM_FLAG_PRESENT_def present_def one_shl_def)
qed

lemma vidx_less: "vidx sh a < 512"
proof -
  have "unat (ucast (drop_bit sh a AND 0x1ff) :: u16) \<le> unat (drop_bit sh a AND 0x1ff)"
    by (simp add: unsigned_ucast_eq take_bit_nat_less_eq_self)
  also have "\<dots> = unat (take_bit 9 (drop_bit sh a))"
    by (simp add: take_bit_eq_mask mask_numeral)
  also have "\<dots> < 2 ^ 9" by (simp only: unsigned_take_bit_eq take_bit_nat_less_exp)
  finally show ?thesis by (simp add: vidx_def)
qed

text \<open>The masks on aligned addresses.\<close>

lemma aligned_bits: "unat (a :: u64) mod 4096 = 0 \<longleftrightarrow> (\<forall>k < 12. \<not> bit a k)"
proof -
  have "unat a mod 4096 = unat (take_bit 12 a)" by (simp only: unsigned_take_bit_eq) (simp add: take_bit_eq_mod)
  then have "unat a mod 4096 = 0 \<longleftrightarrow> take_bit 12 a = 0" by (simp add: unat_eq_0)
  also have "\<dots> \<longleftrightarrow> (\<forall>k < 12. \<not> bit a k)"
    by (auto simp: bit_eq_iff [where 'a = "u64"] bit_simps)
  finally show ?thesis .
qed

lemma and_not_mask: "(a :: u64) AND NOT 0xfff = a AND NOT (mask 12)" "(a :: u64) AND NOT 0x1ff = a AND NOT (mask 9)"
  by (simp_all add: mask_numeral)

lemma bit_flags: "bit (7 :: u64) k \<longleftrightarrow> k < 3"
proof -
  have seven: "(7 :: u64) = mask 3" by (simp add: mask_numeral)
  show ?thesis unfolding seven bit_mask_iff by auto
qed

lemma entry_of_table:
  assumes "unat pa mod 4096 = 0"
  shows "present (MAKE_TABLE_ENTRY pa VMM_FLAGS_USERMODE)"
    and "table_of (MAKE_TABLE_ENTRY pa VMM_FLAGS_USERMODE) = PHYS_TO_VIRT pa"
    and "table_of_unmap (MAKE_TABLE_ENTRY pa VMM_FLAGS_USERMODE) = PHYS_TO_VIRT pa"
proof -
  have low: "\<not> bit pa k" if "k < 12" for k using assms that by (simp add: aligned_bits)
  have "((pa AND NOT (mask 12)) OR 7) AND NOT (mask 12) = pa"
    using low by (intro bit_word_eqI) (auto simp: bit_and_iff bit_or_iff bit_not_iff bit_mask_iff bit_flags simp del: bit_numeral_word_iff)
  then show "table_of (MAKE_TABLE_ENTRY pa VMM_FLAGS_USERMODE) = PHYS_TO_VIRT pa"
    by (simp only: table_of_def MAKE_TABLE_ENTRY_def VMM_FLAGS_USERMODE_def and_not_mask)
  have "((pa AND NOT (mask 12)) OR 7) AND NOT (mask 9) = pa"
    using low by (intro bit_word_eqI) (auto simp: bit_and_iff bit_or_iff bit_not_iff bit_mask_iff bit_flags simp del: bit_numeral_word_iff)
  then show "table_of_unmap (MAKE_TABLE_ENTRY pa VMM_FLAGS_USERMODE) = PHYS_TO_VIRT pa"
    by (simp only: table_of_unmap_def MAKE_TABLE_ENTRY_def VMM_FLAGS_USERMODE_def and_not_mask)
  show "present (MAKE_TABLE_ENTRY pa VMM_FLAGS_USERMODE)"
    by (simp add: present_def MAKE_TABLE_ENTRY_def VMM_FLAGS_USERMODE_def bit_or_iff bit_flags)
qed

lemma virt_aligned: "unat pa mod 4096 = 0 \<Longrightarrow> unat (PHYS_TO_VIRT pa) mod 4096 = 0"
proof -
  assume "unat pa mod 4096 = 0"
  moreover have "unat (PHYS_TO_VIRT pa) mod 4096 = (unat pa + unat MEM_VIRT_OFFSET) mod 4096"
    unfolding PHYS_TO_VIRT_def unat_word_ariths by (rule mod_mod_cancel) simp
  ultimately show ?thesis by (simp add: MEM_VIRT_OFFSET_def mod_add_left_eq [symmetric])
qed

lemma pmm_get_one:
  assumes "vm_inv h r" and "pmm_get (kpmm h) 1 0 = Returns (pa, p')"
  shows "pmm_inv p' \<and> page_of pa \<in> free_pages (kpmm h) \<and> free_pages p' = free_pages (kpmm h) - {page_of pa}
    \<and> unat pa mod 4096 = 0 \<and> covers (kpmm h) (Suc (page_of pa)) \<and> covers p' = covers (kpmm h)
    \<and> fits p' 1 \<and> phys_limit p' = phys_limit (kpmm h)"
proof -
  have i: "pmm_inv (kpmm h)" "fits (kpmm h) 1" using assms(1) by (auto simp: vm_inv_def)
  have al: "unat (0 :: u64) mod 4096 = 0" by simp
  from pmm.get_law [OF i al assms(2)] pmm_get_inv [OF i al assms(2)] i(2)
  show ?thesis by (auto simp: page_run_1 [unfolded One_nat_def] same_shape_def)
qed

lemma next_table_ok:
  assumes inv: "vm_inv h r" and t: "table_at (ents (kmem h)) r p = Some t" and pi: "valid_path (p @ [i])"
    and ret: "next_table h t i = Returns (n, h')"
  shows "vm_inv h' r \<and> table_at (ents (kmem h')) r (p @ [i]) = Some n
    \<and> (\<forall>x. full_path x \<longrightarrow> leaf (ents (kmem h')) r x = leaf (ents (kmem h)) r x)"
proof -
  let ?E = "ents (kmem h)"
  have wf: "tree_wf ?E r (tbl_ok h)" using inv by (simp add: vm_inv_def)
  have vp: "valid_path p" and i: "i < 512" using pi by (auto simp: valid_path_def)
  have tok: "tbl_ok h t" by (rule tree_wf_ok [OF wf vp t])
  have ei: "ent (kmem h) t i = ?E t i" using tok i by (simp add: ents_def tbl_ok_def)
  show ?thesis
  proof (cases "present (?E t i)")
    case True
    with ret inv t show ?thesis by (auto simp: next_table_def present_iff ei table_at_snoc)
  next
    case False
    with ret obtain pa p' where get: "pmm_get (kpmm h) 1 0 = Returns (pa, p')" and n: "n = PHYS_TO_VIRT pa"
      and h': "h' = \<lparr>kpmm = p', kmem = set_ent (memset (kmem h) n 0 PAGE_SIZE) t i (MAKE_TABLE_ENTRY pa VMM_FLAGS_USERMODE)\<rparr>"
      by (auto simp: next_table_def present_iff ei obind_eq_Returns Let_def)
    let ?e = "MAKE_TABLE_ENTRY pa VMM_FLAGS_USERMODE"
    note g = pmm_get_one [OF inv get]
    have al: "unat pa mod 4096 = 0" using g by simp
    note e = entry_of_table [OF al]
    have nal: "unat n mod 4096 = 0" by (simp add: n virt_aligned al)
    have nok: "\<not> tbl_ok h n" using g by (simp add: tbl_ok_def n)
    then have fresh: "\<forall>q. valid_path q \<longrightarrow> table_at ?E r q \<noteq> Some n" using tree_wf_ok [OF wf] by blast
    have nt: "n \<noteq> t" using nok tok by auto
    have E': "ents (kmem h') = grow ?E t i n ?e"
      using ents_grow [of t i n "kmem h" ?e] tok i nal nt by (simp add: h' tbl_ok_def)
    have ok': "tbl_ok h' u" if "tbl_ok h u" "u \<noteq> n" for u
      using that g by (auto simp: tbl_ok_def h')
    have okn: "tbl_ok h' n" using g nal by (simp add: tbl_ok_def h' n)
    have "tree_wf (grow ?E t i n ?e) r (tbl_ok h')"
      using ok' okn e by (intro grow_wf [OF wf t pi False fresh]) (simp_all add: n)
    then have "vm_inv h' r"
      using inv g by (simp add: vm_inv_def E') (simp add: h')
    moreover have "table_at (grow ?E t i n ?e) r (p @ [i]) = Some n"
      using grow_paths [OF wf t pi False fresh e(1) e(2) [folded n] pi] by simp
    moreover have "leaf (grow ?E t i n ?e) r x = leaf ?E r x" if "full_path x" for x
      by (rule grow_leaf [OF wf t pi False fresh e(1) e(2) [folded n] that])
    ultimately show ?thesis by (simp add: E')
  qed
qed

lemma next_table_step:
  assumes "vm_inv h r" and "table_at (ents (kmem h)) r p = Some t" and "q = p @ [i]" and "valid_path q"
    and "next_table h t i = Returns (n, h')"
  shows "vm_inv h' r" and "table_at (ents (kmem h')) r q = Some n"
    and "\<And>x. full_path x \<Longrightarrow> leaf (ents (kmem h')) r x = leaf (ents (kmem h)) r x"
  using next_table_ok [OF assms(1,2) _ assms(5)] assms(3,4) by blast+

section \<open>Mapping a page\<close>

definition vpath :: "u64 \<Rightarrow> nat list \<times> nat" where
  "vpath vaddr = ([vidx 39 vaddr, vidx 30 vaddr, vidx 21 vaddr], vidx 12 vaddr)"

text \<open>The translation the tables of \<open>v\<close> give for an address: its last-level entry, if present.\<close>

definition translate :: "vm \<Rightarrow> u64 \<Rightarrow> u64 option" where
  "translate v vaddr = leaf (ents (kmem (vheap v))) (vPML4 v) (vpath vaddr)"

definition vmm_inv :: "vm \<Rightarrow> bool" where
  "vmm_inv v \<longleftrightarrow> vm_inv (vheap v) (vPML4 v)"

lemma full_vpath [simp]: "full_path (vpath a)"
  by (simp add: full_path_def vpath_def valid_path_def vidx_less)

lemma map_page_ok:
  assumes inv: "vmm_inv v" and ret: "map_page v vaddr paddr flags = Returns v'"
  shows "vmm_inv v' \<and> vPML4 v' = vPML4 v \<and> cr3 v' = cr3 v
    \<and> (\<forall>x. full_path x \<longrightarrow> leaf (ents (kmem (vheap v'))) (vPML4 v) x
        = (if x = vpath vaddr
           then (let e = MAKE_TABLE_ENTRY (paddr AND NOT 0xfff) flags in if present e then Some e else None)
           else leaf (ents (kmem (vheap v))) (vPML4 v) x))"
proof -
  let ?r = "vPML4 v"
  let ?i4 = "vidx 39 vaddr" let ?i3 = "vidx 30 vaddr" let ?i2 = "vidx 21 vaddr" let ?i1 = "vidx 12 vaddr"
  define e where "e = MAKE_TABLE_ENTRY (paddr AND NOT 0xfff) flags"
  from ret obtain pdpt h1 pd h2 pt h3 where
    s1: "next_table (vheap v) ?r ?i4 = Returns (pdpt, h1)" and
    s2: "next_table h1 pdpt ?i3 = Returns (pd, h2)" and
    s3: "next_table h2 pd ?i2 = Returns (pt, h3)" and
    v': "v' = flush (v\<lparr>vheap := h3\<lparr>kmem := set_ent (kmem h3) pt ?i1 e\<rparr>\<rparr>) vaddr"
    unfolding e_def by (auto simp: map_page_def obind_eq_Returns Let_def)
  have vp: "valid_path [?i4]" "valid_path [?i4, ?i3]" "valid_path [?i4, ?i3, ?i2]"
    by (simp_all add: valid_path_def vidx_less)
  have l0: "vm_inv (vheap v) ?r" "table_at (ents (kmem (vheap v))) ?r [] = Some ?r"
    using inv by (simp_all add: vmm_inv_def)
  note l1 = next_table_step [OF l0 _ vp(1) s1, simplified append_Nil, OF refl]
  note l2 = next_table_step [OF l1(1,2) _ vp(2) s2, simplified append_Cons append_Nil, OF refl]
  note l3 = next_table_step [OF l2(1,2) _ vp(3) s3, simplified append_Cons append_Nil, OF refl]
  have wf: "tree_wf (ents (kmem h3)) ?r (tbl_ok h3)" using l3(1) by (simp add: vm_inv_def)
  have len: "length [?i4, ?i3, ?i2] = 3" by simp
  have "tbl_ok h3 pt" by (rule tree_wf_ok [OF wf vp(3) l3(2)])
  then have E': "ents (set_ent (kmem h3) pt ?i1 e) = put (ents (kmem h3)) pt ?i1 e"
    by (intro ents_set_ent) (simp_all add: tbl_ok_def vidx_less)
  have fl: "vheap (flush w a) = vheap w" "vPML4 (flush w a) = vPML4 w" "cr3 (flush w a) = cr3 w" for w a
    by (simp_all add: flush_def)
  have wf': "tree_wf (put (ents (kmem h3)) pt ?i1 e) ?r (tbl_ok h3)"
    by (rule put_leaf_wf [OF wf l3(2) vp(3) len])
  have "tbl_ok (h3\<lparr>kmem := m\<rparr>) = tbl_ok h3" for m by (rule ext) (simp add: tbl_ok_def)
  then have "vmm_inv v'" using l3(1) wf' by (simp add: vmm_inv_def vm_inv_def v' fl E')
  moreover have "leaf (put (ents (kmem h3)) pt ?i1 e) ?r x
      = (if x = vpath vaddr then if present e then Some e else None else leaf (ents (kmem (vheap v))) ?r x)"
    if "full_path x" for x
    using put_leaf_leaf [OF wf l3(2) vp(3) len that, of ?i1 e] l3(3) [OF that] l2(3) [OF that] l1(3) [OF that] by (simp add: vpath_def)
  ultimately show ?thesis unfolding e_def [symmetric] Let_def by (simp add: v' fl E')
qed

section \<open>Unmapping a page\<close>

text \<open>Shrinking: the entry at \<open>p @ [i]\<close> is cleared when its table has no entry left.\<close>

lemma shrink_paths:
  assumes wf: "tree_wf E r ok" and t: "table_at E r p = Some t" and pi: "valid_path (p @ [i])"
    and c: "table_at E r (p @ [i]) = Some c" and empty: "\<And>j. E c j = 0"
  shows "valid_path q \<Longrightarrow> table_at (put E t i 0) r q = (if q = p @ [i] then None else table_at E r q)"
proof (induction q rule: rev_induct)
  case Nil
  then show ?case by simp
next
  case (snoc j q)
  have vp: "valid_path p" using pi by (rule valid_path_snoc)
  have vq: "valid_path q" using snoc.prems by (rule valid_path_snoc)
  show ?case
  proof (cases "q = p @ [i]")
    case True
    then have at: "table_at (put E t i 0) r q = None" using snoc.IH [OF vq] by simp
    have cq: "table_at E r q = Some c" using c True by simp
    have "table_at E r (q @ [j]) = None" by (simp add: table_at_snoc [of _ _ q] cq empty present_def)
    moreover have "q @ [j] \<noteq> p @ [i]" using True by simp
    ultimately show ?thesis by (simp add: table_at_snoc [of _ _ q] at)
  next
    case False
    then have IH: "table_at (put E t i 0) r q = table_at E r q" using snoc.IH [OF vq] by simp
    have "u = t \<longleftrightarrow> q = p" if "table_at E r q = Some u" for u
      using tree_wf_inj [OF wf vq vp that] that t by auto
    with IH t show ?thesis
      by (auto simp: table_at_snoc put_def present_def split: option.split)
  qed
qed

lemma shrink_wf:
  assumes wf: "tree_wf E r ok" and t: "table_at E r p = Some t" and pi: "valid_path (p @ [i])"
    and c: "table_at E r (p @ [i]) = Some c" and empty: "\<And>j. E c j = 0"
    and ok: "\<And>u. ok u \<Longrightarrow> u \<noteq> c \<Longrightarrow> ok' u"
  shows "tree_wf (put E t i 0) r ok'"
proof -
  let ?E = "put E t i 0"
  note sp = shrink_paths [OF wf t pi c empty]
  have old: "table_at E r q = Some u \<and> q \<noteq> p @ [i] \<and> u \<noteq> c" if q: "valid_path q" "table_at ?E r q = Some u" for q u
  proof -
    have 1: "table_at E r q = Some u" "q \<noteq> p @ [i]" using sp [OF q(1)] q(2) by (auto split: if_splits)
    then have "u \<noteq> c" using tree_wf_inj [OF wf q(1) pi 1(1)] c by auto
    with 1 show ?thesis by simp
  qed
  show ?thesis
    unfolding tree_wf_def
  proof (intro conjI allI impI)
    fix q q' u assume "valid_path q" "valid_path q'" "table_at ?E r q = Some u" "table_at ?E r q' = Some u"
    then show "q = q'" using old tree_wf_inj [OF wf] by blast
  next
    fix q u assume "valid_path q" "table_at ?E r q = Some u"
    then show "ok' u" using old ok tree_wf_ok [OF wf] by blast
  next
    fix q u j assume q: "valid_path (q @ [j])" "table_at ?E r q = Some u" "present (?E u j)"
    have "table_at E r q = Some u" using old [OF valid_path_snoc [OF q(1)] q(2)] by simp
    moreover have "?E u j = E u j" using q(3) by (auto simp: put_def present_def split: if_splits)
    ultimately show "table_of_unmap (?E u j) = table_of (?E u j)"
      using tree_wf_mask [OF wf q(1)] q(3) by simp
  qed
qed

lemma shrink_leaf:
  assumes wf: "tree_wf E r ok" and t: "table_at E r p = Some t" and pi: "valid_path (p @ [i])"
    and c: "table_at E r (p @ [i]) = Some c" and empty: "\<And>j. E c j = 0" and full: "full_path x"
  shows "leaf (put E t i 0) r x = leaf E r x"
proof -
  obtain q j where x: "x = (q, j)" by (cases x)
  have vq: "valid_path q" "length q = 3" using full by (auto simp: x full_path_def)
  have "u \<noteq> t" if "table_at E r q = Some u" for u
  proof -
    have "length p < 3" using pi by (simp add: valid_path_def)
    then show ?thesis using tree_wf_inj [OF wf vq(1) valid_path_snoc [OF pi] that] t vq(2) by auto
  qed
  then show ?thesis
    using shrink_paths [OF wf t pi c empty vq(1)] c empty
    by (auto simp: x leaf_def put_def present_def split: option.split)
qed

lemma tbl_ok_facts:
  assumes "vm_inv h r" and "tbl_ok h t"
  shows "no_wrap (VIRT_TO_PHYS t) 1"
proof -
  have "pmm_inv (kpmm h)" "unat (phys_limit (kpmm h)) \<le> 2 ^ 47" using assms(1) by (auto simp: vm_inv_def)
  moreover have "covers (kpmm h) (Suc (page_of (VIRT_TO_PHYS t)))" using assms(2) by (simp add: tbl_ok_def)
  moreover have "unat (VIRT_TO_PHYS t) = page_of (VIRT_TO_PHYS t) * 4096"
    using assms(2) by (intro aligned_page) (simp add: tbl_ok_def)
  ultimately show ?thesis using inv_covers_limit [of "kpmm h" "Suc (page_of (VIRT_TO_PHYS t))"]
    by (simp add: no_wrap_def)
qed

lemma drop_table_ok:
  assumes inv: "vm_inv h r" and t: "table_at (ents (kmem h)) r p = Some t" and q: "q = p @ [i]" "valid_path q"
    and c: "table_at (ents (kmem h)) r q = Some c" and empty: "table_empty (kmem h) c"
  shows "\<exists>h'. drop_table h t i c = Returns h' \<and> vm_inv h' r
    \<and> (\<forall>q'. valid_path q' \<longrightarrow> q' \<noteq> q \<longrightarrow> table_at (ents (kmem h')) r q' = table_at (ents (kmem h)) r q')
    \<and> (\<forall>x. full_path x \<longrightarrow> leaf (ents (kmem h')) r x = leaf (ents (kmem h)) r x)"
proof -
  let ?E = "ents (kmem h)"
  have pi: "valid_path (p @ [i])" using q by simp
  have ci: "table_at ?E r (p @ [i]) = Some c" using c q by simp
  have wf: "tree_wf ?E r (tbl_ok h)" using inv by (simp add: vm_inv_def)
  have tok: "tbl_ok h t" by (rule tree_wf_ok [OF wf valid_path_snoc [OF pi] t])
  have cok: "tbl_ok h c" by (rule tree_wf_ok [OF wf pi ci])
  have zero: "?E c j = 0" for j
    using empty by (simp add: ents_def table_empty_def list_all_iff)
  have E': "ents (set_ent (kmem h) t i 0) = put ?E t i 0"
    using tok pi by (intro ents_set_ent) (auto simp: tbl_ok_def valid_path_def)
  have "no_wrap (VIRT_TO_PHYS c) (unat (1 :: u64))" using tbl_ok_facts [OF inv cok] by simp
  moreover have "covers (kpmm h) (page_of (VIRT_TO_PHYS c) + unat (1 :: u64))" using cok by (simp add: tbl_ok_def)
  ultimately obtain p' where p': "pmm_free (kpmm h) (VIRT_TO_PHYS c) 1 = Returns p'" "same_shape (kpmm h) p'"
    "pmm_inv p'" "free_pages p' = free_pages (kpmm h) \<union> {page_of (VIRT_TO_PHYS c)}"
    using pmm_free_ok [of "kpmm h" "VIRT_TO_PHYS c" 1] inv by (auto simp: vm_inv_def page_run_1 [unfolded One_nat_def])
  let ?h' = "\<lparr>kpmm = p', kmem = set_ent (kmem h) t i 0\<rparr>"
  have ok': "tbl_ok ?h' u" if u: "tbl_ok h u" "u \<noteq> c" for u
  proof -
    have "page_of (VIRT_TO_PHYS u) \<noteq> page_of (VIRT_TO_PHYS c)"
    proof
      assume "page_of (VIRT_TO_PHYS u) = page_of (VIRT_TO_PHYS c)"
      then have "unat (VIRT_TO_PHYS u) = unat (VIRT_TO_PHYS c)"
        using aligned_page [of "VIRT_TO_PHYS u"] aligned_page [of "VIRT_TO_PHYS c"] u(1) cok
        by (simp add: tbl_ok_def)
      then have "VIRT_TO_PHYS u = VIRT_TO_PHYS c" by (simp only: word_unat_eq_iff)
      with u(2) show False by (metis PHYS_VIRT)
    qed
    with u(1) p'(4) covers_same_shape [OF p'(2)] show ?thesis by (simp add: tbl_ok_def)
  qed
  have "tree_wf (put ?E t i 0) r (tbl_ok ?h')"
    by (rule shrink_wf [OF wf t pi ci zero ok'])
  then have "vm_inv ?h' r"
    using inv p'(2,3) fits_same_shape [OF p'(2)] by (simp add: vm_inv_def E' same_shape_def)
  moreover have "drop_table h t i c = Returns ?h'" by (simp add: drop_table_def Let_def p'(1))
  ultimately show ?thesis
    using shrink_paths [OF wf t pi ci zero] shrink_leaf [OF wf t pi ci zero] q by (simp add: E')
qed

lemma unmap_prune_ok:
  assumes inv: "vm_inv h r"
    and at: "table_at (ents (kmem h)) r [vidx 39 a] = Some pdpt"
      "table_at (ents (kmem h)) r [vidx 39 a, vidx 30 a] = Some pd"
      "table_at (ents (kmem h)) r [vidx 39 a, vidx 30 a, vidx 21 a] = Some pt"
  shows "\<exists>h'. unmap_prune h r pdpt pd pt a = Returns h' \<and> vm_inv h' r
    \<and> (\<forall>x. full_path x \<longrightarrow> leaf (ents (kmem h')) r x = leaf (ents (kmem h)) r x)"
proof -
  have vp: "valid_path [vidx 39 a]" "valid_path [vidx 39 a, vidx 30 a]" "valid_path [vidx 39 a, vidx 30 a, vidx 21 a]"
    by (simp_all add: valid_path_def vidx_less)
  have root: "table_at E r [] = Some r" for E by simp
  show ?thesis
  proof (cases "table_empty (kmem h) pt")
    case False
    with inv show ?thesis by (simp add: unmap_prune_def)
  next
    case pt: True
    obtain h1 where h1: "drop_table h pd (vidx 21 a) pt = Returns h1" "vm_inv h1 r"
      "\<And>q. valid_path q \<Longrightarrow> q \<noteq> [vidx 39 a, vidx 30 a, vidx 21 a] \<Longrightarrow> table_at (ents (kmem h1)) r q = table_at (ents (kmem h)) r q"
      "\<And>x. full_path x \<Longrightarrow> leaf (ents (kmem h1)) r x = leaf (ents (kmem h)) r x"
      using drop_table_ok [OF inv at(2) _ vp(3) at(3) pt] by auto
    have at1: "table_at (ents (kmem h1)) r [vidx 39 a] = Some pdpt"
      "table_at (ents (kmem h1)) r [vidx 39 a, vidx 30 a] = Some pd"
      using h1(3) [OF vp(1)] h1(3) [OF vp(2)] at by (simp_all del: table_at.simps)
    show ?thesis
    proof (cases "table_empty (kmem h1) pd")
      case False
      with pt h1 show ?thesis by (simp add: unmap_prune_def)
    next
      case pd: True
      obtain h2 where h2: "drop_table h1 pdpt (vidx 30 a) pd = Returns h2" "vm_inv h2 r"
        "\<And>q. valid_path q \<Longrightarrow> q \<noteq> [vidx 39 a, vidx 30 a] \<Longrightarrow> table_at (ents (kmem h2)) r q = table_at (ents (kmem h1)) r q"
        "\<And>x. full_path x \<Longrightarrow> leaf (ents (kmem h2)) r x = leaf (ents (kmem h1)) r x"
        using drop_table_ok [OF h1(2) at1(1) _ vp(2) at1(2) pd] by auto
      have at2: "table_at (ents (kmem h2)) r [vidx 39 a] = Some pdpt"
        using h2(3) [OF vp(1)] at1 by (simp del: table_at.simps)
      show ?thesis
      proof (cases "table_empty (kmem h2) pdpt")
        case False
        with pt pd h1 h2 show ?thesis by (simp add: unmap_prune_def)
      next
        case pdpt: True
        obtain h3 where "drop_table h2 r (vidx 39 a) pdpt = Returns h3" "vm_inv h3 r"
          "\<And>x. full_path x \<Longrightarrow> leaf (ents (kmem h3)) r x = leaf (ents (kmem h2)) r x"
          using drop_table_ok [OF h2(2) root _ vp(1) at2 pdpt] by auto
        with pt pd pdpt h1 h2 show ?thesis by (simp add: unmap_prune_def)
      qed
    qed
  qed
qed

lemma unmap_page_ok:
  assumes inv: "vmm_inv v"
  shows "\<exists>v'. unmap_page v vaddr = Returns v' \<and> vmm_inv v' \<and> vPML4 v' = vPML4 v \<and> cr3 v' = cr3 v
    \<and> (\<forall>x. full_path x \<longrightarrow> leaf (ents (kmem (vheap v'))) (vPML4 v) x
        = (if x = vpath vaddr then None else leaf (ents (kmem (vheap v))) (vPML4 v) x))"
proof -
  let ?r = "vPML4 v" let ?m = "kmem (vheap v)" let ?E = "ents (kmem (vheap v))"
  let ?i4 = "vidx 39 vaddr" let ?i3 = "vidx 30 vaddr" let ?i2 = "vidx 21 vaddr" let ?i1 = "vidx 12 vaddr"
  have hinv: "vm_inv (vheap v) ?r" using inv by (simp add: vmm_inv_def)
  have wf: "tree_wf ?E ?r (tbl_ok (vheap v))" using hinv by (simp add: vm_inv_def)
  have vp: "valid_path [?i4]" "valid_path [?i4, ?i3]" "valid_path [?i4, ?i3, ?i2]"
    by (simp_all add: valid_path_def vidx_less)
  have step: "ent ?m t i = ?E t i"
    "present (?E t i) \<Longrightarrow> table_of_unmap (?E t i) = table_of (?E t i)
       \<and> table_at ?E ?r (p @ [i]) = Some (table_of (?E t i))"
    if "table_at ?E ?r p = Some t" "valid_path (p @ [i])" for p t i
    using tree_wf_mask [OF wf that(2,1)] tree_wf_ok [OF wf valid_path_snoc [OF that(2)] that(1)] that
    by (auto simp: ents_def tbl_ok_def valid_path_def table_at_snoc)
  have root: "table_at ?E ?r [] = Some ?r" by simp
  define e4 where "e4 = ?E ?r ?i4"
  have e4: "ent ?m ?r ?i4 = e4" using step(1) [OF root] vp by (simp add: e4_def)
  have noop: "unmap_page v vaddr = Returns v \<Longrightarrow> leaf ?E ?r (vpath vaddr) = None \<Longrightarrow> ?thesis"
    using inv by auto
  show ?thesis
  proof (cases "present e4")
    case False
    then show ?thesis
      by (intro noop) (simp_all add: unmap_page_def present_iff e4 Let_def leaf_def vpath_def e4_def)
  next
    case p4: True
    define pdpt where "pdpt = table_of e4"
    have a1: "table_at ?E ?r [?i4] = Some pdpt" and u4: "table_of_unmap e4 = pdpt"
      using step(2) [OF root, of ?i4] vp p4 by (simp_all add: e4_def pdpt_def)
    define e3 where "e3 = ?E pdpt ?i3"
    have e3: "ent ?m pdpt ?i3 = e3" using step(1) [OF a1, of ?i3] vp by (simp add: e3_def)
    show ?thesis
    proof (cases "present e3")
      case False
      moreover have "table_at ?E ?r [?i4, ?i3] = None"
        using table_at_snoc [of ?E ?r "[?i4]" ?i3] False by (simp add: a1 e3_def del: table_at.simps)
      then have "table_at ?E ?r [?i4, ?i3, ?i2] = None"
        using table_at_snoc [of ?E ?r "[?i4, ?i3]" ?i2] by (simp del: table_at.simps)
      ultimately show ?thesis
        by (intro noop) (simp_all add: unmap_page_def present_iff e4 e3 u4 p4 Let_def leaf_def vpath_def del: table_at.simps)
    next
      case p3: True
      define pd where "pd = table_of e3"
      have a2: "table_at ?E ?r [?i4, ?i3] = Some pd" and u3: "table_of_unmap e3 = pd"
        using step(2) [OF a1, of ?i3] vp p3 by (simp_all add: e3_def pd_def del: table_at.simps)
      define e2 where "e2 = ?E pd ?i2"
      have e2: "ent ?m pd ?i2 = e2" using step(1) [OF a2, of ?i2] vp by (simp add: e2_def del: table_at.simps)
      show ?thesis
      proof (cases "present e2")
        case False
        moreover have "table_at ?E ?r [?i4, ?i3, ?i2] = None"
          using table_at_snoc [of ?E ?r "[?i4, ?i3]" ?i2] False by (simp add: a2 e2_def del: table_at.simps)
        ultimately show ?thesis
          by (intro noop) (simp_all add: unmap_page_def present_iff e4 e3 e2 u4 u3 p4 p3 Let_def leaf_def vpath_def
              del: table_at.simps)
      next
        case p2: True
        define pt where "pt = table_of e2"
        have a3: "table_at ?E ?r [?i4, ?i3, ?i2] = Some pt" and u2: "table_of_unmap e2 = pt"
          using step(2) [OF a2, of ?i2] vp p2 by (simp_all add: e2_def pt_def del: table_at.simps)
        have ptok: "tbl_ok (vheap v) pt" by (rule tree_wf_ok [OF wf vp(3) a3])
        have e1: "ent ?m pt ?i1 = ?E pt ?i1"
          using ptok by (simp add: ents_def tbl_ok_def vidx_less)
        note walk = unmap_page_def present_iff e4 e3 e2 e1 u4 u3 u2 p4 p3 p2 Let_def
        show ?thesis
        proof (cases "present (?E pt ?i1)")
          case False
          then show ?thesis
            by (intro noop) (simp_all add: walk leaf_def vpath_def a3 del: table_at.simps)
        next
          case p1: True
          let ?h1 = "(vheap v)\<lparr>kmem := set_ent ?m pt ?i1 0\<rparr>"
          have E1: "ents (set_ent ?m pt ?i1 0) = put ?E pt ?i1 0"
            using ptok by (intro ents_set_ent) (simp_all add: tbl_ok_def vidx_less)
          have len: "length [?i4, ?i3, ?i2] = 3" by simp
          have "tbl_ok ?h1 = tbl_ok (vheap v)" by (rule ext) (simp add: tbl_ok_def)
          then have inv1: "vm_inv ?h1 ?r"
            using hinv put_leaf_wf [OF wf a3 vp(3) len, of ?i1 0] by (simp add: vm_inv_def E1)
          have at: "table_at (ents (kmem ?h1)) ?r [?i4] = Some pdpt"
            "table_at (ents (kmem ?h1)) ?r [?i4, ?i3] = Some pd"
            "table_at (ents (kmem ?h1)) ?r [?i4, ?i3, ?i2] = Some pt"
            using put_leaf_paths [OF wf a3 vp(3) len, of _ ?i1 0] vp a1 a2 a3
            by (simp_all add: E1 del: table_at.simps)
          from unmap_prune_ok [OF inv1 at] obtain h2 where h2: "unmap_prune ?h1 ?r pdpt pd pt vaddr = Returns h2"
            "vm_inv h2 ?r" "\<And>x. full_path x \<Longrightarrow> leaf (ents (kmem h2)) ?r x = leaf (put ?E pt ?i1 0) ?r x"
            by (auto simp: E1)
          have "leaf (ents (kmem h2)) ?r x = (if x = vpath vaddr then None else leaf ?E ?r x)" if "full_path x" for x
            using h2(3) [OF that] put_leaf_leaf [OF wf a3 vp(3) len that, of ?i1 0] by (simp add: vpath_def present_def)
          moreover have "unmap_page v vaddr = Returns ((flush (v\<lparr>vheap := ?h1\<rparr>) vaddr)\<lparr>vheap := h2\<rparr>)"
            using p1 h2(1) by (simp add: walk)
          ultimately show ?thesis using h2(2) by (simp add: vmm_inv_def flush_def)
        qed
      qed
    qed
  qed
qed

section \<open>Addresses of one page\<close>

text \<open>The walk looks at bits 12 to 47 of an address: its virtual page number.\<close>

definition vpage :: "u64 \<Rightarrow> nat" where "vpage a = unat a div 4096 mod 2 ^ 36"

lemma vidx_eq_bits: "vidx sh a = unat (take_bit 9 (drop_bit sh a))"
proof -
  have "drop_bit sh a AND 0x1ff = take_bit 9 (drop_bit sh a)" by (simp add: take_bit_eq_mask mask_numeral)
  moreover have "unat (ucast (take_bit 9 w) :: u16) = unat (take_bit 9 w)" for w :: u64
    by (simp add: unsigned_ucast_eq unsigned_take_bit_eq)
  ultimately show ?thesis by (simp add: vidx_def)
qed

lemma vidx_nat: "vidx sh a = unat a div 2 ^ sh mod 512"
  by (simp only: vidx_eq_bits unsigned_take_bit_eq unsigned_drop_bit_eq)
    (simp add: take_bit_eq_mod drop_bit_eq_div mod_less [OF unat_u64 [simplified]])

lemma digits_512:
  fixes n :: nat
  shows "n mod 2 ^ 36 = n mod 512 + 512 * (n div 512 mod 512) + 512 * 512 * (n div (512 * 512) mod 512)
     + 512 * 512 * 512 * (n div (512 * 512 * 512) mod 512)"
proof -
  have "n mod (512 * (512 * (512 * 512))) = 512 * (512 * (512 * (n div 512 div 512 div 512 mod 512)
      + n div 512 div 512 mod 512) + n div 512 mod 512) + n mod 512"
    by (simp only: mod_mult2_eq)
  moreover have "(2 :: nat) ^ 36 = 512 * (512 * (512 * 512))" by simp
  moreover have "n div (512 * 512) = n div 512 div 512" "n div (512 * 512 * 512) = n div 512 div 512 div 512"
    by (simp_all only: div_mult2_eq)
  ultimately show ?thesis by (simp only:) (simp add: algebra_simps)
qed

lemma unat_plus_nat: "unat ((a :: u64) + of_nat m) = (unat a + m) mod 2 ^ 64"
  by (simp add: unat_word_ariths unat_of_nat take_bit_eq_mod mod_simps)

lemma mod_add_inj: "j < M \<Longrightarrow> k < M \<Longrightarrow> (p + j) mod M = (p + k) mod M \<Longrightarrow> j = (k :: nat)"
proof (induction j k rule: linorder_wlog)
  case (le j k)
  then have "M dvd (p + k) - (p + j)" by (metis mod_eq_dvd_iff_nat add_le_cancel_left)
  then have "M dvd k - j" by simp
  with le show ?case by (metis dvd_imp_le diff_is_0_eq gr0I leD le_antisym less_imp_diff_less)
qed auto

lemma digit_mod:
  fixes x :: nat
  assumes "k + 9 \<le> 36"
  shows "x mod 2 ^ 36 div 2 ^ k mod 2 ^ 9 = x div 2 ^ k mod 2 ^ 9"
proof -
  have "take_bit 9 (drop_bit k (take_bit 36 x)) = take_bit 9 (drop_bit k x)"
    using assms by (intro bit_eqI) (auto simp: bit_simps)
  then show ?thesis by (simp only: take_bit_eq_mod drop_bit_eq_div)
qed

lemma digits_mod:
  fixes x :: nat
  shows "x mod 2 ^ 36 mod 512 = x mod 512"
    and "x mod 2 ^ 36 div 512 mod 512 = x div 512 mod 512"
    and "x mod 2 ^ 36 div (512 * 512) mod 512 = x div (512 * 512) mod 512"
    and "x mod 2 ^ 36 div (512 * 512 * 512) mod 512 = x div (512 * 512 * 512) mod 512"
proof -
  have p: "(2 :: nat) ^ 0 = 1" "(2 :: nat) ^ 9 = 512" "(2 :: nat) ^ 18 = 512 * 512" "(2 :: nat) ^ 27 = 512 * 512 * 512" by simp_all
  show "x mod 2 ^ 36 mod 512 = x mod 512"
    and "x mod 2 ^ 36 div 512 mod 512 = x div 512 mod 512"
    and "x mod 2 ^ 36 div (512 * 512) mod 512 = x div (512 * 512) mod 512"
    and "x mod 2 ^ 36 div (512 * 512 * 512) mod 512 = x div (512 * 512 * 512) mod 512"
    using digit_mod [of 0 x] digit_mod [of 9 x] digit_mod [of 18 x] digit_mod [of 27 x]
    by (simp_all only: p div_by_1)
qed
lemma vpath_eq_iff: "vpath a = vpath b \<longleftrightarrow> vpage a = vpage b"
proof -
  let ?p = "\<lambda>a. unat a div 4096"
  have ix: "vidx 12 a = ?p a mod 512" "vidx 21 a = ?p a div 512 mod 512"
    "vidx 30 a = ?p a div (512 * 512) mod 512" "vidx 39 a = ?p a div (512 * 512 * 512) mod 512" for a
    by (simp_all add: vidx_nat div_mult2_eq [symmetric])
  have "vpath a = vpath b \<Longrightarrow> vpage a = vpage b"
    by (simp only: vpath_def vpage_def digits_512 ix prod.inject list.inject)
  moreover have "vpage a = vpage b \<Longrightarrow> vpath a = vpath b"
    by (simp only: vpath_def ix digits_mod [of "?p a", symmetric] digits_mod [of "?p b", symmetric] vpage_def)
  ultimately show ?thesis by blast
qed

lemma vpage_add: "vpage (a + of_nat (k * 4096)) = (vpage a + k) mod 2 ^ 36"
proof -
  let ?x = "unat a + k * 4096"
  have "take_bit 36 (drop_bit 12 (take_bit 64 ?x)) = take_bit 36 (drop_bit 12 ?x)"
    by (rule bit_eqI) (auto simp: bit_simps)
  then have m: "?x mod 2 ^ 64 div 2 ^ 12 mod 2 ^ 36 = ?x div 2 ^ 12 mod 2 ^ 36"
    by (simp only: take_bit_eq_mod drop_bit_eq_div)
  have p: "(4096 :: nat) = 2 ^ 12" by simp
  have "vpage (a + of_nat (k * 4096)) = ?x div 2 ^ 12 mod 2 ^ 36"
    unfolding vpage_def unat_plus_nat by (simp only: p m [unfolded p])
  also have "?x div 2 ^ 12 = unat a div 4096 + k" by simp
  also have "(unat a div 4096 + k) mod 2 ^ 36 = (vpage a + k) mod 2 ^ 36"
    unfolding vpage_def by (rule mod_add_left_eq [symmetric])
  finally show ?thesis .
qed

lemma vpage_run_distinct:
  assumes "j < n" and "k < n" and "n \<le> 2 ^ 36"
    and "vpage (a + of_nat (j * 4096)) = vpage (a + of_nat (k * 4096))"
  shows "j = k"
  using assms by (intro mod_add_inj [of j "2 ^ 36" k "vpage a"]) (simp_all only: vpage_add)

section \<open>Mapping succeeds while pages are left\<close>

lemma pmm_get_one_total:
  assumes "pmm_inv m" and "free_pages m \<noteq> {}"
  shows "\<exists>pa p'. pmm_get m 1 0 = Returns (pa, p')"
proof -
  let ?q = "Min (free_pages m)"
  have q: "?q \<in> free_pages m" using assms(2) by simp
  then have cov: "covers m (Suc ?q)" by (auto simp: covers_def free_pages_def bm_free_def)
  have low: "j \<notin> free_pages m" if "j < ?q" for j
    using that Min_le [OF finite_free_pages, of j m] by (meson leD)
  have "\<exists>m'. pmm_get m 1 0 = Returns (0 + of_nat (?q * 4096), m') \<and> same_shape m m' \<and> pmm_inv m'
    \<and> free_pages m' = free_pages m - {page_of 0 + ?q ..< page_of 0 + ?q + unat (1 :: u64)}
    \<and> unat (free_size m') = unat (free_size m) - unat (1 :: u64) * 4096"
    using q cov low by (intro pmm_get_first_fit_aux [OF assms(1)]) (auto simp: page_of_def)
  then show ?thesis by blast
qed

lemma next_table_total:
  assumes inv: "vm_inv h r" and t: "table_at (ents (kmem h)) r p = Some t" and q: "q = p @ [i]" "valid_path q"
    and n: "Suc n \<le> card (free_pages (kpmm h))"
  shows "\<exists>c h'. next_table h t i = Returns (c, h') \<and> vm_inv h' r \<and> table_at (ents (kmem h')) r q = Some c
     \<and> n \<le> card (free_pages (kpmm h'))"
proof -
  have "\<exists>c h'. next_table h t i = Returns (c, h') \<and> n \<le> card (free_pages (kpmm h'))"
  proof (cases "ent (kmem h) t i AND VMM_FLAG_PRESENT = 0")
    case False
    with n show ?thesis by (simp add: next_table_def)
  next
    case True
    have "free_pages (kpmm h) \<noteq> {}" using n by auto
    with inv obtain pa p' where g: "pmm_get (kpmm h) 1 0 = Returns (pa, p')"
      using pmm_get_one_total [of "kpmm h"] by (auto simp: vm_inv_def)
    have "card (free_pages p') = card (free_pages (kpmm h)) - 1"
      using pmm_get_one [OF inv g] by simp
    with True g n show ?thesis by (simp add: next_table_def Let_def)
  qed
  then obtain c h' where "next_table h t i = Returns (c, h')" "n \<le> card (free_pages (kpmm h'))" by blast
  with next_table_step [OF inv t q this(1)] show ?thesis by blast
qed

lemma map_page_total:
  assumes "vmm_inv v" and "3 \<le> card (free_pages (kpmm (vheap v)))"
  shows "\<exists>v'. map_page v vaddr paddr flags = Returns v'"
proof -
  let ?r = "vPML4 v"
  have vp: "valid_path [vidx 39 vaddr]" "valid_path [vidx 39 vaddr, vidx 30 vaddr]"
    "valid_path [vidx 39 vaddr, vidx 30 vaddr, vidx 21 vaddr]"
    by (simp_all add: valid_path_def vidx_less)
  have "vm_inv (vheap v) ?r" "table_at (ents (kmem (vheap v))) ?r [] = Some ?r"
    "Suc 2 \<le> card (free_pages (kpmm (vheap v)))"
    using assms by (simp_all add: vmm_inv_def)
  from next_table_total [OF this(1,2) _ vp(1) this(3), of "vidx 39 vaddr"] obtain c1 h1 where
    s1: "next_table (vheap v) ?r (vidx 39 vaddr) = Returns (c1, h1)" "vm_inv h1 ?r"
      "table_at (ents (kmem h1)) ?r [vidx 39 vaddr] = Some c1" "Suc 1 \<le> card (free_pages (kpmm h1))" by auto
  from next_table_total [OF s1(2,3) _ vp(2) s1(4), of "vidx 30 vaddr"] obtain c2 h2 where
    s2: "next_table h1 c1 (vidx 30 vaddr) = Returns (c2, h2)" "vm_inv h2 ?r"
      "table_at (ents (kmem h2)) ?r [vidx 39 vaddr, vidx 30 vaddr] = Some c2" "Suc 0 \<le> card (free_pages (kpmm h2))" by auto
  from next_table_total [OF s2(2,3) _ vp(3) s2(4), of "vidx 21 vaddr"] obtain c3 h3 where
    "next_table h2 c2 (vidx 21 vaddr) = Returns (c3, h3)" by auto
  with s1(1) s2(1) show ?thesis by (simp add: map_page_def Let_def)
qed

section \<open>Runs of pages\<close>

definition map_entry :: "u64 \<Rightarrow> u64 \<Rightarrow> u64" where
  "map_entry paddr flags = MAKE_TABLE_ENTRY (paddr AND NOT 0xfff) flags"

lemma map_page_leaf:
  assumes "vmm_inv v" and "map_page v vaddr paddr flags = Returns v'" and "bit flags 0"
  shows "vmm_inv v'" and "vPML4 v' = vPML4 v"
    and "translate v' a = (if vpage a = vpage vaddr then Some (map_entry paddr flags) else translate v a)"
proof -
  note m = map_page_ok [OF assms(1,2), unfolded Let_def map_entry_def [symmetric]]
  have "present (map_entry paddr flags)"
    using assms(3) by (simp add: present_def map_entry_def MAKE_TABLE_ENTRY_def bit_or_iff)
  then have "leaf (ents (kmem (vheap v'))) (vPML4 v) (vpath a)
      = (if vpath a = vpath vaddr then Some (map_entry paddr flags) else leaf (ents (kmem (vheap v))) (vPML4 v) (vpath a))"
    using m full_vpath [of a] by presburger
  moreover show "vmm_inv v'" and r: "vPML4 v' = vPML4 v" using m by blast+
  ultimately show "translate v' a = (if vpage a = vpage vaddr then Some (map_entry paddr flags) else translate v a)"
    unfolding translate_def r vpath_eq_iff [symmetric] by blast
qed

lemma unmap_page_leaf:
  assumes "vmm_inv v"
  shows "\<exists>v'. unmap_page v vaddr = Returns v' \<and> vmm_inv v'
    \<and> (\<forall>a. translate v' a = (if vpage a = vpage vaddr then None else translate v a))"
proof -
  obtain v' where v': "unmap_page v vaddr = Returns v'" "vmm_inv v'" "vPML4 v' = vPML4 v"
    "\<And>x. full_path x \<Longrightarrow> leaf (ents (kmem (vheap v'))) (vPML4 v) x
        = (if x = vpath vaddr then None else leaf (ents (kmem (vheap v))) (vPML4 v) x)"
    using unmap_page_ok [OF assms] by blast
  have "translate v' a = (if vpage a = vpage vaddr then None else translate v a)" for a
    using v'(4) [OF full_vpath, of a] unfolding translate_def v'(3) vpath_eq_iff [symmetric] by blast
  with v'(1,2) show ?thesis by blast
qed

lemma vmm_map_run:
  assumes "bit flags 0"
  shows "vmm_inv v \<Longrightarrow> run_list (vmm_map_body va pa flags) (steps_from i 4096 n) v = Returns c \<Longrightarrow>
   \<exists>v'. c = Inl v' \<and> vmm_inv v'
     \<and> (\<forall>a. (\<forall>k < n. vpage a \<noteq> vpage (va + i + of_nat (k * 4096))) \<longrightarrow> translate v' a = translate v a)
     \<and> (\<forall>k < n. (\<forall>j < n. k < j \<longrightarrow> vpage (va + i + of_nat (j * 4096)) \<noteq> vpage (va + i + of_nat (k * 4096))) \<longrightarrow>
          translate v' (va + i + of_nat (k * 4096)) = Some (map_entry (pa + i + of_nat (k * 4096)) flags))"
proof (induction n arbitrary: i v)
  case 0
  then show ?case by auto
next
  case (Suc n)
  let ?A = "\<lambda>k. va + i + of_nat (k * 4096)"
  have shift: "va + (i + of_nat 4096) + of_nat (k * 4096) = ?A (Suc k)"
    "pa + (i + of_nat 4096) + of_nat (k * 4096) = pa + i + of_nat (Suc k * 4096)" for k
    by simp_all
  from Suc.prems(2) obtain v1 where v1: "map_page v (va + i) (pa + i) flags = Returns v1"
    and rest: "run_list (vmm_map_body va pa flags) (steps_from (i + of_nat 4096) 4096 n) v1 = Returns c"
    by (cases "map_page v (va + i) (pa + i) flags") (auto simp: steps_from_Suc vmm_map_body_def [of _ _ _ i v])
  note p1 = map_page_leaf [OF Suc.prems(1) v1 assms]
  from Suc.IH [OF p1(1) rest, unfolded shift] obtain v' where c: "c = Inl v'" and v': "vmm_inv v'"
    and others: "\<And>a. (\<forall>k < n. vpage a \<noteq> vpage (?A (Suc k))) \<Longrightarrow> translate v' a = translate v1 a"
    and mapped: "\<And>k. k < n \<Longrightarrow> (\<forall>j < n. k < j \<longrightarrow> vpage (?A (Suc j)) \<noteq> vpage (?A (Suc k))) \<Longrightarrow>
       translate v' (?A (Suc k)) = Some (map_entry (pa + i + of_nat (Suc k * 4096)) flags)" by blast
  have "translate v' a = translate v a" if a: "\<forall>k < Suc n. vpage a \<noteq> vpage (?A k)" for a
  proof -
    have "\<forall>k < n. vpage a \<noteq> vpage (?A (Suc k))" using a by (metis Suc_mono)
    moreover have "vpage a \<noteq> vpage (va + i)" using spec [OF a, of 0] by simp
    ultimately show ?thesis using others [of a] p1(3) [of a] by simp
  qed
  moreover have "translate v' (?A k) = Some (map_entry (pa + i + of_nat (k * 4096)) flags)"
    if k: "k < Suc n" "\<forall>j < Suc n. k < j \<longrightarrow> vpage (?A j) \<noteq> vpage (?A k)" for k
  proof (cases k)
    case 0
    have "\<forall>j < n. vpage (?A 0) \<noteq> vpage (?A (Suc j))" using k(2) 0 by (metis Suc_mono zero_less_Suc)
    then show ?thesis using others [of "?A 0"] p1(3) [of "?A 0"] 0 by simp
  next
    case (Suc k')
    have "\<forall>j < n. k' < j \<longrightarrow> vpage (?A (Suc j)) \<noteq> vpage (?A (Suc k'))" using k(2) Suc by (metis Suc_mono)
    then show ?thesis using mapped [of k'] k(1) Suc by simp
  qed
  ultimately show ?case using c v' by blast
qed

section \<open>Properties\<close>

text \<open>An address space with an empty root table in page 1 of the example memory.\<close>

definition demo_vm :: vm where
  "demo_vm = \<lparr>vheap = demo_heap, vPML4 = PHYS_TO_VIRT 0x1000, cr3 = 0x1000, tlb = []\<rparr>"

lemma demo_vm_inv: "vmm_inv demo_vm" and demo_vm_free: "card (free_pages (kpmm (vheap demo_vm))) = 7"
proof -
  have z: "ents (\<lambda>_. 0) = (\<lambda>_ _. 0)"
  proof (intro ext)
    fix t i
    have "load (\<lambda>_. 0) a 8 = replicate 8 0" for a by (rule nth_equalityI) simp_all
    then show "ents (\<lambda>_. 0) t i = 0" by (simp only: ents_def ent_def ld64_def le_word_zeros) simp
  qed
  have at: "table_at (\<lambda>_ _. 0) r q = (if q = [] then Some r else None)" for r q
    by (cases q) (simp_all add: present_def)
  have "tbl_ok demo_heap (PHYS_TO_VIRT 0x1000)"
    using demo_mem_facts by (simp add: tbl_ok_def demo_heap_def covers_def page_of_def)
      (simp add: PHYS_TO_VIRT_def MEM_VIRT_OFFSET_def)
  then show "vmm_inv demo_vm"
    using demo_heap_inv
    by (simp add: vmm_inv_def vm_inv_def demo_vm_def tree_wf_def heap_inv_def)
      (simp add: demo_heap_def z at present_def fits_def demo_mem_def)
  show "card (free_pages (kpmm (vheap demo_vm))) = 7"
    by (simp add: demo_vm_def demo_heap_def demo_mem_facts)
qed

text \<open>
  C3: after \<open>vmm_map\<close>, every page of the run translates to its frame with the flags given, every
  address of another page translates as before, and the tables stay well formed: no table is shared
  between paths and none lies in a free page.
\<close>

theorem vmm_map_translates:
  assumes "vmm_inv v" and "bit flags 0" and "unat np \<le> 2 ^ 36" and "vmm_map v va pa np flags = Returns v'"
  shows "vmm_inv v'
    \<and> (\<forall>k < unat np. translate v' (va + of_nat (k * 4096)) = Some (map_entry (pa + of_nat (k * 4096)) flags))
    \<and> (\<forall>a. (\<forall>k < unat np. vpage a \<noteq> vpage (va + of_nat (k * 4096))) \<longrightarrow> translate v' a = translate v a)"
proof -
  have nw: "no_wrap 0 (unat np)" using assms(3) by (simp add: no_wrap_def)
  have "vmm_map v va pa np flags = obind (run_list (vmm_map_body va pa flags) (steps_from 0 4096 (unat np)) v)
      (\<lambda>c. case c of Inl v' \<Rightarrow> Returns v' | Inr _ \<Rightarrow> Returns v)"
    using for_pages [OF nw, of "vmm_map_body va pa flags" v] by (simp add: vmm_map_def)
  with assms(4) have "\<exists>c. run_list (vmm_map_body va pa flags) (steps_from 0 4096 (unat np)) v = Returns c
      \<and> (case c of Inl v' \<Rightarrow> Returns v' | Inr _ \<Rightarrow> Returns v) = Returns v'"
    by (simp only: obind_eq_Returns)
  then obtain c where run: "run_list (vmm_map_body va pa flags) (steps_from 0 4096 (unat np)) v = Returns c"
    and c: "(case c of Inl v' \<Rightarrow> Returns v' | Inr _ \<Rightarrow> Returns v) = Returns v'" by blast
  from vmm_map_run [OF assms(2,1) run] c have r: "vmm_inv v'"
    "\<forall>a. (\<forall>k < unat np. vpage a \<noteq> vpage (va + of_nat (k * 4096))) \<longrightarrow> translate v' a = translate v a"
    "\<forall>k < unat np. (\<forall>j < unat np. k < j \<longrightarrow> vpage (va + of_nat (j * 4096)) \<noteq> vpage (va + of_nat (k * 4096))) \<longrightarrow>
       translate v' (va + of_nat (k * 4096)) = Some (map_entry (pa + of_nat (k * 4096)) flags)"
    by auto
  have "vpage (va + of_nat (j * 4096)) \<noteq> vpage (va + of_nat (k * 4096))"
    if "j < unat np" "k < unat np" "k < j" for j k
    using vpage_run_distinct [OF that(1,2) assms(3)] that(3) by blast
  with r show ?thesis by blast
qed

lemma vmm_map_translates_witness:
  "\<exists>v'. vmm_map demo_vm 0x400000 0x7000 1 3 = Returns v' \<and> translate v' 0x400000 = Some (map_entry 0x7000 3)"
proof -
  obtain v' where m: "map_page demo_vm 0x400000 0x7000 3 = Returns v'"
    using map_page_total [OF demo_vm_inv] demo_vm_free by fastforce
  then have r: "vmm_map demo_vm 0x400000 0x7000 1 3 = Returns v'"
    by (simp add: vmm_map_def for_u64_unfold vmm_map_body_def PAGE_SIZE_def cong: obind_weak_cong)
  have "bit (3 :: u64) 0" by simp
  from vmm_map_translates [OF demo_vm_inv this _ r] r show ?thesis by auto
qed

text \<open>
  \<open>unmap_page\<close> always returns on well-formed tables, removes the translation of that page and
  of no other, and keeps the tables well formed although it gives emptied tables back to the page
  allocator.
\<close>

theorem unmap_page_removes:
  assumes "vmm_inv v"
  shows "\<exists>v'. unmap_page v vaddr = Returns v' \<and> vmm_inv v'
    \<and> (\<forall>a. translate v' a = (if vpage a = vpage vaddr then None else translate v a))"
  by (rule unmap_page_leaf [OF assms])

lemma unmap_page_removes_witness:
  "\<exists>v'. unmap_page demo_vm 0x400000 = Returns v' \<and> vmm_inv v'
    \<and> (\<forall>a. translate v' a = (if vpage a = vpage 0x400000 then None else translate demo_vm a))"
  by (rule unmap_page_removes [OF demo_vm_inv])

text \<open>
  C16: mapping a page and unmapping it again gives every address its old translation, provided the
  page was not mapped before.
\<close>

theorem map_unmap_roundtrip:
  assumes "vmm_inv v" and "bit flags 0" and "translate v vaddr = None"
    and "3 \<le> card (free_pages (kpmm (vheap v)))"
  shows "\<exists>v1 v2. map_page v vaddr paddr flags = Returns v1 \<and> unmap_page v1 vaddr = Returns v2
    \<and> vmm_inv v2 \<and> translate v2 = translate v"
proof -
  obtain v1 where v1: "map_page v vaddr paddr flags = Returns v1"
    using map_page_total [OF assms(1,4)] by blast
  note m = map_page_leaf [OF assms(1) v1 assms(2)]
  obtain v2 where v2: "unmap_page v1 vaddr = Returns v2" "vmm_inv v2"
    "\<And>a. translate v2 a = (if vpage a = vpage vaddr then None else translate v1 a)"
    using unmap_page_leaf [OF m(1)] by blast
  have same: "vpage a = vpage vaddr \<Longrightarrow> translate v a = None" for a
    using assms(3) unfolding translate_def vpath_eq_iff [symmetric] by simp
  have "translate v2 a = translate v a" for a
    using v2(3) [of a] m(3) [of a] same [of a] by simp
  then have "translate v2 = translate v" by (rule ext)
  with v1 v2(1,2) show ?thesis by blast
qed

lemma map_unmap_roundtrip_witness:
  "\<exists>v1 v2. map_page demo_vm 0x400000 0x7000 3 = Returns v1 \<and> unmap_page v1 0x400000 = Returns v2
    \<and> vmm_inv v2 \<and> translate v2 = translate demo_vm"
proof (rule map_unmap_roundtrip [OF demo_vm_inv])
  have "load (\<lambda>_. 0) a 8 = replicate 8 0" for a by (rule nth_equalityI) simp_all
  then have "ld64 (\<lambda>_. 0) a = 0" for a by (simp only: ld64_def le_word_zeros)
  then show "translate demo_vm 0x400000 = None"
    by (simp add: translate_def demo_vm_def demo_heap_def leaf_def vpath_def ents_def ent_def present_def)
qed (simp_all add: demo_vm_free)

end
