(* ===== verification/Vector.thy ===== *)
theory Vector
  imports Kmalloc Fifo
begin

text \<open>
  The growable arrays of \<open>lib/vector.h\<close> with 8-byte elements (every vector of the kernel holds
  pointers), on the kernel heap: the macros as functions of the heap and the vector's header, and
  the list a vector stands for.
\<close>

record vec =
  vlen :: u64
  vcap :: u64
  vdata :: u64

section \<open>The macros\<close>

definition VECTOR_RESIZE_FACTOR :: u64 where "VECTOR_RESIZE_FACTOR = 4"

definition vec_new :: vec where "vec_new = \<lparr>vlen = 0, vcap = 0, vdata = 0\<rparr>"

definition vec_grow :: "heap \<Rightarrow> vec \<Rightarrow> (vec \<times> heap) outcome" where
  "vec_grow h v =
     (if vcap v < vlen v * 8
      then let cap = vlen v * 8 * VECTOR_RESIZE_FACTOR
           in obind (kmrealloc h (vdata v) cap) (\<lambda>(d, h'). Returns (v\<lparr>vcap := cap, vdata := d\<rparr>, h'))
      else Returns (v, h))"

definition vec_push_back :: "heap \<Rightarrow> vec \<Rightarrow> u64 \<Rightarrow> (vec \<times> heap) outcome" where
  "vec_push_back h v elem =
     obind (vec_grow h (v\<lparr>vlen := vlen v + 1\<rparr>)) (\<lambda>(v', h').
       Returns (v', h'\<lparr>kmem := st64 (kmem h') (vdata v' + (vlen v' - 1) * 8) elem\<rparr>))"

definition vec_length :: "vec \<Rightarrow> u64" where "vec_length v = vlen v"

definition vec_at :: "heap \<Rightarrow> vec \<Rightarrow> u64 \<Rightarrow> u64" where
  "vec_at h v index = ld64 (kmem h) (vdata v + index * 8)"

text \<open>The byte count is \<open>sizeof(...) * len - index - 1\<close>, as written.\<close>

definition vec_erase :: "heap \<Rightarrow> vec \<Rightarrow> u64 \<Rightarrow> vec \<times> heap" where
  "vec_erase h v index =
     (v\<lparr>vlen := vlen v - 1\<rparr>,
      h\<lparr>kmem := memcpy (kmem h) (vdata v + index * 8) (vdata v + (index + 1) * 8) (8 * vlen v - index - 1)\<rparr>)"

definition erase_val_body :: "u64 \<Rightarrow> u64 \<Rightarrow> heap \<times> vec \<Rightarrow> (heap \<times> vec + heap \<times> vec) outcome" where
  "erase_val_body val i = (\<lambda>(h, v).
     Returns (if vec_at h v i = val then let (v', h') = vec_erase h v i in Inr (h', v') else Inl (h, v)))"

definition vec_erase_val :: "heap \<Rightarrow> vec \<Rightarrow> u64 \<Rightarrow> (heap \<times> vec) outcome" where
  "vec_erase_val h v val =
     omap (\<lambda>c. case c of Inl s \<Rightarrow> s | Inr s \<Rightarrow> s) (for_u64 0 (vlen v) 1 (erase_val_body val) (h, v))"

section \<open>The list of a vector\<close>

definition vec_list :: "heap \<Rightarrow> vec \<Rightarrow> u64 list" where
  "vec_list h v = map (\<lambda>i. ld64 (kmem h) (vdata v + of_nat (i * 8))) [0..<unat (vlen v)]"

definition vec_inv :: "heap \<Rightarrow> (u64 \<rightharpoonup> u64) \<Rightarrow> vec \<Rightarrow> bool" where
  "vec_inv h B v \<longleftrightarrow> heap_inv h B \<and> unat (vlen v) * 8 \<le> unat (vcap v)
     \<and> (if vdata v = 0 then vcap v = 0 else B (vdata v) = Some (vcap v))"

lemma live_nonzero:
  assumes "heap_inv h B" and "B a = Some sz" and "0 < unat sz"
  shows "a \<noteq> 0"
proof
  assume a: "a = 0"
  have ok: "blk_ok h a sz" using assms by (simp add: heap_inv_def)
  have "unat sz + 4096 \<le> blk_pages sz * 4096"
    using ok by (intro size_le_pages) (simp add: blk_ok_def)
  then have "2 \<le> blk_pages sz" using assms(3) by linarith
  moreover have "unat (blk_phys a) + blk_pages sz * 4096 \<le> 2 ^ 47" by (rule blk_bound [OF assms(1) ok])
  moreover have "unat (blk_phys 0) = 2 ^ 47 - 4096"
    by (simp add: blk_phys_def VIRT_TO_PHYS_def PAGE_SIZE_def MEM_VIRT_OFFSET_def)
  ultimately show False using a by simp
qed

lemma elem_in_blk:
  assumes "unat cap + 4095 < 2 ^ 64" and "i * 8 + 8 \<le> unat cap"
  shows "addrs (d + of_nat (i * 8)) 8 \<subseteq> blk_addrs d cap"
  using addrs_within [of "i * 8" 8 "unat cap" d] data_in_blk [OF assms(1) order_refl, of d] assms(2) by blast

lemma elems_apart:
  assumes "i < n" and "j < n" and "i \<noteq> j" and "n * 8 < 2 ^ 64"
  shows "addrs (d + of_nat (i * 8)) 8 \<inter> addrs (d + of_nat (j * 8)) 8 = {}"
proof -
  have "(d :: u64) + of_nat (i * 8) + of_nat x \<noteq> d + of_nat (j * 8) + of_nat y" if "x < 8" "y < 8" for x y
  proof
    assume "d + of_nat (i * 8) + of_nat x = d + of_nat (j * 8) + of_nat y"
    then have "(of_nat (i * 8 + x) :: u64) = of_nat (j * 8 + y)" by (simp add: add.assoc)
    moreover have "i * 8 + x < 2 ^ 64" "j * 8 + y < 2 ^ 64" using assms that by linarith+
    ultimately have "i * 8 + x = j * 8 + y" by (simp only: of_nat_inj_u64)
    with assms(3) that show False by presburger
  qed
  then show ?thesis by (auto simp: addrs_def)
qed

lemma agree_ld64: "agree_on A m m' \<Longrightarrow> addrs a 8 \<subseteq> A \<Longrightarrow> ld64 m' a = ld64 m a"
  by (simp add: ld64_def agree_load)

text \<open>Storing into the data of a live block keeps the heap invariant and every other block.\<close>

lemma store_in_block:
  assumes inv: "heap_inv h B" and live: "B d = Some cap"
    and same: "\<And>x. x \<notin> addrs d (unat cap) \<Longrightarrow> m' x = kmem h x"
  shows "heap_inv (h\<lparr>kmem := m'\<rparr>) B"
    and "\<And>b sb. B b = Some sb \<Longrightarrow> b \<noteq> d \<Longrightarrow> agree_on (blk_addrs b sb) (kmem h) m'"
proof -
  have cap: "unat cap + 4095 < 2 ^ 64" by (rule live_sizes(2) [OF inv live])
  have sub: "addrs d (unat cap) \<subseteq> blk_addrs d cap" by (rule data_in_blk [OF cap order_refl])
  show agree: "agree_on (blk_addrs b sb) (kmem h) m'" if b: "B b = Some sb" "b \<noteq> d" for b sb
    using blks_disjoint [OF inv live b(1)] b(2) sub same by (auto simp: agree_on_def)
  show "heap_inv (h\<lparr>kmem := m'\<rparr>) B"
  proof (rule heap_inv_mem [OF inv])
    fix a sz assume a: "B a = Some sz"
    show "agree_on (addrs (a - PAGE_SIZE) 16) (kmem h) m'"
    proof (cases "a = d")
      case True
      have "unat cap + 4096 \<le> 2 ^ 64" using cap by simp
      from meta_data_apart [OF this, of d] True same show ?thesis by (auto simp: agree_on_def)
    next
      case False
      with agree [OF a] meta_in_blk [of a sz] show ?thesis by (auto simp: agree_on_def)
    qed
  qed
qed

text \<open>The blocks of other owners: still live, with the same bytes.\<close>

definition others_kept :: "(u64 \<rightharpoonup> u64) \<Rightarrow> (u64 \<rightharpoonup> u64) \<Rightarrow> u64 \<Rightarrow> memory \<Rightarrow> memory \<Rightarrow> bool" where
  "others_kept B B' d m m' \<longleftrightarrow> (\<forall>b sb. B b = Some sb \<longrightarrow> b \<noteq> d \<longrightarrow> B' b = Some sb \<and> agree_on (blk_addrs b sb) m m')"

lemma elems_of_load:
  assumes "load m' a' n = load m a n" and "i * 8 + 8 \<le> n"
  shows "ld64 m' (a' + of_nat (i * 8)) = ld64 m (a + of_nat (i * 8))"
proof -
  have "load m' (a' + of_nat (i * 8)) 8 = load m (a + of_nat (i * 8)) 8"
  proof (rule nth_equalityI)
    fix k assume "k < length (load m' (a' + of_nat (i * 8)) 8)"
    then have k: "k < 8" by simp
    then have "load m' a' n ! (i * 8 + k) = load m a n ! (i * 8 + k)" using assms(1) by simp
    with k assms(2) show "load m' (a' + of_nat (i * 8)) 8 ! k = load m (a + of_nat (i * 8)) 8 ! k"
      by (simp add: add.assoc)
  qed simp
  then show ?thesis by (simp only: ld64_def)
qed

lemma unat_small: "n < 2 ^ 64 \<Longrightarrow> unat (of_nat n :: u64) = n"
  by (simp add: unat_of_nat take_bit_nat_eq_self)

lemma kmrealloc_vec:
  assumes inv: "vec_inv h B v" and req: "request_ok h cap" and c: "vcap v \<le> cap"
    and ret: "kmrealloc h (vdata v) cap = Returns (d, h')"
  shows "\<exists>B'. heap_inv h' B' \<and> B' d = Some cap \<and> others_kept B B' (vdata v) (kmem h) (kmem h')
     \<and> (d = vdata v \<or> B d = None)
     \<and> (vdata v \<noteq> 0 \<longrightarrow> load (kmem h') d (unat (vcap v)) = load (kmem h) (vdata v) (unat (vcap v)))"
proof (cases "vdata v = 0")
  case True
  with ret have al: "kmalloc h cap = Returns (d, h')" by (simp add: kmrealloc_def)
  have hinv: "heap_inv h B" using inv by (simp add: vec_inv_def)
  note k = kmalloc_ok [OF hinv req al]
  have "others_kept B (B(d \<mapsto> cap)) (vdata v) (kmem h) (kmem h')"
    unfolding others_kept_def
  proof (intro allI impI)
    fix b sb assume b: "B b = Some sb"
    then have "b \<noteq> d" using k by auto
    with k b show "(B(d \<mapsto> cap)) b = Some sb \<and> agree_on (blk_addrs b sb) (kmem h) (kmem h')" by simp
  qed
  with k True show ?thesis by (intro exI [of _ "B(d \<mapsto> cap)"]) auto
next
  case False
  have hinv: "heap_inv h B" and live: "B (vdata v) = Some (vcap v)"
    using inv False by (simp_all add: vec_inv_def)
  have um: "umin (vcap v) cap = vcap v" using c by (auto simp: umin_def)
  let ?B = "(B(vdata v := None))(d \<mapsto> cap)"
  have k: "heap_inv h' ?B" "d = vdata v \<or> B d = None"
    "load (kmem h') d (unat (vcap v)) = load (kmem h) (vdata v) (unat (vcap v))"
    "\<And>b sb. B b = Some sb \<Longrightarrow> b \<noteq> vdata v \<Longrightarrow> agree_on (blk_addrs b sb) (kmem h) (kmem h')"
    using kmrealloc_ok [OF hinv live False req ret, unfolded um] by (simp_all del: fun_upd_apply)
  have "others_kept B ?B (vdata v) (kmem h) (kmem h')"
    unfolding others_kept_def
  proof (intro allI impI)
    fix b sb assume b: "B b = Some sb" "b \<noteq> vdata v"
    then have "b \<noteq> d" using k(2) by auto
    with k(4) [OF b] b show "?B b = Some sb \<and> agree_on (blk_addrs b sb) (kmem h) (kmem h')" by simp
  qed
  with k(1-3) show ?thesis by (intro exI [of _ ?B]) simp
qed

definition push_ok :: "heap \<Rightarrow> vec \<Rightarrow> bool" where
  "push_ok h v \<longleftrightarrow> (unat (vlen v) + 1) * 32 + 4095 < 2 ^ 64 \<and> request_ok h (of_nat ((unat (vlen v) + 1) * 32))"

lemma vec_grow_eq:
  "vcap v < (vlen v + 1) * 8 \<Longrightarrow> (vlen v + 1) * 8 * VECTOR_RESIZE_FACTOR = c \<Longrightarrow>
   vec_grow h (v\<lparr>vlen := vlen v + 1\<rparr>) = obind (kmrealloc h (vdata v) c)
     (\<lambda>(d, h'). Returns (v\<lparr>vlen := vlen v + 1, vcap := c, vdata := d\<rparr>, h'))"
  by (auto simp: vec_grow_def Let_def)

lemma vec_grow_ok:
  assumes inv: "vec_inv h B v" and ok: "push_ok h v"
    and ret: "vec_grow h (v\<lparr>vlen := vlen v + 1\<rparr>) = Returns (v', h')"
  shows "\<exists>B'. vec_inv h' B' v' \<and> vlen v' = vlen v + 1 \<and> B' (vdata v') = Some (vcap v')
     \<and> (vdata v' = vdata v \<or> B (vdata v') = None)
     \<and> (\<forall>i < unat (vlen v). ld64 (kmem h') (vdata v' + of_nat (i * 8)) = ld64 (kmem h) (vdata v + of_nat (i * 8)))
     \<and> others_kept B B' (vdata v) (kmem h) (kmem h')"
proof -
  let ?n = "unat (vlen v)"
  have n: "(?n + 1) * 32 < 2 ^ 64" using ok by (simp add: push_ok_def)
  have len: "unat (vlen v + 1) = ?n + 1"
    using unat_add_of_nat [of "vlen v" 1] n by simp
  have e8: "(vlen v + 1) * 8 = of_nat ((?n + 1) * 8)"
    and cap: "(vlen v + 1) * 8 * VECTOR_RESIZE_FACTOR = of_nat ((?n + 1) * 32)"
    by (simp_all add: VECTOR_RESIZE_FACTOR_def)
  have "(?n + 1) * 8 < 2 ^ 64" using n by linarith
  then have need: "unat ((vlen v + 1) * 8) = (?n + 1) * 8" unfolding e8 by (rule unat_small)
  have ucap: "unat (of_nat ((?n + 1) * 32) :: u64) = (?n + 1) * 32" by (rule unat_small [OF n])
  have inside: "?n * 8 \<le> unat (vcap v)" using inv by (simp add: vec_inv_def)
  show ?thesis
  proof (cases "vcap v < (vlen v + 1) * 8")
    case False
    then have big: "(?n + 1) * 8 \<le> unat (vcap v)" using need by (simp add: word_less_nat_alt)
    from ret False have r: "v' = v\<lparr>vlen := vlen v + 1\<rparr>" "h' = h" by (auto simp: vec_grow_def)
    have "vdata v \<noteq> 0" using inv big by (auto simp: vec_inv_def)
    with inv big len r show ?thesis
      by (intro exI [of _ B]) (simp add: vec_inv_def others_kept_def agree_on_def)
  next
    case True
    let ?cap = "of_nat ((?n + 1) * 32) :: u64"
    have "vec_grow h (v\<lparr>vlen := vlen v + 1\<rparr>) = obind (kmrealloc h (vdata v) ?cap)
        (\<lambda>(d, h'). Returns (v\<lparr>vlen := vlen v + 1, vcap := ?cap, vdata := d\<rparr>, h'))"
      by (rule vec_grow_eq [OF True cap])
    with ret obtain d where re: "kmrealloc h (vdata v) ?cap = Returns (d, h')"
      and v': "v' = v\<lparr>vlen := vlen v + 1, vcap := ?cap, vdata := d\<rparr>"
      by (cases "kmrealloc h (vdata v) ?cap") (auto simp del: of_nat_mult of_nat_add)
    have "unat (vcap v) < (?n + 1) * 8" using True need by (simp add: word_less_nat_alt)
    then have "vcap v \<le> ?cap" using ucap by (simp add: word_le_nat_alt)
    from kmrealloc_vec [OF inv _ this re] ok obtain B' where B': "heap_inv h' B'" "B' d = Some ?cap"
      "others_kept B B' (vdata v) (kmem h) (kmem h')" "d = vdata v \<or> B d = None"
      "vdata v \<noteq> 0 \<Longrightarrow> load (kmem h') d (unat (vcap v)) = load (kmem h) (vdata v) (unat (vcap v))"
      by (auto simp: push_ok_def)
    have "0 < unat ?cap" unfolding ucap by simp
    then have d0: "d \<noteq> 0" by (rule live_nonzero [OF B'(1,2)])
    have old: "ld64 (kmem h') (d + of_nat (i * 8)) = ld64 (kmem h) (vdata v + of_nat (i * 8))" if i: "i < ?n" for i
    proof (rule elems_of_load)
      show "i * 8 + 8 \<le> unat (vcap v)" using i inside by linarith
      then have "vdata v \<noteq> 0" using inv by (auto simp: vec_inv_def)
      then show "load (kmem h') d (unat (vcap v)) = load (kmem h) (vdata v) (unat (vcap v))" by (rule B'(5))
    qed
    have "vec_inv h' B' v'"
      using B'(1,2) d0 ucap len by (simp add: vec_inv_def v')
    with B'(2-4) old show ?thesis by (intro exI [of _ B']) (simp add: v')
  qed
qed

lemma vec_push_back_ok:
  assumes inv: "vec_inv h B v" and ok: "push_ok h v" and ret: "vec_push_back h v e = Returns (v', h')"
  shows "\<exists>B'. vec_inv h' B' v' \<and> vec_list h' v' = vec_list h v @ [e] \<and> others_kept B B' (vdata v) (kmem h) (kmem h')"
proof -
  let ?n = "unat (vlen v)"
  from ret obtain h1 where g: "vec_grow h (v\<lparr>vlen := vlen v + 1\<rparr>) = Returns (v', h1)"
    and h': "h' = h1\<lparr>kmem := st64 (kmem h1) (vdata v' + (vlen v' - 1) * 8) e\<rparr>"
    by (auto simp: vec_push_back_def obind_eq_Returns)
  from vec_grow_ok [OF inv ok g] obtain B' where B': "vec_inv h1 B' v'" "vlen v' = vlen v + 1"
    "B' (vdata v') = Some (vcap v')" "vdata v' = vdata v \<or> B (vdata v') = None"
    "\<And>i. i < ?n \<Longrightarrow> ld64 (kmem h1) (vdata v' + of_nat (i * 8)) = ld64 (kmem h) (vdata v + of_nat (i * 8))"
    "others_kept B B' (vdata v) (kmem h) (kmem h1)" by blast
  have n: "(?n + 1) * 32 < 2 ^ 64" using ok by (simp add: push_ok_def)
  have len: "unat (vlen v') = ?n + 1" using unat_add_of_nat [of "vlen v" 1] n B'(2) by simp
  let ?a = "vdata v' + of_nat (?n * 8)"
  have a: "vdata v' + (vlen v' - 1) * 8 = ?a" by (simp add: B'(2))
  let ?m = "st64 (kmem h1) ?a e"
  have room: "(?n + 1) * 8 \<le> unat (vcap v')" using B'(1) len by (simp add: vec_inv_def)
  have hinv: "heap_inv h1 B'" using B'(1) by (simp add: vec_inv_def)
  have "addrs ?a 8 \<subseteq> addrs (vdata v') (unat (vcap v'))"
    using room by (intro addrs_within) simp
  then have same: "?m x = kmem h1 x" if "x \<notin> addrs (vdata v') (unat (vcap v'))" for x
    using that by (intro st64_other) blast
  note sb = store_in_block [OF hinv B'(3) same]
  have "ld64 ?m (vdata v' + of_nat (i * 8)) = (if i = ?n then e else ld64 (kmem h) (vdata v + of_nat (i * 8)))"
    if i: "i < ?n + 1" for i
  proof (cases "i = ?n")
    case True
    then show ?thesis by (simp del: of_nat_mult)
  next
    case False
    then have "ld64 ?m (vdata v' + of_nat (i * 8)) = ld64 (kmem h1) (vdata v' + of_nat (i * 8))"
      using i n by (intro ld64_st64_other elems_apart [of i "?n + 1"]) auto
    with False i B'(5) show ?thesis by (simp del: of_nat_mult)
  qed
  then have list: "vec_list (h1\<lparr>kmem := ?m\<rparr>) v' = vec_list h v @ [e]"
    unfolding vec_list_def len by (simp del: of_nat_mult)
  have inv': "vec_inv (h1\<lparr>kmem := ?m\<rparr>) B' v'" using B'(1) sb(1) by (simp add: vec_inv_def)
  have oth: "others_kept B B' (vdata v) (kmem h) ?m"
  proof -
    have "agree_on (blk_addrs b sb) (kmem h1) ?m" if b: "B b = Some sb" "b \<noteq> vdata v" for b sb
    proof -
      have "b \<noteq> vdata v'" using b B'(4) by auto
      with B'(6) b sb(2) show ?thesis by (auto simp: others_kept_def)
    qed
    with B'(6) show ?thesis by (auto simp: others_kept_def agree_on_def)
  qed
  show ?thesis using inv' list oth unfolding h' a by (intro exI [of _ B']) simp
qed

section \<open>Erasing\<close>

lemma erase_front_copy:
  assumes "0 < unat (vlen v)" and "unat (vlen v) * 8 + 4095 < 2 ^ 64"
  shows "load (memcpy m d (d + 8) (8 * vlen v - 1)) d (unat (vlen v) * 8 - 1) = load m (d + 8) (unat (vlen v) * 8 - 1)"
    and "\<And>x. x \<notin> addrs d (unat (vlen v) * 8) \<Longrightarrow> memcpy m d (d + 8) (8 * vlen v - 1) x = m x"
proof -
  let ?k = "unat (vlen v) * 8 - 1"
  have "8 * vlen v - 1 = of_nat (unat (vlen v) * 8) - of_nat 1" by simp
  also have "\<dots> = of_nat ?k" using assms(1) by (intro of_nat_diff [symmetric]) simp
  finally have len: "unat (8 * vlen v - 1) = ?k" using assms(2) by (simp only: unat_small)
  have "copy_safe d (d + 8) ?k"
  proof -
    have "d - (d + 8) \<noteq> of_nat k" if "k \<in> {0<..<?k}" for k
    proof
      assume "d - (d + 8) = of_nat k"
      then have "(of_nat (k + 8) :: u64) = of_nat 0" by (simp add: algebra_simps)
      moreover have "k + 8 < 2 ^ 64" using that assms(2) by (auto simp: less_diff_conv)
      ultimately show False by (simp only: of_nat_inj_u64)
    qed
    then show ?thesis using assms(2) by (auto simp: copy_safe_def)
  qed
  then show "load (memcpy m d (d + 8) (8 * vlen v - 1)) d ?k = load m (d + 8) ?k"
    using memcpy_load [of d "d + 8" "8 * vlen v - 1" m] by (simp only: len)
  fix x assume "x \<notin> addrs d (unat (vlen v) * 8)"
  then have "x \<notin> addrs d ?k" using addrs_mono [of ?k "unat (vlen v) * 8" d] by auto
  then show "memcpy m d (d + 8) (8 * vlen v - 1) x = m x" by (intro memcpy_other) (simp add: len)
qed

lemma unat_dec: "0 < unat (w :: u64) \<Longrightarrow> unat (w - 1) = unat w - 1"
proof -
  assume "0 < unat w"
  then have "1 \<le> w" by (simp add: word_le_nat_alt Suc_leI)
  then show ?thesis by (simp add: unat_sub)
qed

lemma vec_inv_bound:
  assumes "vec_inv h B v" and "0 < unat (vlen v)"
  shows "B (vdata v) = Some (vcap v)" and "unat (vlen v) * 8 + 4095 < 2 ^ 64"
proof -
  have "vcap v \<noteq> 0" using assms by (auto simp: vec_inv_def)
  then show l: "B (vdata v) = Some (vcap v)" using assms(1) by (auto simp: vec_inv_def split: if_splits)
  have "heap_inv h B" using assms(1) by (simp add: vec_inv_def)
  then have "unat (vcap v) + 4095 < 2 ^ 64" using l by (rule live_sizes(2))
  then show "unat (vlen v) * 8 + 4095 < 2 ^ 64" using assms(1) by (simp add: vec_inv_def)
qed

lemma vec_erase_front:
  assumes inv: "vec_inv h B v" and ne: "0 < unat (vlen v)" and r: "vec_erase h v 0 = (v', h')"
  shows "vec_inv h' B v' \<and> vec_list h v = vec_at h v 0 # vec_list h' v'
    \<and> others_kept B B (vdata v) (kmem h) (kmem h')"
proof -
  let ?d = "vdata v" let ?n = "unat (vlen v)"
  let ?m = "memcpy (kmem h) ?d (?d + 8) (8 * vlen v - 1)"
  have v': "v' = v\<lparr>vlen := vlen v - 1\<rparr>" and h': "h' = h\<lparr>kmem := ?m\<rparr>"
    using r by (auto simp: vec_erase_def)
  have hinv: "heap_inv h B" and len: "?n * 8 \<le> unat (vcap v)" using inv by (simp_all add: vec_inv_def)
  note live = vec_inv_bound [OF inv ne]
  note cp = erase_front_copy [OF ne live(2), where m = "kmem h" and d = ?d]
  have same: "?m x = kmem h x" if "x \<notin> addrs ?d (unat (vcap v))" for x
    using that addrs_mono [OF len, of ?d] by (intro cp(2)) blast
  note sb = store_in_block [OF hinv live(1) same]
  have n': "unat (vlen v') = ?n - 1" by (simp add: v' unat_dec [OF ne])
  have "ld64 ?m (?d + of_nat (i * 8)) = ld64 (kmem h) (?d + of_nat (Suc i * 8))" if i: "i < ?n - 1" for i
  proof -
    have "ld64 ?m (?d + of_nat (i * 8)) = ld64 (kmem h) (?d + 8 + of_nat (i * 8))"
      using i by (intro elems_of_load [OF cp(1)]) linarith
    then show ?thesis by (simp add: algebra_simps)
  qed
  then have "vec_list h' v' = map (\<lambda>i. ld64 (kmem h) (?d + of_nat (Suc i * 8))) [0..<?n - 1]"
    unfolding vec_list_def n' by (simp add: h' v' del: of_nat_mult of_nat_Suc)
  moreover have "vec_list h v = ld64 (kmem h) (?d + of_nat (0 * 8)) # map (\<lambda>i. ld64 (kmem h) (?d + of_nat (Suc i * 8))) [0..<?n - 1]"
  proof -
    have "[0..<?n] = 0 # map Suc [0..<?n - 1]" using ne by (simp add: map_Suc_upt upt_conv_Cons)
    then show ?thesis by (simp add: vec_list_def del: of_nat_mult of_nat_Suc)
  qed
  moreover have "vec_inv h' B v'"
    using inv sb(1) n' len by (auto simp: vec_inv_def h' v')
  moreover have "others_kept B B ?d (kmem h) (kmem h')"
    using sb(2) by (simp add: others_kept_def h')
  ultimately show ?thesis by (simp add: vec_at_def)
qed

section \<open>The vector as a queue\<close>

text \<open>The two uses the scheduler makes of \<open>tasks_active\<close>: push at the end, take the front off.\<close>

definition vec_enq :: "heap \<times> vec \<Rightarrow> u64 \<Rightarrow> (heap \<times> vec) outcome" where
  "vec_enq = (\<lambda>(h, v) e. omap (\<lambda>(v', h'). (h', v')) (vec_push_back h v e))"

definition vec_deq :: "heap \<times> vec \<Rightarrow> (u64 option \<times> (heap \<times> vec)) outcome" where
  "vec_deq = (\<lambda>(h, v). if vec_length v > 0
     then let x = vec_at h v 0; (v', h') = vec_erase h v 0 in Returns (Some x, (h', v'))
     else Returns (None, (h, v)))"

definition vq_inv :: "heap \<times> vec \<Rightarrow> bool" where "vq_inv = (\<lambda>(h, v). \<exists>B. vec_inv h B v)"
definition vq_list :: "heap \<times> vec \<Rightarrow> u64 list" where "vq_list = (\<lambda>(h, v). vec_list h v)"
definition vq_room :: "heap \<times> vec \<Rightarrow> bool" where "vq_room = (\<lambda>(h, v). push_ok h v)"

lemma vec_list_Nil: "vec_list h v = [] \<longleftrightarrow> vlen v = 0"
  by (simp add: vec_list_def unat_eq_0)

interpretation vecq: fifo vec_enq vec_deq vq_inv vq_list vq_room
proof unfold_locales
  fix s x s' assume "vq_inv s" "vq_room s" "vec_enq s x = Returns s'"
  then show "vq_inv s' \<and> vq_list s' = vq_list s @ [x]"
    using vec_push_back_ok by (fastforce simp: vq_inv_def vq_room_def vq_list_def vec_enq_def omap_eq_Returns)
next
  fix s assume "vq_inv s" "vq_list s = []"
  then show "vec_deq s = Returns (None, s)"
    by (cases s) (auto simp: vq_list_def vec_deq_def vec_list_Nil vec_length_def)
next
  fix s x xs assume a: "vq_inv s" "vq_list s = x # xs"
  obtain h v B where s: "s = (h, v)" and inv: "vec_inv h B v" using a(1) by (auto simp: vq_inv_def)
  have "vlen v \<noteq> 0" using a(2) vec_list_Nil [of h v] by (auto simp: s vq_list_def)
  then have pos: "0 < vlen v" "0 < unat (vlen v)" by (simp_all add: word_gt_0 unat_gt_0)
  obtain v' h' where e: "vec_erase h v 0 = (v', h')" by (cases "vec_erase h v 0")
  from vec_erase_front [OF inv pos(2) e] a(2) show "\<exists>s'. vec_deq s = Returns (Some x, s') \<and> vq_inv s' \<and> vq_list s' = xs"
    using pos(1) e by (auto simp: s vq_list_def vec_deq_def vec_length_def Let_def vq_inv_def)
qed

section \<open>Properties\<close>

definition demo_B :: "u64 \<rightharpoonup> u64" where "demo_B = [0xffff800000005000 \<mapsto> 5000]"

definition demo_vec :: vec where
  "demo_vec = \<lparr>vlen = 625, vcap = 5000, vdata = 0xffff800000005000\<rparr>"

lemma demo_vec_inv: "vec_inv demo_heap1 demo_B demo_vec"
  using demo_heap1_inv by (simp add: vec_inv_def demo_vec_def demo_B_def)

text \<open>
  \<open>vec_push_back\<close> appends to the list the vector stands for, across reallocations, keeps the
  heap invariant, and changes no byte of a block the vector does not own.
\<close>

theorem vec_push_back_appends:
  assumes "vec_inv h B v" and "push_ok h v" and "vec_push_back h v e = Returns (v', h')"
  shows "\<exists>B'. vec_inv h' B' v' \<and> vec_list h' v' = vec_list h v @ [e]
     \<and> others_kept B B' (vdata v) (kmem h) (kmem h')"
  by (rule vec_push_back_ok [OF assms])

lemma demo_push: "\<exists>v' h'. vec_push_back demo_heap vec_new 7 = Returns (v', h')"
proof -
  have "pmm_get demo_mem 2 0 = Returns (0x4000, demo_mem\<lparr>free_size := 20480, bitmap := [0xC0, 0x13]\<rparr>)"
    by (simp add: pmm_run cong: obind_weak_cong)
  then show ?thesis
    by (simp add: vec_push_back_def vec_grow_def vec_new_def VECTOR_RESIZE_FACTOR_def kmrealloc_def kmalloc_def
        demo_heap_def NUM_PAGES_def PAGE_SIZE_def Let_def)
qed

lemma vec_push_back_appends_witness:
  "\<exists>v' h' B'. vec_push_back demo_heap vec_new 7 = Returns (v', h') \<and> vec_inv h' B' v' \<and> vec_list h' v' = [7]"
proof -
  obtain v' h' where r: "vec_push_back demo_heap vec_new 7 = Returns (v', h')" using demo_push by blast
  have "vec_inv demo_heap Map.empty vec_new" using demo_heap_inv by (simp add: vec_inv_def vec_new_def)
  moreover have "push_ok demo_heap vec_new"
    by (simp add: push_ok_def vec_new_def request_ok_def fits_def demo_heap_def demo_mem_def NUM_PAGES_def PAGE_SIZE_def)
  moreover have "vec_list demo_heap vec_new = []" by (simp add: vec_list_Nil vec_new_def)
  ultimately show ?thesis using vec_push_back_appends [OF _ _ r] r by fastforce
qed

text \<open>
  taking elements off the front yields the elements of the vector in order, each exactly once,
  and leaves an empty vector on a heap that still satisfies its invariant.
\<close>

theorem vec_drains_in_order:
  assumes "vec_inv h B v"
  shows "\<exists>h' v'. deqs vec_deq (length (vec_list h v)) (h, v) = Returns (vec_list h v, (h', v'))
    \<and> vec_list h' v' = [] \<and> (\<exists>B'. vec_inv h' B' v')"
  using vecq.drain [of "(h, v)"] assms by (auto simp: vq_inv_def vq_list_def)

lemma vec_drains_in_order_witness:
  "\<exists>h' v'. deqs vec_deq (length (vec_list demo_heap1 demo_vec)) (demo_heap1, demo_vec)
      = Returns (vec_list demo_heap1 demo_vec, (h', v')) \<and> vec_list h' v' = [] \<and> (\<exists>B'. vec_inv h' B' v')"
  by (rule vec_drains_in_order [OF demo_vec_inv])

text \<open>
  \<open>vec_erase\<close> at an index \<open>i > 0\<close> copies \<open>8 * len - i - 1\<close> bytes where
  \<open>8 * (len - i - 1)\<close> were meant: the \<open>7 * i - 1\<close> bytes after the last element are overwritten.
  When the vector is full they are outside its block.
\<close>

theorem vec_erase_overruns:
  assumes "vec_inv h B v" and "i < vlen v" and "0 < i" and "j < 7 * unat i - 1"
    and "vec_erase h v i = (v', h')" and "unat (vlen v) * 8 + 7 * unat i < 2 ^ 64"
  shows "kmem h' (vdata v + of_nat (unat (vlen v) * 8 + j)) = kmem h (vdata v + of_nat (unat (vlen v) * 8 + j + 8))"
proof -
  let ?n = "unat (vlen v)" let ?i = "unat i"
  let ?k = "?n * 8 - ?i - 1"
  have i: "?i < ?n" "0 < ?i" using assms(2,3) by (simp_all add: word_less_nat_alt unat_gt_0 word_gt_0)
  have "8 * vlen v - i - 1 = of_nat (?n * 8) - of_nat (?i + 1)" by simp
  also have "\<dots> = of_nat (?n * 8 - (?i + 1))" using i by (intro of_nat_diff [symmetric]) linarith
  finally have "8 * vlen v - i - 1 = of_nat ?k" by simp
  moreover have "?k < 2 ^ 64" using assms(6) by linarith
  ultimately have len: "unat (8 * vlen v - i - 1) = ?k" by (simp only: unat_small)
  let ?d = "vdata v + i * 8"
  have dst: "vdata v + of_nat (?n * 8 + j) = ?d + of_nat (?n * 8 + j - ?i * 8)"
    and src: "vdata v + of_nat (?n * 8 + j + 8) = ?d + 8 + of_nat (?n * 8 + j - ?i * 8)"
    using i by (simp_all add: of_nat_diff algebra_simps)
  have "copy_safe ?d (?d + 8) ?k"
  proof -
    have "?d - (?d + 8) \<noteq> of_nat k" if "k \<in> {0<..<?k}" for k
    proof
      assume "?d - (?d + 8) = of_nat k"
      then have "(of_nat (k + 8) :: u64) = of_nat 0" by (simp add: algebra_simps)
      moreover have "k + 8 < 2 ^ 64" using that assms(6) i by (auto simp: less_diff_conv)
      ultimately show False by (simp only: of_nat_inj_u64)
    qed
    then show ?thesis using \<open>?k < 2 ^ 64\<close> by (auto simp: copy_safe_def)
  qed
  moreover have "?n * 8 + j - ?i * 8 < ?k" using i assms(4) by linarith
  ultimately have "movsb ?k (?d + 8) ?d (kmem h) (?d + of_nat (?n * 8 + j - ?i * 8))
      = kmem h (?d + 8 + of_nat (?n * 8 + j - ?i * 8))" by (rule movsb_copies)
  moreover have "kmem h' = movsb ?k (?d + 8) ?d (kmem h)"
    using assms(5) by (auto simp: vec_erase_def memcpy_def len distrib_right add.assoc)
  ultimately show ?thesis unfolding dst src by simp
qed

lemma vec_erase_overruns_witness:
  "kmem (snd (vec_erase demo_heap1 demo_vec 1)) (vdata demo_vec + of_nat (unat (vlen demo_vec) * 8 + 3))
     = kmem demo_heap1 (vdata demo_vec + of_nat (unat (vlen demo_vec) * 8 + 3 + 8))"
  by (rule vec_erase_overruns [OF demo_vec_inv, of 1 3 "fst (vec_erase demo_heap1 demo_vec 1)"])
    (simp_all add: demo_vec_def)

end
