(* ===== verification/Time_Types.thy ===== *)
theory Time_Types
  imports Hanos_Prelude
begin

text \<open>Units, and the broken-down time \<open>tm_t\<close> of \<open>lib/time.h\<close>, which the calendar and the file systems share.\<close>

text \<open>Milliseconds in nanoseconds.\<close>

definition MILLIS_TO_NANOS :: "u64 \<Rightarrow> u64" where "MILLIS_TO_NANOS m = m * 1000000"

record tm =
  tm_sec :: int
  tm_min :: int
  tm_hour :: int
  tm_mday :: int
  tm_mon :: int
  tm_year :: int
  tm_wday :: int
  tm_yday :: int
  tm_isdst :: int

definition zero_tm :: tm where
  "zero_tm = \<lparr>tm_sec = 0, tm_min = 0, tm_hour = 0, tm_mday = 0, tm_mon = 0, tm_year = 0, tm_wday = 0,
              tm_yday = 0, tm_isdst = 0\<rparr>"

end
