(* ===== verification/Sched.thy ===== *)
theory Sched
  imports Vector Time_Types
begin

text \<open>
  Tasks and the scheduler: \<open>proc/task.c\<close> and \<open>proc/sched.c\<close>. A task is a record in the map
  \<open>tasks\<close>, keyed by its pointer (0 is NULL); its blocks come from the kernel heap. The queue
  \<open>tasks_active\<close> is the list its vector stands for. Every operation runs under
  \<open>sched_lock\<close>, so each is one step of the state. \<open>now k\<close> is the answer of the \<open>k\<close>-th call
  of \<open>hpet_get_nanos\<close> within one operation.
\<close>

definition KSTACK_SIZE :: u64 where "KSTACK_SIZE = 4096"
definition DEFAULT_KMODE_CS :: u64 where "DEFAULT_KMODE_CS = 0x08"
definition DEFAULT_KMODE_SS :: u64 where "DEFAULT_KMODE_SS = 0x10"
definition DEFAULT_RFLAGS :: u64 where "DEFAULT_RFLAGS = 0x0202"
definition TID_MAX :: u16 where "TID_MAX = 0xFFFF"

datatype task_mode = TASK_KERNEL_MODE | TASK_USER_MODE
datatype task_status = TASK_READY | TASK_RUNNING | TASK_SLEEPING | TASK_DEAD

text \<open>The fields of \<open>task_regs_t\<close> that \<open>task_make\<close> fills in.\<close>

record task_regs =
  r_rdi :: u64
  r_rip :: u64
  r_cs :: u64
  r_rflags :: u64
  r_rsp :: u64
  r_ss :: u64

record task =
  kstack_top :: u64
  kstack_limit :: u64
  ustack_top :: u64
  ustack_limit :: u64
  tid :: u16
  priority :: u8
  last_tick :: u64
  wakeup_time :: u64
  status :: task_status
  tmode :: task_mode

record sched =
  sheap :: heap
  tasks :: "u64 \<rightharpoonup> task"
  frames :: "u64 \<rightharpoonup> task_regs"
  curr_tid :: u16
  tasks_running :: "nat \<Rightarrow> u64"
  tasks_idle :: "nat \<Rightarrow> u64"
  tasks_coordinate :: "nat \<Rightarrow> u64"
  tasks_active :: "u64 list"
  cpu_num :: u16
  rsp0 :: "nat \<Rightarrow> u64"

section \<open>Making a task\<close>

definition sizeof_task :: u64 where "sizeof_task = 80"
definition sizeof_regs :: u64 where "sizeof_regs = 160"

text \<open>
  The initial register frame and the record: \<open>kl\<close> and \<open>ul\<close> are the two stacks. The record is
  zeroed and filled; \<open>mode\<close> picks the stack, and the field \<open>mode\<close> is left at its zero value,
  \<open>TASK_KERNEL_MODE\<close>.
\<close>

definition stack_for :: "u64 \<Rightarrow> u64 \<Rightarrow> task_mode \<Rightarrow> u64" where
  "stack_for kl ul mode = (if mode = TASK_KERNEL_MODE then kl + KSTACK_SIZE else ul + KSTACK_SIZE)"

definition new_frame :: "u16 \<Rightarrow> u64 \<Rightarrow> u64 \<Rightarrow> u64 \<Rightarrow> task_mode \<Rightarrow> task_regs" where
  "new_frame t kl ul entry mode =
     \<lparr>r_rdi = ucast t, r_rip = entry, r_cs = DEFAULT_KMODE_CS, r_rflags = DEFAULT_RFLAGS,
      r_rsp = stack_for kl ul mode, r_ss = DEFAULT_KMODE_SS\<rparr>"

definition new_task :: "u16 \<Rightarrow> u64 \<Rightarrow> u64 \<Rightarrow> u8 \<Rightarrow> task_mode \<Rightarrow> task" where
  "new_task t kl ul prio mode =
     \<lparr>kstack_top = stack_for kl ul mode - sizeof_regs, kstack_limit = kl,
      ustack_top = ul + KSTACK_SIZE, ustack_limit = ul, tid = t, priority = prio,
      last_tick = 0, wakeup_time = 0, status = TASK_READY, tmode = TASK_KERNEL_MODE\<rparr>"

definition task_make :: "sched \<Rightarrow> u64 \<Rightarrow> u8 \<Rightarrow> task_mode \<Rightarrow> (u64 \<times> sched) outcome" where
  "task_make s entry prio mode =
     (if curr_tid s = TID_MAX then Returns (0, s)
      else obind (kmalloc (sheap s) sizeof_task) (\<lambda>(ntask, h1).
           obind (kmalloc h1 KSTACK_SIZE) (\<lambda>(kl, h2).
           obind (kmalloc h2 KSTACK_SIZE) (\<lambda>(ul, h3).
             Returns (ntask,
               s\<lparr>sheap := h3, tasks := (tasks s)(ntask \<mapsto> new_task (curr_tid s) kl ul prio mode),
                 frames := (frames s)(stack_for kl ul mode - sizeof_regs \<mapsto> new_frame (curr_tid s) kl ul entry mode),
                 curr_tid := curr_tid s + 1\<rparr>)))))"

section \<open>The context switch\<close>

definition deref :: "(u64 \<rightharpoonup> task) \<Rightarrow> u64 \<Rightarrow> task outcome" where
  "deref ts p = (case ts p of None \<Rightarrow> Faults NullDeref | Some t \<Rightarrow> Returns t)"

text \<open>
  The search loop: take the front task; leave with it when it is ready or its time has come,
  otherwise put it at the end and stop with NULL after one round of the queue.
\<close>

function pick_next :: "(u64 \<rightharpoonup> task) \<Rightarrow> (nat \<Rightarrow> u64) \<Rightarrow> nat \<Rightarrow> u64 list \<Rightarrow> nat \<Rightarrow> (u64 \<times> u64 list) outcome" where
  "pick_next ts now k [] loop_size = Returns (0, [])"
| "pick_next ts now k (next # rest) loop_size =
     obind (deref ts next) (\<lambda>t.
       if status t = TASK_READY then Returns (next, rest)
       else if status t = TASK_SLEEPING \<and> now k \<ge> wakeup_time t then Returns (next, rest)
       else let act = rest @ [next]; k' = (if status t = TASK_SLEEPING then k + 1 else k)
            in if loop_size + 1 \<ge> length act then Returns (0, act)
               else pick_next ts now k' act (loop_size + 1))"
  by pat_completeness auto
termination
  by (relation "measure (\<lambda>(ts, now, k, act, loop_size). length act - loop_size)") auto

text \<open>What happens to the task that was running: it is saved, made ready and queued.\<close>

definition save_current :: "sched \<Rightarrow> nat \<Rightarrow> u64 \<Rightarrow> sched outcome" where
  "save_current s cpu stack =
     (let curr = tasks_running s cpu
      in if curr = 0 then Returns s
         else obind (deref (tasks s) curr) (\<lambda>t.
           let t1 = t\<lparr>kstack_top := stack, last_tick := tasks_coordinate s cpu,
                      status := (if status t = TASK_RUNNING then TASK_READY else status t)\<rparr>
           in Returns (s\<lparr>tasks := (tasks s)(curr \<mapsto> t1),
                         tasks_active := (if curr \<noteq> tasks_idle s cpu then tasks_active s @ [curr]
                                          else tasks_active s)\<rparr>)))"

text \<open>Answers the stack the switch resumes, or \<open>None\<close> when the switch is not made.\<close>

definition do_context_switch ::
  "sched \<Rightarrow> u16 option \<Rightarrow> nat \<Rightarrow> (nat \<Rightarrow> u64) \<Rightarrow> u64 \<Rightarrow> (u64 option \<times> sched) outcome" where
  "do_context_switch s smp_num cpu now stack =
     (if smp_num = None \<or> smp_num \<noteq> Some (cpu_num s) then Returns (None, s)
      else if cpu \<ge> CPU_MAX then Faults OutOfBounds
      else obind (save_current s cpu stack) (\<lambda>s1.
           obind (pick_next (tasks s1) now 0 (tasks_active s1) 0) (\<lambda>(next0, act).
             let next = (if next0 = 0 then tasks_idle s1 cpu else next0)
             in obind (deref (tasks s1) next) (\<lambda>t.
                Returns (Some (kstack_top t),
                  s1\<lparr>tasks := (tasks s1)(next \<mapsto> t\<lparr>status := TASK_RUNNING\<rparr>),
                     tasks_active := act,
                     tasks_running := (tasks_running s1)(cpu := next),
                     rsp0 := (rsp0 s1)(cpu := kstack_limit t + KSTACK_SIZE),
                     tasks_coordinate := (tasks_coordinate s1)(cpu := tasks_coordinate s1 cpu + 1)\<rparr>)))))"

section \<open>The other operations\<close>


text \<open>\<open>cpu\<close> is \<open>None\<close> before the CPUs are known; then the caller busy-waits and no task changes.\<close>

definition sched_sleep :: "sched \<Rightarrow> nat option \<Rightarrow> u64 \<Rightarrow> u64 \<Rightarrow> sched outcome" where
  "sched_sleep s cpu now millis =
     (case cpu of None \<Rightarrow> Returns s
      | Some c \<Rightarrow>
          if c \<ge> CPU_MAX then Faults OutOfBounds
          else let curr = tasks_running s c
            in if curr = 0 then Returns s
               else obind (deref (tasks s) curr) (\<lambda>t.
                 Returns (s\<lparr>tasks := (tasks s)(curr \<mapsto>
                   t\<lparr>wakeup_time := now + MILLIS_TO_NANOS millis, status := TASK_SLEEPING\<rparr>)\<rparr>)))"

definition sched_get_current_task :: "sched \<Rightarrow> nat option \<Rightarrow> u64" where
  "sched_get_current_task s cpu = (case cpu of None \<Rightarrow> 0 | Some c \<Rightarrow> tasks_running s c)"

definition sched_get_ticks :: "sched \<Rightarrow> nat option \<Rightarrow> u64" where
  "sched_get_ticks s cpu = (case cpu of None \<Rightarrow> 0 | Some c \<Rightarrow> tasks_coordinate s c)"

definition sched_init :: "sched \<Rightarrow> u16 \<Rightarrow> u64 \<Rightarrow> sched outcome" where
  "sched_init s cpu_id idle_proc =
     obind (task_make s idle_proc 255 (if cpu_id = 100 then TASK_USER_MODE else TASK_KERNEL_MODE)) (\<lambda>(t, s1).
       if unat cpu_id \<ge> CPU_MAX then Faults OutOfBounds
       else Returns (s1\<lparr>tasks_idle := (tasks_idle s1)(unat cpu_id := t), cpu_num := cpu_num s1 + 1\<rparr>))"

definition sched_get_cpu_num :: "sched \<Rightarrow> u16" where "sched_get_cpu_num s = cpu_num s"

definition sched_add :: "sched \<Rightarrow> u64 \<Rightarrow> sched outcome" where
  "sched_add s entry =
     obind (task_make s entry 0 TASK_KERNEL_MODE) (\<lambda>(t, s1).
       Returns (s1\<lparr>tasks_active := tasks_active s1 @ [t]\<rparr>))"

section \<open>What the search finds\<close>

text \<open>
  The specification of the search: the tasks skipped, the first task that can run, the rest. The
  clock is read once for every sleeping task looked at.
\<close>

fun scan :: "(u64 \<rightharpoonup> task) \<Rightarrow> (nat \<Rightarrow> u64) \<Rightarrow> nat \<Rightarrow> u64 list \<Rightarrow> (u64 list \<times> u64 \<times> u64 list) option" where
  "scan ts now k [] = None"
| "scan ts now k (x # xs) =
     (let t = the (ts x)
      in if status t = TASK_READY \<or> (status t = TASK_SLEEPING \<and> now k \<ge> wakeup_time t) then Some ([], x, xs)
         else map_option (\<lambda>(sk, y, r). (x # sk, y, r)) (scan ts now (if status t = TASK_SLEEPING then k + 1 else k) xs))"

lemma pick_next_gen:
  "set xs \<subseteq> dom ts \<Longrightarrow> xs \<noteq> [] \<Longrightarrow>
   pick_next ts now k (xs @ sk) (length sk) = Returns (case scan ts now k xs of
       Some (s, x, r) \<Rightarrow> (x, r @ sk @ s) | None \<Rightarrow> (0, sk @ xs))"
proof (induction xs arbitrary: k sk)
  case Nil
  then show ?case by simp
next
  case (Cons x xs)
  then obtain t where t: "ts x = Some t" by auto
  show ?case
  proof (cases "status t = TASK_READY \<or> (status t = TASK_SLEEPING \<and> now k \<ge> wakeup_time t)")
    case True
    with t show ?thesis by (auto simp: deref_def)
  next
    case busy: False
    let ?k = "if status t = TASK_SLEEPING then k + 1 else k"
    show ?thesis
    proof (cases "xs = []")
      case True
      with t busy show ?thesis by (auto simp: deref_def Let_def)
    next
      case False
      have "pick_next ts now ?k (xs @ (sk @ [x])) (length (sk @ [x])) = Returns (case scan ts now ?k xs of
          Some (s, y, r) \<Rightarrow> (y, r @ (sk @ [x]) @ s) | None \<Rightarrow> (0, (sk @ [x]) @ xs))"
        using Cons.prems(1) False by (intro Cons.IH) auto
      moreover have "\<not> length (sk @ [x]) \<ge> length ((xs @ sk) @ [x])" using False by simp
      ultimately show ?thesis
        using t busy by (auto simp: deref_def Let_def split: option.split)
    qed
  qed
qed

lemma pick_next_scan:
  assumes "set act \<subseteq> dom ts"
  shows "pick_next ts now k act 0 = Returns (case scan ts now k act of
       Some (s, x, r) \<Rightarrow> (x, r @ s) | None \<Rightarrow> (0, act))"
proof (cases "act = []")
  case True
  then show ?thesis by simp
next
  case False
  with pick_next_gen [OF assms False, of now k "[]"] show ?thesis by (simp split: option.split)
qed

lemma scan_split: "scan ts now k act = Some (s, x, r) \<Longrightarrow> act = s @ x # r"
  by (induction act arbitrary: k s x r) (fastforce simp: Let_def split: if_splits)+

lemma scan_none: "scan ts now k act = None \<Longrightarrow> x \<in> set act \<Longrightarrow> status (the (ts x)) \<noteq> TASK_READY"
  by (induction act arbitrary: k) (auto simp: Let_def split: if_splits)

lemma scan_ready_skipped:
  "scan ts now k act = Some (s, x, r) \<Longrightarrow> y \<in> set s \<Longrightarrow> status (the (ts y)) \<noteq> TASK_READY"
  by (induction act arbitrary: k s x r) (fastforce simp: Let_def split: if_splits)+

section \<open>The scheduler invariant\<close>

text \<open>
  Every pointer the scheduler holds is a task; the queue holds no task twice and no running or
  idle task; no task runs on two CPUs; a queued task is never marked running.
\<close>

definition sched_inv :: "sched \<Rightarrow> bool" where
  "sched_inv s \<longleftrightarrow>
     tasks s 0 = None
   \<and> set (tasks_active s) \<subseteq> dom (tasks s) \<and> distinct (tasks_active s)
   \<and> (\<forall>p \<in> set (tasks_active s). status (the (tasks s p)) \<noteq> TASK_RUNNING)
   \<and> (\<forall>c. tasks_running s c \<noteq> 0 \<longrightarrow> tasks_running s c \<in> dom (tasks s) \<and> tasks_running s c \<notin> set (tasks_active s))
   \<and> (\<forall>c. tasks_idle s c \<noteq> 0 \<longrightarrow> tasks_idle s c \<in> dom (tasks s) \<and> tasks_idle s c \<notin> set (tasks_active s))
   \<and> (\<forall>c c'. tasks_running s c \<noteq> 0 \<longrightarrow> tasks_running s c = tasks_running s c' \<longrightarrow> c = c')
   \<and> (\<forall>c c'. tasks_idle s c \<noteq> 0 \<longrightarrow> (tasks_idle s c = tasks_running s c' \<or> tasks_idle s c = tasks_idle s c') \<longrightarrow> c = c')"

lemma sched_inv_D:
  assumes "sched_inv s"
  shows "tasks s 0 = None" and "set (tasks_active s) \<subseteq> dom (tasks s)" and "distinct (tasks_active s)"
    and "\<And>p. p \<in> set (tasks_active s) \<Longrightarrow> status (the (tasks s p)) \<noteq> TASK_RUNNING"
    and "\<And>c. tasks_running s c \<noteq> 0 \<Longrightarrow> tasks_running s c \<in> dom (tasks s)"
    and "\<And>c. tasks_running s c \<noteq> 0 \<Longrightarrow> tasks_running s c \<notin> set (tasks_active s)"
    and "\<And>c. tasks_idle s c \<noteq> 0 \<Longrightarrow> tasks_idle s c \<in> dom (tasks s)"
    and "\<And>c. tasks_idle s c \<noteq> 0 \<Longrightarrow> tasks_idle s c \<notin> set (tasks_active s)"
    and "\<And>c c'. tasks_running s c \<noteq> 0 \<Longrightarrow> tasks_running s c = tasks_running s c' \<Longrightarrow> c = c'"
    and "\<And>c c'. tasks_idle s c \<noteq> 0 \<Longrightarrow> tasks_idle s c = tasks_running s c' \<Longrightarrow> c = c'"
    and "\<And>c c'. tasks_idle s c \<noteq> 0 \<Longrightarrow> tasks_idle s c = tasks_idle s c' \<Longrightarrow> c = c'"
  using assms unfolding sched_inv_def by blast+

text \<open>
  After the running task of \<open>cpu\<close> is saved, the invariant holds with that CPU taken to run
  nothing; its task is at the end of the queue, unless it is the idle task.
\<close>

definition parked :: "sched \<Rightarrow> nat \<Rightarrow> sched" where
  "parked s cpu = s\<lparr>tasks_running := (tasks_running s)(cpu := 0)\<rparr>"

definition queued_current :: "sched \<Rightarrow> nat \<Rightarrow> u64 list" where
  "queued_current s cpu = (if tasks_running s cpu \<noteq> 0 \<and> tasks_running s cpu \<noteq> tasks_idle s cpu
     then [tasks_running s cpu] else [])"

lemma save_current_ok:
  assumes inv: "sched_inv s"
  shows "\<exists>s1. save_current s cpu stack = Returns s1 \<and> sched_inv (parked s1 cpu)
    \<and> tasks_active s1 = tasks_active s @ queued_current s cpu \<and> tasks_idle s1 = tasks_idle s
    \<and> tasks_running s1 = tasks_running s
    \<and> (\<forall>p. p \<noteq> tasks_running s cpu \<longrightarrow> tasks s1 p = tasks s p) \<and> dom (tasks s1) = dom (tasks s)
    \<and> sheap s1 = sheap s \<and> curr_tid s1 = curr_tid s \<and> cpu_num s1 = cpu_num s"
proof (cases "tasks_running s cpu = 0")
  case True
  then have "parked s cpu = s" by (simp add: parked_def fun_upd_idem)
  with True inv show ?thesis by (simp add: save_current_def queued_current_def)
next
  case False
  let ?r = "tasks_running s cpu"
  note d = sched_inv_D [OF inv]
  obtain t where t: "tasks s ?r = Some t" using d(5) [OF False] by auto
  define t1 where "t1 = t\<lparr>kstack_top := stack, last_tick := tasks_coordinate s cpu,
      status := (if status t = TASK_RUNNING then TASK_READY else status t)\<rparr>"
  let ?s1 = "s\<lparr>tasks := (tasks s)(?r \<mapsto> t1), tasks_active := tasks_active s @ queued_current s cpu\<rparr>"
  have st1: "status t1 \<noteq> TASK_RUNNING" by (simp add: t1_def)
  have "save_current s cpu stack = Returns ?s1"
    using False t by (simp add: save_current_def deref_def t1_def [symmetric] queued_current_def Let_def)
  moreover have "sched_inv (parked ?s1 cpu)"
    unfolding sched_inv_def
  proof (intro conjI allI impI ballI)
    show "tasks (parked ?s1 cpu) 0 = None" using d(1) False by (simp add: parked_def)
    show "set (tasks_active (parked ?s1 cpu)) \<subseteq> dom (tasks (parked ?s1 cpu))"
      using d(2) by (auto simp: parked_def queued_current_def)
    show "distinct (tasks_active (parked ?s1 cpu))"
      using d(3) d(6) [OF False] by (auto simp: parked_def queued_current_def)
    fix p assume "p \<in> set (tasks_active (parked ?s1 cpu))"
    then show "status (the (tasks (parked ?s1 cpu) p)) \<noteq> TASK_RUNNING"
      using d(4) st1 by (auto simp: parked_def queued_current_def split: if_splits)
  next
    fix c assume c: "tasks_running (parked ?s1 cpu) c \<noteq> 0"
    then have cc: "c \<noteq> cpu" "tasks_running s c \<noteq> 0" by (auto simp: parked_def split: if_splits)
    show "tasks_running (parked ?s1 cpu) c \<in> dom (tasks (parked ?s1 cpu))"
      using d(5) [OF cc(2)] cc(1) by (auto simp: parked_def)
    have "tasks_running s c \<noteq> ?r" using d(9) [OF cc(2), of cpu] cc(1) by auto
    then show "tasks_running (parked ?s1 cpu) c \<notin> set (tasks_active (parked ?s1 cpu))"
      using d(6) [OF cc(2)] cc(1) by (auto simp: parked_def queued_current_def)
  next
    fix c assume "tasks_idle (parked ?s1 cpu) c \<noteq> 0"
    then have c: "tasks_idle s c \<noteq> 0" by (simp add: parked_def)
    show "tasks_idle (parked ?s1 cpu) c \<in> dom (tasks (parked ?s1 cpu))"
      using d(7) [OF c] by (simp add: parked_def)
    show "tasks_idle (parked ?s1 cpu) c \<notin> set (tasks_active (parked ?s1 cpu))"
      using d(8) [OF c] d(10) [OF c, of cpu] by (auto simp: parked_def queued_current_def)
  next
    fix c c' assume "tasks_running (parked ?s1 cpu) c \<noteq> 0" "tasks_running (parked ?s1 cpu) c = tasks_running (parked ?s1 cpu) c'"
    then show "c = c'" using d(9) by (auto simp: parked_def split: if_splits)
  next
    fix c c' assume "tasks_idle (parked ?s1 cpu) c \<noteq> 0" "tasks_idle (parked ?s1 cpu) c = tasks_running (parked ?s1 cpu) c' \<or> tasks_idle (parked ?s1 cpu) c = tasks_idle (parked ?s1 cpu) c'"
    then show "c = c'" using d(10,11) by (auto simp: parked_def split: if_splits)
  qed
  ultimately show ?thesis using t by (intro exI [of _ ?s1]) auto
qed

text \<open>The dispatch: a task taken from the queue, or the idle task, starts to run.\<close>

definition dispatch :: "sched \<Rightarrow> nat \<Rightarrow> u64 \<Rightarrow> u64 list \<Rightarrow> task \<Rightarrow> sched" where
  "dispatch s1 cpu next act t =
     s1\<lparr>tasks := (tasks s1)(next \<mapsto> t\<lparr>status := TASK_RUNNING\<rparr>), tasks_active := act,
        tasks_running := (tasks_running s1)(cpu := next),
        rsp0 := (rsp0 s1)(cpu := kstack_limit t + KSTACK_SIZE),
        tasks_coordinate := (tasks_coordinate s1)(cpu := tasks_coordinate s1 cpu + 1)\<rparr>"

lemma dispatch_inv:
  assumes inv: "sched_inv (parked s1 cpu)" and t: "tasks s1 x = Some t"
    and act: "set act \<subseteq> set (tasks_active s1)" "distinct act" "x \<notin> set act"
    and x: "x \<in> set (tasks_active s1) \<or> (x = tasks_idle s1 cpu \<and> x \<noteq> 0)"
  shows "sched_inv (dispatch s1 cpu x act t)"
proof -
  let ?s = "dispatch s1 cpu x act t"
  note d = sched_inv_D [OF inv]
  have x0: "x \<noteq> 0" using t d(1) by (auto simp: parked_def)
  have others: "tasks_running s1 c \<noteq> x" if "c \<noteq> cpu" for c
  proof
    assume r: "tasks_running s1 c = x"
    then have rr: "tasks_running (parked s1 cpu) c = x" using that by (simp add: parked_def)
    from x show False
    proof
      assume "x \<in> set (tasks_active s1)"
      with d(6) [of c] rr x0 show False by (simp add: parked_def)
    next
      assume i: "x = tasks_idle s1 cpu \<and> x \<noteq> 0"
      then have "tasks_idle (parked s1 cpu) cpu \<noteq> 0" "tasks_idle (parked s1 cpu) cpu = tasks_running (parked s1 cpu) c"
        using rr i by (auto simp: parked_def)
      from d(10) [OF this] that show False by simp
    qed
  qed
  have idle: "tasks_idle s1 c = x \<Longrightarrow> c = cpu" if "tasks_idle s1 c \<noteq> 0" for c
    using x d(8) [of c] d(11) [of c cpu] that by (auto simp: parked_def)
  show ?thesis
    unfolding sched_inv_def
  proof (intro conjI allI impI ballI)
    show "tasks ?s 0 = None" using d(1) x0 by (simp add: dispatch_def parked_def)
    show "set (tasks_active ?s) \<subseteq> dom (tasks ?s)"
      using d(2) act(1) by (auto simp: dispatch_def parked_def)
    show "distinct (tasks_active ?s)" using act(2) by (simp add: dispatch_def)
    fix p assume "p \<in> set (tasks_active ?s)"
    then have p: "p \<in> set act" by (simp add: dispatch_def)
    with act(3) have "p \<noteq> x" by auto
    with p act(1) d(4) [of p] show "status (the (tasks ?s p)) \<noteq> TASK_RUNNING"
      by (auto simp: dispatch_def parked_def)
  next
    fix c assume c: "tasks_running ?s c \<noteq> 0"
    show "tasks_running ?s c \<in> dom (tasks ?s)" "tasks_running ?s c \<notin> set (tasks_active ?s)"
      using c d(5) [of c] d(6) [of c] act(1,3) by (auto simp: dispatch_def parked_def split: if_splits)
  next
    fix c assume c: "tasks_idle ?s c \<noteq> 0"
    show "tasks_idle ?s c \<in> dom (tasks ?s)" "tasks_idle ?s c \<notin> set (tasks_active ?s)"
      using c d(7) [of c] d(8) [of c] act(1) by (auto simp: dispatch_def parked_def split: if_splits)
  next
    fix c c' assume "tasks_running ?s c \<noteq> 0" "tasks_running ?s c = tasks_running ?s c'"
    then show "c = c'"
      using others d(9) [of c c'] by (auto simp: dispatch_def parked_def split: if_splits)
  next
    fix c c' assume c: "tasks_idle ?s c \<noteq> 0" "tasks_idle ?s c = tasks_running ?s c' \<or> tasks_idle ?s c = tasks_idle ?s c'"
    then show "c = c'"
      using idle [of c] d(10) [of c c'] d(11) [of c c'] by (auto simp: dispatch_def parked_def split: if_splits)
  qed
qed

text \<open>The whole switch.\<close>

lemma scan_parts:
  assumes "set act \<subseteq> dom ts" and "distinct act" and "scan ts now k act = Some (sk, x, r)"
  shows "x \<in> set act" and "set (r @ sk) = set act - {x}" and "distinct (r @ sk)" and "x \<notin> set (r @ sk)"
  using scan_split [OF assms(3)] assms(2) by auto

definition switch_target :: "sched \<Rightarrow> nat \<Rightarrow> (nat \<Rightarrow> u64) \<Rightarrow> u64 \<times> u64 list" where
  "switch_target s1 cpu now = (case scan (tasks s1) now 0 (tasks_active s1) of
     Some (sk, x, r) \<Rightarrow> (x, r @ sk) | None \<Rightarrow> (tasks_idle s1 cpu, tasks_active s1))"

lemma do_context_switch_eq:
  assumes inv: "sched_inv (parked s1 cpu)" and smp: "smp_num = Some (cpu_num s)" and cpu: "cpu < CPU_MAX"
    and save: "save_current s cpu stack = Returns s1"
    and tgt: "switch_target s1 cpu now = (x, act)"
  shows "do_context_switch s smp_num cpu now stack =
    obind (deref (tasks s1) x) (\<lambda>t. Returns (Some (kstack_top t), dispatch s1 cpu x act t))"
proof -
  have dom: "set (tasks_active s1) \<subseteq> dom (tasks s1)"
    using sched_inv_D(2) [OF inv] by (simp add: parked_def)
  have "tasks s1 0 = None" using sched_inv_D(1) [OF inv] by (simp add: parked_def)
  then have "y \<in> set (tasks_active s1) \<Longrightarrow> y \<noteq> 0" for y using dom by auto
  then have nz: "scan (tasks s1) now 0 (tasks_active s1) = Some (sk, y, r) \<Longrightarrow> y \<noteq> 0" for sk y r
    using scan_split [of "tasks s1" now 0 "tasks_active s1" sk y r] by auto
  show ?thesis
    using tgt nz smp cpu
    by (auto simp: do_context_switch_def save pick_next_scan [OF dom] switch_target_def dispatch_def Let_def
        split: option.splits)
qed

lemma context_switch_ok:
  assumes inv: "sched_inv s" and cpu: "cpu < CPU_MAX"
    and ret: "do_context_switch s (Some (cpu_num s)) cpu now stack = Returns (r, s')"
  shows "sched_inv s' \<and> (\<exists>x. tasks_running s' cpu = x \<and> x \<noteq> 0
     \<and> (x \<in> set (tasks_active s @ queued_current s cpu) \<and> set (tasks_active s') = set (tasks_active s @ queued_current s cpu) - {x}
        \<or> x = tasks_idle s cpu \<and> tasks_active s' = tasks_active s @ queued_current s cpu))
     \<and> (\<forall>c. c \<noteq> cpu \<longrightarrow> tasks_running s' c = tasks_running s c) \<and> tasks_idle s' = tasks_idle s
     \<and> dom (tasks s') = dom (tasks s) \<and> sheap s' = sheap s \<and> curr_tid s' = curr_tid s"
proof -
  from save_current_ok [OF inv, of cpu stack] obtain s1 where s1: "save_current s cpu stack = Returns s1"
    "sched_inv (parked s1 cpu)" "tasks_active s1 = tasks_active s @ queued_current s cpu" "tasks_idle s1 = tasks_idle s"
    "tasks_running s1 = tasks_running s" "dom (tasks s1) = dom (tasks s)" "sheap s1 = sheap s" "curr_tid s1 = curr_tid s"
    by auto
  obtain x act where tgt: "switch_target s1 cpu now = (x, act)" by (cases "switch_target s1 cpu now")
  from ret obtain t where t: "tasks s1 x = Some t" and s': "s' = dispatch s1 cpu x act t"
    by (auto simp: do_context_switch_eq [OF s1(2) refl cpu s1(1) tgt] deref_def obind_eq_Returns split: option.splits)
  note d = sched_inv_D [OF s1(2)]
  have x0: "x \<noteq> 0" using t d(1) by (auto simp: parked_def)
  have dom: "set (tasks_active s1) \<subseteq> dom (tasks s1)" and dist: "distinct (tasks_active s1)"
    using d(2,3) by (simp_all add: parked_def)
  have cases: "x \<in> set (tasks_active s1) \<and> set act = set (tasks_active s1) - {x} \<and> distinct act \<and> x \<notin> set act
      \<or> x = tasks_idle s1 cpu \<and> act = tasks_active s1"
    using tgt scan_parts [OF dom dist] by (auto simp: switch_target_def split: option.splits)
  have "sched_inv s'"
    unfolding s'
  proof (rule dispatch_inv [OF s1(2) t])
    show "set act \<subseteq> set (tasks_active s1)" "distinct act" using cases dist by auto
    show "x \<notin> set act" using cases d(8) [of cpu] x0 by (auto simp: parked_def)
    show "x \<in> set (tasks_active s1) \<or> x = tasks_idle s1 cpu \<and> x \<noteq> 0" using cases x0 by auto
  qed
  moreover have "dom (tasks s') = dom (tasks s)" using s1(6) t by (auto simp: s' dispatch_def)
  ultimately show ?thesis
    using cases x0 s1 by (auto simp: s' dispatch_def)
qed

text \<open>All tasks that are queued or run, the idle tasks apart.\<close>

definition scheduled :: "sched \<Rightarrow> u64 set" where
  "scheduled s = set (tasks_active s) \<union> {p. p \<noteq> 0 \<and> (\<exists>c. tasks_running s c = p \<and> tasks_idle s c \<noteq> p)}"

lemma context_switch_scheduled:
  assumes inv: "sched_inv s" and cpu: "cpu < CPU_MAX"
    and ret: "do_context_switch s (Some (cpu_num s)) cpu now stack = Returns (r, s')"
  shows "scheduled s' = scheduled s"
proof -
  from context_switch_ok [OF assms] obtain x where x: "tasks_running s' cpu = x" "x \<noteq> 0"
    and cs: "x \<in> set (tasks_active s @ queued_current s cpu) \<and> set (tasks_active s') = set (tasks_active s @ queued_current s cpu) - {x}
        \<or> x = tasks_idle s cpu \<and> tasks_active s' = tasks_active s @ queued_current s cpu"
    and oth: "\<And>c. c \<noteq> cpu \<Longrightarrow> tasks_running s' c = tasks_running s c" and idle: "tasks_idle s' = tasks_idle s"
    by blast
  note d = sched_inv_D [OF inv]
  let ?O = "{p. p \<noteq> 0 \<and> (\<exists>c. c \<noteq> cpu \<and> tasks_running s c = p \<and> tasks_idle s c \<noteq> p)}"
  have split: "scheduled u = set (tasks_active u) \<union> {p. p \<noteq> 0 \<and> (\<exists>c. c \<noteq> cpu \<and> tasks_running u c = p \<and> tasks_idle u c \<noteq> p)}
      \<union> (if tasks_running u cpu \<noteq> 0 \<and> tasks_idle u cpu \<noteq> tasks_running u cpu then {tasks_running u cpu} else {})" for u
    unfolding scheduled_def by (auto split: if_splits)
  have old: "scheduled s = set (tasks_active s @ queued_current s cpu) \<union> ?O"
    unfolding split [of s] by (auto simp: queued_current_def)
  have O': "{p. p \<noteq> 0 \<and> (\<exists>c. c \<noteq> cpu \<and> tasks_running s' c = p \<and> tasks_idle s' c \<noteq> p)} = ?O"
    using oth idle by auto
  have new: "scheduled s' = set (tasks_active s') \<union> ?O \<union> (if x \<noteq> tasks_idle s cpu then {x} else {})"
    unfolding split [of s'] O' using x idle by auto
  have "x \<in> set (tasks_active s @ queued_current s cpu) \<Longrightarrow> x \<noteq> tasks_idle s cpu"
    using d(8) [of cpu] x(2) by (auto simp: queued_current_def split: if_splits)
  with cs show ?thesis unfolding new old by auto
qed

section \<open>Every ready task is served\<close>

lemma split_behind:
  "sk @ x # r = pre @ p # q \<Longrightarrow> p \<notin> set sk \<Longrightarrow> x \<noteq> p \<Longrightarrow> \<exists>pre2. r = pre2 @ p # q \<and> pre = sk @ x # pre2"
proof (induction sk arbitrary: pre)
  case Nil
  then show ?case by (cases pre) auto
next
  case (Cons y sk)
  then obtain pre1 where pre1: "pre = y # pre1" by (cases pre) auto
  with Cons.IH [of pre1] Cons.prems show ?case by auto
qed

lemma context_switch_progress:
  assumes inv: "sched_inv s" and cpu: "cpu < CPU_MAX"
    and ret: "do_context_switch s (Some (cpu_num s)) cpu now stack = Returns (r, s')"
    and act: "tasks_active s = pre @ p # post" and ready: "status (the (tasks s p)) = TASK_READY"
  shows "tasks_running s' cpu = p
     \<or> (\<exists>pre' post'. tasks_active s' = pre' @ p # post' \<and> length pre' < length pre \<and> status (the (tasks s' p)) = TASK_READY)"
proof -
  from save_current_ok [OF inv, of cpu stack] obtain s1 where s1: "save_current s cpu stack = Returns s1"
    "sched_inv (parked s1 cpu)" "tasks_active s1 = tasks_active s @ queued_current s cpu"
    "\<And>p. p \<noteq> tasks_running s cpu \<Longrightarrow> tasks s1 p = tasks s p"
    by auto
  obtain x act' where tgt: "switch_target s1 cpu now = (x, act')" by (cases "switch_target s1 cpu now")
  from ret obtain t where s': "s' = dispatch s1 cpu x act' t"
    by (auto simp: do_context_switch_eq [OF s1(2) refl cpu s1(1) tgt] deref_def obind_eq_Returns split: option.splits)
  have pin: "p \<in> set (tasks_active s)" using act by simp
  then have "p \<in> dom (tasks s)" "tasks s 0 = None" using sched_inv_D(1,2) [OF inv] by auto
  then have "p \<noteq> 0" by auto
  then have "p \<noteq> tasks_running s cpu" using pin sched_inv_D(6) [OF inv, of cpu] by auto
  then have rd1: "status (the (tasks s1 p)) = TASK_READY" using s1(4) ready by simp
  have pin1: "p \<in> set (tasks_active s1)" using pin s1(3) by simp
  obtain sk y rr where sc: "scan (tasks s1) now 0 (tasks_active s1) = Some (sk, y, rr)"
    using scan_none [OF _ pin1] rd1 by (cases "scan (tasks s1) now 0 (tasks_active s1)") auto
  have xy: "x = y" "act' = rr @ sk" using tgt sc by (simp_all add: switch_target_def)
  have eq: "sk @ y # rr = pre @ p # (post @ queued_current s cpu)"
    using scan_split [OF sc] s1(3) act by simp
  have "p \<notin> set sk" using scan_ready_skipped [OF sc] rd1 by auto
  show ?thesis
  proof (cases "y = p")
    case True
    then show ?thesis by (simp add: s' dispatch_def xy)
  next
    case False
    from split_behind [OF eq \<open>p \<notin> set sk\<close> False] obtain pre2 where
      "rr = pre2 @ p # (post @ queued_current s cpu)" "pre = sk @ y # pre2" by blast
    then have "tasks_active s' = pre2 @ p # (post @ queued_current s cpu @ sk)" "length pre2 < length pre"
      by (simp_all add: s' dispatch_def xy)
    moreover have "status (the (tasks s' p)) = TASK_READY" using False rd1 by (simp add: s' dispatch_def xy)
    ultimately show ?thesis by blast
  qed
qed

lemma context_switch_total:
  assumes inv: "sched_inv s" and cpu: "cpu < CPU_MAX" and idle: "tasks_idle s cpu \<noteq> 0"
  shows "\<exists>r s'. do_context_switch s (Some (cpu_num s)) cpu now stack = Returns (Some r, s') \<and> cpu_num s' = cpu_num s"
proof -
  from save_current_ok [OF inv, of cpu stack] obtain s1 where s1: "save_current s cpu stack = Returns s1"
    "sched_inv (parked s1 cpu)" "tasks_idle s1 = tasks_idle s" "cpu_num s1 = cpu_num s" by auto
  obtain x act where tgt: "switch_target s1 cpu now = (x, act)" by (cases "switch_target s1 cpu now")
  note d = sched_inv_D [OF s1(2)]
  have dom: "set (tasks_active s1) \<subseteq> dom (tasks s1)" using d(2) by (simp add: parked_def)
  have "x \<in> dom (tasks s1)"
    using tgt dom d(7) [of cpu] idle s1(3) scan_split [of "tasks s1" now 0 "tasks_active s1"]
    by (auto simp: switch_target_def parked_def split: option.splits)
  then show ?thesis
    using s1(4) by (auto simp: do_context_switch_eq [OF s1(2) refl cpu s1(1) tgt] deref_def dispatch_def)
qed

text \<open>A sequence of timer interrupts: the CPU, its clock readings and its stack. Answers who was dispatched.\<close>

fun run_switches :: "(nat \<times> (nat \<Rightarrow> u64) \<times> u64) list \<Rightarrow> sched \<Rightarrow> (u64 list \<times> sched) outcome" where
  "run_switches [] s = Returns ([], s)"
| "run_switches ((cpu, now, stack) # evs) s =
     obind (do_context_switch s (Some (cpu_num s)) cpu now stack) (\<lambda>(r, s1).
       omap (\<lambda>(ds, s2). (tasks_running s1 cpu # ds, s2)) (run_switches evs s1))"

definition cpus_ready :: "sched \<Rightarrow> (nat \<times> (nat \<Rightarrow> u64) \<times> u64) list \<Rightarrow> bool" where
  "cpus_ready s evs \<longleftrightarrow> (\<forall>e \<in> set evs. fst e < CPU_MAX \<and> tasks_idle s (fst e) \<noteq> 0)"

lemma run_switches_serves:
  "sched_inv s \<Longrightarrow> cpus_ready s evs \<Longrightarrow>
   \<exists>ds s'. run_switches evs s = Returns (ds, s') \<and> sched_inv s' \<and> scheduled s' = scheduled s
     \<and> (\<forall>pre p post. tasks_active s = pre @ p # post \<longrightarrow> status (the (tasks s p)) = TASK_READY \<longrightarrow> length pre < length evs
          \<longrightarrow> p \<in> set (take (Suc (length pre)) ds))"
proof (induction evs arbitrary: s)
  case Nil
  then show ?case by simp
next
  case (Cons e evs)
  obtain cpu now stack where e: "e = (cpu, now, stack)" by (cases e)
  have cpu: "cpu < CPU_MAX" "tasks_idle s cpu \<noteq> 0" using Cons.prems(2) by (auto simp: cpus_ready_def e)
  from context_switch_total [OF Cons.prems(1) cpu] obtain r s1 where
    sw: "do_context_switch s (Some (cpu_num s)) cpu now stack = Returns (Some r, s1)" by blast
  have ok: "sched_inv s1" "tasks_idle s1 = tasks_idle s" using context_switch_ok [OF Cons.prems(1) cpu(1) sw] by blast+
  have "cpus_ready s1 evs" using Cons.prems(2) ok(2) by (simp add: cpus_ready_def)
  from Cons.IH [OF ok(1) this] obtain ds s' where ds: "run_switches evs s1 = Returns (ds, s')" "sched_inv s'"
    "scheduled s' = scheduled s1"
    "\<And>pre p post. tasks_active s1 = pre @ p # post \<Longrightarrow> status (the (tasks s1 p)) = TASK_READY \<Longrightarrow> length pre < length evs \<Longrightarrow>
       p \<in> set (take (Suc (length pre)) ds)" by blast
  have serve: "p \<in> set (take (Suc (length pre)) (tasks_running s1 cpu # ds))"
    if a: "tasks_active s = pre @ p # post" "status (the (tasks s p)) = TASK_READY" "length pre < length (e # evs)" for pre p post
    using context_switch_progress [OF Cons.prems(1) cpu(1) sw a(1,2)]
  proof
    assume "tasks_running s1 cpu = p"
    then show ?thesis by simp
  next
    assume "\<exists>pre' post'. tasks_active s1 = pre' @ p # post' \<and> length pre' < length pre \<and> status (the (tasks s1 p)) = TASK_READY"
    then obtain pre' post' where p': "tasks_active s1 = pre' @ p # post'" "length pre' < length pre"
      "status (the (tasks s1 p)) = TASK_READY" by blast
    have "p \<in> set (take (Suc (length pre')) ds)" using ds(4) [OF p'(1,3)] p'(2) a(3) by simp
    moreover have "set (take (Suc (length pre')) ds) \<subseteq> set (take (length pre) ds)"
      using p'(2) by (intro set_take_subset_set_take) simp
    ultimately show ?thesis by auto
  qed
  show ?case
  proof (intro exI conjI allI impI)
    show "run_switches (e # evs) s = Returns (tasks_running s1 cpu # ds, s')" using sw ds(1) by (simp add: e)
    show "scheduled s' = scheduled s" using ds(3) context_switch_scheduled [OF Cons.prems(1) cpu(1) sw] by simp
  qed (use ds(2) serve in auto)
qed

section \<open>Adding tasks\<close>

definition sched_wf :: "sched \<Rightarrow> bool" where
  "sched_wf s \<longleftrightarrow> sched_inv s \<and> (\<exists>B. heap_inv (sheap s) B \<and> dom (tasks s) \<subseteq> dom B)"

lemma request_small: "heap_inv h B \<Longrightarrow> unat sz \<le> 8192 \<Longrightarrow> request_ok h sz"
proof -
  assume inv: "heap_inv h B" and sz: "unat sz \<le> 8192"
  then have "unat (NUM_PAGES sz) = (unat sz + 4095) div 4096" by (intro NUM_PAGES_unat) simp
  also have "\<dots> \<le> (8192 + 4095) div 4096" using sz by (intro div_le_mono) simp
  finally have "blk_pages sz \<le> 3" by (simp add: blk_pages_def)
  then have "0 < unat (NUM_PAGES sz + 1) \<and> unat (NUM_PAGES sz + 1) \<le> 3"
    using unat_pages_1 [of sz] by (simp add: blk_pages_def)
  with inv sz show ?thesis by (simp add: request_ok_def fits_def heap_inv_def)
qed

lemma task_make_ok:
  assumes heap: "heap_inv (sheap s) B" "dom (tasks s) \<subseteq> dom B" and tid: "curr_tid s \<noteq> TID_MAX"
    and ret: "task_make s entry prio mode = Returns (p, s')"
  shows "p \<noteq> 0 \<and> tasks s p = None \<and> (\<exists>kl ul. tasks s' = (tasks s)(p \<mapsto> new_task (curr_tid s) kl ul prio mode))
     \<and> tasks_active s' = tasks_active s \<and> tasks_running s' = tasks_running s \<and> tasks_idle s' = tasks_idle s
     \<and> curr_tid s' = curr_tid s + 1
     \<and> (\<exists>B'. heap_inv (sheap s') B' \<and> dom (tasks s') \<subseteq> dom B')"
proof -
  from ret tid obtain h1 kl h2 ul h3 where
    k1: "kmalloc (sheap s) sizeof_task = Returns (p, h1)" and
    k2: "kmalloc h1 KSTACK_SIZE = Returns (kl, h2)" and k3: "kmalloc h2 KSTACK_SIZE = Returns (ul, h3)"
    and s': "sheap s' = h3" "tasks s' = (tasks s)(p \<mapsto> new_task (curr_tid s) kl ul prio mode)"
      "tasks_active s' = tasks_active s" "tasks_running s' = tasks_running s" "tasks_idle s' = tasks_idle s"
      "curr_tid s' = curr_tid s + 1"
    by (auto simp: task_make_def obind_eq_Returns Let_def)
  have sz: "unat sizeof_task \<le> 8192" "unat KSTACK_SIZE \<le> 8192" "0 < unat sizeof_task"
    by (simp_all add: sizeof_task_def KSTACK_SIZE_def)
  note a1 = kmalloc_ok [OF heap(1) request_small [OF heap(1) sz(1)] k1]
  then have i1: "heap_inv h1 (B(p \<mapsto> sizeof_task))" by simp
  note a2 = kmalloc_ok [OF i1 request_small [OF i1 sz(2)] k2]
  then have i2: "heap_inv h2 (B(p \<mapsto> sizeof_task, kl \<mapsto> KSTACK_SIZE))" by simp
  note a3 = kmalloc_ok [OF i2 request_small [OF i2 sz(2)] k3]
  have "p \<noteq> 0" by (rule live_nonzero [OF i1 _ sz(3)]) simp
  moreover have "tasks s p = None" using a1 heap(2) by auto
  moreover have "heap_inv (sheap s') (B(p \<mapsto> sizeof_task, kl \<mapsto> KSTACK_SIZE, ul \<mapsto> KSTACK_SIZE))"
    using a3 s'(1) by simp
  moreover have "dom (tasks s') \<subseteq> dom (B(p \<mapsto> sizeof_task, kl \<mapsto> KSTACK_SIZE, ul \<mapsto> KSTACK_SIZE))"
    using s'(2) heap(2) by auto
  ultimately show ?thesis using s' by blast
qed

text \<open>A new task that nothing refers to may be queued, or made the idle task of a CPU.\<close>

lemma sched_inv_new:
  assumes inv: "sched_inv s" and p: "p \<noteq> 0" "tasks s p = None"
    and s': "tasks s' = (tasks s)(p \<mapsto> t)" "status t = TASK_READY" "tasks_running s' = tasks_running s"
    and q: "tasks_active s' = tasks_active s @ [p] \<and> tasks_idle s' = tasks_idle s
          \<or> tasks_active s' = tasks_active s \<and> tasks_idle s' = (tasks_idle s)(c := p)"
  shows "sched_inv s'"
proof -
  note d = sched_inv_D [OF inv]
  have fresh: "p \<notin> set (tasks_active s)" "tasks_running s k \<noteq> p" "tasks_idle s k \<noteq> p" for k
    using p d(2) d(5) [of k] d(7) [of k] by auto
  show ?thesis
    unfolding sched_inv_def
  proof (intro conjI allI impI ballI)
    show "tasks s' 0 = None" using d(1) p s' by simp
    show "set (tasks_active s') \<subseteq> dom (tasks s')" using q d(2) s'(1) by auto
    show "distinct (tasks_active s')" using q d(3) fresh(1) by auto
    fix x assume "x \<in> set (tasks_active s')"
    then show "status (the (tasks s' x)) \<noteq> TASK_RUNNING"
      using q d(4) [of x] s'(1,2) fresh(1) by (auto split: if_splits)
  next
    fix k assume k: "tasks_running s' k \<noteq> 0"
    then show "tasks_running s' k \<in> dom (tasks s')" using d(5) [of k] s' by auto
    show "tasks_running s' k \<notin> set (tasks_active s')" using k q d(6) [of k] fresh(2) s'(3) by auto
  next
    fix k assume k: "tasks_idle s' k \<noteq> 0"
    show "tasks_idle s' k \<in> dom (tasks s')" using k q d(7) [of k] s'(1) by (auto split: if_splits)
    show "tasks_idle s' k \<notin> set (tasks_active s')" using k q d(8) [of k] fresh by (auto split: if_splits)
  next
    fix k k' assume "tasks_running s' k \<noteq> 0" "tasks_running s' k = tasks_running s' k'"
    then show "k = k'" using d(9) s'(3) by simp
  next
    fix k k' assume "tasks_idle s' k \<noteq> 0" "tasks_idle s' k = tasks_running s' k' \<or> tasks_idle s' k = tasks_idle s' k'"
    then show "k = k'" using q d(10) [of k k'] d(11) [of k k'] fresh s'(3) by (auto split: if_splits) blast+
  qed
qed

section \<open>The scheduler as a transition system\<close>

text \<open>
  The steps the kernel can make: a timer interrupt, a task going to sleep, a task added, a CPU's
  scheduler started. Task ids are not exhausted here; see the property on \<open>sched_add\<close> below for
  what happens then.
\<close>

inductive sched_step :: "sched \<Rightarrow> sched \<Rightarrow> bool" where
  step_switch: "c < CPU_MAX \<Longrightarrow> do_context_switch s smp c now stack = Returns (r, s') \<Longrightarrow> sched_step s s'"
| step_sleep: "sched_sleep s c now ms = Returns s' \<Longrightarrow> sched_step s s'"
| step_add: "curr_tid s \<noteq> TID_MAX \<Longrightarrow> sched_add s entry = Returns s' \<Longrightarrow> sched_step s s'"
| step_init: "curr_tid s \<noteq> TID_MAX \<Longrightarrow> sched_init s cpu_id entry = Returns s' \<Longrightarrow> sched_step s s'"

inductive_cases sched_stepE: "sched_step s s'"

definition sched_boot :: "heap \<Rightarrow> sched" where
  "sched_boot h = \<lparr>sheap = h, tasks = Map.empty, frames = Map.empty, curr_tid = 0,
     tasks_running = (\<lambda>_. 0), tasks_idle = (\<lambda>_. 0), tasks_coordinate = (\<lambda>_. 0),
     tasks_active = [], cpu_num = 0, rsp0 = (\<lambda>_. 0)\<rparr>"

lemma sched_boot_wf: "heap_inv h B \<Longrightarrow> sched_wf (sched_boot h)"
  by (auto simp: sched_wf_def sched_inv_def sched_boot_def)

lemma sched_sleep_inv:
  assumes inv: "sched_inv s" and ret: "sched_sleep s c now ms = Returns s'"
  shows "sched_inv s'" and "sheap s' = sheap s" and "dom (tasks s') = dom (tasks s)"
proof -
  have "s' = s \<or> (\<exists>k t. tasks_running s k \<noteq> 0 \<and> tasks s (tasks_running s k) = Some t
      \<and> s' = s\<lparr>tasks := (tasks s)(tasks_running s k \<mapsto>
          t\<lparr>wakeup_time := now + MILLIS_TO_NANOS ms, status := TASK_SLEEPING\<rparr>)\<rparr>)"
    using ret by (auto simp: sched_sleep_def deref_def Let_def obind_eq_Returns split: option.splits if_splits)
  then consider "s' = s" | k t where "tasks_running s k \<noteq> 0" "tasks s (tasks_running s k) = Some t"
      "s' = s\<lparr>tasks := (tasks s)(tasks_running s k \<mapsto>
          t\<lparr>wakeup_time := now + MILLIS_TO_NANOS ms, status := TASK_SLEEPING\<rparr>)\<rparr>" by blast
  then have "sched_inv s' \<and> sheap s' = sheap s \<and> dom (tasks s') = dom (tasks s)"
  proof cases
    case 1
    with inv show ?thesis by simp
  next
    case 2
    have "dom (tasks s') = dom (tasks s)" using 2 by auto
    moreover have "sched_inv s'"
      using inv 2 sched_inv_D(6) [OF inv 2(1)] unfolding sched_inv_def by (simp add: insert_absorb domI)
    ultimately show ?thesis using 2 by simp
  qed
  then show "sched_inv s'" and "sheap s' = sheap s" and "dom (tasks s') = dom (tasks s)" by blast+
qed

lemma sched_add_inv:
  assumes wf: "sched_wf s" and tid: "curr_tid s \<noteq> TID_MAX" and ret: "sched_add s entry = Returns s'"
  shows "sched_wf s' \<and> (\<exists>p. tasks s p = None \<and> tasks_active s' = tasks_active s @ [p]
     \<and> status (the (tasks s' p)) = TASK_READY)"
proof -
  from wf obtain B where B: "heap_inv (sheap s) B" "dom (tasks s) \<subseteq> dom B" and inv: "sched_inv s"
    by (auto simp: sched_wf_def)
  from ret obtain p s1 where m: "task_make s entry 0 TASK_KERNEL_MODE = Returns (p, s1)"
    and s': "s' = s1\<lparr>tasks_active := tasks_active s1 @ [p]\<rparr>"
    by (auto simp: sched_add_def obind_eq_Returns)
  from task_make_ok [OF B tid m] obtain kl ul B' where t: "p \<noteq> 0" "tasks s p = None"
    "tasks s1 = (tasks s)(p \<mapsto> new_task (curr_tid s) kl ul 0 TASK_KERNEL_MODE)"
    "tasks_active s1 = tasks_active s" "tasks_running s1 = tasks_running s" "tasks_idle s1 = tasks_idle s"
    "heap_inv (sheap s1) B'" "dom (tasks s1) \<subseteq> dom B'" by auto
  have rdy: "status (new_task (curr_tid s) kl ul 0 TASK_KERNEL_MODE) = TASK_READY" by (simp add: new_task_def)
  have "sched_inv s'"
    using t by (intro sched_inv_new [OF inv t(1,2), of s', OF _ rdy]) (simp_all add: s')
  with t rdy show ?thesis by (auto simp: sched_wf_def s')
qed

lemma sched_init_inv:
  assumes wf: "sched_wf s" and tid: "curr_tid s \<noteq> TID_MAX" and ret: "sched_init s cpu_id entry = Returns s'"
  shows "sched_wf s' \<and> tasks_idle s' (unat cpu_id) \<noteq> 0"
proof -
  from wf obtain B where B: "heap_inv (sheap s) B" "dom (tasks s) \<subseteq> dom B" and inv: "sched_inv s"
    by (auto simp: sched_wf_def)
  define mode where "mode = (if cpu_id = 100 then TASK_USER_MODE else TASK_KERNEL_MODE)"
  from ret obtain p s1 where m: "task_make s entry 255 mode = Returns (p, s1)"
    and s': "s' = s1\<lparr>tasks_idle := (tasks_idle s1)(unat cpu_id := p), cpu_num := cpu_num s1 + 1\<rparr>"
    by (auto simp: sched_init_def mode_def obind_eq_Returns split: if_splits)
  from task_make_ok [OF B tid m] obtain kl ul B' where t: "p \<noteq> 0" "tasks s p = None"
    "tasks s1 = (tasks s)(p \<mapsto> new_task (curr_tid s) kl ul 255 mode)"
    "tasks_active s1 = tasks_active s" "tasks_running s1 = tasks_running s" "tasks_idle s1 = tasks_idle s"
    "heap_inv (sheap s1) B'" "dom (tasks s1) \<subseteq> dom B'" by auto
  have rdy: "status (new_task (curr_tid s) kl ul 255 mode) = TASK_READY" by (simp add: new_task_def)
  have "sched_inv s'"
    using t by (intro sched_inv_new [OF inv t(1,2), of s', OF _ rdy]) (simp_all add: s')
  with t show ?thesis by (auto simp: sched_wf_def s')
qed

lemma sched_step_wf: "sched_step s s' \<Longrightarrow> sched_wf s \<Longrightarrow> sched_wf s'"
proof (erule sched_stepE)
  fix c smp now stack r
  assume wf: "sched_wf s" and c: "c < CPU_MAX" and sw: "do_context_switch s smp c now stack = Returns (r, s')"
  have inv: "sched_inv s" using wf by (simp add: sched_wf_def)
  show "sched_wf s'"
  proof (cases "smp = Some (cpu_num s)")
    case True
    from context_switch_ok [OF inv c] sw True have "sched_inv s'" "dom (tasks s') = dom (tasks s)" "sheap s' = sheap s"
      by blast+
    with wf show ?thesis by (simp add: sched_wf_def)
  next
    case False
    with sw wf show ?thesis by (auto simp: do_context_switch_def)
  qed
next
  fix c now ms assume wf: "sched_wf s" and sl: "sched_sleep s c now ms = Returns s'"
  then have "sched_inv s" by (simp add: sched_wf_def)
  from sched_sleep_inv [OF this sl] wf show "sched_wf s'" by (simp add: sched_wf_def)
qed (use sched_add_inv sched_init_inv in blast)+

lemma sched_reach_wf: "sched_step\<^sup>*\<^sup>* s s' \<Longrightarrow> sched_wf s \<Longrightarrow> sched_wf s'"
  by (induction rule: rtranclp_induct) (auto intro: sched_step_wf)

section \<open>Properties\<close>

definition demo_task :: task where
  "demo_task = \<lparr>kstack_top = 0x5000, kstack_limit = 0x4000, ustack_top = 0x7000, ustack_limit = 0x6000,
     tid = 1, priority = 0, last_tick = 0, wakeup_time = 0, status = TASK_READY, tmode = TASK_KERNEL_MODE\<rparr>"

text \<open>CPU 0 runs task 0x100 and idles with 0x200; 0x300 sleeps and 0x400 is ready.\<close>

definition demo_sched :: sched where
  "demo_sched = (sched_boot demo_heap)\<lparr>
     tasks := [0x100 \<mapsto> demo_task\<lparr>status := TASK_RUNNING\<rparr>, 0x200 \<mapsto> demo_task,
               0x300 \<mapsto> demo_task\<lparr>status := TASK_SLEEPING, wakeup_time := 50\<rparr>, 0x400 \<mapsto> demo_task],
     tasks_running := (\<lambda>_. 0)(0 := 0x100), tasks_idle := (\<lambda>_. 0)(0 := 0x200),
     tasks_active := [0x300, 0x400], cpu_num := 1\<rparr>"

lemma demo_sched_inv: "sched_inv demo_sched"
  by (auto simp: sched_inv_def demo_sched_def sched_boot_def demo_task_def split: if_splits)



text \<open>
  C5: over any sequence of timer interrupts on CPUs whose idle task exists, every switch succeeds,
  no task is lost or invented, and a ready task at position \<open>i\<close> of the queue is dispatched within
  the next \<open>i + 1\<close> switches.
\<close>

theorem sched_serves_ready:
  assumes "sched_inv s" and "cpus_ready s evs" and "tasks_active s = pre @ p # post"
    and "status (the (tasks s p)) = TASK_READY" and "length pre < length evs"
  shows "\<exists>ds s'. run_switches evs s = Returns (ds, s') \<and> sched_inv s' \<and> scheduled s' = scheduled s
     \<and> p \<in> set (take (Suc (length pre)) ds)"
  using run_switches_serves [OF assms(1,2)] assms(3-5) by blast

lemma sched_serves_ready_witness:
  "\<exists>ds s'. run_switches [(0, \<lambda>_. 10, 0x9000), (0, \<lambda>_. 60, 0x9100)] demo_sched = Returns (ds, s')
     \<and> sched_inv s' \<and> scheduled s' = scheduled demo_sched \<and> 0x400 \<in> set (take (Suc (length [0x300 :: u64])) ds)"
  by (rule sched_serves_ready [OF demo_sched_inv, of _ "[0x300]" "0x400" "[]"])
    (simp_all add: demo_sched_def sched_boot_def cpus_ready_def CPU_MAX_def demo_task_def)

text \<open>
  the task a switch picks is the first of the queue that is ready or whose wake-up time has
  come; the ones it skipped go to the end in their order. With none to run the queue is unchanged.
\<close>

theorem pick_next_first:
  assumes "set act \<subseteq> dom ts"
  shows "pick_next ts now k act 0 = Returns (case scan ts now k act of
       Some (s, x, r) \<Rightarrow> (x, r @ s) | None \<Rightarrow> (0, act))
    \<and> (\<forall>s x r. scan ts now k act = Some (s, x, r) \<longrightarrow> act = s @ x # r
         \<and> (\<forall>y \<in> set s. status (the (ts y)) \<noteq> TASK_READY))"
  using pick_next_scan [OF assms] scan_split scan_ready_skipped by blast

lemma pick_next_first_witness:
  "pick_next (tasks demo_sched) (\<lambda>_. 10) 0 [0x300, 0x400] 0 = Returns (0x400, [0x300])"
proof -
  have "set [0x300, 0x400] \<subseteq> dom (tasks demo_sched)" by (simp add: demo_sched_def)
  from pick_next_first [OF this, of "\<lambda>_. 10" 0] show ?thesis
    by (simp add: demo_sched_def demo_task_def)
qed

text \<open>
  when the task ids are used up, \<open>task_make\<close> answers NULL and \<open>sched_add\<close> queues that NULL:
  once it is at the front of the queue, the next switch dereferences it.
\<close>

theorem sched_add_null:
  assumes "curr_tid s = TID_MAX" and "tasks s 0 = None" and "tasks_active s = []"
    and "tasks_running s cpu = 0" and "cpu < CPU_MAX"
  shows "\<exists>s'. sched_add s entry = Returns s' \<and> tasks_active s' = [0]
    \<and> do_context_switch s' (Some (cpu_num s')) cpu now stack = Faults NullDeref"
  using assms by (simp add: sched_add_def task_make_def do_context_switch_def save_current_def deref_def Let_def)

lemma sched_add_null_witness:
  "\<exists>s'. sched_add ((sched_boot demo_heap)\<lparr>curr_tid := TID_MAX\<rparr>) 0x1234 = Returns s' \<and> tasks_active s' = [0]
    \<and> do_context_switch s' (Some (cpu_num s')) 0 (\<lambda>_. 0) 0x9000 = Faults NullDeref"
  by (rule sched_add_null) (simp_all add: sched_boot_def CPU_MAX_def)

end
