(* ===== verification/Spinlock.thy ===== *)
theory Spinlock
  imports Hanos_Prelude
begin

text \<open>
  The spinlock macros of \<open>lib/lock.h\<close>, one step per instruction that touches shared state, for
  any number of CPUs that interleave freely. Of the flags register only the interrupt flag is
  kept. \<open>entry_if\<close> is a ghost: the interrupt flag a CPU had when it called \<open>lock_lock\<close>.
\<close>

text \<open>
  Where a CPU is: outside; at a \<open>lock btsl\<close>; in the \<open>btl\<close> loop; past a successful \<open>btsl\<close> and
  before the \<open>pop\<close>; in the critical section; past the \<open>push\<close> of \<open>lock_release\<close>; past its
  \<open>btrl\<close>.
\<close>

datatype lock_pc = Outside | TryLock | SpinWait | Acquired | Critical | Releasing | Restoring

record lock_cpu =
  pc :: lock_pc
  iflag :: bool
  stack_if :: bool
  entry_if :: bool

record lock_state =
  lock_bit :: bool
  rflags :: bool
  cpus :: "nat \<Rightarrow> lock_cpu"

definition upd_cpu :: "nat \<Rightarrow> (lock_cpu \<Rightarrow> lock_cpu) \<Rightarrow> lock_state \<Rightarrow> lock_state" where
  "upd_cpu i f s = s\<lparr>cpus := (cpus s)(i := f (cpus s i))\<rparr>"

definition lock_new :: "bool \<Rightarrow> lock_state" where
  "lock_new fl = \<lparr>lock_bit = False, rflags = False,
     cpus = (\<lambda>_. \<lparr>pc = Outside, iflag = fl, stack_if = False, entry_if = fl\<rparr>)\<rparr>"

inductive lock_step :: "nat \<Rightarrow> lock_state \<Rightarrow> lock_state \<Rightarrow> bool" where
  push_cli: "pc (cpus s i) = Outside \<Longrightarrow>
     lock_step i s (upd_cpu i (\<lambda>c. c\<lparr>pc := TryLock, stack_if := iflag c, entry_if := iflag c, iflag := False\<rparr>) s)"
| bts_free: "pc (cpus s i) = TryLock \<Longrightarrow> \<not> lock_bit s \<Longrightarrow>
     lock_step i s ((upd_cpu i (\<lambda>c. c\<lparr>pc := Acquired\<rparr>) s)\<lparr>lock_bit := True\<rparr>)"
| bts_taken: "pc (cpus s i) = TryLock \<Longrightarrow> lock_bit s \<Longrightarrow>
     lock_step i s (upd_cpu i (\<lambda>c. c\<lparr>pc := SpinWait\<rparr>) s)"
| bt_taken: "pc (cpus s i) = SpinWait \<Longrightarrow> lock_bit s \<Longrightarrow> lock_step i s s"
| bt_free: "pc (cpus s i) = SpinWait \<Longrightarrow> \<not> lock_bit s \<Longrightarrow>
     lock_step i s (upd_cpu i (\<lambda>c. c\<lparr>pc := TryLock\<rparr>) s)"
| pop_flags: "pc (cpus s i) = Acquired \<Longrightarrow>
     lock_step i s ((upd_cpu i (\<lambda>c. c\<lparr>pc := Critical\<rparr>) s)\<lparr>rflags := stack_if (cpus s i)\<rparr>)"
| push_flags: "pc (cpus s i) = Critical \<Longrightarrow>
     lock_step i s (upd_cpu i (\<lambda>c. c\<lparr>pc := Releasing, stack_if := rflags s\<rparr>) s)"
| btr: "pc (cpus s i) = Releasing \<Longrightarrow>
     lock_step i s ((upd_cpu i (\<lambda>c. c\<lparr>pc := Restoring\<rparr>) s)\<lparr>lock_bit := False\<rparr>)"
| popfq: "pc (cpus s i) = Restoring \<Longrightarrow>
     lock_step i s (upd_cpu i (\<lambda>c. c\<lparr>pc := Outside, iflag := stack_if c\<rparr>) s)"

inductive_cases lock_stepE: "lock_step i s s'"

definition any_step :: "lock_state \<Rightarrow> lock_state \<Rightarrow> bool" where
  "any_step s s' \<longleftrightarrow> (\<exists>i. lock_step i s s')"

section \<open>The invariant\<close>

definition holds_lock :: "lock_cpu \<Rightarrow> bool" where
  "holds_lock c \<longleftrightarrow> pc c \<in> {Acquired, Critical, Releasing}"

text \<open>Where the interrupt flag of the call is, at each point of the code.\<close>

definition flags_kept :: "bool \<Rightarrow> lock_cpu \<Rightarrow> bool" where
  "flags_kept fl c \<longleftrightarrow>
     (case pc c of Outside \<Rightarrow> iflag c = entry_if c
      | Critical \<Rightarrow> fl = entry_if c \<and> \<not> iflag c
      | _ \<Rightarrow> stack_if c = entry_if c \<and> \<not> iflag c)"

definition lock_inv :: "lock_state \<Rightarrow> bool" where
  "lock_inv s \<longleftrightarrow>
     (\<forall>i j. holds_lock (cpus s i) \<longrightarrow> holds_lock (cpus s j) \<longrightarrow> i = j)
   \<and> (\<forall>i. holds_lock (cpus s i) \<longrightarrow> lock_bit s)
   \<and> (\<forall>i. flags_kept (rflags s) (cpus s i))"

lemma lock_new_inv: "lock_inv (lock_new fl)"
  by (simp add: lock_inv_def lock_new_def holds_lock_def flags_kept_def)

lemma upd_cpu_sel [simp]:
  "cpus (upd_cpu i f s) j = (if j = i then f (cpus s i) else cpus s j)"
  "lock_bit (upd_cpu i f s) = lock_bit s" "rflags (upd_cpu i f s) = rflags s"
  by (simp_all add: upd_cpu_def)

lemma inv_upd:
  assumes inv: "lock_inv s" and "holds_lock (f (cpus s i)) \<Longrightarrow> holds_lock (cpus s i)"
    and "flags_kept (rflags s) (cpus s i) \<Longrightarrow> flags_kept (rflags s) (f (cpus s i))"
  shows "lock_inv (upd_cpu i f s)"
proof -
  have h: "holds_lock (cpus (upd_cpu i f s) j) \<Longrightarrow> holds_lock (cpus s j)" for j
    using assms(2) by (auto split: if_splits)
  have "flags_kept (rflags s) (cpus s j)" for j using inv by (simp add: lock_inv_def)
  then have "flags_kept (rflags s) (cpus (upd_cpu i f s) j)" for j using assms(3) by simp
  moreover have "\<forall>j k. holds_lock (cpus (upd_cpu i f s) j) \<longrightarrow> holds_lock (cpus (upd_cpu i f s) k) \<longrightarrow> j = k"
    using inv h unfolding lock_inv_def by blast
  moreover have "\<forall>j. holds_lock (cpus (upd_cpu i f s) j) \<longrightarrow> lock_bit s"
    using inv h unfolding lock_inv_def by blast
  ultimately show ?thesis unfolding lock_inv_def upd_cpu_sel(2,3) by blast
qed

lemma lock_step_inv: "lock_step i s s' \<Longrightarrow> lock_inv s \<Longrightarrow> lock_inv s'"
proof (erule lock_stepE)
  assume inv: "lock_inv s" and a: "s' = (upd_cpu i (\<lambda>c. c\<lparr>pc := Critical\<rparr>) s)\<lparr>rflags := stack_if (cpus s i)\<rparr>"
    "pc (cpus s i) = Acquired"
  have one: "j \<noteq> i \<Longrightarrow> pc (cpus s j) \<noteq> Critical" for j
    using inv a(2) unfolding lock_inv_def holds_lock_def by (metis insertCI)
  show "lock_inv s'"
    unfolding lock_inv_def
  proof (intro conjI allI impI)
    fix j show "flags_kept (rflags s') (cpus s' j)"
    proof (cases "j = i")
      case True
      have "flags_kept (rflags s) (cpus s i)" using inv by (simp add: lock_inv_def)
      with True a show ?thesis by (simp add: flags_kept_def)
    next
      case False
      have "flags_kept (rflags s) (cpus s j)" using inv by (simp add: lock_inv_def)
      with False a one [OF False] show ?thesis by (simp add: flags_kept_def split: lock_pc.splits)
    qed
  qed (use inv a in \<open>auto simp: lock_inv_def holds_lock_def split: if_splits\<close>)
next
  assume inv: "lock_inv s" and a: "s' = (upd_cpu i (\<lambda>c. c\<lparr>pc := Restoring\<rparr>) s)\<lparr>lock_bit := False\<rparr>"
    "pc (cpus s i) = Releasing"
  have one: "j \<noteq> i \<Longrightarrow> \<not> holds_lock (cpus s j)" for j
    using inv a(2) unfolding lock_inv_def holds_lock_def by (metis insertCI)
  have fk: "flags_kept (rflags s) (cpus s j)" for j using inv by (simp add: lock_inv_def)
  have "flags_kept (rflags s') (cpus s' j)" for j
    using fk [of j] a by (cases "j = i") (simp_all add: flags_kept_def)
  moreover have "\<not> holds_lock (cpus s' j)" for j
    using one [of j] a by (simp add: holds_lock_def)
  ultimately show "lock_inv s'" by (simp add: lock_inv_def)
next
  assume inv: "lock_inv s" and a: "s' = (upd_cpu i (\<lambda>c. c\<lparr>pc := Acquired\<rparr>) s)\<lparr>lock_bit := True\<rparr>"
    "pc (cpus s i) = TryLock" "\<not> lock_bit s"
  have none: "\<not> holds_lock (cpus s j)" for j using inv a(3) by (auto simp: lock_inv_def)
  have fk: "flags_kept (rflags s) (cpus s j)" for j using inv by (simp add: lock_inv_def)
  have "flags_kept (rflags s') (cpus s' j)" for j
    using fk [of j] a by (cases "j = i") (simp_all add: flags_kept_def)
  moreover have "holds_lock (cpus s' j) \<longleftrightarrow> j = i" for j
    using none [of j] a by (auto simp: holds_lock_def)
  ultimately show "lock_inv s'" using a by (simp add: lock_inv_def)
qed (auto intro!: inv_upd simp: holds_lock_def flags_kept_def)

lemma lock_reach_inv: "any_step\<^sup>*\<^sup>* s s' \<Longrightarrow> lock_inv s \<Longrightarrow> lock_inv s'"
  by (induction rule: rtranclp_induct) (auto simp: any_step_def intro: lock_step_inv)

text \<open>The lock is never stuck: a set bit has a holder, and a holder can always go on.\<close>

definition lock_live :: "lock_state \<Rightarrow> bool" where
  "lock_live s \<longleftrightarrow> (lock_bit s \<longrightarrow> (\<exists>i. holds_lock (cpus s i)))"

lemma live_upd:
  assumes "lock_live s" and "holds_lock (cpus s i) \<Longrightarrow> holds_lock (f (cpus s i))"
  shows "lock_live (upd_cpu i f s)"
proof -
  have "\<exists>j. holds_lock (cpus (upd_cpu i f s) j)" if lb: "lock_bit s"
  proof -
    obtain k where k: "holds_lock (cpus s k)" using assms(1) lb by (auto simp: lock_live_def)
    then have "holds_lock (cpus (upd_cpu i f s) k)" using assms(2) by (cases "k = i") auto
    then show ?thesis by blast
  qed
  then show ?thesis by (simp add: lock_live_def)
qed

lemma live_rflags [simp]: "lock_live (s\<lparr>rflags := r\<rparr>) = lock_live s"
  by (simp add: lock_live_def)

lemma lock_step_live: "lock_step i s s' \<Longrightarrow> lock_live s \<Longrightarrow> lock_live s'"
proof (erule lock_stepE)
  assume "lock_live s" "s' = (upd_cpu i (\<lambda>c. c\<lparr>pc := Acquired\<rparr>) s)\<lparr>lock_bit := True\<rparr>"
  then show "lock_live s'" by (auto simp: lock_live_def holds_lock_def)
next
  assume "lock_live s" "s' = (upd_cpu i (\<lambda>c. c\<lparr>pc := Restoring\<rparr>) s)\<lparr>lock_bit := False\<rparr>"
  then show "lock_live s'" by (simp add: lock_live_def)
qed (auto simp: holds_lock_def intro!: live_upd)

lemma lock_reach_live: "any_step\<^sup>*\<^sup>* s s' \<Longrightarrow> lock_live s \<Longrightarrow> lock_live s'"
  by (induction rule: rtranclp_induct) (auto simp: any_step_def intro: lock_step_live)

section \<open>Properties\<close>


text \<open>CPU 0 holds the lock, CPU 1 waits for it.\<close>

definition demo_lock :: lock_state where
  "demo_lock = upd_cpu 1 (\<lambda>c. c\<lparr>pc := TryLock, stack_if := iflag c, entry_if := iflag c, iflag := False\<rparr>)
     ((upd_cpu 0 (\<lambda>c. c\<lparr>pc := Acquired\<rparr>)
        (upd_cpu 0 (\<lambda>c. c\<lparr>pc := TryLock, stack_if := iflag c, entry_if := iflag c, iflag := False\<rparr>)
          (lock_new True)))\<lparr>lock_bit := True\<rparr>)"

lemma demo_lock_reachable: "any_step\<^sup>*\<^sup>* (lock_new True) demo_lock"
proof -
  let ?f = "\<lambda>c. c\<lparr>pc := TryLock, stack_if := iflag c, entry_if := iflag c, iflag := False\<rparr>"
  have 1: "any_step (lock_new True) (upd_cpu 0 ?f (lock_new True))"
    unfolding any_step_def by (rule exI [of _ 0], rule push_cli) (simp add: lock_new_def)
  have 2: "any_step (upd_cpu 0 ?f (lock_new True))
      ((upd_cpu 0 (\<lambda>c. c\<lparr>pc := Acquired\<rparr>) (upd_cpu 0 ?f (lock_new True)))\<lparr>lock_bit := True\<rparr>)"
    unfolding any_step_def by (rule exI [of _ 0], rule bts_free) (simp_all add: lock_new_def)
  have 3: "any_step ((upd_cpu 0 (\<lambda>c. c\<lparr>pc := Acquired\<rparr>) (upd_cpu 0 ?f (lock_new True)))\<lparr>lock_bit := True\<rparr>) demo_lock"
    unfolding any_step_def demo_lock_def by (rule exI [of _ 1], rule push_cli) (simp add: lock_new_def)
  show ?thesis
    by (rule converse_rtranclp_into_rtranclp [OF 1 converse_rtranclp_into_rtranclp [OF 2 r_into_rtranclp [of any_step, OF 3]]])
qed


end
