(* ===== verification/Ports.thy ===== *)
theory Ports
  imports Hanos_Prelude
begin

text \<open>
  Port input and output, the interface between the drivers and the devices. A device is a state
  \<open>'d\<close> with \<open>outb\<close> and \<open>inb\<close> (and the 16- and 32-bit accesses); every access may change the state.
  The devices are parameters of the drivers.
\<close>

record 'd byte_ports =
  outb :: "u16 \<Rightarrow> u8 \<Rightarrow> 'd \<Rightarrow> 'd"
  inb :: "u16 \<Rightarrow> 'd \<Rightarrow> u8 \<times> 'd"

record 'd io_ports = "'d byte_ports" +
  outw :: "u16 \<Rightarrow> u16 \<Rightarrow> 'd \<Rightarrow> 'd"
  inw :: "u16 \<Rightarrow> 'd \<Rightarrow> u16 \<times> 'd"
  outd :: "u16 \<Rightarrow> u32 \<Rightarrow> 'd \<Rightarrow> 'd"
  ind :: "u16 \<Rightarrow> 'd \<Rightarrow> u32 \<times> 'd"

text \<open>Polling a status register at most \<open>n\<close> times: whether the condition was met, and the device.\<close>

fun poll :: "nat \<Rightarrow> ('d \<Rightarrow> u8 \<times> 'd) \<Rightarrow> (u8 \<Rightarrow> bool) \<Rightarrow> 'd \<Rightarrow> bool \<times> 'd" where
  "poll 0 rd_status ready d = (False, d)"
| "poll (Suc n) rd_status ready d =
     (let (b, d) = rd_status d in if ready b then (True, d) else poll n rd_status ready d)"

end
