(* ===== verification/Calendar.thy ===== *)
theory Calendar
  imports Time_Types Ports
begin

text \<open>
  The real-time clock and the calendar (\<open>core/cmos.c\<close>, \<open>lib/time.c\<close>): reading the CMOS clock
  through its index and data ports, decoding its registers, seconds since 1970 from a date, and
  the broken-down time of a number of seconds. The chip behind the ports is a parameter.
  The C fields of type \<open>int\<close> are integers; an \<open>int\<close> operation whose result leaves the
  32-bit range is the fault \<open>IntOverflow\<close>.
\<close>

section \<open>Broken-down time: \<open>lib/time.c\<close>\<close>

definition year_is_leap :: "int \<Rightarrow> bool" where
  "year_is_leap year \<longleftrightarrow> year mod 4 = 0 \<and> (year mod 100 \<noteq> 0 \<or> year mod 400 = 0)"

definition day_of_week :: "u64 \<Rightarrow> int" where
  "day_of_week seconds = uint ((seconds div 86400 + 4) mod 7)"

definition days_in_month :: "int \<Rightarrow> int \<Rightarrow> int" where
  "days_in_month month year =
     (if month = 12 then 31
      else if month = 11 then 30
      else if month = 10 then 31
      else if month = 9 then 30
      else if month = 8 then 31
      else if month = 7 then 31
      else if month = 6 then 30
      else if month = 5 then 31
      else if month = 4 then 30
      else if month = 3 then 31
      else if month = 2 then (if year_is_leap year then 29 else 28)
      else if month = 1 then 31
      else 0)"

text \<open>
  The four nested loops of \<open>localtime\<close>, innermost first. Each carries the seconds passed so
  far and the target of the pointer argument; \<open>Inr\<close> is the \<open>return\<close>, which also follows a
  nested loop that runs out.
\<close>

definition finish_time :: "u64 \<Rightarrow> u64 \<Rightarrow> u64 \<Rightarrow> int \<Rightarrow> tm \<Rightarrow> tm" where
  "finish_time t year_sec seconds hour v =
     (let remaining = t - seconds in
      v\<lparr>tm_hour := hour - 1, tm_min := uint (remaining div 60), tm_sec := uint (remaining mod 60),
        tm_wday := day_of_week t, tm_yday := uint ((t - year_sec) div 86400), tm_isdst := 0\<rparr>)"

definition hour_body :: "u64 \<Rightarrow> u64 \<Rightarrow> int \<Rightarrow> u64 \<times> tm \<Rightarrow> (u64 \<times> tm + tm) outcome" where
  "hour_body t year_sec hour st =
     (case st of (seconds, v) \<Rightarrow>
        if seconds + 60 * 60 > t then Returns (Inr (finish_time t year_sec seconds hour v))
        else Returns (Inl (seconds + 60 * 60, v)))"

definition returned :: "('s \<times> tm + tm) outcome \<Rightarrow> ('s \<times> tm + tm) outcome" where
  "returned r = obind r (\<lambda>c. case c of Inl (s, v) \<Rightarrow> Returns (Inr v) | Inr v \<Rightarrow> Returns (Inr v))"

definition day_body :: "u64 \<Rightarrow> u64 \<Rightarrow> int \<Rightarrow> u64 \<times> tm \<Rightarrow> (u64 \<times> tm + tm) outcome" where
  "day_body t year_sec day st =
     (case st of (seconds, v) \<Rightarrow>
        if seconds + 60 * 60 * 24 > t
        then returned (run_list (hour_body t year_sec) [1..24] (seconds, v\<lparr>tm_mday := day\<rparr>))
        else Returns (Inl (seconds + 60 * 60 * 24, v)))"

definition month_body :: "u64 \<Rightarrow> u64 \<Rightarrow> int \<Rightarrow> int \<Rightarrow> u64 \<times> tm \<Rightarrow> (u64 \<times> tm + tm) outcome" where
  "month_body t year_sec year month st =
     (case st of (seconds, v) \<Rightarrow>
        let secs = of_int (days_in_month month year * 86400) in
        if seconds + secs > t
        then returned (run_list (day_body t year_sec) [1..days_in_month month year]
                         (seconds, v\<lparr>tm_mon := month - 1\<rparr>))
        else Returns (Inl (seconds + secs, v)))"

definition year_body :: "u64 \<Rightarrow> int \<Rightarrow> u64 \<times> tm \<Rightarrow> (u64 \<times> tm + tm) outcome" where
  "year_body t year st =
     (case st of (seconds, v) \<Rightarrow>
        let secs = of_int ((if year_is_leap year then 366 else 365) * 86400) in
        if seconds + secs > t
        then returned (run_list (month_body t seconds year) [1..12]
                         (seconds, v\<lparr>tm_year := year - 1900\<rparr>))
        else Returns (Inl (seconds + secs, v)))"

definition localtime :: "u64 \<Rightarrow> tm \<Rightarrow> tm outcome" where
  "localtime t v =
     omap (\<lambda>c. case c of Inl (s, v') \<Rightarrow> v' | Inr v' \<Rightarrow> v') (run_list (year_body t) [1970..2099] (0, v))"

section \<open>Seconds of a date: \<open>core/cmos.c\<close>\<close>

definition years_step :: "u64 \<times> u64 \<Rightarrow> (u64 \<times> u64 + u64) outcome" where
  "years_step st =
     (case st of (years, days) \<Rightarrow>
        if years > 1969 then
          let days = days + 365;
              days = (if years mod 4 = 0
                      then (if years mod 100 = 0
                            then (if years mod 400 = 0 then days + 1 else days)
                            else days + 1)
                      else days)
          in Returns (Inl (years - 1, days))
        else Returns (Inr days))"

definition secs_of_years :: "u64 \<Rightarrow> u64 outcome" where
  "secs_of_years years = omap (\<lambda>days. days * 86400) (loop_c years_step (years, 0))"

definition month_days :: "u64 \<Rightarrow> u64 \<Rightarrow> u64" where
  "month_days i year =
     (if i \<in> {12, 10, 8, 7, 5, 3, 1} then 31
      else if i \<in> {11, 9, 6, 4} then 30
      else if i = 2 then
        28 + (if year mod 4 = 0 \<and> (year mod 100 \<noteq> 0 \<or> year mod 400 = 0) then 1 else 0)
      else 0)"

definition months_step :: "u64 \<Rightarrow> u64 \<Rightarrow> u64 \<times> u64 \<Rightarrow> (u64 \<times> u64 + u64) outcome" where
  "months_step months year st =
     (case st of (i, days) \<Rightarrow>
        if i \<le> months then Returns (Inl (i + 1, days + month_days i year)) else Returns (Inr days))"

definition secs_of_month :: "u64 \<Rightarrow> u64 \<Rightarrow> u64 outcome" where
  "secs_of_month months year = omap (\<lambda>days. days * 86400) (loop_c (months_step months year) (1, 0))"

text \<open>\<open>mktime\<close>: the \<open>int\<close> terms are computed in \<open>int\<close> and then converted.\<close>

definition c_int :: "int \<Rightarrow> int outcome" where
  "c_int x = (if - (2 ^ 31) \<le> x \<and> x < 2 ^ 31 then Returns x else Faults IntOverflow)"

definition mktime :: "tm \<Rightarrow> u64 outcome" where
  "mktime v =
     obind (c_int (tm_year v + 1900)) (\<lambda>year.
     obind (secs_of_years (of_int year)) (\<lambda>ys.
     obind (secs_of_month (of_int (tm_mon v)) (of_int year)) (\<lambda>ms.
     obind (c_int (tm_mday v - 1)) (\<lambda>d.
     obind (c_int (d * 86400)) (\<lambda>ds.
     obind (c_int (tm_hour v * 3600)) (\<lambda>hs.
     obind (c_int (tm_min v * 60)) (\<lambda>mins.
       Returns (ys + ms + of_int ds + of_int hs + of_int mins + of_int (tm_sec v)))))))))"

section \<open>The clock chip: \<open>core/cmos.c\<close>\<close>

definition CMOS_COMMAND_PORT :: u16 where "CMOS_COMMAND_PORT = 0x70"
definition CMOS_DATA_PORT :: u16 where "CMOS_DATA_PORT = 0x71"
definition CMOS_REG_SECONDS :: u8 where "CMOS_REG_SECONDS = 0x00"
definition CMOS_REG_MINUTES :: u8 where "CMOS_REG_MINUTES = 0x02"
definition CMOS_REG_HOURS :: u8 where "CMOS_REG_HOURS = 0x04"
definition CMOS_REG_WEEKDAYS :: u8 where "CMOS_REG_WEEKDAYS = 0x06"
definition CMOS_REG_DAY :: u8 where "CMOS_REG_DAY = 0x07"
definition CMOS_REG_MONTH :: u8 where "CMOS_REG_MONTH = 0x08"
definition CMOS_REG_YEAR :: u8 where "CMOS_REG_YEAR = 0x09"
definition CMOS_REG_CENTURY :: u8 where "CMOS_REG_CENTURY = 0x32"
definition CMOS_REG_STATUS_A :: u8 where "CMOS_REG_STATUS_A = 0x0A"
definition CMOS_REG_STATUS_B :: u8 where "CMOS_REG_STATUS_B = 0x0B"
definition CURRENT_YEAR :: u16 where "CURRENT_YEAR = 2022"

lemmas cmos_regs = CMOS_COMMAND_PORT_def CMOS_DATA_PORT_def CMOS_REG_SECONDS_def
  CMOS_REG_MINUTES_def CMOS_REG_HOURS_def CMOS_REG_WEEKDAYS_def CMOS_REG_DAY_def
  CMOS_REG_MONTH_def CMOS_REG_YEAR_def CMOS_REG_CENTURY_def CMOS_REG_STATUS_A_def
  CMOS_REG_STATUS_B_def

record cmos_rtc =
  rtc_seconds :: u8
  rtc_minutes :: u8
  rtc_hours :: u8
  rtc_weekdays :: u8
  rtc_day :: u8
  rtc_month :: u8
  rtc_year :: u16
  rtc_century :: u8

definition get_rtc_register :: "'d byte_ports \<Rightarrow> u8 \<Rightarrow> 'd \<Rightarrow> u8 \<times> 'd" where
  "get_rtc_register P reg d = inb P CMOS_DATA_PORT (outb P CMOS_COMMAND_PORT (push_bit 7 1 OR reg) d)"

definition update_in_progress :: "'d byte_ports \<Rightarrow> 'd \<Rightarrow> bool \<times> 'd" where
  "update_in_progress P d =
     (let (b, d') = inb P CMOS_DATA_PORT (outb P CMOS_COMMAND_PORT CMOS_REG_STATUS_A d)
      in (b AND 0x80 \<noteq> 0, d'))"

definition await_step :: "'d byte_ports \<Rightarrow> 'd \<Rightarrow> ('d + 'd) outcome" where
  "await_step P d = (let (busy, d') = update_in_progress P d in Returns (if busy then Inl d' else Inr d'))"

definition await_update :: "'d byte_ports \<Rightarrow> 'd \<Rightarrow> 'd outcome" where
  "await_update P = loop_c (await_step P)"

definition read_fields :: "'d byte_ports \<Rightarrow> 'd \<Rightarrow> cmos_rtc \<times> 'd" where
  "read_fields P d =
     (let (s, d) = get_rtc_register P CMOS_REG_SECONDS d;
          (mi, d) = get_rtc_register P CMOS_REG_MINUTES d;
          (h, d) = get_rtc_register P CMOS_REG_HOURS d;
          (w, d) = get_rtc_register P CMOS_REG_WEEKDAYS d;
          (da, d) = get_rtc_register P CMOS_REG_DAY d;
          (mo, d) = get_rtc_register P CMOS_REG_MONTH d;
          (y, d) = get_rtc_register P CMOS_REG_YEAR d;
          (c, d) = get_rtc_register P CMOS_REG_CENTURY d
      in (\<lparr>rtc_seconds = s, rtc_minutes = mi, rtc_hours = h, rtc_weekdays = w, rtc_day = da,
           rtc_month = mo, rtc_year = ucast y, rtc_century = c\<rparr>, d))"

definition rtc_values_are_not_equal :: "cmos_rtc \<Rightarrow> cmos_rtc \<Rightarrow> bool" where
  "rtc_values_are_not_equal c1 c2 \<longleftrightarrow>
     rtc_seconds c1 \<noteq> rtc_seconds c2 \<or> rtc_minutes c1 \<noteq> rtc_minutes c2 \<or>
     rtc_hours c1 \<noteq> rtc_hours c2 \<or> rtc_weekdays c1 \<noteq> rtc_weekdays c2 \<or> rtc_day c1 \<noteq> rtc_day c2 \<or>
     rtc_month c1 \<noteq> rtc_month c2 \<or> rtc_year c1 \<noteq> rtc_year c2 \<or>
     rtc_century c1 \<noteq> rtc_century c2"

definition reread_step :: "'d byte_ports \<Rightarrow> cmos_rtc \<times> 'd \<Rightarrow> (cmos_rtc \<times> 'd + cmos_rtc \<times> 'd) outcome" where
  "reread_step P st =
     (case st of (prev, d) \<Rightarrow>
        obind (await_update P d) (\<lambda>d.
          let (rtc, d) = read_fields P d in
          Returns (if rtc_values_are_not_equal rtc prev then Inl (rtc, d) else Inr (rtc, d))))"

definition bcd8 :: "u8 \<Rightarrow> u8" where
  "bcd8 b = (b AND 0x0F) + (b div 16) * 10"

definition from_bcd :: "cmos_rtc \<Rightarrow> cmos_rtc" where
  "from_bcd r =
     r\<lparr>rtc_seconds := bcd8 (rtc_seconds r), rtc_minutes := bcd8 (rtc_minutes r),
       rtc_hours := ((rtc_hours r AND 0x0F) + ((rtc_hours r AND 0x70) div 16) * 10)
                      OR (rtc_hours r AND 0x80),
       rtc_weekdays := bcd8 (rtc_weekdays r), rtc_day := bcd8 (rtc_day r),
       rtc_month := bcd8 (rtc_month r),
       rtc_year := (rtc_year r AND 0x0F) + (rtc_year r div 16) * 10,
       rtc_century := bcd8 (rtc_century r)\<rparr>"

definition to_24h :: "u8 \<Rightarrow> u8" where
  "to_24h h = ((h AND 0x7F) + 12) mod 24"

text \<open>\<open>century_register\<close> is a global that nothing sets: an argument, 0 in the program.\<close>

definition full_year :: "int \<Rightarrow> cmos_rtc \<Rightarrow> u16" where
  "full_year century_register r =
     (if rtc_year r < 100 then
        (if century_register \<noteq> 0 then rtc_year r + ucast (rtc_century r) * 100
         else let y = rtc_year r + (CURRENT_YEAR div 100) * 100
              in if y < CURRENT_YEAR then y + 100 else y)
      else rtc_year r)"

definition rtc_decode :: "int \<Rightarrow> u8 \<Rightarrow> cmos_rtc \<Rightarrow> cmos_rtc" where
  "rtc_decode century_register reg_b rtc =
     (let rtc = (if reg_b AND 0x04 = 0 then from_bcd rtc else rtc);
          rtc = (if reg_b AND 0x02 = 0 \<and> rtc_hours rtc AND 0x80 \<noteq> 0
                 then rtc\<lparr>rtc_hours := to_24h (rtc_hours rtc)\<rparr> else rtc)
      in rtc\<lparr>rtc_year := full_year century_register rtc\<rparr>)"

definition cmos_read_rtc :: "'d byte_ports \<Rightarrow> 'd \<Rightarrow> (cmos_rtc \<times> 'd) outcome" where
  "cmos_read_rtc P d =
     obind (await_update P d) (\<lambda>d.
     obind (loop_c (reread_step P) (read_fields P d)) (\<lambda>(rtc, d).
       let (reg_b, d) = get_rtc_register P CMOS_REG_STATUS_B d in
       Returns (rtc_decode 0 reg_b rtc, d)))"

definition rtc_to_secs :: "cmos_rtc \<Rightarrow> u64 outcome" where
  "rtc_to_secs r =
     obind (secs_of_years (of_int (uint (rtc_year r) - 1))) (\<lambda>ys.
     obind (secs_of_month (of_int (uint (rtc_month r) - 1)) (ucast (rtc_year r))) (\<lambda>ms.
       Returns (ys + ms + of_int ((uint (rtc_day r) - 1) * 86400)
                + of_int (uint (rtc_hours r) * 3600) + of_int (uint (rtc_minutes r) * 60)
                + ucast (rtc_seconds r))))"

definition cmos_current_time :: "'d byte_ports \<Rightarrow> 'd \<Rightarrow> (u64 \<times> 'd) outcome" where
  "cmos_current_time P d =
     obind (cmos_read_rtc P d) (\<lambda>(rtc, d). omap (\<lambda>t. (t, d)) (rtc_to_secs rtc))"

text \<open>\<open>cmos_init\<close> answers the value it stores in \<open>boot_time\<close>.\<close>

definition cmos_init :: "'d byte_ports \<Rightarrow> 'd \<Rightarrow> (u64 \<times> 'd) outcome" where
  "cmos_init P d =
     obind (cmos_read_rtc P d) (\<lambda>(rtc, d). omap (\<lambda>boot_time. (boot_time, d)) (rtc_to_secs rtc))"

section \<open>The calendar the code is checked against\<close>

definition year_days :: "int \<Rightarrow> nat" where
  "year_days y = (if year_is_leap y then 366 else 365)"

definition days_before_year :: "int \<Rightarrow> nat" where
  "days_before_year y = sum_list (map year_days [1970..y - 1])"

definition days_before_month :: "int \<Rightarrow> int \<Rightarrow> nat" where
  "days_before_month m y = sum_list (map (\<lambda>m. nat (days_in_month m y)) [1..m - 1])"

definition date_days :: "int \<Rightarrow> int \<Rightarrow> int \<Rightarrow> nat" where
  "date_days y m d = days_before_year y + days_before_month m y + nat (d - 1)"

definition date_secs :: "int \<Rightarrow> int \<Rightarrow> int \<Rightarrow> int \<Rightarrow> int \<Rightarrow> int \<Rightarrow> nat" where
  "date_secs y m d h mi s = date_days y m d * 86400 + nat h * 3600 + nat mi * 60 + nat s"

definition valid_date :: "int \<Rightarrow> int \<Rightarrow> int \<Rightarrow> int \<Rightarrow> int \<Rightarrow> int \<Rightarrow> bool" where
  "valid_date y m d h mi s \<longleftrightarrow> 1970 \<le> y \<and> y \<le> 2099 \<and> 1 \<le> m \<and> m \<le> 12 \<and> 1 \<le> d \<and> d \<le> days_in_month m y \<and>
     0 \<le> h \<and> h < 24 \<and> 0 \<le> mi \<and> mi < 60 \<and> 0 \<le> s \<and> s < 60"

definition date_tm :: "int \<Rightarrow> int \<Rightarrow> int \<Rightarrow> int \<Rightarrow> int \<Rightarrow> int \<Rightarrow> tm" where
  "date_tm y m d h mi s =
     \<lparr>tm_sec = s, tm_min = mi, tm_hour = h, tm_mday = d, tm_mon = m - 1, tm_year = y - 1900,
      tm_wday = int ((date_days y m d + 4) mod 7),
      tm_yday = int (days_before_month m y) + d - 1, tm_isdst = 0\<rparr>"

lemma upto_split: "a \<le> i \<Longrightarrow> i \<le> b \<Longrightarrow> [a..b] = [a..i - 1] @ i # [i + 1..b]" for a b i :: int
  using upto_split1 [of a i b] upto_rec1 [of i b] by simp

lemma upto_split_1: "0 \<le> h \<Longrightarrow> h < b \<Longrightarrow> [1..b] = [1..h] @ (h + 1) # [h + 2..b]" for h b :: int
  using upto_split [of 1 "h + 1" b] by (simp add: add.commute)

text \<open>The scan each of the four loops does: find the item whose interval holds \<open>t\<close>.\<close>

lemma scan_hit:
  fixes s t :: u64
  assumes body: "\<And>i s. i \<in> set as \<union> {j} \<Longrightarrow> body i (s, v) =
      (if s + of_nat (n i) > t then hit i s else Returns (Inl (s + of_nat (n i), v)))"
    and lo: "unat s + sum_list (map n as) \<le> unat t"
    and hi: "unat t < unat s + sum_list (map n as) + n j"
    and small: "unat s + sum_list (map n as) + n j < 2 ^ 64"
    and hit: "hit j (s + of_nat (sum_list (map n as))) = Returns (Inr r)"
  shows "run_list body (as @ j # bs) (s, v) = Returns (Inr r)"
  using assms
proof (induction as arbitrary: s)
  case Nil
  have "t < s + of_nat (n j)" using Nil.prems by (simp add: word_less_nat_alt unat_add_of_nat)
  with Nil.prems(1) [of j s] Nil.prems(5) show ?case by simp
next
  case (Cons a as)
  have u: "unat (s + of_nat (n a)) = unat s + n a" using Cons.prems by (intro unat_add_of_nat) simp
  have "\<not> t < s + of_nat (n a)" using Cons.prems by (simp add: word_less_nat_alt u)
  then have step: "body a (s, v) = Returns (Inl (s + of_nat (n a), v))"
    using Cons.prems(1) [of a s] by simp
  have "run_list body (as @ j # bs) (s + of_nat (n a), v) = Returns (Inr r)"
  proof (rule Cons.IH)
    show "body i (s', v) = (if s' + of_nat (n i) > t then hit i s' else Returns (Inl (s' + of_nat (n i), v)))"
      if "i \<in> set as \<union> {j}" for i s'
      using that Cons.prems(1) [of i s'] by auto
  qed (use Cons.prems(2-5) in \<open>simp_all add: u add.assoc\<close>)
  with step show ?case by simp
qed

lemma scan_exists:
  fixes t :: nat
  assumes "s \<le> t" "t < s + sum_list (map n xs)"
  shows "\<exists>as j bs. xs = as @ j # bs \<and> s + sum_list (map n as) \<le> t \<and> t < s + sum_list (map n as) + n j"
  using assms
proof (induction xs arbitrary: s)
  case Nil then show ?case by simp
next
  case (Cons x xs)
  show ?case
  proof (cases "t < s + n x")
    case True
    with Cons.prems show ?thesis by (intro exI [of _ "[]"]) auto
  next
    case False
    with Cons obtain as j bs where "xs = as @ j # bs"
      "s + n x + sum_list (map n as) \<le> t" "t < s + n x + sum_list (map n as) + n j"
      using Cons.IH [of "s + n x"] by (auto simp: add.assoc)
    then show ?thesis by (intro exI [of _ "x # as"] exI [of _ j] exI [of _ bs]) (simp add: add.assoc)
  qed
qed


lemma sum_const [simp]: "sum_list (map (\<lambda>x. c) xs) = length xs * (c :: nat)"
  by (induction xs) auto

lemma length_upto_1: "0 \<le> h \<Longrightarrow> length [1..h] = nat h"
  by simp

lemma hours_found:
  assumes "0 \<le> h" "h < 24" "unat s + nat h * 3600 \<le> unat t" "unat t < unat s + nat h * 3600 + 3600"
    "unat s + nat h * 3600 + 3600 < 2 ^ 64"
  shows "run_list (hour_body t ys) [1..24] (s, v)
       = Returns (Inr (finish_time t ys (s + of_nat (nat h * 3600)) (h + 1) v))"
proof -
  have "[1..24] = [1..h] @ (h + 1) # [h + 2..24]" using assms by (intro upto_split_1)
  moreover have "run_list (hour_body t ys) ([1..h] @ (h + 1) # [h + 2..24]) (s, v)
      = Returns (Inr (finish_time t ys (s + of_nat (nat h * 3600)) (h + 1) v))"
    by (rule scan_hit [where n = "\<lambda>_. 3600" and t = t
          and hit = "\<lambda>i s. Returns (Inr (finish_time t ys s i v))"])
      (use assms in \<open>simp_all add: hour_body_def\<close>)
  ultimately show ?thesis by simp
qed

lemma days_found:
  assumes "0 \<le> d" "d < b" "unat s + nat d * 86400 \<le> unat t" "unat t < unat s + nat d * 86400 + 86400"
    "unat s + nat d * 86400 + 86400 < 2 ^ 64"
    and h: "h = (unat t - unat s) mod 86400 div 3600"
  shows "run_list (day_body t ys) [1..b] (s, v)
       = Returns (Inr (finish_time t ys (s + of_nat (nat d * 86400 + h * 3600)) (int h + 1)
           (v\<lparr>tm_mday := d + 1\<rparr>)))"
proof -
  let ?s = "s + of_nat (nat d * 86400)"
  have us: "unat ?s = unat s + nat d * 86400" using assms by (intro unat_add_of_nat) simp
  define r where "r = unat t - unat s - nat d * 86400"
  have r: "r < 86400" "unat t = unat s + nat d * 86400 + r" using assms by (auto simp: r_def)
  have h': "h = r div 3600" using r by (simp add: h)
  have b: "h < 24" using r h' by (simp add: less_mult_imp_div_less)
  have split: "h * 3600 \<le> r" "r < h * 3600 + 3600" using h' div_mult_mod_eq [of r 3600] mod_less_divisor [of 3600 r] by linarith+
  have "[1..b] = [1..d] @ (d + 1) # [d + 2..b]" using assms by (intro upto_split_1)
  moreover have "run_list (day_body t ys) ([1..d] @ (d + 1) # [d + 2..b]) (s, v)
      = Returns (Inr (finish_time t ys (s + of_nat (nat d * 86400 + h * 3600)) (int h + 1)
           (v\<lparr>tm_mday := d + 1\<rparr>)))"
  proof (rule scan_hit [where n = "\<lambda>_. 86400" and t = t
          and hit = "\<lambda>i s. returned (run_list (hour_body t ys) [1..24] (s, v\<lparr>tm_mday := i\<rparr>))"])
    have "run_list (hour_body t ys) [1..24] (?s, v\<lparr>tm_mday := d + 1\<rparr>)
        = Returns (Inr (finish_time t ys (?s + of_nat (nat (int h) * 3600)) (int h + 1) (v\<lparr>tm_mday := d + 1\<rparr>)))"
      by (rule hours_found) (use assms(5) b split r(2) us in simp_all)
    then show "returned (run_list (hour_body t ys) [1..24]
          (s + of_nat (sum_list (map (\<lambda>_. 86400) [1..d])), v\<lparr>tm_mday := d + 1\<rparr>))
        = Returns (Inr (finish_time t ys (s + of_nat (nat d * 86400 + h * 3600)) (int h + 1)
           (v\<lparr>tm_mday := d + 1\<rparr>)))"
      using assms(1) by (simp add: returned_def add.assoc)
  qed (use assms in \<open>simp_all add: day_body_def\<close>)
  ultimately show ?thesis by simp
qed


lemma days_in_month_bounds: "0 \<le> days_in_month m y" "days_in_month m y \<le> 31"
  by (simp_all add: days_in_month_def)

lemma sum_le: "(\<And>x. x \<in> set xs \<Longrightarrow> f x \<le> c) \<Longrightarrow> sum_list (map f xs) \<le> length xs * (c :: nat)"
  by (induction xs) (auto intro: add_mono)

lemma sum_scale: "sum_list (map (\<lambda>x. f x * k) xs) = sum_list (map f xs) * (k :: nat)"
  by (induction xs) (auto simp: distrib_right)

lemma days_before_month_bound: "m \<le> 12 \<Longrightarrow> days_before_month m y \<le> 341"
  using sum_le [of "[1..m - 1]" "\<lambda>m. nat (days_in_month m y)" 31] days_in_month_bounds(2)
  by (force simp: days_before_month_def nat_le_iff)

lemma days_before_year_bound: "y \<le> 2100 \<Longrightarrow> days_before_year y \<le> 47580"
  using sum_le [of "[1970..y - 1]" year_days 366] by (force simp: days_before_year_def year_days_def)

lemma of_int_days: "0 \<le> k \<Longrightarrow> (of_int (k * 86400) :: u64) = of_nat (nat k * 86400)"
  by (auto dest: nonneg_eq_int)

lemma months_found:
  assumes "1 \<le> m" "m \<le> 12" "1 \<le> d" "d \<le> days_in_month m y" "unat s < 2 ^ 40"
    and t: "unat t = unat s + (days_before_month m y + nat (d - 1)) * 86400 + r" "r < 86400"
  shows "run_list (month_body t ys y) [1..12] (s, v)
       = Returns (Inr (finish_time t ys
           (s + of_nat ((days_before_month m y + nat (d - 1)) * 86400 + r div 3600 * 3600))
           (int (r div 3600) + 1) (v\<lparr>tm_mon := m - 1, tm_mday := d\<rparr>)))"
proof -
  let ?n = "\<lambda>m. nat (days_in_month m y) * 86400"
  let ?b = "days_before_month m y"
  have n: "sum_list (map ?n [1..m - 1]) = ?b * 86400" by (simp add: sum_scale days_before_month_def)
  have b: "?b \<le> 341" using days_before_month_bound assms by simp
  have dm: "nat (d - 1) + 1 \<le> nat (days_in_month m y)" "nat (days_in_month m y) \<le> 31"
    using assms days_in_month_bounds(2) [of m y] by auto
  have us: "unat (s + of_nat (?b * 86400)) = unat s + ?b * 86400"
    using assms(5) b by (intro unat_add_of_nat) simp
  have w: "(of_int (days_in_month i y * 86400) :: u64) = of_nat (?n i)" for i
    using days_in_month_bounds(1) by (rule of_int_days)
  have day: "run_list (day_body t ys) [1..days_in_month m y] (s + of_nat (?b * 86400), v\<lparr>tm_mon := m - 1\<rparr>)
     = Returns (Inr (finish_time t ys (s + of_nat (?b * 86400) + of_nat (nat (d - 1) * 86400 + r div 3600 * 3600))
           (int (r div 3600) + 1) (v\<lparr>tm_mon := m - 1, tm_mday := d - 1 + 1\<rparr>)))"
    by (rule days_found) (use assms(3-5) t b dm us in \<open>simp_all add: distrib_right\<close>)
  have "run_list (month_body t ys y) ([1..m - 1] @ m # [m + 1..12]) (s, v)
       = Returns (Inr (finish_time t ys
           (s + of_nat ((?b + nat (d - 1)) * 86400 + r div 3600 * 3600))
           (int (r div 3600) + 1) (v\<lparr>tm_mon := m - 1, tm_mday := d\<rparr>)))"
  proof (rule scan_hit [where n = ?n and t = t and hit = "\<lambda>m s. returned (run_list (day_body t ys)
          [1..days_in_month m y] (s, v\<lparr>tm_mon := m - 1\<rparr>))"], unfold n)
    show "month_body t ys y i (s, v) = (if s + of_nat (?n i) > t
        then returned (run_list (day_body t ys) [1..days_in_month i y] (s, v\<lparr>tm_mon := i - 1\<rparr>))
        else Returns (Inl (s + of_nat (?n i), v)))" for i s
      unfolding month_body_def Let_def prod.case w ..
    show "unat s + ?b * 86400 \<le> unat t" using t by simp
    show "unat t < unat s + ?b * 86400 + ?n m" using t dm by (simp add: distrib_right)
    show "unat s + ?b * 86400 + ?n m < 2 ^ 64" using assms(5) b dm by simp
    show "returned (run_list (day_body t ys) [1..days_in_month m y]
        (s + of_nat (?b * 86400), v\<lparr>tm_mon := m - 1\<rparr>))
      = Returns (Inr (finish_time t ys
           (s + of_nat ((?b + nat (d - 1)) * 86400 + r div 3600 * 3600))
           (int (r div 3600) + 1) (v\<lparr>tm_mon := m - 1, tm_mday := d\<rparr>)))"
      unfolding day by (simp add: returned_def distrib_right add.assoc)
  qed
  moreover have "[1..12] = [1..m - 1] @ m # [m + 1..12]" using assms by (intro upto_split)
  ultimately show ?thesis by simp
qed


lemma days_before_year_Suc: "1970 \<le> y \<Longrightarrow> days_before_year (y + 1) = days_before_year y + year_days y"
  using upto_rec2 [of 1970 y] by (simp add: days_before_year_def)

lemma days_before_month_Suc:
  "1 \<le> m \<Longrightarrow> days_before_month (m + 1) y = days_before_month m y + nat (days_in_month m y)"
  using upto_rec2 [of 1 m] by (simp add: days_before_month_def)

lemma month_cases:
  assumes "1 \<le> m" "m \<le> 12"
  obtains "m = (1::int)" | "m = 2" | "m = 3" | "m = 4" | "m = 5" | "m = 6" | "m = 7" | "m = 8"
    | "m = 9" | "m = 10" | "m = 11" | "m = 12"
  using assms by atomize_elim presburger

lemma days_before_month_table:
  "days_before_month 1 y = 0"
  "days_before_month 2 y = 31"
  "days_before_month 3 y = 59 + year_days y - 365"
  "days_before_month 4 y = 90 + year_days y - 365"
  "days_before_month 5 y = 120 + year_days y - 365"
  "days_before_month 6 y = 151 + year_days y - 365"
  "days_before_month 7 y = 181 + year_days y - 365"
  "days_before_month 8 y = 212 + year_days y - 365"
  "days_before_month 9 y = 243 + year_days y - 365"
  "days_before_month 10 y = 273 + year_days y - 365"
  "days_before_month 11 y = 304 + year_days y - 365"
  "days_before_month 12 y = 334 + year_days y - 365"
  using days_before_month_Suc [of 1 y] days_before_month_Suc [of 2 y] days_before_month_Suc [of 3 y] days_before_month_Suc [of 4 y] days_before_month_Suc [of 5 y] days_before_month_Suc [of 6 y] days_before_month_Suc [of 7 y] days_before_month_Suc [of 8 y] days_before_month_Suc [of 9 y] days_before_month_Suc [of 10 y] days_before_month_Suc [of 11 y]
  by (simp_all add: days_before_month_def [of 1] days_in_month_def year_days_def)

lemma month_in_year:
  assumes "1 \<le> m" "m \<le> 12"
  shows "days_before_month m y + nat (days_in_month m y) \<le> year_days y"
  using assms by (cases m rule: month_cases)
    (simp_all add: days_before_month_table days_in_month_def year_days_def)

lemma years_found:
  assumes "1970 \<le> y" "y \<le> 2099" "1 \<le> m" "m \<le> 12" "1 \<le> d" "d \<le> days_in_month m y"
    and t: "unat t = date_days y m d * 86400 + r" "r < 86400"
  shows "run_list (year_body t) [1970..2099] (0, v)
       = Returns (Inr (finish_time t (of_nat (days_before_year y * 86400))
           (of_nat (date_days y m d * 86400 + r div 3600 * 3600))
           (int (r div 3600) + 1) (v\<lparr>tm_year := y - 1900, tm_mon := m - 1, tm_mday := d\<rparr>)))"
proof -
  let ?n = "\<lambda>y. year_days y * 86400"
  let ?b = "days_before_year y"
  have n: "sum_list (map ?n [1970..y - 1]) = ?b * 86400" by (simp add: sum_scale days_before_year_def)
  have b: "?b \<le> 47580" using days_before_year_bound assms by simp
  have us: "unat (of_nat (?b * 86400) :: u64) = ?b * 86400"
    using b unat_add_of_nat [of 0 "?b * 86400"] by simp
  have m: "days_before_month m y + nat (d - 1) < year_days y"
    using month_in_year [OF assms(3,4), of y] assms(5,6) by linarith
  have w: "(of_int ((if year_is_leap i then 366 else 365) * 86400) :: u64) = of_nat (?n i)" for i
    by (simp add: year_days_def)
  have y: "year_days y \<le> 366" by (simp add: year_days_def)
  have mon: "run_list (month_body t (of_nat (?b * 86400)) y) [1..12] (of_nat (?b * 86400), v\<lparr>tm_year := y - 1900\<rparr>)
     = Returns (Inr (finish_time t (of_nat (?b * 86400))
           (of_nat (?b * 86400) + of_nat ((days_before_month m y + nat (d - 1)) * 86400 + r div 3600 * 3600))
           (int (r div 3600) + 1) (v\<lparr>tm_year := y - 1900, tm_mon := m - 1, tm_mday := d\<rparr>)))"
    by (rule months_found)
      (use assms(3-6) t us b in \<open>simp_all add: date_days_def distrib_right del: of_nat_mult\<close>)
  have "run_list (year_body t) ([1970..y - 1] @ y # [y + 1..2099]) (0, v)
       = Returns (Inr (finish_time t (of_nat (?b * 86400))
           (of_nat (date_days y m d * 86400 + r div 3600 * 3600))
           (int (r div 3600) + 1) (v\<lparr>tm_year := y - 1900, tm_mon := m - 1, tm_mday := d\<rparr>)))"
  proof (rule scan_hit [where n = ?n and t = t and hit = "\<lambda>y s. returned (run_list (month_body t s y)
          [1..12] (s, v\<lparr>tm_year := y - 1900\<rparr>))"], unfold n)
    show "year_body t i (s, v) = (if s + of_nat (?n i) > t
        then returned (run_list (month_body t s i) [1..12] (s, v\<lparr>tm_year := i - 1900\<rparr>))
        else Returns (Inl (s + of_nat (?n i), v)))" for i s
      unfolding year_body_def Let_def prod.case w ..
    show "unat (0 :: u64) + ?b * 86400 \<le> unat t" using t by (simp add: date_days_def)
    show "unat t < unat (0 :: u64) + ?b * 86400 + ?n y" using t m by (simp add: date_days_def)
    show "unat (0 :: u64) + ?b * 86400 + ?n y < 2 ^ 64" using b y by simp
    show "returned (run_list (month_body t (0 + of_nat (?b * 86400)) y) [1..12]
        (0 + of_nat (?b * 86400), v\<lparr>tm_year := y - 1900\<rparr>))
      = Returns (Inr (finish_time t (of_nat (?b * 86400))
           (of_nat (date_days y m d * 86400 + r div 3600 * 3600))
           (int (r div 3600) + 1) (v\<lparr>tm_year := y - 1900, tm_mon := m - 1, tm_mday := d\<rparr>)))"
      unfolding add_0_left mon by (simp add: returned_def distrib_right add.assoc date_days_def)
  qed
  moreover have "[1970..2099] = [1970..y - 1] @ y # [y + 1..2099]" using assms by (intro upto_split)
  ultimately show ?thesis by simp
qed


lemma days_before_year_2100: "days_before_year 2100 = 47482"
  by (simp add: days_before_year_def year_days_def year_is_leap_def)

lemma diff_numeral_2100: "2100 - 1 = (2099 :: int)"
  by simp

lemma u64_div: "k < 2 ^ 64 \<Longrightarrow> c < 2 ^ 64 \<Longrightarrow> uint ((of_nat k :: u64) div of_nat c) = int (k div c)"
  and u64_mod: "k < 2 ^ 64 \<Longrightarrow> c < 2 ^ 64 \<Longrightarrow> uint ((of_nat k :: u64) mod of_nat c) = int (k mod c)"
  by (simp_all add: uint_nat unat_div unat_mod unat_of_nat del: of_nat_unat nat_uint_eq)

lemma upto_prefix: "[a..b] = as @ y # bs \<Longrightarrow> a \<le> y \<and> y \<le> b \<and> as = [a..y - 1]" for a y :: int
proof (induction as arbitrary: a)
  case Nil
  then show ?case by (auto simp: upto_rec1 split: if_splits elim: upto.elims)
next
  case (Cons x as)
  then have ab: "a \<le> b" by (metis list.distinct(1) upto_Nil linorder_not_le append_Cons)
  with Cons.prems have x: "x = a" and "[a + 1..b] = as @ y # bs" by (auto simp: upto_rec1 [of a])
  from Cons.IH [OF this(2)] show ?case using upto_rec1 [of a "y - 1"] by (simp add: x)
qed

lemma valid_date_days:
  assumes "valid_date y m d h mi s"
  shows "date_days y m d < 47482"
proof -
  have "days_before_month m y + nat (d - 1) < year_days y"
    using month_in_year [of m y] assms unfolding valid_date_def by linarith
  moreover have "days_before_year y + year_days y \<le> days_before_year 2100"
  proof -
    have "[1970..2099] = [1970..y] @ [y + 1..2099]"
      using assms upto_split2 [of 1970 y 2099] by (simp add: valid_date_def)
    then show ?thesis using days_before_year_Suc [of y] assms
      by (simp add: days_before_year_def valid_date_def)
  qed
  ultimately show ?thesis using days_before_year_2100 by (simp add: date_days_def)
qed

lemma localtime_date:
  assumes v: "valid_date y m d h mi s"
  shows "localtime (of_nat (date_secs y m d h mi s)) v0 = Returns (date_tm y m d h mi s)"
proof -
  define D where "D = date_days y m d"
  define r where "r = nat h * 3600 + nat mi * 60 + nat s"
  define t :: u64 where "t = of_nat (date_secs y m d h mi s)"
  have D: "D < 47482" using valid_date_days [OF v] by (simp add: D_def)
  from v have b: "nat h < 24" "nat mi < 60" "nat s < 60" "1970 \<le> y" "y \<le> 2099" "1 \<le> m" "m \<le> 12"
    "1 \<le> d" "d \<le> days_in_month m y" "0 \<le> h" "0 \<le> mi" "0 \<le> s"
    by (auto simp: valid_date_def)
  have r: "r < 86400" using b by (simp add: r_def)
  have ut: "unat t = D * 86400 + r"
    using D r unat_add_of_nat [of 0 "D * 86400 + r"]
    by (simp add: t_def date_secs_def D_def r_def add.assoc del: of_nat_mult of_nat_add)
  have rh: "r div 3600 = nat h" using b by (simp add: r_def)
  define Y where "Y = days_before_year y * 86400"
  have Y: "Y \<le> 47580 * 86400" using days_before_year_bound [of y] b by (simp add: Y_def)
  have "days_before_year y \<le> D" by (simp add: D_def date_days_def)
  then have YD: "Y \<le> D * 86400" by (simp add: Y_def)
  have rem: "t - of_nat (D * 86400 + nat h * 3600) = of_nat (nat mi * 60 + nat s)"
    by (simp add: t_def date_secs_def D_def)
  have yd: "t - of_nat Y = of_nat ((D - days_before_year y) * 86400 + r)"
    using \<open>days_before_year y \<le> D\<close>
    by (simp add: t_def date_secs_def D_def Y_def r_def date_days_def distrib_right)
  have f1: "uint (of_nat (nat mi * 60 + nat s) div (60 :: u64)) = mi"
    using b u64_div [of "nat mi * 60 + nat s" 60] by simp
  have f2: "uint (of_nat (nat mi * 60 + nat s) mod (60 :: u64)) = s"
    using b u64_mod [of "nat mi * 60 + nat s" 60] by simp
  have f3: "day_of_week t = int ((D + 4) mod 7)"
  proof -
    have "unat (t div 86400) = D" using ut r D by (simp add: unat_div)
    then have "t div 86400 = of_nat D" by (metis of_nat_unat ucast_id)
    then show ?thesis using D u64_mod [of "D + 4" 7] by (simp add: day_of_week_def)
  qed
  have f4: "uint ((t - of_nat Y) div 86400) = int (days_before_month m y) + d - 1"
    using b r D u64_div [of "(D - days_before_year y) * 86400 + r" 86400]
    by (simp add: yd D_def date_days_def del: of_nat_mult of_nat_add)
  have "run_list (year_body t) [1970..2099] (0, v0) = Returns (Inr (finish_time t (of_nat Y)
       (of_nat (D * 86400 + nat h * 3600)) (h + 1) (v0\<lparr>tm_year := y - 1900, tm_mon := m - 1, tm_mday := d\<rparr>)))"
    using years_found [OF b(4-9), of t r v0] ut r rh b by (simp add: D_def Y_def del: of_nat_mult of_nat_add)
  moreover have "finish_time t (of_nat Y) (of_nat (D * 86400 + nat h * 3600)) (h + 1)
      (v0\<lparr>tm_year := y - 1900, tm_mon := m - 1, tm_mday := d\<rparr>) = date_tm y m d h mi s"
    unfolding finish_time_def Let_def rem f1 f2 f3 f4 by (simp add: date_tm_def D_def)
  ultimately show ?thesis by (simp add: localtime_def t_def [symmetric])
qed

text \<open>Every second before 2100 is the second of a date.\<close>

lemma date_exists:
  assumes "n < 4102444800"
  shows "\<exists>y m d h mi s. valid_date y m d h mi s \<and> date_secs y m d h mi s = n"
proof -
  define b :: int where "b = 2099"
  define e :: int where "e = 12"
  have total: "sum_list (map year_days [1970..b]) = 47482"
    using days_before_year_2100 unfolding days_before_year_def b_def by (simp only: diff_numeral_2100)
  have "n div 86400 < 0 + sum_list (map year_days [1970..b])"
    using assms unfolding total by (simp add: less_mult_imp_div_less)
  from scan_exists [OF _ this] obtain as y bs where y: "[1970..b] = as @ y # bs"
    "sum_list (map year_days as) \<le> n div 86400" "n div 86400 < sum_list (map year_days as) + year_days y"
    by auto
  define k where "k = n div 86400 - sum_list (map year_days as)"
  have "k < 0 + sum_list (map (\<lambda>m. nat (days_in_month m y)) [1..e])"
  proof -
    have "days_before_month 13 y = year_days y"
      using days_before_month_Suc [of 12 y] days_before_month_table(12) [of y]
      by (simp add: days_in_month_def year_days_def split: if_splits)
    then have "sum_list (map (\<lambda>m. nat (days_in_month m y)) [1..e]) = year_days y"
      by (simp add: days_before_month_def e_def)
    with y(2,3) show ?thesis unfolding k_def by linarith
  qed
  from scan_exists [OF _ this] obtain as' m bs' where m: "[1..e] = as' @ m # bs'"
    "sum_list (map (\<lambda>m. nat (days_in_month m y)) as') \<le> k"
    "k < sum_list (map (\<lambda>m. nat (days_in_month m y)) as') + nat (days_in_month m y)"
    by auto
  have yas: "1970 \<le> y" "y \<le> b" "as = [1970..y - 1]" using upto_prefix [OF y(1)] by auto
  have mas: "1 \<le> m" "m \<le> e" "as' = [1..m - 1]" using upto_prefix [OF m(1)] by auto
  define d where "d = k - days_before_month m y"
  define r where "r = n mod 86400"
  have "r < 86400" by (simp add: r_def)
  have "valid_date y m (int d + 1) (int (r div 3600)) (int (r mod 3600 div 60)) (int (r mod 60))"
    using yas mas m \<open>r < 86400\<close>
    by (auto simp: b_def e_def valid_date_def d_def days_before_month_def [symmetric] less_mult_imp_div_less)
  moreover have "date_secs y m (int d + 1) (int (r div 3600)) (int (r mod 3600 div 60)) (int (r mod 60)) = n"
  proof -
    have "r div 3600 * 3600 + r mod 3600 div 60 * 60 + r mod 60 = r"
      using div_mult_mod_eq [of r 3600] div_mult_mod_eq [of "r mod 3600" 60] mod_mod_cancel [of 60 3600 r, simplified]
      by linarith
    moreover have "days_before_year y + days_before_month m y + d = n div 86400"
      using y m yas mas by (simp add: d_def k_def days_before_year_def days_before_month_def)
    moreover have "n = n div 86400 * 86400 + r" by (simp add: r_def)
    ultimately show ?thesis unfolding date_secs_def date_days_def by simp
  qed
  ultimately show ?thesis by blast
qed


section \<open>Seconds of a date, and there and back\<close>

lemma unat_nat: "k < 2 ^ 64 \<Longrightarrow> unat (of_nat k :: u64) = k"
  using unat_add_of_nat [of 0 k] by simp

lemma u64_mod_0: "k < 2 ^ 64 \<Longrightarrow> 0 < c \<Longrightarrow> c < 2 ^ 64 \<Longrightarrow> (of_nat k :: u64) mod of_nat c = 0 \<longleftrightarrow> k mod c = 0"
  by (simp add: unat_mod unat_nat flip: unat_eq_0)

lemma leap_nat: "year_is_leap (int k) \<longleftrightarrow> k mod 4 = 0 \<and> (k mod 100 \<noteq> 0 \<or> k mod 400 = 0)"
  unfolding year_is_leap_def by (simp flip: of_nat_mod [where 'a = int, of _ "numeral _", simplified])

lemma years_step_nat:
  assumes "k < 2 ^ 63"
  shows "years_step (of_nat k, days) =
     (if 1969 < k then Returns (Inl (of_nat (k - 1), days + of_nat (year_days (int k))))
      else Returns (Inr days))"
proof -
  have "(1969 < (of_nat k :: u64)) = (1969 < k)" using assms by (simp add: word_less_nat_alt unat_nat)
  moreover have "(of_nat k :: u64) mod 4 = 0 \<longleftrightarrow> k mod 4 = 0" "(of_nat k :: u64) mod 100 = 0 \<longleftrightarrow> k mod 100 = 0"
    "(of_nat k :: u64) mod 400 = 0 \<longleftrightarrow> k mod 400 = 0"
    using assms u64_mod_0 [of k 4] u64_mod_0 [of k 100] u64_mod_0 [of k 400] by simp_all
  moreover have "(of_nat k :: u64) - 1 = of_nat (k - 1)" if "1969 < k" using that by simp
  ultimately show ?thesis by (simp add: years_step_def year_days_def leap_nat Let_def)
qed

lemma secs_of_years_ok:
  assumes "1970 \<le> y" "y < 2 ^ 62"
  shows "secs_of_years (of_int (y - 1)) = Returns (of_nat (days_before_year y * 86400))"
proof -
  have "loop_c years_step (of_nat (1969 + j), days) = Returns (days + of_nat (days_before_year (1970 + int j)))"
    if "j < 2 ^ 62" for j days
    using that
  proof (induction j arbitrary: days)
    case 0
    show ?case by (subst loop_c_unfold) (simp add: years_step_nat [of 1969, simplified] days_before_year_def)
  next
    case (Suc j)
    have "years_step (of_nat (1969 + Suc j), days)
        = Returns (Inl (of_nat (1969 + j), days + of_nat (year_days (1970 + int j))))"
      using Suc.prems years_step_nat [of "1969 + Suc j"] by simp
    then show ?case
      using Suc.IH Suc.prems days_before_year_Suc [of "1970 + int j"]
      by (subst loop_c_unfold) (simp add: add.assoc add.commute add.left_commute)
  qed
  moreover obtain j where "y - 1970 = int j"
    using assms nonneg_eq_int [of "y - 1970"] by auto
  then have j: "y = 1970 + int j" "j < 2 ^ 62" using assms by simp_all
  moreover have "(of_int (1970 + int j - 1) :: u64) = of_nat (1969 + j)" by simp
  ultimately show ?thesis by (simp only: secs_of_years_def add_0_left j omap.simps of_nat_mult of_nat_numeral)
qed

lemma month_days_eq:
  assumes "1 \<le> m" "m \<le> 12" "0 \<le> y" "y < 2 ^ 62"
  shows "month_days (of_int m) (of_int y) = of_nat (nat (days_in_month m y))"
proof -
  obtain k where k: "y = int k" "k < 2 ^ 62" using assms(3,4) nonneg_eq_int [of y] by auto
  have "(of_nat k :: u64) mod 4 = 0 \<longleftrightarrow> k mod 4 = 0" "(of_nat k :: u64) mod 100 = 0 \<longleftrightarrow> k mod 100 = 0"
    "(of_nat k :: u64) mod 400 = 0 \<longleftrightarrow> k mod 400 = 0"
    using k u64_mod_0 [of k 4] u64_mod_0 [of k 100] u64_mod_0 [of k 400] by simp_all
  then have leap: "((of_int y :: u64) mod 4 = 0 \<and> ((of_int y :: u64) mod 100 \<noteq> 0 \<or> (of_int y :: u64) mod 400 = 0))
      = year_is_leap y"
    by (simp only: k of_int_of_nat_eq leap_nat)
  from assms(1,2) show ?thesis unfolding month_days_def leap
    by (cases m rule: month_cases) (simp_all add: days_in_month_def)
qed

lemma secs_of_month_ok:
  assumes "1 \<le> m" "m \<le> 12" "0 \<le> y" "y < 2 ^ 62"
  shows "secs_of_month (of_int (m - 1)) (of_int y) = Returns (of_nat (days_before_month m y * 86400))"
proof -
  define n where "n = nat (m - 1)"
  have n: "n < 12" "int n = m - 1" using assms by (auto simp: n_def)
  let ?f = "\<lambda>k. (of_nat (Suc k) :: u64, of_nat (days_before_month (int k + 1) y) :: u64)"
  have "loop_c (months_step (of_int (m - 1)) (of_int y)) (?f 0) = Returns (of_nat (days_before_month (int n + 1) y))"
  proof (rule loop_c_steps [where n = n])
    fix k assume "k < n"
    then have "(of_nat (Suc k) :: u64) \<le> of_int (m - 1)"
      using n unat_nat [of "Suc k"] unat_nat [of n]
      by (simp add: word_le_nat_alt flip: n(2) of_nat_Suc del: of_nat_Suc)
    moreover have "(of_nat (Suc k) :: u64) = of_int (int k + 1)" by simp
    ultimately show "months_step (of_int (m - 1)) (of_int y) (?f k) = Returns (Inl (?f (Suc k)))"
      using month_days_eq [of "int k + 1" y] days_before_month_Suc [of "int k + 1" y] assms \<open>k < n\<close> n
      by (simp add: months_step_def add.commute)
  next
    have "\<not> (of_nat (Suc n) :: u64) \<le> of_int (m - 1)"
      using n unat_nat [of "Suc n"] unat_nat [of n]
      by (simp add: word_le_nat_alt flip: n(2) of_nat_Suc del: of_nat_Suc)
    then show "months_step (of_int (m - 1)) (of_int y) (?f n) = Returns (Inr (of_nat (days_before_month (int n + 1) y)))"
      by (simp add: months_step_def)
  qed
  then show ?thesis using n by (simp add: secs_of_month_def days_before_month_def)
qed


lemma day_scan_none:
  fixes s t :: u64
  assumes body: "\<And>i s. i \<in> set as \<Longrightarrow> body i (s, v) =
      (if s + of_nat (n i) > t then hit i s else Returns (Inl (s + of_nat (n i), v)))"
    and lo: "unat s + sum_list (map n as) \<le> unat t"
  shows "run_list body as (s, v) = Returns (Inl (s + of_nat (sum_list (map n as)), v))"
  using assms
proof (induction as arbitrary: s)
  case Nil
  then show ?case by simp
next
  case (Cons a as)
  have "unat s + n a < 2 ^ 64" using Cons.prems(2) unat_u64 [of t] by simp
  then have u: "unat (s + of_nat (n a)) = unat s + n a" by (rule unat_add_of_nat)
  have "\<not> t < s + of_nat (n a)" using Cons.prems(2) by (simp add: word_less_nat_alt u)
  with Cons.prems(1) [of a s] have step: "body a (s, v) = Returns (Inl (s + of_nat (n a), v))" by simp
  have "run_list body as (s + of_nat (n a), v)
      = Returns (Inl (s + of_nat (n a) + of_nat (sum_list (map n as)), v))"
    by (rule Cons.IH) (use Cons.prems in \<open>simp_all add: u\<close>)
  with step show ?case by (simp add: add.assoc)
qed

lemma localtime_late:
  assumes "\<not> t < 4102444800"
  shows "localtime t v = Returns v"
proof -
  let ?n = "\<lambda>y. year_days y * 86400"
  define b :: int where "b = 2099"
  have total: "sum_list (map ?n [1970..b]) = 4102444800"
    using days_before_year_2100 unfolding days_before_year_def diff_numeral_2100
    by (simp only: b_def sum_scale)
  have "4102444800 \<le> unat t" using assms by (simp add: word_less_nat_alt)
  then have "run_list (year_body t) [1970..b] (0, v) = Returns (Inl (0 + of_nat (sum_list (map ?n [1970..b])), v))"
    by (intro day_scan_none [where t = t and hit = "\<lambda>y s. returned (run_list (month_body t s y)
          [1..12] (s, v\<lparr>tm_year := y - 1900\<rparr>))"])
      (simp_all only: total, simp_all add: year_body_def year_days_def Let_def)
  then show ?thesis by (simp only: localtime_def b_def omap.simps sum.case prod.case)
qed


text \<open>
  \<open>mktime\<close> of the broken-down time of a date is the seconds of that date plus a whole year:
  it counts the year of the date as passed.
\<close>

theorem mktime_year_ahead:
  assumes "valid_date y m d h mi s"
  shows "mktime (date_tm y m d h mi s)
       = Returns (of_nat (date_secs y m d h mi s + year_days y * 86400))"
proof -
  from assms have b: "1970 \<le> y" "y \<le> 2099" "1 \<le> m" "m \<le> 12" "1 \<le> d" "0 \<le> h" "h < 24" "0 \<le> mi" "mi < 60"
    "0 \<le> s" "s < 60" "d \<le> 31"
    using days_in_month_bounds(2) [of m y] by (auto simp: valid_date_def)
  have ys: "secs_of_years (of_int y) = Returns (of_nat (days_before_year (y + 1) * 86400))"
    using secs_of_years_ok [of "y + 1"] b by simp
  have ms: "secs_of_month (of_int (m - 1)) (of_int y) = Returns (of_nat (days_before_month m y * 86400))"
    using secs_of_month_ok [of m y] b by simp
  have "mktime (date_tm y m d h mi s) = Returns (of_nat (days_before_year (y + 1) * 86400)
      + of_nat (days_before_month m y * 86400) + of_int ((d - 1) * 86400) + of_int (h * 3600)
      + of_int (mi * 60) + of_int s)"
    using b ys ms by (simp add: mktime_def date_tm_def c_int_def del: of_int_mult of_int_diff of_nat_mult)
  also have "\<dots> = Returns (of_nat (date_secs y m d h mi s + year_days y * 86400))"
    using b days_before_year_Suc [of y] by (simp add: date_secs_def date_days_def algebra_simps)
  finally show ?thesis .
qed

lemma mktime_year_ahead_witness:
  "valid_date 2024 2 29 12 0 1
   \<and> mktime (date_tm 2024 2 29 12 0 1) = Returns (of_nat (date_secs 2024 2 29 12 0 1 + 366 * 86400))"
proof -
  have v: "valid_date 2024 2 29 12 0 1" by (simp add: valid_date_def days_in_month_def year_is_leap_def)
  have yd: "year_days 2024 = 366" by (simp add: year_days_def year_is_leap_def)
  from v mktime_year_ahead [OF v, unfolded yd] show ?thesis by (rule conjI)
qed


section \<open>The clock read end to end\<close>

text \<open>
  A chip that is not ticking: every state in \<open>Q\<close> answers register \<open>r\<close> (bit 7 of the index is
  the NMI switch) with \<open>f r\<close>, stays in \<open>Q\<close>, and shows no update in progress.
\<close>

definition quiet_chip :: "'d byte_ports \<Rightarrow> ('d \<Rightarrow> bool) \<Rightarrow> (u8 \<Rightarrow> u8) \<Rightarrow> bool" where
  "quiet_chip P Q f \<longleftrightarrow>
     (\<forall>d r. Q d \<longrightarrow> fst (inb P CMOS_DATA_PORT (outb P CMOS_COMMAND_PORT r d)) = f (r AND 0x7F)
                 \<and> Q (snd (inb P CMOS_DATA_PORT (outb P CMOS_COMMAND_PORT r d))))
     \<and> f CMOS_REG_STATUS_A AND 0x80 = 0"

definition chip_fields :: "(u8 \<Rightarrow> u8) \<Rightarrow> cmos_rtc" where
  "chip_fields f =
     \<lparr>rtc_seconds = f CMOS_REG_SECONDS, rtc_minutes = f CMOS_REG_MINUTES, rtc_hours = f CMOS_REG_HOURS,
      rtc_weekdays = f CMOS_REG_WEEKDAYS, rtc_day = f CMOS_REG_DAY, rtc_month = f CMOS_REG_MONTH,
      rtc_year = ucast (f CMOS_REG_YEAR), rtc_century = f CMOS_REG_CENTURY\<rparr>"

lemma quiet_register:
  assumes "quiet_chip P Q f" "Q d" "(push_bit 7 1 OR reg) AND 0x7F = reg"
  shows "\<exists>d'. get_rtc_register P reg d = (f reg, d') \<and> Q d'"
proof -
  let ?x = "inb P CMOS_DATA_PORT (outb P CMOS_COMMAND_PORT (push_bit 7 1 OR reg) d)"
  have "fst ?x = f ((push_bit 7 1 OR reg) AND 0x7F)" "Q (snd ?x)"
    using assms(1,2) unfolding quiet_chip_def by blast+
  then show ?thesis using assms(3) by (cases ?x) (auto simp: get_rtc_register_def)
qed

lemma quiet_fields:
  assumes "quiet_chip P Q f" "Q d"
  shows "\<exists>d'. read_fields P d = (chip_fields f, d') \<and> Q d'"
proof -
  note r = quiet_register [OF assms(1)]
  obtain d1 where 1: "get_rtc_register P CMOS_REG_SECONDS d = (f CMOS_REG_SECONDS, d1)" "Q d1"
    using r [OF assms(2), of CMOS_REG_SECONDS] by (auto simp: cmos_regs)
  obtain d2 where 2: "get_rtc_register P CMOS_REG_MINUTES d1 = (f CMOS_REG_MINUTES, d2)" "Q d2"
    using r [OF 1(2), of CMOS_REG_MINUTES] by (auto simp: cmos_regs)
  obtain d3 where 3: "get_rtc_register P CMOS_REG_HOURS d2 = (f CMOS_REG_HOURS, d3)" "Q d3"
    using r [OF 2(2), of CMOS_REG_HOURS] by (auto simp: cmos_regs)
  obtain d4 where 4: "get_rtc_register P CMOS_REG_WEEKDAYS d3 = (f CMOS_REG_WEEKDAYS, d4)" "Q d4"
    using r [OF 3(2), of CMOS_REG_WEEKDAYS] by (auto simp: cmos_regs)
  obtain d5 where 5: "get_rtc_register P CMOS_REG_DAY d4 = (f CMOS_REG_DAY, d5)" "Q d5"
    using r [OF 4(2), of CMOS_REG_DAY] by (auto simp: cmos_regs)
  obtain d6 where 6: "get_rtc_register P CMOS_REG_MONTH d5 = (f CMOS_REG_MONTH, d6)" "Q d6"
    using r [OF 5(2), of CMOS_REG_MONTH] by (auto simp: cmos_regs)
  obtain d7 where 7: "get_rtc_register P CMOS_REG_YEAR d6 = (f CMOS_REG_YEAR, d7)" "Q d7"
    using r [OF 6(2), of CMOS_REG_YEAR] by (auto simp: cmos_regs)
  obtain d8 where 8: "get_rtc_register P CMOS_REG_CENTURY d7 = (f CMOS_REG_CENTURY, d8)" "Q d8"
    using r [OF 7(2), of CMOS_REG_CENTURY] by (auto simp: cmos_regs)
  from 1 2 3 4 5 6 7 8 show ?thesis by (simp add: read_fields_def chip_fields_def)
qed

lemma quiet_await:
  assumes "quiet_chip P Q f" "Q d"
  shows "\<exists>d'. await_update P d = Returns d' \<and> Q d'"
proof -
  let ?x = "inb P CMOS_DATA_PORT (outb P CMOS_COMMAND_PORT CMOS_REG_STATUS_A d)"
  have "fst ?x = f (CMOS_REG_STATUS_A AND 0x7F)" "Q (snd ?x)" "f CMOS_REG_STATUS_A AND 0x80 = 0"
    using assms unfolding quiet_chip_def by blast+
  then show ?thesis unfolding await_update_def loop_c_unfold [of _ d]
    by (cases ?x) (auto simp: await_step_def update_in_progress_def CMOS_REG_STATUS_A_def)
qed

lemma quiet_read:
  assumes q: "quiet_chip P Q f" and d: "Q d"
  shows "\<exists>d'. cmos_read_rtc P d = Returns (rtc_decode 0 (f CMOS_REG_STATUS_B) (chip_fields f), d') \<and> Q d'"
proof -
  obtain d1 where 1: "await_update P d = Returns d1" "Q d1" using quiet_await [OF q d] by blast
  obtain d2 where 2: "read_fields P d1 = (chip_fields f, d2)" "Q d2" using quiet_fields [OF q 1(2)] by blast
  obtain d3 where 3: "await_update P d2 = Returns d3" "Q d3" using quiet_await [OF q 2(2)] by blast
  obtain d4 where 4: "read_fields P d3 = (chip_fields f, d4)" "Q d4" using quiet_fields [OF q 3(2)] by blast
  have "loop_c (reread_step P) (chip_fields f, d2) = Returns (chip_fields f, d4)"
    by (subst loop_c_unfold) (simp add: reread_step_def 3 4 rtc_values_are_not_equal_def)
  moreover obtain d5 where "get_rtc_register P CMOS_REG_STATUS_B d4 = (f CMOS_REG_STATUS_B, d5)" "Q d5"
    using quiet_register [OF q 4(2), of CMOS_REG_STATUS_B] by (auto simp: cmos_regs)
  ultimately show ?thesis by (simp add: cmos_read_rtc_def 1 2)
qed

text \<open>A value as the chip stores it: binary or two decimal digits, as bit 2 of register B says.\<close>

definition chip_enc :: "u8 \<Rightarrow> int \<Rightarrow> u8" where
  "chip_enc b x = (if b AND 0x04 = 0 then of_int (x + 6 * (x div 10)) else of_int x)"

lemma bcd_table: "list_all (\<lambda>x. bcd8 (of_int (x + 6 * (x div 10))) = of_int x) [0..99]"
  by code_simp

lemma bcd_hour_table:
  "list_all (\<lambda>x. (let h = of_int (x + 6 * (x div 10)) :: u8 in
      ((h AND 0x0F) + ((h AND 0x70) div 16) * 10) OR (h AND 0x80)) = of_int x) [0..79]"
  by code_simp

lemma bcd_year_table:
  "list_all (\<lambda>x. (let y = ucast (of_int (x + 6 * (x div 10)) :: u8) :: u16 in
      (y AND 0x0F) + (y div 16) * 10) = of_int x) [0..99]"
  by code_simp


lemma ucast_of_int_u16: "0 \<le> x \<Longrightarrow> x < 256 \<Longrightarrow> ucast (of_int x :: u8) = (of_int x :: u16)"
  by (simp add: word_uint_eq_iff uint_word_of_int unsigned_ucast_eq take_bit_int_eq_self)

lemma decode_date:
  assumes v: "valid_date y m d h mi s" and y: "2022 \<le> y"
    and b: "b AND 0x02 \<noteq> 0"
    and f: "f CMOS_REG_SECONDS = chip_enc b s" "f CMOS_REG_MINUTES = chip_enc b mi"
      "f CMOS_REG_HOURS = chip_enc b h" "f CMOS_REG_DAY = chip_enc b d"
      "f CMOS_REG_MONTH = chip_enc b m" "f CMOS_REG_YEAR = chip_enc b (y - 2000)"
    and r: "r = rtc_decode 0 b (chip_fields f)"
  shows "rtc_seconds r = of_int s" "rtc_minutes r = of_int mi" "rtc_hours r = of_int h"
    "rtc_day r = of_int d" "rtc_month r = of_int m" "rtc_year r = of_int y"
proof -
  have rng: "x \<in> set [0..99] \<Longrightarrow> b AND 0x04 = 0 \<Longrightarrow> bcd8 (chip_enc b x) = of_int x" for x
    using bcd_table unfolding list_all_iff chip_enc_def by simp
  have d31: "d \<le> 31" using v days_in_month_bounds(2) [of m y] by (simp add: valid_date_def)
  have in99: "s \<in> set [0..99]" "mi \<in> set [0..99]" "d \<in> set [0..99]" "m \<in> set [0..99]" "y - 2000 \<in> set [0..99]"
    "h \<in> set [0..79]"
    using v y d31 by (auto simp: valid_date_def)
  show "rtc_seconds r = of_int s" "rtc_minutes r = of_int mi" "rtc_day r = of_int d" "rtc_month r = of_int m"
    using rng in99 b by (simp_all add: r rtc_decode_def chip_fields_def from_bcd_def f)
       (simp_all add: chip_enc_def)
  show "rtc_hours r = of_int h"
    using bcd_hour_table in99(6) b unfolding list_all_iff
    by (simp add: r rtc_decode_def chip_fields_def from_bcd_def f chip_enc_def Let_def)
  have yy: "rtc_year (if b AND 0x04 = 0 then from_bcd (chip_fields f) else chip_fields f) = of_int (y - 2000)"
  proof (cases "b AND 0x04 = 0")
    case True
    then show ?thesis using bspec [OF bcd_year_table [unfolded list_all_iff] in99(5)]
      by (simp add: chip_fields_def from_bcd_def f chip_enc_def Let_def)
  next
    case False
    then show ?thesis using in99(5)
      by (simp add: chip_fields_def f chip_enc_def ucast_of_int_u16 del: of_int_diff)
  qed
  have "(of_int (y - 2000) :: u16) < 100"
    using in99(5) by (simp add: word_less_def uint_word_of_int take_bit_int_eq_self del: of_int_diff)
  moreover have "(of_int (y - 2000) :: u16) + 2000 = of_int y" by simp
  moreover have "\<not> (of_int y :: u16) < 2022"
    using y v by (simp add: word_less_def uint_word_of_int valid_date_def)
  ultimately show "rtc_year r = of_int y"
    using yy b by (simp add: r rtc_decode_def full_year_def CURRENT_YEAR_def Let_def)
qed


text \<open>
  C24: read from a chip that holds a date from 2022 to 2099 in 24-hour mode, decimal or binary,
  \<open>cmos_current_time\<close> is the seconds of that date, and \<open>localtime\<close> gives the date back.
\<close>

theorem clock_roundtrip:
  assumes q: "quiet_chip P Q f" and d: "Q dev"
    and v: "valid_date y m d h mi s" and y: "2022 \<le> y"
    and b: "f CMOS_REG_STATUS_B = b" "b AND 0x02 \<noteq> 0"
    and f: "f CMOS_REG_SECONDS = chip_enc b s" "f CMOS_REG_MINUTES = chip_enc b mi"
      "f CMOS_REG_HOURS = chip_enc b h" "f CMOS_REG_DAY = chip_enc b d"
      "f CMOS_REG_MONTH = chip_enc b m" "f CMOS_REG_YEAR = chip_enc b (y - 2000)"
  shows "\<exists>dev'. cmos_current_time P dev = Returns (of_nat (date_secs y m d h mi s), dev')
           \<and> localtime (of_nat (date_secs y m d h mi s)) v0 = Returns (date_tm y m d h mi s)"
proof -
  define r where "r = rtc_decode 0 b (chip_fields f)"
  note r = decode_date [OF v y b(2) f r_def]
  from v have g: "1970 \<le> y" "y \<le> 2099" "1 \<le> m" "m \<le> 12" "1 \<le> d" "0 \<le> h" "h < 24" "0 \<le> mi" "mi < 60"
    "0 \<le> s" "s < 60" "d \<le> 31"
    using days_in_month_bounds(2) [of m y] by (auto simp: valid_date_def)
  have u: "uint (rtc_month r) = m" "uint (rtc_day r) = d" "uint (rtc_hours r) = h" "uint (rtc_minutes r) = mi"
    "uint (rtc_seconds r) = s" "uint (rtc_year r) = y"
    using g by (simp_all add: r uint_word_of_int)
  have c: "ucast (rtc_year r) = (of_int y :: u64)" "ucast (rtc_seconds r) = (of_int s :: u64)"
    by (simp_all add: word_uint_eq_iff uint_word_of_int unsigned_ucast_eq u flip: u(5,6))
       (use u uint_lt2p [of "rtc_year r"] uint_lt2p [of "rtc_seconds r"] in \<open>simp_all\<close>)?
  have "rtc_to_secs r = Returns (of_nat (date_secs y m d h mi s))"
    unfolding rtc_to_secs_def u c
    using secs_of_years_ok [of y] secs_of_month_ok [of m y] g
    by (simp add: date_secs_def date_days_def del: of_int_diff of_int_mult) (simp add: algebra_simps)
  moreover obtain dev' where "cmos_read_rtc P dev = Returns (r, dev')"
    using quiet_read [OF q d] by (auto simp: r_def b)
  ultimately show ?thesis using localtime_date [OF v] by (simp add: cmos_current_time_def)
qed

text \<open>A chip for the witnesses: the state is the register selected last.\<close>

definition demo_chip :: "(u8 \<Rightarrow> u8) \<Rightarrow> u8 byte_ports" where
  "demo_chip f = \<lparr>outb = (\<lambda>port v d. if port = 0x70 then v else d),
                  inb = (\<lambda>port d. (if port = 0x71 then f (d AND 0x7F) else 0xFF, d))\<rparr>"

definition demo_regs :: "u8 \<Rightarrow> u8" where
  "demo_regs r = (if r = 0x00 then 0x59 else if r = 0x02 then 0x30 else if r = 0x04 then 0x23
     else if r = 0x07 then 0x29 else if r = 0x08 then 0x02 else if r = 0x09 then 0x24
     else if r = 0x0B then 0x02 else 0)"

lemma demo_chip_quiet: "quiet_chip (demo_chip demo_regs) (\<lambda>_. True) demo_regs"
  by (simp add: quiet_chip_def demo_chip_def cmos_regs demo_regs_def)

lemma clock_roundtrip_witness:
  "\<exists>dev'. cmos_current_time (demo_chip demo_regs) 0 = Returns (of_nat (date_secs 2024 2 29 23 30 59), dev')
     \<and> localtime (of_nat (date_secs 2024 2 29 23 30 59)) (date_tm 1970 1 1 0 0 0)
         = Returns (date_tm 2024 2 29 23 30 59)"
  by (rule clock_roundtrip [OF demo_chip_quiet, where b = 2])
    (simp_all add: valid_date_def days_in_month_def year_is_leap_def cmos_regs demo_regs_def chip_enc_def)

text \<open>What the decoding does to the hour register alone.\<close>

definition hours_out :: "bool \<Rightarrow> bool \<Rightarrow> u8 \<Rightarrow> u8" where
  "hours_out bcd twelve h =
     (let h = (if bcd then ((h AND 0x0F) + ((h AND 0x70) div 16) * 10) OR (h AND 0x80) else h)
      in if twelve \<and> h AND 0x80 \<noteq> 0 then to_24h h else h)"

lemma rtc_hours_decode:
  "rtc_hours (rtc_decode c b (r\<lparr>rtc_hours := h\<rparr>)) = hours_out (b AND 0x04 = 0) (b AND 0x02 = 0) h"
  by (auto simp: rtc_decode_def from_bcd_def hours_out_def Let_def)

lemma twelve_table:
  "list_all (\<lambda>h. hours_out bcd True ((if bcd then of_int (h + 6 * (h div 10)) else of_int h)
       OR (if pm then 0x80 else 0))
     = of_int (if h = 12 then (if pm then 0 else 12) else if pm then h + 12 else h)) [1..12]"
  by (cases bcd; cases pm; simp only: simp_thms if_True if_False; code_simp)

text \<open>
  in 12-hour mode, where bit 7 marks the afternoon, every hour but the twelfth is decoded
  right; noon becomes hour 0 and midnight hour 12.
\<close>

theorem twelve_hour_decode:
  assumes "b AND 0x02 = 0" "1 \<le> h" "h \<le> 12"
  shows "rtc_hours (rtc_decode c b (r\<lparr>rtc_hours := chip_enc b h OR (if pm then 0x80 else 0)\<rparr>))
       = of_int (if h = 12 then (if pm then 0 else 12) else if pm then h + 12 else h)"
proof -
  have "h \<in> set [1..12]" using assms(2,3) by simp
  then have "hours_out (b AND 0x04 = 0) True (chip_enc b h OR (if pm then 0x80 else 0))
      = of_int (if h = 12 then (if pm then 0 else 12) else if pm then h + 12 else h)"
    using twelve_table [of "b AND 0x04 = 0" pm] by (simp add: list_all_iff chip_enc_def del: of_int_mult of_int_add)
  then show ?thesis using assms(1) by (simp add: rtc_hours_decode)
qed

lemma twelve_hour_decode_witness:
  "rtc_hours (rtc_decode 0 0 ((chip_fields demo_regs)\<lparr>rtc_hours := 0x92\<rparr>)) = 0"
  using twelve_hour_decode [where b = 0 and h = 12 and c = 0 and r = "chip_fields demo_regs" and pm = True] by (simp add: chip_enc_def)

end
