(* ===== verification/Vfs.thy ===== *)
theory Vfs
  imports Time_Types
begin

text \<open>
  The virtual file system (\<open>fs/vfs.c\<close>, \<open>fs/filebase.c\<close>, \<open>fs/vfs.h\<close>): the tree of nodes, path
  lookup with creation, and the operations on handles. Tree nodes and inodes live in maps keyed by
  their address (a number; tree node 0 is \<open>vfs_root\<close>); allocation takes a fresh one, so running out
  of heap is not seen here. A file system is a table of operations, an argument \<open>F\<close> of the
  definitions that call through \<open>inode->fs\<close>. Every function but \<open>vfs_open\<close> is one step under
  \<open>vfs_lock\<close>; \<open>vfs_open\<close> reads the handle after it has released the lock and is two steps.
  Paths and names are the bytes before the terminating zero.
\<close>

section \<open>Nodes, descriptors and the file system table: \<open>fs/vfs.h\<close>\<close>

definition VFS_MAX_PATH_LEN :: nat where "VFS_MAX_PATH_LEN = 4096"
definition VFS_MAX_NAME_LEN :: nat where "VFS_MAX_NAME_LEN = 256"

datatype vfs_node_type =
  VFS_NODE_FILE | VFS_NODE_FOLDER | VFS_NODE_BLOCK_DEVICE | VFS_NODE_CHAR_DEVICE | VFS_NODE_MOUNTPOINT

datatype vfs_openmode = VFS_MODE_READ | VFS_MODE_WRITE | VFS_MODE_READWRITE

record vfs_dirent =
  de_type :: vfs_node_type
  de_tm :: tm
  de_name :: "u8 list"

record vfs_tnode =
  tname :: "u8 list"
  tinode :: nat
  tparent :: "nat option"

record vfs_inode =
  itype :: vfs_node_type
  isize :: u64
  iperms :: u32
  iuid :: u32
  irefcount :: u32
  itm :: tm
  ifs :: "nat option"
  iident :: "nat option"
  imountpoint :: "nat option"
  ichild :: "nat list"

record vfs_node_desc =
  fpath :: "u8 list"
  ftnode :: nat
  finode :: nat
  fmode :: vfs_openmode
  fseek :: u64

text \<open>\<open>fsdev\<close> is the file systems' own state (their media and private tables).\<close>

record 'd vfs =
  tnodes :: "nat \<Rightarrow> vfs_tnode option"
  inodes :: "nat \<Rightarrow> vfs_inode option"
  fresh :: nat
  fslist :: "nat list"
  openfiles :: "vfs_node_desc option list"
  fsdev :: 'd

record 'd vfs_fsinfo =
  fs_name :: "u8 list"
  fs_istemp :: bool
  fs_mount :: "nat option \<Rightarrow> 'd vfs \<Rightarrow> (nat option \<times> 'd vfs) outcome"
  fs_open :: "nat \<Rightarrow> u8 list \<Rightarrow> 'd vfs \<Rightarrow> (nat option \<times> 'd vfs) outcome"
  fs_mknode :: "nat \<Rightarrow> 'd vfs \<Rightarrow> (int \<times> 'd vfs) outcome"
  fs_read :: "nat \<Rightarrow> u64 \<Rightarrow> u64 \<Rightarrow> 'd vfs \<Rightarrow> (int \<times> u8 list \<times> 'd vfs) outcome"
  fs_write :: "nat \<Rightarrow> u64 \<Rightarrow> u64 \<Rightarrow> u8 list \<Rightarrow> 'd vfs \<Rightarrow> (int \<times> 'd vfs) outcome"
  fs_sync :: "nat \<Rightarrow> 'd vfs \<Rightarrow> (int \<times> 'd vfs) outcome"
  fs_refresh :: "nat \<Rightarrow> 'd vfs \<Rightarrow> (int \<times> 'd vfs) outcome"
  fs_getdent :: "nat \<Rightarrow> u64 \<Rightarrow> 'd vfs \<Rightarrow> (int \<times> vfs_dirent \<times> 'd vfs) outcome"

type_synonym 'd fs_table = "nat \<Rightarrow> 'd vfs_fsinfo"

text \<open>Following a pointer: an address that holds no live object is the fault.\<close>

definition tnode_at :: "'d vfs \<Rightarrow> nat \<Rightarrow> vfs_tnode outcome" where
  "tnode_at s t = (case tnodes s t of Some n \<Rightarrow> Returns n | None \<Rightarrow> Faults NullDeref)"

definition inode_at :: "'d vfs \<Rightarrow> nat \<Rightarrow> vfs_inode outcome" where
  "inode_at s i = (case inodes s i of Some n \<Rightarrow> Returns n | None \<Rightarrow> Faults NullDeref)"

definition fs_at :: "'d fs_table \<Rightarrow> nat option \<Rightarrow> 'd vfs_fsinfo outcome" where
  "fs_at F p = (case p of Some k \<Rightarrow> Returns (F k) | None \<Rightarrow> Faults NullDeref)"

definition put_inode :: "nat \<Rightarrow> vfs_inode \<Rightarrow> 'd vfs \<Rightarrow> 'd vfs" where
  "put_inode i n s = s\<lparr>inodes := (inodes s)(i \<mapsto> n)\<rparr>"

section \<open>Nodes and paths: \<open>fs/filebase.c\<close>\<close>

definition IS_TRAVERSABLE :: "vfs_inode \<Rightarrow> bool" where
  "IS_TRAVERSABLE n \<longleftrightarrow> itype n = VFS_NODE_FOLDER \<or> itype n = VFS_NODE_MOUNTPOINT"

definition NO_CREATE :: u8 where "NO_CREATE = 1"
definition CREATE :: u8 where "CREATE = 2"
definition ERR_ON_EXIST :: u8 where "ERR_ON_EXIST = 4"

definition SLASH :: u8 where "SLASH = 0x2F"

definition vfs_alloc_tnode :: "u8 list \<Rightarrow> nat \<Rightarrow> nat option \<Rightarrow> 'd vfs \<Rightarrow> nat \<times> 'd vfs" where
  "vfs_alloc_tnode name inode parent s =
     (fresh s, s\<lparr>tnodes := (tnodes s)(fresh s \<mapsto> \<lparr>tname = take VFS_MAX_NAME_LEN name, tinode = inode,
                                                  tparent = parent\<rparr>),
                 fresh := fresh s + 1\<rparr>)"

definition vfs_alloc_inode ::
  "vfs_node_type \<Rightarrow> u32 \<Rightarrow> u32 \<Rightarrow> nat option \<Rightarrow> nat option \<Rightarrow> 'd vfs \<Rightarrow> nat \<times> 'd vfs" where
  "vfs_alloc_inode type perms uid fs mountpoint s =
     (fresh s, s\<lparr>inodes := (inodes s)(fresh s \<mapsto>
                   \<lparr>itype = type, isize = 0, iperms = perms, iuid = uid, irefcount = 0, itm = zero_tm,
                    ifs = fs, iident = None, imountpoint = mountpoint, ichild = []\<rparr>),
                 fresh := fresh s + 1\<rparr>)"

text \<open>The count is unsigned, so \<open>refcount <= 0\<close> is \<open>refcount = 0\<close>.\<close>

definition vfs_free_nodes :: "nat \<Rightarrow> 'd vfs \<Rightarrow> 'd vfs outcome" where
  "vfs_free_nodes t s =
     obind (tnode_at s t) (\<lambda>n.
     obind (inode_at s (tinode n)) (\<lambda>i.
       let s = (if irefcount i \<le> 0 then s\<lparr>inodes := (inodes s)(tinode n := None)\<rparr> else s)
       in Returns (s\<lparr>tnodes := (tnodes s)(t := None)\<rparr>)))"

definition vfs_handle_to_fd :: "int \<Rightarrow> 'd vfs \<Rightarrow> vfs_node_desc option" where
  "vfs_handle_to_fd handle s =
     (if unat (of_int handle :: u64) \<ge> length (openfiles s) then None
      else openfiles s ! unat (of_int handle :: u64))"

text \<open>\<open>strncmp(child->name, tmpbuff, 256)\<close> is 0 when the two agree on their first 256 bytes.\<close>

fun find_child :: "'d vfs \<Rightarrow> u8 list \<Rightarrow> nat list \<Rightarrow> nat option outcome" where
  "find_child s tok [] = Returns None"
| "find_child s tok (c # cs) =
     obind (tnode_at s c) (\<lambda>n.
       if tname n = take VFS_MAX_NAME_LEN tok then Returns (Some c) else find_child s tok cs)"

lemma length_after_token: "rest \<noteq> [] \<Longrightarrow> length (tl (dropWhile P rest)) < length rest"
  using length_dropWhile_le [of P rest] by (cases rest) (auto simp: less_Suc_eq_le)

text \<open>
  The lookup loop. \<open>rest\<close> is the path from \<open>curr_index\<close> on, \<open>past\<close> says \<open>curr_index > pathlen\<close>,
  \<open>tok\<close> is \<open>tmpbuff\<close>. A component that is not found leaves \<open>curr\<close> where it is and the loop goes on.
\<close>

function walk ::
  "'d vfs \<Rightarrow> nat \<Rightarrow> bool \<Rightarrow> u8 list \<Rightarrow> bool \<Rightarrow> u8 list \<Rightarrow> (nat \<times> bool \<times> u8 list \<times> bool) outcome"
where
  "walk s cur found tok past rest =
     (if rest = [] then Returns (cur, found, tok, past)
      else
        let tok = takeWhile (\<lambda>c. c \<noteq> SLASH) rest;
            more = dropWhile (\<lambda>c. c \<noteq> SLASH) rest
        in if VFS_MAX_PATH_LEN \<le> length tok then Faults OutOfBounds
           else obind (tnode_at s cur) (\<lambda>t. obind (inode_at s (tinode t)) (\<lambda>i.
                  if \<not> IS_TRAVERSABLE i then Returns (cur, False, tok, more = [])
                  else obind (find_child s tok (ichild i)) (\<lambda>r.
                    case r of
                      Some c \<Rightarrow> walk s c True tok (more = []) (tl more)
                    | None \<Rightarrow> walk s cur False tok (more = []) (tl more)))))"
  by pat_completeness auto
termination
  by (relation "measure (\<lambda>(s, cur, found, tok, past, rest). length rest)")
    (auto intro: length_after_token [simplified])

declare walk.simps [simp del]


definition vfs_path_to_node ::
  "'d fs_table \<Rightarrow> u8 list \<Rightarrow> u8 \<Rightarrow> vfs_node_type \<Rightarrow> 'd vfs \<Rightarrow> (nat option \<times> 'd vfs) outcome"
where
  "vfs_path_to_node F path mode create_type s =
     (if path = [] \<or> hd path \<noteq> SLASH then Returns (None, s)
      else
        obind (walk s 0 True [] False (tl path)) (\<lambda>(cur, foundnode, tok, past).
          if \<not> foundnode then
            obind (tnode_at s cur) (\<lambda>t. obind (inode_at s (tinode t)) (\<lambda>i.
              if \<not> IS_TRAVERSABLE i then Returns (None, s)
              else if mode AND CREATE \<noteq> 0 \<and> past then
                let (new_inode, s) = vfs_alloc_inode create_type 0x1FF 0 (ifs i) (imountpoint i) s;
                    (new_tnode, s) = vfs_alloc_tnode tok new_inode (Some (tinode t)) s;
                    s = put_inode (tinode t) (i\<lparr>ichild := ichild i @ [new_tnode]\<rparr>) s
                in if ifs i \<noteq> None
                   then obind (fs_at F (ifs i)) (\<lambda>f.
                          omap (\<lambda>(_, s). (Some new_tnode, s)) (fs_mknode f new_tnode s))
                   else Returns (Some new_tnode, s)
              else Returns (None, s)))
          else if mode AND ERR_ON_EXIST \<noteq> 0 then Returns (None, s)
          else Returns (Some cur, s)))"

section \<open>The operations: \<open>fs/vfs.c\<close>\<close>

definition vfs_register_fs :: "nat \<Rightarrow> 'd vfs \<Rightarrow> 'd vfs" where
  "vfs_register_fs fs s = s\<lparr>fslist := fslist s @ [fs]\<rparr>"

definition vfs_get_fs :: "'d fs_table \<Rightarrow> u8 list \<Rightarrow> 'd vfs \<Rightarrow> nat option" where
  "vfs_get_fs F name s = find (\<lambda>k. take 16 name = take 16 (fs_name (F k))) (fslist s)"

definition dev_path :: "u8 list" where "dev_path = [0x2F, 0x64, 0x65, 0x76]"
definition disk_path :: "u8 list" where "disk_path = [0x2F, 0x64, 0x69, 0x73, 0x6B]"

definition vfs_init :: "'d fs_table \<Rightarrow> nat \<Rightarrow> 'd vfs \<Rightarrow> 'd vfs outcome" where
  "vfs_init F fat32 s =
     (let (r, s) = vfs_alloc_inode VFS_NODE_FOLDER 0x1FF 0 None None s;
          s = s\<lparr>tnodes := (tnodes s)(0 \<mapsto> \<lparr>tname = [], tinode = r, tparent = None\<rparr>)\<rparr>;
          s = vfs_register_fs fat32 s
      in obind (vfs_path_to_node F dev_path CREATE VFS_NODE_FOLDER s) (\<lambda>(_, s).
           omap snd (vfs_path_to_node F disk_path CREATE VFS_NODE_FOLDER s)))"

definition vfs_create :: "'d fs_table \<Rightarrow> u8 list \<Rightarrow> vfs_node_type \<Rightarrow> 'd vfs \<Rightarrow> (int \<times> 'd vfs) outcome" where
  "vfs_create F path type s =
     omap (\<lambda>(node, s). (if node = None then -1 else 0, s))
       (vfs_path_to_node F path (CREATE OR ERR_ON_EXIST) type s)"

definition vfs_chmod :: "'d fs_table \<Rightarrow> int \<Rightarrow> int \<Rightarrow> 'd vfs \<Rightarrow> (int \<times> 'd vfs) outcome" where
  "vfs_chmod F handle newperms s =
     (case vfs_handle_to_fd handle s of
        None \<Rightarrow> Returns (-1, s)
      | Some fd \<Rightarrow>
          if fmode fd = VFS_MODE_READ then Returns (-1, s)
          else obind (inode_at s (finode fd)) (\<lambda>i.
                 let s = put_inode (finode fd) (i\<lparr>iperms := of_int newperms\<rparr>) s in
                 obind (fs_at F (ifs i)) (\<lambda>f. omap (\<lambda>(_, s). (0, s)) (fs_sync f (finode fd) s))))"

definition mount_at ::
  "'d vfs_fsinfo \<Rightarrow> u8 list \<Rightarrow> nat option \<Rightarrow> 'd vfs \<Rightarrow> 'd fs_table \<Rightarrow> (int \<times> 'd vfs) outcome" where
  "mount_at f path dev s F =
     obind (vfs_path_to_node F path NO_CREATE VFS_NODE_FILE s) (\<lambda>(at, s).
       case at of
         None \<Rightarrow> Returns (-1, s)
       | Some at \<Rightarrow>
           obind (tnode_at s at) (\<lambda>t. obind (inode_at s (tinode t)) (\<lambda>i.
             if itype i \<noteq> VFS_NODE_FOLDER \<or> ichild i \<noteq> [] then Returns (-1, s)
             else
               let s = s\<lparr>inodes := (inodes s)(tinode t := None)\<rparr> in
               obind (fs_mount f dev s) (\<lambda>(m, s).
                 case m of
                   None \<Rightarrow> Faults NullDeref
                 | Some m \<Rightarrow>
                     obind (tnode_at s at) (\<lambda>t. obind (inode_at s m) (\<lambda>mi.
                       let s = s\<lparr>tnodes := (tnodes s)(at \<mapsto> t\<lparr>tinode := m\<rparr>)\<rparr>;
                           s = put_inode m (mi\<lparr>imountpoint := Some at\<rparr>) s
                       in Returns (0, s)))))))"

definition vfs_mount ::
  "'d fs_table \<Rightarrow> u8 list \<Rightarrow> u8 list \<Rightarrow> u8 list \<Rightarrow> 'd vfs \<Rightarrow> (int \<times> 'd vfs) outcome" where
  "vfs_mount F device path fsname s =
     (case vfs_get_fs F fsname s of
        None \<Rightarrow> Returns (-1, s)
      | Some k \<Rightarrow>
          if fs_istemp (F k) then mount_at (F k) path None s F
          else
            obind (vfs_path_to_node F device NO_CREATE VFS_NODE_FILE s) (\<lambda>(dev, s).
              case dev of
                None \<Rightarrow> Returns (-1, s)
              | Some dev \<Rightarrow>
                  obind (tnode_at s dev) (\<lambda>t. obind (inode_at s (tinode t)) (\<lambda>i.
                    if itype i \<noteq> VFS_NODE_BLOCK_DEVICE then Returns (-1, s)
                    else mount_at (F k) path (Some (tinode t)) s F))))"

text \<open>
  \<open>vfs_read\<close> answers the length as \<open>int64_t\<close> and the bytes the file system put in the buffer.
\<close>

definition read_length :: "u64 \<Rightarrow> u64 \<Rightarrow> u64 \<Rightarrow> u64" where
  "read_length pos len fsize = (if pos + len > fsize then fsize - pos else len)"

definition vfs_read :: "'d fs_table \<Rightarrow> int \<Rightarrow> u64 \<Rightarrow> 'd vfs \<Rightarrow> (int \<times> u8 list \<times> 'd vfs) outcome" where
  "vfs_read F handle len s =
     (case vfs_handle_to_fd handle s of
        None \<Rightarrow> Returns (0, [], s)
      | Some fd \<Rightarrow>
          obind (tnode_at s (ftnode fd)) (\<lambda>_. obind (inode_at s (finode fd)) (\<lambda>i.
            let n = read_length (fseek fd) len (isize i) in
            if fseek fd + len > isize i \<and> n = 0 then Returns (0, [], s)
            else
              obind (fs_at F (ifs i)) (\<lambda>f.
              obind (fs_read f (finode fd) (fseek fd) n s) (\<lambda>(status, buff, s).
                Returns (sint (if status = -1 then 0 else n), buff, s))))))"

text \<open>The file is expanded when more data is written than it holds.\<close>

definition grow_file :: "'d fs_table \<Rightarrow> vfs_node_desc \<Rightarrow> u64 \<Rightarrow> vfs_inode \<Rightarrow> 'd vfs \<Rightarrow> 'd vfs outcome" where
  "grow_file F fd len i s =
     (if fseek fd + len > isize i
      then obind (fs_at F (ifs i)) (\<lambda>f.
             omap snd (fs_sync f (finode fd) (put_inode (finode fd) (i\<lparr>isize := fseek fd + len\<rparr>) s)))
      else Returns s)"

definition vfs_write :: "'d fs_table \<Rightarrow> int \<Rightarrow> u64 \<Rightarrow> u8 list \<Rightarrow> 'd vfs \<Rightarrow> (int \<times> 'd vfs) outcome" where
  "vfs_write F handle len buff s =
     (case vfs_handle_to_fd handle s of
        None \<Rightarrow> Returns (0, s)
      | Some fd \<Rightarrow>
          if fmode fd = VFS_MODE_READ then Returns (0, s)
          else
            obind (inode_at s (finode fd)) (\<lambda>i.
            obind (grow_file F fd len i s) (\<lambda>s.
            obind (inode_at s (finode fd)) (\<lambda>i.
            obind (fs_at F (ifs i)) (\<lambda>f.
            obind (fs_write f (finode fd) (fseek fd) len buff s) (\<lambda>(status, s).
              Returns (sint (if status = -1 then 0 else len), s)))))))"

definition vfs_seek :: "int \<Rightarrow> u64 \<Rightarrow> 'd vfs \<Rightarrow> (int \<times> 'd vfs) outcome" where
  "vfs_seek handle pos s =
     (case vfs_handle_to_fd handle s of
        None \<Rightarrow> Returns (-1, s)
      | Some fd \<Rightarrow>
          obind (inode_at s (finode fd)) (\<lambda>i.
            if pos \<ge> isize i \<and> fmode fd = VFS_MODE_READ then Returns (-1, s)
            else Returns (0, s\<lparr>openfiles := (openfiles s)[unat (of_int handle :: u64) :=
                                 Some (fd\<lparr>fseek := pos\<rparr>)]\<rparr>)))"

text \<open>
  \<open>cut_at p idx\<close> is the loop of \<open>vfs_get_parent_dir\<close>: cut the string at the last slash not
  after \<open>idx\<close>, unless that is the first byte. \<open>strlen(parent) - 1\<close> of an empty string wraps, and
  \<open>parent[idx]\<close> is then out of bounds.
\<close>

primrec cut_at :: "u8 list \<Rightarrow> nat \<Rightarrow> u8 list" where
  "cut_at p 0 = p"
| "cut_at p (Suc k) = (if p ! Suc k = SLASH then take (Suc k) p else cut_at p k)"

definition vfs_get_parent_dir :: "u8 list \<Rightarrow> u8 list outcome" where
  "vfs_get_parent_dir path =
     (if VFS_MAX_PATH_LEN \<le> length path then Faults OutOfBounds
      else if path = [] then Faults OutOfBounds
      else let idx = length path - 1;
               idx = (if idx > 0 \<and> path ! idx = SLASH then idx - 1 else idx)
           in Returns (cut_at path idx))"

definition find_parent_step ::
  "'d fs_table \<Rightarrow> 'd vfs \<Rightarrow> u8 list \<Rightarrow> (u8 list + nat option) outcome" where
  "find_parent_step F s curpath =
     obind (vfs_get_parent_dir curpath) (\<lambda>parent.
       if curpath = parent then Returns (Inr None)
       else obind (vfs_path_to_node F parent NO_CREATE VFS_NODE_FILE s) (\<lambda>(pn, s').
              if pn \<noteq> None then Returns (Inr pn) else Returns (Inl parent)))"

text \<open>The part of \<open>vfs_open\<close> under the lock, and the read of the handle after it.\<close>

definition open_backing :: "'d fs_table \<Rightarrow> u8 list \<Rightarrow> 'd vfs \<Rightarrow> (nat option \<times> 'd vfs) outcome" where
  "open_backing F path s =
     (if VFS_MAX_PATH_LEN \<le> length path then Faults OutOfBounds
      else
        obind (loop_c (find_parent_step F s) path) (\<lambda>pn.
          case pn of
            None \<Rightarrow> Faults NullDeref
          | Some pn \<Rightarrow>
              obind (tnode_at s pn) (\<lambda>t. obind (inode_at s (tinode t)) (\<lambda>i.
                case ifs i of
                  None \<Rightarrow> Returns (None, s)
                | Some k \<Rightarrow> fs_open (F k) (tinode t) path s))))"

definition add_descriptor :: "u8 list \<Rightarrow> vfs_openmode \<Rightarrow> nat \<Rightarrow> 'd vfs \<Rightarrow> 'd vfs outcome" where
  "add_descriptor path mode req s =
     obind (tnode_at s req) (\<lambda>t. obind (inode_at s (tinode t)) (\<lambda>i.
       if VFS_MAX_PATH_LEN \<le> length path then Faults OutOfBounds
       else
         let s = put_inode (tinode t) (i\<lparr>irefcount := irefcount i + 1\<rparr>) s in
         Returns (s\<lparr>openfiles := openfiles s @
            [Some \<lparr>fpath = path, ftnode = req, finode = tinode t, fmode = mode, fseek = 0\<rparr>]\<rparr>)))"

definition vfs_open_locked ::
  "'d fs_table \<Rightarrow> u8 list \<Rightarrow> vfs_openmode \<Rightarrow> 'd vfs \<Rightarrow> (bool \<times> 'd vfs) outcome" where
  "vfs_open_locked F path mode s =
     obind (vfs_path_to_node F path NO_CREATE VFS_NODE_FILE s) (\<lambda>(req, s).
     obind (if req = None then open_backing F path s else Returns (req, s)) (\<lambda>(req, s).
       case req of
         None \<Rightarrow> Returns (False, s)
       | Some req \<Rightarrow> omap (\<lambda>s. (True, s)) (add_descriptor path mode req s)))"

definition open_handle :: "'d vfs \<Rightarrow> int" where
  "open_handle s = sint (ucast (of_nat (length (openfiles s)) - 1 :: u64) :: u32)"

definition vfs_open ::
  "'d fs_table \<Rightarrow> u8 list \<Rightarrow> vfs_openmode \<Rightarrow> 'd vfs \<Rightarrow> (int \<times> 'd vfs) outcome" where
  "vfs_open F path mode s =
     omap (\<lambda>(ok, s). (if ok then open_handle s else -1, s)) (vfs_open_locked F path mode s)"

definition vfs_close :: "int \<Rightarrow> 'd vfs \<Rightarrow> (int \<times> 'd vfs) outcome" where
  "vfs_close handle s =
     (case vfs_handle_to_fd handle s of
        None \<Rightarrow> Returns (-1, s)
      | Some fd \<Rightarrow>
          obind (inode_at s (finode fd)) (\<lambda>i.
            let s = put_inode (finode fd) (i\<lparr>irefcount := irefcount i - 1\<rparr>) s in
            Returns (0, s\<lparr>openfiles := (openfiles s)[unat (of_int handle :: u64) := None]\<rparr>)))"

text \<open>
  \<open>vfs_refresh\<close>: what it does with one entry, and one round of its loop; the counter is the
  state besides the tree.
\<close>

definition refresh_entry ::
  "'d fs_table \<Rightarrow> vfs_node_desc \<Rightarrow> vfs_dirent \<Rightarrow> 'd vfs \<Rightarrow> 'd vfs outcome" where
  "refresh_entry F fd de s =
     (let path = fpath fd @ [SLASH] @ de_name de in
      if VFS_MAX_PATH_LEN \<le> length path then Faults OutOfBounds
      else
        obind (vfs_path_to_node F path CREATE (de_type de) s) (\<lambda>(tn, s).
          case tn of
            None \<Rightarrow> Faults NullDeref
          | Some tn \<Rightarrow>
              obind (tnode_at s tn) (\<lambda>t. obind (inode_at s (tinode t)) (\<lambda>i.
                Returns (put_inode (tinode t) (i\<lparr>itm := de_tm de\<rparr>) s)))))"

definition refresh_step ::
  "'d fs_table \<Rightarrow> vfs_node_desc \<Rightarrow> u64 \<times> 'd vfs \<Rightarrow> (u64 \<times> 'd vfs + 'd vfs) outcome" where
  "refresh_step F fd st =
     (case st of (k, s) \<Rightarrow>
        obind (inode_at s (finode fd)) (\<lambda>i. obind (fs_at F (ifs i)) (\<lambda>f.
        obind (fs_getdent f (finode fd) k s) (\<lambda>(stop, de, s).
          if stop \<noteq> 0 then Returns (Inr s)
          else omap (\<lambda>s. Inl (k + 1, s)) (refresh_entry F fd de s)))))"

definition vfs_refresh :: "'d fs_table \<Rightarrow> int \<Rightarrow> 'd vfs \<Rightarrow> (int \<times> 'd vfs) outcome" where
  "vfs_refresh F handle s =
     (case vfs_handle_to_fd handle s of
        None \<Rightarrow> Returns (-1, s)
      | Some fd \<Rightarrow>
          obind (inode_at s (finode fd)) (\<lambda>i. obind (fs_at F (ifs i)) (\<lambda>f.
          obind (fs_refresh f (finode fd) s) (\<lambda>(_, s).
            omap (\<lambda>s. (0, s)) (loop_c (refresh_step F fd) (0, s))))))"

definition vfs_getdent :: "int \<Rightarrow> 'd vfs \<Rightarrow> (int \<times> vfs_dirent option \<times> 'd vfs) outcome" where
  "vfs_getdent handle s =
     (case vfs_handle_to_fd handle s of
        None \<Rightarrow> Returns (-1, None, s)
      | Some fd \<Rightarrow>
          obind (inode_at s (finode fd)) (\<lambda>i.
            if \<not> IS_TRAVERSABLE i then Returns (-1, None, s)
            else if fseek fd \<ge> of_nat (length (ichild i)) then Returns (0, None, s)
            else
              obind (rd (ichild i) (unat (fseek fd))) (\<lambda>c.
              obind (tnode_at s c) (\<lambda>t. obind (inode_at s (tinode t)) (\<lambda>ci.
                Returns (1, Some \<lparr>de_type = itype ci, de_tm = itm ci, de_name = tname t\<rparr>,
                  s\<lparr>openfiles := (openfiles s)[unat (of_int handle :: u64) :=
                       Some (fd\<lparr>fseek := fseek fd + 1\<rparr>)]\<rparr>))))))"


section \<open>The tree a path walks in\<close>

definition tree_ok :: "'d vfs \<Rightarrow> bool" where
  "tree_ok s \<longleftrightarrow> tnodes s 0 \<noteq> None \<and>
     (\<forall>t n. tnodes s t = Some n \<longrightarrow> t < fresh s \<and> inodes s (tinode n) \<noteq> None) \<and>
     (\<forall>i n. inodes s i = Some n \<longrightarrow> i < fresh s \<and> (\<forall>c \<in> set (ichild n). tnodes s c \<noteq> None))"

definition inode_of :: "'d vfs \<Rightarrow> nat \<Rightarrow> vfs_inode" where
  "inode_of s t = the (inodes s (tinode (the (tnodes s t))))"

definition folder :: "'d vfs \<Rightarrow> nat \<Rightarrow> bool" where
  "folder s t \<longleftrightarrow> IS_TRAVERSABLE (inode_of s t)"

definition child :: "'d vfs \<Rightarrow> nat \<Rightarrow> u8 list \<Rightarrow> nat option" where
  "child s t c = find (\<lambda>k. tname (the (tnodes s k)) = take VFS_MAX_NAME_LEN c) (ichild (inode_of s t))"

text \<open>Following components strictly: the node a sequence of names stands for.\<close>

fun resolve :: "'d vfs \<Rightarrow> nat \<Rightarrow> u8 list list \<Rightarrow> nat option" where
  "resolve s t [] = Some t"
| "resolve s t (c # cs) =
     (if folder s t then (case child s t c of Some k \<Rightarrow> resolve s k cs | None \<Rightarrow> None) else None)"

definition join_path :: "u8 list list \<Rightarrow> u8 list" where
  "join_path cs = concat (map (\<lambda>c. SLASH # c) cs)"

definition good_comp :: "u8 list \<Rightarrow> bool" where
  "good_comp c \<longleftrightarrow> c \<noteq> [] \<and> SLASH \<notin> set c \<and> length c < VFS_MAX_PATH_LEN"

lemma tnode_live:
  assumes "tree_ok s" "tnodes s t \<noteq> None"
  shows "tnode_at s t = Returns (the (tnodes s t))"
    and "inode_at s (tinode (the (tnodes s t))) = Returns (inode_of s t)"
    and "inodes s (tinode (the (tnodes s t))) = Some (inode_of s t)"
proof -
  from assms obtain n i where "tnodes s t = Some n" "inodes s (tinode n) = Some i"
    unfolding tree_ok_def by blast
  then show "tnode_at s t = Returns (the (tnodes s t))"
    "inode_at s (tinode (the (tnodes s t))) = Returns (inode_of s t)"
    "inodes s (tinode (the (tnodes s t))) = Some (inode_of s t)"
    by (simp_all add: tnode_at_def inode_at_def inode_of_def)
qed

lemma children_live:
  assumes "tree_ok s" "tnodes s t \<noteq> None" "c \<in> set (ichild (inode_of s t))"
  shows "tnodes s c \<noteq> None"
  using assms tnode_live(3) [OF assms(1,2)] unfolding tree_ok_def by blast

lemma find_child_eq:
  assumes "\<forall>c \<in> set cs. tnodes s c \<noteq> None"
  shows "find_child s tok cs
       = Returns (find (\<lambda>k. tname (the (tnodes s k)) = take VFS_MAX_NAME_LEN tok) cs)"
  using assms by (induction cs) (auto simp: tnode_at_def)

lemma child_live:
  assumes "tree_ok s" "tnodes s t \<noteq> None" "child s t c = Some k"
  shows "tnodes s k \<noteq> None"
proof -
  from assms(3) have "k \<in> set (ichild (inode_of s t))"
    by (auto simp: child_def find_Some_iff in_set_conv_nth)
  with assms(1,2) show ?thesis by (rule children_live)
qed

lemma join_path_simps [simp]:
  "join_path [] = []" "join_path (c # cs) = SLASH # c @ join_path cs"
  "join_path (cs @ ds) = join_path cs @ join_path ds"
  by (simp_all add: join_path_def)

lemma join_path_eq_Nil [simp]: "join_path cs = [] \<longleftrightarrow> cs = []"
  by (cases cs) simp_all

lemma token_of:
  assumes "good_comp c"
  shows "takeWhile (\<lambda>x. x \<noteq> SLASH) (c @ join_path cs) = c"
    and "dropWhile (\<lambda>x. x \<noteq> SLASH) (c @ join_path cs) = join_path cs"
proof -
  have a: "\<And>x. x \<in> set c \<Longrightarrow> x \<noteq> SLASH" using assms by (auto simp: good_comp_def)
  show "takeWhile (\<lambda>x. x \<noteq> SLASH) (c @ join_path cs) = c"
    using a by (cases cs) (simp_all add: takeWhile_append)
  show "dropWhile (\<lambda>x. x \<noteq> SLASH) (c @ join_path cs) = join_path cs"
    using a by (cases cs) (simp_all add: dropWhile_append)
qed

lemma walk_step:
  assumes "tree_ok s" "tnodes s t \<noteq> None" "good_comp c"
  shows "walk s t f tok past (c @ join_path cs) =
    (if folder s t
     then (case child s t c of Some k \<Rightarrow> walk s k True c (cs = []) (tl (join_path cs))
                             | None \<Rightarrow> walk s t False c (cs = []) (tl (join_path cs)))
     else Returns (t, False, c, cs = []))"
proof -
  note live = tnode_live [OF assms(1,2)]
  have fc: "find_child s c (ichild (inode_of s t)) = Returns (child s t c)"
    unfolding child_def using children_live [OF assms(1,2)] by (intro find_child_eq) blast
  show ?thesis using assms(3)
    by (subst walk.simps)
      (simp add: token_of [OF assms(3)] live fc folder_def good_comp_def Let_def cong: option.case_cong)
qed

lemma walk_end: "walk s t f tok past [] = Returns (t, f, tok, past)"
  by (simp add: walk.simps)

lemma walk_resolve:
  assumes "tree_ok s" "tnodes s t \<noteq> None" "\<forall>c \<in> set cs. good_comp c" "cs \<noteq> []" "resolve s t cs = Some u"
  shows "walk s t f tok past (tl (join_path cs)) = Returns (u, True, last cs, True)"
  using assms(2-)
proof (induction cs arbitrary: t f tok past)
  case Nil
  then show ?case by simp
next
  case (Cons c cs)
  then obtain k where k: "folder s t" "child s t c = Some k" "resolve s k cs = Some u"
    by (auto split: if_splits option.splits)
  have "walk s k True c (cs = []) (tl (join_path cs)) = Returns (u, True, last (c # cs), True)"
  proof (cases "cs = []")
    case True
    with k(3) show ?thesis by (simp add: walk_end)
  next
    case False
    with Cons.IH [of k True c "cs = []"] Cons.prems k child_live [OF assms(1) Cons.prems(1) k(2)]
    show ?thesis by simp
  qed
  with walk_step [OF assms(1) Cons.prems(1)] Cons.prems(2) k show ?case by simp
qed

text \<open>The walk reaches the node of a prefix before it looks at the rest.\<close>

lemma walk_prefix:
  assumes "tree_ok s" "tnodes s t \<noteq> None" "\<forall>c \<in> set cs. good_comp c" "resolve s t cs = Some u" "ds \<noteq> []"
  shows "\<exists>f' tok' past'. walk s t f tok past (tl (join_path (cs @ ds))) = walk s u f' tok' past' (tl (join_path ds))"
  using assms(2-)
proof (induction cs arbitrary: t f tok past)
  case Nil
  then show ?case by auto
next
  case (Cons c cs)
  then obtain k where k: "folder s t" "child s t c = Some k" "resolve s k cs = Some u"
    by (auto split: if_splits option.splits)
  from Cons.IH [of k True c False] Cons.prems k child_live [OF assms(1) Cons.prems(1) k(2)]
  obtain f' tok' past' where "walk s k True c False (tl (join_path (cs @ ds))) = walk s u f' tok' past' (tl (join_path ds))"
    by auto
  with walk_step [OF assms(1) Cons.prems(1), of c f tok past "cs @ ds"] Cons.prems k show ?case by auto
qed

lemma walk_any_start:
  "rest \<noteq> [] \<Longrightarrow> walk s t f tok past rest = walk s t f' tok' past' rest"
  by (subst (1 2) walk.simps) simp

lemma resolve_live:
  "tree_ok s \<Longrightarrow> tnodes s t \<noteq> None \<Longrightarrow> resolve s t cs = Some u \<Longrightarrow> tnodes s u \<noteq> None"
proof (induction cs arbitrary: t)
  case (Cons c cs)
  then obtain k where "child s t c = Some k" "resolve s k cs = Some u"
    by (auto split: if_splits option.splits)
  with Cons child_live show ?case by blast
qed simp

lemma resolve_append:
  "resolve s t (cs @ ds) = (case resolve s t cs of Some u \<Rightarrow> resolve s u ds | None \<Rightarrow> None)"
  by (induction cs arbitrary: t) (auto split: option.splits)


section \<open>Creation and lookup\<close>

text \<open>What the creating branch of \<open>vfs_path_to_node\<close> does to the tree.\<close>

definition created :: "nat \<Rightarrow> u8 list \<Rightarrow> vfs_node_type \<Rightarrow> 'd vfs \<Rightarrow> 'd vfs" where
  "created u c ty s =
     (let t = the (tnodes s u); i = inode_of s u;
          (ni, s1) = vfs_alloc_inode ty 0x1FF 0 (ifs i) (imountpoint i) s;
          (nt, s2) = vfs_alloc_tnode c ni (Some (tinode t)) s1
      in put_inode (tinode t) (i\<lparr>ichild := ichild i @ [nt]\<rparr>) s2)"

lemma created_fields:
  fixes s u c ty
  assumes "tree_ok s" "tnodes s u \<noteq> None"
  defines "s' \<equiv> created u c ty s"
  shows "tnodes s' t = (if t = fresh s + 1 then Some \<lparr>tname = take VFS_MAX_NAME_LEN c, tinode = fresh s,
                          tparent = Some (tinode (the (tnodes s u)))\<rparr> else tnodes s t)"
    and "inodes s' j = (if j = fresh s then Some \<lparr>itype = ty, isize = 0, iperms = 0x1FF, iuid = 0, irefcount = 0,
                             itm = zero_tm, ifs = ifs (inode_of s u), iident = None,
                             imountpoint = imountpoint (inode_of s u), ichild = []\<rparr>
                        else if j = tinode (the (tnodes s u))
                             then Some ((inode_of s u)\<lparr>ichild := ichild (inode_of s u) @ [fresh s + 1]\<rparr>)
                        else inodes s j)"
    and "fresh s' = fresh s + 2" and "openfiles s' = openfiles s"
    and "fslist s' = fslist s" and "fsdev s' = fsdev s"
proof -
  have "tinode (the (tnodes s u)) < fresh s"
    using assms tnode_live(3) [OF assms(1,2)] unfolding tree_ok_def by blast
  then show "tnodes s' t = (if t = fresh s + 1 then Some \<lparr>tname = take VFS_MAX_NAME_LEN c, tinode = fresh s,
                          tparent = Some (tinode (the (tnodes s u)))\<rparr> else tnodes s t)"
    "inodes s' j = (if j = fresh s then Some \<lparr>itype = ty, isize = 0, iperms = 0x1FF, iuid = 0, irefcount = 0,
                             itm = zero_tm, ifs = ifs (inode_of s u), iident = None,
                             imountpoint = imountpoint (inode_of s u), ichild = []\<rparr>
                        else if j = tinode (the (tnodes s u))
                             then Some ((inode_of s u)\<lparr>ichild := ichild (inode_of s u) @ [fresh s + 1]\<rparr>)
                        else inodes s j)"
    "fresh s' = fresh s + 2" "openfiles s' = openfiles s" "fslist s' = fslist s" "fsdev s' = fsdev s"
    by (simp_all add: s'_def created_def vfs_alloc_inode_def vfs_alloc_tnode_def put_inode_def Let_def)
qed

lemma tnode_below:
  assumes "tree_ok s" "tnodes s t = Some n"
  shows "t < fresh s" "tinode n < fresh s"
proof -
  show "t < fresh s" using assms unfolding tree_ok_def by blast
  from assms obtain i where "inodes s (tinode n) = Some i" unfolding tree_ok_def by blast
  with assms(1) show "tinode n < fresh s" unfolding tree_ok_def by blast
qed

lemma created_old:
  assumes "tree_ok s" "tnodes s u \<noteq> None" "tnodes s t \<noteq> None"
  shows "tnodes (created u c ty s) t = tnodes s t"
    and "inode_of (created u c ty s) t =
      (if tinode (the (tnodes s t)) = tinode (the (tnodes s u))
       then (inode_of s u)\<lparr>ichild := ichild (inode_of s u) @ [fresh s + 1]\<rparr> else inode_of s t)"
proof -
  from assms(3) obtain n where n: "tnodes s t = Some n" by auto
  note b = tnode_below [OF assms(1) n]
  show 1: "tnodes (created u c ty s) t = tnodes s t"
    using b by (simp add: created_fields [OF assms(1,2)])
  show "inode_of (created u c ty s) t =
      (if tinode (the (tnodes s t)) = tinode (the (tnodes s u))
       then (inode_of s u)\<lparr>ichild := ichild (inode_of s u) @ [fresh s + 1]\<rparr> else inode_of s t)"
    using b by (simp add: inode_of_def 1 n) (simp add: created_fields [OF assms(1,2)] inode_of_def)
qed

lemma created_tree_ok:
  assumes "tree_ok s" "tnodes s u \<noteq> None"
  shows "tree_ok (created u c ty s)"
proof -
  have t: "t < fresh s" "inodes s (tinode n) \<noteq> None" if "tnodes s t = Some n" for t n
    using assms(1) that unfolding tree_ok_def by blast+
  have i: "j < fresh s" "\<forall>c \<in> set (ichild n). tnodes s c \<noteq> None" if "inodes s j = Some n" for j n
    using assms(1) that unfolding tree_ok_def by blast+
  have u: "\<forall>c \<in> set (ichild (inode_of s u)). tnodes s c \<noteq> None" "tinode (the (tnodes s u)) < fresh s"
    using i [OF tnode_live(3) [OF assms]] by blast+
  have "tnodes s 0 \<noteq> None" using assms(1) by (simp add: tree_ok_def)
  then show ?thesis
    unfolding tree_ok_def created_fields [OF assms] using t i u
    by (auto split: if_splits simp: less_Suc_eq)
qed

lemma child_created:
  assumes "tree_ok s" "tnodes s u \<noteq> None" "tnodes s t \<noteq> None" "child s t d = Some k"
  shows "child (created u c ty s) t d = Some k"
proof -
  let ?s = "created u c ty s"
  have names: "find (\<lambda>k. tname (the (tnodes ?s k)) = take VFS_MAX_NAME_LEN d) xs
      = find (\<lambda>k. tname (the (tnodes s k)) = take VFS_MAX_NAME_LEN d) xs"
    if "\<forall>x \<in> set xs. tnodes s x \<noteq> None" for xs
    using that by (induction xs) (auto simp: created_old(1) [OF assms(1,2)])
  have live: "\<forall>x \<in> set (ichild (inode_of s t)). tnodes s x \<noteq> None"
    using children_live [OF assms(1,3)] by blast
  have app: "find P (xs @ ys) = (case find P xs of Some x \<Rightarrow> Some x | None \<Rightarrow> find P ys)" for P xs and ys :: "nat list"
    by (induction xs) auto
  have "ichild (inode_of ?s t) = ichild (inode_of s t)
      \<or> ichild (inode_of ?s t) = ichild (inode_of s t) @ [fresh s + 1]"
    using created_old(2) [OF assms(1-3), of c ty] by (auto simp: inode_of_def)
  with assms(4) names [OF live] show ?thesis by (auto simp: child_def app)
qed

lemma folder_created:
  assumes "tree_ok s" "tnodes s u \<noteq> None" "tnodes s t \<noteq> None"
  shows "folder (created u c ty s) t = folder s t"
  using created_old(2) [OF assms, of c ty] by (auto simp: folder_def IS_TRAVERSABLE_def inode_of_def)

lemma resolve_created:
  assumes "tree_ok s" "tnodes s u \<noteq> None" "tnodes s t \<noteq> None" "resolve s t cs = Some v"
  shows "resolve (created u c ty s) t cs = Some v"
  using assms(3,4)
proof (induction cs arbitrary: t)
  case (Cons d cs)
  then obtain k where k: "folder s t" "child s t d = Some k" "resolve s k cs = Some v"
    by (auto split: if_splits option.splits)
  with Cons child_live [OF assms(1) Cons.prems(1)] show ?case
    by (simp add: child_created [OF assms(1,2)] folder_created [OF assms(1,2)])
qed simp


lemma path_of_comps: "cs \<noteq> [] \<Longrightarrow> join_path cs \<noteq> [] \<and> hd (join_path cs) = SLASH"
  by (cases cs) simp_all

lemma modes [simp]:
  "NO_CREATE AND CREATE = 0" "NO_CREATE AND ERR_ON_EXIST = 0" "CREATE AND CREATE \<noteq> 0"
  "CREATE AND ERR_ON_EXIST = 0" "(CREATE OR ERR_ON_EXIST) AND CREATE \<noteq> 0"
  "(CREATE OR ERR_ON_EXIST) AND ERR_ON_EXIST \<noteq> 0" "CREATE \<noteq> 0" "ERR_ON_EXIST \<noteq> 0"
  by (simp_all add: NO_CREATE_def CREATE_def ERR_ON_EXIST_def)

lemma root_live: "tree_ok s \<Longrightarrow> tnodes s 0 \<noteq> None"
  by (simp add: tree_ok_def)

lemma lookup_found:
  assumes "tree_ok s" "\<forall>c \<in> set cs. good_comp c" "cs \<noteq> []" "resolve s 0 cs = Some u"
  shows "vfs_path_to_node F (join_path cs) mode ty s
       = Returns (if mode AND ERR_ON_EXIST \<noteq> 0 then None else Some u, s)"
  using walk_resolve [OF assms(1) root_live [OF assms(1)] assms(2-4), of True "[]" False] path_of_comps [OF assms(3)]
  by (simp add: vfs_path_to_node_def)

lemma walk_missing:
  assumes "tree_ok s" "\<forall>d \<in> set (cs @ [c]). good_comp d" "resolve s 0 cs = Some u" "folder s u"
    "child s u c = None"
  shows "walk s 0 True [] False (tl (join_path (cs @ [c]))) = Returns (u, False, c, True)"
proof -
  have u: "tnodes s u \<noteq> None" using resolve_live [OF assms(1) root_live [OF assms(1)] assms(3)] .
  from walk_prefix [OF assms(1) root_live [OF assms(1)], of cs u "[c]" True "[]" False] assms(2,3)
  obtain f tok past where "walk s 0 True [] False (tl (join_path (cs @ [c]))) = walk s u f tok past (c @ join_path [])"
    by auto
  also have "\<dots> = Returns (u, False, c, True)"
    using walk_step [OF assms(1) u, of c f tok past "[]"] assms(2,4,5) by (simp add: walk_end)
  finally show ?thesis .
qed

lemma lookup_missing:
  assumes "tree_ok s" "\<forall>d \<in> set (cs @ [c]). good_comp d" "resolve s 0 cs = Some u" "folder s u"
    "child s u c = None"
  shows "mode AND CREATE = 0 \<Longrightarrow> vfs_path_to_node F (join_path (cs @ [c])) mode ty s = Returns (None, s)"
    and "mode AND CREATE \<noteq> 0 \<Longrightarrow> ifs (inode_of s u) = None \<Longrightarrow>
      vfs_path_to_node F (join_path (cs @ [c])) mode ty s = Returns (Some (fresh s + 1), created u c ty s)"
proof -
  have u: "tnodes s u \<noteq> None" using resolve_live [OF assms(1) root_live [OF assms(1)] assms(3)] .
  have p: "join_path (cs @ [c]) \<noteq> [] \<and> hd (join_path (cs @ [c])) = SLASH"
    by (rule path_of_comps) simp
  have f: "IS_TRAVERSABLE (inode_of s u)" using assms(4) by (simp add: folder_def)
  note w = walk_missing [OF assms] tnode_live [OF assms(1) u] f
  show "vfs_path_to_node F (join_path (cs @ [c])) mode ty s = Returns (None, s)"
    if "mode AND CREATE = 0"
    using that p unfolding vfs_path_to_node_def by (simp add: w del: join_path_simps)
  show "vfs_path_to_node F (join_path (cs @ [c])) mode ty s = Returns (Some (fresh s + 1), created u c ty s)"
    if "mode AND CREATE \<noteq> 0" "ifs (inode_of s u) = None"
    using that p unfolding vfs_path_to_node_def
    by (simp add: w created_def vfs_alloc_inode_def vfs_alloc_tnode_def Let_def del: join_path_simps)
qed

lemma child_created_new:
  assumes "tree_ok s" "tnodes s u \<noteq> None" "child s u c = None"
  shows "child (created u c ty s) u c = Some (fresh s + 1)"
proof -
  let ?s = "created u c ty s"
  have app: "find P (xs @ ys) = (case find P xs of Some x \<Rightarrow> Some x | None \<Rightarrow> find P ys)" for P xs and ys :: "nat list"
    by (induction xs) auto
  have names: "find (\<lambda>k. tname (the (tnodes ?s k)) = take VFS_MAX_NAME_LEN c) xs
      = find (\<lambda>k. tname (the (tnodes s k)) = take VFS_MAX_NAME_LEN c) xs"
    if "\<forall>x \<in> set xs. tnodes s x \<noteq> None" for xs
    using that by (induction xs) (auto simp: created_old(1) [OF assms(1,2)])
  have "\<forall>x \<in> set (ichild (inode_of s u)). tnodes s x \<noteq> None"
    using children_live [OF assms(1,2)] by blast
  moreover have "ichild (inode_of ?s u) = ichild (inode_of s u) @ [fresh s + 1]"
    using created_old(2) [OF assms(1,2,2), of c ty] by simp
  moreover have "tname (the (tnodes ?s (fresh s + 1))) = take VFS_MAX_NAME_LEN c"
    by (simp only: created_fields(1) [OF assms(1,2)]) simp
  ultimately show ?thesis
    using assms(3) names by (simp add: child_def app)
qed

text \<open>
  C25: creating a node in an existing folder of the kernel's own tree succeeds; afterwards its path
  finds a new, empty node of the requested type, every path that led somewhere still leads to the
  same node, and creating the path again is refused without a change.
\<close>

theorem create_then_lookup:
  assumes ok: "tree_ok s" and good: "\<forall>d \<in> set (cs @ [c]). good_comp d"
    and u: "resolve s 0 cs = Some u" "folder s u" "child s u c = None" "ifs (inode_of s u) = None"
  shows "\<exists>s' n. vfs_create F (join_path (cs @ [c])) ty s = Returns (0, s') \<and> tree_ok s'
     \<and> vfs_path_to_node F (join_path (cs @ [c])) NO_CREATE ty' s' = Returns (Some n, s')
     \<and> tnodes s n = None \<and> itype (inode_of s' n) = ty \<and> isize (inode_of s' n) = 0
     \<and> ichild (inode_of s' n) = []
     \<and> (\<forall>ds v. resolve s 0 ds = Some v \<longrightarrow> resolve s' 0 ds = Some v)
     \<and> vfs_create F (join_path (cs @ [c])) ty' s' = Returns (-1, s')"
proof -
  let ?s = "created u c ty s" and ?n = "fresh s + 1"
  have ul: "tnodes s u \<noteq> None" using resolve_live [OF ok root_live [OF ok] u(1)] .
  note okc = created_tree_ok [OF ok ul, of c ty] and f = created_fields [OF ok ul, of c ty]
  have "resolve ?s u [c] = Some ?n"
    using u(2) by (simp add: folder_created [OF ok ul ul] child_created_new [OF ok ul u(3)])
  then have r: "resolve ?s 0 (cs @ [c]) = Some ?n"
    by (simp only: resolve_append resolve_created [OF ok ul root_live [OF ok] u(1)] option.case)
  have "vfs_create F (join_path (cs @ [c])) ty s = Returns (0, ?s)"
    using lookup_missing(2) [OF ok good u(1-3), of "CREATE OR ERR_ON_EXIST" F ty] u(4)
    by (simp add: vfs_create_def del: join_path_simps)
  moreover have "vfs_path_to_node F (join_path (cs @ [c])) NO_CREATE ty' ?s = Returns (Some ?n, ?s)"
    using lookup_found [OF okc good _ r] by (simp del: join_path_simps)
  moreover have "vfs_create F (join_path (cs @ [c])) ty' ?s = Returns (-1, ?s)"
    using lookup_found [OF okc good _ r] by (simp add: vfs_create_def del: join_path_simps)
  moreover have "tnodes s ?n = None" using tnode_below(1) [OF ok, of ?n] by (cases "tnodes s ?n") auto
  moreover have "itype (inode_of ?s ?n) = ty" "isize (inode_of ?s ?n) = 0" "ichild (inode_of ?s ?n) = []"
    by (simp_all add: inode_of_def f)
  moreover have "resolve s 0 ds = Some v \<longrightarrow> resolve ?s 0 ds = Some v" for ds v
    using resolve_created [OF ok ul root_live [OF ok]] by blast
  ultimately show ?thesis using okc by blast
qed

text \<open>
  a component that does not exist is skipped: the lookup, and the creation, of a path with
  such a component before its last one is that of the path without it.
\<close>

theorem missing_component_skipped:
  assumes ok: "tree_ok s" and good: "\<forall>d \<in> set (pre @ c # cs). good_comp d"
    and u: "resolve s 0 pre = Some u" "folder s u" "child s u c = None" and cs: "cs \<noteq> []"
  shows "vfs_path_to_node F (join_path (pre @ c # cs)) mode ty s
       = vfs_path_to_node F (join_path (pre @ cs)) mode ty s"
proof -
  have ul: "tnodes s u \<noteq> None" using resolve_live [OF ok root_live [OF ok] u(1)] .
  have ne: "tl (join_path cs) \<noteq> []" using cs good by (cases cs) (auto simp: good_comp_def)
  have gp: "\<forall>d \<in> set pre. good_comp d" using good by simp
  obtain f tok past where 1: "walk s 0 True [] False (tl (join_path (pre @ c # cs)))
      = walk s u f tok past (c @ join_path cs)"
    using walk_prefix [OF ok root_live [OF ok] gp u(1), of "c # cs" True "[]" False] by auto
  obtain f' tok' past' where 2: "walk s 0 True [] False (tl (join_path (pre @ cs)))
      = walk s u f' tok' past' (tl (join_path cs))"
    using walk_prefix [OF ok root_live [OF ok] gp u(1) cs, of True "[]" False] by blast
  have "walk s u f tok past (c @ join_path cs) = walk s u False c False (tl (join_path cs))"
    using walk_step [OF ok ul, of c f tok past cs] good u(2,3) cs by simp
  also have "\<dots> = walk s u f' tok' past' (tl (join_path cs))" using ne by (rule walk_any_start)
  finally have "walk s 0 True [] False (tl (join_path (pre @ c # cs)))
      = walk s 0 True [] False (tl (join_path (pre @ cs)))"
    using 1 2 by simp
  then show ?thesis
    using path_of_comps [of "pre @ c # cs"] path_of_comps [of "pre @ cs"] cs
    unfolding vfs_path_to_node_def by (simp del: join_path_simps)
qed


section \<open>The tree after \<open>vfs_init\<close>\<close>

definition boot_vfs :: "'d \<Rightarrow> 'd vfs" where
  "boot_vfs d = \<lparr>tnodes = (\<lambda>_. None), inodes = (\<lambda>_. None), fresh = 1, fslist = [], openfiles = [], fsdev = d\<rparr>"

definition root_vfs :: "nat \<Rightarrow> 'd \<Rightarrow> 'd vfs" where
  "root_vfs k d =
     \<lparr>tnodes = [0 \<mapsto> \<lparr>tname = [], tinode = 1, tparent = None\<rparr>],
      inodes = [1 \<mapsto> \<lparr>itype = VFS_NODE_FOLDER, isize = 0, iperms = 0x1FF, iuid = 0, irefcount = 0,
                      itm = zero_tm, ifs = None, iident = None, imountpoint = None, ichild = []\<rparr>],
      fresh = 2, fslist = [k], openfiles = [], fsdev = d\<rparr>"

definition dev_name :: "u8 list" where "dev_name = [0x64, 0x65, 0x76]"
definition disk_name :: "u8 list" where "disk_name = [0x64, 0x69, 0x73, 0x6B]"

lemma root_vfs_ok: "tree_ok (root_vfs k d)" "folder (root_vfs k d) 0" "child (root_vfs k d) 0 c = None"
    "ifs (inode_of (root_vfs k d) 0) = None"
  by (auto simp: tree_ok_def root_vfs_def folder_def inode_of_def IS_TRAVERSABLE_def child_def)

lemma names_good [simp]: "good_comp dev_name" "good_comp disk_name" "dev_name \<noteq> disk_name"
    "take VFS_MAX_NAME_LEN dev_name = dev_name" "take VFS_MAX_NAME_LEN disk_name = disk_name"
  by (simp_all add: good_comp_def dev_name_def disk_name_def SLASH_def VFS_MAX_PATH_LEN_def VFS_MAX_NAME_LEN_def)

definition dev_vfs :: "nat \<Rightarrow> 'd \<Rightarrow> 'd vfs" where
  "dev_vfs k d = created 0 dev_name VFS_NODE_FOLDER (root_vfs k d)"

definition init_vfs :: "nat \<Rightarrow> 'd \<Rightarrow> 'd vfs" where
  "init_vfs k d = created 0 disk_name VFS_NODE_FOLDER (dev_vfs k d)"

lemma dev_vfs_eq:
  "dev_vfs k d =
     \<lparr>tnodes = [0 \<mapsto> \<lparr>tname = [], tinode = 1, tparent = None\<rparr>,
               3 \<mapsto> \<lparr>tname = dev_name, tinode = 2, tparent = Some 1\<rparr>],
      inodes = [1 \<mapsto> \<lparr>itype = VFS_NODE_FOLDER, isize = 0, iperms = 0x1FF, iuid = 0, irefcount = 0,
                      itm = zero_tm, ifs = None, iident = None, imountpoint = None, ichild = [3]\<rparr>,
                2 \<mapsto> \<lparr>itype = VFS_NODE_FOLDER, isize = 0, iperms = 0x1FF, iuid = 0, irefcount = 0,
                      itm = zero_tm, ifs = None, iident = None, imountpoint = None, ichild = []\<rparr>],
      fresh = 4, fslist = [k], openfiles = [], fsdev = d\<rparr>"
  by (auto simp: dev_vfs_def created_def inode_of_def root_vfs_def vfs_alloc_inode_def
      vfs_alloc_tnode_def put_inode_def fun_eq_iff)

lemma init_vfs_eq:
  "init_vfs k d =
     \<lparr>tnodes = [0 \<mapsto> \<lparr>tname = [], tinode = 1, tparent = None\<rparr>,
               3 \<mapsto> \<lparr>tname = dev_name, tinode = 2, tparent = Some 1\<rparr>,
               5 \<mapsto> \<lparr>tname = disk_name, tinode = 4, tparent = Some 1\<rparr>],
      inodes = [1 \<mapsto> \<lparr>itype = VFS_NODE_FOLDER, isize = 0, iperms = 0x1FF, iuid = 0, irefcount = 0,
                      itm = zero_tm, ifs = None, iident = None, imountpoint = None, ichild = [3, 5]\<rparr>,
                2 \<mapsto> \<lparr>itype = VFS_NODE_FOLDER, isize = 0, iperms = 0x1FF, iuid = 0, irefcount = 0,
                      itm = zero_tm, ifs = None, iident = None, imountpoint = None, ichild = []\<rparr>,
                4 \<mapsto> \<lparr>itype = VFS_NODE_FOLDER, isize = 0, iperms = 0x1FF, iuid = 0, irefcount = 0,
                      itm = zero_tm, ifs = None, iident = None, imountpoint = None, ichild = []\<rparr>],
      fresh = 6, fslist = [k], openfiles = [], fsdev = d\<rparr>"
  unfolding init_vfs_def dev_vfs_eq
  by (auto simp: created_def inode_of_def vfs_alloc_inode_def vfs_alloc_tnode_def
      put_inode_def fun_eq_iff)

lemma init_vfs_facts:
  "tree_ok (init_vfs k d)" "folder (init_vfs k d) 0" "folder (init_vfs k d) 3"
  "child (init_vfs k d) 0 dev_name = Some 3" "child (init_vfs k d) 3 c = None"
  "ifs (inode_of (init_vfs k d) 3) = None" "ifs (inode_of (init_vfs k d) 0) = None"
  "take VFS_MAX_NAME_LEN c \<noteq> dev_name \<Longrightarrow> take VFS_MAX_NAME_LEN c \<noteq> disk_name \<Longrightarrow> child (init_vfs k d) 0 c = None"
proof -
  have "tree_ok (dev_vfs k d)" "tnodes (dev_vfs k d) 0 \<noteq> None"
    unfolding dev_vfs_def by (intro created_tree_ok root_vfs_ok, simp add: root_vfs_def)
      (simp add: dev_vfs_def [symmetric] dev_vfs_eq)
  then show "tree_ok (init_vfs k d)" unfolding init_vfs_def by (rule created_tree_ok)
qed (auto simp: init_vfs_eq folder_def inode_of_def IS_TRAVERSABLE_def child_def)

lemma vfs_init_eq: "vfs_init F k (boot_vfs d) = Returns (init_vfs k d)"
proof -
  let ?r = "root_vfs k d" and ?s = "dev_vfs k d"
  have p: "dev_path = join_path ([] @ [dev_name])" "disk_path = join_path ([] @ [disk_name])"
    by (simp_all add: dev_path_def disk_path_def dev_name_def disk_name_def SLASH_def)
  have "vfs_path_to_node F dev_path CREATE VFS_NODE_FOLDER ?r = Returns (Some (fresh ?r + 1), ?s)"
    unfolding p dev_vfs_def by (rule lookup_missing(2)) (simp_all add: root_vfs_ok)
  moreover have "vfs_path_to_node F disk_path CREATE VFS_NODE_FOLDER ?s = Returns (Some (fresh ?s + 1), init_vfs k d)"
    unfolding p init_vfs_def
  proof (rule lookup_missing(2))
    show "tree_ok ?s"
      unfolding dev_vfs_def by (intro created_tree_ok root_vfs_ok) (simp add: root_vfs_def)
  qed (auto simp: dev_vfs_eq folder_def inode_of_def IS_TRAVERSABLE_def child_def)
  moreover have "vfs_register_fs k (snd (vfs_alloc_inode VFS_NODE_FOLDER 0x1FF 0 None None (boot_vfs d))
      \<lparr>tnodes := [0 \<mapsto> \<lparr>tname = [], tinode = 1, tparent = None\<rparr>]\<rparr>) = ?r"
    by (simp add: vfs_register_fs_def vfs_alloc_inode_def boot_vfs_def root_vfs_def)
  ultimately show ?thesis
    by (simp add: vfs_init_def vfs_alloc_inode_def boot_vfs_def)
qed

lemma create_then_lookup_witness:
  "\<forall>F. \<exists>s' n. vfs_create F (join_path ([dev_name] @ [disk_name])) VFS_NODE_FILE (init_vfs 7 ()) = Returns (0, s')
     \<and> vfs_path_to_node F (join_path ([dev_name] @ [disk_name])) NO_CREATE VFS_NODE_FILE s' = Returns (Some n, s')
     \<and> itype (inode_of s' n) = VFS_NODE_FILE"
  (is "\<forall>F. ?P F")
proof (intro allI)
  fix F
  show "?P F"
  using create_then_lookup [of "init_vfs 7 ()" "[dev_name]" disk_name 3 F VFS_NODE_FILE VFS_NODE_FILE]
    by (auto simp: init_vfs_facts)
qed

lemma missing_component_skipped_witness:
  "\<forall>F. vfs_path_to_node F (join_path ([] @ [0x78] # [dev_name])) NO_CREATE VFS_NODE_FILE (init_vfs 7 ())
     = Returns (Some 3, init_vfs 7 ())"
  (is "\<forall>F. ?P F")
proof (intro allI)
  fix F
  have "vfs_path_to_node F (join_path ([] @ [0x78] # [dev_name])) NO_CREATE VFS_NODE_FILE (init_vfs 7 ())
      = vfs_path_to_node F (join_path ([] @ [dev_name])) NO_CREATE VFS_NODE_FILE (init_vfs 7 ())"
    by (rule missing_component_skipped [where u = 0])
      (simp_all add: init_vfs_facts good_comp_def SLASH_def VFS_MAX_PATH_LEN_def VFS_MAX_NAME_LEN_def
        dev_name_def disk_name_def)
  also have "\<dots> = Returns (Some 3, init_vfs 7 ())"
    using lookup_found [of "init_vfs 7 ()" "[dev_name]" 3 F NO_CREATE VFS_NODE_FILE]
    by (simp add: init_vfs_facts)
  finally show "?P F" .
qed


end
