(* ===== verification/Vfs_Files.thy ===== *)
theory Vfs_Files
  imports Vfs
begin

text \<open>
  Open files: reference counts as an invariant of every VFS call, the contract the VFS asks of a
  file system (a locale, interpreted by FAT32), and what opening, closing and reading do, with
  the interleaving of two opens.
\<close>

section \<open>Open files and reference counts\<close>

definition open_count :: "'d vfs \<Rightarrow> nat \<Rightarrow> nat" where
  "open_count s i = length (filter (\<lambda>f. case f of Some fd \<Rightarrow> finode fd = i | None \<Rightarrow> False) (openfiles s))"

text \<open>
  The nodes form a tree: each has an inode of its own, and is a child at most once and of one node, which is
  older than itself.
\<close>

definition kids :: "'d vfs \<Rightarrow> nat \<Rightarrow> nat list" where
  "kids s t = ichild (inode_of s t)"

definition forest :: "'d vfs \<Rightarrow> bool" where
  "forest s \<longleftrightarrow> (\<forall>t n. tnodes s t = Some n \<longrightarrow>
     distinct (kids s t) \<and> (\<forall>c \<in> set (kids s t). t < c) \<and>
     (\<forall>t' n'. tnodes s t' = Some n' \<and> t \<noteq> t' \<longrightarrow> tinode n \<noteq> tinode n' \<and> set (kids s t) \<inter> set (kids s t') = {}))"

lemma forest_tnodes:
  "forest s \<Longrightarrow> tnodes s' = tnodes s \<Longrightarrow> (\<And>t. tnodes s t \<noteq> None \<Longrightarrow> kids s' t = kids s t) \<Longrightarrow> forest s'"
  by (fastforce simp: forest_def)

lemma put_inode_forest:
  assumes "forest s" "inodes s i = Some n" "ichild n' = ichild n"
  shows "forest (put_inode i n' s)"
  using assms(1) by (rule forest_tnodes) (use assms(2,3) in \<open>auto simp: put_inode_def kids_def inode_of_def\<close>)

lemma files_forest [simp]: "forest (s\<lparr>openfiles := fs\<rparr>) = forest s" "forest (s\<lparr>fsdev := d\<rparr>) = forest s"
  by (simp_all add: forest_def kids_def inode_of_def)

lemma created_forest:
  assumes ok: "tree_ok s" and f: "forest s" and u: "tnodes s u \<noteq> None"
  shows "forest (created u c ty s)"
proof -
  let ?s = "created u c ty s" and ?n = "Suc (fresh s)"
  note fields = created_fields [OF ok u, of c ty]
  have below: "t < fresh s" "tinode n < fresh s" if "tnodes s t = Some n" for t n using tnode_below [OF ok that] .
  have new: "kids ?s ?n = []" by (simp add: kids_def inode_of_def fields)
  have own: "tinode n \<noteq> tinode n'" if "tnodes s t = Some n" "tnodes s t' = Some n'" "t \<noteq> t'" for t t' n n'
    using f that by (auto simp: forest_def)
  have old: "kids ?s t = (if t = u then kids s u @ [?n] else kids s t)" if t: "tnodes s t = Some n" for t n
    using created_old(2) [OF ok u, of t c ty] own [OF t] t u by (auto simp: kids_def)
  have kid: "k < fresh s" if "tnodes s t = Some n" "k \<in> set (kids s t)" for t n k
  proof -
    have "tnodes s k \<noteq> None" using children_live [OF ok, of t k] that by (simp add: kids_def)
    then show ?thesis using below(1) by blast
  qed
  have live: "tnodes ?s t = Some n \<longleftrightarrow> (if t = ?n then n = \<lparr>tname = take VFS_MAX_NAME_LEN c, tinode = fresh s,
      tparent = Some (tinode (the (tnodes s u)))\<rparr> else tnodes s t = Some n)" for t n by (auto simp: fields(1))
  show ?thesis
    unfolding forest_def
  proof (intro allI impI conjI ballI)
    fix t n assume t: "tnodes ?s t = Some n"
    have o: "t = ?n \<or> tnodes s t = Some n" using t by (simp add: live split: if_splits)
    then show "distinct (kids ?s t)" using f kid [of t n "?n"] by (auto simp: new old forest_def)
    show "t < k" if k: "k \<in> set (kids ?s t)" for k
      using o k f below(1) [of t n] by (auto simp: new old forest_def split: if_splits)
    fix t' n' assume t': "tnodes ?s t' = Some n' \<and> t \<noteq> t'"
    have o': "t' = ?n \<or> tnodes s t' = Some n'" using t' by (simp add: live split: if_splits)
    show "tinode n \<noteq> tinode n'" using t t' own [of t n t' n'] below(2) [of t n] below(2) [of t' n'] by (auto simp: live split: if_splits)
    show "set (kids ?s t) \<inter> set (kids ?s t') = {}"
    proof (cases "t = ?n \<or> t' = ?n")
      case False
      then have "tnodes s t = Some n" "tnodes s t' = Some n'" using o o' by auto
      moreover from this have "set (kids s t) \<inter> set (kids s t') = {}" using f t' by (auto simp: forest_def)
      ultimately show ?thesis using kid [of t n ?n] kid [of t' n' ?n] t' by (auto simp: old)
    qed (auto simp: new)
  qed
qed

lemma init_vfs_forest: "forest (init_vfs k d)"
  by (auto simp: forest_def kids_def inode_of_def init_vfs_eq)

text \<open>
  The tree is well formed and a tree, open files refer to live nodes, and the reference count of every inode
  is the number of open files on it (modulo the width of the count).
\<close>

definition vfs_ok :: "'d vfs \<Rightarrow> bool" where
  "vfs_ok s \<longleftrightarrow> tree_ok s \<and> forest s \<and>
     (\<forall>fd. Some fd \<in> set (openfiles s) \<longrightarrow> tnodes s (ftnode fd) \<noteq> None \<and> inodes s (finode fd) \<noteq> None) \<and>
     (\<forall>i n. inodes s i = Some n \<longrightarrow> irefcount n = of_nat (open_count s i))"

definition keeps :: "'d vfs \<Rightarrow> 'd vfs \<Rightarrow> bool" where
  "keeps s s' \<longleftrightarrow> vfs_ok s' \<and> openfiles s' = openfiles s \<and> (\<forall>t. tnodes s t \<noteq> None \<longrightarrow> tnodes s' t \<noteq> None)
     \<and> (\<forall>i. inodes s i \<noteq> None \<longrightarrow> inodes s' i \<noteq> None)"

lemma keeps_refl: "vfs_ok s \<Longrightarrow> keeps s s"
  by (simp add: keeps_def)

lemma keeps_trans: "keeps s s' \<Longrightarrow> keeps s' s'' \<Longrightarrow> keeps s s''"
  by (simp add: keeps_def)

lemma keeps_ok: "keeps s s' \<Longrightarrow> vfs_ok s'"
  by (simp add: keeps_def)

text \<open>Changing an inode in place: type, size, permissions, time, file system, private data.\<close>

lemma put_inode_keeps:
  assumes "vfs_ok s" "inodes s i = Some n" "ichild n' = ichild n" "irefcount n' = irefcount n"
  shows "keeps s (put_inode i n' s)"
proof -
  have "tree_ok (put_inode i n' s)"
    using assms unfolding vfs_ok_def tree_ok_def put_inode_def by (auto split: if_splits)
  moreover have "open_count (put_inode i n' s) j = open_count s j" for j
    by (simp add: open_count_def put_inode_def)
  ultimately show ?thesis
    using assms put_inode_forest [OF _ assms(2,3)] unfolding keeps_def vfs_ok_def by (auto simp: put_inode_def)
qed

lemma fsdev_keeps: "vfs_ok s \<Longrightarrow> keeps s (s\<lparr>fsdev := d\<rparr>)"
  by (simp add: keeps_def vfs_ok_def tree_ok_def open_count_def)

lemma created_keeps:
  assumes ok: "vfs_ok s" and u: "tnodes s u \<noteq> None"
  shows "keeps s (created u c ty s)"
proof -
  have t: "tree_ok s" "forest s" using ok by (simp_all add: vfs_ok_def)
  note fo = created_forest [OF t u, of c ty] and t = t(1)
  note f = created_fields [OF t u, of c ty]
  have cnt: "open_count (created u c ty s) i = open_count s i" for i
    by (simp add: open_count_def f)
  have fd: "tnodes s (ftnode fd) \<noteq> None" "inodes s (finode fd) \<noteq> None" if "Some fd \<in> set (openfiles s)" for fd
    using ok that unfolding vfs_ok_def by blast+
  have lt: "i < fresh s" if "inodes s i \<noteq> None" for i
    using t that unfolding tree_ok_def by blast
  have "open_count s (fresh s) = 0"
    using fd(2) lt by (force simp: open_count_def filter_empty_conv split: option.splits)
  moreover have "irefcount (inode_of s u) = of_nat (open_count s (tinode (the (tnodes s u))))"
    using ok tnode_live(3) [OF t u] by (simp add: vfs_ok_def)
  moreover have "tnodes s (fresh s + 1) = None"
    using tnode_below(1) [OF t, of "fresh s + 1"] by (cases "tnodes s (fresh s + 1)") auto
  ultimately show ?thesis
    using ok created_tree_ok [OF t u, of c ty] fo fd tnode_live(3) [OF t u]
    unfolding keeps_def vfs_ok_def cnt unfolding f by auto
qed

lemma walk_live:
  assumes "tree_ok s" "tnodes s t \<noteq> None" "walk s t f tok past rest = Returns (u, f', tok', past')"
  shows "tnodes s u \<noteq> None"
  using assms
proof (induction "length rest" arbitrary: t f tok past rest rule: less_induct)
  case less
  note live = tnode_live [OF less.prems(1,2)]
  let ?c = "takeWhile (\<lambda>c. c \<noteq> SLASH) rest" and ?m = "dropWhile (\<lambda>c. c \<noteq> SLASH) rest"
  have fc: "find_child s ?c (ichild (inode_of s t)) = Returns (child s t ?c)"
    unfolding child_def using children_live [OF less.prems(1,2)] by (intro find_child_eq) blast
  show ?case
  proof (cases "rest = []")
    case True
    with less.prems(2,3) show ?thesis by (simp add: walk_end)
  next
    case False
    have len: "length (tl ?m) < length rest" using length_after_token [OF False] .
    have w: "walk s t f tok past rest = (if VFS_MAX_PATH_LEN \<le> length ?c then Faults OutOfBounds
        else if \<not> IS_TRAVERSABLE (inode_of s t) then Returns (t, False, ?c, ?m = [])
        else case child s t ?c of Some k \<Rightarrow> walk s k True ?c (?m = []) (tl ?m)
                                | None \<Rightarrow> walk s t False ?c (?m = []) (tl ?m))"
      using False by (subst walk.simps) (simp add: live fc Let_def cong: option.case_cong)
    consider "u = t" | g v where "tnodes s v \<noteq> None"
        "walk s v g ?c (?m = []) (tl ?m) = Returns (u, f', tok', past')"
      using less.prems(2,3) child_live [OF less.prems(1,2), of ?c] unfolding w
      by (cases "child s t ?c") (simp_all split: if_splits del: dropWhile_eq_Nil_conv not_None_eq)
    then show ?thesis using less.hyps [OF len less.prems(1)] less.prems(2) by cases auto
  qed
qed


text \<open>The calls of the interface; \<open>vfs_mount\<close>, which frees the inode it mounts over, is apart.\<close>

datatype vfs_call =
    Open "u8 list" vfs_openmode | Create "u8 list" vfs_node_type | Close int | Seek int u64
  | Read int u64 | Write int u64 "u8 list" | Chmod int int | Refresh int | Getdent int

fun vfs_exec :: "'d fs_table \<Rightarrow> vfs_call \<Rightarrow> 'd vfs \<Rightarrow> 'd vfs outcome" where
  "vfs_exec F (Open path mode) s = omap snd (vfs_open F path mode s)"
| "vfs_exec F (Create path ty) s = omap snd (vfs_create F path ty s)"
| "vfs_exec F (Close h) s = omap snd (vfs_close h s)"
| "vfs_exec F (Seek h pos) s = omap snd (vfs_seek h pos s)"
| "vfs_exec F (Read h len) s = omap (\<lambda>(_, _, s). s) (vfs_read F h len s)"
| "vfs_exec F (Write h len buff) s = omap snd (vfs_write F h len buff s)"
| "vfs_exec F (Chmod h perms) s = omap snd (vfs_chmod F h perms s)"
| "vfs_exec F (Refresh h) s = omap snd (vfs_refresh F h s)"
| "vfs_exec F (Getdent h) s = omap (\<lambda>(_, _, s). s) (vfs_getdent h s)"

fun vfs_run :: "'d fs_table \<Rightarrow> vfs_call list \<Rightarrow> 'd vfs \<Rightarrow> 'd vfs outcome" where
  "vfs_run F [] s = Returns s"
| "vfs_run F (c # cs) s = obind (vfs_exec F c s) (vfs_run F cs)"

lemma inode_at_Returns: "inode_at s i = Returns n \<longleftrightarrow> inodes s i = Some n"
  by (simp add: inode_at_def split: option.splits)

lemma tnode_at_Returns: "tnode_at s t = Returns n \<longleftrightarrow> tnodes s t = Some n"
  by (simp add: tnode_at_def split: option.splits)

lemma fs_at_Returns: "fs_at F p = Returns f \<longleftrightarrow> (\<exists>k. p = Some k \<and> f = F k)"
  by (auto simp: fs_at_def split: option.splits)

lemmas returns_simps = obind_eq_Returns omap_eq_Returns inode_at_Returns tnode_at_Returns fs_at_Returns

lemma live_inode: "tree_ok s \<Longrightarrow> tnodes s t = Some n \<Longrightarrow> inodes s (tinode n) \<noteq> None"
  unfolding tree_ok_def by blast

lemma count_upd:
  assumes "h < length xs"
  shows "length (filter P (xs[h := v])) + (if P (xs ! h) then 1 else 0)
       = length (filter P xs) + (if P v then 1 else 0)"
proof -
  have "length (filter P xs) = length (filter P (take h xs @ xs ! h # drop (Suc h) xs))"
    by (simp only: id_take_nth_drop [OF assms, symmetric])
  then have 1: "length (filter P xs) = length (filter P (take h xs)) + (if P (xs ! h) then 1 else 0)
      + length (filter P (drop (Suc h) xs))"
    by simp
  have "xs[h := v] = take h xs @ v # drop (Suc h) xs" using assms by (simp add: upd_conv_take_nth_drop)
  then have "length (filter P (xs[h := v])) = length (filter P (take h xs)) + (if P v then 1 else 0)
      + length (filter P (drop (Suc h) xs))"
    by simp
  with 1 show ?thesis by simp
qed

text \<open>Moving the position of an open file.\<close>

lemma seek_ok:
  assumes ok: "vfs_ok s" and h: "h < length (openfiles s)" "openfiles s ! h = Some fd"
  shows "vfs_ok (s\<lparr>openfiles := (openfiles s)[h := Some (fd\<lparr>fseek := p\<rparr>)]\<rparr>)"
proof -
  let ?s = "s\<lparr>openfiles := (openfiles s)[h := Some (fd\<lparr>fseek := p\<rparr>)]\<rparr>"
  have "open_count ?s i = open_count s i" for i
    using count_upd [OF h(1), of "\<lambda>f. case f of Some fd \<Rightarrow> finode fd = i | None \<Rightarrow> False" "Some (fd\<lparr>fseek := p\<rparr>)"] h(2)
    by (auto simp: open_count_def split: if_splits)
  moreover have "Some fd \<in> set (openfiles s)" using h by (metis nth_mem)
  ultimately show ?thesis
    using ok set_update_subset_insert [of "openfiles s" h "Some (fd\<lparr>fseek := p\<rparr>)"]
    unfolding vfs_ok_def by (auto simp: tree_ok_def)
qed

lemma close_ok:
  assumes ok: "vfs_ok s" and h: "h < length (openfiles s)" "openfiles s ! h = Some fd"
    and i: "inodes s (finode fd) = Some n"
  shows "vfs_ok ((put_inode (finode fd) (n\<lparr>irefcount := irefcount n - 1\<rparr>) s)\<lparr>openfiles := (openfiles s)[h := None]\<rparr>)"
proof -
  let ?s = "(put_inode (finode fd) (n\<lparr>irefcount := irefcount n - 1\<rparr>) s)\<lparr>openfiles := (openfiles s)[h := None]\<rparr>"
  have cnt: "open_count ?s i + (if finode fd = i then 1 else 0) = open_count s i" for i
    using count_upd [OF h(1), of "\<lambda>f. case f of Some fd \<Rightarrow> finode fd = i | None \<Rightarrow> False" None] h(2)
    by (simp add: open_count_def)
  have ref: "irefcount m = of_nat (open_count s j)" if "inodes s j = Some m" for j m
    using ok that by (simp add: vfs_ok_def)
  define m where "m = open_count ?s (finode fd)"
  have "open_count s (finode fd) = Suc m" using cnt [of "finode fd"] by (simp add: m_def)
  then have "irefcount n - 1 = of_nat m" using ref [OF i] by simp
  then have "irefcount n - 1 = of_nat (open_count ?s (finode fd))" by (simp only: m_def)
  moreover have "open_count ?s j = open_count s j" if "j \<noteq> finode fd" for j
    using cnt [of j] that by simp
  moreover have "tree_ok ?s"
    using ok i unfolding vfs_ok_def tree_ok_def put_inode_def by (auto split: if_splits)
  ultimately show ?thesis
    using ok ref set_update_subset_insert [of "openfiles s" h None] put_inode_forest [OF _ i]
    unfolding vfs_ok_def by (auto simp: put_inode_def)
qed

lemma add_descriptor_ok:
  assumes ok: "vfs_ok s" and r: "add_descriptor path mode req s = Returns s'"
  shows "vfs_ok s'"
proof -
  from r obtain t n where t: "tnodes s req = Some t" "inodes s (tinode t) = Some n"
    and s': "s' = (put_inode (tinode t) (n\<lparr>irefcount := irefcount n + 1\<rparr>) s)\<lparr>openfiles := openfiles s @
            [Some \<lparr>fpath = path, ftnode = req, finode = tinode t, fmode = mode, fseek = 0\<rparr>]\<rparr>"
    by (auto simp: add_descriptor_def returns_simps put_inode_def Let_def split: if_splits)
  have cnt: "open_count s' i = open_count s i + (if tinode t = i then 1 else 0)" for i
    by (simp add: open_count_def s')
  have "tree_ok s'"
    using ok t unfolding vfs_ok_def tree_ok_def s' put_inode_def by (auto split: if_splits)
  then show ?thesis
    using ok t put_inode_forest [OF _ t(2)] unfolding vfs_ok_def cnt by (auto simp: s' put_inode_def)
qed


section \<open>What the kernel asks of a file system\<close>

text \<open>
  Every operation of a file system leaves the tree, the open files and the reference counts in
  order, and \<open>open\<close> answers a live node. The VFS operations keep the invariant under this contract.
\<close>

locale vfs_backend =
  fixes F :: "'d fs_table"
  assumes mknode_ok: "vfs_ok s \<Longrightarrow> tnodes s t \<noteq> None \<Longrightarrow> fs_mknode (F k) t s = Returns (r, s') \<Longrightarrow> keeps s s'"
    and open_ok: "vfs_ok s \<Longrightarrow> fs_open (F k) i path s = Returns (r', s')
      \<Longrightarrow> keeps s s' \<and> (\<forall>t. r' = Some t \<longrightarrow> tnodes s' t \<noteq> None)"
    and read_ok: "vfs_ok s \<Longrightarrow> fs_read (F k) i pos len s = Returns (r, buff, s') \<Longrightarrow> keeps s s'"
    and write_ok: "vfs_ok s \<Longrightarrow> fs_write (F k) i pos len buff s = Returns (r, s') \<Longrightarrow> keeps s s'"
    and sync_ok: "vfs_ok s \<Longrightarrow> fs_sync (F k) i s = Returns (r, s') \<Longrightarrow> keeps s s'"
    and refresh_ok: "vfs_ok s \<Longrightarrow> fs_refresh (F k) i s = Returns (r, s') \<Longrightarrow> keeps s s'"
    and getdent_ok: "vfs_ok s \<Longrightarrow> fs_getdent (F k) i pos s = Returns (r, de, s') \<Longrightarrow> keeps s s'"
begin

lemma path_to_node_keeps:
  assumes ok: "vfs_ok s" and r: "vfs_path_to_node F path mode ty s = Returns (res, s')"
  shows "keeps s s' \<and> (\<forall>t. res = Some t \<longrightarrow> tnodes s' t \<noteq> None)"
proof (cases "path = [] \<or> hd path \<noteq> SLASH")
  case True
  with r ok show ?thesis by (auto simp: vfs_path_to_node_def keeps_refl)
next
  case False
  have t: "tree_ok s" using ok by (simp add: vfs_ok_def)
  from r False obtain u f tok past where w: "walk s 0 True [] False (tl path) = Returns (u, f, tok, past)"
    by (auto simp: vfs_path_to_node_def returns_simps)
  have u: "tnodes s u \<noteq> None" by (rule walk_live [OF t root_live [OF t] w])
  note live = tnode_live [OF t u]
  show ?thesis
  proof (cases "\<not> f \<and> IS_TRAVERSABLE (inode_of s u) \<and> mode AND CREATE \<noteq> 0 \<and> past")
    case False
    with r \<open>\<not> (path = [] \<or> hd path \<noteq> SLASH)\<close> w have "s' = s \<and> (res = None \<or> res = Some u)"
      by (auto simp: vfs_path_to_node_def live split: if_splits)
    with u ok show ?thesis by (auto simp: keeps_refl)
  next
    case True
    let ?s = "created u tok ty s"
    have n: "tnodes ?s (fresh s + 1) \<noteq> None" by (simp add: created_fields(1) [OF t u])
    have k: "keeps s ?s" by (rule created_keeps [OF ok u])
    have eq: "vfs_path_to_node F path mode ty s =
        (case ifs (inode_of s u) of
           None \<Rightarrow> Returns (Some (fresh s + 1), ?s)
         | Some k \<Rightarrow> omap (\<lambda>(_, s'). (Some (fresh s + 1), s')) (fs_mknode (F k) (fresh s + 1) ?s))"
      using True \<open>\<not> (path = [] \<or> hd path \<noteq> SLASH)\<close> w
      by (cases "ifs (inode_of s u)")
        (simp_all add: vfs_path_to_node_def live created_def vfs_alloc_inode_def vfs_alloc_tnode_def fs_at_def Let_def)
    show ?thesis
    proof (cases "ifs (inode_of s u)")
      case None
      with eq r k n show ?thesis by auto
    next
      case (Some j)
      with eq r have "omap (\<lambda>(_, s'). (Some (fresh s + 1), s')) (fs_mknode (F j) (fresh s + 1) ?s) = Returns (res, s')"
        by simp
      then obtain r' where "fs_mknode (F j) (fresh s + 1) ?s = Returns (r', s')" "res = Some (fresh s + 1)"
        unfolding omap_eq_Returns by auto
      note m = mknode_ok [OF keeps_ok [OF k] n this(1)] and res = this(2)
      show ?thesis using keeps_trans [OF k m] m n res by (auto simp: keeps_def)
    qed
  qed
qed

lemma create_keeps:
  assumes "vfs_ok s" "vfs_create F path ty s = Returns (r, s')"
  shows "vfs_ok s'"
proof -
  from assms(2) obtain n where "vfs_path_to_node F path (CREATE OR ERR_ON_EXIST) ty s = Returns (n, s')"
    by (auto simp: vfs_create_def omap_eq_Returns)
  from path_to_node_keeps [OF assms(1) this] keeps_ok show ?thesis by blast
qed

lemma open_backing_keeps:
  assumes ok: "vfs_ok s" and r: "open_backing F path s = Returns (req, s')"
  shows "keeps s s' \<and> (\<forall>t. req = Some t \<longrightarrow> tnodes s' t \<noteq> None)"
  using r open_ok [OF ok] keeps_refl [OF ok]
  by (auto simp: open_backing_def returns_simps split: if_splits option.splits)

lemma open_keeps:
  assumes ok: "vfs_ok s" and r: "vfs_open F path mode s = Returns (h, s')"
  shows "vfs_ok s'"
proof -
  from r obtain req s1 req' s2 where
    1: "vfs_path_to_node F path NO_CREATE VFS_NODE_FILE s = Returns (req, s1)" and
    2: "(if req = None then open_backing F path s1 else Returns (req, s1)) = Returns (req', s2)" and
    3: "req' = None \<and> s' = s2 \<or> (\<exists>t. req' = Some t \<and> add_descriptor path mode t s2 = Returns s')"
    by (auto simp: vfs_open_def vfs_open_locked_def returns_simps split: option.splits)
  have "keeps s s1" using path_to_node_keeps [OF ok 1] by blast
  then have "vfs_ok s1" by (rule keeps_ok)
  then have "vfs_ok s2"
  proof (cases "req = None")
    case True
    with 2 have "open_backing F path s1 = Returns (req', s2)" by simp
    from open_backing_keeps [OF \<open>vfs_ok s1\<close> this] keeps_ok show ?thesis by blast
  qed (use 2 \<open>vfs_ok s1\<close> in auto)
  then show ?thesis using 3 add_descriptor_ok by blast
qed

lemma handle_fd:
  "vfs_handle_to_fd h s = Some fd \<Longrightarrow> unat (of_int h :: u64) < length (openfiles s)
     \<and> openfiles s ! unat (of_int h :: u64) = Some fd"
  by (auto simp: vfs_handle_to_fd_def split: if_splits)

lemma close_keeps: "vfs_ok s \<Longrightarrow> vfs_close h s = Returns (r, s') \<Longrightarrow> vfs_ok s'"
  by (auto simp: vfs_close_def returns_simps Let_def put_inode_def split: option.splits
      dest!: handle_fd dest: close_ok [unfolded put_inode_def])

lemma seek_keeps: "vfs_ok s \<Longrightarrow> vfs_seek h pos s = Returns (r, s') \<Longrightarrow> vfs_ok s'"
  by (auto simp: vfs_seek_def returns_simps split: option.splits if_splits dest!: handle_fd intro: seek_ok)

lemma getdent_keeps: "vfs_ok s \<Longrightarrow> vfs_getdent h s = Returns (r, de, s') \<Longrightarrow> vfs_ok s'"
  by (auto simp: vfs_getdent_def returns_simps split: option.splits if_splits dest!: handle_fd intro: seek_ok)

lemma read_keeps:
  assumes "vfs_ok s" "vfs_read F h len s = Returns (r, buff, s')"
  shows "vfs_ok s'"
  using assms by (auto simp: vfs_read_def returns_simps Let_def split: option.splits if_splits
      dest: read_ok keeps_ok)

lemma write_keeps:
  assumes ok: "vfs_ok s" and r: "vfs_write F h len buff s = Returns (r, s')"
  shows "vfs_ok s'"
proof (cases "\<exists>fd. vfs_handle_to_fd h s = Some fd \<and> fmode fd \<noteq> VFS_MODE_READ")
  case False
  with r ok show ?thesis by (auto simp: vfs_write_def split: option.splits if_splits)
next
  case True
  with r obtain fd i s1 k st where
    1: "inodes s (finode fd) = Some i" and 2: "grow_file F fd len i s = Returns s1" and
    3: "fs_write (F k) (finode fd) (fseek fd) len buff s1 = Returns (st, s')"
    by (auto simp: vfs_write_def returns_simps)
  have "vfs_ok s1"
    using 2 ok keeps_ok [OF put_inode_keeps [OF ok 1]]
    by (auto simp: grow_file_def returns_simps split: if_splits dest!: sync_ok [rotated] dest: keeps_ok)
  with 3 show ?thesis using write_ok keeps_ok by blast
qed

lemma chmod_keeps:
  assumes ok: "vfs_ok s" and r: "vfs_chmod F h p s = Returns (r, s')"
  shows "vfs_ok s'"
  using r ok keeps_ok [OF put_inode_keeps [OF ok]]
  by (auto simp: vfs_chmod_def returns_simps Let_def split: option.splits if_splits
      dest!: sync_ok [rotated] dest: keeps_ok)

lemma refresh_entry_keeps:
  assumes ok: "vfs_ok s" and r: "refresh_entry F fd de s = Returns s'"
  shows "vfs_ok s'"
proof -
  from r obtain tn s2 t i where
    p: "vfs_path_to_node F (fpath fd @ [SLASH] @ de_name de) CREATE (de_type de) s = Returns (Some tn, s2)"
    and t: "tnodes s2 tn = Some t" "inodes s2 (tinode t) = Some i"
    and s': "s' = put_inode (tinode t) (i\<lparr>itm := de_tm de\<rparr>) s2"
    by (auto simp: refresh_entry_def Let_def returns_simps split: if_splits option.splits)
  have "vfs_ok s2" using path_to_node_keeps [OF ok p] keeps_ok by blast
  from keeps_ok [OF put_inode_keeps [OF this t(2)]] show ?thesis by (simp add: s')
qed

lemma refresh_step_keeps:
  assumes ok: "vfs_ok s" and r: "refresh_step F fd (k, s) = Returns c"
  shows "case c of Inl (k', s') \<Rightarrow> vfs_ok s' | Inr s' \<Rightarrow> vfs_ok s'"
  using r by (auto simp: refresh_step_def returns_simps split: if_splits
      dest!: getdent_ok [OF ok] keeps_ok dest: refresh_entry_keeps)

lemma refresh_keeps:
  assumes ok: "vfs_ok s" and r: "vfs_refresh F h s = Returns (res, s')"
  shows "vfs_ok s'"
proof (cases "vfs_handle_to_fd h s")
  case None
  with r ok show ?thesis by (simp add: vfs_refresh_def)
next
  case (Some fd)
  with r obtain i k st s1 where f: "fs_refresh (F k) i s = Returns (st, s1)"
    and l: "loop_c (refresh_step F fd) (0, s1) = Returns s'"
    by (auto simp: vfs_refresh_def returns_simps)
  have "vfs_ok s1" using refresh_ok [OF ok f] by (rule keeps_ok)
  show ?thesis
  proof (rule loop_c_rule [OF l, where I = "\<lambda>(k, s). vfs_ok s"])
    show "case (0, s1) of (k, s) \<Rightarrow> vfs_ok s" using \<open>vfs_ok s1\<close> by simp
  next
    fix st st' assume "case st of (k, s) \<Rightarrow> vfs_ok s" "refresh_step F fd st = Returns (Inl st')"
    then show "case st' of (k, s) \<Rightarrow> vfs_ok s" using refresh_step_keeps by (cases st; cases st') fastforce
  next
    fix st r assume "case st of (k, s) \<Rightarrow> vfs_ok s" "refresh_step F fd st = Returns (Inr r)"
    then show "vfs_ok r" using refresh_step_keeps by (cases st) fastforce
  qed
qed

lemma exec_keeps: "vfs_ok s \<Longrightarrow> vfs_exec F c s = Returns s' \<Longrightarrow> vfs_ok s'"
  by (cases c) (auto simp: omap_eq_Returns dest: open_keeps create_keeps close_keeps seek_keeps
      read_keeps write_keeps chmod_keeps refresh_keeps getdent_keeps)

lemma run_keeps: "vfs_ok s \<Longrightarrow> vfs_run F cs s = Returns s' \<Longrightarrow> vfs_ok s'"
  by (induction cs arbitrary: s) (auto simp: obind_eq_Returns dest: exec_keeps)

end


section \<open>Opening, closing, reading\<close>

lemma add_descriptor_eq:
  assumes "tree_ok s" "tnodes s u \<noteq> None" "length path < VFS_MAX_PATH_LEN"
  shows "add_descriptor path m u s = Returns ((put_inode (tinode (the (tnodes s u)))
      ((inode_of s u)\<lparr>irefcount := irefcount (inode_of s u) + 1\<rparr>) s)\<lparr>openfiles := openfiles s @
            [Some \<lparr>fpath = path, ftnode = u, finode = tinode (the (tnodes s u)), fmode = m, fseek = 0\<rparr>]\<rparr>)"
  using assms(3) by (simp add: add_descriptor_def tnode_live [OF assms(1,2)] put_inode_def)

lemma open_found:
  assumes ok: "tree_ok s" and p: "\<forall>c \<in> set cs. good_comp c" "cs \<noteq> []" "resolve s 0 cs = Some u"
    and len: "length (join_path cs) < VFS_MAX_PATH_LEN"
  shows "vfs_open_locked F (join_path cs) m s = omap (\<lambda>s. (True, s)) (add_descriptor (join_path cs) m u s)"
  using lookup_found [OF ok p, of F NO_CREATE VFS_NODE_FILE] by (simp add: vfs_open_locked_def)

lemma of_handle: "n < 2 ^ 63 \<Longrightarrow> unat (of_int (int n) :: u64) = n"
  using unat_add_of_nat [of 0 n] by simp

lemma open_handle_eq:
  assumes "length (openfiles s) = Suc n" "n < 2 ^ 31"
  shows "open_handle s = int n"
proof -
  have "(of_nat (length (openfiles s)) - 1 :: u64) = of_nat n" by (simp add: assms(1))
  moreover have "sint (ucast (of_nat n :: u64) :: u32) = int n"
    using assms(2) by (simp add: unsigned_of_nat take_bit_nat_eq_self signed_of_nat
        signed_take_bit_int_eq_self)
  ultimately show ?thesis by (simp add: open_handle_def)
qed

text \<open>
  C26: opening an existing path answers the next handle, whose descriptor is fresh and at position
  0, and changes no other handle; closing that handle frees it and it alone, and restores the
  tree, reference counts included.
\<close>

theorem open_close:
  assumes ok: "tree_ok s" and p: "\<forall>c \<in> set cs. good_comp c" "cs \<noteq> []" "resolve s 0 cs = Some u"
    and len: "length (join_path cs) < VFS_MAX_PATH_LEN" and n: "n = length (openfiles s)" "n < 2 ^ 31"
  shows "\<exists>s1 s2. vfs_open F (join_path cs) m s = Returns (int n, s1)
     \<and> vfs_handle_to_fd (int n) s1 = Some \<lparr>fpath = join_path cs, ftnode = u,
          finode = tinode (the (tnodes s u)), fmode = m, fseek = 0\<rparr>
     \<and> vfs_handle_to_fd (int n) s = None
     \<and> (\<forall>h. unat (of_int h :: u64) \<noteq> n \<longrightarrow> vfs_handle_to_fd h s1 = vfs_handle_to_fd h s
                                         \<and> vfs_handle_to_fd h s2 = vfs_handle_to_fd h s)
     \<and> vfs_close (int n) s1 = Returns (0, s2) \<and> vfs_handle_to_fd (int n) s2 = None
     \<and> inodes s2 = inodes s \<and> tnodes s2 = tnodes s"
proof -
  have u: "tnodes s u \<noteq> None" using resolve_live [OF ok root_live [OF ok] p(3)] .
  note live = tnode_live [OF ok u]
  let ?i = "tinode (the (tnodes s u))"
  let ?fd = "\<lparr>fpath = join_path cs, ftnode = u, finode = ?i, fmode = m, fseek = 0\<rparr>"
  define s1 where "s1 = (put_inode ?i ((inode_of s u)\<lparr>irefcount := irefcount (inode_of s u) + 1\<rparr>) s)
      \<lparr>openfiles := openfiles s @ [Some ?fd]\<rparr>"
  define s2 where "s2 = s1\<lparr>inodes := inodes s, openfiles := openfiles s @ [None]\<rparr>"
  have h: "unat (of_int (int n) :: u64) = n" using n(2) by (intro of_handle) simp
  have 1: "vfs_open F (join_path cs) m s = Returns (int n, s1)"
    using open_found [OF ok p len, of F m] add_descriptor_eq [OF ok u len, of m] open_handle_eq [of s1 n] n
    by (simp add: vfs_open_def s1_def)
  have 2: "vfs_handle_to_fd (int n) s1 = Some ?fd"
    unfolding vfs_handle_to_fd_def h by (simp add: s1_def n nth_append)
  have "(inodes s)(?i \<mapsto> inode_of s u) = inodes s" using live(3) by (simp add: fun_upd_idem)
  then have 3: "vfs_close (int n) s1 = Returns (0, s2)"
    unfolding vfs_close_def 2 option.case h
    by (simp add: s1_def s2_def inode_at_def put_inode_def n list_update_append)
  have 4: "vfs_handle_to_fd (int n) s = None" "vfs_handle_to_fd (int n) s2 = None"
    unfolding vfs_handle_to_fd_def h by (simp_all add: s2_def n nth_append)
  have 5: "vfs_handle_to_fd h s1 = vfs_handle_to_fd h s" "vfs_handle_to_fd h s2 = vfs_handle_to_fd h s"
    if "unat (of_int h :: u64) \<noteq> n" for h
    using that n(1) unfolding vfs_handle_to_fd_def
    by (auto simp: s1_def s2_def nth_append put_inode_def)
  have "inodes s2 = inodes s" "tnodes s2 = tnodes s" by (simp_all add: s2_def s1_def put_inode_def)
  with 1 2 3 4 5 show ?thesis by blast
qed

lemma open_close_witness:
  "\<forall>F. \<exists>s1. vfs_open F (join_path [dev_name]) VFS_MODE_READ (init_vfs 7 ()) = Returns (0, s1)
     \<and> (\<exists>s2. vfs_close 0 s1 = Returns (0, s2) \<and> inodes s2 = inodes (init_vfs 7 ()))"
  (is "\<forall>F. ?P F")
proof (intro allI)
  fix F
  have "resolve (init_vfs 7 ()) 0 [dev_name] = Some 3" by (simp add: init_vfs_facts)
  moreover have "length (join_path [dev_name]) < VFS_MAX_PATH_LEN"
    by (simp add: dev_name_def VFS_MAX_PATH_LEN_def)
  moreover have "0 = length (openfiles (init_vfs 7 ()))" by (simp add: init_vfs_eq)
  ultimately show "?P F"
    using open_close [of "init_vfs 7 ()" "[dev_name]" 3 0 F VFS_MODE_READ] by (auto simp: init_vfs_facts)
qed



lemma cut_at_scan:
  assumes "SLASH \<notin> set c" "k \<le> length c"
  shows "cut_at (q @ SLASH # c) (length q + k) = (if q = [] then SLASH # c else q)"
  using assms(2)
proof (induction k)
  case 0
  show ?case by (cases "length q") (auto simp: nth_append)
next
  case (Suc k)
  then have "(q @ SLASH # c) ! Suc (length q + k) = c ! k" by (simp add: nth_append)
  moreover have "c ! k \<noteq> SLASH" using assms(1) Suc.prems by (metis Suc_le_lessD nth_mem)
  ultimately show ?case using Suc by simp
qed

lemma parent_dir:
  assumes "good_comp c" "length (join_path (cs @ [c])) < VFS_MAX_PATH_LEN"
  shows "vfs_get_parent_dir (join_path (cs @ [c])) = Returns (if cs = [] then join_path [c] else join_path cs)"
proof -
  let ?q = "join_path cs"
  have c: "c \<noteq> []" "SLASH \<notin> set c" using assms(1) by (auto simp: good_comp_def)
  have last: "(?q @ SLASH # c) ! (length ?q + length c) \<noteq> SLASH"
    using c by (cases c rule: rev_cases) (auto simp: nth_append)
  have "length (?q @ SLASH # c) - 1 = length ?q + length c" by simp
  with cut_at_scan [OF c(2) order_refl, of ?q] last assms(2) show ?thesis
    by (simp add: vfs_get_parent_dir_def Let_def)
qed

text \<open>
  opening a path whose last component is missing asks the file system of the folder it would
  be in, and fails without a change when that folder has none. For a missing name in the root
  folder no ancestor is found, and the code follows a null pointer.
\<close>

theorem open_missing:
  assumes ok: "tree_ok s" and good: "\<forall>d \<in> set (cs @ [c]). good_comp d"
    and u: "resolve s 0 cs = Some u" "folder s u" "child s u c = None"
    and len: "length (join_path (cs @ [c])) < VFS_MAX_PATH_LEN"
  shows "vfs_open F (join_path (cs @ [c])) m s =
    (if cs = [] then Faults NullDeref
     else case ifs (inode_of s u) of
       None \<Rightarrow> Returns (-1, s)
     | Some k \<Rightarrow>
         obind (fs_open (F k) (tinode (the (tnodes s u))) (join_path (cs @ [c])) s) (\<lambda>(req, s').
           case req of None \<Rightarrow> Returns (-1, s')
             | Some t \<Rightarrow> omap (\<lambda>s''. (open_handle s'', s'')) (add_descriptor (join_path (cs @ [c])) m t s')))"
proof -
  let ?p = "join_path (cs @ [c])"
  have ul: "tnodes s u \<noteq> None" using resolve_live [OF ok root_live [OF ok] u(1)] .
  have miss: "vfs_path_to_node F ?p NO_CREATE VFS_NODE_FILE s = Returns (None, s)"
    by (rule lookup_missing(1) [OF ok good u]) simp
  have par: "vfs_get_parent_dir ?p = Returns (if cs = [] then ?p else join_path cs)"
    using parent_dir [OF _ len] good by simp
  show ?thesis
  proof (cases "cs = []")
    case True
    have "find_parent_step F s ?p = Returns (Inr None)"
      using par True by (simp add: find_parent_step_def del: join_path_simps)
    then have "open_backing F ?p s = Faults NullDeref"
      using len by (simp add: open_backing_def loop_c_unfold del: join_path_simps)
    with miss True show ?thesis
      by (simp add: vfs_open_def vfs_open_locked_def del: join_path_simps)
  next
    case False
    have ne: "?p \<noteq> join_path cs" by simp
    have "vfs_path_to_node F (join_path cs) NO_CREATE VFS_NODE_FILE s = Returns (Some u, s)"
      using lookup_found [OF ok _ False u(1)] good by simp
    then have "find_parent_step F s ?p = Returns (Inr (Some u))"
      using par False ne by (simp add: find_parent_step_def del: join_path_simps)
    then have "open_backing F ?p s = (case ifs (inode_of s u) of None \<Rightarrow> Returns (None, s)
        | Some k \<Rightarrow> fs_open (F k) (tinode (the (tnodes s u))) ?p s)"
      using len by (simp add: open_backing_def loop_c_unfold tnode_live [OF ok ul] del: join_path_simps)
    with miss False show ?thesis
      unfolding vfs_open_def vfs_open_locked_def
      by (cases "ifs (inode_of s u)"; cases "fs_open (F (the (ifs (inode_of s u)))) (tinode (the (tnodes s u))) ?p s")
        (auto simp del: join_path_simps simp: split_beta omap_omap split: option.splits)
  qed
qed

lemma open_missing_witness:
  "\<forall>F. vfs_open F (join_path ([] @ [[0x78]])) VFS_MODE_READ (init_vfs 7 ()) = Faults NullDeref
   \<and> vfs_open F (join_path ([disk_name] @ [[0x78]])) VFS_MODE_READ (init_vfs 7 ()) = Returns (-1, init_vfs 7 ())"
proof (intro allI conjI)
  fix F
  have x: "good_comp [0x78]" by (simp add: good_comp_def SLASH_def VFS_MAX_PATH_LEN_def)
  have r: "resolve (init_vfs 7 ()) 0 [disk_name] = Some 5" "folder (init_vfs 7 ()) 5"
    "child (init_vfs 7 ()) 5 [0x78] = None" "ifs (inode_of (init_vfs 7 ()) 5) = None"
    by (simp_all add: init_vfs_facts) (simp_all add: init_vfs_eq child_def inode_of_def folder_def IS_TRAVERSABLE_def)
  have len: "length (join_path ([disk_name] @ [[0x78]])) < VFS_MAX_PATH_LEN"
    "length (join_path ([] @ [[0x78]])) < VFS_MAX_PATH_LEN"
    by (simp_all add: disk_name_def VFS_MAX_PATH_LEN_def)
  show "vfs_open F (join_path ([] @ [[0x78]])) VFS_MODE_READ (init_vfs 7 ()) = Faults NullDeref"
    by (rule trans [OF open_missing [OF _ _ _ _ _ len(2), where u = 0]])
      (simp_all add: init_vfs_facts x VFS_MAX_NAME_LEN_def dev_name_def disk_name_def)
  show "vfs_open F (join_path ([disk_name] @ [[0x78]])) VFS_MODE_READ (init_vfs 7 ()) = Returns (-1, init_vfs 7 ())"
    by (rule trans [OF open_missing [OF _ _ r(1-3) len(1)]]) (simp_all add: init_vfs_facts x r)
qed

text \<open>
  reading within a file asks the file system for no more than is left of it and for nothing
  at its end. After a seek past the end, which a handle not opened read-only may do, the length
  left wraps around: the file system is asked for almost 2 to the 64 bytes.
\<close>

theorem read_clamps:
  assumes fd: "vfs_handle_to_fd h s = Some fd" and live: "tnodes s (ftnode fd) \<noteq> None"
    and i: "inodes s (finode fd) = Some i" "ifs i = Some k"
    and pos: "unat (fseek fd) + unat len < 2 ^ 64"
  shows "\<exists>n. (fseek fd \<le> isize i \<longrightarrow> unat n = min (unat len) (unat (isize i) - unat (fseek fd)))
     \<and> (isize i < fseek fd \<longrightarrow> unat n = 2 ^ 64 - (unat (fseek fd) - unat (isize i)))
     \<and> vfs_read F h len s =
         (if n = 0 \<and> len \<noteq> 0 then Returns (0, [], s)
          else obind (fs_read (F k) (finode fd) (fseek fd) n s) (\<lambda>(status, buff, s').
                 Returns (sint (if status = -1 then 0 else n), buff, s')))"
proof -
  define n where "n = read_length (fseek fd) len (isize i)"
  have sum: "unat (fseek fd + len) = unat (fseek fd) + unat len"
    using pos by (simp add: unat_word_ariths)
  have gt: "fseek fd + len > isize i \<longleftrightarrow> unat (isize i) < unat (fseek fd) + unat len"
    by (simp add: word_less_nat_alt sum)
  have 1: "unat n = min (unat len) (unat (isize i) - unat (fseek fd))" if "fseek fd \<le> isize i"
    using that gt by (auto simp: n_def read_length_def unat_sub word_le_nat_alt)
  have 2: "unat n = 2 ^ 64 - (unat (fseek fd) - unat (isize i))" if lt: "isize i < fseek fd"
  proof -
    have "fseek fd + len > isize i" using lt gt by (simp add: word_less_nat_alt)
    then have "n = isize i - fseek fd" by (simp add: n_def read_length_def)
    then show ?thesis using lt unat_u64 [of "fseek fd"]
      by (simp add: unat_sub_if' word_less_nat_alt)
  qed
  have z: "fseek fd + len > isize i \<and> n = 0 \<longleftrightarrow> n = 0 \<and> len \<noteq> 0"
  proof (cases "fseek fd + len > isize i")
    case True
    moreover have "len \<noteq> 0" if "n = 0"
    proof
      assume "len = 0"
      with True that show False by (auto simp: n_def read_length_def)
    qed
    ultimately show ?thesis by auto
  next
    case False
    then show ?thesis by (auto simp: n_def read_length_def)
  qed
  from live obtain t where "tnodes s (ftnode fd) = Some t" by auto
  then have "vfs_read F h len s =
         (if n = 0 \<and> len \<noteq> 0 then Returns (0, [], s)
          else obind (fs_read (F k) (finode fd) (fseek fd) n s) (\<lambda>(status, buff, s').
                 Returns (sint (if status = -1 then 0 else n), buff, s')))"
    using z unfolding vfs_read_def fd option.case n_def
    by (simp add: tnode_at_def inode_at_def i fs_at_def Let_def)
  with 1 2 show ?thesis by blast
qed

text \<open>A file of 10 bytes open for reading and writing, after a seek to 12, on a file system without content.\<close>

definition empty_fs :: "'d vfs_fsinfo" where
  "empty_fs = \<lparr>fs_name = [], fs_istemp = True, fs_mount = (\<lambda>_ s. Returns (None, s)),
     fs_open = (\<lambda>_ _ s. Returns (None, s)), fs_mknode = (\<lambda>_ s. Returns (0, s)),
     fs_read = (\<lambda>_ _ _ s. Returns (0, [], s)), fs_write = (\<lambda>_ _ _ _ s. Returns (0, s)),
     fs_sync = (\<lambda>_ s. Returns (0, s)), fs_refresh = (\<lambda>_ s. Returns (0, s)),
     fs_getdent = (\<lambda>_ _ s. Returns (-1, \<lparr>de_type = VFS_NODE_FILE, de_tm = zero_tm, de_name = []\<rparr>, s))\<rparr>"

definition demo_inode :: vfs_inode where
  "demo_inode = \<lparr>itype = VFS_NODE_FILE, isize = 10, iperms = 0x1FF, iuid = 0, irefcount = 1,
      itm = zero_tm, ifs = Some 7, iident = None, imountpoint = None, ichild = []\<rparr>"

definition demo_fd :: vfs_node_desc where
  "demo_fd = \<lparr>fpath = [], ftnode = 0, finode = 1, fmode = VFS_MODE_READWRITE, fseek = 12\<rparr>"

definition demo_file :: "unit vfs" where
  "demo_file =
     \<lparr>tnodes = [0 \<mapsto> \<lparr>tname = [], tinode = 1, tparent = None\<rparr>],
      inodes = [1 \<mapsto> demo_inode], fresh = 2, fslist = [7], openfiles = [Some demo_fd], fsdev = ()\<rparr>"

lemma read_clamps_witness: "vfs_read (\<lambda>_. empty_fs) 0 4 demo_file = Returns (-2, [], demo_file)"
proof -
  have d: "vfs_handle_to_fd 0 demo_file = Some demo_fd" "tnodes demo_file (ftnode demo_fd) \<noteq> None"
    "inodes demo_file (finode demo_fd) = Some demo_inode" "ifs demo_inode = Some 7"
    "unat (fseek demo_fd) + unat (4 :: u64) < 2 ^ 64"
    "fseek demo_fd = 12" "isize demo_inode = 10" "finode demo_fd = 1"
    by (simp_all add: demo_file_def demo_fd_def demo_inode_def vfs_handle_to_fd_def)
  obtain n :: u64 where n: "unat n = 2 ^ 64 - 2" and r: "vfs_read (\<lambda>_. empty_fs) 0 4 demo_file =
         (if n = 0 \<and> (4 :: u64) \<noteq> 0 then Returns (0, [], demo_file)
          else obind (fs_read empty_fs 1 12 n demo_file) (\<lambda>(status, buff, s').
                 Returns (sint (if status = -1 then 0 else n), buff, s')))"
    using read_clamps [OF d(1-5), of "\<lambda>_. empty_fs"] unfolding d(6-8) by auto
  have "n = - 2" using n by (simp add: word_unat_eq_iff)
  with r show ?thesis by (simp add: empty_fs_def)
qed

end
