(* ===== verification/Framebuffer.thy ===== *)
theory Framebuffer
  imports Hanos_Prelude
begin

text \<open>
  The linear framebuffer (\<open>device/display/fb.c\<close>, \<open>fb.h\<close>): pixels, glyphs, the back buffer and its
  copy to the screen. The memory at \<open>fb->addr\<close> and at \<open>fb->backbuffer\<close> are byte lists; while the two
  pointers are equal there is no back buffer and drawing does nothing. The glyph table is an argument.
\<close>

definition COLOR_BLACK :: u32 where "COLOR_BLACK = 0x000000"
definition COLOR_RED :: u32 where "COLOR_RED = 0xFF7777"
definition COLOR_GREEN :: u32 where "COLOR_GREEN = 0x77FF77"
definition COLOR_YELLOW :: u32 where "COLOR_YELLOW = 0xFFFF77"
definition COLOR_BLUE :: u32 where "COLOR_BLUE = 0x7777FF"
definition COLOR_LIGHT_WHITE :: u32 where "COLOR_LIGHT_WHITE = 0xC0C0C0"
definition DEFAULT_FGCOLOR :: u32 where "DEFAULT_FGCOLOR = COLOR_LIGHT_WHITE"
definition DEFAULT_BGCOLOR :: u32 where "DEFAULT_BGCOLOR = COLOR_BLACK"

record fb_info =
  fb_width :: u32
  fb_height :: u32
  fb_pitch :: u32
  fb_screen :: "u8 list"
  fb_back :: "u8 list option"
  fb_len :: u32

text \<open>What the boot loader hands over (\<open>struct limine_framebuffer\<close>, the fields that are used).\<close>

record limine_framebuffer =
  lf_screen :: "u8 list"
  lf_width :: u64
  lf_height :: u64
  lf_pitch :: u64

text \<open>32-bit loads and stores in a byte list, little endian.\<close>

definition put32 :: "u8 list \<Rightarrow> nat \<Rightarrow> u32 \<Rightarrow> u8 list outcome" where
  "put32 buf k v =
     (if k + 4 \<le> length buf
      then Returns (buf[k := ucast v, k + 1 := ucast (drop_bit 8 v), k + 2 := ucast (drop_bit 16 v),
                        k + 3 := ucast (drop_bit 24 v)])
      else Faults OutOfBounds)"

definition get32 :: "u8 list \<Rightarrow> nat \<Rightarrow> u32 outcome" where
  "get32 buf k =
     (if k + 4 \<le> length buf
      then Returns (ucast (buf ! k) OR push_bit 8 (ucast (buf ! (k + 1)))
                    OR push_bit 16 (ucast (buf ! (k + 2))) OR push_bit 24 (ucast (buf ! (k + 3))))
      else Faults OutOfBounds)"

text \<open>
  The guard is computed in 32 bits, the address it guards is \<open>pitch * y\<close> in 32 bits plus the
  index scaled in 64 bits.
\<close>

definition fb_putpixel :: "u32 \<Rightarrow> u32 \<Rightarrow> u32 \<Rightarrow> fb_info \<Rightarrow> fb_info outcome" where
  "fb_putpixel x y color fb =
     (case fb_back fb of
        None \<Rightarrow> Returns fb
      | Some buf \<Rightarrow>
          if fb_pitch fb * y + x * 4 < fb_len fb
          then omap (\<lambda>buf. fb\<lparr>fb_back := Some buf\<rparr>)
                 (put32 buf (unat (fb_pitch fb * y) + 4 * unat x) color)
          else Returns fb)"

definition fb_getpixel :: "u32 \<Rightarrow> u32 \<Rightarrow> fb_info \<Rightarrow> u32 outcome" where
  "fb_getpixel x y fb =
     (case fb_back fb of
        None \<Rightarrow> Returns 0
      | Some buf \<Rightarrow>
          if fb_pitch fb * y + x * 4 < fb_len fb
          then get32 buf (unat (fb_pitch fb * y) + 4 * unat x)
          else Returns 0)"

definition masks :: "u8 list" where
  "masks = [128, 64, 32, 16, 8, 4, 2, 1]"

definition glyph_pixel ::
  "u8 list \<Rightarrow> u32 \<Rightarrow> u32 \<Rightarrow> u32 \<Rightarrow> u32 \<Rightarrow> u8 \<Rightarrow> nat \<times> nat \<Rightarrow> fb_info \<Rightarrow> fb_info outcome" where
  "glyph_pixel font x y fgcolor bgcolor ch ik fb =
     (case ik of (i, k) \<Rightarrow>
        obind (rd font (unat ch * 16 + i)) (\<lambda>row.
          fb_putpixel (x + of_nat k) (y + of_nat i)
            (if row AND masks ! k \<noteq> 0 then fgcolor else bgcolor) fb))"

definition fb_putch ::
  "u8 list \<Rightarrow> u32 \<Rightarrow> u32 \<Rightarrow> u32 \<Rightarrow> u32 \<Rightarrow> u8 \<Rightarrow> fb_info \<Rightarrow> fb_info outcome" where
  "fb_putch font x y fgcolor bgcolor ch fb =
     (if fb_back fb = None then Returns fb
      else foldo (glyph_pixel font x y fgcolor bgcolor ch) (List.product [0..<16] [0..<8]) fb)"

text \<open>The body of \<open>fb_putzh\<close> is compiled out: it draws nothing.\<close>

definition fb_putzh :: "u32 \<Rightarrow> u32 \<Rightarrow> u32 \<Rightarrow> u32 \<Rightarrow> u8 list \<Rightarrow> fb_info \<Rightarrow> fb_info outcome" where
  "fb_putzh x y fgcolor bgcolor ch fb = Returns fb"

definition fb_refresh :: "fb_info \<Rightarrow> fb_info outcome" where
  "fb_refresh fb =
     (case fb_back fb of
        None \<Rightarrow> Returns fb
      | Some buf \<Rightarrow>
          if unat (fb_len fb) \<le> length buf \<and> unat (fb_len fb) \<le> length (fb_screen fb)
          then Returns (fb\<lparr>fb_screen := take (unat (fb_len fb)) buf @ drop (unat (fb_len fb)) (fb_screen fb)\<rparr>)
          else Faults OutOfBounds)"

definition pixels :: "u32 \<Rightarrow> u32 \<Rightarrow> (u32 \<times> u32) list" where
  "pixels w h = map (\<lambda>(x, y). (of_nat x, of_nat y)) (List.product [0..<unat w] [0..<unat h])"

text \<open>
  \<open>fb_init\<close> with a frame buffer takes it over, its memory serving as back buffer; with \<open>NULL\<close> it
  allocates the back buffer (the allocation does not fail here).
\<close>

definition fb_init :: "limine_framebuffer option \<Rightarrow> fb_info \<Rightarrow> fb_info outcome" where
  "fb_init s fb =
     (case s of
        None \<Rightarrow>
          if fb_back fb = None then
            (if unat (fb_len fb) \<le> length (fb_screen fb)
             then Returns (fb\<lparr>fb_back := Some (take (unat (fb_len fb)) (fb_screen fb))\<rparr>)
             else Faults OutOfBounds)
          else Returns fb
      | Some f \<Rightarrow>
          let fb = \<lparr>fb_width = ucast (lf_width f), fb_height = ucast (lf_height f),
                    fb_pitch = ucast (lf_pitch f), fb_screen = lf_screen f, fb_back = None,
                    fb_len = ucast (lf_height f) * ucast (lf_pitch f)\<rparr>
          in obind (foldo (\<lambda>(x, y). fb_putpixel x y DEFAULT_BGCOLOR)
                     (pixels (fb_width fb) (fb_height fb)) fb) fb_refresh)"

section \<open>Pixels inside the screen\<close>

text \<open>
  A frame buffer whose lines fit their pitch, whose size fits in 32 bits and whose memory is there.
\<close>

definition fb_ok :: "fb_info \<Rightarrow> bool" where
  "fb_ok fb \<longleftrightarrow>
     4 * unat (fb_width fb) \<le> unat (fb_pitch fb) \<and> 4 dvd unat (fb_pitch fb) \<and>
     unat (fb_len fb) = unat (fb_height fb) * unat (fb_pitch fb) \<and>
     unat (fb_len fb) \<le> length (fb_screen fb) \<and>
     (\<forall>buf. fb_back fb = Some buf \<longrightarrow> length buf = unat (fb_len fb))"

definition fb_alike :: "fb_info \<Rightarrow> fb_info \<Rightarrow> bool" where
  "fb_alike a b \<longleftrightarrow> fb_width a = fb_width b \<and> fb_height a = fb_height b \<and> fb_pitch a = fb_pitch b
     \<and> fb_len a = fb_len b \<and> (fb_back a = None) = (fb_back b = None) \<and> fb_ok b"

definition offset :: "fb_info \<Rightarrow> u32 \<Rightarrow> u32 \<Rightarrow> nat" where
  "offset fb x y = unat (fb_pitch fb) * unat y + 4 * unat x"

lemma length_put32: "put32 buf k v = Returns buf' \<Longrightarrow> length buf' = length buf"
  by (auto simp: put32_def split: if_splits)

lemma bytes32: "ucast (ucast (v :: u32) :: u8) OR push_bit 8 (ucast (ucast (drop_bit 8 v) :: u8))
    OR push_bit 16 (ucast (ucast (drop_bit 16 v) :: u8)) OR push_bit 24 (ucast (ucast (drop_bit 24 v) :: u8)) = v"
  (is "?w = v")
proof (rule bit_word_eqI)
  fix n assume n: "n < LENGTH(32)"
  then consider "n < 8" | "8 \<le> n" "n < 16" | "16 \<le> n" "n < 24" | "24 \<le> n" "n < 32" by fastforce
  then show "bit ?w n = bit v n"
    by cases (auto simp: bit_simps)
qed

lemma get_put32:
  assumes "put32 buf k v = Returns buf'"
  shows "get32 buf' k = Returns v" and "j + 4 \<le> k \<or> k + 4 \<le> j \<Longrightarrow> get32 buf' j = get32 buf j"
  using assms by (auto simp: put32_def get32_def bytes32 split: if_splits)

lemma in_screen:
  assumes ok: "fb_ok fb" and x: "x < fb_width fb" and y: "y < fb_height fb"
  shows "fb_pitch fb * y + x * 4 < fb_len fb" and "unat (fb_pitch fb * y) + 4 * unat x = offset fb x y"
    and "offset fb x y + 4 \<le> unat (fb_len fb)"
proof -
  have x': "unat x + 1 \<le> unat (fb_width fb)" and y': "unat y + 1 \<le> unat (fb_height fb)"
    using x y by (simp_all add: word_less_nat_alt)
  have p: "4 * unat (fb_width fb) \<le> unat (fb_pitch fb)" and
    l: "unat (fb_len fb) = unat (fb_height fb) * unat (fb_pitch fb)"
    using ok by (auto simp: fb_ok_def)
  have "(unat y + 1) * unat (fb_pitch fb) \<le> unat (fb_len fb)"
    unfolding l by (rule mult_right_mono) (use y' in simp_all)
  then have le: "unat (fb_pitch fb) * unat y + unat (fb_pitch fb) \<le> unat (fb_len fb)"
    by (simp add: algebra_simps)
  then show o: "offset fb x y + 4 \<le> unat (fb_len fb)"
    using x' p by (simp add: offset_def)
  have "unat (fb_len fb) < 2 ^ 32" by (rule unat_u32)
  then have m: "unat (fb_pitch fb * y) = unat (fb_pitch fb) * unat y" and m4: "unat (x * 4) = 4 * unat x"
    using le o by (simp_all add: unat_word_ariths offset_def)
  then show "unat (fb_pitch fb * y) + 4 * unat x = offset fb x y" by (simp add: offset_def)
  have "unat (fb_pitch fb * y + x * 4) = offset fb x y"
    using m m4 o \<open>unat (fb_len fb) < 2 ^ 32\<close> by (simp add: unat_word_ariths(1) [of "fb_pitch fb * y"] offset_def)
  with o show "fb_pitch fb * y + x * 4 < fb_len fb" by (simp add: word_less_nat_alt)
qed

lemma offset_apart:
  assumes ok: "fb_ok fb" and "x < fb_width fb" "x' < fb_width fb" "(x, y) \<noteq> (x', y')"
  shows "offset fb x y + 4 \<le> offset fb x' y' \<or> offset fb x' y' + 4 \<le> offset fb x y"
proof -
  have p: "4 * unat (fb_width fb) \<le> unat (fb_pitch fb)" using ok by (simp add: fb_ok_def)
  have x: "unat x + 1 \<le> unat (fb_width fb)" "unat x' + 1 \<le> unat (fb_width fb)"
    using assms by (simp_all add: word_less_nat_alt)
  consider "y = y'" "x \<noteq> x'" | "unat y + 1 \<le> unat y'" | "unat y' + 1 \<le> unat y"
    using assms(4) by (metis Suc_eq_plus1 Suc_leI linorder_neqE_nat word_unat_eq_iff)
  then show ?thesis
  proof cases
    case 1
    then have "unat x \<noteq> unat x'" by (simp add: word_unat_eq_iff)
    with 1 show ?thesis by (auto simp: offset_def)
  next
    case 2
    then have "(unat y + 1) * unat (fb_pitch fb) \<le> unat y' * unat (fb_pitch fb)" by (rule mult_right_mono) simp
    with p x show ?thesis by (simp add: offset_def algebra_simps)
  next
    case 3
    then have "(unat y' + 1) * unat (fb_pitch fb) \<le> unat y * unat (fb_pitch fb)" by (rule mult_right_mono) simp
    with p x show ?thesis by (simp add: offset_def algebra_simps)
  qed
qed


lemma put_pixel:
  assumes ok: "fb_ok fb" and b: "fb_back fb = Some buf" and x: "x < fb_width fb" and y: "y < fb_height fb"
  shows "\<exists>fb' buf'. fb_putpixel x y c fb = Returns fb' \<and> fb' = fb\<lparr>fb_back := Some buf'\<rparr>
     \<and> put32 buf (offset fb x y) c = Returns buf' \<and> fb_ok fb'"
proof -
  note i = in_screen [OF ok x y]
  have len: "length buf = unat (fb_len fb)" using ok b by (simp add: fb_ok_def)
  then obtain buf' where buf': "put32 buf (offset fb x y) c = Returns buf'"
    using i(3) by (simp add: put32_def)
  have "fb_ok (fb\<lparr>fb_back := Some buf'\<rparr>)"
    using ok length_put32 [OF buf'] len by (simp add: fb_ok_def)
  with buf' i show ?thesis by (simp add: fb_putpixel_def b)
qed

text \<open>
  on a frame buffer with a back buffer, a pixel inside the screen reads back the color last
  put there, and putting it changes no other pixel of the screen.
\<close>

theorem pixel_roundtrip:
  assumes ok: "fb_ok fb" and b: "fb_back fb \<noteq> None" and x: "x < fb_width fb" and y: "y < fb_height fb"
  shows "\<exists>fb'. fb_putpixel x y c fb = Returns fb' \<and> fb_alike fb fb' \<and> fb_getpixel x y fb' = Returns c
     \<and> (\<forall>x' y'. x' < fb_width fb \<longrightarrow> y' < fb_height fb \<longrightarrow> (x', y') \<noteq> (x, y)
          \<longrightarrow> fb_getpixel x' y' fb' = fb_getpixel x' y' fb)"
proof -
  from b obtain buf where buf: "fb_back fb = Some buf" by auto
  from put_pixel [OF ok buf x y, of c] obtain fb' buf' where p: "fb_putpixel x y c fb = Returns fb'"
    "fb' = fb\<lparr>fb_back := Some buf'\<rparr>" "put32 buf (offset fb x y) c = Returns buf'" "fb_ok fb'" by blast
  have g: "fb_getpixel x' y' fb' = get32 buf' (offset fb x' y')" "fb_getpixel x' y' fb = get32 buf (offset fb x' y')"
    if "x' < fb_width fb" "y' < fb_height fb" for x' y'
    using in_screen [OF ok that] by (simp_all add: fb_getpixel_def p(2) buf)
  have "fb_getpixel x y fb' = Returns c" using g(1) [OF x y] get_put32(1) [OF p(3)] by simp
  moreover have "fb_getpixel x' y' fb' = fb_getpixel x' y' fb"
    if "x' < fb_width fb" "y' < fb_height fb" "(x', y') \<noteq> (x, y)" for x' y'
    using g [OF that(1,2)] get_put32(2) [OF p(3)] offset_apart [OF ok that(1) x that(3)] by simp
  moreover have "fb_alike fb fb'" using p(4) by (simp add: fb_alike_def p(2) buf)
  ultimately show ?thesis using p(1) by blast
qed

definition demo_fb :: fb_info where
  "demo_fb = \<lparr>fb_width = 8, fb_height = 16, fb_pitch = 32, fb_screen = replicate 512 0,
              fb_back = Some (replicate 512 0), fb_len = 512\<rparr>"

lemma pixel_roundtrip_witness:
  "\<exists>fb'. fb_putpixel 3 5 0xC0C0C0 demo_fb = Returns fb' \<and> fb_getpixel 3 5 fb' = Returns 0xC0C0C0"
  using pixel_roundtrip [of demo_fb 3 5 "0xC0C0C0"] by (auto simp: demo_fb_def fb_ok_def)

text \<open>Drawing keeps the frame buffer well formed, wherever it draws.\<close>

lemma fb_alike_refl: "fb_ok fb \<Longrightarrow> fb_alike fb fb"
  by (simp add: fb_alike_def)

lemma fb_alike_trans: "fb_alike a b \<Longrightarrow> fb_alike b c \<Longrightarrow> fb_alike a c"
  by (simp add: fb_alike_def)

lemma fb_alike_ok: "fb_alike a b \<Longrightarrow> fb_ok b"
  by (simp add: fb_alike_def)

end
