(* ===== verification/Terminal.thy ===== *)
theory Terminal
  imports Framebuffer
begin

text \<open>
  The framebuffer terminals (\<open>device/display/term.c\<close>, \<open>term.h\<close>): the escape sequence parser, the
  cursor, scrolling, and the switch between the two terminals. \<open>term_start\<close>, which replays the
  log, is in \<open>Klog\<close>. The log lines \<open>term_init\<close> writes are left out.
\<close>

definition TERM_MODE_INFO :: int where "TERM_MODE_INFO = 0"
definition TERM_MODE_CLI :: int where "TERM_MODE_CLI = 1"
definition TERM_MODE_UNKNOWN :: int where "TERM_MODE_UNKNOWN = 3"
definition FONT_WIDTH :: u32 where "FONT_WIDTH = 8"
definition FONT_HEIGHT :: u32 where "FONT_HEIGHT = 16"

definition font_colors :: "u32 list" where
  "font_colors = [COLOR_BLACK, COLOR_RED, COLOR_GREEN, COLOR_YELLOW, COLOR_BLUE, DEFAULT_FGCOLOR]"

datatype term_state = STATE_UNKNOWN | STATE_IDLE | STATE_CMD | STATE_PARAM

record term_info_t =
  tfb :: fb_info
  fgcolor :: u32
  bgcolor :: u32
  twidth :: u32
  theight :: u32
  cursor_x :: u32
  cursor_y :: u32
  tstate :: term_state
  cparams :: "int list"
  cparamcount :: int
  lastch :: u8
  last_qu_char :: bool

record terms =
  term_info :: "term_info_t"
  term_cli :: "term_info_t"
  term_active_mode :: int
  term_cursor :: u8

section \<open>Escape sequences\<close>

definition parse_err :: "term_info_t \<Rightarrow> bool \<times> term_info_t" where
  "parse_err t = (False, t\<lparr>tstate := STATE_IDLE, cparamcount := 0\<rparr>)"

definition parse_succ :: "term_info_t \<Rightarrow> bool \<times> term_info_t" where
  "parse_succ t = (True, t\<lparr>tstate := STATE_IDLE, cparamcount := 0\<rparr>)"

definition at_index :: "'a list \<Rightarrow> int \<Rightarrow> 'a outcome" where
  "at_index xs k = (if k < 0 then Faults OutOfBounds else rd xs (nat k))"

definition set_index :: "'a list \<Rightarrow> int \<Rightarrow> 'a \<Rightarrow> 'a list outcome" where
  "set_index xs k v = (if k < 0 then Faults OutOfBounds else wr xs (nat k) v)"

definition as_int :: "int \<Rightarrow> int outcome" where
  "as_int x = (if - (2 ^ 31) \<le> x \<and> x < 2 ^ 31 then Returns x else Faults IntOverflow)"

text \<open>The final \<open>m\<close>: the first parameter selects a color.\<close>

definition select_color :: "int \<Rightarrow> term_info_t \<Rightarrow> term_info_t" where
  "select_color p t =
     (if p = 0 then t\<lparr>fgcolor := DEFAULT_FGCOLOR, bgcolor := DEFAULT_BGCOLOR\<rparr>
      else if p \<ge> 10 \<and> p \<le> 15 then t\<lparr>fgcolor := font_colors ! nat (p - 10)\<rparr>
      else if p \<ge> 20 \<and> p \<le> 25 then t\<lparr>bgcolor := font_colors ! nat (p - 20)\<rparr>
      else t)"

definition parse_param :: "u8 \<Rightarrow> term_info_t \<Rightarrow> (bool \<times> term_info_t) outcome" where
  "parse_param byte t =
     (if byte = 0x3B then
        omap (\<lambda>ps. (True, t\<lparr>cparams := ps, cparamcount := cparamcount t + 1\<rparr>))
          (set_index (cparams t) (cparamcount t) 0)
      else if byte = 0x6D then
        omap (\<lambda>p. parse_succ (select_color p t)) (at_index (cparams t) 0)
      else if byte \<ge> 0x30 \<and> byte \<le> 0x39 then
        obind (at_index (cparams t) (cparamcount t - 1)) (\<lambda>p.
        obind (as_int (p * 10)) (\<lambda>p.
        obind (as_int (p + (uint byte - 0x30))) (\<lambda>p.
          omap (\<lambda>ps. (True, t\<lparr>cparams := ps\<rparr>)) (set_index (cparams t) (cparamcount t - 1) p))))
      else Returns (parse_err t))"

definition term_parse_cmd :: "u8 \<Rightarrow> term_info_t \<Rightarrow> (bool \<times> term_info_t) outcome" where
  "term_parse_cmd byte t =
     (if tstate t = STATE_UNKNOWN then Returns (False, t)
      else if byte > 0xA0 \<and> lastch t = 0 then Returns (parse_succ (t\<lparr>lastch := byte\<rparr>))
      else case tstate t of
        STATE_IDLE \<Rightarrow>
          if byte = 0x3F then
            (if \<not> last_qu_char t then Returns (True, t\<lparr>tstate := STATE_CMD, last_qu_char := True\<rparr>)
             else Returns (parse_err (t\<lparr>last_qu_char := False\<rparr>)))
          else Returns (parse_err t)
      | STATE_CMD \<Rightarrow>
          if byte = 0x5B then
            omap (\<lambda>ps. (True, t\<lparr>cparamcount := 1, cparams := ps, tstate := STATE_PARAM\<rparr>))
              (set_index (cparams t) 0 0)
          else Returns (parse_err t)
      | STATE_PARAM \<Rightarrow> parse_param byte t
      | STATE_UNKNOWN \<Rightarrow> Returns (parse_err t))"

section \<open>Drawing and scrolling\<close>

text \<open>The counters of \<open>for (y = lo; y < hi; y++) for (x = 0; x < w; x++)\<close>, as they reach the callee.\<close>

definition raster :: "nat \<Rightarrow> nat \<Rightarrow> nat \<Rightarrow> (u32 \<times> u32) list" where
  "raster lo hi w = map (\<lambda>(y, x). (of_nat x, of_nat y)) (List.product [lo..<hi] [0..<w])"

definition copy_up :: "u32 \<times> u32 \<Rightarrow> fb_info \<Rightarrow> fb_info outcome" where
  "copy_up xy fb =
     (case xy of (x, y) \<Rightarrow>
        obind (fb_getpixel x (y + FONT_HEIGHT) fb) (\<lambda>c. fb_putpixel x y c fb))"

definition fill :: "u32 \<Rightarrow> u32 \<times> u32 \<Rightarrow> fb_info \<Rightarrow> fb_info outcome" where
  "fill color xy fb = (case xy of (x, y) \<Rightarrow> fb_putpixel x y color fb)"

definition on_fb :: "(fb_info \<Rightarrow> fb_info outcome) \<Rightarrow> term_info_t \<Rightarrow> term_info_t outcome" where
  "on_fb f t = omap (\<lambda>fb. t\<lparr>tfb := fb\<rparr>) (f (tfb t))"

definition term_scroll :: "term_info_t \<Rightarrow> term_info_t outcome" where
  "term_scroll t =
     (if tstate t = STATE_UNKNOWN then Returns t
      else
        let h = unat ((cursor_y t - 1) * FONT_HEIGHT); w = unat (fb_width (tfb t)) in
        obind (on_fb (foldo copy_up (raster 0 h w)) t)
          (\<lambda>t. on_fb (foldo (fill (bgcolor t)) (raster h (unat (fb_height (tfb t))) w)) t))"

definition term_clear :: "term_info_t \<Rightarrow> term_info_t outcome" where
  "term_clear t =
     (if tstate t = STATE_UNKNOWN then Returns t
      else omap (\<lambda>t. t\<lparr>cursor_x := 0, cursor_y := 0\<rparr>)
        (on_fb (foldo (fill (bgcolor t)) (raster 0 (unat (fb_height (tfb t))) (unat (fb_width (tfb t))))) t))"

section \<open>Printing\<close>

definition scroll_up :: "term_info_t \<Rightarrow> term_info_t outcome" where
  "scroll_up t = omap (\<lambda>t. t\<lparr>cursor_y := cursor_y t - 1\<rparr>) (term_scroll t)"

text \<open>Both character branches start a new line at \<open>limit\<close> and scroll at the bottom.\<close>

definition make_room :: "u32 \<Rightarrow> term_info_t \<Rightarrow> term_info_t outcome" where
  "make_room limit t =
     (let t = (if cursor_x t \<ge> limit then t\<lparr>cursor_x := 0, cursor_y := cursor_y t + 1\<rparr> else t)
      in if cursor_y t \<ge> theight t then scroll_up t else Returns t)"

definition print_char :: "u8 list \<Rightarrow> u8 \<Rightarrow> term_info_t \<Rightarrow> term_info_t outcome" where
  "print_char font c t =
     (if c \<le> 0xA0 \<or> (c > 0xA0 \<and> lastch t = 0) then
        obind (make_room (twidth t) t) (\<lambda>t.
          omap (\<lambda>t. t\<lparr>cursor_x := cursor_x t + 1\<rparr>)
            (on_fb (fb_putch font (cursor_x t * FONT_WIDTH) (cursor_y t * FONT_HEIGHT)
                      (fgcolor t) (bgcolor t) c) t))
      else
        obind (make_room (twidth t - 1) t) (\<lambda>t.
          let c3 = [lastch t, c, 0]; t = t\<lparr>lastch := 0\<rparr> in
          omap (\<lambda>t. t\<lparr>cursor_x := cursor_x t + 2\<rparr>)
            (on_fb (fb_putzh (cursor_x t * FONT_WIDTH) (cursor_y t * FONT_HEIGHT)
                      (fgcolor t) (bgcolor t) c3) t)))"

definition print_tab :: "term_info_t \<Rightarrow> term_info_t" where
  "print_tab t =
     (let x = cursor_x t + (if cursor_x t mod 4 = 0 then 0 else 4 - cursor_x t mod 4) in
      if x > twidth t then t\<lparr>cursor_x := x - twidth t, cursor_y := cursor_y t + 1\<rparr>
      else t\<lparr>cursor_x := x\<rparr>)"

text \<open>The loop that scrolls until the cursor is on the screen, or at the start of the line below it.\<close>

definition settle_step :: "term_info_t \<Rightarrow> (term_info_t + term_info_t) outcome" where
  "settle_step t =
     (if cursor_y t \<ge> theight t \<and> \<not> (cursor_y t = theight t \<and> cursor_x t = 0)
      then omap Inl (scroll_up t) else Returns (Inr t))"

definition print_plain :: "u8 list \<Rightarrow> u8 \<Rightarrow> term_info_t \<Rightarrow> term_info_t outcome" where
  "print_plain font c t =
     obind (if cursor_y t = theight t \<and> c \<noteq> 0 then scroll_up t else Returns t) (\<lambda>t.
       if c = 0 then Returns t
       else
         obind (if c = 0x0A then Returns (t\<lparr>cursor_x := 0, cursor_y := cursor_y t + 1\<rparr>)
                else if c = 0x09 then Returns (print_tab t)
                else print_char font c t)
           (loop_c settle_step))"

definition back_one :: "term_info_t \<Rightarrow> term_info_t" where
  "back_one t = (if cursor_x t > 0 then t\<lparr>cursor_x := cursor_x t - 1\<rparr> else t)"

definition term_print :: "u8 list \<Rightarrow> u8 \<Rightarrow> term_info_t \<Rightarrow> term_info_t outcome" where
  "term_print font c t =
     (if c = 0x08 then omap (\<lambda>t. back_one (back_one t)) (print_plain font 0x20 t)
      else print_plain font c t)"

text \<open>
  \<open>term_putch\<close> calls itself at most once: the call is made with \<open>last_qu_char\<close> cleared.
\<close>

definition putch_direct :: "u8 list \<Rightarrow> u8 \<Rightarrow> term_info_t \<Rightarrow> term_info_t outcome" where
  "putch_direct font c t =
     obind (term_parse_cmd c (t\<lparr>last_qu_char := False\<rparr>)) (\<lambda>(taken, t).
       if taken then Returns t else term_print font c t)"

definition term_putch :: "u8 list \<Rightarrow> u8 \<Rightarrow> term_info_t \<Rightarrow> term_info_t outcome" where
  "term_putch font c t =
     (if tstate t = STATE_UNKNOWN then Returns t
      else if last_qu_char t \<and> c \<noteq> 0x5B then
        obind (term_print font 0x3F (t\<lparr>tstate := STATE_IDLE\<rparr>)) (\<lambda>t.
          putch_direct font c (t\<lparr>last_qu_char := False\<rparr>))
      else putch_direct font c t)"

section \<open>The two terminals\<close>

definition sel_term :: "int \<Rightarrow> terms \<Rightarrow> term_info_t" where
  "sel_term mode s = (if mode = TERM_MODE_INFO then term_info s else term_cli s)"

definition set_term :: "int \<Rightarrow> term_info_t \<Rightarrow> terms \<Rightarrow> terms" where
  "set_term mode t s = (if mode = TERM_MODE_INFO then s\<lparr>term_info := t\<rparr> else s\<lparr>term_cli := t\<rparr>)"

definition on_term :: "int \<Rightarrow> (term_info_t \<Rightarrow> term_info_t outcome) \<Rightarrow> terms \<Rightarrow> terms outcome" where
  "on_term mode f s = omap (\<lambda>t. set_term mode t s) (f (sel_term mode s))"

definition term_set_cursor :: "u8 \<Rightarrow> terms \<Rightarrow> terms" where
  "term_set_cursor c s = s\<lparr>term_cursor := c\<rparr>"

definition term_switch :: "int \<Rightarrow> terms \<Rightarrow> terms" where
  "term_switch mode s = s\<lparr>term_active_mode := mode\<rparr>"

text \<open>Drawing the cursor of the command line terminal over the cell after the text.\<close>

definition draw_cursor :: "u8 list \<Rightarrow> u8 \<Rightarrow> term_info_t \<Rightarrow> term_info_t outcome" where
  "draw_cursor font c t =
     (let (x, y) = (if cursor_x t \<ge> twidth t then (0, cursor_y t + 1) else (cursor_x t, cursor_y t)) in
      obind (if y \<ge> theight t then omap (\<lambda>t. (y - 1, t)) (scroll_up t) else Returns (y, t)) (\<lambda>(y, t).
        on_fb (fb_putch font (x * FONT_WIDTH) (y * FONT_HEIGHT) (fgcolor t) (bgcolor t) c) t))"

definition show_active :: "int \<Rightarrow> terms \<Rightarrow> term_info_t \<Rightarrow> term_info_t outcome" where
  "show_active mode s t =
     (if tstate t \<noteq> STATE_UNKNOWN \<and> mode = term_active_mode s then on_fb fb_refresh t else Returns t)"

definition term_refresh :: "u8 list \<Rightarrow> int \<Rightarrow> terms \<Rightarrow> terms outcome" where
  "term_refresh font mode s =
     (if mode \<noteq> TERM_MODE_INFO \<and> term_cursor s \<noteq> 0
      then on_term mode (\<lambda>t. obind (show_active mode s t) (draw_cursor font (term_cursor s))) s
      else on_term mode (show_active mode s) s)"

definition init_one :: "limine_framebuffer \<Rightarrow> term_info_t \<Rightarrow> term_info_t outcome" where
  "init_one f t =
     omap (\<lambda>fb. t\<lparr>tfb := fb, twidth := fb_width fb div FONT_WIDTH, theight := fb_height fb div FONT_HEIGHT,
                  fgcolor := DEFAULT_FGCOLOR, bgcolor := DEFAULT_BGCOLOR, tstate := STATE_IDLE,
                  cursor_x := 0, cursor_y := 0, lastch := 0\<rparr>)
       (fb_init (Some f) (tfb t))"

definition term_init :: "u8 list \<Rightarrow> limine_framebuffer \<Rightarrow> terms \<Rightarrow> terms outcome" where
  "term_init font f s =
     obind (on_term TERM_MODE_INFO (\<lambda>t. obind (init_one f t) term_clear) s) (\<lambda>s.
     obind (term_refresh font TERM_MODE_INFO s) (\<lambda>s.
     obind (on_term TERM_MODE_CLI (\<lambda>t. obind (init_one f t) term_clear) s) (\<lambda>s.
       term_refresh font TERM_MODE_CLI s)))"


section \<open>The cursor stays on the screen\<close>

definition fb_fits :: "fb_info \<Rightarrow> bool" where
  "fb_fits fb \<longleftrightarrow> fb_ok fb \<and> unat (fb_pitch fb) * (unat (fb_height fb) + 16) < 2 ^ 32"

lemma fb_fits_shape: "fb_fits a \<Longrightarrow> fb_alike a b \<Longrightarrow> fb_fits b"
  by (simp add: fb_fits_def fb_alike_def)

lemma below_screen:
  assumes "fb_fits fb" "x < fb_width fb" "\<not> y < fb_height fb" "unat y < unat (fb_height fb) + 16"
  shows "\<not> fb_pitch fb * y + x * 4 < fb_len fb"
proof -
  have p: "4 * unat (fb_width fb) \<le> unat (fb_pitch fb)" and
    l: "unat (fb_len fb) = unat (fb_height fb) * unat (fb_pitch fb)" and
    b: "unat (fb_pitch fb) * (unat (fb_height fb) + 16) < 2 ^ 32"
    using assms(1) by (auto simp: fb_fits_def fb_ok_def)
  have x: "unat x + 1 \<le> unat (fb_width fb)" and y: "unat (fb_height fb) \<le> unat y"
    using assms(2,3) by (simp_all add: word_less_nat_alt)
  have "unat (fb_pitch fb) * (unat y + 1) \<le> unat (fb_pitch fb) * (unat (fb_height fb) + 16)"
    using assms(4) by (intro mult_left_mono) simp_all
  then have le: "unat (fb_pitch fb) * unat y + 4 * unat x < 2 ^ 32" using p x b by (simp add: algebra_simps)
  have m: "unat (fb_pitch fb * y) = unat (fb_pitch fb) * unat y" and "unat (x * 4) = 4 * unat x"
    using le by (simp_all add: unat_word_ariths)
  then have "unat (fb_pitch fb * y + x * 4) = unat (fb_pitch fb) * unat y + 4 * unat x"
    using le by (simp add: unat_word_ariths(1) [of "fb_pitch fb * y"])
  moreover have "unat (fb_height fb) * unat (fb_pitch fb) \<le> unat (fb_pitch fb) * unat y"
    using mult_right_mono [OF y, of "unat (fb_pitch fb)"] by (simp add: mult.commute)
  ultimately have "unat (fb_len fb) \<le> unat (fb_pitch fb * y + x * 4)" using l by linarith
  then show ?thesis by (simp only: word_less_nat_alt not_less)
qed

lemma draw_pixel:
  assumes "fb_fits fb" "x < fb_width fb" "unat y < unat (fb_height fb) + 16"
  shows "\<exists>fb'. fb_putpixel x y c fb = Returns fb' \<and> fb_alike fb fb'"
    and "\<exists>c. fb_getpixel x y fb = Returns c"
proof -
  have ok: "fb_ok fb" using assms(1) by (simp add: fb_fits_def)
  show "\<exists>fb'. fb_putpixel x y c fb = Returns fb' \<and> fb_alike fb fb'"
  proof (cases "fb_back fb = None \<or> \<not> y < fb_height fb")
    case True
    then have "fb_putpixel x y c fb = Returns fb"
      using below_screen [OF assms(1,2) _ assms(3)] by (auto simp: fb_putpixel_def split: option.splits)
    with ok fb_alike_refl show ?thesis by blast
  next
    case False
    then obtain buf where b: "fb_back fb = Some buf" and y: "y < fb_height fb" by auto
    from put_pixel [OF ok b assms(2) y, of c] show ?thesis by (auto simp: fb_alike_def b)
  qed
  show "\<exists>c. fb_getpixel x y fb = Returns c"
  proof (cases "fb_back fb")
    case None
    then show ?thesis by (simp add: fb_getpixel_def)
  next
    case (Some buf)
    show ?thesis
    proof (cases "y < fb_height fb")
      case True
      have "length buf = unat (fb_len fb)" using ok Some by (simp add: fb_ok_def)
      with in_screen [OF ok assms(2) True] Some show ?thesis by (simp add: fb_getpixel_def get32_def)
    next
      case False
      with below_screen [OF assms(1,2) False assms(3)] Some show ?thesis by (simp add: fb_getpixel_def)
    qed
  qed
qed

lemma fold_pixels:
  assumes "\<And>xy fb. fb_fits fb \<Longrightarrow> fb_alike fb0 fb \<Longrightarrow> xy \<in> set xys \<Longrightarrow>
      \<exists>fb'. f xy fb = Returns fb' \<and> fb_alike fb fb'"
    and "fb_fits fb0"
  shows "\<exists>fb'. foldo f xys fb0 = Returns fb' \<and> fb_alike fb0 fb'"
proof (rule foldo_invariant)
  fix xy fb assume "xy \<in> set xys" "fb_alike fb0 fb"
  with assms fb_fits_shape fb_alike_trans show "\<exists>fb'. f xy fb = Returns fb' \<and> fb_alike fb0 fb'" by blast
next
  show "fb_alike fb0 fb0" using assms(2) by (simp add: fb_fits_def fb_alike_refl)
qed

text \<open>The size of the terminal matches its frame buffer.\<close>

definition geo :: "term_info_t \<Rightarrow> bool" where
  "geo t \<longleftrightarrow> fb_fits (tfb t) \<and> 8 * unat (twidth t) \<le> unat (fb_width (tfb t))
     \<and> 16 * unat (theight t) \<le> unat (fb_height (tfb t)) \<and> 3 \<le> unat (twidth t) \<and> 1 \<le> unat (theight t)
     \<and> tstate t \<noteq> STATE_UNKNOWN"

lemma geo_tfb: "geo t \<Longrightarrow> fb_alike (tfb t) fb \<Longrightarrow> geo (t\<lparr>tfb := fb\<rparr>)"
  by (auto simp: geo_def fb_fits_shape) (simp_all add: fb_alike_def)

lemma small_u32: "k < 2 ^ 32 \<Longrightarrow> unat (of_nat k :: u32) = k"
  by (simp add: unat_of_nat)

lemma raster_mem:
  assumes "(x, y) \<in> set (raster lo hi w)" "hi < 2 ^ 32" "w < 2 ^ 32"
  shows "lo \<le> unat y" "unat y < hi" "unat x < w"
  using assms by (auto simp: raster_def small_u32)

lemma scroll_ok:
  assumes g: "geo t" and y: "1 \<le> unat (cursor_y t)" "unat (cursor_y t) \<le> unat (theight t)"
  shows "\<exists>fb. term_scroll t = Returns (t\<lparr>tfb := fb\<rparr>) \<and> fb_alike (tfb t) fb"
proof -
  define h where "h = unat ((cursor_y t - 1) * FONT_HEIGHT)"
  define w where "w = unat (fb_width (tfb t))"
  have ht: "16 * unat (theight t) \<le> unat (fb_height (tfb t))" and f: "fb_fits (tfb t)"
    using g by (auto simp: geo_def)
  have "unat (cursor_y t - 1) = unat (cursor_y t) - 1" using y(1) by (simp add: unat_sub word_le_nat_alt)
  moreover have b: "(unat (cursor_y t) - 1) * 16 < unat (fb_height (tfb t))" using y ht by simp
  ultimately have h: "h = (unat (cursor_y t) - 1) * 16"
    using unat_u32 [of "fb_height (tfb t)"] unfolding h_def FONT_HEIGHT_def
    by (simp only: unat_word_ariths(2)) simp
  with b have h: "h = (unat (cursor_y t) - 1) * 16" "h < unat (fb_height (tfb t))" by simp_all
  have hb: "h < 2 ^ 32" "unat (fb_height (tfb t)) < 2 ^ 32" "w < 2 ^ 32"
    using h(2) unat_u32 [of "fb_height (tfb t)"] unat_u32 [of "fb_width (tfb t)"] by (simp_all add: w_def)
  have "\<exists>fb'. copy_up xy fb = Returns fb' \<and> fb_alike fb fb'"
    if fb: "fb_fits fb" "fb_alike (tfb t) fb" and xy: "xy \<in> set (raster 0 h w)" for xy fb
  proof -
    obtain x y where [simp]: "xy = (x, y)" by (cases xy)
    have b: "unat y < h" "unat x < w" using raster_mem [OF _ hb(1,3)] xy by auto
    have s: "fb_width fb = fb_width (tfb t)" "fb_height fb = fb_height (tfb t)" using fb(2) by (simp_all add: fb_alike_def)
    have x: "x < fb_width fb" using b s by (simp add: word_less_nat_alt w_def)
    have "unat (y + FONT_HEIGHT) < unat (fb_height fb) + 16"
      using b h(2) s unat_u32 [of "fb_height fb"] by (simp add: FONT_HEIGHT_def unat_word_ariths)
    from draw_pixel(2) [OF fb(1) x this] obtain c where "fb_getpixel x (y + FONT_HEIGHT) fb = Returns c" by blast
    moreover have "unat y < unat (fb_height fb) + 16" using b h(2) s by simp
    ultimately show ?thesis using draw_pixel(1) [OF fb(1) x] by (simp add: copy_up_def)
  qed
  from fold_pixels [where f = copy_up, OF this f] obtain fb1 where 1: "foldo copy_up (raster 0 h w) (tfb t) = Returns fb1"
    "fb_alike (tfb t) fb1" by blast
  have "\<exists>fb'. fill (bgcolor t) xy fb = Returns fb' \<and> fb_alike fb fb'"
    if fb: "fb_fits fb" "fb_alike fb1 fb" and xy: "xy \<in> set (raster h (unat (fb_height (tfb t))) w)" for xy fb
  proof -
    obtain x y where [simp]: "xy = (x, y)" by (cases xy)
    have b: "unat y < unat (fb_height (tfb t))" "unat x < w" using raster_mem [OF _ hb(2,3)] xy by auto
    have s: "fb_width fb = fb_width (tfb t)" "fb_height fb = fb_height (tfb t)"
      using fb(2) 1(2) by (simp_all add: fb_alike_def)
    show ?thesis using draw_pixel(1) [OF fb(1), of x y] b s by (simp add: fill_def word_less_nat_alt w_def)
  qed
  from fold_pixels [where f = "fill (bgcolor t)", OF this fb_fits_shape [OF f 1(2)]] obtain fb2 where
    2: "foldo (fill (bgcolor t)) (raster h (unat (fb_height (tfb t))) w) fb1 = Returns fb2" "fb_alike fb1 fb2" by blast
  have "fb_height fb1 = fb_height (tfb t)" using 1(2) by (simp add: fb_alike_def)
  then have "term_scroll t = Returns (t\<lparr>tfb := fb2\<rparr>)"
    using g 1 2 by (simp add: term_scroll_def on_fb_def Let_def h_def [symmetric] w_def [symmetric] geo_def)
  with fb_alike_trans [OF 1(2) 2(2)] show ?thesis by blast
qed

lemma scroll_up_ok:
  assumes "geo t" "1 \<le> unat (cursor_y t)" "unat (cursor_y t) \<le> unat (theight t)"
  shows "\<exists>fb. scroll_up t = Returns (t\<lparr>tfb := fb, cursor_y := cursor_y t - 1\<rparr>) \<and> fb_alike (tfb t) fb"
  using scroll_ok [OF assms] by (auto simp: scroll_up_def)


lemma glyph_ok:
  assumes g: "geo t" and x: "unat x < unat (twidth t)" and y: "unat y < unat (theight t)"
    and font: "length font = 4096"
  shows "\<exists>fb. fb_putch font (x * FONT_WIDTH) (y * FONT_HEIGHT) fg bg c (tfb t) = Returns fb
     \<and> fb_alike (tfb t) fb"
proof (cases "fb_back (tfb t) = None")
  case True
  then show ?thesis using g by (simp add: fb_putch_def geo_def fb_fits_def fb_alike_refl)
next
  case False
  have f: "fb_fits (tfb t)" and wd: "8 * unat (twidth t) \<le> unat (fb_width (tfb t))"
    and ht: "16 * unat (theight t) \<le> unat (fb_height (tfb t))"
    using g by (auto simp: geo_def)
  have "\<exists>fb'. glyph_pixel font (x * FONT_WIDTH) (y * FONT_HEIGHT) fg bg c ik fb = Returns fb' \<and> fb_alike fb fb'"
    if fb: "fb_fits fb" "fb_alike (tfb t) fb" and ik: "ik \<in> set (List.product [0..<16] [0..<8])" for ik fb
  proof -
    obtain i k where [simp]: "ik = (i, k)" by (cases ik)
    have i: "i < 16" and k: "k < 8" using ik unfolding set_product by simp_all
    have s: "fb_width fb = fb_width (tfb t)" "fb_height fb = fb_height (tfb t)"
      using fb(2) by (simp_all add: fb_alike_def)
    have "8 * unat x + k < unat (fb_width (tfb t))" using x wd k by simp
    moreover have "16 * unat y + i < unat (fb_height (tfb t))" using y ht i by simp
    ultimately have b: "8 * unat x + k < 2 ^ 32" "16 * unat y + i < 2 ^ 32"
      using unat_u32 [of "fb_width (tfb t)"] unat_u32 [of "fb_height (tfb t)"] by simp_all
    have "unat (x * FONT_WIDTH) = 8 * unat x" "unat (y * FONT_HEIGHT) = 16 * unat y"
      using b by (simp_all add: FONT_WIDTH_def FONT_HEIGHT_def unat_word_ariths)
    then have ux: "unat (x * FONT_WIDTH + of_nat k) = 8 * unat x + k"
      and uy: "unat (y * FONT_HEIGHT + of_nat i) = 16 * unat y + i"
      using b k i by (simp_all add: unat_word_ariths(1) small_u32)
    have "unat c < 256" using unat_u8 [of c] by simp
    then have "rd font (unat c * 16 + i) = Returns (font ! (unat c * 16 + i))"
      using font i by (intro rd_in) simp
    moreover have "x * FONT_WIDTH + of_nat k < fb_width fb"
      using x wd k by (simp add: word_less_nat_alt ux s)
    moreover have "unat (y * FONT_HEIGHT + of_nat i) < unat (fb_height fb) + 16"
      using y ht i by (simp add: uy s)
    ultimately show ?thesis using draw_pixel(1) [OF fb(1)] by (simp add: glyph_pixel_def)
  qed
  from fold_pixels [where f = "glyph_pixel font (x * FONT_WIDTH) (y * FONT_HEIGHT) fg bg c", OF this f]
  obtain fb where "foldo (glyph_pixel font (x * FONT_WIDTH) (y * FONT_HEIGHT) fg bg c)
      (List.product [0..<16] [0..<8]) (tfb t) = Returns fb" "fb_alike (tfb t) fb" by blast
  with False show ?thesis by (auto simp: fb_putch_def)
qed

text \<open>The cursor is on the screen, or at the start of the line just below it.\<close>

definition cursor_ok :: "term_info_t \<Rightarrow> bool" where
  "cursor_ok t \<longleftrightarrow> unat (cursor_x t) \<le> unat (twidth t)
     \<and> (unat (cursor_y t) < unat (theight t) \<or> (cursor_y t = theight t \<and> cursor_x t = 0))"

text \<open>What printing may change: the pixels, the cursor and the pending byte.\<close>

definition printed :: "term_info_t \<Rightarrow> term_info_t \<Rightarrow> bool" where
  "printed t t' \<longleftrightarrow> fb_alike (tfb t) (tfb t')
     \<and> t' = t\<lparr>tfb := tfb t', cursor_x := cursor_x t', cursor_y := cursor_y t', lastch := lastch t'\<rparr>"

lemma printed_refl: "geo t \<Longrightarrow> printed t t"
  by (simp add: printed_def geo_def fb_fits_def fb_alike_refl)

lemma printed_trans:
  assumes "printed a b" "printed b c"
  shows "printed a c"
proof -
  have "fb_alike (tfb a) (tfb c)" using assms fb_alike_trans unfolding printed_def by blast
  moreover have "c = a\<lparr>tfb := tfb c, cursor_x := cursor_x c, cursor_y := cursor_y c, lastch := lastch c\<rparr>"
    using assms unfolding printed_def by (cases a; cases b; cases c) simp
  ultimately show ?thesis unfolding printed_def by blast
qed

lemma printed_geo: "geo t \<Longrightarrow> printed t t' \<Longrightarrow> geo t'"
  unfolding printed_def geo_def by (cases t; cases t') (auto simp: fb_alike_def fb_fits_def)

lemma printed_size: "printed t t' \<Longrightarrow> twidth t' = twidth t \<and> theight t' = theight t"
  unfolding printed_def by (cases t; cases t') simp

lemma printed_cursor:
  "geo t \<Longrightarrow> printed t (t\<lparr>cursor_x := x, cursor_y := y\<rparr>)" "geo t \<Longrightarrow> printed t (t\<lparr>cursor_x := x\<rparr>)"
  "geo t \<Longrightarrow> printed t (t\<lparr>cursor_y := y\<rparr>)"
  by (simp_all add: printed_def geo_def fb_fits_def fb_alike_refl)

text \<open>A cell for the next character: inside the screen, \<open>limit\<close> being the last column it may start in.\<close>

lemma make_room_ok:
  assumes g: "geo t" and y: "unat (cursor_y t) < unat (theight t)" and l: "0 < unat limit"
  shows "\<exists>t'. make_room limit t = Returns t' \<and> printed t t' \<and> lastch t' = lastch t
     \<and> unat (cursor_x t') < unat limit \<and> unat (cursor_y t') < unat (theight t)"
proof (cases "cursor_x t \<ge> limit")
  case False
  have "\<not> cursor_y t \<ge> theight t" using y by (simp add: word_le_nat_alt)
  with False y show ?thesis
    by (auto simp: make_room_def printed_refl [OF g] word_le_nat_alt Let_def)
next
  case True
  let ?t = "t\<lparr>cursor_x := 0, cursor_y := cursor_y t + 1\<rparr>"
  have g': "geo ?t" using printed_geo [OF g printed_cursor(1) [OF g]] .
  have uy: "unat (cursor_y t + 1) = unat (cursor_y t) + 1"
    using y unat_u32 [of "theight t"] by (simp add: unat_word_ariths)
  show ?thesis
  proof (cases "cursor_y t + 1 \<ge> theight t")
    case False
    with True l have "make_room limit t = Returns ?t" "unat (cursor_y t + 1) < unat (theight t)"
      by (simp_all add: make_room_def word_le_nat_alt)
    then show ?thesis using l printed_cursor(1) [OF g] by auto
  next
    case below: True
    from scroll_up_ok [OF g'] obtain fb where
      s: "scroll_up ?t = Returns (?t\<lparr>tfb := fb, cursor_y := cursor_y ?t - 1\<rparr>)" "fb_alike (tfb t) fb"
      using uy y by auto
    then have "make_room limit t = Returns (t\<lparr>cursor_x := 0, tfb := fb\<rparr>)"
      using True below by (simp add: make_room_def)
    moreover have "printed t (t\<lparr>cursor_x := 0, tfb := fb\<rparr>)" using s(2) by (simp add: printed_def)
    ultimately show ?thesis using l y by auto
  qed
qed


lemma print_char_ok:
  assumes g: "geo t" and font: "length font = 4096" and y: "unat (cursor_y t) < unat (theight t)"
  shows "\<exists>t'. print_char font c t = Returns t' \<and> printed t t' \<and> unat (cursor_x t') \<le> unat (twidth t)
     \<and> unat (cursor_y t') < unat (theight t)"
proof (cases "c \<le> 0xA0 \<or> (c > 0xA0 \<and> lastch t = 0)")
  case True
  from make_room_ok [OF g y, of "twidth t"] g obtain t1 where 1: "make_room (twidth t) t = Returns t1"
    "printed t t1" "unat (cursor_x t1) < unat (twidth t)" "unat (cursor_y t1) < unat (theight t)"
    by (auto simp: geo_def)
  note sz = printed_size [OF 1(2)] and g1 = printed_geo [OF g 1(2)]
  from glyph_ok [OF g1, of "cursor_x t1" "cursor_y t1" font "fgcolor t1" "bgcolor t1" c] 1 sz font
  obtain fb where f: "fb_putch font (cursor_x t1 * FONT_WIDTH) (cursor_y t1 * FONT_HEIGHT)
      (fgcolor t1) (bgcolor t1) c (tfb t1) = Returns fb" "fb_alike (tfb t1) fb" by auto
  let ?t = "t1\<lparr>tfb := fb, cursor_x := cursor_x t1 + 1\<rparr>"
  have "print_char font c t = Returns ?t" using True 1(1) f by (simp add: print_char_def on_fb_def)
  moreover have "printed t1 ?t" using f(2) by (simp add: printed_def)
  then have "printed t ?t" by (rule printed_trans [OF 1(2)])
  moreover have "unat (cursor_x t1 + 1) = unat (cursor_x t1) + 1"
    using 1(3) unat_u32 [of "twidth t"] by (simp add: unat_word_ariths)
  ultimately show ?thesis using 1 by auto
next
  case False
  have w: "unat (twidth t - 1) = unat (twidth t) - 1" "3 \<le> unat (twidth t)"
    using g by (auto simp: geo_def unat_sub word_le_nat_alt)
  from make_room_ok [OF g y, of "twidth t - 1"] w obtain t1 where 1: "make_room (twidth t - 1) t = Returns t1"
    "printed t t1" "unat (cursor_x t1) < unat (twidth t) - 1" "unat (cursor_y t1) < unat (theight t)"
    by auto
  let ?t = "t1\<lparr>lastch := 0, cursor_x := cursor_x t1 + 2\<rparr>"
  have "print_char font c t = Returns ?t"
    unfolding print_char_def if_not_P [OF False] by (simp add: 1(1) on_fb_def fb_putzh_def Let_def)
  moreover have "printed t1 ?t"
    using printed_geo [OF g 1(2)] by (simp add: printed_def geo_def fb_fits_def fb_alike_refl)
  then have "printed t ?t" by (rule printed_trans [OF 1(2)])
  moreover have "unat (cursor_x t1 + 2) = unat (cursor_x t1) + 2"
    using 1(3) w unat_u32 [of "twidth t"] by (simp add: unat_word_ariths)
  ultimately show ?thesis using 1 w by auto
qed

lemma settle_ok:
  assumes g: "geo t" and x: "unat (cursor_x t) \<le> unat (twidth t)" and y: "unat (cursor_y t) \<le> unat (theight t)"
  shows "\<exists>t'. loop_c settle_step t = Returns t' \<and> printed t t' \<and> cursor_ok t'"
proof (cases "cursor_y t = theight t \<and> cursor_x t \<noteq> 0")
  case False
  then have "settle_step t = Returns (Inr t)" and "cursor_ok t"
    using x y by (auto simp: settle_step_def cursor_ok_def word_le_nat_alt word_unat_eq_iff)
  then show ?thesis using printed_refl [OF g] by (simp add: loop_c_unfold)
next
  case True
  have h: "1 \<le> unat (theight t)" using g by (simp add: geo_def)
  from scroll_up_ok [OF g] h True obtain fb where
    s: "scroll_up t = Returns (t\<lparr>tfb := fb, cursor_y := cursor_y t - 1\<rparr>)" "fb_alike (tfb t) fb"
    by auto
  let ?t = "t\<lparr>tfb := fb, cursor_y := cursor_y t - 1\<rparr>"
  have u: "unat (theight t - 1) = unat (theight t) - 1" using h by (simp add: unat_sub word_le_nat_alt)
  have "settle_step t = Returns (Inl ?t)" using True s(1) by (simp add: settle_step_def)
  moreover have "settle_step ?t = Returns (Inr ?t)"
  proof -
    have "\<not> theight t \<le> theight t - 1" using u h by (simp add: word_le_nat_alt)
    then show ?thesis using True by (simp add: settle_step_def)
  qed
  ultimately have "loop_c settle_step t = Returns ?t" by (simp add: loop_c_unfold)
  moreover have "printed t ?t" using s(2) by (simp add: printed_def)
  moreover have "cursor_ok ?t" using True x u h by (simp add: cursor_ok_def)
  ultimately show ?thesis by blast
qed

lemma print_tab_ok:
  assumes g: "geo t" and x: "unat (cursor_x t) \<le> unat (twidth t)" and y: "unat (cursor_y t) < unat (theight t)"
    and w: "unat (twidth t) < 2 ^ 31"
  shows "unat (cursor_x (print_tab t)) \<le> unat (twidth t)" "unat (cursor_y (print_tab t)) \<le> unat (theight t)"
    "printed t (print_tab t)"
proof -
  define p where "p = (if cursor_x t mod 4 = 0 then 0 else 4 - cursor_x t mod 4)"
  have m: "unat (cursor_x t mod 4) < 4" by (simp add: unat_mod)
  have "unat p < 4"
    using m by (auto simp: p_def unat_sub word_le_nat_alt) (metis less_numeral_extra(3) neq0_conv unat_eq_0 diff_less zero_less_numeral)
  then have u: "unat (cursor_x t + p) \<le> unat (cursor_x t) + 3"
    using x w by (simp add: unat_word_ariths)
  have "3 \<le> unat (twidth t)" using g by (simp add: geo_def)
  then have le: "unat (cursor_x t + p - twidth t) \<le> unat (twidth t)" if "twidth t < cursor_x t + p"
    using that u x by (simp add: unat_sub word_le_nat_alt word_less_nat_alt)
  have yy: "unat (cursor_y t + 1) = unat (cursor_y t) + 1"
    using y unat_u32 [of "theight t"] by (simp add: unat_word_ariths)
  show "unat (cursor_x (print_tab t)) \<le> unat (twidth t)" "unat (cursor_y (print_tab t)) \<le> unat (theight t)"
    "printed t (print_tab t)"
    using le yy y printed_cursor [OF g]
    by (auto simp: print_tab_def p_def [symmetric] Let_def word_less_nat_alt not_less)
qed


lemma print_plain_ok:
  assumes g: "geo t" and w: "unat (twidth t) < 2 ^ 31" and font: "length font = 4096" and c: "cursor_ok t"
  shows "\<exists>t'. print_plain font ch t = Returns t' \<and> printed t t' \<and> cursor_ok t'"
proof (cases "ch = 0")
  case True
  then show ?thesis using c printed_refl [OF g] by (simp add: print_plain_def)
next
  case False
  have h: "1 \<le> unat (theight t)" using g by (simp add: geo_def)
  obtain t1 where 1: "(if cursor_y t = theight t \<and> ch \<noteq> 0 then scroll_up t else Returns t) = Returns t1"
    "printed t t1" "unat (cursor_x t1) \<le> unat (twidth t)" "unat (cursor_y t1) < unat (theight t)"
  proof (cases "cursor_y t = theight t")
    case True
    from scroll_up_ok [OF g] h True obtain fb where
      s: "scroll_up t = Returns (t\<lparr>tfb := fb, cursor_y := cursor_y t - 1\<rparr>)" "fb_alike (tfb t) fb"
      by auto
    moreover have "unat (theight t - 1) < unat (theight t)" using h by (simp add: unat_sub word_le_nat_alt)
    ultimately show ?thesis using that [of "t\<lparr>tfb := fb, cursor_y := cursor_y t - 1\<rparr>"] True False c
      by (auto simp: printed_def cursor_ok_def)
  next
    case no: False
    then show ?thesis using that [of t] c printed_refl [OF g] by (auto simp: cursor_ok_def)
  qed
  note g1 = printed_geo [OF g 1(2)] and sz = printed_size [OF 1(2)]
  obtain t2 where 2: "(if ch = 0x0A then Returns (t1\<lparr>cursor_x := 0, cursor_y := cursor_y t1 + 1\<rparr>)
                else if ch = 0x09 then Returns (print_tab t1) else print_char font ch t1) = Returns t2"
    "printed t1 t2" "unat (cursor_x t2) \<le> unat (twidth t)" "unat (cursor_y t2) \<le> unat (theight t)"
  proof -
    consider "ch = 0x0A" | "ch \<noteq> 0x0A" "ch = 0x09" | "ch \<noteq> 0x0A" "ch \<noteq> 0x09" by blast
    then show ?thesis
    proof cases
      case 1
      have "unat (cursor_y t1 + 1) = unat (cursor_y t1) + 1"
        using \<open>unat (cursor_y t1) < unat (theight t)\<close> unat_u32 [of "theight t"] by (simp add: unat_word_ariths)
      then show ?thesis using that [of "t1\<lparr>cursor_x := 0, cursor_y := cursor_y t1 + 1\<rparr>"] 1 sz
          printed_cursor [OF g1] \<open>unat (cursor_y t1) < unat (theight t)\<close> by simp
    next
      case 2
      then show ?thesis using that [of "print_tab t1"] print_tab_ok [OF g1] 1(3,4) sz w by simp
    next
      case 3
      from print_char_ok [OF g1 font, of ch] 1(4) sz obtain t2 where "print_char font ch t1 = Returns t2"
        "printed t1 t2" "unat (cursor_x t2) \<le> unat (twidth t)" "unat (cursor_y t2) < unat (theight t)"
        by auto
      with 3 show ?thesis using that [of t2] by simp
    qed
  qed
  note 12 = printed_trans [OF 1(2) 2(2)]
  from settle_ok [OF printed_geo [OF g 12]] 2(3,4) printed_size [OF 12]
  obtain t3 where 3: "loop_c settle_step t2 = Returns t3" "printed t2 t3" "cursor_ok t3" by auto
  have "print_plain font ch t = Returns t3"
    unfolding print_plain_def 1(1) obind.simps using False by (simp only: if_False 2(1) obind.simps 3(1))
  with 3 printed_trans [OF 12 3(2)] show ?thesis by blast
qed

lemma term_print_ok:
  assumes g: "geo t" and w: "unat (twidth t) < 2 ^ 31" and font: "length font = 4096" and c: "cursor_ok t"
  shows "\<exists>t'. term_print font ch t = Returns t' \<and> printed t t' \<and> cursor_ok t'"
proof (cases "ch = 0x08")
  case False
  with print_plain_ok [OF assms] show ?thesis by (simp add: term_print_def)
next
  case True
  from print_plain_ok [OF assms] obtain t1 where 1: "print_plain font 0x20 t = Returns t1" "printed t t1" "cursor_ok t1"
    by blast
  have bk: "printed u (back_one u) \<and> cursor_ok (back_one u)" if "geo u" "cursor_ok u" for u
  proof (cases "cursor_x u > 0")
    case True
    then have "unat (cursor_x u - 1) = unat (cursor_x u) - 1" "cursor_x u \<noteq> 0"
      by (auto simp: unat_sub word_le_nat_alt word_less_nat_alt)
    with that True show ?thesis by (auto simp: back_one_def printed_cursor cursor_ok_def)
  next
    case False
    with that show ?thesis by (simp add: back_one_def printed_refl)
  qed
  note g1 = printed_geo [OF g 1(2)]
  have b1: "printed t1 (back_one t1)" "cursor_ok (back_one t1)" using bk [OF g1 1(3)] by blast+
  have b2: "printed (back_one t1) (back_one (back_one t1))" "cursor_ok (back_one (back_one t1))"
    using bk [OF printed_geo [OF g1 b1(1)] b1(2)] by blast+
  have "printed t (back_one (back_one t1))" by (rule printed_trans [OF printed_trans [OF 1(2) b1(1)] b2(1)])
  with 1(1) True b2(2) show ?thesis by (simp add: term_print_def)
qed


section \<open>The parser keeps to its parameters\<close>

definition parse_ok :: "term_info_t \<Rightarrow> bool" where
  "parse_ok t \<longleftrightarrow> length (cparams t) = 16 \<and> (\<forall>p \<in> set (cparams t). 0 \<le> p \<and> p < 2 ^ 31)
     \<and> (tstate t = STATE_PARAM \<longrightarrow> 1 \<le> cparamcount t \<and> cparamcount t \<le> 16)"

definition tty_ok :: "term_info_t \<Rightarrow> bool" where
  "tty_ok t \<longleftrightarrow> geo t \<and> unat (twidth t) < 2 ^ 31 \<and> cursor_ok t \<and> parse_ok t"

text \<open>The parameter an incoming digit extends.\<close>

definition cur_param :: "term_info_t \<Rightarrow> int" where
  "cur_param t = cparams t ! nat (cparamcount t - 1)"

definition is_digit :: "u8 \<Rightarrow> bool" where
  "is_digit c \<longleftrightarrow> c \<ge> 0x30 \<and> c \<le> 0x39"

text \<open>The parser changes only the parser's fields and the colors.\<close>

definition parsed :: "term_info_t \<Rightarrow> term_info_t \<Rightarrow> bool" where
  "parsed t t' \<longleftrightarrow> t' = t\<lparr>tstate := tstate t', cparams := cparams t', cparamcount := cparamcount t',
      fgcolor := fgcolor t', bgcolor := bgcolor t', lastch := lastch t', last_qu_char := last_qu_char t'\<rparr>
     \<and> tstate t' \<noteq> STATE_UNKNOWN"

lemma parsed_tty:
  assumes "tty_ok t" "parsed t t'" "parse_ok t'"
  shows "tty_ok t'"
proof -
  have "tfb t' = tfb t" "twidth t' = twidth t" "theight t' = theight t" "cursor_x t' = cursor_x t"
    "cursor_y t' = cursor_y t" "tstate t' \<noteq> STATE_UNKNOWN"
    using assms(2) unfolding parsed_def by (cases t; cases t'; simp)+
  with assms(1,3) show ?thesis by (simp add: tty_ok_def geo_def cursor_ok_def)
qed

lemma parse_param_ok:
  assumes t: "parse_ok t" "tstate t = STATE_PARAM"
  shows "if c = 0x3B \<and> cparamcount t = 16 then parse_param c t = Faults OutOfBounds
     else if is_digit c \<and> cur_param t * 10 + (uint c - 0x30) \<ge> 2 ^ 31 then parse_param c t = Faults IntOverflow
     else \<exists>b t'. parse_param c t = Returns (b, t') \<and> parsed t t' \<and> parse_ok t'"
proof -
  have l: "length (cparams t) = 16" and p: "\<forall>p \<in> set (cparams t). 0 \<le> p \<and> p < 2 ^ 31"
    and n: "1 \<le> cparamcount t" "cparamcount t \<le> 16"
    using t by (auto simp: parse_ok_def)
  have i: "nat (cparamcount t - 1) < 16" using n by simp
  then have cp: "0 \<le> cur_param t" "cur_param t < 2 ^ 31"
    using p l nth_mem [of "nat (cparamcount t - 1)" "cparams t"] by (auto simp: cur_param_def)
  consider "c = 0x3B" | "c = 0x6D" | "is_digit c" | "c \<noteq> 0x3B" "c \<noteq> 0x6D" "\<not> is_digit c" by blast
  then show ?thesis
  proof cases
    case 1
    then have nd: "\<not> is_digit c" by (simp add: is_digit_def)
    show ?thesis
    proof (cases "cparamcount t = 16")
      case True
      with 1 l show ?thesis by (simp add: parse_param_def set_index_def)
    next
      case False
      then have lt: "nat (cparamcount t) < 16" using n by simp
      have "\<forall>q \<in> set ((cparams t)[nat (cparamcount t) := 0]). 0 \<le> q \<and> q < 2 ^ 31"
        using p set_update_subset_insert [of "cparams t" "nat (cparamcount t)" 0] by auto
      with 1 nd False lt l n t(2) show ?thesis
        by (auto simp: parse_param_def set_index_def parsed_def parse_ok_def)
    qed
  next
    case 2
    have "parsed t (snd (parse_succ (select_color q t)))" "parse_ok (snd (parse_succ (select_color q t)))" for q
      using p l by (auto simp: parse_succ_def select_color_def parsed_def parse_ok_def)
    moreover have "parse_param c t = Returns (parse_succ (select_color (cparams t ! 0) t))"
      using 2 l by (simp add: parse_param_def at_index_def)
    ultimately show ?thesis using 2 by (cases "parse_succ (select_color (cparams t ! 0) t)") (auto simp: is_digit_def, (metis snd_conv)+)
  next
    case 3
    then have c: "c \<noteq> 0x3B" "c \<noteq> 0x6D" "c \<ge> 0x30 \<and> c \<le> 0x39" by (auto simp: is_digit_def)
    define d where "d = uint c - 0x30"
    have d: "0 \<le> d" "d \<le> 9" using c(3) by (auto simp: d_def word_le_def)
    have at: "at_index (cparams t) (cparamcount t - 1) = Returns (cur_param t)"
      using n l i by (simp add: at_index_def cur_param_def)
    show ?thesis
    proof (cases "cur_param t * 10 + d \<ge> 2 ^ 31")
      case True
      then show ?thesis using c 3 at cp d
        by (auto simp: parse_param_def as_int_def d_def [symmetric] obind_eq_Returns)
    next
      case False
      have "\<forall>q \<in> set ((cparams t)[nat (cparamcount t - 1) := cur_param t * 10 + d]). 0 \<le> q \<and> q < 2 ^ 31"
        using p cp d False set_update_subset_insert [of "cparams t" "nat (cparamcount t - 1)" "cur_param t * 10 + d"]
        by auto
      then show ?thesis using False c 3 at cp d n l i t(2)
        by (auto simp: parse_param_def as_int_def d_def [symmetric] set_index_def parsed_def parse_ok_def)
    qed
  next
    case 4
    then show ?thesis using t(1)
      by (auto simp: parse_param_def is_digit_def parse_err_def parsed_def parse_ok_def)
  qed
qed


text \<open>The two faults the parser can run into, as conditions on the state and the byte.\<close>

definition too_many :: "term_info_t \<Rightarrow> u8 \<Rightarrow> bool" where
  "too_many t c \<longleftrightarrow> tstate t = STATE_PARAM \<and> c = 0x3B \<and> cparamcount t = 16"

definition too_big :: "term_info_t \<Rightarrow> u8 \<Rightarrow> bool" where
  "too_big t c \<longleftrightarrow> tstate t = STATE_PARAM \<and> is_digit c \<and> cur_param t * 10 + (uint c - 0x30) \<ge> 2 ^ 31"

lemma parse_cmd_ok:
  assumes t: "parse_ok t" "tstate t \<noteq> STATE_UNKNOWN"
  shows "if too_many t c then term_parse_cmd c t = Faults OutOfBounds
     else if too_big t c then term_parse_cmd c t = Faults IntOverflow
     else \<exists>b t'. term_parse_cmd c t = Returns (b, t') \<and> parsed t t' \<and> parse_ok t'"
proof (cases "c > 0xA0 \<and> lastch t = 0")
  case True
  then have "\<not> c \<le> 57" using less_le_trans [of "0xA0" c 57] by auto
  then have "\<not> too_many t c" "\<not> too_big t c"
    using True by (auto simp: too_many_def too_big_def is_digit_def)
  moreover have "term_parse_cmd c t = Returns (parse_succ (t\<lparr>lastch := c\<rparr>))"
    using True t(2) by (simp add: term_parse_cmd_def)
  ultimately show ?thesis using t(1) by (simp add: parse_succ_def parsed_def parse_ok_def) blast
next
  case False
  then have eq: "term_parse_cmd c t = (case tstate t of
        STATE_IDLE \<Rightarrow>
          if c = 0x3F then
            (if \<not> last_qu_char t then Returns (True, t\<lparr>tstate := STATE_CMD, last_qu_char := True\<rparr>)
             else Returns (parse_err (t\<lparr>last_qu_char := False\<rparr>)))
          else Returns (parse_err t)
      | STATE_CMD \<Rightarrow>
          if c = 0x5B then
            omap (\<lambda>ps. (True, t\<lparr>cparamcount := 1, cparams := ps, tstate := STATE_PARAM\<rparr>))
              (set_index (cparams t) 0 0)
          else Returns (parse_err t)
      | STATE_PARAM \<Rightarrow> parse_param c t
      | STATE_UNKNOWN \<Rightarrow> Returns (parse_err t))"
    using t(2) by (auto simp: term_parse_cmd_def)
  show ?thesis
  proof (cases "tstate t = STATE_PARAM")
    case True
    then have e: "term_parse_cmd c t = parse_param c t" by (simp add: eq)
    have "too_many t c \<longleftrightarrow> c = 0x3B \<and> cparamcount t = 16"
      "too_big t c \<longleftrightarrow> is_digit c \<and> cur_param t * 10 + (uint c - 0x30) \<ge> 2 ^ 31"
      using True by (simp_all add: too_many_def too_big_def)
    then show ?thesis using parse_param_ok [OF t(1) True, of c] unfolding e by (simp only:)
  next
    case np: False
    have "\<forall>q \<in> set ((cparams t)[0 := 0]). 0 \<le> q \<and> q < 2 ^ 31"
      using t(1) set_update_subset_insert [of "cparams t" 0 0] by (auto simp: parse_ok_def)
    then show ?thesis using np t
      by (cases "tstate t")
        (auto simp: eq too_many_def too_big_def parse_err_def parsed_def parse_ok_def set_index_def)
  qed
qed

lemma printed_parse:
  assumes "printed t t'" "parse_ok t"
  shows "parse_ok t'" "tstate t' = tstate t" "last_qu_char t' = last_qu_char t"
proof -
  from assms(1) have e: "t' = t\<lparr>tfb := tfb t', cursor_x := cursor_x t', cursor_y := cursor_y t', lastch := lastch t'\<rparr>"
    by (simp add: printed_def)
  show st: "tstate t' = tstate t" "last_qu_char t' = last_qu_char t"
    using arg_cong [OF e, of tstate] arg_cong [OF e, of last_qu_char] by simp_all
  have "cparams t' = cparams t" "cparamcount t' = cparamcount t"
    using arg_cong [OF e, of cparams] arg_cong [OF e, of cparamcount] by simp_all
  with st assms(2) show "parse_ok t'" by (simp add: parse_ok_def)
qed

lemma printed_tty: "tty_ok t \<Longrightarrow> printed t t' \<Longrightarrow> cursor_ok t' \<Longrightarrow> tty_ok t'"
  by (simp add: tty_ok_def printed_geo [of t] printed_parse(1) [of t] printed_size [of t t'])

lemma putch_direct_ok:
  assumes t: "tty_ok t" and font: "length font = 4096"
  shows "if too_many t c then putch_direct font c t = Faults OutOfBounds
     else if too_big t c then putch_direct font c t = Faults IntOverflow
     else \<exists>t'. putch_direct font c t = Returns t' \<and> tty_ok t'"
proof -
  let ?t = "t\<lparr>last_qu_char := False\<rparr>"
  have t': "tty_ok ?t" and p: "parse_ok ?t" "tstate ?t \<noteq> STATE_UNKNOWN"
    using t by (auto simp: tty_ok_def geo_def cursor_ok_def parse_ok_def)
  have same: "too_many ?t c = too_many t c" "too_big ?t c = too_big t c"
    by (simp_all add: too_many_def too_big_def cur_param_def)
  note ok = parse_cmd_ok [OF p, of c, unfolded same]
  show ?thesis
  proof (cases "too_many t c \<or> too_big t c")
    case True
    with ok show ?thesis by (auto simp: putch_direct_def split: if_splits)
  next
    case False
    with ok obtain b t1 where 1: "term_parse_cmd c ?t = Returns (b, t1)" "parsed ?t t1" "parse_ok t1"
      by auto
    have ok1: "tty_ok t1" by (rule parsed_tty [OF t' 1(2,3)])
    show ?thesis
    proof (cases b)
      case True
      with 1 ok1 False show ?thesis by (simp add: putch_direct_def)
    next
      case nb: False
      from ok1 have "geo t1" "unat (twidth t1) < 2 ^ 31" "cursor_ok t1" by (auto simp: tty_ok_def)
      from term_print_ok [OF this(1,2) font this(3), of c] obtain t2 where
        "term_print font c t1 = Returns t2" "printed t1 t2" "cursor_ok t2" by blast
      with 1 nb False printed_tty [OF ok1] show ?thesis by (simp add: putch_direct_def)
    qed
  qed
qed

text \<open>
  C22: a byte sent to a terminal keeps the cursor on the screen, the frame buffer whole and the
  parser within its 16 parameters, and faults in exactly two cases: the sixteenth separator of one
  escape sequence, which writes past the parameter array, and a parameter that overflows \<open>int\<close>.
\<close>

theorem term_putch_bounds:
  assumes t: "tty_ok t" and font: "length font = 4096"
  shows "if too_many t c \<and> \<not> last_qu_char t then term_putch font c t = Faults OutOfBounds
     else if too_big t c \<and> \<not> last_qu_char t then term_putch font c t = Faults IntOverflow
     else \<exists>t'. term_putch font c t = Returns t' \<and> tty_ok t'"
proof (cases "last_qu_char t \<and> c \<noteq> 0x5B")
  case False
  have "tstate t \<noteq> STATE_UNKNOWN" using t by (simp add: tty_ok_def geo_def)
  then have eq: "term_putch font c t = putch_direct font c t"
    unfolding term_putch_def if_not_P [OF False] by simp
  show ?thesis
  proof (cases "last_qu_char t")
    case True
    with False have "\<not> too_many t c" "\<not> too_big t c"
      by (simp_all add: too_many_def too_big_def is_digit_def)
    with putch_direct_ok [OF t font, of c] True eq show ?thesis by simp
  next
    case False
    with putch_direct_ok [OF t font, of c] eq show ?thesis by simp
  qed
next
  case True
  let ?t = "t\<lparr>tstate := STATE_IDLE\<rparr>"
  have t1: "tty_ok ?t" using t by (simp add: tty_ok_def geo_def cursor_ok_def parse_ok_def)
  then have "geo ?t" "unat (twidth ?t) < 2 ^ 31" "cursor_ok ?t" by (auto simp: tty_ok_def)
  from term_print_ok [OF this(1,2) font this(3), of "0x3F"] obtain t2 where
    2: "term_print font 0x3F ?t = Returns t2" "printed ?t t2" "cursor_ok t2" by blast
  have ok2: "tty_ok t2" by (rule printed_tty [OF t1 2(2,3)])
  have "tstate t2 = STATE_IDLE" using printed_parse(2) [OF 2(2)] t1 by (simp add: tty_ok_def)
  moreover have "tty_ok (t2\<lparr>last_qu_char := False\<rparr>)"
    using ok2 by (simp add: tty_ok_def geo_def cursor_ok_def parse_ok_def)
  ultimately have "\<exists>t'. putch_direct font c (t2\<lparr>last_qu_char := False\<rparr>) = Returns t' \<and> tty_ok t'"
    using putch_direct_ok [OF _ font, of "t2\<lparr>last_qu_char := False\<rparr>" c] by (simp add: too_many_def too_big_def)
  then show ?thesis using True 2(1) t by (simp add: term_putch_def tty_ok_def geo_def)
qed


text \<open>A terminal of 4 columns and 2 lines for the witnesses, and a blank glyph table.\<close>

definition demo_font :: "u8 list" where "demo_font = replicate 4096 0"

definition demo_tty :: term_info_t where
  "demo_tty = \<lparr>tfb = \<lparr>fb_width = 32, fb_height = 32, fb_pitch = 128, fb_screen = replicate 4096 0,
                      fb_back = Some (replicate 4096 0), fb_len = 4096\<rparr>,
     fgcolor = DEFAULT_FGCOLOR, bgcolor = DEFAULT_BGCOLOR, twidth = 4, theight = 2,
     cursor_x = 0, cursor_y = 0, tstate = STATE_PARAM, cparams = replicate 16 0, cparamcount = 16,
     lastch = 0, last_qu_char = False\<rparr>"

lemma demo_tty_ok: "tty_ok demo_tty"
  by (simp add: tty_ok_def demo_tty_def geo_def fb_fits_def fb_ok_def cursor_ok_def parse_ok_def)

lemma term_putch_bounds_witness:
  "term_putch demo_font 0x3B demo_tty = Faults OutOfBounds
   \<and> (\<exists>t'. term_putch demo_font 0x6D demo_tty = Returns t' \<and> tty_ok t')"
proof -
  have d: "tstate demo_tty = STATE_PARAM" "cparamcount demo_tty = 16" "\<not> last_qu_char demo_tty"
    by (simp_all add: demo_tty_def)
  have f: "length demo_font = 4096" by (simp add: demo_font_def)
  show ?thesis
    using term_putch_bounds [OF demo_tty_ok f, of "0x3B"] term_putch_bounds [OF demo_tty_ok f, of "0x6D"]
    by (simp add: too_many_def too_big_def is_digit_def d)
qed

section \<open>Color escapes\<close>

fun putch_all :: "u8 list \<Rightarrow> u8 list \<Rightarrow> term_info_t \<Rightarrow> term_info_t outcome" where
  "putch_all font [] t = Returns t"
| "putch_all font (c # cs) t = obind (term_putch font c t) (putch_all font cs)"

definition idle :: "term_info_t \<Rightarrow> bool" where
  "idle t \<longleftrightarrow> tstate t = STATE_IDLE \<and> \<not> last_qu_char t \<and> lastch t = 0 \<and> length (cparams t) = 16"

text \<open>
  the sequence \<open>?[1Nm\<close> with N from 0 to 5, sent to an idle terminal, sets the foreground to
  the N-th color of the table; it prints nothing and leaves the terminal idle.
\<close>

theorem color_escape:
  assumes i: "idle t" and n: "n < 6"
  shows "\<exists>t'. putch_all font [0x3F, 0x5B, 0x31, 0x30 + of_nat n, 0x6D] t = Returns t' \<and> idle t'
     \<and> fgcolor t' = font_colors ! n \<and> bgcolor t' = bgcolor t \<and> tfb t' = tfb t
     \<and> cursor_x t' = cursor_x t \<and> cursor_y t' = cursor_y t"
proof -
  from i obtain p ps where ps: "cparams t = p # ps" "length ps = 15"
    by (cases "cparams t") (auto simp: idle_def)
  have "n = 0 \<or> n = 1 \<or> n = 2 \<or> n = 3 \<or> n = 4 \<or> n = 5" using n by auto
  then show ?thesis using i ps
    by (elim disjE) (simp_all add: idle_def term_putch_def putch_direct_def term_parse_cmd_def
      parse_param_def set_index_def at_index_def wr_def rd_def as_int_def parse_succ_def select_color_def)
qed

lemma color_escape_witness:
  "\<exists>t'. putch_all demo_font [0x3F, 0x5B, 0x31, 0x30 + of_nat 4, 0x6D] (demo_tty\<lparr>tstate := STATE_IDLE\<rparr>) = Returns t'
     \<and> fgcolor t' = COLOR_BLUE"
  using color_escape [of "demo_tty\<lparr>tstate := STATE_IDLE\<rparr>" 4 demo_font]
  by (auto simp: idle_def demo_tty_def font_colors_def)

end
