(* ===== verification/Keyboard.thy ===== *)
theory Keyboard
  imports Terminal Ports Fifo
begin

text \<open>
  The PS/2 keyboard (\<open>device/keyboard/keyboard.c\<close>, \<open>keycode.c\<close>): the interrupt handler with its key
  map, the ring of 128 characters between the handler and the shell, and the controller's set-up.
  The controller behind ports 0x60 and 0x64 is a parameter. Registering the handlers and unmasking
  the interrupts belong to the interrupt controller and are left out of \<open>keyboard_init\<close>.
\<close>

definition KB_BUFFER_SIZE :: u8 where "KB_BUFFER_SIZE = 128"
definition KEYBOARD_PORT_DATA :: u16 where "KEYBOARD_PORT_DATA = 0x60"
definition KEYBOARD_PORT_CMD :: u16 where "KEYBOARD_PORT_CMD = 0x64"
definition KEYBOARD_STATUS_OUTBUF_FULL :: u8 where "KEYBOARD_STATUS_OUTBUF_FULL = 1"
definition KEYBOARD_DISABLE_FIRST_PORT :: u8 where "KEYBOARD_DISABLE_FIRST_PORT = 0xAD"
definition KEYBOARD_DISABLE_SECOND_PORT :: u8 where "KEYBOARD_DISABLE_SECOND_PORT = 0xA7"
definition KEYBOARD_ENABLE_FIRST_PORT :: u8 where "KEYBOARD_ENABLE_FIRST_PORT = 0xAE"
definition KEYBOARD_ENABLE_SECOND_PORT :: u8 where "KEYBOARD_ENABLE_SECOND_PORT = 0xA8"
definition KB_CAPS_LOCK :: nat where "KB_CAPS_LOCK = 58"
definition KB_LCTRL :: nat where "KB_LCTRL = 29"
definition KB_LSHIFT :: nat where "KB_LSHIFT = 42"
definition KB_RSHIFT :: nat where "KB_RSHIFT = 54"

section \<open>The key map: \<open>keycode.c\<close>\<close>

text \<open>The plain and the shifted character of every scan code.\<close>

definition key_ascii :: "(u8 \<times> u8) list" where
  "key_ascii = [
    (0, 0), (27, 0), (49, 33), (50, 64), (51, 35), (52, 36), (53, 37), (54, 94),
    (55, 38), (56, 42), (57, 40), (48, 41), (45, 95), (61, 43), (8, 0), (9, 0),
    (113, 81), (119, 87), (101, 69), (114, 82), (116, 84), (121, 89), (117, 85), (105, 73),
    (111, 79), (112, 80), (91, 123), (93, 125), (10, 0), (0, 0), (97, 65), (115, 83),
    (100, 68), (102, 70), (103, 71), (104, 72), (106, 74), (107, 75), (108, 76), (59, 58),
    (39, 34), (96, 126), (0, 0), (92, 124), (122, 90), (120, 88), (99, 67), (118, 86),
    (98, 66), (110, 78), (109, 77), (44, 60), (46, 62), (47, 63), (0, 0), (42, 0),
    (0, 0), (32, 0), (0, 0), (0, 0), (0, 0), (0, 0), (0, 0), (0, 0),
    (0, 0), (0, 0), (0, 0), (0, 0), (0, 0), (0, 0), (0, 0), (0, 0),
    (0, 0), (0, 0), (45, 0), (0, 0), (0, 0), (0, 0), (43, 0), (0, 0),
    (0, 0), (0, 0), (0, 0), (0, 0), (0, 0), (0, 0), (0, 0), (0, 0),
    (0, 0), (0, 0), (0, 0), (0, 0), (0, 0), (0, 0), (0, 0), (0, 0),
    (0, 0), (0, 0), (0, 0), (0, 0), (0, 0), (0, 0), (0, 0), (0, 0),
    (0, 0), (0, 0), (0, 0), (0, 0), (0, 0), (0, 0), (0, 0), (0, 0),
    (0, 0), (0, 0), (0, 0), (0, 0), (0, 0), (0, 0), (0, 0), (0, 0),
    (0, 0), (0, 0), (0, 0), (0, 0), (0, 0), (0, 0), (0, 0), (0, 0)]"

definition keyboard_get_ascii :: "u8 \<Rightarrow> bool \<Rightarrow> bool \<Rightarrow> u8 outcome" where
  "keyboard_get_ascii scancode shift caps_lock =
     omap (\<lambda>(plain, shifted). if (caps_lock \<or> shift) \<and> shifted \<noteq> 0 then shifted else plain)
       (rd key_ascii (unat scancode))"

section \<open>The handler and its ring\<close>

record keyboard =
  key_pressed :: "bool list"
  last_keypress :: u8
  ptr_to_update :: "u8 list option"
  key_buffer :: "u8 list"
  buffer_length :: u8
  read_index :: u8
  write_index :: u8

definition keyboard_set_key :: "bool \<Rightarrow> u8 \<Rightarrow> keyboard \<Rightarrow> keyboard outcome" where
  "keyboard_set_key state keycode kb =
     obind (wr (key_pressed kb) (unat keycode) state) (\<lambda>ps.
       let kb = kb\<lparr>key_pressed := ps, last_keypress := (if state then keycode else 0)\<rparr> in
       case ptr_to_update kb of
         None \<Rightarrow> Returns kb
       | Some us \<Rightarrow> omap (\<lambda>us. kb\<lparr>ptr_to_update := Some us\<rparr>)
                      (wr us (unat keycode) (if state then 1 else 0)))"

definition key_down :: "keyboard \<Rightarrow> nat \<Rightarrow> bool outcome" where
  "key_down kb k = rd (key_pressed kb) k"

definition put_key :: "u8 \<Rightarrow> keyboard \<Rightarrow> keyboard outcome" where
  "put_key ch kb =
     (if buffer_length kb < KB_BUFFER_SIZE then
        omap (\<lambda>buf.
          let w = write_index kb + 1 in
          kb\<lparr>key_buffer := buf, buffer_length := buffer_length kb + 1,
             write_index := (if w = KB_BUFFER_SIZE then 0 else w)\<rparr>)
          (wr (key_buffer kb) (unat (write_index kb)) ch)
      else Returns kb)"

text \<open>Left control and shift with 1 or 2 switch between the terminals.\<close>

definition switch_key :: "u8 list \<Rightarrow> u8 \<Rightarrow> terms \<Rightarrow> terms outcome" where
  "switch_key font ch tm =
     (if ch = 0x21 \<or> ch = 0x31 then term_refresh font TERM_MODE_CLI (term_switch TERM_MODE_CLI tm)
      else if ch = 0x40 \<or> ch = 0x32 then term_refresh font TERM_MODE_INFO (term_switch TERM_MODE_INFO tm)
      else Returns tm)"

definition handle_code :: "u8 list \<Rightarrow> u8 \<Rightarrow> keyboard \<times> terms \<Rightarrow> (keyboard \<times> terms) outcome" where
  "handle_code font key_code st =
     (case st of (kb, tm) \<Rightarrow>
        let scan_code = key_code AND 0x7F; key_state = (key_code AND 0x80 = 0) in
        obind (key_down kb KB_LSHIFT) (\<lambda>ls. obind (key_down kb KB_RSHIFT) (\<lambda>rs.
        obind (key_down kb KB_CAPS_LOCK) (\<lambda>caps.
        obind (keyboard_get_ascii scan_code (ls \<or> rs) caps) (\<lambda>ch.
        obind (keyboard_set_key key_state scan_code kb) (\<lambda>kb.
          if key_state \<and> ch \<noteq> 0 then
            obind (key_down kb KB_LSHIFT) (\<lambda>ls. obind (key_down kb KB_LCTRL) (\<lambda>lc.
              if ls \<and> lc then omap (\<lambda>tm. (kb, tm)) (switch_key font ch tm)
              else omap (\<lambda>kb. (kb, tm)) (put_key ch kb)))
          else Returns (kb, tm)))))))"

definition keyboard_callback ::
  "u8 list \<Rightarrow> ('d, 'z) byte_ports_scheme \<Rightarrow> keyboard \<times> terms \<Rightarrow> 'd \<Rightarrow> ((keyboard \<times> terms) \<times> 'd) outcome"
where
  "keyboard_callback font P st d =
     (let (key_code, d) = inb P KEYBOARD_PORT_DATA d in omap (\<lambda>st. (st, d)) (handle_code font key_code st))"

definition keyboard_get_key :: "keyboard \<Rightarrow> (u8 \<times> keyboard) outcome" where
  "keyboard_get_key kb =
     (if buffer_length kb = 0 then Returns (0, kb)
      else
        omap (\<lambda>ch.
          let r = read_index kb + 1 in
          (ch, kb\<lparr>buffer_length := buffer_length kb - 1, read_index := (if r = KB_BUFFER_SIZE then 0 else r)\<rparr>))
          (rd (key_buffer kb) (unat (read_index kb))))"

section \<open>The controller\<close>

definition mouse_wait :: "('d, 'z) byte_ports_scheme \<Rightarrow> u8 \<Rightarrow> 'd \<Rightarrow> 'd" where
  "mouse_wait P type d =
     snd (poll 100000 (inb P 0x64) (if type = 0 then (\<lambda>b. b AND 1 = 1) else (\<lambda>b. b AND 2 = 0)) d)"

definition mouse_write :: "('d, 'z) byte_ports_scheme \<Rightarrow> u8 \<Rightarrow> 'd \<Rightarrow> 'd" where
  "mouse_write P w d =
     (let d = mouse_wait P 1 d; d = outb P 0x64 0xD4 d; d = mouse_wait P 1 d in outb P 0x60 w d)"

definition mouse_read :: "('d, 'z) byte_ports_scheme \<Rightarrow> 'd \<Rightarrow> u8 \<times> 'd" where
  "mouse_read P d = inb P 0x60 (mouse_wait P 0 d)"

definition flush_step :: "('d, 'z) byte_ports_scheme \<Rightarrow> 'd \<Rightarrow> ('d + 'd) outcome" where
  "flush_step P d =
     (let (b, d) = inb P KEYBOARD_PORT_CMD d in
      if b AND KEYBOARD_STATUS_OUTBUF_FULL \<noteq> 0 then Returns (Inl (snd (inb P KEYBOARD_PORT_DATA d)))
      else Returns (Inr d))"

definition mouse_setup :: "('d, 'z) byte_ports_scheme \<Rightarrow> 'd \<Rightarrow> 'd" where
  "mouse_setup P d =
     (let d = mouse_wait P 1 d;
          d = outb P 0x64 0xA8 d;
          d = mouse_wait P 1 d;
          d = outb P 0x64 0x20 d;
          d = mouse_wait P 0 d;
          (b, d) = inb P 0x60 d;
          status = b OR 2;
          d = mouse_wait P 1 d;
          d = outb P 0x64 0x60 d;
          d = mouse_wait P 1 d;
          d = outb P 0x60 status d;
          d = mouse_write P 0xF6 d;
          d = snd (mouse_read P d);
          d = mouse_write P 0xF4 d
      in snd (mouse_read P d))"

definition keyboard_init :: "('d, 'z) byte_ports_scheme \<Rightarrow> 'd \<Rightarrow> 'd outcome" where
  "keyboard_init P d =
     (let d = outb P KEYBOARD_PORT_CMD KEYBOARD_DISABLE_FIRST_PORT d;
          d = outb P KEYBOARD_PORT_CMD KEYBOARD_DISABLE_SECOND_PORT d
      in obind (loop_c (flush_step P) d) (\<lambda>d.
           let d = outb P KEYBOARD_PORT_CMD KEYBOARD_ENABLE_FIRST_PORT d;
               d = outb P KEYBOARD_PORT_CMD KEYBOARD_ENABLE_SECOND_PORT d
           in Returns (mouse_setup P d)))"

section \<open>The ring is a queue\<close>

definition kb_ok :: "keyboard \<Rightarrow> bool" where
  "kb_ok kb \<longleftrightarrow> length (key_buffer kb) = 129 \<and> unat (buffer_length kb) \<le> 128 \<and> unat (read_index kb) < 128
     \<and> unat (write_index kb) = (unat (read_index kb) + unat (buffer_length kb)) mod 128
     \<and> length (key_pressed kb) = 128 \<and> ptr_to_update kb = None"

definition kb_content :: "keyboard \<Rightarrow> u8 list" where
  "kb_content kb = map (\<lambda>k. key_buffer kb ! ((unat (read_index kb) + k) mod 128)) [0..<unat (buffer_length kb)]"

definition kb_room :: "keyboard \<Rightarrow> bool" where
  "kb_room kb \<longleftrightarrow> length (kb_content kb) < 128"

definition kb_deq :: "keyboard \<Rightarrow> (u8 option \<times> keyboard) outcome" where
  "kb_deq kb = (if buffer_length kb = 0 then Returns (None, kb)
                else omap (\<lambda>(ch, kb). (Some ch, kb)) (keyboard_get_key kb))"

lemma length_content [simp]: "length (kb_content kb) = unat (buffer_length kb)"
  by (simp add: kb_content_def)

lemma step_index: "unat (i :: u8) < 128 \<Longrightarrow> unat (if i + 1 = KB_BUFFER_SIZE then 0 else i + 1) = (unat i + 1) mod 128"
proof -
  assume i: "unat i < 128"
  then have u: "unat (i + 1) = unat i + 1" by (simp add: unat_word_ariths)
  then have "i + 1 = KB_BUFFER_SIZE \<longleftrightarrow> unat i + 1 = 128"
    by (simp add: word_unat_eq_iff KB_BUFFER_SIZE_def)
  with i u show ?thesis by auto
qed

lemma put_key_ok:
  assumes ok: "kb_ok kb" and r: "unat (buffer_length kb) < 128"
  shows "\<exists>kb'. put_key ch kb = Returns kb' \<and> kb_ok kb' \<and> kb_content kb' = kb_content kb @ [ch]
     \<and> key_pressed kb' = key_pressed kb"
proof -
  let ?w = "unat (write_index kb)" and ?r = "unat (read_index kb)" and ?n = "unat (buffer_length kb)"
  have w: "?w < 128" "?w = (?r + ?n) mod 128" and l: "length (key_buffer kb) = 129"
    using ok by (auto simp: kb_ok_def)
  let ?kb = "kb\<lparr>key_buffer := (key_buffer kb)[?w := ch], buffer_length := buffer_length kb + 1,
             write_index := (if write_index kb + 1 = KB_BUFFER_SIZE then 0 else write_index kb + 1)\<rparr>"
  have "put_key ch kb = Returns ?kb"
    using r w l by (simp add: put_key_def KB_BUFFER_SIZE_def word_less_nat_alt Let_def)
  moreover have n: "unat (buffer_length kb + 1) = ?n + 1" using r by (simp add: unat_word_ariths)
  moreover have "kb_ok ?kb"
    using ok r w(2) step_index [OF w(1)] by (simp add: kb_ok_def n mod_simps)
  moreover have "kb_content ?kb = kb_content kb @ [ch]"
  proof -
    have "(?r + k) mod 128 \<noteq> ?w" if "k < ?n" for k
    proof
      assume "(?r + k) mod 128 = ?w"
      then have "(?r + ?n) mod 128 = (?r + k) mod 128" using w(2) by simp
      then have "(?n - k) mod 128 = 0"
        using that by (metis add_diff_cancel_left diff_add_inverse mod_eq_dvd_iff_nat nat_add_left_cancel_le less_imp_le dvd_imp_mod_0)
      with that r show False by simp
    qed
    then have "map (\<lambda>k. (key_buffer kb)[?w := ch] ! ((?r + k) mod 128)) [0..<?n] = kb_content kb"
      unfolding kb_content_def by (intro map_cong refl nth_list_update_neq) (metis atLeastLessThan_iff set_upt)
    moreover have "(key_buffer kb)[?w := ch] ! ((?r + ?n) mod 128) = ch"
      unfolding w(2) [symmetric] using w(1) l by simp
    moreover have "kb_content ?kb = map (\<lambda>k. (key_buffer kb)[?w := ch] ! ((?r + k) mod 128)) [0..<?n]
        @ [(key_buffer kb)[?w := ch] ! ((?r + ?n) mod 128)]"
      by (simp add: kb_content_def n)
    ultimately show ?thesis by simp
  qed
  ultimately show ?thesis by auto
qed


lemma get_key_ok:
  assumes ok: "kb_ok kb" and c: "kb_content kb = x # xs"
  shows "\<exists>kb'. keyboard_get_key kb = Returns (x, kb') \<and> kb_ok kb' \<and> kb_content kb' = xs
     \<and> key_pressed kb' = key_pressed kb"
proof -
  let ?r = "unat (read_index kb)" and ?n = "unat (buffer_length kb)"
  have r: "?r < 128" and l: "length (key_buffer kb) = 129"
    and w: "unat (write_index kb) = (?r + ?n) mod 128" "?n \<le> 128"
    using ok by (auto simp: kb_ok_def)
  have n: "0 < ?n" using arg_cong [OF c, of length] by simp
  then have nz: "buffer_length kb \<noteq> 0" by auto
  have n1: "unat (buffer_length kb - 1) = ?n - 1" using n by (simp add: unat_sub word_le_nat_alt)
  let ?kb = "kb\<lparr>buffer_length := buffer_length kb - 1,
     read_index := (if read_index kb + 1 = KB_BUFFER_SIZE then 0 else read_index kb + 1)\<rparr>"
  have x: "key_buffer kb ! ?r = x" and xs: "xs = map (\<lambda>k. key_buffer kb ! ((?r + k) mod 128)) [1..<?n]"
    using c n r by (auto simp: kb_content_def upt_conv_Cons)
  have "keyboard_get_key kb = Returns (x, ?kb)"
    using nz r l x by (simp add: keyboard_get_key_def Let_def)
  moreover have ri: "unat (read_index ?kb) = (?r + 1) mod 128" using step_index [OF r] by simp
  have "(?r + 1) mod 128 + (?n - 1) = ?r + ?n \<or> (?r = 127 \<and> (?r + 1) mod 128 + (?n - 1) + 128 = ?r + ?n)"
    using r n by (cases "?r = 127") auto
  then have "((?r + 1) mod 128 + (?n - 1)) mod 128 = (?r + ?n) mod 128"
    by (metis mod_add_self2)
  then have "kb_ok ?kb" using ok ri w n1 by (simp add: kb_ok_def)
  moreover have "kb_content ?kb = xs"
  proof -
    have "map (\<lambda>k. key_buffer kb ! (((?r + 1) mod 128 + k) mod 128)) [0..<?n - 1]
        = map (\<lambda>k. key_buffer kb ! ((?r + k) mod 128)) (map Suc [0..<?n - 1])"
      by (simp add: mod_simps add.assoc)
    also have "map Suc [0..<?n - 1] = [1..<?n]" using n by (simp add: map_Suc_upt)
    finally show ?thesis using ri by (simp add: kb_content_def n1 xs)
  qed
  ultimately show ?thesis by auto
qed

interpretation kbq: fifo "\<lambda>kb ch. put_key ch kb" kb_deq kb_ok kb_content kb_room
proof
  fix kb ch kb' assume "kb_ok kb" "kb_room kb" "put_key ch kb = Returns kb'"
  then show "kb_ok kb' \<and> kb_content kb' = kb_content kb @ [ch]"
    using put_key_ok [of kb ch] by (auto simp: kb_room_def)
next
  fix kb assume "kb_ok kb" "kb_content kb = []"
  then have "buffer_length kb = 0" using length_content [of kb] by (simp del: length_content add: kb_content_def unat_eq_0)
  then show "kb_deq kb = Returns (None, kb)" by (simp add: kb_deq_def)
next
  fix kb x xs assume a: "kb_ok kb" "kb_content kb = x # xs"
  then have "buffer_length kb \<noteq> 0" by (auto simp: kb_content_def)
  with get_key_ok [OF a] show "\<exists>s'. kb_deq kb = Returns (Some x, s') \<and> kb_ok s' \<and> kb_content s' = xs"
    by (auto simp: kb_deq_def)
qed

section \<open>Typing\<close>

text \<open>The character a make code stands for under the held modifiers, 0 for none.\<close>

definition typed_char :: "keyboard \<Rightarrow> u8 \<Rightarrow> u8" where
  "typed_char kb code =
     (if code AND 0x80 \<noteq> 0 then 0
      else let (plain, shifted) = key_ascii ! unat (code AND 0x7F);
               up = key_pressed kb ! KB_LSHIFT \<or> key_pressed kb ! KB_RSHIFT \<or> key_pressed kb ! KB_CAPS_LOCK
           in if up \<and> shifted \<noteq> 0 then shifted else plain)"

definition modifier :: "u8 \<Rightarrow> bool" where
  "modifier code \<longleftrightarrow> unat (code AND 0x7F) \<in> {KB_CAPS_LOCK, KB_LCTRL, KB_LSHIFT, KB_RSHIFT}"

definition typed :: "keyboard \<Rightarrow> u8 list \<Rightarrow> u8 list" where
  "typed kb codes = filter (\<lambda>c. c \<noteq> 0) (map (typed_char kb) codes)"

fun handle_codes :: "u8 list \<Rightarrow> u8 list \<Rightarrow> keyboard \<times> terms \<Rightarrow> (keyboard \<times> terms) outcome" where
  "handle_codes font [] st = Returns st"
| "handle_codes font (c # cs) st = obind (handle_code font c st) (handle_codes font cs)"

lemma scan_small: "unat ((code :: u8) AND 0x7F) < 128"
proof -
  have "code AND 0x7F \<le> 0x7F" by (rule word_and_le1)
  then show ?thesis by (simp add: word_le_nat_alt)
qed

lemma length_key_ascii: "length key_ascii = 128"
  by (simp add: key_ascii_def)

definition same_mods :: "keyboard \<Rightarrow> keyboard \<Rightarrow> bool" where
  "same_mods a b \<longleftrightarrow> (\<forall>k \<in> {KB_CAPS_LOCK, KB_LCTRL, KB_LSHIFT, KB_RSHIFT}. key_pressed a ! k = key_pressed b ! k)"

lemma handle_code_ok:
  assumes ok: "kb_ok kb" and m: "\<not> modifier code"
    and hot: "\<not> (key_pressed kb ! KB_LSHIFT \<and> key_pressed kb ! KB_LCTRL)"
  shows "\<exists>kb'. handle_code font code (kb, tm) = Returns (kb', tm) \<and> kb_ok kb' \<and> same_mods kb kb'
     \<and> kb_content kb' = (if typed_char kb code \<noteq> 0 \<and> length (kb_content kb) < 128
                         then kb_content kb @ [typed_char kb code] else kb_content kb)"
proof -
  let ?c = "code AND 0x7F" and ?st = "code AND 0x80 = 0"
  define ch where "ch = (let (plain, shifted) = key_ascii ! unat ?c;
               up = key_pressed kb ! KB_LSHIFT \<or> key_pressed kb ! KB_RSHIFT \<or> key_pressed kb ! KB_CAPS_LOCK
           in if up \<and> shifted \<noteq> 0 then shifted else plain)"
  define kb1 where "kb1 = kb\<lparr>key_pressed := (key_pressed kb)[unat ?c := ?st],
      last_keypress := (if ?st then ?c else 0)\<rparr>"
  have l: "length (key_pressed kb) = 128" "ptr_to_update kb = None" using ok by (auto simp: kb_ok_def)
  have down: "key_down kb k = Returns (key_pressed kb ! k)" "key_down kb1 k = Returns (key_pressed kb1 ! k)"
    if "k < 128" for k
    using l that by (simp_all add: key_down_def kb1_def)
  have ascii: "keyboard_get_ascii ?c (key_pressed kb ! KB_LSHIFT \<or> key_pressed kb ! KB_RSHIFT)
      (key_pressed kb ! KB_CAPS_LOCK) = Returns ch"
    using scan_small [of code] by (auto simp: keyboard_get_ascii_def length_key_ascii ch_def Let_def split: prod.splits)
  have set: "keyboard_set_key ?st ?c kb = Returns kb1"
    using scan_small [of code] l by (simp add: keyboard_set_key_def kb1_def Let_def)
  have ok1: "kb_ok kb1" and c1: "kb_content kb1 = kb_content kb"
    using ok by (simp_all add: kb_ok_def kb1_def kb_content_def)
  have sm: "same_mods kb kb1"
    using m by (auto simp: same_mods_def kb1_def modifier_def)
  have char: "typed_char kb code = (if ?st then ch else 0)" by (simp add: typed_char_def ch_def)
  have h: "handle_code font code (kb, tm) = (if ?st \<and> ch \<noteq> 0 then omap (\<lambda>kb. (kb, tm)) (put_key ch kb1)
        else Returns (kb1, tm))"
  proof -
    have "\<not> (key_pressed kb1 ! KB_LSHIFT \<and> key_pressed kb1 ! KB_LCTRL)"
      using sm hot by (auto simp: same_mods_def)
    moreover have "key_down kb KB_LSHIFT = Returns (key_pressed kb ! KB_LSHIFT)"
      "key_down kb KB_RSHIFT = Returns (key_pressed kb ! KB_RSHIFT)"
      "key_down kb KB_CAPS_LOCK = Returns (key_pressed kb ! KB_CAPS_LOCK)"
      "key_down kb1 KB_LSHIFT = Returns (key_pressed kb1 ! KB_LSHIFT)"
      "key_down kb1 KB_LCTRL = Returns (key_pressed kb1 ! KB_LCTRL)"
      by (simp_all add: down KB_CAPS_LOCK_def KB_LCTRL_def KB_LSHIFT_def KB_RSHIFT_def)
    ultimately show ?thesis by (auto simp: handle_code_def Let_def ascii set)
  qed
  show ?thesis
  proof (cases "?st \<and> ch \<noteq> 0 \<and> unat (buffer_length kb1) < 128")
    case True
    from put_key_ok [OF ok1, of ch] True obtain kb2 where "put_key ch kb1 = Returns kb2" "kb_ok kb2"
      "kb_content kb2 = kb_content kb1 @ [ch]" "key_pressed kb2 = key_pressed kb1" by auto
    moreover have "buffer_length kb1 = buffer_length kb" by (simp add: kb1_def)
    ultimately show ?thesis using True sm by (auto simp: h char c1 same_mods_def)
  next
    case False
    have "put_key ch kb1 = Returns kb1" if "\<not> unat (buffer_length kb1) < 128"
      using that by (simp add: put_key_def KB_BUFFER_SIZE_def word_less_nat_alt)
    moreover have "buffer_length kb1 = buffer_length kb" by (simp add: kb1_def)
    ultimately show ?thesis using False ok1 sm c1 by (auto simp: h char)
  qed
qed


lemma same_mods_char: "same_mods a b \<Longrightarrow> typed_char b c = typed_char a c"
  by (simp add: same_mods_def typed_char_def)

lemma handle_codes_ok:
  assumes "kb_ok kb" "\<forall>c \<in> set codes. \<not> modifier c"
    and "\<not> (key_pressed kb ! KB_LSHIFT \<and> key_pressed kb ! KB_LCTRL)"
  shows "\<exists>kb'. handle_codes font codes (kb, tm) = Returns (kb', tm) \<and> kb_ok kb'
     \<and> kb_content kb' = take 128 (kb_content kb @ typed kb codes)"
  using assms
proof (induction codes arbitrary: kb)
  case Nil
  then have "length (kb_content kb) \<le> 128" by (simp add: kb_ok_def)
  with Nil show ?case by (simp add: typed_def)
next
  case (Cons c cs)
  from handle_code_ok [OF Cons.prems(1) _ Cons.prems(3), of c font tm] Cons.prems(2) obtain kb1 where
    1: "handle_code font c (kb, tm) = Returns (kb1, tm)" "kb_ok kb1" "same_mods kb kb1"
    "kb_content kb1 = (if typed_char kb c \<noteq> 0 \<and> length (kb_content kb) < 128
                         then kb_content kb @ [typed_char kb c] else kb_content kb)" by auto
  have m: "\<not> (key_pressed kb1 ! KB_LSHIFT \<and> key_pressed kb1 ! KB_LCTRL)"
    using Cons.prems(3) 1(3) by (auto simp: same_mods_def)
  have "typed_char kb1 = typed_char kb" using same_mods_char [OF 1(3)] by (intro ext)
  then have ty: "typed kb1 cs = typed kb cs" by (simp add: typed_def)
  from Cons.IH [OF 1(2) _ m] Cons.prems(2) obtain kb2 where
    2: "handle_codes font cs (kb1, tm) = Returns (kb2, tm)" "kb_ok kb2"
    "kb_content kb2 = take 128 (kb_content kb1 @ typed kb cs)" by (auto simp: ty)
  have "length (kb_content kb) \<le> 128" using Cons.prems(1) by (simp add: kb_ok_def)
  then have "take 128 (kb_content kb1 @ typed kb cs) = take 128 (kb_content kb @ typed kb (c # cs))"
    by (auto simp: 1(4) typed_def take_Cons' diff_diff_eq)
  with 1(1) 2 show ?case by auto
qed

text \<open>
  C14: what is typed without touching the modifier keys arrives in the ring in order, up to the 128
  characters it holds (the rest is dropped), the terminals are left alone, and the reader gets
  exactly these characters in that order.
\<close>

theorem typing_order:
  assumes "kb_ok kb" "\<forall>c \<in> set codes. \<not> modifier c"
    and "\<not> (key_pressed kb ! KB_LSHIFT \<and> key_pressed kb ! KB_LCTRL)"
  shows "\<exists>kb' kb''. handle_codes font codes (kb, tm) = Returns (kb', tm)
     \<and> kb_content kb' = take 128 (kb_content kb @ typed kb codes)
     \<and> deqs kb_deq (length (kb_content kb')) kb' = Returns (kb_content kb', kb'') \<and> kb_content kb'' = []"
  using handle_codes_ok [OF assms, of font tm] kbq.drain by metis

definition demo_kb :: keyboard where
  "demo_kb = \<lparr>key_pressed = (replicate 128 False)[KB_RSHIFT := True], last_keypress = 0, ptr_to_update = None,
     key_buffer = replicate 129 0, buffer_length = 0, read_index = 120, write_index = 120\<rparr>"

lemma typing_order_witness:
  "\<forall>tm. \<exists>kb' kb''. handle_codes demo_font [0x23, 0xA3, 0x17] (demo_kb, tm) = Returns (kb', tm)
     \<and> deqs kb_deq 2 kb' = Returns ([0x48, 0x49], kb'')"
  (is "\<forall>tm. ?P tm")
proof (intro allI)
  fix tm
  have a: "kb_ok demo_kb" by (simp add: kb_ok_def demo_kb_def)
  have b: "\<forall>c \<in> set [0x23, 0xA3, 0x17]. \<not> modifier c"
    by (simp add: modifier_def KB_CAPS_LOCK_def KB_LCTRL_def KB_LSHIFT_def KB_RSHIFT_def)
  have c: "\<not> (key_pressed demo_kb ! KB_LSHIFT \<and> key_pressed demo_kb ! KB_LCTRL)"
    by (simp add: demo_kb_def KB_LCTRL_def KB_LSHIFT_def KB_RSHIFT_def)
  have d: "kb_content demo_kb @ typed demo_kb [0x23, 0xA3, 0x17] = [0x48, 0x49]"
    by (simp add: typed_def typed_char_def demo_kb_def kb_content_def key_ascii_def KB_RSHIFT_def)
  from typing_order [OF a b c, of demo_font tm] obtain kb' kb'' where
    e: "handle_codes demo_font [0x23, 0xA3, 0x17] (demo_kb, tm) = Returns (kb', tm)"
    "kb_content kb' = take 128 (kb_content demo_kb @ typed demo_kb [0x23, 0xA3, 0x17])"
    "deqs kb_deq (length (kb_content kb')) kb' = Returns (kb_content kb', kb'')" by blast
  have k: "kb_content kb' = [0x48, 0x49]" unfolding e(2) d by simp
  have l: "length ([0x48, 0x49] :: 8 word list) = 2" by simp
  from e(1) e(3) show "?P tm" unfolding k l by blast
qed

end
