(* ===== verification/Klog.thy ===== *)
theory Klog
  imports Terminal Calendar
begin

text \<open>
  The kernel log (\<open>lib/klog.c\<close>, \<open>klog.h\<close>): one ring of characters per terminal, the formatter
  behind \<open>klog_vprintf\<close> and \<open>kprintf\<close>, and the replay of a ring onto its terminal. A C string is
  the list of the bytes of its object, the terminator included, so that reading past the object is
  a fault. The two log locks make each call one step (\<open>Spinlock\<close>) and are left out here.
\<close>

section \<open>The rings\<close>

definition KLOG_BUFFER_SIZE :: int where "KLOG_BUFFER_SIZE = 65536"

datatype klog_level = KLOG_LEVEL_VERBOSE | KLOG_LEVEL_DEBUG | KLOG_LEVEL_INFO
  | KLOG_LEVEL_WARN | KLOG_LEVEL_ERROR | KLOG_LEVEL_UNK

text \<open>The code compares levels by their position in the enumeration.\<close>

fun level_no :: "klog_level \<Rightarrow> nat" where
  "level_no KLOG_LEVEL_VERBOSE = 0"
| "level_no KLOG_LEVEL_DEBUG = 1"
| "level_no KLOG_LEVEL_INFO = 2"
| "level_no KLOG_LEVEL_WARN = 3"
| "level_no KLOG_LEVEL_ERROR = 4"
| "level_no KLOG_LEVEL_UNK = 5"

lemma level_no_inject [simp]: "level_no a = level_no b \<longleftrightarrow> a = b"
  by (cases a; cases b) auto

instantiation klog_level :: linorder
begin

definition less_eq_klog_level :: "klog_level \<Rightarrow> klog_level \<Rightarrow> bool" where
  "a \<le> b \<longleftrightarrow> level_no a \<le> level_no b"

definition less_klog_level :: "klog_level \<Rightarrow> klog_level \<Rightarrow> bool" where
  "a < b \<longleftrightarrow> level_no a < level_no b"

instance
  by standard (auto simp: less_eq_klog_level_def less_klog_level_def)

end

record klog_info_t =
  kbuff :: "u8 list"
  kstart :: int
  kend :: int

record klogs =
  klog_info :: klog_info_t
  klog_cli :: klog_info_t

definition sel_log :: "int \<Rightarrow> klogs \<Rightarrow> klog_info_t" where
  "sel_log mode ks = (if mode = TERM_MODE_INFO then klog_info ks else klog_cli ks)"

definition set_log :: "int \<Rightarrow> klog_info_t \<Rightarrow> klogs \<Rightarrow> klogs" where
  "set_log mode k ks = (if mode = TERM_MODE_INFO then ks\<lparr>klog_info := k\<rparr> else ks\<lparr>klog_cli := k\<rparr>)"

definition klog_init :: klogs where
  "klog_init =
     (let k = \<lparr>kbuff = replicate (nat KLOG_BUFFER_SIZE) 0, kstart = 0, kend = 0\<rparr>
      in \<lparr>klog_info = k, klog_cli = k\<rparr>)"

definition ring_put :: "u8 \<Rightarrow> klog_info_t \<Rightarrow> klog_info_t outcome" where
  "ring_put c k =
     omap (\<lambda>b. let e = (if kend k + 1 \<ge> KLOG_BUFFER_SIZE then 0 else kend k + 1);
                   s = (if e = kstart k then kstart k + 1 else kstart k)
               in k\<lparr>kbuff := b, kend := e, kstart := (if s \<ge> KLOG_BUFFER_SIZE then 0 else s)\<rparr>)
       (set_index (kbuff k) (kend k) c)"

definition klog_putch :: "u8 list \<Rightarrow> int \<Rightarrow> u8 \<Rightarrow> klogs \<times> terms \<Rightarrow> (klogs \<times> terms) outcome" where
  "klog_putch font mode c st =
     obind (ring_put c (sel_log mode (fst st))) (\<lambda>k.
       omap (\<lambda>tm. (set_log mode k (fst st), tm)) (on_term mode (term_putch font c) (snd st)))"

fun klog_putchs :: "u8 list \<Rightarrow> int \<Rightarrow> u8 list \<Rightarrow> klogs \<times> terms \<Rightarrow> (klogs \<times> terms) outcome" where
  "klog_putchs font mode [] st = Returns st"
| "klog_putchs font mode (c # cs) st = obind (klog_putch font mode c st) (klog_putchs font mode cs)"

text \<open>The replay: the string ends just before \<open>kend\<close>.\<close>

definition replay_step :: "u8 list \<Rightarrow> int \<Rightarrow> klog_info_t \<Rightarrow> int \<times> terms \<Rightarrow> (int \<times> terms + terms) outcome" where
  "replay_step font mode k st =
     (let i = (if fst st \<ge> KLOG_BUFFER_SIZE then 0 else fst st) in
      if (if kend k \<ge> kstart k then i \<ge> kend k else i \<ge> kend k \<and> i < kstart k) then Returns (Inr (snd st))
      else obind (at_index (kbuff k) i) (\<lambda>c.
        omap (\<lambda>tm. Inl (i + 1, tm)) (on_term mode (term_putch font c) (snd st))))"

definition klog_refresh :: "u8 list \<Rightarrow> int \<Rightarrow> klogs \<times> terms \<Rightarrow> (klogs \<times> terms) outcome" where
  "klog_refresh font mode st =
     omap (Pair (fst st))
       (obind (if term_active_mode (snd st) = TERM_MODE_UNKNOWN then
                 obind (on_term mode term_clear (snd st)) (\<lambda>tm.
                   loop_c (replay_step font mode (sel_log mode (fst st))) (kstart (sel_log mode (fst st)), tm))
               else Returns (snd st))
          (term_refresh font mode))"

section \<open>The conversions\<close>

fun cstr_chars :: "u8 list \<Rightarrow> u8 list outcome" where
  "cstr_chars [] = Faults OutOfBounds"
| "cstr_chars (c # cs) = (if c = 0 then Returns [] else omap (Cons c) (cstr_chars cs))"

definition klog_puts :: "u8 list \<Rightarrow> int \<Rightarrow> u8 list \<Rightarrow> int \<Rightarrow> klogs \<times> terms \<Rightarrow> (klogs \<times> terms) outcome" where
  "klog_puts font mode s width st =
     obind (cstr_chars s) (\<lambda>cs. klog_putchs font mode (cs @ replicate (nat (width - int (length cs))) 0x20) st)"

definition hex_char :: "u64 \<Rightarrow> u8" where
  "hex_char digit = (if digit \<le> 9 then ucast digit + 0x30 else ucast digit - 10 + 0x41)"

text \<open>Round \<open>j\<close> of the sixteen has \<open>i = 60 - 4 * j\<close> and \<open>cnt = j + 1\<close>; \<open>cnt + width\<close> is an \<open>int\<close>.\<close>

definition hex_chars :: "u64 \<Rightarrow> int \<Rightarrow> u8 list outcome" where
  "hex_chars n width =
     (if width > 0 \<and> width + 16 \<ge> 2 ^ 31 then Faults IntOverflow
      else Returns (map (\<lambda>j. hex_char (drop_bit (60 - 4 * j) n AND 0xF))
             (filter (\<lambda>j. \<not> (width > 0 \<and> int (j + 1) + width \<le> 16)) [0..<16])))"

definition klog_puthex :: "u8 list \<Rightarrow> int \<Rightarrow> u64 \<Rightarrow> int \<Rightarrow> klogs \<times> terms \<Rightarrow> (klogs \<times> terms) outcome" where
  "klog_puthex font mode n width st = obind (hex_chars n width) (\<lambda>cs. klog_putchs font mode cs st)"

text \<open>The field width of a number: \<open>i\<close> runs through 9, 99, 999, ... and wraps.\<close>

definition width_step :: "int \<Rightarrow> int \<times> u64 \<Rightarrow> (int \<times> u64 + int) outcome" where
  "width_step n_val st =
     (let (n_width, i) = st in
      if n_val > sint i \<and> i < - 1 then Returns (Inl (n_width + 1, i * 10 + 9)) else Returns (Inr n_width))"

function div_loop :: "u64 \<Rightarrow> u64 \<Rightarrow> u64" where
  "div_loop temp dv = (if temp > 0 then div_loop (temp div 10) (dv * 10) else dv)"
  by pat_completeness auto
termination
  by (relation "measure (\<lambda>(temp, dv). unat temp)") (auto simp: unat_div_distrib word_less_nat_alt)

function digit_loop :: "u64 \<Rightarrow> u64 \<Rightarrow> u8 list" where
  "digit_loop n dv =
     (if dv \<ge> 10 then
        (ucast ((n mod dv - n mod (dv div 10)) div (dv div 10)) + 0x30) # digit_loop n (dv div 10)
      else [])"
  by pat_completeness auto
termination
  by (relation "measure (\<lambda>(n, dv). unat dv)") (auto simp: unat_div_distrib word_less_nat_alt word_le_nat_alt)

declare div_loop.simps [simp del] digit_loop.simps [simp del]

definition int_chars :: "int \<Rightarrow> int \<Rightarrow> bool \<Rightarrow> u8 list outcome" where
  "int_chars n width zero_filling =
     (if n = - (2 ^ 63) then Faults IntOverflow
      else obind (loop_c (width_step \<bar>n\<bar>) (1, 9)) (\<lambda>w.
        let n_width = (if n < 0 then w - 1 else w); m = of_int \<bar>n\<bar>
        in Returns ((if n < 0 then [0x2D] else [])
             @ replicate (nat (width - n_width)) (if zero_filling then 0x30 else 0x20)
             @ (if n = 0 then [0x30] else []) @ digit_loop m (div_loop m 1))))"

definition klog_putint :: "u8 list \<Rightarrow> int \<Rightarrow> int \<Rightarrow> int \<Rightarrow> bool \<Rightarrow> klogs \<times> terms \<Rightarrow> (klogs \<times> terms) outcome" where
  "klog_putint font mode n width zero_filling st =
     obind (int_chars n width zero_filling) (\<lambda>cs. klog_putchs font mode cs st)"

section \<open>The formatter\<close>

text \<open>
  A variadic argument is an 8-byte integer or a string. Taking an argument that is not there, or
  one of the other kind, is undefined.
\<close>

datatype karg = Num u64 | Str "u8 list"

definition c_lit :: "string \<Rightarrow> u8 list" where
  "c_lit s = map of_char s @ [0]"

fun read_width :: "u32 \<Rightarrow> u8 list \<Rightarrow> (u32 \<times> u8 list) outcome" where
  "read_width w [] = Faults OutOfBounds"
| "read_width w (c # cs) =
     (if c \<ge> 0x30 \<and> c \<le> 0x39 then read_width (w * 10 + (ucast c - 0x30)) cs else Returns (w, c # cs))"

definition convert :: "u8 list \<Rightarrow> int \<Rightarrow> u8 \<Rightarrow> int \<Rightarrow> bool \<Rightarrow> karg list \<Rightarrow> klogs \<times> terms
    \<Rightarrow> (karg list \<times> klogs \<times> terms) outcome" where
  "convert font mode c width zero_filling args st =
     (if c = 0x25 then omap (Pair args) (klog_putch font mode 0x25 st)
      else if c = 0x64 then
        (case args of Num n # as \<Rightarrow> omap (Pair as) (klog_putint font mode (sint n) width zero_filling st)
         | _ \<Rightarrow> Faults OutOfBounds)
      else if c = 0x78 then
        (case args of Num n # as \<Rightarrow> omap (Pair as) (klog_puthex font mode n width st)
         | _ \<Rightarrow> Faults OutOfBounds)
      else if c = 0x73 then
        (case args of Str s # as \<Rightarrow> omap (Pair as) (klog_puts font mode s width st)
         | _ \<Rightarrow> Faults OutOfBounds)
      else if c = 0x63 then
        (case args of Num n # as \<Rightarrow> omap (Pair as) (klog_putch font mode (ucast n) st)
         | _ \<Rightarrow> Faults OutOfBounds)
      else if c = 0x62 then
        (case args of Num n # as \<Rightarrow>
           omap (Pair as) (klog_puts font mode (c_lit (if (ucast n :: u32) \<noteq> 0 then ''true'' else ''false'')) 0 st)
         | _ \<Rightarrow> Faults OutOfBounds)
      else Returns (args, st))"

lemma read_width_shorter: "read_width w cs = Returns (w', c # rest) \<Longrightarrow> length rest < length cs"
  by (induction w cs rule: read_width.induct) (auto split: if_splits)

text \<open>
  The byte after the width is skipped whatever it is; when it is the terminator, the loop goes on
  with the bytes behind it.
\<close>

function klog_vprintf_core :: "u8 list \<Rightarrow> int \<Rightarrow> u8 list \<Rightarrow> karg list \<Rightarrow> klogs \<times> terms
    \<Rightarrow> (klogs \<times> terms) outcome" where
  "klog_vprintf_core font mode [] args st = Faults OutOfBounds"
| "klog_vprintf_core font mode (c # s) args st =
     (if c = 0 then Returns st
      else if c = 0x25 then
        obind (read_width 0 s) (\<lambda>(w, r). case r of
            [] \<Rightarrow> Faults OutOfBounds
          | d # rest \<Rightarrow>
              obind (convert font mode d (sint w) (hd s = 0x30) args st) (\<lambda>(args, st).
                klog_vprintf_core font mode rest args st))
      else obind (klog_putch font mode c st) (klog_vprintf_core font mode s args))"
  by pat_completeness auto
termination
  by (relation "measure (\<lambda>(font, mode, s, args, st). length s)") (auto dest: read_width_shorter)

declare klog_vprintf_core.simps [simp del]

section \<open>The two entry points\<close>

text \<open>
  What a log line reads from the machine: the HPET count twice, the boot time, the CMOS clock and
  the CPU it runs on.
\<close>

record log_env =
  nanos_sec :: u64
  nanos_ms :: u64
  boot_time :: u64
  rtc_now :: cmos_rtc
  log_cpu :: "u16 option"

definition log_time :: "log_env \<Rightarrow> tm outcome" where
  "log_time env =
     omap (\<lambda>t. if boot_time env = 0 then
         t\<lparr>tm_year := uint (rtc_year (rtc_now env)) - 1900, tm_mon := uint (rtc_month (rtc_now env)) - 1,
           tm_mday := uint (rtc_day (rtc_now env)), tm_hour := uint (rtc_hours (rtc_now env)),
           tm_min := uint (rtc_minutes (rtc_now env)), tm_sec := uint (rtc_seconds (rtc_now env))\<rparr> else t)
       (localtime (nanos_sec env div 1000000000 + boot_time env) zero_tm)"

definition log_stamp :: "u8 list \<Rightarrow> log_env \<Rightarrow> klogs \<times> terms \<Rightarrow> (klogs \<times> terms) outcome" where
  "log_stamp font env st =
     obind (log_time env) (\<lambda>t.
     obind (klog_vprintf_core font TERM_MODE_INFO (c_lit ''%04d-%02d-%02d %02d:%02d:%02d %03d '')
              (map (\<lambda>x. Num (of_int x)) [1900 + tm_year t, tm_mon t + 1, tm_mday t, tm_hour t, tm_min t, tm_sec t]
               @ [Num ((nanos_ms env div 1000000) mod 1000)]) st)
       (case log_cpu env of
          Some c \<Rightarrow> klog_vprintf_core font TERM_MODE_INFO (c_lit ''%02d '') [Num (ucast c)]
        | None \<Rightarrow> klog_vprintf_core font TERM_MODE_INFO (c_lit ''-- '') []))"

fun level_tag :: "klog_level \<Rightarrow> string" where
  "level_tag KLOG_LEVEL_VERBOSE = ''?[15;1m[VERB] ?[0m ''"
| "level_tag KLOG_LEVEL_DEBUG = ''?[15;1m[DEBUG]?[0m ''"
| "level_tag KLOG_LEVEL_INFO = ''?[12;1m[INFO] ?[0m ''"
| "level_tag KLOG_LEVEL_WARN = ''?[13;1m[WARN] ?[0m ''"
| "level_tag KLOG_LEVEL_ERROR = ''?[11;1m[ERROR]?[0m ''"
| "level_tag KLOG_LEVEL_UNK = []"

definition klog_vprintf :: "u8 list \<Rightarrow> log_env \<Rightarrow> klog_level \<Rightarrow> u8 list \<Rightarrow> karg list \<Rightarrow> klogs \<times> terms
    \<Rightarrow> (klogs \<times> terms) outcome" where
  "klog_vprintf font env level s args st =
     obind (if level < KLOG_LEVEL_UNK then log_stamp font env st else Returns st) (\<lambda>st.
     obind (klog_vprintf_core font TERM_MODE_INFO (c_lit (level_tag level)) [] st) (\<lambda>st.
     obind (klog_vprintf_core font TERM_MODE_INFO s args st) (klog_refresh font TERM_MODE_INFO)))"

text \<open>The macros of \<open>klog.h\<close>, on string literals; a line feed and a tab of a literal are written out.\<close>

definition NEWLINE :: string where "NEWLINE = [CHR 0x0A]"

definition TABCH :: string where "TABCH = [CHR 0x09]"

definition klogi :: "u8 list \<Rightarrow> log_env \<Rightarrow> string \<Rightarrow> karg list \<Rightarrow> klogs \<times> terms \<Rightarrow> (klogs \<times> terms) outcome" where
  "klogi font env s args = klog_vprintf font env KLOG_LEVEL_INFO (c_lit s) args"

definition klogw :: "u8 list \<Rightarrow> log_env \<Rightarrow> string \<Rightarrow> karg list \<Rightarrow> klogs \<times> terms \<Rightarrow> (klogs \<times> terms) outcome" where
  "klogw font env s args = klog_vprintf font env KLOG_LEVEL_WARN (c_lit s) args"

definition kloge :: "u8 list \<Rightarrow> log_env \<Rightarrow> string \<Rightarrow> karg list \<Rightarrow> klogs \<times> terms \<Rightarrow> (klogs \<times> terms) outcome" where
  "kloge font env s args = klog_vprintf font env KLOG_LEVEL_ERROR (c_lit s) args"

definition klogu :: "u8 list \<Rightarrow> log_env \<Rightarrow> string \<Rightarrow> karg list \<Rightarrow> klogs \<times> terms \<Rightarrow> (klogs \<times> terms) outcome" where
  "klogu font env s args = klog_vprintf font env KLOG_LEVEL_UNK (c_lit s) args"

definition kprintf :: "u8 list \<Rightarrow> u8 list \<Rightarrow> karg list \<Rightarrow> klogs \<times> terms \<Rightarrow> (klogs \<times> terms) outcome" where
  "kprintf font s args st =
     obind (klog_vprintf_core font TERM_MODE_CLI s args st) (klog_refresh font TERM_MODE_CLI)"

text \<open>\<open>term_start\<close> of \<open>device/display/term.c\<close>: both terminals get a back buffer and their log.\<close>

definition term_start :: "u8 list \<Rightarrow> klogs \<times> terms \<Rightarrow> (klogs \<times> terms) outcome" where
  "term_start font st =
     obind (on_term TERM_MODE_INFO (on_fb (fb_init None)) (snd st)) (\<lambda>tm.
     obind (on_term TERM_MODE_CLI (on_fb (fb_init None)) tm) (\<lambda>tm.
     obind (klog_refresh font TERM_MODE_INFO (fst st, tm)) (\<lambda>st.
     omap (\<lambda>(ks, tm). (ks, term_switch TERM_MODE_INFO tm)) (klog_refresh font TERM_MODE_CLI st))))"

section \<open>The log keeps the latest characters\<close>

definition log_ok :: "klog_info_t \<Rightarrow> bool" where
  "log_ok k \<longleftrightarrow> length (kbuff k) = 65536 \<and> kstart k \<in> {0..<65536} \<and> kend k \<in> {0..<65536}"

definition log_len :: "klog_info_t \<Rightarrow> nat" where
  "log_len k = nat ((kend k - kstart k) mod 65536)"

definition log_text :: "klog_info_t \<Rightarrow> u8 list" where
  "log_text k = ring (kbuff k) 65536 (nat (kstart k)) (log_len k)"

definition latest :: "u8 list \<Rightarrow> u8 list" where
  "latest cs = drop (length cs - 65535) cs"

lemma log_len_cases:
  assumes "log_ok k"
  shows "int (log_len k) = (if kend k \<ge> kstart k then kend k - kstart k else kend k - kstart k + 65536)"
proof (cases "kend k \<ge> kstart k")
  case True
  with assms show ?thesis by (simp add: log_ok_def log_len_def)
next
  case False
  then have "(kend k - kstart k) mod 65536 = (kend k - kstart k + 65536) mod 65536" by simp
  also have "\<dots> = kend k - kstart k + 65536" using assms False by (intro mod_pos_pos_trivial) (auto simp: log_ok_def)
  finally show ?thesis using False assms by (simp add: log_len_def log_ok_def)
qed

lemma log_len_less: "log_ok k \<Longrightarrow> log_len k < 65536"
  by (simp add: log_len_def nat_less_iff)

lemma kend_eq: "log_ok k \<Longrightarrow> nat (kend k) = (nat (kstart k) + log_len k) mod 65536"
proof -
  assume ok: "log_ok k"
  then have "0 \<le> kstart k" "0 \<le> kend k" "kend k < 65536" by (auto simp: log_ok_def)
  moreover have "kend k = (kstart k + int (log_len k)) mod 65536"
    using ok log_len_cases [OF ok] by (auto simp: log_ok_def)
  ultimately show ?thesis by (metis nat_add_distrib nat_mod_distrib nat_int of_nat_0_le_iff add_nonneg_nonneg
        nat_numeral zero_le_numeral)
qed

lemma latest_snoc:
  "latest (latest cs @ [c]) = latest (cs @ [c])"
proof (cases "length cs \<le> 65535")
  case False
  then have "Suc (length cs - 65535) = length cs - 65534" by arith
  with False show ?thesis by (simp add: latest_def)
qed (simp add: latest_def)

lemma ring_put_ok:
  assumes ok: "log_ok k"
  shows "\<exists>k'. ring_put c k = Returns k' \<and> log_ok k' \<and> log_text k' = latest (log_text k @ [c])"
proof -
  let ?n = "log_len k" and ?s = "nat (kstart k)"
  define e where "e = (if kend k + 1 \<ge> 65536 then 0 else kend k + 1)"
  define s where "s = (if e = kstart k then kstart k + 1 else kstart k)"
  define k' where "k' = k\<lparr>kbuff := (kbuff k)[nat (kend k) := c], kend := e, kstart := (if s \<ge> 65536 then 0 else s)\<rparr>"
  have b: "length (kbuff k) = 65536" "0 \<le> kstart k" "kstart k < 65536" "0 \<le> kend k" "kend k < 65536"
    using ok by (auto simp: log_ok_def)
  have put: "ring_put c k = Returns k'"
    using b by (simp add: ring_put_def set_index_def wr_def KLOG_BUFFER_SIZE_def k'_def e_def s_def Let_def)
  have ok': "log_ok k'" using b by (auto simp: log_ok_def k'_def e_def s_def)
  note n = log_len_cases [OF ok] and n' = log_len_cases [OF ok']
  have push: "ring ((kbuff k)[nat (kend k) := c]) 65536 ?s (Suc ?n) = log_text k @ [c]"
    unfolding kend_eq [OF ok] log_text_def using log_len_less [OF ok] b(1) by (intro ring_push) auto
  show ?thesis
  proof (cases "e = kstart k")
    case False
    then have "kstart k' = kstart k" using b by (simp add: k'_def s_def)
    moreover have "log_len k' = Suc ?n" using False n n' b
      by (auto simp: k'_def s_def e_def split: if_splits)
    moreover have "?n < 65535" using False n b by (auto simp: e_def split: if_splits)
    ultimately have "log_text k' = latest (log_text k @ [c])"
      using push by (simp add: log_text_def latest_def k'_def)
    with put ok' show ?thesis by blast
  next
    case True
    have full: "?n = 65535" using True n b by (auto simp: e_def split: if_splits)
    have st: "nat (kstart k') = (?s + 1) mod 65536"
    proof (cases "kstart k = 65535")
      case False
      with b have "nat (kstart k) + 1 < 65536" by linarith
      then show ?thesis using True b False by (simp add: k'_def s_def nat_add_distrib)
    qed (use True in \<open>simp add: k'_def s_def\<close>)
    have "log_len k' = 65535" using True n' b by (auto simp: k'_def s_def e_def split: if_splits)
    then have "log_text k' = ring ((kbuff k)[nat (kend k) := c]) 65536 ((?s + 1) mod 65536) (Suc ?n - 1)"
      unfolding log_text_def st by (simp add: full k'_def)
    also have "\<dots> = tl (log_text k @ [c])" using push by (subst ring_pop) simp_all
    also have "\<dots> = latest (log_text k @ [c])" by (simp add: latest_def log_text_def full drop_Suc tl_append2 flip: length_0_conv)
    finally show ?thesis using put ok' by blast
  qed
qed

text \<open>What \<open>klog_putchs\<close> leaves in the ring and sends to the terminal, and what the replay sends.\<close>

lemma sel_set_term [simp]: "sel_term mode (set_term mode t s) = t"
  by (simp add: sel_term_def set_term_def)

lemma set_set_term [simp]: "set_term mode t (set_term mode t' s) = set_term mode t s"
  by (simp add: set_term_def)

lemma set_sel_term [simp]: "set_term mode (sel_term mode s) s = s"
  by (simp add: sel_term_def set_term_def)

lemma sel_set_log [simp]: "sel_log mode (set_log mode k ks) = k"
  by (simp add: sel_log_def set_log_def)

lemma set_set_log [simp]: "set_log mode k (set_log mode k' ks) = set_log mode k ks"
  by (simp add: set_log_def)

lemma set_sel_log [simp]: "set_log mode (sel_log mode ks) ks = ks"
  by (simp add: sel_log_def set_log_def)

lemma on_term_Returns [simp]: "on_term mode Returns s = Returns s"
  by (simp add: on_term_def)

lemma on_term_seq: "obind (on_term mode f s) (on_term mode g) = on_term mode (\<lambda>t. obind (f t) g) s"
  by (cases "f (sel_term mode s)") (simp_all add: on_term_def)

lemma latest_latest: "latest (latest cs @ ds) = latest (cs @ ds)"
proof (induction ds rule: rev_induct)
  case Nil
  show ?case by (simp add: latest_def)
next
  case (snoc d ds)
  have "latest (latest cs @ ds @ [d]) = latest (latest (latest cs @ ds) @ [d])"
    using latest_snoc [of "latest cs @ ds" d] by simp
  also have "\<dots> = latest (cs @ ds @ [d])" using latest_snoc [of "cs @ ds" d] by (simp add: snoc)
  finally show ?case .
qed

lemma putchs_ok:
  assumes "log_ok (sel_log mode ks)"
  shows "\<exists>k'. log_ok k' \<and> log_text k' = latest (log_text (sel_log mode ks) @ cs)
     \<and> (\<forall>tm. klog_putchs font mode cs (ks, tm)
              = omap (Pair (set_log mode k' ks)) (on_term mode (putch_all font cs) tm))"
  using assms
proof (induction cs arbitrary: ks)
  case Nil
  have "putch_all font [] = Returns" by (rule ext) simp
  moreover have "latest (log_text (sel_log mode ks)) = log_text (sel_log mode ks)"
    using log_len_less [OF Nil] by (simp add: latest_def log_text_def)
  ultimately show ?case using Nil by (intro exI [of _ "sel_log mode ks"]) simp
next
  case (Cons c cs)
  from ring_put_ok [OF Cons.prems, of c] obtain k1 where 1: "ring_put c (sel_log mode ks) = Returns k1"
    "log_ok k1" "log_text k1 = latest (log_text (sel_log mode ks) @ [c])" by blast
  from 1(2) Cons.IH [of "set_log mode k1 ks"] obtain k' where
    2: "log_ok k'" "log_text k' = latest (log_text k1 @ cs)"
    "\<And>tm. klog_putchs font mode cs (set_log mode k1 ks, tm)
        = omap (Pair (set_log mode k' ks)) (on_term mode (putch_all font cs) tm)" by auto
  have pa: "putch_all font (c # cs) = (\<lambda>t. obind (term_putch font c t) (putch_all font cs))"
    by (rule ext) simp
  have "klog_putchs font mode (c # cs) (ks, tm)
      = omap (Pair (set_log mode k' ks)) (on_term mode (putch_all font (c # cs)) tm)" for tm
    unfolding pa on_term_seq [symmetric]
    by (cases "on_term mode (term_putch font c) tm") (simp_all add: klog_putch_def 1(1) 2(3))
  moreover have "log_text k' = latest (log_text (sel_log mode ks) @ c # cs)"
    by (simp add: 2(2) 1(3) latest_latest)
  ultimately show ?case using 2(1) by blast
qed

lemma replay_ok:
  assumes ok: "log_ok k" and "j \<le> log_len k" and "0 \<le> i" "i \<le> 65536"
    and "nat i mod 65536 = (nat (kstart k) + j) mod 65536"
  shows "loop_c (replay_step font mode k) (i, tm) = on_term mode (putch_all font (drop j (log_text k))) tm"
  using assms(2-)
proof (induction "log_len k - j" arbitrary: i j tm)
  case 0
  have b: "0 \<le> kstart k" "kstart k < 65536" "0 \<le> kend k" "kend k < 65536" "length (kbuff k) = 65536"
    using ok by (auto simp: log_ok_def)
  have "j = log_len k" using 0 by simp
  then have "nat i mod 65536 = nat (kend k)" using 0(5) kend_eq [OF ok] by simp
  then have e: "(if i \<ge> 65536 then 0 else i) = kend k" using 0(3,4) b
    by (cases "i = 65536") (auto simp: nat_less_iff)
  have "replay_step font mode k (i, tm) = Returns (Inr tm)"
    unfolding replay_step_def Let_def KLOG_BUFFER_SIZE_def fst_conv e by auto
  moreover have "putch_all font (drop j (log_text k)) = Returns"
    using \<open>j = log_len k\<close> by (intro ext) (simp add: log_text_def)
  ultimately show ?case by (simp add: loop_c_unfold)
next
  case (Suc m)
  define i' where "i' = (if i \<ge> 65536 then 0 else i)"
  have b: "0 \<le> kstart k" "kstart k < 65536" "0 \<le> kend k" "kend k < 65536" "length (kbuff k) = 65536"
    using ok by (auto simp: log_ok_def)
  have j: "j < log_len k" using Suc(2) by simp
  have i': "0 \<le> i'" "i' < 65536" "nat i' = (nat (kstart k) + j) mod 65536"
    using Suc.prems by (auto simp: i'_def nat_less_iff)
  then have cs: "i' = kstart k + int j \<or> i' = kstart k + int j - 65536" using j log_len_less [OF ok] b
    by (cases "nat (kstart k) + j < 65536") (auto simp: le_mod_geq)
  have go: "\<not> (if kend k \<ge> kstart k then i' \<ge> kend k else i' \<ge> kend k \<and> i' < kstart k)"
    using cs j log_len_cases [OF ok] b i'(1,2) by (auto split: if_splits)
  have c: "at_index (kbuff k) i' = Returns (log_text k ! j)"
    using i' b j by (simp add: at_index_def log_text_def ring_def nat_less_iff)
  have dr: "drop j (log_text k) = log_text k ! j # drop (Suc j) (log_text k)"
    using j by (simp add: Cons_nth_drop_Suc log_text_def)
  have pa: "putch_all font (drop j (log_text k))
      = (\<lambda>t. obind (term_putch font (log_text k ! j) t) (putch_all font (drop (Suc j) (log_text k))))"
    unfolding dr by (rule ext) simp
  have next_i: "nat (i' + 1) mod 65536 = (nat (kstart k) + Suc j) mod 65536"
    using i' by (simp add: nat_add_distrib mod_Suc_eq)
  have IH: "loop_c (replay_step font mode k) (i' + 1, tm') = on_term mode (putch_all font (drop (Suc j) (log_text k))) tm'" for tm'
    using Suc(2) j i' next_i by (intro Suc.hyps(1)) auto
  have "replay_step font mode k (i, tm)
      = omap (\<lambda>tm. Inl (i' + 1, tm)) (on_term mode (term_putch font (log_text k ! j)) tm)"
    unfolding replay_step_def Let_def KLOG_BUFFER_SIZE_def fst_conv snd_conv i'_def [symmetric]
      if_not_P [OF go] c by simp
  then have "loop_c (replay_step font mode k) (i, tm)
      = obind (on_term mode (term_putch font (log_text k ! j)) tm)
          (on_term mode (putch_all font (drop (Suc j) (log_text k))))"
    by (subst loop_c_unfold) (cases "on_term mode (term_putch font (log_text k ! j)) tm"; simp add: IH)
  then show ?case unfolding pa on_term_seq .
qed

text \<open>
  C21: whatever is printed, the log never faults and holds the latest 65535 characters, in order,
  while the terminal gets every character; a later refresh before any terminal is active clears
  the terminal and sends it exactly what the log holds.
\<close>

theorem log_replays_latest:
  assumes "log_ok (sel_log mode ks)"
  shows "\<exists>k'. log_ok k' \<and> log_text k' = latest (log_text (sel_log mode ks) @ cs)
     \<and> klog_putchs font mode cs (ks, tm)
         = omap (Pair (set_log mode k' ks)) (on_term mode (putch_all font cs) tm)
     \<and> (\<forall>tm'. term_active_mode tm' = TERM_MODE_UNKNOWN \<longrightarrow>
          klog_refresh font mode (set_log mode k' ks, tm') = omap (Pair (set_log mode k' ks))
            (obind (on_term mode (\<lambda>t. obind (term_clear t) (putch_all font (log_text k'))) tm')
               (term_refresh font mode)))"
proof -
  from putchs_ok [OF assms, of cs font] obtain k' where k': "log_ok k'"
    "log_text k' = latest (log_text (sel_log mode ks) @ cs)"
    "\<And>tm. klog_putchs font mode cs (ks, tm) = omap (Pair (set_log mode k' ks)) (on_term mode (putch_all font cs) tm)"
    by blast
  have "loop_c (replay_step font mode k') (kstart k', tm') = on_term mode (putch_all font (log_text k')) tm'" for tm'
    using replay_ok [OF k'(1), of 0 "kstart k'"] k'(1) by (auto simp: log_ok_def)
  then have "klog_refresh font mode (set_log mode k' ks, tm') = omap (Pair (set_log mode k' ks))
            (obind (on_term mode (\<lambda>t. obind (term_clear t) (putch_all font (log_text k'))) tm')
               (term_refresh font mode))" if "term_active_mode tm' = TERM_MODE_UNKNOWN" for tm'
    using that unfolding klog_refresh_def on_term_seq [symmetric] by simp
  with k' show ?thesis by blast
qed

lemma klog_init_ok: "log_ok (sel_log mode klog_init)" "log_text (sel_log mode klog_init) = []"
  by (simp_all add: klog_init_def sel_log_def log_ok_def log_text_def log_len_def KLOG_BUFFER_SIZE_def Let_def ring_def)

lemma log_replays_latest_witness:
  "\<forall>tm. \<exists>k'. log_text k' = [0x48, 0x69] \<and>
     klog_putchs demo_font TERM_MODE_CLI [0x48, 0x69] (klog_init, tm)
       = omap (Pair (set_log TERM_MODE_CLI k' klog_init)) (on_term TERM_MODE_CLI (putch_all demo_font [0x48, 0x69]) tm)"
  (is "\<forall>tm. ?P tm")
proof (intro allI)
  fix tm
  have l: "latest (log_text (sel_log TERM_MODE_CLI klog_init) @ [0x48, 0x69]) = [0x48, 0x69]"
    by (simp add: klog_init_ok latest_def)
  show "?P tm"
    using log_replays_latest [OF klog_init_ok(1), of TERM_MODE_CLI "[0x48, 0x69]" demo_font tm]
    unfolding l by blast
qed

end
