(* ===== verification/Klog_Format.thy ===== *)
theory Klog_Format
  imports Klog
begin

text \<open>
  The formatter of the log against a reference: decimal numbers digit by digit, and a format as a
  list of pieces with the text each one stands for.
\<close>

section \<open>Decimal numbers\<close>

fun dec :: "nat \<Rightarrow> u8 list" where
  "dec n = (if n < 10 then [0x30 + of_nat n] else dec (n div 10) @ [0x30 + of_nat (n mod 10)])"

declare dec.simps [simp del]

lemma dec_pos: "0 < length (dec n)"
  by (subst dec.simps) simp

lemma dec_le_iff: "0 < d \<Longrightarrow> length (dec n) \<le> d \<longleftrightarrow> n < 10 ^ d"
proof (induction n arbitrary: d rule: dec.induct)
  case (1 n)
  show ?case
  proof (cases "n < 10")
    case True
    then have "n < 10 ^ d" using 1(2) by (simp add: order.strict_trans2 [of n 10] self_le_power)
    with True 1(2) show ?thesis by (subst dec.simps) simp
  next
    case False
    show ?thesis
    proof (cases d)
      case (Suc e)
      have "length (dec n) \<le> d \<longleftrightarrow> length (dec (n div 10)) \<le> e"
        using False Suc by (subst dec.simps) simp
      also have "\<dots> \<longleftrightarrow> n div 10 < 10 ^ e"
      proof (cases "e = 0")
        case True
        with False show ?thesis using dec_pos [of "n div 10"] by simp
      next
        case e: False
        then show ?thesis using 1(1) [OF False, of e] by simp
      qed
      also have "\<dots> \<longleftrightarrow> n < 10 ^ d" using Suc by (simp add: div_less_iff_less_mult mult.commute)
      finally show ?thesis .
    qed (use 1(2) in simp)
  qed
qed

lemma dec_digits: "dec n = map (\<lambda>k. 0x30 + of_nat ((n div 10 ^ k) mod 10)) (rev [0..<length (dec n)])"
proof (induction n rule: dec.induct)
  case (1 n)
  show ?case
  proof (cases "n < 10")
    case True
    then show ?thesis by (simp add: dec.simps [of n])
  next
    case False
    let ?m = "length (dec (n div 10))"
    have s: "rev [0..<Suc ?m] = map Suc (rev [0..<?m]) @ [0]"
      by (simp add: rev_map [symmetric] map_Suc_upt upt_conv_Cons del: upt_Suc)
    have "dec n = dec (n div 10) @ [0x30 + of_nat (n mod 10)]" using False by (subst dec.simps) simp
    also have "dec (n div 10) = map (\<lambda>k. 0x30 + of_nat ((n div 10 ^ k) mod 10)) (map Suc (rev [0..<?m]))"
      by (subst 1 [OF False]) (simp add: div_mult2_eq)
    finally have "dec n = map (\<lambda>k. 0x30 + of_nat ((n div 10 ^ k) mod 10)) (rev [0..<Suc ?m])"
      unfolding s by simp
    moreover have "length (dec n) = Suc ?m" using False by (subst dec.simps) simp
    ultimately show ?thesis by simp
  qed
qed

lemma u64_of_nat_div: "a < 2 ^ 64 \<Longrightarrow> b < 2 ^ 64 \<Longrightarrow> (of_nat a :: u64) div of_nat b = of_nat (a div b)"
  and u64_of_nat_mod: "a < 2 ^ 64 \<Longrightarrow> b < 2 ^ 64 \<Longrightarrow> (of_nat a :: u64) mod of_nat b = of_nat (a mod b)"
  by (simp_all add: word_unat_eq_iff unat_div_distrib unat_mod_distrib unat_nat
      div_le_dividend [THEN le_less_trans] mod_less_eq_dividend [THEN le_less_trans])

lemma div_loop_ok: "v < 2 ^ 64 \<Longrightarrow> div_loop (of_nat v) dv = dv * (if v = 0 then 1 else of_nat (10 ^ length (dec v)))"
proof (induction v arbitrary: dv rule: dec.induct)
  case (1 v)
  have step: "div_loop (of_nat v) dv = div_loop (of_nat (v div 10)) (dv * 10)" if "v \<noteq> 0"
    using that 1(2) u64_of_nat_div [of v 10]
    by (subst div_loop.simps) (simp add: word_less_nat_alt unat_nat)
  show ?case
  proof (cases "v < 10")
    case True
    then have "div_loop (of_nat (v div 10)) d = d" for d by (subst div_loop.simps) simp
    moreover have "div_loop 0 dv = dv" by (subst div_loop.simps) simp
    ultimately show ?thesis using step True by (cases "v = 0") (auto simp: dec.simps [of v])
  next
    case False
    have "length (dec v) = Suc (length (dec (v div 10)))" using False by (subst dec.simps) simp
    moreover have "v div 10 < 2 ^ 64" "v div 10 \<noteq> 0" using 1(2) False by linarith+
    ultimately show ?thesis using False step 1(1) [OF False, of "dv * 10"] by (simp add: mult.assoc)
  qed
qed

lemma digit_loop_ok:
  assumes "v < 2 ^ 64" "d \<le> 19"
  shows "digit_loop (of_nat v) (of_nat (10 ^ d)) = map (\<lambda>k. 0x30 + of_nat ((v div 10 ^ k) mod 10)) (rev [0..<d])"
  using assms(2)
proof (induction d)
  case 0
  show ?case by (subst digit_loop.simps) (simp add: word_le_nat_alt)
next
  case (Suc d)
  have p: "(10 :: nat) ^ Suc d < 2 ^ 64" "(10 :: nat) ^ d < 2 ^ 64"
    using power_increasing [of "Suc d" 19 "10 :: nat"] power_increasing [of d 19 "10 :: nat"] Suc.prems by simp_all
  have ge: "(of_nat (10 ^ Suc d) :: u64) \<ge> 10"
    using p by (subst word_le_nat_alt, subst unat_nat) simp_all
  have dv: "(of_nat (10 ^ Suc d) :: u64) div 10 = of_nat (10 ^ d)"
    using u64_of_nat_div [of "10 ^ Suc d" 10] p by simp
  let ?x = "v div 10 ^ d mod 10"
  have split: "v mod 10 ^ Suc d = 10 ^ d * ?x + v mod 10 ^ d"
    using mod_mult2_eq [of v "10 ^ d" 10] by (simp add: mult.commute)
  have lt: "v mod 10 ^ Suc d < 2 ^ 64" "10 ^ d * ?x < 2 ^ 64" using split p(1)
    by (metis assms(1) mod_less_eq_dividend le_less_trans, metis assms(1) mod_less_eq_dividend le_less_trans le_add1)
  have sub: "(of_nat v :: u64) mod of_nat (10 ^ Suc d) - of_nat v mod of_nat (10 ^ d) = of_nat (10 ^ d * ?x)"
    unfolding u64_of_nat_mod [OF assms(1) p(1)] u64_of_nat_mod [OF assms(1) p(2)] split by simp
  have q: "(of_nat (10 ^ d * ?x) :: u64) div of_nat (10 ^ d) = of_nat ?x"
    unfolding u64_of_nat_div [OF lt(2) p(2)] by simp
  have "ucast (of_nat ?x :: u64) = (of_nat ?x :: u8)" by (simp add: unsigned_of_nat take_bit_nat_eq_self)
  then have "digit_loop (of_nat v) (of_nat (10 ^ Suc d)) = (0x30 + of_nat ?x) # digit_loop (of_nat v) (of_nat (10 ^ d))"
    by (subst digit_loop.simps) (simp only: dv ge if_True sub q add.commute)
  with Suc show ?case by simp
qed

section \<open>The width loop\<close>

lemma sint_u64: "x < 2 ^ 63 \<Longrightarrow> sint (of_nat x :: u64) = int x"
  by (simp add: sint_uint unsigned_of_nat signed_take_bit_int_eq_self take_bit_nat_eq_self)

definition nines :: "nat \<Rightarrow> u64" where "nines k = of_nat (10 ^ k) - 1"

lemma nines_step: "nines k * 10 + 9 = nines (Suc k)"
  by (simp add: nines_def algebra_simps)

lemma nines_small: "k \<le> 18 \<Longrightarrow> nines k = of_nat (10 ^ k - 1) \<and> (10 :: nat) ^ k - 1 < 2 ^ 63"
proof -
  assume "k \<le> 18"
  then have "(10 :: nat) ^ k \<le> 10 ^ 18" by (intro power_increasing) auto
  then show ?thesis by (auto simp: nines_def of_nat_diff)
qed

text \<open>The loop ends for every number, as \<open>10 ^ 64\<close> is a multiple of \<open>2 ^ 64\<close>.\<close>

definition wider :: "nat \<Rightarrow> nat \<Rightarrow> bool" where
  "wider v k \<longleftrightarrow> int v > sint (nines (Suc k)) \<and> nines (Suc k) < - 1"

lemma wider_stops: "\<not> wider v 63"
  by (simp add: wider_def nines_def)

lemma width_loop_ok: "loop_c (width_step (int v)) (1, 9) = Returns (1 + int (LEAST k. \<not> wider v k))"
proof -
  let ?N = "LEAST k. \<not> wider v k"
  define f where "f k = (1 + int k, nines (Suc k))" for k
  have "width_step (int v) (f k) = Returns (Inl (f (Suc k)))" if "k < ?N" for k
    using not_less_Least [OF that] by (simp add: width_step_def f_def wider_def nines_step)
  moreover have "\<not> wider v ?N" by (rule LeastI [of "\<lambda>k. \<not> wider v k", OF wider_stops])
  then have "width_step (int v) (f ?N) = Returns (Inr (1 + int ?N))"
    by (auto simp: width_step_def f_def wider_def)
  ultimately have "loop_c (width_step (int v)) (f 0) = Returns (1 + int ?N)" by (rule loop_c_steps)
  then show ?thesis by (simp add: f_def nines_def)
qed

lemma width_small:
  assumes "v < 10 ^ 18"
  shows "1 + int (LEAST k. \<not> wider v k) = int (length (dec v))"
proof -
  have w: "wider v k \<longleftrightarrow> Suc k < length (dec v)" if "k < 18" for k
  proof -
    note n = nines_small [of "Suc k"]
    define x :: nat where "x = 10 ^ Suc k - 1"
    have x: "nines (Suc k) = of_nat x" "x < 2 ^ 63" using n that by (simp_all add: x_def)
    have "sint (nines (Suc k)) = int x" unfolding x(1) by (rule sint_u64 [OF x(2)])
    moreover have "nines (Suc k) < - 1"
      unfolding x(1) using x(2)
      by (simp add: word_less_nat_alt unat_nat unsigned_minus_1_eq_mask mask_eq_exp_minus_1)
    moreover have "10 ^ Suc k = x + 1" by (simp add: x_def)
    ultimately have "wider v k \<longleftrightarrow> \<not> v < 10 ^ Suc k" by (auto simp: wider_def)
    then show ?thesis using dec_le_iff [of "Suc k" v] by auto
  qed
  have d: "length (dec v) \<le> 18" using dec_le_iff [of 18 v] assms by simp
  have "(LEAST k. \<not> wider v k) = length (dec v) - 1"
  proof (rule Least_equality)
    show "\<not> wider v (length (dec v) - 1)" using w [of "length (dec v) - 1"] d dec_pos [of v] by simp
  next
    fix y assume "\<not> wider v y"
    then show "length (dec v) - 1 \<le> y" using w [of y] d by (cases "y < 18") auto
  qed
  with dec_pos [of v] show ?thesis by linarith
qed

section \<open>Numbers as text\<close>

definition sign :: "int \<Rightarrow> u8 list" where
  "sign n = (if n < 0 then [0x2D] else [])"

text \<open>The code takes a negative number to be one character narrower, not wider.\<close>

definition pad_len :: "int \<Rightarrow> int \<Rightarrow> nat" where
  "pad_len n width = nat (width - (int (length (dec (nat \<bar>n\<bar>))) - (if n < 0 then 1 else 0)))"

definition fill_char :: "bool \<Rightarrow> u8" where
  "fill_char zero_filling = (if zero_filling then 0x30 else 0x20)"

lemma digits_ok:
  assumes "0 < v" "v < 2 ^ 63"
  shows "digit_loop (of_nat v) (div_loop (of_nat v) 1) = dec v"
proof -
  have "v < 10 ^ 19" using assms(2) by simp
  then have l: "length (dec v) \<le> 19" using dec_le_iff [of 19 v] by simp
  have "div_loop (of_nat v) 1 = of_nat (10 ^ length (dec v))"
    using div_loop_ok [of v 1] assms by simp
  then show ?thesis using digit_loop_ok [OF _ l, of v] assms(2) dec_digits [of v] by simp
qed

lemma int_chars_ok:
  assumes "- (2 ^ 63) < n" "n < 2 ^ 63"
  shows "\<exists>p. int_chars n width zf = Returns (sign n @ replicate p (fill_char zf) @ dec (nat \<bar>n\<bar>))
     \<and> (\<bar>n\<bar> < 10 ^ 18 \<longrightarrow> p = pad_len n width)"
proof -
  define v where "v = nat \<bar>n\<bar>"
  have v: "v < 2 ^ 63" "\<bar>n\<bar> = int v" using assms by (simp_all add: v_def nat_less_iff)
  have loop: "loop_c (width_step \<bar>n\<bar>) (1, 9) = Returns (1 + int (LEAST k. \<not> wider v k))"
    unfolding v(2) by (rule width_loop_ok)
  have ds: "(if n = 0 then [0x30] else []) @ digit_loop (of_int \<bar>n\<bar>) (div_loop (of_int \<bar>n\<bar>) 1) = dec v"
  proof (cases "n = 0")
    case True
    then have "v = 0" using v by simp
    moreover have "digit_loop 0 (div_loop 0 1) = []" by (subst div_loop.simps, subst digit_loop.simps) (simp add: word_le_nat_alt)
    ultimately show ?thesis using True by (simp add: dec.simps [of 0])
  next
    case False
    then show ?thesis using digits_ok [OF _ v(1)] v(2) by simp
  qed
  have ne: "n \<noteq> - (2 ^ 63)" using assms by auto
  let ?p = "nat (width - (1 + int (LEAST k. \<not> wider v k) - (if n < 0 then 1 else 0)))"
  have "int_chars n width zf = Returns (sign n @ replicate ?p (fill_char zf) @ dec v)"
    unfolding int_chars_def if_not_P [OF ne] loop using ds
    by (simp add: Let_def sign_def fill_char_def)
  moreover have "?p = pad_len n width" if "\<bar>n\<bar> < 10 ^ 18"
  proof -
    have "1 + int (LEAST k. \<not> wider v k) = int (length (dec v))"
      using that v(2) by (intro width_small) simp
    then show ?thesis unfolding pad_len_def v_def by simp
  qed
  ultimately show ?thesis unfolding v_def by blast
qed

definition hex_digit :: "nat \<Rightarrow> u8" where
  "hex_digit x = (if x < 10 then 0x30 + of_nat x else 0x37 + of_nat x)"

definition hex_text :: "u64 \<Rightarrow> nat \<Rightarrow> u8 list" where
  "hex_text n w = map (\<lambda>k. hex_digit (unat n div 16 ^ k mod 16)) (rev [0..<if w = 0 then 16 else min w 16])"

lemma hex_char_table: "list_all (\<lambda>x. hex_char (of_nat x) = hex_digit x) [0..<16]"
  by code_simp

lemma hex_char_ok: "hex_char (drop_bit (4 * k) n AND 0xF) = hex_digit (unat n div 16 ^ k mod 16)"
proof -
  define x where "x = unat n div 16 ^ k mod 16"
  have "(0xF :: u64) = mask 4" by (simp add: mask_eq_exp_minus_1)
  then have "drop_bit (4 * k) n AND 0xF = take_bit 4 (drop_bit (4 * k) n)" by (simp add: take_bit_eq_mask)
  also have "unat \<dots> = x"
    using unat_u64 [of n] unfolding unsigned_take_bit_eq unsigned_drop_bit_eq
    by (simp add: take_bit_eq_mod drop_bit_eq_div x_def power_mult)
  finally have u: "unat (drop_bit (4 * k) n AND 0xF) = x" .
  have "x < 16" by (simp add: x_def)
  moreover from this have "drop_bit (4 * k) n AND 0xF = of_nat x"
    by (simp add: word_unat_eq_iff u unat_nat)
  ultimately show ?thesis using hex_char_table unfolding list_all_iff by (simp flip: x_def)
qed

lemma filter_upt_ge: "a \<le> n \<Longrightarrow> filter (\<lambda>j. a \<le> j) [0..<n] = [a..<n]"
  by (induction n) (auto simp: le_Suc_eq)

lemma upt_15: "m \<le> 16 \<Longrightarrow> [16 - m..<16] = map (\<lambda>k. 15 - k) (rev [0..<m])"
proof (induction m)
  case (Suc m)
  then have s: "16 - m = Suc (15 - m)" "16 - Suc m = 15 - m" by simp_all
  have "[16 - Suc m..<16] = (15 - m) # [16 - m..<16]"
    unfolding s by (subst upt_conv_Cons) simp_all
  moreover have "[16 - m..<16] = map (\<lambda>k. 15 - k) (rev [0..<m])" using Suc by simp
  ultimately show ?case by (simp only: upt_Suc rev_append) simp
qed simp

lemma hex_chars_ok:
  assumes "w < 2 ^ 31 - 16"
  shows "hex_chars n (int w) = Returns (hex_text n w)"
proof -
  define m where "m = (if w = 0 then 16 else min w 16)"
  have m: "m \<le> 16" by (simp add: m_def)
  have "filter (\<lambda>j. \<not> (int w > 0 \<and> int (j + 1) + int w \<le> 16)) [0..<16] = filter (\<lambda>j. 16 - m \<le> j) [0..<16]"
    by (rule filter_cong) (auto simp: m_def)
  also have "\<dots> = map (\<lambda>k. 15 - k) (rev [0..<m])" using filter_upt_ge [of "16 - m" 16] upt_15 [OF m] by simp
  finally have f: "filter (\<lambda>j. \<not> (int w > 0 \<and> int (j + 1) + int w \<le> 16)) [0..<16] = map (\<lambda>k. 15 - k) (rev [0..<m])" .
  have "map (\<lambda>j. hex_char (drop_bit (60 - 4 * j) n AND 0xF)) (map (\<lambda>k. 15 - k) (rev [0..<m]))
      = map (\<lambda>k. hex_char (drop_bit (4 * k) n AND 0xF)) (rev [0..<m])"
    using m by (auto simp: diff_mult_distrib2)
  then show ?thesis using assms
    unfolding hex_chars_def f by (simp add: hex_char_ok hex_text_def m_def)
qed

section \<open>Formats as pieces\<close>

datatype conversion = CPercent | CInt int | CHex u64 | CStr "u8 list" "u8 list" | CChar u64 | CBool bool

datatype piece = Lit u8 | Conv "nat list" conversion

fun letter :: "conversion \<Rightarrow> u8" where
  "letter CPercent = 0x25"
| "letter (CInt n) = 0x64"
| "letter (CHex n) = 0x78"
| "letter (CStr s junk) = 0x73"
| "letter (CChar c) = 0x63"
| "letter (CBool b) = 0x62"

text \<open>A string argument is the text, its terminator and whatever follows in its object.\<close>

fun conv_args :: "conversion \<Rightarrow> karg list" where
  "conv_args CPercent = []"
| "conv_args (CInt n) = [Num (of_int n)]"
| "conv_args (CHex n) = [Num n]"
| "conv_args (CStr s junk) = [Str (s @ 0 # junk)]"
| "conv_args (CChar n) = [Num n]"
| "conv_args (CBool b) = [Num (if b then 1 else 0)]"

fun conv_text :: "nat \<Rightarrow> bool \<Rightarrow> conversion \<Rightarrow> u8 list" where
  "conv_text w zf CPercent = [0x25]"
| "conv_text w zf (CInt n) = sign n @ replicate (pad_len n (int w)) (fill_char zf) @ dec (nat \<bar>n\<bar>)"
| "conv_text w zf (CHex n) = hex_text n w"
| "conv_text w zf (CStr s junk) = s @ replicate (w - length s) 0x20"
| "conv_text w zf (CChar n) = [ucast n]"
| "conv_text w zf (CBool b) = map of_char (if b then ''true'' else ''false'')"

fun conv_ok :: "conversion \<Rightarrow> bool" where
  "conv_ok (CInt n) \<longleftrightarrow> \<bar>n\<bar> < 10 ^ 18"
| "conv_ok (CStr s junk) \<longleftrightarrow> 0 \<notin> set s"
| "conv_ok _ \<longleftrightarrow> True"

definition digit_char :: "nat \<Rightarrow> u8" where
  "digit_char d = 0x30 + of_nat d"

definition field_width :: "nat list \<Rightarrow> nat" where
  "field_width ds = foldl (\<lambda>w d. w * 10 + d) 0 ds"

fun unparse :: "piece \<Rightarrow> u8 list" where
  "unparse (Lit c) = [c]"
| "unparse (Conv ds cv) = 0x25 # map digit_char ds @ [letter cv]"

fun piece_args :: "piece \<Rightarrow> karg list" where
  "piece_args (Lit c) = []"
| "piece_args (Conv ds cv) = conv_args cv"

fun piece_text :: "piece \<Rightarrow> u8 list" where
  "piece_text (Lit c) = [c]"
| "piece_text (Conv ds cv) = conv_text (field_width ds) (ds \<noteq> [] \<and> hd ds = 0) cv"

fun piece_ok :: "piece \<Rightarrow> bool" where
  "piece_ok (Lit c) \<longleftrightarrow> c \<noteq> 0 \<and> c \<noteq> 0x25"
| "piece_ok (Conv ds cv) \<longleftrightarrow> (\<forall>d \<in> set ds. d < 10) \<and> field_width ds < 2 ^ 31 - 16 \<and> conv_ok cv"

definition is_num :: "u8 \<Rightarrow> bool" where
  "is_num c \<longleftrightarrow> c \<ge> 0x30 \<and> c \<le> 0x39"

lemma klog_putchs_append:
  "klog_putchs font mode (a @ b) st = obind (klog_putchs font mode a st) (klog_putchs font mode b)"
proof (induction a arbitrary: st)
  case (Cons c a)
  show ?case by (cases "klog_putch font mode c st") (simp_all add: Cons)
qed simp

lemma klog_putchs_Nil [simp]: "klog_putchs font mode [] = Returns"
  by (rule ext) simp

lemma klog_putchs_1: "klog_putchs font mode [c] st = klog_putch font mode c st"
  by simp

lemma cstr_chars_ok: "0 \<notin> set s \<Longrightarrow> cstr_chars (s @ 0 # junk) = Returns s"
  by (induction s) auto

lemma digit_table: "list_all (\<lambda>d. is_num (digit_char d) \<and> ucast (digit_char d) - 0x30 = (of_nat d :: u32)) [0..<10]"
  by code_simp

lemma digit_ok: "d < 10 \<Longrightarrow> is_num (digit_char d)" "d < 10 \<Longrightarrow> ucast (digit_char d) - 0x30 = (of_nat d :: u32)"
  using digit_table unfolding list_all_iff by simp_all

lemma read_width_ok:
  assumes "\<forall>d \<in> set ds. d < 10" "\<not> is_num c"
  shows "read_width (of_nat w) (map digit_char ds @ c # r) = Returns (of_nat (foldl (\<lambda>w d. w * 10 + d) w ds), c # r)"
  using assms(1)
proof (induction ds arbitrary: w)
  case Nil
  then show ?case using assms(2) by (auto simp: is_num_def)
next
  case (Cons d ds)
  then have d: "digit_char d \<ge> 0x30 \<and> digit_char d \<le> 0x39" "ucast (digit_char d) - 0x30 = (of_nat d :: u32)"
    using digit_ok [of d] by (simp_all add: is_num_def)
  have w: "(of_nat w * 10 + of_nat d :: u32) = of_nat (w * 10 + d)" by simp
  have ds: "\<forall>d \<in> set ds. d < 10" using Cons.prems by simp
  have "read_width (of_nat w) (map digit_char (d # ds) @ c # r) = read_width (of_nat (w * 10 + d)) (map digit_char ds @ c # r)"
    unfolding list.map append_Cons read_width.simps if_P [OF d(1)] d(2) w ..
  then show ?case unfolding Cons.IH [OF ds] by simp
qed

lemma letter_not_num: "\<not> is_num (letter cv)"
  by (cases cv) (simp_all add: is_num_def)

lemma first_zero: "d < 10 \<Longrightarrow> digit_char d = 0x30 \<longleftrightarrow> d = 0"
  using digit_ok(2) [of d] by (auto simp: digit_char_def word_unat_eq_iff unat_word_ariths unat_of_nat)

lemma sint_width: "w < 2 ^ 31 \<Longrightarrow> sint (of_nat w :: u32) = int w"
  by (simp add: sint_uint unsigned_of_nat signed_take_bit_int_eq_self take_bit_nat_eq_self)

lemma convert_ok:
  assumes "conv_ok cv" "w < 2 ^ 31 - 16"
  shows "convert font mode (letter cv) (int w) zf (conv_args cv @ as) st
    = omap (Pair as) (klog_putchs font mode (conv_text w zf cv) st)"
proof (cases cv)
  case (CInt n)
  with assms have "- (2 ^ 63) < n" "n < 2 ^ 63" "\<bar>n\<bar> < 10 ^ 18" by (auto simp: abs_less_iff)
  moreover from this have "sint (of_int n :: u64) = n"
    by (simp add: signed_of_int signed_take_bit_int_eq_self)
  ultimately show ?thesis using int_chars_ok [of n "int w" zf] CInt
    by (auto simp: convert_def klog_putint_def)
next
  case (CStr s junk)
  have "nat (int w - int (length s)) = w - length s" by simp
  with CStr assms show ?thesis by (simp add: convert_def klog_puts_def cstr_chars_ok)
next
  case (CBool b)
  have "cstr_chars (c_lit (if b then ''true'' else ''false'')) = Returns (map of_char (if b then ''true'' else ''false''))"
    by (simp add: c_lit_def)
  moreover have "nat (0 - int k) = 0" for k by simp
  ultimately show ?thesis using CBool by (cases b) (simp_all add: convert_def klog_puts_def)
qed (use assms hex_chars_ok in \<open>simp_all add: convert_def klog_puthex_def\<close>)

lemma piece_step:
  assumes "piece_ok p"
  shows "klog_vprintf_core font mode (unparse p @ s) (piece_args p @ as) st
    = obind (klog_putchs font mode (piece_text p) st) (klog_vprintf_core font mode s as)"
proof (cases p)
  case (Lit c)
  with assms show ?thesis using klog_putchs_1 [of font mode c st] by (simp add: klog_vprintf_core.simps(2) del: klog_putchs.simps)
next
  case (Conv ds cv)
  let ?w = "field_width ds"
  have c: "conv_ok cv" "?w < 2 ^ 31 - 16" "\<forall>d \<in> set ds. d < 10" using assms Conv by auto
  have rw: "read_width 0 (map digit_char ds @ letter cv # s) = Returns (of_nat ?w, letter cv # s)"
    using read_width_ok [OF c(3) letter_not_num, of 0 cv s] by (simp add: field_width_def)
  have z: "hd (map digit_char ds @ letter cv # s) = 0x30 \<longleftrightarrow> ds \<noteq> [] \<and> hd ds = 0"
    using c(3) letter_not_num [of cv] by (cases ds) (auto simp: first_zero is_num_def)
  have w: "sint (of_nat ?w :: u32) = int ?w" using c(2) by (intro sint_width) simp
  show ?thesis
    unfolding Conv unparse.simps piece_args.simps piece_text.simps append_Cons append_assoc append_Nil
    by (subst klog_vprintf_core.simps)
      (cases "klog_putchs font mode (conv_text ?w (ds \<noteq> [] \<and> hd ds = 0) cv) st";
       simp add: rw z w convert_ok [OF c(1,2)])
qed

lemma pieces_step:
  assumes "list_all piece_ok ps"
  shows "klog_vprintf_core font mode (concat (map unparse ps) @ s) (concat (map piece_args ps) @ as) st
    = obind (klog_putchs font mode (concat (map piece_text ps)) st) (klog_vprintf_core font mode s as)"
  using assms
proof (induction ps arbitrary: st)
  case (Cons p ps)
  then show ?case
    by (cases "klog_putchs font mode (piece_text p) st") (simp_all add: piece_step klog_putchs_append)
qed simp

lemma render_ok:
  assumes "list_all piece_ok ps"
  shows "klog_vprintf_core font mode (concat (map unparse ps) @ 0 # junk) (concat (map piece_args ps) @ as) st
    = klog_putchs font mode (concat (map piece_text ps)) st"
proof -
  have "klog_vprintf_core font mode (0 # junk) as = Returns"
    by (rule ext) (simp add: klog_vprintf_core.simps(2))
  with pieces_step [OF assms, of font mode "0 # junk" as st] show ?thesis by simp
qed



text \<open>
  a format that ends in an unfinished conversion (a \<open>%\<close>, perhaps with a width, right before
  the terminator) prints what came before it and then reads past the end of the string; the least
  \<open>int64_t\<close> overflows the formatter.
\<close>

theorem printf_faults:
  assumes "list_all piece_ok ps" "\<forall>d \<in> set ds. d < 10"
  shows "klog_vprintf_core font mode (concat (map unparse ps) @ 0x25 # map digit_char ds @ [0])
       (concat (map piece_args ps)) st
     = obind (klog_putchs font mode (concat (map piece_text ps)) st) (\<lambda>_. Faults OutOfBounds)
    \<and> klog_vprintf_core font mode (concat (map unparse ps) @ 0x25 # 0x64 # s)
       (concat (map piece_args ps) @ Num (of_int (- (2 ^ 63))) # as) st
     = obind (klog_putchs font mode (concat (map piece_text ps)) st) (\<lambda>_. Faults IntOverflow)"
proof -
  have rw: "read_width 0 (map digit_char ds @ [0]) = Returns (of_nat (field_width ds), [0])"
    using read_width_ok [OF assms(2), of 0 0 "[]"] by (simp add: field_width_def is_num_def)
  have "klog_vprintf_core font mode (0x25 # map digit_char ds @ [0]) [] = (\<lambda>_. Faults OutOfBounds)"
    by (rule ext, subst klog_vprintf_core.simps) (simp add: rw convert_def klog_vprintf_core.simps(1))
  with pieces_step [OF assms(1), of font mode "0x25 # map digit_char ds @ [0]" "[]" st]
  have a: "klog_vprintf_core font mode (concat (map unparse ps) @ 0x25 # map digit_char ds @ [0])
       (concat (map piece_args ps)) st
     = obind (klog_putchs font mode (concat (map piece_text ps)) st) (\<lambda>_. Faults OutOfBounds)" by simp
  have "klog_vprintf_core font mode (0x25 # 0x64 # s) (Num (of_int (- (2 ^ 63))) # as) = (\<lambda>_. Faults IntOverflow)"
    by (rule ext, subst klog_vprintf_core.simps) (simp add: convert_def klog_putint_def int_chars_def)
  with pieces_step [OF assms(1), of font mode "0x25 # 0x64 # s" "Num (of_int (- (2 ^ 63))) # as" st]
  have "klog_vprintf_core font mode (concat (map unparse ps) @ 0x25 # 0x64 # s)
       (concat (map piece_args ps) @ Num (of_int (- (2 ^ 63))) # as) st
     = obind (klog_putchs font mode (concat (map piece_text ps)) st) (\<lambda>_. Faults IntOverflow)" by simp
  with a show ?thesis by blast
qed

lemma printf_faults_witness:
  "\<forall>font mode st. klog_vprintf_core font mode [0x25, 0x38, 0] [] st = Faults OutOfBounds"
proof (intro allI)
  fix font mode st
  show "klog_vprintf_core font mode [0x25, 0x38, 0] [] st = Faults OutOfBounds"
    using printf_faults [of "[]" "[8]" font mode st] by (simp add: digit_char_def)
qed

end
