(* ===== verification/Shell.thy ===== *)
theory Shell
  imports Klog_Format
begin

text \<open>
  The command line of the kernel (\<open>kmain.c\<close>): one round of \<open>kshell\<close> per key that
  \<open>keyboard_get_key\<close> answers, and one round of the cursor task \<open>kcursor\<close>. The commands, and the state
  \<open>'x\<close> they work on, are parameters (\<open>Commands\<close> has the kernel's own); \<open>strcmp\<close> is used only to test for equality, so the two texts are compared
  (\<open>CString\<close> shows that this is what it decides).
\<close>

datatype cursor = CURSOR_INVISIBLE | CURSOR_VISIBLE | CURSOR_HIDE

record shell =
  cmd_buff :: "u8 list"
  cmd_end :: u16
  cursor_visible :: cursor

definition kshell_start :: shell where
  "kshell_start = \<lparr>cmd_buff = replicate 1024 0, cmd_end = 0, cursor_visible = CURSOR_INVISIBLE\<rparr>"

definition cmd_list :: "(string \<times> string) list" where
  "cmd_list = [(''memory'', ''Dump memory usage information''), (''vfs'', ''Dump tree of virtual file system''),
     (''pci'', ''Print list of PCI devices''), (''ls'', ''List all files of current directory'')]"

definition c_text :: "u8 list \<Rightarrow> u8 list" where
  "c_text buf = takeWhile (\<lambda>c. c \<noteq> 0) buf"

definition same_text :: "u8 list \<Rightarrow> string \<Rightarrow> bool" where
  "same_text buf s \<longleftrightarrow> c_text buf = map of_char s"

definition list_command :: "u8 list \<Rightarrow> string \<times> string \<Rightarrow> klogs \<times> terms \<Rightarrow> (klogs \<times> terms) outcome" where
  "list_command font c = kprintf font (c_lit (''%16s%s'' @ [CHR 0x0A])) [Str (c_lit (fst c)), Str (c_lit (snd c))]"

fun list_commands :: "u8 list \<Rightarrow> (string \<times> string) list \<Rightarrow> klogs \<times> terms \<Rightarrow> (klogs \<times> terms) outcome" where
  "list_commands font [] st = Returns st"
| "list_commands font (c # cs) st = obind (list_command font c st) (list_commands font cs)"

text \<open>The first command of the list that has the typed name.\<close>

fun find_command :: "u8 list \<Rightarrow> nat \<Rightarrow> (string \<times> string) list \<Rightarrow> nat option" where
  "find_command buf k [] = None"
| "find_command buf k (c # cs) = (if same_text buf (fst c) then Some k else find_command buf (Suc k) cs)"

type_synonym 'x command = "'x \<times> klogs \<times> terms \<Rightarrow> ('x \<times> klogs \<times> terms) outcome"

definition run_command :: "u8 list \<Rightarrow> (nat \<Rightarrow> 'x command) \<Rightarrow> u8 list \<Rightarrow> 'x command" where
  "run_command font proc buf xst =
     (case xst of (x, st) \<Rightarrow>
      if same_text buf ''help'' then
        omap (Pair x) (list_commands font ([(''Command'', ''Description''), (''-------'', ''-----------'')] @ cmd_list) st)
      else case find_command buf 0 cmd_list of
          Some k \<Rightarrow> proc k (x, st)
        | None \<Rightarrow> omap (Pair x) (kprintf font (c_lit (''Sorry, I cannot understand.'' @ [CHR 0x0A])) [] st))"

definition echo_key :: "u8 list \<Rightarrow> u8 \<Rightarrow> klogs \<times> terms \<Rightarrow> (klogs \<times> terms) outcome" where
  "echo_key font key = kprintf font (c_lit ''?[14;1m%c?[0m'') [Num (ucast key)]"

definition enter_line :: "u8 list \<Rightarrow> klogs \<times> terms \<Rightarrow> (klogs \<times> terms) outcome" where
  "enter_line font st =
     obind (term_refresh font TERM_MODE_CLI (term_set_cursor 0x20 (snd st))) (\<lambda>tm.
       kprintf font (c_lit ''%c'') [Num 0x0A] (fst st, tm))"

definition prompt :: "u8 list \<Rightarrow> klogs \<times> terms \<Rightarrow> (klogs \<times> terms) outcome" where
  "prompt font = kprintf font (c_lit ''?[14;1m%s?[0m'') [Str (c_lit ''$ '')]"

definition on_enter :: "u8 list \<Rightarrow> (nat \<Rightarrow> 'x command) \<Rightarrow> shell \<Rightarrow> 'x command" where
  "on_enter font proc sh xst =
     (case xst of (x, st) \<Rightarrow>
        obind (enter_line font st) (\<lambda>st.
        obind (if cmd_end sh > 0 then run_command font proc (cmd_buff sh) (x, st) else Returns (x, st)) (\<lambda>(x, st).
          omap (Pair x) (prompt font st))))"

definition kshell_key :: "u8 list \<Rightarrow> (nat \<Rightarrow> 'x command) \<Rightarrow> u8
    \<Rightarrow> shell \<times> 'x \<times> klogs \<times> terms \<Rightarrow> (shell \<times> 'x \<times> klogs \<times> terms) outcome" where
  "kshell_key font proc key s =
     (case s of (sh, x, st) \<Rightarrow>
      if term_active_mode (snd st) \<noteq> TERM_MODE_CLI then Returns s
      else if key = 0x0A then
        obind (on_enter font proc sh (x, st)) (\<lambda>xst. omap (\<lambda>b.
          (sh\<lparr>cmd_buff := b, cmd_end := 0, cursor_visible := CURSOR_INVISIBLE\<rparr>, xst)) (wr (cmd_buff sh) 0 0))
      else if key = 0x08 then
        (if cmd_end sh > 0 then
           obind (wr (cmd_buff sh) (unat (cmd_end sh)) 0) (\<lambda>b.
             omap (\<lambda>st. (sh\<lparr>cmd_buff := b, cmd_end := cmd_end sh - 1\<rparr>, x, st)) (echo_key font key st))
         else Returns s)
      else if key > 0 then
        obind (if cmd_end sh < 1024 - 1 then
                 obind (wr (cmd_buff sh) (unat (cmd_end sh)) key) (\<lambda>b.
                   omap (\<lambda>b. sh\<lparr>cmd_buff := b, cmd_end := cmd_end sh + 1\<rparr>) (wr b (unat (cmd_end sh + 1)) 0))
               else Returns sh)
          (\<lambda>sh. omap (\<lambda>st. (sh, x, st)) (echo_key font key st))
      else Returns s)"

definition kcursor_step :: "u8 list \<Rightarrow> shell \<times> terms \<Rightarrow> (shell \<times> terms) outcome" where
  "kcursor_step font s =
     (let (sh, tm) = (case s of (sh, tm) \<Rightarrow>
          (case cursor_visible sh of
             CURSOR_INVISIBLE \<Rightarrow> (sh\<lparr>cursor_visible := CURSOR_VISIBLE\<rparr>, term_set_cursor 0x5F tm)
           | CURSOR_VISIBLE \<Rightarrow> (sh\<lparr>cursor_visible := CURSOR_INVISIBLE\<rparr>, term_set_cursor 0x20 tm)
           | CURSOR_HIDE \<Rightarrow> (sh, term_set_cursor 0x20 tm)))
      in omap (Pair sh) (term_refresh font TERM_MODE_CLI tm))"

section \<open>Typing a line\<close>

fun kshell_keys :: "u8 list \<Rightarrow> (nat \<Rightarrow> 'x command) \<Rightarrow> u8 list
    \<Rightarrow> shell \<times> 'x \<times> klogs \<times> terms \<Rightarrow> (shell \<times> 'x \<times> klogs \<times> terms) outcome" where
  "kshell_keys font proc [] s = Returns s"
| "kshell_keys font proc (k # ks) s = obind (kshell_key font proc k s) (kshell_keys font proc ks)"

fun echo_keys :: "u8 list \<Rightarrow> u8 list \<Rightarrow> klogs \<times> terms \<Rightarrow> (klogs \<times> terms) outcome" where
  "echo_keys font [] st = Returns st"
| "echo_keys font (k # ks) st = obind (echo_key font k st) (echo_keys font ks)"

definition printable :: "u8 \<Rightarrow> bool" where
  "printable k \<longleftrightarrow> k \<noteq> 0 \<and> k \<noteq> 0x0A \<and> k \<noteq> 0x08"

text \<open>The buffer holds a line: the typed characters, then the terminator.\<close>

definition holds :: "shell \<Rightarrow> u8 list \<Rightarrow> bool" where
  "holds sh line \<longleftrightarrow> length (cmd_buff sh) = 1024 \<and> unat (cmd_end sh) = length line \<and> length line \<le> 1023
     \<and> take (length line) (cmd_buff sh) = line \<and> cmd_buff sh ! length line = 0 \<and> 0 \<notin> set line"

lemma takeWhile_line: "0 \<notin> set line \<Longrightarrow> takeWhile (\<lambda>c. c \<noteq> 0) (line @ (0 :: u8) # r) = line"
  by (induction line) auto

lemma holds_text: "holds sh line \<Longrightarrow> c_text (cmd_buff sh) = line"
proof -
  assume h: "holds sh line"
  then have "length line < length (cmd_buff sh)" by (simp add: holds_def)
  from id_take_nth_drop [OF this] h have "cmd_buff sh = line @ 0 # drop (Suc (length line)) (cmd_buff sh)"
    by (simp add: holds_def)
  then show ?thesis using h takeWhile_line [of line] by (metis c_text_def holds_def)
qed

definition in_cli :: "klogs \<times> terms \<Rightarrow> bool" where
  "in_cli st \<longleftrightarrow> term_active_mode (snd st) = TERM_MODE_CLI"

lemma on_term_mode: "on_term mode f tm = Returns tm' \<Longrightarrow> term_active_mode tm' = term_active_mode tm"
  by (auto simp: on_term_def omap_eq_Returns set_term_def)

lemma putchs_mode:
  "klog_putchs font mode cs st = Returns st' \<Longrightarrow> term_active_mode (snd st') = term_active_mode (snd st)"
  by (induction cs arbitrary: st)
    (auto simp: obind_eq_Returns klog_putch_def omap_eq_Returns dest: on_term_mode)

lemma refresh_mode:
  "klog_refresh font mode st = Returns st' \<Longrightarrow> in_cli st \<Longrightarrow> in_cli st'"
  by (auto simp: klog_refresh_def in_cli_def omap_eq_Returns TERM_MODE_CLI_def TERM_MODE_UNKNOWN_def
      term_refresh_def dest!: on_term_mode split: if_splits)

definition echo_pieces :: "u8 \<Rightarrow> piece list" where
  "echo_pieces key = map Lit (map of_char ''?[14;1m'') @ [Conv [] (CChar (ucast key))] @ map Lit (map of_char ''?[0m'')"

lemma echo_cli: "echo_key font key st = Returns st' \<Longrightarrow> in_cli st \<Longrightarrow> in_cli st'"
proof -
  assume e: "echo_key font key st = Returns st'" and c: "in_cli st"
  have ok: "list_all piece_ok (echo_pieces key)" by (simp add: echo_pieces_def field_width_def)
  have "klog_vprintf_core font TERM_MODE_CLI (c_lit ''?[14;1m%c?[0m'') [Num (ucast key)] st
      = klog_putchs font TERM_MODE_CLI (concat (map piece_text (echo_pieces key))) st"
    using render_ok [OF ok, of font TERM_MODE_CLI "[]" "[]" st]
    by (simp add: echo_pieces_def c_lit_def del: klog_putchs.simps)
  with e obtain st1 where "klog_putchs font TERM_MODE_CLI (concat (map piece_text (echo_pieces key))) st = Returns st1"
    "klog_refresh font TERM_MODE_CLI st1 = Returns st'" by (auto simp: echo_key_def kprintf_def obind_eq_Returns)
  with c show ?thesis using putchs_mode refresh_mode by (metis in_cli_def)
qed

lemma small_end: "holds sh line \<Longrightarrow> length line < 1023 \<Longrightarrow> cmd_end sh < 1024 - 1 \<and> unat (cmd_end sh + 1) = length line + 1"
  by (simp add: holds_def word_less_nat_alt unat_word_ariths)

lemma type_key:
  assumes h: "holds sh line" and l: "length line < 1023" and k: "printable k"
  shows "\<exists>sh'. holds sh' (line @ [k]) \<and> (\<forall>x st. in_cli st \<longrightarrow>
     kshell_key font proc k (sh, x, st) = omap (\<lambda>st. (sh', x, st)) (echo_key font k st))"
proof -
  let ?n = "length line"
  define b where "b = (cmd_buff sh)[?n := k, ?n + 1 := 0]"
  have n: "unat (cmd_end sh) = ?n" "length (cmd_buff sh) = 1024" using h by (simp_all add: holds_def)
  note e = small_end [OF h l]
  have "take (?n + 1) b = line @ [k]"
    using h l by (simp add: b_def holds_def take_Suc_conv_app_nth)
  then have "holds (sh\<lparr>cmd_buff := b, cmd_end := cmd_end sh + 1\<rparr>) (line @ [k])"
    using h l k e by (simp add: holds_def b_def printable_def)
  moreover have "kshell_key font proc k (sh, x, st)
      = omap (\<lambda>st. (sh\<lparr>cmd_buff := b, cmd_end := cmd_end sh + 1\<rparr>, x, st)) (echo_key font k st)" if "in_cli st" for x st
    using that k e n l by (simp add: kshell_key_def in_cli_def printable_def b_def word_gt_0)
  ultimately show ?thesis by blast
qed

lemma type_line:
  assumes "holds sh line" "length line + length ks \<le> 1023" "list_all printable ks"
  shows "\<exists>sh'. holds sh' (line @ ks) \<and> (\<forall>x st. in_cli st \<longrightarrow>
     kshell_keys font proc ks (sh, x, st) = omap (\<lambda>st. (sh', x, st)) (echo_keys font ks st))"
  using assms
proof (induction ks arbitrary: sh line)
  case Nil
  then show ?case by (intro exI [of _ sh]) simp
next
  case (Cons k ks)
  from type_key [OF Cons.prems(1), of k font proc] Cons.prems(2,3) obtain sh1 where 1: "holds sh1 (line @ [k])"
    "\<And>x st. in_cli st \<Longrightarrow> kshell_key font proc k (sh, x, st) = omap (\<lambda>st. (sh1, x, st)) (echo_key font k st)" by auto
  from Cons.IH [OF 1(1)] Cons.prems(2,3) obtain sh2 where 2: "holds sh2 (line @ k # ks)"
    "\<And>x st. in_cli st \<Longrightarrow> kshell_keys font proc ks (sh1, x, st) = omap (\<lambda>st. (sh2, x, st)) (echo_keys font ks st)" by auto
  have "kshell_keys font proc (k # ks) (sh, x, st) = omap (\<lambda>st. (sh2, x, st)) (echo_keys font (k # ks) st)" if "in_cli st" for x st
    using 1(2) [OF that] 2(2) echo_cli [OF _ that] by (cases "echo_key font k st") auto
  with 2(1) show ?case by blast
qed

lemma keys_Nil [simp]: "echo_keys font [] = Returns" "kshell_keys font proc [] = Returns"
  by (rule ext, simp)+

lemma rub_out:
  assumes h: "holds sh line" and l: "line \<noteq> []"
  shows "\<exists>sh'. c_text (cmd_buff sh') = line \<and> length (cmd_buff sh') = 1024 \<and> unat (cmd_end sh') = length line - 1
     \<and> (\<forall>x st. in_cli st \<longrightarrow> kshell_key font proc 0x08 (sh, x, st) = omap (\<lambda>st. (sh', x, st)) (echo_key font 0x08 st))"
proof -
  let ?sh = "sh\<lparr>cmd_buff := (cmd_buff sh)[length line := 0], cmd_end := cmd_end sh - 1\<rparr>"
  have n: "unat (cmd_end sh) = length line" "length (cmd_buff sh) = 1024" "length line \<le> 1023"
    using h by (simp_all add: holds_def)
  then have p: "cmd_end sh > 0" "unat (cmd_end sh - 1) = length line - 1" using l
    by (auto simp: word_less_nat_alt unat_sub word_le_nat_alt Suc_le_eq)
  have "(cmd_buff sh)[length line := 0] = cmd_buff sh" using h by (metis holds_def list_update_id)
  then have "c_text (cmd_buff ?sh) = line" using holds_text [OF h] by simp
  moreover have "wr (cmd_buff sh) (unat (cmd_end sh)) 0 = Returns ((cmd_buff sh)[length line := 0])"
    unfolding n(1) using n by (intro wr_in) simp
  then have "kshell_key font proc 0x08 (sh, x, st) = omap (\<lambda>st. (?sh, x, st)) (echo_key font 0x08 st)" if "in_cli st" for x st
    using that p by (simp add: kshell_key_def in_cli_def)
  ultimately show ?thesis using p(2) n(2) by (intro exI [of _ ?sh]) simp
qed

lemma kshell_keys_append:
  "kshell_keys font proc (a @ b) s = obind (kshell_keys font proc a s) (kshell_keys font proc b)"
proof (induction a arbitrary: s)
  case (Cons k a)
  then show ?case by (cases "kshell_key font proc k s") simp_all
qed simp

lemma echo_keys_append: "echo_keys font (a @ b) st = obind (echo_keys font a st) (echo_keys font b)"
proof (induction a arbitrary: st)
  case (Cons k a)
  then show ?case by (cases "echo_key font k st") simp_all
qed simp

lemma echo_keys_cli: "echo_keys font cs st = Returns st' \<Longrightarrow> in_cli st \<Longrightarrow> in_cli st'"
  by (induction cs arbitrary: st) (auto simp: obind_eq_Returns dest: echo_cli)

text \<open>What Enter does after a line that is not empty.\<close>

definition run_line :: "u8 list \<Rightarrow> (nat \<Rightarrow> 'x command) \<Rightarrow> u8 list \<Rightarrow> 'x command" where
  "run_line font proc line xst =
     (case xst of (x, st) \<Rightarrow>
        obind (enter_line font st) (\<lambda>st. obind (run_command font proc (line @ [0]) (x, st)) (\<lambda>(x, st).
          omap (Pair x) (prompt font st))))"

lemma run_command_text: "c_text b = c_text b' \<Longrightarrow> run_command font proc b = run_command font proc b'"
proof -
  assume "c_text b = c_text b'"
  then have t: "same_text b = same_text b'" by (intro ext) (simp add: same_text_def)
  have "find_command b k cs = find_command b' k cs" for k cs by (induction cs arbitrary: k) (simp_all add: t)
  then show ?thesis by (intro ext) (simp add: run_command_def t split: prod.split)
qed

lemma press_enter:
  assumes "c_text (cmd_buff sh) = line" "length (cmd_buff sh) = 1024" "cmd_end sh \<noteq> 0"
  shows "\<exists>sh'. holds sh' [] \<and> (\<forall>x st. in_cli st \<longrightarrow>
     kshell_key font proc 0x0A (sh, x, st) = omap (Pair sh') (run_line font proc line (x, st)))"
proof -
  let ?sh = "sh\<lparr>cmd_buff := (cmd_buff sh)[0 := 0], cmd_end := 0, cursor_visible := CURSOR_INVISIBLE\<rparr>"
  have "0 \<notin> set line" using assms(1) by (auto simp: c_text_def dest: set_takeWhileD)
  then have "c_text (line @ [0]) = c_text (cmd_buff sh)" using assms(1) takeWhile_line [of line "[]"] by (simp add: c_text_def)
  note rc = run_command_text [OF this]
  have w: "wr (cmd_buff sh) 0 0 = Returns ((cmd_buff sh)[0 := 0])" using assms(2) by (intro wr_in) simp
  have "kshell_key font proc 0x0A (sh, x, st) = omap (Pair ?sh) (run_line font proc line (x, st))" if "in_cli st" for x st
    using that assms(3)
    by (simp add: kshell_key_def in_cli_def on_enter_def run_line_def rc w word_gt_0 outcome_laws case_prod_unfold)
  moreover have "holds ?sh []" using assms(2) by (simp add: holds_def)
  ultimately show ?thesis by blast
qed

lemma line_runs:
  assumes "holds sh []" "ks \<noteq> []" "length ks \<le> 1022" "list_all printable ks"
  shows "\<exists>sh'. holds sh' [] \<and> (\<forall>x st. in_cli st \<longrightarrow> kshell_keys font proc (ks @ [0x0A]) (sh, x, st)
     = obind (echo_keys font ks st) (\<lambda>st. omap (Pair sh') (run_line font proc ks (x, st))))"
proof -
  from type_line [OF assms(1) _ assms(4), of font proc] assms(3) obtain sh1 where 1: "holds sh1 ks"
    "\<And>x st. in_cli st \<Longrightarrow> kshell_keys font proc ks (sh, x, st) = omap (\<lambda>st. (sh1, x, st)) (echo_keys font ks st)" by auto
  have "length (cmd_buff sh1) = 1024" "cmd_end sh1 \<noteq> 0" using 1(1) assms(2) by (auto simp: holds_def)
  from press_enter [OF holds_text [OF 1(1)] this, of font proc] obtain sh' where 2: "holds sh' []"
    "\<And>x st. in_cli st \<Longrightarrow> kshell_key font proc 0x0A (sh1, x, st) = omap (Pair sh') (run_line font proc ks (x, st))" by blast
  have "kshell_keys font proc (ks @ [0x0A]) (sh, x, st)
      = obind (echo_keys font ks st) (\<lambda>st. omap (Pair sh') (run_line font proc ks (x, st)))" if c: "in_cli st" for x st
    unfolding kshell_keys_append 1(2) [OF c] using 2(2) echo_keys_cli [OF _ c]
    by (cases "echo_keys font ks st") (auto simp: kshell_keys.simps [abs_def])
  with 2(1) show ?thesis by blast
qed

lemma rubbed_runs:
  assumes "holds sh []" "ks \<noteq> []" "length ks \<le> 1022" "list_all printable ks" "printable k"
  shows "\<exists>sh'. holds sh' [] \<and> (\<forall>x st. in_cli st \<longrightarrow> kshell_keys font proc (ks @ [k, 0x08, 0x0A]) (sh, x, st)
     = obind (echo_keys font (ks @ [k, 0x08]) st) (\<lambda>st. omap (Pair sh') (run_line font proc (ks @ [k]) (x, st))))"
proof -
  from type_line [OF assms(1), of "ks @ [k]" font proc] assms(3-5) obtain sh1 where 1: "holds sh1 (ks @ [k])"
    "\<And>x st. in_cli st \<Longrightarrow>
       kshell_keys font proc (ks @ [k]) (sh, x, st) = omap (\<lambda>st. (sh1, x, st)) (echo_keys font (ks @ [k]) st)" by auto
  from rub_out [OF 1(1), of font proc] obtain sh2 where 2: "c_text (cmd_buff sh2) = ks @ [k]" "length (cmd_buff sh2) = 1024"
    "unat (cmd_end sh2) = length ks"
    "\<And>x st. in_cli st \<Longrightarrow> kshell_key font proc 0x08 (sh1, x, st) = omap (\<lambda>st. (sh2, x, st)) (echo_key font 0x08 st)" by auto
  have "cmd_end sh2 \<noteq> 0" using 2(3) assms(2) by auto
  from press_enter [OF 2(1,2) this, of font proc] obtain sh' where 3: "holds sh' []"
    "\<And>x st. in_cli st \<Longrightarrow> kshell_key font proc 0x0A (sh2, x, st) = omap (Pair sh') (run_line font proc (ks @ [k]) (x, st))"
    by blast
  have s: "ks @ [k, 0x08, 0x0A] = (ks @ [k]) @ [0x08, 0x0A]" "ks @ [k, 0x08] = (ks @ [k]) @ [0x08]" by simp_all
  have b: "kshell_keys font proc [0x08, 0x0A] (sh1, x, st)
      = obind (echo_key font 0x08 st) (\<lambda>st. omap (Pair sh') (run_line font proc (ks @ [k]) (x, st)))" if c: "in_cli st" for x st
    using 2(4) [OF c] 3(2) echo_cli [OF _ c]
    by (cases "echo_key font 0x08 st") (auto simp: kshell_keys.simps [abs_def])
  have "kshell_keys font proc (ks @ [k, 0x08, 0x0A]) (sh, x, st)
      = obind (echo_keys font (ks @ [k, 0x08]) st) (\<lambda>st. omap (Pair sh') (run_line font proc (ks @ [k]) (x, st)))"
    if c: "in_cli st" for x st
    unfolding s kshell_keys_append [of font proc "ks @ [k]"] echo_keys_append [of font "ks @ [k]"] 1(2) [OF c]
    using b echo_keys_cli [OF _ c]
    by (cases "echo_keys font (ks @ [k]) st") (auto simp del: kshell_keys.simps simp: echo_keys.simps [abs_def])
  with 3(1) show ?thesis by blast
qed

text \<open>
  a line of at most 1022 characters typed into an empty buffer is echoed, and Enter runs it as a
  command, prints the prompt and leaves an empty buffer; with a character typed too much and rubbed out again
  before Enter, that character is still in the text that is run.
\<close>

theorem typed_command:
  assumes "holds sh []" "ks \<noteq> []" "length ks \<le> 1022" "list_all printable ks" "printable k"
  shows "(\<exists>sh'. holds sh' [] \<and> (\<forall>x st. in_cli st \<longrightarrow> kshell_keys font proc (ks @ [0x0A]) (sh, x, st)
            = obind (echo_keys font ks st) (\<lambda>st. omap (Pair sh') (run_line font proc ks (x, st)))))
     \<and> (\<exists>sh'. holds sh' [] \<and> (\<forall>x st. in_cli st \<longrightarrow> kshell_keys font proc (ks @ [k, 0x08, 0x0A]) (sh, x, st)
            = obind (echo_keys font (ks @ [k, 0x08]) st) (\<lambda>st. omap (Pair sh') (run_line font proc (ks @ [k]) (x, st)))))"
  using line_runs [OF assms(1-4), of font proc] rubbed_runs [OF assms, of font proc] by blast

lemma kshell_start_holds: "holds kshell_start []"
  by (simp add: holds_def kshell_start_def)

lemma typed_command_witness:
  "\<forall>tm ks proc. (\<exists>sh'. holds sh' [] \<and> kshell_keys demo_font proc ([0x6C, 0x73] @ [0x0A])
            (kshell_start, (), ks, tm\<lparr>term_active_mode := TERM_MODE_CLI\<rparr>)
         = obind (echo_keys demo_font [0x6C, 0x73] (ks, tm\<lparr>term_active_mode := TERM_MODE_CLI\<rparr>))
             (\<lambda>st. omap (Pair sh') (run_line demo_font proc [0x6C, 0x73] ((), st))))
     \<and> run_command demo_font proc ([0x6C, 0x73] @ [0]) = proc 3
     \<and> run_command demo_font proc (([0x6C, 0x73] @ [0x78]) @ [0])
         = (\<lambda>(x, st). omap (Pair x) (kprintf demo_font (c_lit (''Sorry, I cannot understand.'' @ [CHR 0x0A])) [] st))"
  (is "\<forall>tm ks proc. ?P tm ks proc")
proof (intro allI)
  fix tm ks and proc :: "nat \<Rightarrow> unit command"
  have p: "list_all printable [0x6C, 0x73]" "printable 0x78" by (simp_all add: printable_def)
  have c: "in_cli (ks, tm\<lparr>term_active_mode := TERM_MODE_CLI\<rparr>)" by (simp add: in_cli_def)
  have l: "[0x6C, 0x73 :: u8] \<noteq> []" "length [0x6C, 0x73 :: u8] \<le> 1022" by simp_all
  note typed_command [OF kshell_start_holds l p, of demo_font proc, THEN conjunct1]
  moreover have "run_command demo_font proc ([0x6C, 0x73] @ [0]) = proc 3"
    by (intro ext) (simp add: run_command_def same_text_def c_text_def cmd_list_def numeral_3_eq_3 split: prod.split)
  moreover have "run_command demo_font proc (([0x6C, 0x73] @ [0x78]) @ [0])
      = (\<lambda>(x, st). omap (Pair x) (kprintf demo_font (c_lit (''Sorry, I cannot understand.'' @ [CHR 0x0A])) [] st))"
    by (intro ext) (simp add: run_command_def same_text_def c_text_def cmd_list_def split: prod.split)
  ultimately show "?P tm ks proc" using c by blast
qed

end
