(* ===== verification/Sectors.thy ===== *)
theory Sectors
  imports Hanos_Prelude
begin

text \<open>
  The interface between the ATA driver and FAT32: reading and writing runs of 512-byte sectors of
  a numbered device. The driver provides it (\<open>Ata\<close>), the file system uses it (\<open>Fat32\<close>).
\<close>

definition ATA_SECTOR_SIZE :: nat where "ATA_SECTOR_SIZE = 512"

record 'h disk =
  read28 :: "nat \<Rightarrow> u32 \<Rightarrow> u8 \<Rightarrow> 'h \<Rightarrow> (u8 list \<times> 'h) outcome"
  write28 :: "nat \<Rightarrow> u32 \<Rightarrow> u8 \<Rightarrow> u8 list \<Rightarrow> 'h \<Rightarrow> 'h outcome"

text \<open>
  The contract. \<open>sector h dev n\<close> is what sector \<open>n\<close> of device \<open>dev\<close> holds; a run starts at a
  28-bit address and has 1 to 255 sectors.
\<close>

definition run_ok :: "u32 \<Rightarrow> u8 \<Rightarrow> bool" where
  "run_ok lba n \<longleftrightarrow> 0 < n \<and> unat lba + unat n \<le> 2 ^ 28"

locale sector_device =
  fixes D :: "'h disk" and ok :: "'h \<Rightarrow> bool" and ready :: "nat \<Rightarrow> bool" and sector :: "'h \<Rightarrow> nat \<Rightarrow> nat \<Rightarrow> u8 list"
  assumes sector_length: "ok h \<Longrightarrow> length (sector h dev k) = ATA_SECTOR_SIZE"
    and read_law: "ok h \<Longrightarrow> ready dev \<Longrightarrow> run_ok lba n \<Longrightarrow>
       \<exists>h'. read28 D dev lba n h = Returns (concat (map (sector h dev) [unat lba..<unat lba + unat n]), h')
          \<and> ok h' \<and> (\<forall>d k. sector h' d k = sector h d k)"
    and write_law: "ok h \<Longrightarrow> ready dev \<Longrightarrow> run_ok lba n \<Longrightarrow> length src = unat n * ATA_SECTOR_SIZE \<Longrightarrow>
       \<exists>h'. write28 D dev lba n src h = Returns h' \<and> ok h'
          \<and> (\<forall>k < unat n. sector h' dev (unat lba + k) = take ATA_SECTOR_SIZE (drop (ATA_SECTOR_SIZE * k) src))
          \<and> (\<forall>d k. d \<noteq> dev \<or> k \<notin> {unat lba..<unat lba + unat n} \<longrightarrow> sector h' d k = sector h d k)"
begin

lemma write_run:
  assumes "ok h" "ready dev" "run_ok lba n" "length src = unat n * ATA_SECTOR_SIZE"
  shows "\<exists>h'. write28 D dev lba n src h = Returns h' \<and> ok h'
     \<and> concat (map (sector h' dev) [unat lba..<unat lba + unat n]) = src
     \<and> (\<forall>d k. d \<noteq> dev \<or> k \<notin> {unat lba..<unat lba + unat n} \<longrightarrow> sector h' d k = sector h d k)"
proof -
  from write_law [OF assms] obtain h' where h': "write28 D dev lba n src h = Returns h'" "ok h'"
    "\<And>k. k < unat n \<Longrightarrow> sector h' dev (unat lba + k) = take ATA_SECTOR_SIZE (drop (ATA_SECTOR_SIZE * k) src)"
    "\<forall>d k. d \<noteq> dev \<or> k \<notin> {unat lba..<unat lba + unat n} \<longrightarrow> sector h' d k = sector h d k" by auto
  have gen: "concat (map (\<lambda>k. take c (drop (c * k) src)) [0..<m]) = take (c * m) src" for c m
  proof (induction m)
    case (Suc m)
    have "take (c * Suc m) src = take (c * m) src @ take c (drop (c * m) src)"
      by (simp add: take_add add.commute [of c])
    with Suc show ?case by simp
  qed simp
  have "map (sector h' dev) [unat lba..<unat lba + unat n]
      = map (\<lambda>k. sector h' dev (unat lba + k)) [0..<unat n]"
    by (rule nth_equalityI) simp_all
  also have "\<dots> = map (\<lambda>k. take ATA_SECTOR_SIZE (drop (ATA_SECTOR_SIZE * k) src)) [0..<unat n]"
    using h'(3) by simp
  finally have "concat (map (sector h' dev) [unat lba..<unat lba + unat n]) = src"
    using gen [of ATA_SECTOR_SIZE "unat n"] assms(4) by (simp add: mult.commute)
  with h' show ?thesis by blast
qed

lemma write_read:
  assumes "ok h" "ready dev" "run_ok lba n" "length src = unat n * ATA_SECTOR_SIZE"
  shows "\<exists>h1 h2. write28 D dev lba n src h = Returns h1 \<and> read28 D dev lba n h1 = Returns (src, h2) \<and> ok h2"
  using write_run [OF assms] read_law [OF _ assms(2,3)] by metis

end

end
