(* ===== verification/Fat32.thy ===== *)
theory Fat32
  imports Vfs_Files Sectors Calendar CString
begin

text \<open>
  The FAT32 file system (\<open>fs/fat32.c\<close>, \<open>fat32.h\<close>): cluster chains, names, the directory reader and
  the operations the VFS calls. Identity blocks (\<open>fat32_ident_t\<close>) and FAT tables live in maps keyed
  by their address, as several identity blocks share one table. Buffers are byte lists with their
  bounds; memory fresh from \<open>kmalloc\<close> holds the bytes of \<open>junk\<close>. Sectors are read and written
  through the disk interface \<open>D\<close>. Log lines are left out.
\<close>

section \<open>Data\<close>

definition FAT32_ATTR_DIRECTORY :: u8 where "FAT32_ATTR_DIRECTORY = 0x10"
definition FAT32_ATTR_LONGNAME :: u8 where "FAT32_ATTR_LONGNAME = 0x0F"

record fat32_bs_info =
  bytes_per_sector :: u16
  sectors_per_cluster :: u8
  reserved_sector_count :: u16
  num_fats :: u8
  sectors_per_fat :: u32
  root_dir_first_cluster :: u32
  fat_begin_lba :: u32
  cluster_begin_lba :: u32
  total_sectors :: u32

record fat32_entry =
  fe_name :: "u8 list"
  fe_attribute :: u8
  fe_cluster :: u32
  fe_size :: u32
  fe_dir_cluster :: u32
  fe_dir_index :: u64

record fat32_ident =
  fdevice :: "nat option"
  fbs :: fat32_bs_info
  fentry :: fat32_entry
  ffat :: "nat option"
  fat_len :: u64

record fat32_ident_item =
  it_entry :: "u8 list"
  it_tm :: tm
  it_name :: "u8 list"
  it_parent :: nat

record 'h fat32_dev =
  idents :: "nat \<Rightarrow> fat32_ident option"
  fats :: "nat \<Rightarrow> u32 list option"
  next_addr :: nat
  filelist :: "fat32_ident_item list"
  drive :: 'h
  junk :: "nat \<Rightarrow> u8"

type_synonym 'h fat_vfs = "'h fat32_dev vfs"

definition zero_entry :: fat32_entry where
  "zero_entry = \<lparr>fe_name = replicate 11 0, fe_attribute = 0, fe_cluster = 0, fe_size = 0,
     fe_dir_cluster = 0, fe_dir_index = 0\<rparr>"

definition zero_ident :: fat32_ident where
  "zero_ident = \<lparr>fdevice = None, fbs = \<lparr>bytes_per_sector = 0, sectors_per_cluster = 0,
     reserved_sector_count = 0, num_fats = 0, sectors_per_fat = 0, root_dir_first_cluster = 0,
     fat_begin_lba = 0, cluster_begin_lba = 0, total_sectors = 0\<rparr>,
     fentry = zero_entry, ffat = None, fat_len = 0\<rparr>"

section \<open>Bytes\<close>

definition sub_bytes :: "u8 list \<Rightarrow> nat \<Rightarrow> nat \<Rightarrow> u8 list outcome" where
  "sub_bytes b off n = (if off + n \<le> length b then Returns (take n (drop off b)) else Faults OutOfBounds)"

definition blit :: "u8 list \<Rightarrow> nat \<Rightarrow> u8 list \<Rightarrow> u8 list outcome" where
  "blit b off src =
     (if off + length src \<le> length b then Returns (take off b @ src @ drop (off + length src) b)
      else Faults OutOfBounds)"

definition field :: "u8 list \<Rightarrow> nat \<Rightarrow> nat \<Rightarrow> 'a::len word" where
  "field b off n = le_word (take n (drop off b))"

definition words_of :: "u8 list \<Rightarrow> u32 list" where
  "words_of b = map (\<lambda>k. field b (4 * k) 4) [0..<length b div 4]"

definition bytes_of :: "u32 list \<Rightarrow> u8 list" where
  "bytes_of ws = concat (map (word_le 4) ws)"

section \<open>Cluster chains: \<open>fat32.h\<close>\<close>

definition fat32_get_next_cluster :: "u32 \<Rightarrow> u32 list \<Rightarrow> u32 \<Rightarrow> u32 outcome" where
  "fat32_get_next_cluster cluster fat len =
     (if cluster \<ge> len div 4 then Returns 0
      else omap (\<lambda>v. if v \<ge> 0xFFFFFFF8 \<or> v = 0x0FFFFFFF then 0 else v) (rd fat (unat cluster)))"

function free_from :: "u32 list \<Rightarrow> nat \<Rightarrow> nat \<Rightarrow> nat outcome" where
  "free_from fat len i =
     (if i < len then obind (rd fat i) (\<lambda>v. if v = 0 then Returns i else free_from fat len (i + 1))
      else Returns 0)"
  by pat_completeness auto
termination by (relation "measure (\<lambda>(fat, len, i). len - i)") auto

declare free_from.simps [simp del]

definition fat32_get_free_cluster :: "u32 list \<Rightarrow> u32 \<Rightarrow> u32 outcome" where
  "fat32_get_free_cluster fat len = omap of_nat (free_from fat (unat len) 0)"

section \<open>Names: \<open>fat32.h\<close>\<close>

definition SPACE :: u8 where "SPACE = 0x20"
definition DOT :: u8 where "DOT = 0x2E"

definition fat32_get_short_filename :: "u8 list \<Rightarrow> u8 list" where
  "fat32_get_short_filename name_and_ext =
     (let fn = takeWhile (\<lambda>c. c \<noteq> SPACE \<and> c \<noteq> 0) (take 8 name_and_ext);
          ext = takeWhile (\<lambda>c. c \<noteq> SPACE \<and> c \<noteq> 0) (take 3 (drop 8 name_and_ext))
      in if length ext > 0 then fn @ [DOT] @ ext else fn)"

fun fat32_name_copy :: "u8 list \<Rightarrow> nat \<Rightarrow> nat \<Rightarrow> u8 list" where
  "fat32_name_copy e src 0 = []"
| "fat32_name_copy e src (Suc len) = e ! src # fat32_name_copy e (src + 2) len"

text \<open>The thirteen characters of a long name entry, up to the first zero.\<close>

definition lfn_part :: "u8 list \<Rightarrow> u8 list" where
  "lfn_part e = takeWhile (\<lambda>c. c \<noteq> 0) (fat32_name_copy e 1 5 @ fat32_name_copy e 14 6 @ fat32_name_copy e 28 2)"

text \<open>
  The loop over the entries from \<open>lfne\<close> to \<open>lfne_last\<close>: \<open>fname\<close> is the text so far. The answer is
  the number of entries read (0 when the last one is reached first) and the text.
\<close>

fun lfn_loop :: "u8 list list \<Rightarrow> u32 \<Rightarrow> u32 \<Rightarrow> u8 list \<Rightarrow> (u32 \<times> u8 list) outcome" where
  "lfn_loop [] count entry_num fname = Returns (0, fname)"
| "lfn_loop (e # es) count entry_num fname =
     (let idx = ucast (e ! 0 AND 0x3F);
          text = lfn_part e @ fname;
          entry_num = (if e ! 0 AND 0x40 \<noteq> 0 then idx else entry_num)
      in if VFS_MAX_NAME_LEN \<le> length text then Faults OutOfBounds
         else if idx = 1 \<and> count + 1 = entry_num then Returns (count + 1, text)
         else lfn_loop es (count + 1) entry_num text)"

definition fat32_get_long_filename :: "u8 list list \<Rightarrow> (u32 \<times> u8 list) outcome" where
  "fat32_get_long_filename es = lfn_loop es 0 0 []"

definition fat32_checksum :: "u8 list \<Rightarrow> u8" where
  "fat32_checksum name = foldl (\<lambda>s c. push_bit 7 s + drop_bit 1 s + c) (name ! 0) (take 10 (drop 1 name))"

text \<open>
  The time of the last change. Past 2099 \<open>localtime\<close> leaves its target as it finds it; it is zero
  here.
\<close>

definition fat32_get_datetime :: "u8 list \<Rightarrow> tm outcome" where
  "fat32_get_datetime de =
     (let date = field de 24 2 :: u16; time = field de 22 2 :: u16;
          year = uint (drop_bit 9 (date AND 0xFE00)) + 1980;
          month = uint (drop_bit 5 (date AND 0x01E0));
          day = uint (date AND 0x001F);
          hour = uint (drop_bit 11 (time AND 0xF800));
          mins = uint (drop_bit 5 (time AND 0x07E0));
          sec = uint (time AND 0x001F) * 2
      in obind (secs_of_years (of_int (year - 1))) (\<lambda>ys.
         obind (secs_of_month (of_int (month - 1)) (of_int year)) (\<lambda>ms.
           localtime (ys + ms + of_int ((day - 1) * 86400) + of_int (hour * 3600) + of_int (mins * 60)
                      + of_int sec) zero_tm)))"

section \<open>Identity blocks and the disk\<close>

definition ident_key :: "'h fat_vfs \<Rightarrow> nat \<Rightarrow> nat outcome" where
  "ident_key s i = obind (inode_at s i) (\<lambda>n. case iident n of None \<Rightarrow> Faults NullDeref | Some k \<Rightarrow> Returns k)"

definition ident_at :: "'h fat_vfs \<Rightarrow> nat \<Rightarrow> fat32_ident outcome" where
  "ident_at s k = (case idents (fsdev s) k of None \<Rightarrow> Faults NullDeref | Some fi \<Rightarrow> Returns fi)"

definition ident_of :: "'h fat_vfs \<Rightarrow> nat \<Rightarrow> fat32_ident outcome" where
  "ident_of s i = obind (ident_key s i) (ident_at s)"

definition put_ident :: "nat \<Rightarrow> fat32_ident \<Rightarrow> 'h fat_vfs \<Rightarrow> 'h fat_vfs" where
  "put_ident k fi s = s\<lparr>fsdev := (fsdev s)\<lparr>idents := (idents (fsdev s))(k \<mapsto> fi)\<rparr>\<rparr>"

definition fat_of :: "'h fat_vfs \<Rightarrow> fat32_ident \<Rightarrow> u32 list outcome" where
  "fat_of s fi =
     (case ffat fi of None \<Rightarrow> Faults NullDeref
      | Some a \<Rightarrow> (case fats (fsdev s) a of None \<Rightarrow> Faults NullDeref | Some ws \<Rightarrow> Returns ws))"

definition put_fat :: "fat32_ident \<Rightarrow> u32 list \<Rightarrow> 'h fat_vfs \<Rightarrow> 'h fat_vfs" where
  "put_fat fi ws s = s\<lparr>fsdev := (fsdev s)\<lparr>fats := (fats (fsdev s))(the (ffat fi) \<mapsto> ws)\<rparr>\<rparr>"

definition fresh_bytes :: "'h fat_vfs \<Rightarrow> u64 \<Rightarrow> u8 list" where
  "fresh_bytes s n = map (junk (fsdev s)) [0..<unat n]"

definition dev_read :: "'h disk \<Rightarrow> fat32_ident \<Rightarrow> u32 \<Rightarrow> u8 \<Rightarrow> 'h fat_vfs \<Rightarrow> (u8 list \<times> 'h fat_vfs) outcome" where
  "dev_read D fi lba n s =
     (case fdevice fi of None \<Rightarrow> Faults NullDeref
      | Some dev \<Rightarrow> omap (\<lambda>(b, h). (b, s\<lparr>fsdev := (fsdev s)\<lparr>drive := h\<rparr>\<rparr>)) (read28 D dev lba n (drive (fsdev s))))"

definition dev_write :: "'h disk \<Rightarrow> fat32_ident \<Rightarrow> u32 \<Rightarrow> u8 \<Rightarrow> u8 list \<Rightarrow> 'h fat_vfs \<Rightarrow> 'h fat_vfs outcome" where
  "dev_write D fi lba n src s =
     (case fdevice fi of None \<Rightarrow> Faults NullDeref
      | Some dev \<Rightarrow> omap (\<lambda>h. s\<lparr>fsdev := (fsdev s)\<lparr>drive := h\<rparr>\<rparr>) (write28 D dev lba n src (drive (fsdev s))))"

definition cluster_lba :: "fat32_ident \<Rightarrow> u32 \<Rightarrow> u32" where
  "cluster_lba fi c = cluster_begin_lba (fbs fi) + (c - 2) * ucast (sectors_per_cluster (fbs fi))"

definition cluster_bytes :: "fat32_ident \<Rightarrow> u64" where
  "cluster_bytes fi = ucast (bytes_per_sector (fbs fi)) * ucast (sectors_per_cluster (fbs fi))"

definition next_cluster :: "fat32_ident \<Rightarrow> u32 \<Rightarrow> 'h fat_vfs \<Rightarrow> u32 outcome" where
  "next_cluster fi c s = obind (fat_of s fi) (\<lambda>ws. fat32_get_next_cluster c ws (ucast (fat_len fi)))"

definition create_ident :: "fat32_ident \<Rightarrow> 'h fat_vfs \<Rightarrow> nat \<times> 'h fat_vfs" where
  "create_ident fi s =
     (let k = next_addr (fsdev s)
      in (k, s\<lparr>fsdev := (fsdev s)\<lparr>idents := (idents (fsdev s))(k \<mapsto> fi), next_addr := k + 1\<rparr>\<rparr>))"

section \<open>Reading and writing files\<close>

definition div_roundup :: "u64 \<Rightarrow> u64 \<Rightarrow> u64" where
  "div_roundup a b = (a + (b - 1)) div b"

definition sector_num :: "fat32_ident \<Rightarrow> u64 \<Rightarrow> u64 outcome" where
  "sector_num fi n =
     (if bytes_per_sector (fbs fi) = 0 then Faults DivByZero
      else Returns (div_roundup n (ucast (bytes_per_sector (fbs fi)))))"

text \<open>One round of the read loop: a cluster into the buffer, then the next cluster of the chain.\<close>

definition read_step :: "'h disk \<Rightarrow> fat32_ident \<Rightarrow> u32 \<times> u64 \<times> u8 list \<times> 'h fat_vfs
    \<Rightarrow> ((u32 \<times> u64 \<times> u8 list \<times> 'h fat_vfs) + u8 list \<times> 'h fat_vfs) outcome" where
  "read_step D fi st =
     (case st of (cluster, readlen, dd, s) \<Rightarrow>
        obind (dev_read D fi (cluster_lba fi cluster) (sectors_per_cluster (fbs fi)) s) (\<lambda>(bytes, s).
        obind (blit dd (unat readlen) bytes) (\<lambda>dd.
        obind (next_cluster fi cluster s) (\<lambda>c.
          Returns (if c = 0 then Inr (dd, s) else Inl (c, readlen + cluster_bytes fi, dd, s))))))"

definition ret_len :: "u64 \<Rightarrow> u64 \<Rightarrow> u64 \<Rightarrow> u64" where
  "ret_len nbytes off len = (if nbytes - off < len then nbytes - off else len)"

definition fat32_read :: "'h disk \<Rightarrow> nat \<Rightarrow> u64 \<Rightarrow> u64 \<Rightarrow> 'h fat_vfs \<Rightarrow> (int \<times> u8 list \<times> 'h fat_vfs) outcome" where
  "fat32_read D this off len s =
     obind (ident_of s this) (\<lambda>fi.
     obind (sector_num fi (off + len)) (\<lambda>num.
       let nbytes = num * ucast (bytes_per_sector (fbs fi)) in
       obind (loop_c (read_step D fi) (fe_cluster (fentry fi), 0, fresh_bytes s nbytes, s)) (\<lambda>(dd, s).
         omap (\<lambda>buff. (sint (ret_len nbytes off len), buff, s))
           (sub_bytes dd (unat off) (unat (ret_len nbytes off len))))))"

definition fat32_read_entry ::
  "'h disk \<Rightarrow> nat \<Rightarrow> u32 \<Rightarrow> u64 \<Rightarrow> 'h fat_vfs \<Rightarrow> (fat32_entry \<times> 'h fat_vfs) outcome" where
  "fat32_read_entry D this cluster index s =
     obind (ident_of s this) (\<lambda>fi.
     obind (dev_read D fi (cluster_lba fi cluster) 1 s) (\<lambda>(dd, s).
       omap (\<lambda>de. (\<lparr>fe_name = take 11 de, fe_attribute = de ! 11,
                     fe_cluster = (field de 26 2) OR push_bit 16 (field de 20 2),
                     fe_size = field de 28 4, fe_dir_cluster = cluster, fe_dir_index = index\<rparr>, s))
         (sub_bytes dd (32 * unat index) 32)))"

text \<open>The fields of a directory entry that the code rewrites; the others keep their bytes.\<close>

definition set_dir_entry :: "u8 list \<Rightarrow> fat32_entry \<Rightarrow> u8 list" where
  "set_dir_entry de src =
     take 11 (fe_name src) @ [fe_attribute src] @ take 8 (drop 12 de)
       @ word_le 2 (drop_bit 16 (fe_cluster src)) @ take 4 (drop 22 de) @ word_le 2 (fe_cluster src)
       @ word_le 4 (fe_size src)"

definition fat32_write_entry :: "'h disk \<Rightarrow> nat \<Rightarrow> fat32_entry \<Rightarrow> 'h fat_vfs \<Rightarrow> 'h fat_vfs outcome" where
  "fat32_write_entry D this src s =
     obind (ident_of s this) (\<lambda>fi.
       let lba = cluster_lba fi (fe_dir_cluster src); pos = 32 * unat (fe_dir_index src) in
       obind (dev_read D fi lba 1 s) (\<lambda>(dd, s).
       obind (sub_bytes dd pos 32) (\<lambda>de.
       obind (blit dd pos (set_dir_entry de src)) (\<lambda>dd. dev_write D fi lba 1 dd s))))"

text \<open>The sector of the table that holds the word of a cluster, counted from 1 by the code.\<close>

definition fat_sector_no :: "fat32_ident \<Rightarrow> u32 \<Rightarrow> u64" where
  "fat_sector_no fi c =
     ucast ((c * 4 + (ucast (bytes_per_sector (fbs fi)) - 1)) div ucast (bytes_per_sector (fbs fi)))"

definition write_fat_sector :: "'h disk \<Rightarrow> fat32_ident \<Rightarrow> u64 \<Rightarrow> 'h fat_vfs \<Rightarrow> 'h fat_vfs outcome" where
  "write_fat_sector D fi no s =
     obind (fat_of s fi) (\<lambda>ws.
     obind (sub_bytes (bytes_of ws) (unat ((no - 1) * ucast (bytes_per_sector (fbs fi)))) ATA_SECTOR_SIZE) (\<lambda>src.
       dev_write D fi (ucast (ucast (fat_begin_lba (fbs fi)) + no - 1)) 1 src s))"

definition extend_chain :: "'h disk \<Rightarrow> fat32_ident \<Rightarrow> u32 \<Rightarrow> 'h fat_vfs \<Rightarrow> (u32 \<times> 'h fat_vfs) outcome" where
  "extend_chain D fi cluster s =
     obind (fat_of s fi) (\<lambda>ws.
     obind (fat32_get_free_cluster ws (ucast (fat_len fi))) (\<lambda>c.
     obind (wr ws (unat cluster) c) (\<lambda>ws.
     obind (wr ws (unat c) 0x0FFFFFFF) (\<lambda>ws.
       let no = fat_sector_no fi cluster; no' = fat_sector_no fi c in
       obind (write_fat_sector D fi no (put_fat fi ws s)) (\<lambda>s.
         omap (Pair c) (if no' \<noteq> no then write_fat_sector D fi no' s else Returns s))))))"

definition write_step :: "'h disk \<Rightarrow> fat32_ident \<Rightarrow> u8 list \<Rightarrow> u64 \<Rightarrow> u32 \<times> u64 \<times> 'h fat_vfs
    \<Rightarrow> ((u32 \<times> u64 \<times> 'h fat_vfs) + 'h fat_vfs) outcome" where
  "write_step D fi dd nbytes st =
     (case st of (cluster, writelen, s) \<Rightarrow>
        obind (sub_bytes dd (unat writelen) (ATA_SECTOR_SIZE * unat (sectors_per_cluster (fbs fi)))) (\<lambda>src.
        obind (dev_write D fi (cluster_lba fi cluster) (sectors_per_cluster (fbs fi)) src s) (\<lambda>s.
          let writelen = writelen + cluster_bytes fi in
          if writelen \<ge> nbytes then Returns (Inr s)
          else obind (next_cluster fi cluster s) (\<lambda>c.
                 if c \<noteq> 0 then Returns (Inl (c, writelen, s))
                 else omap (\<lambda>(c, s). Inl (c, writelen, s)) (extend_chain D fi cluster s)))))"

definition grow_entry :: "'h disk \<Rightarrow> nat \<Rightarrow> u64 \<Rightarrow> 'h fat_vfs \<Rightarrow> 'h fat_vfs outcome" where
  "grow_entry D this end s =
     obind (ident_key s this) (\<lambda>k. obind (ident_at s k) (\<lambda>fi.
       if end > ucast (fe_size (fentry fi)) then
         let e = (fentry fi)\<lparr>fe_size := ucast end\<rparr>
         in fat32_write_entry D this e (put_ident k (fi\<lparr>fentry := e\<rparr>) s)
       else Returns s))"

definition fat32_write :: "'h disk \<Rightarrow> nat \<Rightarrow> u64 \<Rightarrow> u64 \<Rightarrow> u8 list \<Rightarrow> 'h fat_vfs \<Rightarrow> (int \<times> 'h fat_vfs) outcome" where
  "fat32_write D this off len buff s =
     obind (ident_of s this) (\<lambda>fi.
     obind (sector_num fi (off + len)) (\<lambda>num.
       let nbytes = num * ucast (bytes_per_sector (fbs fi)) in
       obind (fat32_read D this 0 nbytes s) (\<lambda>(_, old, s).
       obind (blit (fresh_bytes s nbytes) 0 old) (\<lambda>dd.
       obind (sub_bytes buff 0 (unat len)) (\<lambda>new.
       obind (blit dd (unat off) new) (\<lambda>dd.
       obind (loop_c (write_step D fi dd nbytes) (fe_cluster (fentry fi), 0, s)) (\<lambda>s.
         omap (Pair (sint (ret_len nbytes off len))) (grow_entry D this (off + len) s))))))))"

definition fat32_sync :: "nat \<Rightarrow> 'h fat_vfs \<Rightarrow> (int \<times> 'h fat_vfs) outcome" where
  "fat32_sync this s = omap (\<lambda>_. (0, s)) (inode_at s this)"

section \<open>Directories\<close>

definition fat32_getdent :: "nat \<Rightarrow> u64 \<Rightarrow> 'h fat_vfs \<Rightarrow> (int \<times> vfs_dirent \<times> 'h fat_vfs) outcome" where
  "fat32_getdent this pos s =
     (let items = filter (\<lambda>it. it_parent it = this) (filelist (fsdev s)) in
      if unat pos < length items then
        let it = items ! unat pos
        in Returns (0, \<lparr>de_type = (if it_entry it ! 11 AND FAT32_ATTR_DIRECTORY \<noteq> 0 then VFS_NODE_FOLDER else VFS_NODE_FILE),
                        de_tm = it_tm it, de_name = it_name it\<rparr>, s)
      else Returns (-1, \<lparr>de_type = VFS_NODE_FILE, de_tm = zero_tm, de_name = []\<rparr>, s))"

text \<open>The entry that follows the long name, filed under the name found (or its short name).\<close>

definition add_item :: "nat \<Rightarrow> u8 list \<Rightarrow> u64 \<Rightarrow> u8 list \<Rightarrow> 'h fat_vfs \<Rightarrow> 'h fat_vfs outcome" where
  "add_item this buf i fn s =
     obind (sub_bytes buf (32 * unat i) 32) (\<lambda>fe.
     omap (\<lambda>t. s\<lparr>fsdev := (fsdev s)\<lparr>filelist := filelist (fsdev s) @
              [\<lparr>it_entry = fe, it_tm = t, it_name = (if fn = [] then fat32_get_short_filename fe else fn),
                it_parent = this\<rparr>]\<rparr>\<rparr>)
       (fat32_get_datetime fe))"

definition entries_from :: "u8 list \<Rightarrow> u64 \<Rightarrow> u64 \<Rightarrow> u8 list list" where
  "entries_from buf tlen i = map (\<lambda>k. take 32 (drop (32 * k) buf)) [unat i..<unat (tlen div 32)]"

text \<open>
  A long name that runs past the cluster: the rest of the buffer is moved to the front of a new
  one and the next cluster read behind \<open>i\<close> entries (where the code puts it).
\<close>

definition load_more :: "'h disk \<Rightarrow> fat32_ident \<Rightarrow> u32 \<Rightarrow> u64 \<times> u64 \<times> u8 list \<times> 'h fat_vfs
    \<Rightarrow> (u64 \<times> u64 \<times> u8 list \<times> 'h fat_vfs) outcome" where
  "load_more D fi next st =
     (case st of (i, tlen, buf, s) \<Rightarrow>
        let newlen = tlen + cluster_bytes fi - i * 32 in
        obind (sub_bytes buf (32 * unat i) (unat (tlen - i * 32))) (\<lambda>rest.
        obind (blit (fresh_bytes s newlen) 0 rest) (\<lambda>buf.
        obind (dev_read D fi (cluster_lba fi next) (sectors_per_cluster (fbs fi)) s) (\<lambda>(bytes, s).
          omap (\<lambda>buf. (0, newlen, buf, s)) (blit buf (32 * unat i) bytes)))))"

definition dir_step :: "'h disk \<Rightarrow> fat32_ident \<Rightarrow> nat \<Rightarrow> u32 \<Rightarrow> u64 \<times> u64 \<times> u8 list \<times> 'h fat_vfs
    \<Rightarrow> ((u64 \<times> u64 \<times> u8 list \<times> 'h fat_vfs) + u64 \<times> u8 list \<times> 'h fat_vfs) outcome" where
  "dir_step D fi this next st =
     (case st of (i, tlen, buf, s) \<Rightarrow>
        if i < tlen div 32 then
          obind (sub_bytes buf (32 * unat i) 32) (\<lambda>fe.
            if fe ! 11 = 0 then Returns (Inl (i + 1, tlen, buf, s))
            else if fe ! 11 AND FAT32_ATTR_LONGNAME \<noteq> 0 then
              obind (fat32_get_long_filename (entries_from buf tlen i)) (\<lambda>(count, fn).
                if count > 0 then
                  omap (\<lambda>s. Inl (i + ucast count + 1, tlen, buf, s)) (add_item this buf (i + ucast count) fn s)
                else if next = 0 \<or> next \<ge> 0xFFFFFFF8 then Returns (Inr (tlen, buf, s))
                else omap Inl (load_more D fi next st))
            else omap (\<lambda>s. Inl (i + 1, tlen, buf, s)) (add_item this buf i [] s))
        else Returns (Inr (tlen, buf, s)))"

definition dir_round :: "'h disk \<Rightarrow> fat32_ident \<Rightarrow> nat \<Rightarrow> u32 \<times> u64 \<times> u8 list \<times> 'h fat_vfs
    \<Rightarrow> ((u32 \<times> u64 \<times> u8 list \<times> 'h fat_vfs) + 'h fat_vfs) outcome" where
  "dir_round D fi this st =
     (case st of (cluster, tlen, buf, s) \<Rightarrow>
        obind (dev_read D fi (cluster_lba fi cluster) (sectors_per_cluster (fbs fi)) s) (\<lambda>(bytes, s).
        obind (blit buf 0 bytes) (\<lambda>buf.
        obind (next_cluster fi cluster s) (\<lambda>next.
        obind (loop_c (dir_step D fi this next) (0, tlen, buf, s)) (\<lambda>(tlen, buf, s).
          Returns (if next = 0 \<or> next \<ge> 0xFFFFFFF8 then Inr s else Inl (next, tlen, buf, s)))))))"

definition fat32_refresh :: "'h disk \<Rightarrow> nat \<Rightarrow> 'h fat_vfs \<Rightarrow> (int \<times> 'h fat_vfs) outcome" where
  "fat32_refresh D this s =
     obind (ident_of s this) (\<lambda>fi.
       let len = cluster_bytes fi; c = fe_cluster (fentry fi) in
       omap (Pair 0) (loop_c (dir_round D fi this) (if c < 2 then 2 else c, len, fresh_bytes s len, s)))"

definition fat32_mknode :: "nat \<Rightarrow> 'h fat_vfs \<Rightarrow> (int \<times> 'h fat_vfs) outcome" where
  "fat32_mknode this s =
     obind (tnode_at s this) (\<lambda>t. obind (inode_at s (tinode t)) (\<lambda>n.
       let (k, s) = create_ident zero_ident s
       in Returns (0, put_inode (tinode t) (n\<lparr>iident := Some k\<rparr>) s)))"

section \<open>Lookup\<close>

definition up8 :: "u8 \<Rightarrow> u8" where
  "up8 c = of_int (toupper (sint c))"

definition pad_to :: "nat \<Rightarrow> u8 list \<Rightarrow> u8 list" where
  "pad_to n cs = take n cs @ replicate (n - length cs) SPACE"

text \<open>
  A path component as the eleven bytes of a directory entry. An empty component makes the code
  read the byte before it.
\<close>

definition short_name_of :: "u8 list \<Rightarrow> u8 list outcome" where
  "short_name_of path =
     (if path = [] then Faults OutOfBounds
      else if DOT \<in> set path then
        Returns (map up8 (pad_to 8 (takeWhile (\<lambda>c. c \<noteq> DOT) path)
                          @ pad_to 3 (tl (dropWhile (\<lambda>c. c \<noteq> DOT) path))))
      else Returns (map up8 (pad_to 11 (take 8 path))))"

definition fat32_compare_entry_and_path :: "fat32_entry \<Rightarrow> u8 list \<Rightarrow> bool outcome" where
  "fat32_compare_entry_and_path ent path = omap (\<lambda>name. fe_name ent = name) (short_name_of path)"

text \<open>The component to look for, whether it is the last one, and the path after it.\<close>

definition split_path :: "u8 list \<Rightarrow> u8 list \<times> bool \<times> u8 list" where
  "split_path path =
     (let after = tl (dropWhile (\<lambda>c. c \<noteq> SLASH) path) in
      if after = [] then (path, True, path) else (takeWhile (\<lambda>c. c \<noteq> SLASH) path, False, after))"

text \<open>The end of the scanned cluster: the index starts over with the next cluster.\<close>

definition next_dir_cluster :: "fat32_ident \<Rightarrow> u32 \<Rightarrow> u32 \<Rightarrow> 'h fat_vfs \<Rightarrow> (u32 \<times> u32 \<times> bool) outcome" where
  "next_dir_cluster fi i cluster s =
     (let spc = ucast (sectors_per_cluster (fbs fi)) in
      if i = spc * 16 then
        omap (\<lambda>c. (0, c, c * spc + 16 \<ge> total_sectors (fbs fi))) (next_cluster fi cluster s)
      else Returns (i, cluster, False))"

text \<open>What one entry does to the search: go on, go down into a folder, or be the answer.\<close>

definition try_entry :: "fat32_entry \<Rightarrow> u32 \<Rightarrow> u32 \<Rightarrow> u8 list \<Rightarrow> ((u32 \<times> u32 \<times> u8 list) + fat32_entry) outcome" where
  "try_entry ent i cluster path =
     (if fe_attribute ent AND 0x0F = 0x0F \<or> fe_name ent ! 0 = 0xE5 then Returns (Inl (i + 1, cluster, path))
      else
        let ent = (if fe_name ent ! 0 = 0x05 then ent\<lparr>fe_name := (fe_name ent)[0 := 0xE5]\<rparr> else ent);
            (sub_elem, top_level, path) = split_path path
        in omap (\<lambda>match. if \<not> match then Inl (i + 1, cluster, path)
                         else if top_level then Inr ent
                         else Inl (1, fe_cluster ent, path))
             (fat32_compare_entry_and_path ent sub_elem))"

definition parse_step :: "'h disk \<Rightarrow> nat \<Rightarrow> u32 \<times> u32 \<times> u8 list \<times> 'h fat_vfs
    \<Rightarrow> ((u32 \<times> u32 \<times> u8 list \<times> 'h fat_vfs) + fat32_entry \<times> 'h fat_vfs) outcome" where
  "parse_step D this st =
     (case st of (i, cluster, path, s) \<Rightarrow>
        obind (fat32_read_entry D this cluster (ucast i) s) (\<lambda>(ent, s).
        obind (ident_of s this) (\<lambda>fi.
        obind (next_dir_cluster fi i cluster s) (\<lambda>(i, cluster, stop).
          if stop then Returns (Inr (zero_entry, s))
          else omap (\<lambda>r. case r of Inl (i, cluster, path) \<Rightarrow> Inl (i, cluster, path, s) | Inr ent \<Rightarrow> Inr (ent, s))
                 (try_entry ent i cluster path)))))"

definition fat32_parse_path :: "'h disk \<Rightarrow> nat \<Rightarrow> u8 list \<Rightarrow> 'h fat_vfs \<Rightarrow> (fat32_entry \<times> 'h fat_vfs) outcome" where
  "fat32_parse_path D this path s =
     obind (ident_of s this) (\<lambda>fi.
       let root = root_dir_first_cluster (fbs fi) in
       if path = [SLASH] then
         Returns (zero_entry\<lparr>fe_name := SPACE # replicate 10 0, fe_attribute := FAT32_ATTR_DIRECTORY,
                              fe_cluster := root\<rparr>, s)
       else if path = [] then Faults OutOfBounds
       else loop_c (parse_step D this) (0, root, tl path, s))"

section \<open>Open and mount\<close>

text \<open>The loop that finds the end of the second component: index, last slash, components so far.\<close>

fun mount_end :: "u8 list \<Rightarrow> nat \<Rightarrow> nat \<Rightarrow> nat \<Rightarrow> nat" where
  "mount_end [] cur lst dirs = cur"
| "mount_end (c # cs) cur lst dirs =
     (if c = SLASH then
        let dirs = (if cur - lst > 1 then dirs + 1 else dirs)
        in if dirs = 2 then cur else mount_end cs (cur + 1) cur dirs
      else mount_end cs (cur + 1) lst dirs)"

text \<open>The node of the file found gets a copy of the mount's identity block with its own entry.\<close>

definition attach_ident :: "nat \<Rightarrow> fat32_entry \<Rightarrow> nat \<Rightarrow> nat \<Rightarrow> 'h fat_vfs \<Rightarrow> (nat option \<times> 'h fat_vfs) outcome" where
  "attach_ident self fe t r s =
     obind (tnode_at s t) (\<lambda>tn. obind (inode_at s (tinode tn)) (\<lambda>n.
     obind (tnode_at s r) (\<lambda>rn. obind (ident_of s (tinode rn)) (\<lambda>fi.
       let (k, s) = create_ident (fi\<lparr>fentry := fe\<rparr>) s
       in Returns (Some t, put_inode (tinode tn)
            (n\<lparr>ifs := Some self, isize := ucast (fe_size fe), iident := Some k\<rparr>) s)))))"

definition open_found :: "'h fat32_dev fs_table \<Rightarrow> nat \<Rightarrow> nat option \<Rightarrow> fat32_entry \<Rightarrow> u8 list
    \<Rightarrow> 'h fat_vfs \<Rightarrow> (nat option \<times> 'h fat_vfs) outcome" where
  "open_found F self rootnode fe path s =
     obind (vfs_path_to_node F path CREATE
              (if fe_attribute fe AND FAT32_ATTR_DIRECTORY \<noteq> 0 then VFS_NODE_FOLDER else VFS_NODE_FILE) s) (\<lambda>(_, s).
     obind (vfs_path_to_node F path NO_CREATE VFS_NODE_FILE s) (\<lambda>(tn, s).
       case (tn, rootnode) of
         (Some t, Some r) \<Rightarrow> attach_ident self fe t r s
       | _ \<Rightarrow> Faults NullDeref))"

text \<open>
  The folders of the path are opened first, through the one static buffer \<open>tmpbuff\<close>. A nested call
  gets that buffer as its path (\<open>nested\<close>), so its own first cut is what the path is from then on.
\<close>

function fat32_open_at :: "'h disk \<Rightarrow> 'h fat32_dev fs_table \<Rightarrow> nat \<Rightarrow> bool \<Rightarrow> nat \<Rightarrow> u8 list
    \<Rightarrow> 'h fat_vfs \<Rightarrow> (nat option \<times> 'h fat_vfs) outcome" where
  "fat32_open_at D F self nested this path s =
     (if VFS_MAX_PATH_LEN \<le> length path then Faults OutOfBounds
      else
        let cur = mount_end path 0 0 0;
            cuts = filter (\<lambda>i. path ! i = SLASH) [cur + 1..<length path];
            target = (if nested \<and> cuts \<noteq> [] then take (hd cuts) path else path)
        in obind (vfs_path_to_node F (take cur path) NO_CREATE VFS_NODE_FILE s) (\<lambda>(rootnode, s).
           obind (fat32_parse_path D this (drop cur path) s) (\<lambda>(fe, s).
             if fe_attribute fe \<noteq> 0 \<and> fe_cluster fe \<noteq> 0 then
               obind (foldo (\<lambda>i s. omap snd (fat32_open_at D F self True this (if nested then target else take i path) s))
                        cuts s)
                 (open_found F self rootnode fe target)
             else Returns (None, s))))"
  by pat_completeness auto
termination
proof (relation "measure (\<lambda>(D, F, self, nested, this, path, s). length path)", goal_cases)
  case (2 D F self nested this path s cur cuts target r root s1 p fe s2 i s3)
  have lt: "j < length path" if "j \<in> set cuts" for j using that 2(3) by auto
  show ?case
  proof (cases nested)
    case True
    have "i \<in> set cuts" using 2 by simp
    then have ne: "cuts \<noteq> []" by (cases cuts) simp_all
    then have "length target < length path" using lt [OF hd_in_set [OF ne]] True 2(4) by simp
    with True show ?thesis by simp
  next
    case False
    with lt 2 show ?thesis by simp
  qed
qed simp

declare fat32_open_at.simps [simp del]

definition fat32_open :: "'h disk \<Rightarrow> 'h fat32_dev fs_table \<Rightarrow> nat \<Rightarrow> nat \<Rightarrow> u8 list
    \<Rightarrow> 'h fat_vfs \<Rightarrow> (nat option \<times> 'h fat_vfs) outcome" where
  "fat32_open D F self this path s = fat32_open_at D F self False this path s"

definition is_fat32_type :: "u8 \<Rightarrow> bool" where
  "is_fat32_type t \<longleftrightarrow> t = 0x0B \<or> t = 0x0C \<or> t = 0x1C"

text \<open>The parameters of the volume, from its boot sector, at the offsets of \<open>fat_bs_t\<close>.\<close>

definition boot_info :: "u32 \<Rightarrow> u8 list \<Rightarrow> fat32_bs_info" where
  "boot_info lba dd =
     (let reserved = field dd 14 2 :: u16; nfats = dd ! 16; per_fat = field dd 36 4;
          fat_begin = lba + ucast reserved
      in \<lparr>bytes_per_sector = field dd 11 2, sectors_per_cluster = dd ! 13, reserved_sector_count = reserved,
          num_fats = nfats, sectors_per_fat = per_fat, root_dir_first_cluster = field dd 44 4,
          fat_begin_lba = fat_begin, cluster_begin_lba = fat_begin + ucast nfats * per_fat,
          total_sectors = field dd 32 4\<rparr>)"

definition mount_partition :: "'h disk \<Rightarrow> nat \<Rightarrow> u32 \<Rightarrow> 'h fat_vfs \<Rightarrow> 'h fat_vfs outcome" where
  "mount_partition D k lba s =
     obind (ident_at s k) (\<lambda>fi.
     obind (dev_read D fi lba 1 s) (\<lambda>(dd, s).
     obind (sub_bytes dd 0 512) (\<lambda>dd.
       if field dd 22 2 \<noteq> (0 :: u16) \<or> field dd 19 2 \<noteq> (0 :: u16) then Faults Panic
       else
         let bs = boot_info lba dd;
             len = sectors_per_fat bs * ucast (bytes_per_sector bs);
             a = next_addr (fsdev s);
             fi = fi\<lparr>fbs := bs, fat_len := ucast len, ffat := Some a\<rparr>
         in obind (dev_read D fi (fat_begin_lba bs) (ucast (sectors_per_fat bs)) s) (\<lambda>(bytes, s).
            obind (blit (fresh_bytes s (ucast len)) 0 bytes) (\<lambda>buf.
            obind (rd (words_of buf) 19) (\<lambda>_.
              Returns (put_fat fi (words_of buf)
                (put_ident k fi (s\<lparr>fsdev := (fsdev s)\<lparr>next_addr := a + 1\<rparr>\<rparr>)))))))))"

definition fat32_mount :: "'h disk \<Rightarrow> nat \<Rightarrow> nat option \<Rightarrow> 'h fat_vfs \<Rightarrow> (nat option \<times> 'h fat_vfs) outcome" where
  "fat32_mount D self at s =
     obind (case at of None \<Rightarrow> Returns None | Some i \<Rightarrow> omap iident (inode_at s i)) (\<lambda>dev.
       let fi = zero_ident\<lparr>fdevice := dev\<rparr>;
           (ret, s) = vfs_alloc_inode VFS_NODE_MOUNTPOINT 0x1FF 0 (Some self) None s;
           (k, s) = create_ident fi s
       in obind (inode_at s ret) (\<lambda>n.
          obind (dev_read D fi 0 1 (put_inode ret (n\<lparr>iident := Some k\<rparr>) s)) (\<lambda>(mbr, s).
          obind (sub_bytes mbr 0 512) (\<lambda>mbr.
            if mbr ! 510 = 0x55 \<and> mbr ! 511 = 0xAA then
              (case find (\<lambda>j. is_fat32_type (mbr ! (446 + 16 * j + 4))) [0..<4] of
                 None \<Rightarrow> Returns (Some ret, s)
               | Some j \<Rightarrow> omap (Pair (Some ret)) (mount_partition D k (field mbr (446 + 16 * j + 8) 4) s))
            else Returns (Some ret, s)))))"

section \<open>The table of operations\<close>

text \<open>
  \<open>open\<close> walks paths, which may create nodes and so call \<open>mknode\<close> of the same table; it needs no other
  entry, so the walk is given the table with \<open>mknode\<close> alone.
\<close>

definition fat32_walk_table :: "'h fat32_dev fs_table" where
  "fat32_walk_table = (\<lambda>_. \<lparr>fs_name = [], fs_istemp = False,
     fs_mount = (\<lambda>_ _. Faults NullDeref), fs_open = (\<lambda>_ _ _. Faults NullDeref), fs_mknode = fat32_mknode,
     fs_read = (\<lambda>_ _ _ _. Faults NullDeref), fs_write = (\<lambda>_ _ _ _ _. Faults NullDeref),
     fs_sync = (\<lambda>_ _. Faults NullDeref), fs_refresh = (\<lambda>_ _. Faults NullDeref),
     fs_getdent = (\<lambda>_ _ _. Faults NullDeref)\<rparr>)"

definition fat32_name :: "u8 list" where "fat32_name = [0x66, 0x61, 0x74, 0x33, 0x32]"

definition fat32 :: "'h disk \<Rightarrow> nat \<Rightarrow> 'h fat32_dev vfs_fsinfo" where
  "fat32 D self = \<lparr>fs_name = fat32_name, fs_istemp = False,
     fs_mount = fat32_mount D self, fs_open = fat32_open D fat32_walk_table self, fs_mknode = fat32_mknode,
     fs_read = fat32_read D, fs_write = fat32_write D, fs_sync = fat32_sync, fs_refresh = fat32_refresh D,
     fs_getdent = fat32_getdent\<rparr>"

text \<open>A path walk depends on the table through \<open>mknode\<close> only.\<close>

lemma path_to_node_mknode:
  assumes "\<And>k. fs_mknode (F k) = fs_mknode (G k)"
  shows "vfs_path_to_node F path mode ty s = vfs_path_to_node G path mode ty s"
proof -
  have "(\<lambda>f. omap g (fs_mknode f n s')) \<circ> F = (\<lambda>f. omap g (fs_mknode f n s')) \<circ> G"
    for g :: "int \<times> 'a vfs \<Rightarrow> nat option \<times> 'a vfs" and n s' using assms by auto
  then have "obind (fs_at F k) (\<lambda>f. omap g (fs_mknode f n s')) = obind (fs_at G k) (\<lambda>f. omap g (fs_mknode f n s'))"
    for k n s' and g :: "int \<times> 'a vfs \<Rightarrow> nat option \<times> 'a vfs" using assms by (cases k) (auto simp: fs_at_def)
  then show ?thesis unfolding vfs_path_to_node_def by (simp only:)
qed

end
