(* ===== verification/Fat32_Names.thy ===== *)
theory Fat32_Names
  imports Fat32
begin

text \<open>
  Names, dates and lookup in FAT32 directories, against the format: what the reader makes of a long
  name laid out as the format says, of a time stamp, and which entry a path finds.
\<close>

section \<open>Long names\<close>

text \<open>
  The format: thirteen 16-bit characters per entry, padded with one zero and then 0xFFFF; the
  entries are stored last part first, numbered from the number of parts, flagged 0x40, down to 1.
\<close>

definition lfn_pad :: "u8 list \<Rightarrow> (u8 \<times> u8) list" where
  "lfn_pad part = take 13 (map (\<lambda>c. (c, 0)) part @ [(0, 0)] @ replicate 12 (0xFF, 0xFF))"

definition lfn_bytes :: "(u8 \<times> u8) list \<Rightarrow> u8 list" where
  "lfn_bytes cs = concat (map (\<lambda>(lo, hi). [lo, hi]) cs)"

definition lfn_entry :: "u8 \<Rightarrow> u8 \<Rightarrow> u8 list \<Rightarrow> u8 list" where
  "lfn_entry sequence checksum part =
     (let cs = lfn_pad part
      in [sequence] @ lfn_bytes (take 5 cs) @ [0x0F, 0, checksum] @ lfn_bytes (take 6 (drop 5 cs)) @ [0, 0]
         @ lfn_bytes (drop 11 cs))"

fun parts_of :: "nat \<Rightarrow> u8 list \<Rightarrow> u8 list list" where
  "parts_of 0 name = []"
| "parts_of (Suc n) name = take 13 name # parts_of n (drop 13 name)"

definition part_count :: "u8 list \<Rightarrow> nat" where
  "part_count name = (length name + 12) div 13"

definition sequence_no :: "nat \<Rightarrow> nat \<Rightarrow> u8" where
  "sequence_no n j = of_nat j + (if j = n then 0x40 else 0)"

definition lfn_layout :: "u8 \<Rightarrow> u8 list \<Rightarrow> u8 list list" where
  "lfn_layout checksum name =
     (let ps = parts_of (part_count name) name; n = part_count name
      in map (\<lambda>j. lfn_entry (sequence_no n j) checksum (ps ! (j - 1))) (rev [1..<n + 1]))"

lemma length_lfn_pad: "length part \<le> 13 \<Longrightarrow> length (lfn_pad part) = 13"
  by (simp add: lfn_pad_def)

lemma list13:
  assumes "length xs = 13"
  obtains a b c d e f g h i j k l m where "xs = [a, b, c, d, e, f, g, h, i, j, k, l, m]"
proof -
  have "xs = map ((!) xs) [0..<13]" using assms by (metis map_nth)
  also have "[0..<13] = [0, 1, 2, 3, 4, 5, 6, 7, 8, 9, 10, 11, 12 :: nat]" by (simp add: upt_rec)
  finally show ?thesis using that by simp
qed

lemma lfn_chars:
  assumes "length part \<le> 13"
  shows "fat32_name_copy (lfn_entry sq ck part) 1 5 @ fat32_name_copy (lfn_entry sq ck part) 14 6
       @ fat32_name_copy (lfn_entry sq ck part) 28 2 = map fst (lfn_pad part)"
proof -
  from list13 [OF length_lfn_pad [OF assms]] obtain a b c d e f g h i j k l m where
    cs: "lfn_pad part = [a, b, c, d, e, f, g, h, i, j, k, l, m]" .
  have entry: "lfn_entry sq ck part = [sq, fst a, snd a, fst b, snd b, fst c, snd c, fst d, snd d, fst e, snd e, 0x0F, 0, ck,
      fst f, snd f, fst g, snd g, fst h, snd h, fst i, snd i, fst j, snd j, fst k, snd k, 0, 0, fst l, snd l, fst m, snd m]"
    unfolding lfn_entry_def cs Let_def by (simp add: lfn_bytes_def case_prod_beta)
  show ?thesis unfolding cs entry by (simp add: eval_nat_numeral(3) numeral_eq_Suc)
qed

lemma lfn_part_entry:
  assumes "length part \<le> 13" "0 \<notin> set part"
  shows "lfn_part (lfn_entry sq ck part) = part"
proof -
  have "map fst (lfn_pad part) = take 13 (part @ [0] @ replicate 12 0xFF)"
    by (simp add: lfn_pad_def take_map [symmetric] o_def del: take_append)
  also have "takeWhile (\<lambda>c. c \<noteq> 0) \<dots> = part"
  proof (cases "length part = 13")
    case True
    with assms(2) show ?thesis by (simp add: takeWhile_eq_all_conv) metis
  next
    case False
    then obtain n where "13 - length part = Suc n" using assms(1) by (cases "13 - length part") auto
    with assms show ?thesis by (simp add: takeWhile_tail) (metis takeWhile_append2 takeWhile.simps(2) append_Nil2)
  qed
  finally show ?thesis unfolding lfn_part_def lfn_chars [OF assms(1)] .
qed

lemma length_parts: "length (parts_of n name) = n"
  by (induction n arbitrary: name) simp_all

lemma parts_nth: "j < n \<Longrightarrow> parts_of n name ! j = take 13 (drop (13 * j) name)"
  by (induction n arbitrary: name j) (auto simp: less_Suc_eq_0_disj add.commute)

lemma concat_parts: "length name \<le> 13 * n \<Longrightarrow> concat (parts_of n name) = name"
  by (induction n arbitrary: name) simp_all

lemma sequence_table: "list_all (\<lambda>j. ucast (sequence_no j j AND 0x3F) = (of_nat j :: u32) \<and> sequence_no j j AND 0x40 \<noteq> 0
    \<and> ucast (sequence_no 0 j AND 0x3F) = (of_nat j :: u32) \<and> sequence_no 0 j AND 0x40 = 0) [1..<21]"
  by code_simp

lemma sequence_ok:
  assumes "1 \<le> j" "j \<le> n" "n \<le> 20"
  shows "ucast (sequence_no n j AND 0x3F) = (of_nat j :: u32) \<and> (sequence_no n j AND 0x40 \<noteq> 0 \<longleftrightarrow> j = n)"
proof -
  have j: "j \<in> set [1..<21]" using assms by auto
  note t = sequence_table [unfolded list_all_iff, rule_format, OF j]
  show ?thesis
  proof (cases "j = n")
    case True
    with t show ?thesis by simp
  next
    case False
    with assms have "sequence_no n j = sequence_no 0 j" by (simp add: sequence_no_def)
    with t False show ?thesis by simp
  qed
qed

lemma lfn_loop_ok:
  fixes name :: "u8 list" and ck :: u8
  defines "n \<equiv> part_count name" and "ps \<equiv> parts_of (part_count name) name"
  assumes name: "0 \<notin> set name" "length name < 256"
  shows "1 \<le> m \<Longrightarrow> m \<le> n \<Longrightarrow> m < n \<longrightarrow> en = of_nat n \<Longrightarrow>
     lfn_loop (map (\<lambda>j. lfn_entry (sequence_no n j) ck (ps ! (j - 1))) (rev [1..<m + 1]) @ es) (of_nat (n - m)) en
        (concat (drop m ps)) = Returns (of_nat n, name)"
proof (induction m arbitrary: en)
  case (Suc k)
  have n20: "n \<le> 20" using name(2) by (simp add: n_def part_count_def)
  have cover: "length name \<le> 13 * n" by (simp add: n_def part_count_def)
  have lp: "length ps = n" by (simp add: ps_def n_def length_parts)
  have cp: "concat ps = name" unfolding ps_def using cover by (intro concat_parts) (simp add: n_def)
  have part: "ps ! k = take 13 (drop (13 * k) name)" unfolding ps_def
    using Suc.prems(2) by (intro parts_nth) (simp add: n_def)
  then have pk: "length (ps ! k) \<le> 13" "0 \<notin> set (ps ! k)" using name(1) by (auto dest: in_set_takeD in_set_dropD)
  let ?e = "lfn_entry (sequence_no n (Suc k)) ck (ps ! k)"
  have e0: "?e ! 0 = sequence_no n (Suc k)" by (simp add: lfn_entry_def Let_def)
  have split: "drop k ps = ps ! k # drop (Suc k) ps" using Suc.prems(2) lp by (intro Cons_nth_drop_Suc [symmetric]) simp
  have "length (concat (drop k ps)) \<le> length (concat ps)"
    by (metis append_take_drop_id concat_append length_append le_add2)
  then have short: "length (concat (drop k ps)) < VFS_MAX_NAME_LEN" using name(2) cp by (simp add: VFS_MAX_NAME_LEN_def)
  note seq = sequence_ok [OF _ Suc.prems(2) n20, THEN conjunct1] sequence_ok [OF _ Suc.prems(2) n20, THEN conjunct2]
  have en: "(if sequence_no n (Suc k) AND 0x40 \<noteq> 0 then ucast (sequence_no n (Suc k) AND 0x3F) else en) = (of_nat n :: u32)"
    using seq Suc.prems(2,3) by auto
  have cnt: "of_nat (n - Suc k) + 1 = (of_nat (n - k) :: u32)" using Suc.prems(2) by (simp add: of_nat_diff)
  have es: "map (\<lambda>j. lfn_entry (sequence_no n j) ck (ps ! (j - 1))) (rev [1..<Suc k + 1]) @ es
      = ?e # map (\<lambda>j. lfn_entry (sequence_no n j) ck (ps ! (j - 1))) (rev [1..<k + 1]) @ es" by simp
  have txt_eq: "lfn_part ?e @ concat (drop (Suc k) ps) = concat (drop k ps)"
    unfolding lfn_part_entry [OF pk] split by simp
  have un: "(of_nat a :: u32) = of_nat b \<longleftrightarrow> a = b" if "a < 256" "b < 256" for a b
    using that by (simp add: word_unat_eq_iff unat_of_nat)
  have stop: "ucast (sequence_no n (Suc k) AND 0x3F) = (1 :: u32) \<and> of_nat (n - k) = (of_nat n :: u32) \<longleftrightarrow> k = 0"
    using seq(1) un [of "Suc k" 1] un [of "n - k" n] n20 Suc.prems(2) by auto
  have step: "lfn_loop (?e # rest) (of_nat (n - Suc k)) en (concat (drop (Suc k) ps))
      = (if k = 0 then Returns (of_nat n, name) else lfn_loop rest (of_nat (n - k)) (of_nat n) (concat (drop k ps)))" for rest
    unfolding lfn_loop.simps Let_def e0 en txt_eq cnt stop using short cp
    by (cases "k = 0") (simp_all add: not_le)
  show ?case
  proof (cases "k = 0")
    case True
    then show ?thesis unfolding es step by simp
  next
    case False
    have "lfn_loop (map (\<lambda>j. lfn_entry (sequence_no n j) ck (ps ! (j - 1))) (rev [1..<k + 1]) @ es) (of_nat (n - k)) (of_nat n)
        (concat (drop k ps)) = Returns (of_nat n, name)"
      using False Suc.prems(2) by (intro Suc.IH) auto
    with False show ?thesis unfolding es step by simp
  qed
qed simp

lemma long_name_read:
  assumes "name \<noteq> []" "0 \<notin> set name" "length name < 256"
  shows "fat32_get_long_filename (lfn_layout ck name @ es) = Returns (of_nat (length (lfn_layout ck name)), name)"
proof -
  let ?n = "part_count name" and ?ps = "parts_of (part_count name) name"
  have n: "1 \<le> ?n" using assms(1) by (cases name) (simp_all add: part_count_def div_greater_zero_iff Suc_le_eq)
  have len: "length (lfn_layout ck name) = ?n" by (simp add: lfn_layout_def Let_def)
  have nil: "concat (drop ?n ?ps) = []" by (simp add: length_parts)
  have "lfn_loop (lfn_layout ck name @ es) (of_nat (?n - ?n)) 0 (concat (drop ?n ?ps)) = Returns (of_nat ?n, name)"
    unfolding lfn_layout_def Let_def by (rule lfn_loop_ok [OF assms(2,3) n]) simp_all
  then show ?thesis unfolding fat32_get_long_filename_def len nil diff_self_eq_0 by simp
qed

text \<open>
  C29: a name of 1 to 255 bytes without a zero byte, laid out as the format says, is read back exactly,
  and as many entries are consumed as it takes, whatever follows.
\<close>

theorem long_name_roundtrip:
  assumes "name \<noteq> []" "0 \<notin> set name" "length name < 256"
  shows "fat32_get_long_filename (lfn_layout ck name @ es) = Returns (of_nat (length (lfn_layout ck name)), name)"
  using assms by (rule long_name_read)

lemma long_name_roundtrip_witness:
  "fat32_get_long_filename (lfn_layout 7 (replicate 20 0x61) @ [replicate 32 0]) = Returns (2, replicate 20 0x61)"
proof -
  have "length (lfn_layout 7 (replicate 20 0x61)) = 2" by (simp add: lfn_layout_def part_count_def Let_def)
  with long_name_roundtrip [of "replicate 20 0x61" 7 "[replicate 32 0]"] show ?thesis by simp
qed

section \<open>Time stamps\<close>

lemma uint_field:
  assumes "drop_bit n m = (mask k :: 'a::len word)"
  shows "uint (drop_bit n (w AND m)) = uint w div 2 ^ n mod 2 ^ k"
proof -
  have "drop_bit n (w AND m) = take_bit k (drop_bit n w)" using assms by (simp add: drop_bit_and take_bit_eq_mask)
  then have "uint (drop_bit n (w AND m)) = take_bit k (drop_bit n (uint w))"
    by (simp only: unsigned_take_bit_eq unsigned_drop_bit_eq bintr_uint [OF order_refl])
  then show ?thesis by (simp only: drop_bit_eq_div take_bit_eq_mod)
qed

lemma split_field:
  fixes a c r :: int
  assumes "0 \<le> r" "r < c"
  shows "(a * c + r) div c = a" "(a * c + r) mod c = r"
  using assms by simp_all

text \<open>A time stamp of the format: the date in one word, the time in steps of two seconds in another.\<close>

definition stamped :: "u8 list \<Rightarrow> int \<Rightarrow> int \<Rightarrow> int \<Rightarrow> int \<Rightarrow> int \<Rightarrow> int \<Rightarrow> bool" where
  "stamped de y m d h mi s \<longleftrightarrow>
     field de 24 2 = (of_int ((y - 1980) * 512 + m * 32 + d) :: u16)
     \<and> field de 22 2 = (of_int (h * 2048 + mi * 32 + s div 2) :: u16)"

lemma datetime_ok:
  assumes v: "valid_date y m d h mi s" and y: "1980 \<le> y" and s: "even s" and st: "stamped de y m d h mi s"
  shows "fat32_get_datetime de = Returns (date_tm y m d h mi s)"
proof -
  define date :: u16 where "date = field de 24 2"
  define time :: u16 where "time = field de 22 2"
  from v y have g: "1980 \<le> y" "y \<le> 2099" "1 \<le> m" "m \<le> 12" "1 \<le> d" "d \<le> 31" "0 \<le> h" "h < 24" "0 \<le> mi" "mi < 60"
    "0 \<le> s" "s < 60"
    using days_in_month_bounds(2) [of m y] by (auto simp: valid_date_def)
  have ud: "uint date = (y - 1980) * 512 + m * 32 + d" using st g
    by (simp add: date_def stamped_def uint_word_of_int del: of_int_add of_int_mult of_int_diff)
  have ut: "uint time = h * 2048 + mi * 32 + s div 2" using st g
    by (simp add: time_def stamped_def uint_word_of_int del: of_int_add of_int_mult)
  have mk: "drop_bit 9 (0xFE00 :: u16) = mask 7" "drop_bit 5 (0x01E0 :: u16) = mask 4" "drop_bit 0 (0x1F :: u16) = mask 5"
    "drop_bit 11 (0xF800 :: u16) = mask 5" "drop_bit 5 (0x07E0 :: u16) = mask 6"
    by (simp_all add: mask_eq_exp_minus_1)
  have f: "uint (drop_bit 9 (date AND 0xFE00)) + 1980 = y" "uint (drop_bit 5 (date AND 0x01E0)) = m" "uint (date AND 0x001F) = d"
    "uint (drop_bit 11 (time AND 0xF800)) = h" "uint (drop_bit 5 (time AND 0x07E0)) = mi" "uint (time AND 0x001F) * 2 = s"
  proof -
    define Y where "Y = y - 1980"
    define q where "q = s div 2"
    have Y: "0 \<le> Y" "Y < 128" "0 \<le> q" "q < 32" using g by (auto simp: Y_def q_def)
    have r: "0 \<le> m * 32 + d" "m * 32 + d < 512" "0 \<le> mi * 32 + q" "mi * 32 + q < 2048" "0 \<le> d" "d < 32" "0 \<le> m" "m < 16"
      "0 \<le> mi" "mi < 64" "0 \<le> h" "h < 32" using g Y by linarith+
    have e: "Y * 512 + m * 32 + d = Y * 512 + (m * 32 + d)" "Y * 512 + m * 32 + d = (Y * 16 + m) * 32 + d"
      "h * 2048 + mi * 32 + q = h * 2048 + (mi * 32 + q)" "h * 2048 + mi * 32 + q = (h * 64 + mi) * 32 + q"
      by (simp_all add: algebra_simps)
    have dm: "(Y * 512 + m * 32 + d) div 512 = Y" "(Y * 512 + m * 32 + d) div 32 = Y * 16 + m"
      "(Y * 512 + m * 32 + d) mod 32 = d" "(h * 2048 + mi * 32 + q) div 2048 = h"
      "(h * 2048 + mi * 32 + q) div 32 = h * 64 + mi" "(h * 2048 + mi * 32 + q) mod 32 = q"
      using split_field(1) [OF r(1,2), of Y] split_field [OF r(5,6), of "Y * 16 + m"] split_field(1) [OF r(3,4), of h]
        split_field [OF Y(3,4), of "h * 64 + mi"] unfolding e(1,3) [symmetric] e(2,4) [symmetric] by simp_all
    have mm: "(Y * 16 + m) mod 16 = m" "(h * 64 + mi) mod 64 = mi" "Y mod 128 = Y" "h mod 32 = h"
      using split_field(2) [OF r(7,8), of Y] split_field(2) [OF r(9,10), of h] Y(1,2) r(11,12)
      by (simp_all only: mod_pos_pos_trivial)
    have "uint date = Y * 512 + m * 32 + d" "uint time = h * 2048 + mi * 32 + q"
      using ud ut by (simp_all only: Y_def q_def)
    note du = this
    have n: "(2 :: int) ^ 9 = 512" "(2 :: int) ^ 7 = 128" "(2 :: int) ^ 5 = 32" "(2 :: int) ^ 4 = 16" "(2 :: int) ^ 0 = 1"
      "(2 :: int) ^ 11 = 2048" "(2 :: int) ^ 6 = 64" "x div 1 = x" for x :: int by simp_all
    have v: "uint (drop_bit 9 (date AND 0xFE00)) = Y" "uint (drop_bit 5 (date AND 0x01E0)) = m"
      "uint (drop_bit 0 (date AND 0x001F)) = d" "uint (drop_bit 11 (time AND 0xF800)) = h"
      "uint (drop_bit 5 (time AND 0x07E0)) = mi" "uint (drop_bit 0 (time AND 0x001F)) = q"
      by (simp_all only: uint_field [OF mk(1)] uint_field [OF mk(2)] uint_field [OF mk(3)]
        uint_field [OF mk(4)] uint_field [OF mk(5)] du dm mm n)
    show "uint (drop_bit 9 (date AND 0xFE00)) + 1980 = y" "uint (drop_bit 5 (date AND 0x01E0)) = m"
      "uint (date AND 0x001F) = d" "uint (drop_bit 11 (time AND 0xF800)) = h" "uint (drop_bit 5 (time AND 0x07E0)) = mi"
      "uint (time AND 0x001F) * 2 = s"
      using v s by (simp_all only: drop_bit_0 id_apply Y_def q_def) simp_all
  qed
  have "secs_of_years (of_int (y - 1)) = Returns (of_nat (days_before_year y * 86400))"
    "secs_of_month (of_int (m - 1)) (of_int y) = Returns (of_nat (days_before_month m y * 86400))"
    using secs_of_years_ok [of y] secs_of_month_ok [of m y] g by auto
  moreover have "of_nat (days_before_year y * 86400) + of_nat (days_before_month m y * 86400) + of_int ((d - 1) * 86400)
      + of_int (h * 3600) + of_int (mi * 60) + of_int s = (of_nat (date_secs y m d h mi s) :: u64)"
    using g by (simp add: date_secs_def date_days_def)
  ultimately show ?thesis
    unfolding fat32_get_datetime_def date_def [symmetric] time_def [symmetric] Let_def f
    using localtime_date [OF v] by simp
qed

text \<open>
  a time stamp of the format, from 1980 to 2099, is read as the date and time it stands for.
\<close>

theorem time_stamp_roundtrip:
  assumes "valid_date y m d h mi s" "1980 \<le> y" "even s" "stamped de y m d h mi s"
  shows "fat32_get_datetime de = Returns (date_tm y m d h mi s)"
  using assms by (rule datetime_ok)

lemma time_stamp_roundtrip_witness:
  "fat32_get_datetime (replicate 22 0 @ [0xC1, 0x63, 0x5D, 0x58] @ replicate 6 0) = Returns (date_tm 2024 2 29 12 30 2)"
proof (rule time_stamp_roundtrip)
  show "valid_date 2024 2 29 12 30 2" by (simp add: valid_date_def days_in_month_def year_is_leap_def)
  show "stamped (replicate 22 0 @ [0xC1, 0x63, 0x5D, 0x58] @ replicate 6 0) 2024 2 29 12 30 2"
    by (simp add: stamped_def field_def)
qed simp_all

end
