(* ===== verification/Fat32_Files.thy ===== *)
theory Fat32_Files
  imports Fat32
begin

text \<open>
  Reading and writing a file through its cluster chain, over any disk that keeps the contract of
  \<open>Sectors\<close>.
\<close>

definition with_drive :: "'h \<Rightarrow> 'h fat_vfs \<Rightarrow> 'h fat_vfs" where
  "with_drive h s = s\<lparr>fsdev := (fsdev s)\<lparr>drive := h\<rparr>\<rparr>"

lemma with_drive_simps [simp]:
  "drive (fsdev (with_drive h s)) = h" "with_drive h (with_drive h' s) = with_drive h s"
  "fat_of (with_drive h s) fi = fat_of s fi" "next_cluster fi c (with_drive h s) = next_cluster fi c s"
  "ident_of (with_drive h s) i = ident_of s i" "ident_key (with_drive h s) i = ident_key s i"
  "ident_at (with_drive h s) k = ident_at s k" "fresh_bytes (with_drive h s) n = fresh_bytes s n"
  "with_drive (drive (fsdev s)) s = s"
proof -
  have at: "ident_at (with_drive h s) = ident_at s"
    by (rule ext) (simp add: with_drive_def ident_at_def cong: option.case_cong)
  show "ident_at (with_drive h s) k = ident_at s k" by (simp add: at)
  show key: "ident_key (with_drive h s) i = ident_key s i"
    by (simp add: with_drive_def ident_key_def inode_at_def)
  show "ident_of (with_drive h s) i = ident_of s i" by (simp add: ident_of_def key at)
qed (simp_all add: with_drive_def fat_of_def next_cluster_def fresh_bytes_def cong: option.case_cong)

lemma dev_read_eq:
  "fdevice fi = Some dev \<Longrightarrow> dev_read D fi lba n s = omap (\<lambda>(b, h). (b, with_drive h s)) (read28 D dev lba n (drive (fsdev s)))"
  "fdevice fi = Some dev \<Longrightarrow> dev_write D fi lba n src s = omap (\<lambda>h. with_drive h s) (write28 D dev lba n src (drive (fsdev s)))"
  by (simp_all add: dev_read_def dev_write_def with_drive_def)

text \<open>The chain of a file: each cluster is on the disk, the table leads from one to the next.\<close>

fun chain :: "fat32_ident \<Rightarrow> u32 list \<Rightarrow> u32 list \<Rightarrow> bool" where
  "chain fi ws [] \<longleftrightarrow> False"
| "chain fi ws [c] \<longleftrightarrow> run_ok (cluster_lba fi c) (sectors_per_cluster (fbs fi))
     \<and> fat32_get_next_cluster c ws (ucast (fat_len fi)) = Returns 0"
| "chain fi ws (c # c' # cs) \<longleftrightarrow> run_ok (cluster_lba fi c) (sectors_per_cluster (fbs fi))
     \<and> fat32_get_next_cluster c ws (ucast (fat_len fi)) = Returns c' \<and> c' \<noteq> 0 \<and> chain fi ws (c' # cs)"

definition clen :: "fat32_ident \<Rightarrow> nat" where
  "clen fi = 512 * unat (sectors_per_cluster (fbs fi))"

lemma cluster_bytes_eq: "bytes_per_sector (fbs fi) = 512 \<Longrightarrow> unat (cluster_bytes fi) = clen fi"
proof -
  assume b: "bytes_per_sector (fbs fi) = 512"
  have "unat (sectors_per_cluster (fbs fi)) < 256" using unat_u8 [of "sectors_per_cluster (fbs fi)"] by simp
  then have "512 * unat (sectors_per_cluster (fbs fi)) < 2 ^ 64" by simp
  moreover have "unat (ucast (sectors_per_cluster (fbs fi)) :: u64) = unat (sectors_per_cluster (fbs fi))"
    by (simp add: unsigned_ucast_eq take_bit_nat_eq_self_iff unat_u8 less_trans [OF unat_u8])
  ultimately show ?thesis
    by (simp add: cluster_bytes_def clen_def b unat_word_ariths)
qed

text \<open>The bytes of a cluster and of a chain on a disk given by its sectors.\<close>

definition clus :: "(nat \<Rightarrow> u8 list) \<Rightarrow> fat32_ident \<Rightarrow> u32 \<Rightarrow> u8 list" where
  "clus d fi c = concat (map d [unat (cluster_lba fi c)..<unat (cluster_lba fi c) + unat (sectors_per_cluster (fbs fi))])"

definition file_bytes :: "(nat \<Rightarrow> u8 list) \<Rightarrow> fat32_ident \<Rightarrow> u32 list \<Rightarrow> u8 list" where
  "file_bytes d fi cs = concat (map (clus d fi) cs)"

lemma length_clus: "(\<And>k. length (d k) = 512) \<Longrightarrow> length (clus d fi c) = clen fi"
  by (simp add: clus_def clen_def length_concat o_def sum_list_triv)

lemma length_file_bytes: "(\<And>k. length (d k) = 512) \<Longrightarrow> length (file_bytes d fi cs) = length cs * clen fi"
  by (simp add: file_bytes_def length_concat o_def length_clus sum_list_triv)

text \<open>What the volume of an open file looks like: its identity block, its table, its device.\<close>

definition vol_ok :: "('h \<Rightarrow> bool) \<Rightarrow> (nat \<Rightarrow> bool) \<Rightarrow> fat32_ident \<Rightarrow> u32 list \<Rightarrow> nat \<Rightarrow> 'h fat_vfs \<Rightarrow> bool" where
  "vol_ok ok ready fi ws dev s \<longleftrightarrow> fdevice fi = Some dev \<and> ready dev \<and> ok (drive (fsdev s)) \<and> fat_of s fi = Returns ws
     \<and> bytes_per_sector (fbs fi) = 512"

lemma vol_ok_drive: "vol_ok ok ready fi ws dev s \<Longrightarrow> ok h \<Longrightarrow> vol_ok ok ready fi ws dev (with_drive h s)"
  by (simp add: vol_ok_def)

lemma blit_ok: "off + length src \<le> length b \<Longrightarrow> blit b off src = Returns (take off b @ src @ drop (off + length src) b)"
  by (simp add: blit_def)

definition lba_range :: "fat32_ident \<Rightarrow> u32 \<Rightarrow> nat set" where
  "lba_range fi c = {unat (cluster_lba fi c)..<unat (cluster_lba fi c) + unat (sectors_per_cluster (fbs fi))}"

text \<open>No two clusters of the chain share a sector.\<close>

definition separate :: "fat32_ident \<Rightarrow> u32 list \<Rightarrow> bool" where
  "separate fi cs \<longleftrightarrow> sorted_wrt (\<lambda>a b. lba_range fi a \<inter> lba_range fi b = {}) cs"

definition splice :: "u8 list \<Rightarrow> nat \<Rightarrow> u8 list \<Rightarrow> u8 list" where
  "splice b off new = take off b @ new @ drop (off + length new) b"

context sector_device
begin

lemma dev_read_cluster:
  assumes v: "vol_ok ok ready fi ws dev s" and r: "run_ok (cluster_lba fi c) (sectors_per_cluster (fbs fi))"
  shows "\<exists>h. dev_read D fi (cluster_lba fi c) (sectors_per_cluster (fbs fi)) s
      = Returns (clus (sector (drive (fsdev s)) dev) fi c, with_drive h s)
     \<and> ok h \<and> sector h = sector (drive (fsdev s))"
proof -
  from read_law [OF _ _ r, of "drive (fsdev s)" dev] v obtain h where
    "read28 D dev (cluster_lba fi c) (sectors_per_cluster (fbs fi)) (drive (fsdev s))
      = Returns (clus (sector (drive (fsdev s)) dev) fi c, h)" "ok h" "\<forall>d k. sector h d k = sector (drive (fsdev s)) d k"
    by (auto simp: vol_ok_def clus_def)
  moreover from this(3) have "sector h = sector (drive (fsdev s))" by (intro ext) simp
  ultimately show ?thesis using v by (auto simp: vol_ok_def dev_read_eq)
qed

lemma read_loop:
  assumes "chain fi ws (c # cs)" "vol_ok ok ready fi ws dev s"
    and "unat at + length (c # cs) * clen fi \<le> length dd" "length dd < 2 ^ 64"
  shows "\<exists>h. loop_c (read_step D fi) (c, at, dd, s)
      = Returns (take (unat at) dd @ file_bytes (sector (drive (fsdev s)) dev) fi (c # cs)
                 @ drop (unat at + length (c # cs) * clen fi) dd, with_drive h s)
     \<and> ok h \<and> sector h = sector (drive (fsdev s))"
  using assms
proof (induction cs arbitrary: c at dd s)
  case Nil
  let ?d = "sector (drive (fsdev s)) dev"
  have len: "length (clus ?d fi c) = clen fi" using Nil.prems(2)
    by (intro length_clus) (simp add: vol_ok_def sector_length [unfolded ATA_SECTOR_SIZE_def])
  from Nil.prems(1) have r: "run_ok (cluster_lba fi c) (sectors_per_cluster (fbs fi))"
    "fat32_get_next_cluster c ws (ucast (fat_len fi)) = Returns 0" by simp_all
  from dev_read_cluster [OF Nil.prems(2) r(1)] obtain h where
    h: "dev_read D fi (cluster_lba fi c) (sectors_per_cluster (fbs fi)) s = Returns (clus ?d fi c, with_drive h s)"
      "ok h" "sector h = sector (drive (fsdev s))" by blast
  have "next_cluster fi c s = Returns 0" using Nil.prems(2) r(2) by (simp add: next_cluster_def vol_ok_def)
  then have "read_step D fi (c, at, dd, s) = Returns (Inr (take (unat at) dd @ clus ?d fi c @ drop (unat at + clen fi) dd, with_drive h s))"
    using Nil.prems(3) len h(1) by (simp add: read_step_def blit_ok)
  with h(2,3) show ?case by (subst loop_c_unfold) (auto simp: file_bytes_def)
next
  case (Cons c' cs)
  let ?d = "sector (drive (fsdev s)) dev"
  have len: "length (clus ?d fi c) = clen fi" using Cons.prems(2)
    by (intro length_clus) (simp add: vol_ok_def sector_length [unfolded ATA_SECTOR_SIZE_def])
  from Cons.prems(1) have r: "run_ok (cluster_lba fi c) (sectors_per_cluster (fbs fi))"
    "fat32_get_next_cluster c ws (ucast (fat_len fi)) = Returns c'" "c' \<noteq> 0" "chain fi ws (c' # cs)" by simp_all
  from dev_read_cluster [OF Cons.prems(2) r(1)] obtain h where
    h: "dev_read D fi (cluster_lba fi c) (sectors_per_cluster (fbs fi)) s = Returns (clus ?d fi c, with_drive h s)"
      "ok h" "sector h = sector (drive (fsdev s))" by blast
  have n: "next_cluster fi c s = Returns c'" using Cons.prems(2) r(2) by (simp add: next_cluster_def vol_ok_def)
  define dd' where "dd' = take (unat at) dd @ clus ?d fi c @ drop (unat at + clen fi) dd"
  have step: "read_step D fi (c, at, dd, s) = Returns (Inl (c', at + cluster_bytes fi, dd', with_drive h s))"
    using Cons.prems(3) len h(1) n r(3) by (simp add: read_step_def blit_ok dd'_def)
  have ld: "length dd' = length dd" using Cons.prems(3) len by (simp add: dd'_def)
  have at: "unat (at + cluster_bytes fi) = unat at + clen fi"
    using Cons.prems(2,3,4) cluster_bytes_eq [of fi] by (simp add: unat_word_ariths vol_ok_def)
  have "\<exists>h'. loop_c (read_step D fi) (c', at + cluster_bytes fi, dd', with_drive h s)
      = Returns (take (unat (at + cluster_bytes fi)) dd'
                 @ file_bytes (sector (drive (fsdev (with_drive h s))) dev) fi (c' # cs)
                 @ drop (unat (at + cluster_bytes fi) + length (c' # cs) * clen fi) dd', with_drive h' (with_drive h s))
     \<and> ok h' \<and> sector h' = sector (drive (fsdev (with_drive h s)))"
    using Cons.prems(3,4) r(4) vol_ok_drive [OF Cons.prems(2) h(2)] by (intro Cons.IH) (simp_all add: at ld)
  then obtain h' where h': "loop_c (read_step D fi) (c', at + cluster_bytes fi, dd', with_drive h s)
      = Returns (take (unat at + clen fi) dd' @ file_bytes ?d fi (c' # cs)
                 @ drop (unat at + clen fi + length (c' # cs) * clen fi) dd', with_drive h' s)"
    "ok h'" "sector h' = sector (drive (fsdev s))" by (auto simp: at h(3))
  have "take (unat at + clen fi) dd' = take (unat at) dd @ clus ?d fi c"
    using Cons.prems(3) len by (simp add: dd'_def)
  moreover have "drop (unat at + clen fi + length (c' # cs) * clen fi) dd' = drop (unat at + length (c # c' # cs) * clen fi) dd"
    using Cons.prems(3) len by (simp add: dd'_def add_ac)
  ultimately show ?case using h' step by (subst loop_c_unfold) (auto simp: file_bytes_def)
qed

text \<open>A chain with more room than the buffer runs past it.\<close>

lemma read_loop_over:
  assumes "chain fi ws (c # cs)" "vol_ok ok ready fi ws dev s"
    and "length dd < unat at + length (c # cs) * clen fi" "unat at \<le> length dd" "length dd < 2 ^ 64"
  shows "loop_c (read_step D fi) (c, at, dd, s) = Faults OutOfBounds"
  using assms
proof (induction cs arbitrary: c at dd s)
  case Nil
  have len: "length (clus (sector (drive (fsdev s)) dev) fi c) = clen fi" using Nil.prems(2)
    by (intro length_clus) (simp add: vol_ok_def sector_length [unfolded ATA_SECTOR_SIZE_def])
  from Nil.prems(1) have "run_ok (cluster_lba fi c) (sectors_per_cluster (fbs fi))" by simp
  from dev_read_cluster [OF Nil.prems(2) this] obtain h where
    "dev_read D fi (cluster_lba fi c) (sectors_per_cluster (fbs fi)) s
      = Returns (clus (sector (drive (fsdev s)) dev) fi c, with_drive h s)" by blast
  then show ?case using Nil.prems(3) len by (subst loop_c_unfold) (simp add: read_step_def blit_def)
next
  case (Cons c' cs)
  let ?d = "sector (drive (fsdev s)) dev"
  have len: "length (clus ?d fi c) = clen fi" using Cons.prems(2)
    by (intro length_clus) (simp add: vol_ok_def sector_length [unfolded ATA_SECTOR_SIZE_def])
  from Cons.prems(1) have r: "run_ok (cluster_lba fi c) (sectors_per_cluster (fbs fi))"
    "fat32_get_next_cluster c ws (ucast (fat_len fi)) = Returns c'" "c' \<noteq> 0" "chain fi ws (c' # cs)" by simp_all
  from dev_read_cluster [OF Cons.prems(2) r(1)] obtain h where
    h: "dev_read D fi (cluster_lba fi c) (sectors_per_cluster (fbs fi)) s = Returns (clus ?d fi c, with_drive h s)"
      "ok h" by blast
  show ?case
  proof (cases "unat at + clen fi \<le> length dd")
    case False
    then show ?thesis using h(1) len by (subst loop_c_unfold) (simp add: read_step_def blit_def)
  next
    case True
    have n: "next_cluster fi c s = Returns c'" using Cons.prems(2) r(2) by (simp add: next_cluster_def vol_ok_def)
    define dd' where "dd' = take (unat at) dd @ clus ?d fi c @ drop (unat at + clen fi) dd"
    have step: "read_step D fi (c, at, dd, s) = Returns (Inl (c', at + cluster_bytes fi, dd', with_drive h s))"
      using True len h(1) n r(3) by (simp add: read_step_def blit_ok dd'_def)
    have "length dd' = length dd" using True len by (simp add: dd'_def)
    moreover have "unat (at + cluster_bytes fi) = unat at + clen fi"
      using Cons.prems(2,5) True cluster_bytes_eq [of fi] by (simp add: unat_word_ariths vol_ok_def)
    ultimately have "loop_c (read_step D fi) (c', at + cluster_bytes fi, dd', with_drive h s) = Faults OutOfBounds"
      using Cons.prems(3,5) True r(4) vol_ok_drive [OF Cons.prems(2) h(2)] by (intro Cons.IH) simp_all
    then show ?thesis using step by (subst loop_c_unfold) simp
  qed
qed

lemma nbytes_eq:
  assumes "unat off + unat len + 511 < 2 ^ 64"
  shows "unat (div_roundup (off + len) 512 * 512) = (unat off + unat len + 511) div 512 * 512"
proof -
  have "unat (off + len + 511) = unat off + unat len + 511" using assms by (simp add: unat_word_ariths)
  then have "unat (div_roundup (off + len) 512) = (unat off + unat len + 511) div 512"
    by (simp add: div_roundup_def unat_div_distrib add.assoc)
  moreover have "(unat off + unat len + 511) div 512 * 512 < 2 ^ 64" using assms by linarith
  ultimately show ?thesis by (simp add: unat_word_ariths)
qed

lemma ret_len_eq:
  assumes "unat off + unat len \<le> unat n"
  shows "ret_len n off len = len"
proof -
  have "unat (n - off) = unat n - unat off" using assms by (subst unat_sub) (simp_all add: word_le_nat_alt)
  with assms show ?thesis by (auto simp: ret_len_def word_less_nat_alt)
qed

lemma read_chain:
  assumes id: "ident_of s this = Returns fi" and v: "vol_ok ok ready fi ws dev s"
    and ch: "chain fi ws (c # cs)" "fe_cluster (fentry fi) = c"
    and n: "unat off + unat len + 511 < 2 ^ 64"
  shows "length (c # cs) * clen fi = (unat off + unat len + 511) div 512 * 512 \<Longrightarrow>
      \<exists>h. fat32_read D this off len s = Returns (sint len,
             take (unat len) (drop (unat off) (file_bytes (sector (drive (fsdev s)) dev) fi (c # cs))), with_drive h s)
        \<and> ok h \<and> sector h = sector (drive (fsdev s))"
    and "length (c # cs) * clen fi > (unat off + unat len + 511) div 512 * 512 \<Longrightarrow>
      fat32_read D this off len s = Faults OutOfBounds"
proof -
  let ?d = "sector (drive (fsdev s)) dev"
  define m where "m = div_roundup (off + len) 512 * (512 :: u64)"
  define N where "N = (unat off + unat len + 511) div 512 * 512"
  have m: "unat m = N" unfolding m_def N_def by (rule nbytes_eq [OF n])
  have N: "unat off + unat len \<le> N" "N < 2 ^ 64" using n unfolding N_def by linarith+
  have b: "bytes_per_sector (fbs fi) = 512" using v by (simp add: vol_ok_def)
  have rd: "fat32_read D this off len s = obind (loop_c (read_step D fi) (c, 0, fresh_bytes s m, s))
      (\<lambda>(dd, s). omap (\<lambda>buff. (sint len, buff, s)) (sub_bytes dd (unat off) (unat len)))"
    using ret_len_eq [of off len m] N m ch(2)
    by (simp add: fat32_read_def id sector_num_def b Let_def flip: m_def)
  have l: "length (fresh_bytes s m) = N" by (simp add: fresh_bytes_def m)
  { assume cap: "length (c # cs) * clen fi = (unat off + unat len + 511) div 512 * 512"
    then have cap': "length (c # cs) * clen fi = N" by (simp add: N_def)
    from read_loop [OF ch(1) v, of 0 "fresh_bytes s m"] obtain h where
      h: "loop_c (read_step D fi) (c, 0, fresh_bytes s m, s) = Returns (file_bytes ?d fi (c # cs), with_drive h s)"
        "ok h" "sector h = sector (drive (fsdev s))" using l cap' N(2) by auto
    have "length (file_bytes ?d fi (c # cs)) = N" unfolding cap' [symmetric] using v
      by (intro length_file_bytes) (simp add: vol_ok_def sector_length [unfolded ATA_SECTOR_SIZE_def])
    then have "sub_bytes (file_bytes ?d fi (c # cs)) (unat off) (unat len)
        = Returns (take (unat len) (drop (unat off) (file_bytes ?d fi (c # cs))))"
      using N(1) unfolding sub_bytes_def by simp
    with h show "\<exists>h. fat32_read D this off len s = Returns (sint len,
             take (unat len) (drop (unat off) (file_bytes ?d fi (c # cs))), with_drive h s)
        \<and> ok h \<and> sector h = sector (drive (fsdev s))" unfolding rd by auto }
  { assume "length (c # cs) * clen fi > (unat off + unat len + 511) div 512 * 512"
    then have "N < length (c # cs) * clen fi" by (simp add: N_def)
    then have "loop_c (read_step D fi) (c, 0, fresh_bytes s m, s) = Faults OutOfBounds"
      using l N(2) by (intro read_loop_over [OF ch(1) v]) simp_all
    then show "fat32_read D this off len s = Faults OutOfBounds" unfolding rd by simp }
qed

text \<open>Writing a run of clusters of a chain, whose sectors do not overlap.\<close>

lemma dev_write_cluster:
  assumes v: "vol_ok ok ready fi ws dev s" and r: "run_ok (cluster_lba fi c) (sectors_per_cluster (fbs fi))"
    and l: "length src = clen fi"
  shows "\<exists>h. dev_write D fi (cluster_lba fi c) (sectors_per_cluster (fbs fi)) src s = Returns (with_drive h s)
     \<and> ok h \<and> clus (sector h dev) fi c = src
     \<and> (\<forall>d k. d \<noteq> dev \<or> k \<notin> lba_range fi c \<longrightarrow> sector h d k = sector (drive (fsdev s)) d k)"
proof -
  from write_run [OF _ _ r, of "drive (fsdev s)" dev src] v l obtain h where
    "write28 D dev (cluster_lba fi c) (sectors_per_cluster (fbs fi)) src (drive (fsdev s)) = Returns h" "ok h"
    "clus (sector h dev) fi c = src"
    "\<forall>d k. d \<noteq> dev \<or> k \<notin> lba_range fi c \<longrightarrow> sector h d k = sector (drive (fsdev s)) d k"
    by (auto simp: vol_ok_def clus_def clen_def ATA_SECTOR_SIZE_def lba_range_def)
  then show ?thesis using v by (auto simp: vol_ok_def dev_read_eq)
qed

lemma write_loop:
  assumes "chain fi ws (c # cs)" "vol_ok ok ready fi ws dev s" "separate fi (c # cs)"
    and "unat at + length (c # cs) * clen fi = length dd" "unat n = length dd"
  shows "\<exists>h. loop_c (write_step D fi dd n) (c, at, s) = Returns (with_drive h s) \<and> ok h
     \<and> file_bytes (sector h dev) fi (c # cs) = drop (unat at) dd
     \<and> (\<forall>d k. d \<noteq> dev \<or> (\<forall>x \<in> set (c # cs). k \<notin> lba_range fi x) \<longrightarrow> sector h d k = sector (drive (fsdev s)) d k)"
  using assms(1-4)
proof (induction cs arbitrary: c at s)
  case Nil
  have sub: "sub_bytes dd (unat at) (ATA_SECTOR_SIZE * unat (sectors_per_cluster (fbs fi))) = Returns (drop (unat at) dd)"
    using Nil.prems(4) by (simp add: sub_bytes_def ATA_SECTOR_SIZE_def clen_def)
  have "length (drop (unat at) dd) = clen fi" using Nil.prems(4) by simp
  from dev_write_cluster [OF Nil.prems(2) _ this, of c] Nil.prems(1) obtain h where
    h: "dev_write D fi (cluster_lba fi c) (sectors_per_cluster (fbs fi)) (drop (unat at) dd) s = Returns (with_drive h s)"
      "ok h" "clus (sector h dev) fi c = drop (unat at) dd"
      "\<forall>d k. d \<noteq> dev \<or> k \<notin> lba_range fi c \<longrightarrow> sector h d k = sector (drive (fsdev s)) d k" by auto
  have "unat (at + cluster_bytes fi) = length dd"
    using Nil.prems(2,4) cluster_bytes_eq [of fi] unat_u64 [of n] assms(5) by (simp add: unat_word_ariths vol_ok_def)
  then have "write_step D fi dd n (c, at, s) = Returns (Inr (with_drive h s))"
    using h(1) sub assms(5) by (simp add: write_step_def word_le_nat_alt)
  with h show ?case by (subst loop_c_unfold) (auto simp: file_bytes_def)
next
  case (Cons c' cs)
  let ?src = "take (clen fi) (drop (unat at) dd)"
  have sub: "sub_bytes dd (unat at) (ATA_SECTOR_SIZE * unat (sectors_per_cluster (fbs fi))) = Returns ?src"
    using Cons.prems(4) by (simp add: sub_bytes_def ATA_SECTOR_SIZE_def clen_def)
  from Cons.prems(1) have r: "run_ok (cluster_lba fi c) (sectors_per_cluster (fbs fi))"
    "fat32_get_next_cluster c ws (ucast (fat_len fi)) = Returns c'" "c' \<noteq> 0" "chain fi ws (c' # cs)" by simp_all
  have "length ?src = clen fi" using Cons.prems(4) by simp
  from dev_write_cluster [OF Cons.prems(2) r(1) this] obtain h where
    h: "dev_write D fi (cluster_lba fi c) (sectors_per_cluster (fbs fi)) ?src s = Returns (with_drive h s)"
      "ok h" "clus (sector h dev) fi c = ?src"
      "\<forall>d k. d \<noteq> dev \<or> k \<notin> lba_range fi c \<longrightarrow> sector h d k = sector (drive (fsdev s)) d k" by blast
  have n: "next_cluster fi c s = Returns c'" using Cons.prems(2) r(2) by (simp add: next_cluster_def vol_ok_def)
  have at: "unat (at + cluster_bytes fi) = unat at + clen fi"
    using Cons.prems(2,4) cluster_bytes_eq [of fi] unat_u64 [of n] assms(5) by (simp add: unat_word_ariths vol_ok_def)
  have "0 < clen fi" using r(1) by (simp add: clen_def run_ok_def word_less_nat_alt)
  then have lt: "\<not> at + cluster_bytes fi \<ge> n" using Cons.prems(4) assms(5) by (simp add: word_le_nat_alt at)
  have step: "write_step D fi dd n (c, at, s) = Returns (Inl (c', at + cluster_bytes fi, with_drive h s))"
    using h(1) sub n lt r(3) by (simp add: write_step_def)
  have "separate fi (c' # cs)" using Cons.prems(3) by (simp add: separate_def)
  then have "\<exists>h'. loop_c (write_step D fi dd n) (c', at + cluster_bytes fi, with_drive h s) = Returns (with_drive h' (with_drive h s)) \<and> ok h'
     \<and> file_bytes (sector h' dev) fi (c' # cs) = drop (unat (at + cluster_bytes fi)) dd
     \<and> (\<forall>d k. d \<noteq> dev \<or> (\<forall>x \<in> set (c' # cs). k \<notin> lba_range fi x)
          \<longrightarrow> sector h' d k = sector (drive (fsdev (with_drive h s))) d k)"
    using Cons.prems(4) r(4) vol_ok_drive [OF Cons.prems(2) h(2)] by (intro Cons.IH) (simp_all add: at)
  then obtain h' where h': "loop_c (write_step D fi dd n) (c', at + cluster_bytes fi, with_drive h s) = Returns (with_drive h' s)"
    "ok h'" "file_bytes (sector h' dev) fi (c' # cs) = drop (unat at + clen fi) dd"
    "\<forall>d k. d \<noteq> dev \<or> (\<forall>x \<in> set (c' # cs). k \<notin> lba_range fi x) \<longrightarrow> sector h' d k = sector h d k"
    by (auto simp: at)
  have "clus (sector h' dev) fi c = clus (sector h dev) fi c"
  proof -
    have "\<forall>x \<in> set (c' # cs). k \<notin> lba_range fi x" if "k \<in> lba_range fi c" for k
      using that Cons.prems(3) by (auto simp: separate_def)
    with h'(4) have "sector h' dev k = sector h dev k" if "k \<in> lba_range fi c" for k using that by blast
    then show ?thesis by (auto simp: clus_def lba_range_def intro!: arg_cong [of _ _ concat])
  qed
  then have "file_bytes (sector h' dev) fi (c # c' # cs) = ?src @ drop (unat at + clen fi) dd"
    using h(3) h'(3) by (simp add: file_bytes_def)
  also have "\<dots> = drop (unat at) dd" by (metis append_take_drop_id drop_drop add.commute)
  finally have fb: "file_bytes (sector h' dev) fi (c # c' # cs) = drop (unat at) dd" .
  have "sector h' d k = sector (drive (fsdev s)) d k"
    if "d \<noteq> dev \<or> (\<forall>x \<in> set (c # c' # cs). k \<notin> lba_range fi x)" for d k
    using that h(4) h'(4) by auto
  with step h'(1,2) fb show ?case by (subst loop_c_unfold) auto
qed

lemma write_chain:
  assumes id: "ident_of s this = Returns fi" and v: "vol_ok ok ready fi ws dev s"
    and ch: "chain fi ws (c # cs)" "fe_cluster (fentry fi) = c" "separate fi (c # cs)"
    and n': "unat off + unat len + 1022 < 2 ^ 64"
    and cap: "length (c # cs) * clen fi = (unat off + unat len + 511) div 512 * 512"
    and fsize: "off + len \<le> ucast (fe_size (fentry fi))" and buff: "unat len \<le> length buff"
  shows "\<exists>h. fat32_write D this off len buff s = Returns (sint len, with_drive h s) \<and> ok h
     \<and> file_bytes (sector h dev) fi (c # cs)
         = splice (file_bytes (sector (drive (fsdev s)) dev) fi (c # cs)) (unat off) (take (unat len) buff)
     \<and> (\<forall>d k. d \<noteq> dev \<or> (\<forall>x \<in> set (c # cs). k \<notin> lba_range fi x) \<longrightarrow> sector h d k = sector (drive (fsdev s)) d k)"
proof -
  let ?d = "sector (drive (fsdev s)) dev" and ?new = "take (unat len) buff"
  have n: "unat off + unat len + 511 < 2 ^ 64" using n' by simp
  define m where "m = div_roundup (off + len) 512 * (512 :: u64)"
  define N where "N = (unat off + unat len + 511) div 512 * 512"
  have m: "unat m = N" unfolding m_def N_def by (rule nbytes_eq [OF n])
  have N: "unat off + unat len \<le> N" "N + 511 < 2 ^ 64" using n' unfolding N_def by linarith+
  have N3: "(N + 511) div 512 * 512 = N" unfolding N_def by simp
  have b: "bytes_per_sector (fbs fi) = 512" using v by (simp add: vol_ok_def)
  have cap': "length (c # cs) * clen fi = N" using cap by (simp add: N_def)
  have "unat (0 :: u64) + unat m + 511 < 2 ^ 64" "length (c # cs) * clen fi = (unat (0 :: u64) + unat m + 511) div 512 * 512"
    using N N3 cap' m by simp_all
  from read_chain(1) [OF id v ch(1,2) this] obtain h where
    r: "fat32_read D this 0 m s = Returns (sint m, take (unat m) (file_bytes ?d fi (c # cs)), with_drive h s)"
      "ok h" "sector h = sector (drive (fsdev s))" by auto
  have lf: "length (file_bytes ?d fi (c # cs)) = N" unfolding cap' [symmetric] using v
    by (intro length_file_bytes) (simp add: vol_ok_def sector_length [unfolded ATA_SECTOR_SIZE_def])
  then have old: "blit (fresh_bytes s m) 0 (take (unat m) (file_bytes ?d fi (c # cs))) = Returns (file_bytes ?d fi (c # cs))"
    by (simp add: blit_def fresh_bytes_def m)
  define dd where "dd = splice (file_bytes ?d fi (c # cs)) (unat off) ?new"
  have bl: "blit (file_bytes ?d fi (c # cs)) (unat off) ?new = Returns dd"
    using N(1) lf buff by (simp add: blit_def dd_def splice_def)
  have ld: "length dd = N" using N(1) lf buff by (simp add: dd_def splice_def)
  from write_loop [OF ch(1) vol_ok_drive [OF v r(2)] ch(3), of 0 dd m] obtain h' where
    w: "loop_c (write_step D fi dd m) (c, 0, with_drive h s) = Returns (with_drive h' s)" "ok h'"
      "file_bytes (sector h' dev) fi (c # cs) = dd"
      "\<forall>d k. d \<noteq> dev \<or> (\<forall>x \<in> set (c # cs). k \<notin> lba_range fi x) \<longrightarrow> sector h' d k = sector (drive (fsdev s)) d k"
    using cap' ld m r(3) by auto
  have "grow_entry D this (off + len) (with_drive h' s) = Returns (with_drive h' s)"
  proof -
    from id obtain k where "ident_key s this = Returns k" "ident_at s k = Returns fi"
      by (auto simp: ident_of_def obind_eq_Returns)
    with fsize show ?thesis by (auto simp: grow_entry_def dest: leD)
  qed
  then have "fat32_write D this off len buff s = Returns (sint len, with_drive h' s)"
    using r(1) old bl w(1) ch(2) buff ret_len_eq [of off len m] N(1) m
    by (simp add: fat32_write_def id sector_num_def b Let_def sub_bytes_def flip: m_def)
  with w dd_def show ?thesis by blast
qed

lemma write_read_chain:
  assumes f: "ident_of s this = Returns fi" "vol_ok ok ready fi ws dev s" "chain fi ws (c # cs)" "fe_cluster (fentry fi) = c"
      "separate fi (c # cs)"
    and n: "unat off + unat len + 1022 < 2 ^ 64" "length (c # cs) * clen fi = (unat off + unat len + 511) div 512 * 512"
      "off + len \<le> ucast (fe_size (fentry fi))" "unat len \<le> length buff"
  shows "\<exists>h h'. fat32_write D this off len buff s = Returns (sint len, with_drive h s)
     \<and> file_bytes (sector h dev) fi (c # cs)
         = splice (file_bytes (sector (drive (fsdev s)) dev) fi (c # cs)) (unat off) (take (unat len) buff)
     \<and> (\<forall>d k. d \<noteq> dev \<or> (\<forall>x \<in> set (c # cs). k \<notin> lba_range fi x) \<longrightarrow> sector h d k = sector (drive (fsdev s)) d k)
     \<and> fat32_read D this off len (with_drive h s) = Returns (sint len, take (unat len) buff, with_drive h' s)"
proof -
  from write_chain [OF f n] obtain h where h:
    "fat32_write D this off len buff s = Returns (sint len, with_drive h s)" "ok h"
    "file_bytes (sector h dev) fi (c # cs)
         = splice (file_bytes (sector (drive (fsdev s)) dev) fi (c # cs)) (unat off) (take (unat len) buff)"
    "\<forall>d k. d \<noteq> dev \<or> (\<forall>x \<in> set (c # cs). k \<notin> lba_range fi x) \<longrightarrow> sector h d k = sector (drive (fsdev s)) d k"
    by blast
  have id: "ident_of (with_drive h s) this = Returns fi" using f(1) by simp
  have n': "unat off + unat len + 511 < 2 ^ 64" using n(1) by simp
  from read_chain(1) [OF id vol_ok_drive [OF f(2) h(2)] f(3,4) n' n(2)] obtain h' where
    "fat32_read D this off len (with_drive h s) = Returns (sint len,
       take (unat len) (drop (unat off) (file_bytes (sector h dev) fi (c # cs))), with_drive h' s)" by auto
  moreover have "length (file_bytes (sector (drive (fsdev s)) dev) fi (c # cs)) = length (c # cs) * clen fi"
    using f(2) by (intro length_file_bytes) (simp add: vol_ok_def sector_length [unfolded ATA_SECTOR_SIZE_def])
  then have "unat off + unat len \<le> length (file_bytes (sector (drive (fsdev s)) dev) fi (c # cs))"
    using n(2) by linarith
  then have "take (unat len) (drop (unat off) (file_bytes (sector h dev) fi (c # cs))) = take (unat len) buff"
    unfolding h(3) using n(4) by (simp add: splice_def)
  ultimately show ?thesis using h by auto
qed

end

section \<open>Files\<close>

text \<open>
  C8: reading from a file whose chain holds exactly the sectors asked for answers the bytes of the
  chain at the offset, and changes no sector; when the chain is longer than what is asked for, the
  buffer of the read is overrun.
\<close>

theorem fat32_read_chain:
  assumes D: "sector_device D ok ready sector"
    and f: "ident_of s this = Returns fi" "vol_ok ok ready fi ws dev s" "chain fi ws (c # cs)" "fe_cluster (fentry fi) = c"
    and n: "unat off + unat len + 511 < 2 ^ 64"
  shows "(length (c # cs) * clen fi = (unat off + unat len + 511) div 512 * 512 \<longrightarrow>
      (\<exists>h. fat32_read D this off len s = Returns (sint len,
             take (unat len) (drop (unat off) (file_bytes (sector (drive (fsdev s)) dev) fi (c # cs))), with_drive h s)
        \<and> ok h \<and> sector h = sector (drive (fsdev s))))
    \<and> (length (c # cs) * clen fi > (unat off + unat len + 511) div 512 * 512 \<longrightarrow>
      fat32_read D this off len s = Faults OutOfBounds)"
  using sector_device.read_chain [OF D f n] by blast

text \<open>
  writing within a file changes exactly the bytes written and no sector outside the chain, and
  a read at the same place answers them.
\<close>

theorem fat32_write_read:
  assumes D: "sector_device D ok ready sector"
    and f: "ident_of s this = Returns fi" "vol_ok ok ready fi ws dev s" "chain fi ws (c # cs)" "fe_cluster (fentry fi) = c"
      "separate fi (c # cs)"
    and n: "unat off + unat len + 1022 < 2 ^ 64" "length (c # cs) * clen fi = (unat off + unat len + 511) div 512 * 512"
      "off + len \<le> ucast (fe_size (fentry fi))" "unat len \<le> length buff"
  shows "\<exists>h h'. fat32_write D this off len buff s = Returns (sint len, with_drive h s)
     \<and> file_bytes (sector h dev) fi (c # cs)
         = splice (file_bytes (sector (drive (fsdev s)) dev) fi (c # cs)) (unat off) (take (unat len) buff)
     \<and> (\<forall>d k. d \<noteq> dev \<or> (\<forall>x \<in> set (c # cs). k \<notin> lba_range fi x) \<longrightarrow> sector h d k = sector (drive (fsdev s)) d k)
     \<and> fat32_read D this off len (with_drive h s) = Returns (sint len, take (unat len) buff, with_drive h' s)"
  by (rule sector_device.write_read_chain [OF assms])

section \<open>A small volume\<close>

text \<open>A disk held in memory, and a file of two clusters (2 and 3) on it.\<close>

definition ram_disk :: "(nat \<Rightarrow> nat \<Rightarrow> u8 list) disk" where
  "ram_disk = \<lparr>read28 = (\<lambda>dev lba n h. Returns (concat (map (h dev) [unat lba..<unat lba + unat n]), h)),
     write28 = (\<lambda>dev lba n src h. Returns (\<lambda>d k.
        if d = dev \<and> unat lba \<le> k \<and> k < unat lba + unat n
        then take ATA_SECTOR_SIZE (drop (ATA_SECTOR_SIZE * (k - unat lba)) src) else h d k))\<rparr>"

lemma ram_disk_ok: "sector_device ram_disk (\<lambda>h. \<forall>d k. length (h d k) = ATA_SECTOR_SIZE) (\<lambda>_. True) (\<lambda>h. h)"
proof
  fix h :: "nat \<Rightarrow> nat \<Rightarrow> u8 list" and dev :: nat and lba :: u32 and n :: u8 and src :: "u8 list"
  assume h: "\<forall>d k. length (h d k) = ATA_SECTOR_SIZE" and l: "length src = unat n * ATA_SECTOR_SIZE"
  have "ATA_SECTOR_SIZE \<le> length src - ATA_SECTOR_SIZE * j" if "j < unat n" for j
  proof -
    have "ATA_SECTOR_SIZE * (j + 1) \<le> ATA_SECTOR_SIZE * unat n" using that by (intro mult_le_mono) auto
    then show ?thesis using l by (simp add: algebra_simps)
  qed
  with h show "\<exists>h'. write28 ram_disk dev lba n src h = Returns h' \<and> (\<forall>d k. length (h' d k) = ATA_SECTOR_SIZE)
      \<and> (\<forall>k < unat n. h' dev (unat lba + k) = take ATA_SECTOR_SIZE (drop (ATA_SECTOR_SIZE * k) src))
      \<and> (\<forall>d k. d \<noteq> dev \<or> k \<notin> {unat lba..<unat lba + unat n} \<longrightarrow> h' d k = h d k)"
    by (auto simp: ram_disk_def)
qed (auto simp: ram_disk_def)

definition demo_fi :: fat32_ident where
  "demo_fi = \<lparr>fdevice = Some 0,
     fbs = \<lparr>bytes_per_sector = 512, sectors_per_cluster = 1, reserved_sector_count = 1, num_fats = 1,
        sectors_per_fat = 1, root_dir_first_cluster = 2, fat_begin_lba = 11, cluster_begin_lba = 12, total_sectors = 64\<rparr>,
     fentry = zero_entry\<lparr>fe_cluster := 2, fe_size := 1024\<rparr>, ffat = Some 0, fat_len = 512\<rparr>"

definition demo_fat :: "u32 list" where
  "demo_fat = [0, 0, 3, 0x0FFFFFFF] @ replicate 124 0"

definition demo_vfs :: "'h \<Rightarrow> 'h fat_vfs" where
  "demo_vfs h = \<lparr>tnodes = Map.empty, inodes = [5 \<mapsto> \<lparr>itype = VFS_NODE_FILE, isize = 1024, iperms = 0, iuid = 0,
       irefcount = 0, itm = zero_tm, ifs = Some 0, iident = Some 1, imountpoint = None, ichild = []\<rparr>],
     fresh = 6, fslist = [], openfiles = [],
     fsdev = \<lparr>idents = [1 \<mapsto> demo_fi], fats = [0 \<mapsto> demo_fat], next_addr = 2, filelist = [], drive = h, junk = (\<lambda>_. 0)\<rparr>\<rparr>"

lemma demo_volume:
  assumes "ok h" "ready 0"
  shows "ident_of (demo_vfs h) 5 = Returns demo_fi" "vol_ok ok ready demo_fi demo_fat 0 (demo_vfs h)"
    "drive (fsdev (demo_vfs h)) = h"
  using assms by (simp_all add: demo_vfs_def ident_of_def ident_key_def ident_at_def inode_at_def vol_ok_def fat_of_def demo_fi_def)

lemma demo_chain: "chain demo_fi demo_fat [2, 3]" "fe_cluster (fentry demo_fi) = 2" "separate demo_fi [2, 3]" "clen demo_fi = 512"
proof -
  have "fat32_get_next_cluster 2 demo_fat 512 = Returns 3" "fat32_get_next_cluster 3 demo_fat 512 = Returns 0"
    by (simp_all add: fat32_get_next_cluster_def demo_fat_def nth_Cons')
  then show "chain demo_fi demo_fat [2, 3]"
    by (simp add: run_ok_def cluster_lba_def demo_fi_def)
qed (simp_all add: demo_fi_def zero_entry_def separate_def lba_range_def cluster_lba_def clen_def)

lemma fat32_read_chain_witness:
  "\<exists>h. fat32_read ram_disk 5 510 4 (demo_vfs (\<lambda>d k. replicate 512 (of_nat k)))
     = Returns (4, [12, 12, 13, 13], with_drive h (demo_vfs (\<lambda>d k. replicate 512 (of_nat k))))"
proof -
  let ?h = "\<lambda>(d :: nat) k. replicate 512 (of_nat k :: u8)"
  have ok: "\<forall>d k. length (?h d k) = ATA_SECTOR_SIZE" by (simp add: ATA_SECTOR_SIZE_def)
  note v = demo_volume [of "\<lambda>h. \<forall>d k. length (h d k) = ATA_SECTOR_SIZE" ?h "\<lambda>_. True", OF ok TrueI]
  have u: "unat (510 :: u64) = 510" "unat (4 :: u64) = 4" by simp_all
  have "unat (510 :: u64) + unat (4 :: u64) + 511 < 2 ^ 64" by simp
  note rc = conjunct1 [OF fat32_read_chain [OF ram_disk_ok v(1,2) demo_chain(1,2) this], unfolded u v(3)]
  have "length [2, 3 :: u32] * clen demo_fi = (510 + 4 + 511) div 512 * 512" by (simp add: demo_chain)
  from mp [OF rc this] obtain h where
    r: "fat32_read ram_disk 5 510 4 (demo_vfs ?h)
      = Returns (sint (4 :: u64), take 4 (drop 510 (file_bytes (?h 0) demo_fi [2, 3])), with_drive h (demo_vfs ?h))"
    by blast
  have "file_bytes (?h 0) demo_fi [2, 3] = replicate 512 12 @ replicate 512 13"
    by (simp add: file_bytes_def clus_def cluster_lba_def demo_fi_def upt_conv_Cons)
  then have "take 4 (drop 510 (file_bytes (?h 0) demo_fi [2, 3])) = replicate 2 12 @ replicate 2 13" by simp
  also have "\<dots> = [12, 12, 13, 13]" by (simp add: numeral_2_eq_2)
  finally have t: "take 4 (drop 510 (file_bytes (?h 0) demo_fi [2, 3])) = [12, 12, 13, 13]" .
  have "sint (4 :: u64) = 4" by simp
  with r show ?thesis unfolding t by metis
qed

lemma fat32_write_read_witness:
  "\<exists>h h'. fat32_write ram_disk 5 510 4 [1, 2, 3, 4] (demo_vfs (\<lambda>d k. replicate 512 0)) = Returns (4, with_drive h (demo_vfs (\<lambda>d k. replicate 512 0)))
     \<and> fat32_read ram_disk 5 510 4 (with_drive h (demo_vfs (\<lambda>d k. replicate 512 0)))
        = Returns (4, [1, 2, 3, 4], with_drive h' (demo_vfs (\<lambda>d k. replicate 512 0)))"
proof -
  let ?h = "\<lambda>(d :: nat) (k :: nat). replicate 512 (0 :: u8)"
  have ok: "\<forall>d k. length (?h d k) = ATA_SECTOR_SIZE" by (simp add: ATA_SECTOR_SIZE_def)
  note v = demo_volume [of "\<lambda>h. \<forall>d k. length (h d k) = ATA_SECTOR_SIZE" ?h "\<lambda>_. True", OF ok TrueI]
  have "unat (510 :: u64) + unat (4 :: u64) + 1022 < 2 ^ 64"
    "length [2, 3 :: u32] * clen demo_fi = (unat (510 :: u64) + unat (4 :: u64) + 511) div 512 * 512"
    "(510 :: u64) + 4 \<le> ucast (fe_size (fentry demo_fi))" "unat (4 :: u64) \<le> length [1, 2, 3, 4 :: u8]"
    by (simp_all add: demo_chain) (simp add: demo_fi_def)
  from fat32_write_read [OF ram_disk_ok v(1,2) demo_chain(1-3) this]
  have "\<exists>h h'. fat32_write ram_disk 5 510 4 [1, 2, 3, 4] (demo_vfs ?h) = Returns (sint (4 :: u64), with_drive h (demo_vfs ?h))
     \<and> fat32_read ram_disk 5 510 4 (with_drive h (demo_vfs ?h))
        = Returns (sint (4 :: u64), take (unat (4 :: u64)) [1, 2, 3, 4], with_drive h' (demo_vfs ?h))"
    by blast
  then show ?thesis by simp
qed

end
