(* ===== verification/Fat32_Vfs.thy ===== *)
theory Fat32_Vfs
  imports Fat32
begin

text \<open>
  FAT32 as a backend of the VFS: its operations change their own state and, where they create
  nodes, keep the tree, the open files and the reference counts in order. The contract of
  \<open>Vfs_Files\<close> is interpreted on the FAT32 table, so every sequence of VFS calls on it keeps the
  invariant.
\<close>

definition dev_only :: "'d vfs \<Rightarrow> 'd vfs \<Rightarrow> bool" where
  "dev_only s s' \<longleftrightarrow> s' = s\<lparr>fsdev := fsdev s'\<rparr>"

lemma dev_only_refl [simp]: "dev_only s s"
  by (simp add: dev_only_def)

lemma dev_only_upd [simp]: "dev_only s (s\<lparr>fsdev := d\<rparr>)"
  by (simp add: dev_only_def)

lemma dev_only_trans: "dev_only s s' \<Longrightarrow> dev_only s' s'' \<Longrightarrow> dev_only s s''"
  unfolding dev_only_def by (metis (no_types, lifting) vfs.update_convs(6) vfs.surjective vfs.fold_congs(6))

lemma dev_only_keeps: "vfs_ok s \<Longrightarrow> dev_only s s' \<Longrightarrow> keeps s s'"
  unfolding dev_only_def using fsdev_keeps by metis

lemmas fat_returns = obind_eq_Returns omap_eq_Returns Let_def

lemma dev_read_only: "dev_read D fi lba n s = Returns (b, s') \<Longrightarrow> dev_only s s'"
  by (auto simp: dev_read_def fat_returns split: option.splits)

lemma dev_write_only: "dev_write D fi lba n src s = Returns s' \<Longrightarrow> dev_only s s'"
  by (auto simp: dev_write_def fat_returns split: option.splits)

lemma put_only [simp]: "dev_only s (put_ident k fi s)" "dev_only s (put_fat fi ws s)"
  by (simp_all add: put_ident_def put_fat_def)

lemma read_entry_only: "fat32_read_entry D this c k s = Returns (e, s') \<Longrightarrow> dev_only s s'"
  by (auto simp: fat32_read_entry_def fat_returns dest: dev_read_only)

lemma write_entry_only: "fat32_write_entry D this e s = Returns s' \<Longrightarrow> dev_only s s'"
  by (auto simp: fat32_write_entry_def fat_returns dest!: dev_read_only dev_write_only intro: dev_only_trans)

lemma loop_only:
  assumes "loop_c body st = Returns r"
    and "\<And>st st'. body st = Returns (Inl st') \<Longrightarrow> dev_only (f st) (f st')"
    and "\<And>st r. body st = Returns (Inr r) \<Longrightarrow> dev_only (f st) (g r)"
  shows "dev_only (f st) (g r)"
  using assms(1) by (rule loop_c_rule [where I = "\<lambda>st'. dev_only (f st) (f st')"])
    (auto intro: dev_only_trans assms(2,3))

lemma read_only:
  assumes "fat32_read D this pos len s = Returns (r, b, s')"
  shows "dev_only s s'"
proof -
  from assms obtain fi c n dd where "loop_c (read_step D fi) (c, 0, fresh_bytes s n, s) = Returns (dd, s')"
    by (auto simp: fat32_read_def fat_returns)
  then have "dev_only ((\<lambda>(c, at, dd, t). t) (c, 0 :: u64, fresh_bytes s n, s)) (snd (dd, s'))"
    by (rule loop_only) (auto simp: read_step_def fat_returns split: if_splits dest: dev_read_only)
  then show ?thesis by simp
qed

lemma write_fat_only: "write_fat_sector D fi no s = Returns s' \<Longrightarrow> dev_only s s'"
  by (auto simp: write_fat_sector_def fat_returns dest: dev_write_only)

lemma extend_only:
  assumes "extend_chain D fi c s = Returns (c', s')"
  shows "dev_only s s'"
proof -
  from assms obtain ws no s1 where "write_fat_sector D fi no (put_fat fi ws s) = Returns s1"
    "s1 = s' \<or> (\<exists>no'. write_fat_sector D fi no' s1 = Returns s')"
    by (auto simp: extend_chain_def fat_returns split: if_splits)
  then have "dev_only (put_fat fi ws s) s'" by (auto intro: dev_only_trans dest!: write_fat_only)
  with put_only(2) show ?thesis by (rule dev_only_trans)
qed

lemma write_step_only:
  assumes "write_step D fi dd n (c, at, s) = Returns r"
  shows "dev_only s (case r of Inl (c, at, t) \<Rightarrow> t | Inr t \<Rightarrow> t)"
  using assms by (auto simp: write_step_def fat_returns split: if_splits
      dest!: dev_write_only extend_only intro: dev_only_trans)

lemma grow_only: "grow_entry D this end s = Returns s' \<Longrightarrow> dev_only s s'"
  by (auto simp: grow_entry_def fat_returns split: if_splits dest!: write_entry_only intro: dev_only_trans [OF put_only(1)])

lemma write_only:
  assumes "fat32_write D this pos len buff s = Returns (r, s')"
  shows "dev_only s s'"
proof -
  from assms obtain fi n r' old s1 dd c s2 where
    1: "fat32_read D this 0 n s = Returns (r', old, s1)" and
    2: "loop_c (write_step D fi dd n) (c, 0, s1) = Returns s2" and
    3: "grow_entry D this (pos + len) s2 = Returns s'"
    by (auto simp: fat32_write_def fat_returns)
  have "dev_only ((\<lambda>(c, at, t). t) (c, 0 :: u64, s1)) s2"
    by (rule loop_only [OF 2, where g = "\<lambda>t. t"]) (auto dest: write_step_only)
  then have "dev_only s1 s2" by simp
  with read_only [OF 1] grow_only [OF 3] show ?thesis by (blast intro: dev_only_trans)
qed

lemma add_item_only: "add_item this buf i fn s = Returns s' \<Longrightarrow> dev_only s s'"
  by (auto simp: add_item_def fat_returns)

lemma load_more_only: "load_more D fi nx (i, tlen, buf, s) = Returns (i', tlen', buf', s') \<Longrightarrow> dev_only s s'"
  by (auto simp: load_more_def fat_returns dest: dev_read_only)

lemma dir_step_only:
  assumes "dir_step D fi this nx (i, tlen, buf, s) = Returns r"
  shows "dev_only s (case r of Inl (i, tlen, buf, t) \<Rightarrow> t | Inr (tlen, buf, t) \<Rightarrow> t)"
  using assms by (auto simp: dir_step_def fat_returns split: if_splits dest!: add_item_only load_more_only)

lemma dir_round_only:
  assumes "dir_round D fi this (c, tlen, buf, s) = Returns r"
  shows "dev_only s (case r of Inl (c, tlen, buf, t) \<Rightarrow> t | Inr t \<Rightarrow> t)"
proof -
  from assms obtain b s1 nx buf1 tlen' buf' s2 where
    1: "dev_read D fi (cluster_lba fi c) (sectors_per_cluster (fbs fi)) s = Returns (b, s1)" and
    2: "loop_c (dir_step D fi this nx) (0, tlen, buf1, s1) = Returns (tlen', buf', s2)" and
    3: "r = (if nx = 0 \<or> nx \<ge> 0xFFFFFFF8 then Inr s2 else Inl (nx, tlen', buf', s2))"
    by (auto simp: dir_round_def fat_returns)
  have "dev_only ((\<lambda>(i, tlen, buf, t). t) (0 :: u64, tlen, buf1, s1)) ((\<lambda>(tlen, buf, t). t) (tlen', buf', s2))"
    by (rule loop_only [OF 2]) (auto dest: dir_step_only)
  then have "dev_only s1 s2" by simp
  with dev_read_only [OF 1] 3 show ?thesis by (auto intro: dev_only_trans)
qed

lemma refresh_only:
  assumes "fat32_refresh D this s = Returns (r, s')"
  shows "dev_only s s'"
proof -
  from assms obtain fi c n where "loop_c (dir_round D fi this) (c, n, fresh_bytes s n, s) = Returns s'"
    by (auto simp: fat32_refresh_def fat_returns)
  then have "dev_only ((\<lambda>(c, tlen, buf, t). t) (c, n, fresh_bytes s n, s)) s'"
    by (rule loop_only [where g = "\<lambda>t. t"]) (auto dest: dir_round_only)
  then show ?thesis by simp
qed

lemma parse_step_only:
  assumes "parse_step D this (i, c, path, s) = Returns r"
  shows "dev_only s (case r of Inl (i, c, path, t) \<Rightarrow> t | Inr (e, t) \<Rightarrow> t)"
proof -
  from assms obtain ent s1 fi i' c' stop where 1: "fat32_read_entry D this c (ucast i) s = Returns (ent, s1)" and
    2: "(if stop then Returns (Inr (zero_entry, s1))
         else omap (\<lambda>r. case r of Inl (i, c, p) \<Rightarrow> Inl (i, c, p, s1) | Inr e \<Rightarrow> Inr (e, s1))
                (try_entry ent i' c' path)) = Returns r"
    by (auto simp: parse_step_def obind_eq_Returns)
  have "(case r of Inl (i, c, path, t) \<Rightarrow> t | Inr (e, t) \<Rightarrow> t) = s1"
  proof (cases stop)
    case True
    with 2 show ?thesis by auto
  next
    case False
    with 2 obtain q where "r = (case q of Inl (i, c, p) \<Rightarrow> Inl (i, c, p, s1) | Inr e \<Rightarrow> Inr (e, s1))"
      by (auto simp: omap_eq_Returns)
    then show ?thesis by (cases q) auto
  qed
  with read_entry_only [OF 1] show ?thesis by simp
qed

lemma parse_only:
  assumes "fat32_parse_path D this path s = Returns (e, s')"
  shows "dev_only s s'"
proof (cases "path = [SLASH]")
  case True
  with assms show ?thesis by (auto simp: fat32_parse_path_def fat_returns)
next
  case False
  with assms obtain c where "loop_c (parse_step D this) (0, c, tl path, s) = Returns (e, s')"
    by (auto simp: fat32_parse_path_def fat_returns split: if_splits)
  then have "dev_only ((\<lambda>(i, c, path, t). t) (0 :: u32, c, tl path, s)) (snd (e, s'))"
    by (rule loop_only) (auto dest: parse_step_only)
  then show ?thesis by simp
qed

section \<open>The contract\<close>

lemma mknode_keeps:
  assumes ok: "vfs_ok s" and r: "fat32_mknode t s = Returns (r, s')"
  shows "keeps s s'"
proof -
  from r obtain tn n where tn: "tnodes s t = Some tn" "inodes s (tinode tn) = Some n"
    and s': "s' = put_inode (tinode tn) (n\<lparr>iident := Some (next_addr (fsdev s))\<rparr>) (snd (create_ident zero_ident s))"
    by (auto simp: fat32_mknode_def create_ident_def tnode_at_def inode_at_def fat_returns split: option.splits)
  have k: "keeps s (snd (create_ident zero_ident s))"
    using ok by (simp add: create_ident_def Let_def fsdev_keeps)
  have "inodes (snd (create_ident zero_ident s)) (tinode tn) = Some n"
    using tn(2) by (simp add: create_ident_def Let_def)
  from put_inode_keeps [OF keeps_ok [OF k] this] have "keeps (snd (create_ident zero_ident s)) s'"
    unfolding s' by simp
  with k show ?thesis by (rule keeps_trans)
qed

interpretation walk_fs: vfs_backend "fat32_walk_table"
  by unfold_locales (auto simp: fat32_walk_table_def mknode_keeps)

lemma attach_keeps:
  assumes ok: "vfs_ok s" and r: "attach_ident self fe t u s = Returns (r, s')"
  shows "keeps s s' \<and> (\<forall>t. r = Some t \<longrightarrow> tnodes s' t \<noteq> None)"
proof -
  from r obtain tn n fi where q: "tnodes s t = Some tn" "inodes s (tinode tn) = Some n" "r = Some t"
    and s': "s' = put_inode (tinode tn) (n\<lparr>ifs := Some self, isize := ucast (fe_size fe),
              iident := Some (next_addr (fsdev s))\<rparr>) (snd (create_ident (fi\<lparr>fentry := fe\<rparr>) s))"
    by (auto simp: attach_ident_def create_ident_def tnode_at_def inode_at_def fat_returns split: option.splits)
  let ?s = "snd (create_ident (fi\<lparr>fentry := fe\<rparr>) s)"
  have k: "keeps s ?s" using ok by (simp add: create_ident_def Let_def fsdev_keeps)
  have "inodes ?s (tinode tn) = Some n" using q(2) by (simp add: create_ident_def Let_def)
  from put_inode_keeps [OF keeps_ok [OF k] this] have "keeps ?s s'" unfolding s' by simp
  with k have "keeps s s'" by (rule keeps_trans)
  with q(1,3) show ?thesis by (auto simp: keeps_def)
qed

lemma open_found_keeps:
  assumes ok: "vfs_ok s" and r: "open_found fat32_walk_table self root fe path s = Returns (r, s')"
  shows "keeps s s' \<and> (\<forall>t. r = Some t \<longrightarrow> tnodes s' t \<noteq> None)"
proof -
  from r obtain ty q1 s1 q2 s2 where
    1: "vfs_path_to_node fat32_walk_table path CREATE ty s = Returns (q1, s1)" and
    2: "vfs_path_to_node fat32_walk_table path NO_CREATE VFS_NODE_FILE s1 = Returns (q2, s2)" and
    3: "(case (q2, root) of (Some t, Some r) \<Rightarrow> attach_ident self fe t r s2 | _ \<Rightarrow> Faults NullDeref) = Returns (r, s')"
    by (auto simp: open_found_def obind_eq_Returns)
  have k1: "keeps s s1" using walk_fs.path_to_node_keeps [OF ok 1] by blast
  have k2: "keeps s1 s2" using walk_fs.path_to_node_keeps [OF keeps_ok [OF k1] 2] by auto
  from 3 obtain t u where "attach_ident self fe t u s2 = Returns (r, s')" by (auto split: option.splits)
  from attach_keeps [OF keeps_ok [OF k2] this] k1 k2 show ?thesis by (blast intro: keeps_trans)
qed

lemma foldo_keeps:
  assumes "foldo f is s = Returns s'" "keeps s0 s"
    and "\<And>i s s'. i \<in> set is \<Longrightarrow> vfs_ok s \<Longrightarrow> f i s = Returns s' \<Longrightarrow> keeps s s'"
  shows "keeps s0 s'"
  using assms
proof (induction "is" arbitrary: s)
  case (Cons i "is")
  then obtain s1 where s1: "f i s = Returns s1" "foldo f is s1 = Returns s'" by (auto simp: obind_eq_Returns)
  have "keeps s s1" using Cons.prems(3) [of i s s1] keeps_ok [OF Cons.prems(2)] s1(1) by simp
  with Cons.prems(2) have "keeps s0 s1" by (rule keeps_trans)
  from s1(2) this show ?case
  proof (rule Cons.IH)
    fix j t t' assume "j \<in> set is" "vfs_ok t" "f j t = Returns t'"
    with Cons.prems(3) [of j t t'] show "keeps t t'" by simp
  qed
qed simp

lemma open_at_keeps:
  assumes "vfs_ok s" and "fat32_open_at D fat32_walk_table self nested this path s = Returns (r, s')"
  shows "keeps s s' \<and> (\<forall>t. r = Some t \<longrightarrow> tnodes s' t \<noteq> None)"
  using assms
proof (induction "length path" arbitrary: nested path s r s' rule: less_induct)
  case less
  define cur where "cur = mount_end path 0 0 0"
  define cuts where "cuts = filter (\<lambda>i. path ! i = SLASH) [cur + 1..<length path]"
  define target where "target = (if nested \<and> cuts \<noteq> [] then take (hd cuts) path else path)"
  define f where "f i s = omap snd (fat32_open_at D fat32_walk_table self True this (if nested then target else take i path) s)"
    for i s
  have cut: "j < length path" if "j \<in> set cuts" for j using that by (auto simp: cuts_def)
  have "length (if nested then target else take i path) < length path" if "i \<in> set cuts" for i
    using cut [OF that] cut [OF hd_in_set [of cuts]] that by (cases cuts) (auto simp: target_def)
  with less.hyps have f: "vfs_ok s \<Longrightarrow> f i s = Returns s' \<Longrightarrow> keeps s s'" if "i \<in> set cuts" for i s s'
    using that by (fastforce simp: f_def omap_eq_Returns)
  from less.prems(2) obtain root s1 fe s2 where
    1: "vfs_path_to_node fat32_walk_table (take cur path) NO_CREATE VFS_NODE_FILE s = Returns (root, s1)" and
    2: "fat32_parse_path D this (drop cur path) s1 = Returns (fe, s2)" and
    3: "(if fe_attribute fe \<noteq> 0 \<and> fe_cluster fe \<noteq> 0
         then obind (foldo f cuts s2) (open_found fat32_walk_table self root fe target)
         else Returns (None, s2)) = Returns (r, s')"
    unfolding cur_def cuts_def target_def f_def
    by (subst (asm) fat32_open_at.simps) (auto simp: obind_eq_Returns Let_def split: if_splits)
  have k1: "keeps s s1" using walk_fs.path_to_node_keeps [OF less.prems(1) 1] by blast
  have k2: "keeps s s2" using k1 dev_only_keeps [OF keeps_ok [OF k1] parse_only [OF 2]] by (rule keeps_trans)
  show ?case
  proof (cases "fe_attribute fe \<noteq> 0 \<and> fe_cluster fe \<noteq> 0")
    case False
    with 3 k2 show ?thesis by auto
  next
    case True
    with 3 obtain s3 where 4: "foldo f cuts s2 = Returns s3"
      "open_found fat32_walk_table self root fe target s3 = Returns (r, s')" by (auto simp: obind_eq_Returns)
    have k3: "keeps s s3" using foldo_keeps [OF 4(1) k2] f by blast
    from open_found_keeps [OF keeps_ok [OF k3] 4(2)] k3 show ?thesis by (blast intro: keeps_trans)
  qed
qed

text \<open>The table with FAT32 behind every entry, over any disk.\<close>

definition fat32_table :: "'h disk \<Rightarrow> 'h fat32_dev fs_table" where
  "fat32_table D = fat32 D"

interpretation fat_fs: vfs_backend "fat32_table D"
  by unfold_locales
    (auto simp: fat32_table_def fat32_def fat32_open_def fat32_sync_def fat32_getdent_def fat_returns mknode_keeps
      dest: open_at_keeps read_only write_only refresh_only intro: dev_only_keeps keeps_refl split: if_splits)

end
