(* ===== verification/Fat32_Lookup.thy ===== *)
theory Fat32_Lookup
  imports Fat32_Files Fat32_Vfs
begin

text \<open>
  Lookup of a name in the root directory of a FAT32 volume, the words of the table that a write
  puts on the disk, and the VFS over FAT32 as a whole.
\<close>

section \<open>Lookup\<close>

text \<open>Entry \<open>k\<close> of a directory sector, which entries count, and the stored form of their names.\<close>

definition dir_entry :: "u8 list \<Rightarrow> u32 \<Rightarrow> nat \<Rightarrow> fat32_entry" where
  "dir_entry dd cluster k =
     (let de = take 32 (drop (32 * k) dd)
      in \<lparr>fe_name = take 11 de, fe_attribute = de ! 11, fe_cluster = (field de 26 2) OR push_bit 16 (field de 20 2),
          fe_size = field de 28 4, fe_dir_cluster = cluster, fe_dir_index = of_nat k\<rparr>)"

definition visible :: "fat32_entry \<Rightarrow> bool" where
  "visible e \<longleftrightarrow> fe_attribute e AND 0x0F \<noteq> 0x0F \<and> fe_name e ! 0 \<noteq> 0xE5"

definition plain :: "fat32_entry \<Rightarrow> fat32_entry" where
  "plain e = (if fe_name e ! 0 = 0x05 then e\<lparr>fe_name := (fe_name e)[0 := 0xE5]\<rparr> else e)"

definition named :: "u8 list \<Rightarrow> fat32_entry \<Rightarrow> bool" where
  "named nm e \<longleftrightarrow> visible e \<and> fe_name (plain e) = nm"

lemma try_entry_eq:
  assumes "SLASH \<notin> set c" "short_name_of c = Returns nm"
  shows "try_entry e i cluster c = Returns (if named nm e then Inr (plain e) else Inl (i + 1, cluster, c))"
proof -
  have "dropWhile (\<lambda>x. x \<noteq> SLASH) c = []" using assms(1) by (auto simp: dropWhile_eq_Nil_conv)
  then have "split_path c = (c, True, c)" by (simp only: split_path_def Let_def list.sel if_True simp_thms)
  then show ?thesis using assms(2)
    by (simp add: try_entry_def named_def visible_def plain_def fat32_compare_entry_and_path_def)
qed

context sector_device
begin

lemma read_entry_at:
  assumes "ident_of s this = Returns fi" "vol_ok ok ready fi ws dev s" "run_ok (cluster_lba fi c) 1" "k \<le> 16"
  shows "\<exists>h. ok h \<and> sector h = sector (drive (fsdev s))
    \<and> fat32_read_entry D this c (of_nat k) s =
        (if k < 16 then Returns (dir_entry (sector (drive (fsdev s)) dev (unat (cluster_lba fi c))) c k, with_drive h s)
         else Faults OutOfBounds)"
proof -
  let ?dd = "sector (drive (fsdev s)) dev (unat (cluster_lba fi c))"
  from read_law [OF _ _ assms(3), of "drive (fsdev s)" dev] assms(2) obtain h where
    h: "read28 D dev (cluster_lba fi c) 1 (drive (fsdev s)) = Returns (?dd, h)" "ok h"
      "\<forall>d k. sector h d k = sector (drive (fsdev s)) d k"
    by (auto simp: vol_ok_def)
  have len: "length ?dd = 512" using assms(2) by (simp add: vol_ok_def sector_length ATA_SECTOR_SIZE_def)
  have u: "unat (of_nat k :: u64) = k" using assms(4) by (intro unat_nat) simp
  have "fdevice fi = Some dev" using assms(2) by (simp add: vol_ok_def)
  with h(1) len assms(1,4) have "fat32_read_entry D this c (of_nat k) s =
      (if k < 16 then Returns (dir_entry ?dd c k, with_drive h s) else Faults OutOfBounds)"
    by (simp add: fat32_read_entry_def dev_read_eq u sub_bytes_def dir_entry_def Let_def)
  moreover have "sector h = sector (drive (fsdev s))" using h(3) by (intro ext) simp
  ultimately show ?thesis using h(2) by blast
qed

lemma parse_loop:
  assumes "ident_of s this = Returns fi" "vol_ok ok ready fi ws dev s" "run_ok (cluster_lba fi c) 1" "k \<le> 16"
    and spc: "sectors_per_cluster (fbs fi) \<noteq> 0" and p: "SLASH \<notin> set path" "short_name_of path = Returns nm"
  shows "\<exists>h. ok h \<and> sector h = sector (drive (fsdev s))
    \<and> loop_c (parse_step D this) (of_nat k, c, path, s) =
        (case find (named nm) (map (dir_entry (sector (drive (fsdev s)) dev (unat (cluster_lba fi c))) c) [k..<16]) of
           Some e \<Rightarrow> Returns (plain e, with_drive h s) | None \<Rightarrow> Faults OutOfBounds)"
  using assms(1-4)
proof (induction "16 - k" arbitrary: k s)
  case 0
  then have k: "k = 16" by simp
  have "ucast (of_nat k :: u32) = (of_nat k :: u64)" by (simp add: k)
  with read_entry_at [OF 0(2-5)] have "\<exists>h. ok h \<and> sector h = sector (drive (fsdev s))
      \<and> parse_step D this (of_nat k, c, path, s) = Faults OutOfBounds"
    by (auto simp: parse_step_def k)
  then show ?case by (subst loop_c_unfold) (auto simp: k)
next
  case (Suc n)
  let ?e = "dir_entry (sector (drive (fsdev s)) dev (unat (cluster_lba fi c))) c k"
  have k: "k < 16" using Suc(2) by simp
  have uc: "ucast (of_nat k :: u32) = (of_nat k :: u64)"
    using k by (simp add: unsigned_of_nat take_bit_nat_eq_self)
  from read_entry_at [OF Suc(3-6)] k obtain h where h: "ok h" "sector h = sector (drive (fsdev s))"
    "fat32_read_entry D this c (of_nat k) s = Returns (?e, with_drive h s)" by auto
  have "unat (ucast (sectors_per_cluster (fbs fi)) :: u32) = unat (sectors_per_cluster (fbs fi))"
    by (simp add: unsigned_ucast_eq take_bit_nat_eq_self_iff less_trans [OF unat_u8])
  moreover have "1 \<le> unat (sectors_per_cluster (fbs fi))" using spc by (simp add: unat_gt_0 Suc_le_eq)
  moreover have "unat (sectors_per_cluster (fbs fi)) < 256" using unat_u8 [of "sectors_per_cluster (fbs fi)"] by simp
  ultimately have "16 \<le> unat (ucast (sectors_per_cluster (fbs fi)) * 16 :: u32)" by (simp add: unat_word_ariths)
  then have "(of_nat k :: u32) \<noteq> ucast (sectors_per_cluster (fbs fi)) * 16"
    using k by (auto simp: unat_of_nat_small dest!: arg_cong [where f = unat])
  then have nd: "next_dir_cluster fi (of_nat k) c (with_drive h s) = Returns (of_nat k, c, False)"
    by (simp add: next_dir_cluster_def Let_def)
  have step: "parse_step D this (of_nat k, c, path, s) =
      Returns (if named nm ?e then Inr (plain ?e, with_drive h s) else Inl (of_nat (Suc k), c, path, with_drive h s))"
    using Suc(3) by (simp add: parse_step_def uc h(3) nd try_entry_eq [OF p] add.commute)
  have upt: "[k..<16] = k # [Suc k..<16]" using k by (rule upt_conv_Cons)
  show ?case
  proof (cases "named nm ?e")
    case True
    then show ?thesis using h by (subst loop_c_unfold) (auto simp: step upt)
  next
    case False
    have id: "ident_of (with_drive h s) this = Returns fi" using Suc(3) by simp
    from Suc(2) k have n: "n = 16 - Suc k" "Suc k \<le> 16" by auto
    from Suc(1) [OF n(1) id vol_ok_drive [OF Suc(4) h(1)] Suc(5) n(2), unfolded with_drive_simps] obtain h' where
      "ok h'" "sector h' = sector h" "loop_c (parse_step D this) (of_nat (Suc k), c, path, with_drive h s) =
        (case find (named nm) (map (dir_entry (sector h dev (unat (cluster_lba fi c))) c) [Suc k..<16]) of
           Some e \<Rightarrow> Returns (plain e, with_drive h' s) | None \<Rightarrow> Faults OutOfBounds)" by blast
    with False h(2) show ?thesis by (subst loop_c_unfold) (auto simp: step upt)
  qed
qed

end

text \<open>
  C28: looking up a name in the root directory answers the first visible entry of its first sector
  that carries the name, and no later one; when there is none, the lookup reads a seventeenth entry,
  past the end of the sector it holds.
\<close>

theorem fat32_parse_path_finds:
  assumes D: "sector_device D ok ready sector"
    and v: "ident_of s this = Returns fi" "vol_ok ok ready fi ws dev s" "root_dir_first_cluster (fbs fi) = root"
      "run_ok (cluster_lba fi root) 1" "sectors_per_cluster (fbs fi) \<noteq> 0"
    and p: "c \<noteq> []" "SLASH \<notin> set c" "short_name_of c = Returns nm"
  shows "\<exists>h. ok h \<and> sector h = sector (drive (fsdev s))
    \<and> fat32_parse_path D this (SLASH # c) s =
        (case find (named nm) (map (dir_entry (sector (drive (fsdev s)) dev (unat (cluster_lba fi root))) root) [0..<16]) of
           Some e \<Rightarrow> Returns (plain e, with_drive h s) | None \<Rightarrow> Faults OutOfBounds)"
  using sector_device.parse_loop [OF D v(1,2,4) _ v(5) p(2,3), of 0] v(1,3) p(1) by (simp add: fat32_parse_path_def)

text \<open>A directory sector: a deleted entry, then \<open>README.TXT\<close> at cluster 3.\<close>

definition demo_dir :: "u8 list" where
  "demo_dir = ([0xE5, 0x45, 0x41, 0x44, 0x4D, 0x45, 0x20, 0x20, 0x54, 0x58, 0x54, 0x20] @ replicate 20 0)
     @ ([0x52, 0x45, 0x41, 0x44, 0x4D, 0x45, 0x20, 0x20, 0x54, 0x58, 0x54, 0x20] @ replicate 14 0
        @ [3, 0, 5, 0, 0, 0]) @ replicate 448 0"

lemma demo_dir_entries:
  "take 32 (drop 0 demo_dir) = [0xE5, 0x45, 0x41, 0x44, 0x4D, 0x45, 0x20, 0x20, 0x54, 0x58, 0x54, 0x20] @ replicate 20 0"
  "take 32 (drop 32 demo_dir)
     = [0x52, 0x45, 0x41, 0x44, 0x4D, 0x45, 0x20, 0x20, 0x54, 0x58, 0x54, 0x20] @ replicate 14 0 @ [3, 0, 5, 0, 0, 0]"
  "length demo_dir = 512"
  by (simp_all add: demo_dir_def)

lemma fat32_parse_path_finds_witness:
  "\<exists>e h. fat32_parse_path ram_disk 5 (SLASH # [0x72, 0x65, 0x61, 0x64, 0x6D, 0x65, 0x2E, 0x74, 0x78, 0x74])
       (demo_vfs (\<lambda>d k. if k = 12 then demo_dir else replicate 512 0)) = Returns (e, h)
     \<and> fe_cluster e = 3 \<and> fe_size e = 5 \<and> fe_dir_index e = 1"
proof -
  let ?h = "\<lambda>(d :: nat) k. if k = 12 then demo_dir else replicate 512 0"
  let ?nm = "[0x52, 0x45, 0x41, 0x44, 0x4D, 0x45, 0x20, 0x20, 0x54, 0x58, 0x54] :: u8 list"
  have ok: "\<forall>d k. length (?h d k) = ATA_SECTOR_SIZE" by (simp add: ATA_SECTOR_SIZE_def demo_dir_entries)
  note v = demo_volume [of "\<lambda>h. \<forall>d k. length (h d k) = ATA_SECTOR_SIZE" ?h "\<lambda>_. True", OF ok TrueI]
  have f: "root_dir_first_cluster (fbs demo_fi) = 2" "run_ok (cluster_lba demo_fi 2) 1" "sectors_per_cluster (fbs demo_fi) \<noteq> 0"
    "cluster_lba demo_fi 2 = 12"
    by (simp_all add: demo_fi_def run_ok_def cluster_lba_def)
  have p: "[0x72, 0x65, 0x61, 0x64, 0x6D, 0x65, 0x2E, 0x74, 0x78, 0x74 :: u8] \<noteq> []"
    "SLASH \<notin> set [0x72, 0x65, 0x61, 0x64, 0x6D, 0x65, 0x2E, 0x74, 0x78, 0x74]"
    by (simp_all add: SLASH_def)
  have nm: "short_name_of [0x72, 0x65, 0x61, 0x64, 0x6D, 0x65, 0x2E, 0x74, 0x78, 0x74] = Returns ?nm"
    by code_simp
  have 0: "\<not> named ?nm (dir_entry demo_dir 2 0)"
    unfolding named_def visible_def dir_entry_def Let_def mult_0_right demo_dir_entries by simp
  have 1: "named ?nm (dir_entry demo_dir 2 1)" "plain (dir_entry demo_dir 2 1) = dir_entry demo_dir 2 1"
    "fe_cluster (dir_entry demo_dir 2 1) = 3" "fe_size (dir_entry demo_dir 2 1) = 5" "fe_dir_index (dir_entry demo_dir 2 1) = 1"
    by (simp_all add: named_def visible_def plain_def dir_entry_def demo_dir_entries field_def Let_def)
      (simp add: numeral_2_eq_2)
  have "[0..<16] = 0 # 1 # [2..<16 :: nat]" by (simp add: upt_conv_Cons)
  then have "find (named ?nm) (map (dir_entry demo_dir 2) [0..<16]) = Some (dir_entry demo_dir 2 1)" using 0 1(1) by simp
  then have "find (named ?nm) (map (dir_entry (?h 0 (unat (12 :: u32))) 2) [0..<16]) = Some (dir_entry demo_dir 2 1)" by simp
  with fat32_parse_path_finds [OF ram_disk_ok v(1,2) f(1-3) p nm, unfolded v(3) f(4)] 1 show ?thesis by auto
qed

section \<open>The words of the table on the disk\<close>

lemma bytes_of_Cons: "bytes_of (w # ws) = word_le 4 w @ bytes_of ws"
  by (simp add: bytes_of_def)

lemma drop_bytes_of: "drop (4 * k) (bytes_of ws) = bytes_of (drop k ws)"
proof (induction k arbitrary: ws)
  case (Suc k)
  then show ?case by (cases ws) (simp_all add: bytes_of_Cons, simp add: bytes_of_def)
qed simp

lemma take_bytes_of: "take (4 * k) (bytes_of ws) = bytes_of (take k ws)"
proof (induction k arbitrary: ws)
  case 0
  show ?case by (simp add: bytes_of_def)
next
  case (Suc k)
  then show ?case by (cases ws) (simp_all add: bytes_of_Cons, simp add: bytes_of_def)
qed

lemma length_bytes_of: "length (bytes_of ws) = 4 * length ws"
  by (induction ws) (simp_all add: bytes_of_Cons, simp add: bytes_of_def)

lemma fat_sector_of: "unat c < 2 ^ 28 \<Longrightarrow> bytes_per_sector (fbs fi) = 512 \<Longrightarrow> unat (fat_sector_no fi c) = (unat c + 127) div 128"
proof -
  assume c: "unat c < 2 ^ 28" and b: "bytes_per_sector (fbs fi) = 512"
  have "unat (c * 4 + 511) = unat c * 4 + 511" using c by (simp add: unat_word_ariths)
  then have "unat ((c * 4 + 511) div 512) = (unat c * 4 + 511) div 512" by (simp add: unat_div_distrib)
  also have "\<dots> = (unat c * 4 + 511) div 4 div 128" by (simp flip: div_mult2_eq)
  also have "(unat c * 4 + 511) div 4 = unat c + 127" by simp
  finally have "unat ((c * 4 + 511) div 512) = (unat c + 127) div 128" .
  moreover have "unat (ucast w :: u64) = unat w" for w :: u32 by (simp add: unat_ucast_up)
  ultimately show ?thesis by (simp add: fat_sector_no_def b)
qed

text \<open>
  a change of the word of a cluster reaches the disk, when the sector that the code computes for
  the cluster is written, exactly for clusters whose number is no multiple of 128; for the others
  the sector before theirs is written, which the change has left as it was.
\<close>

theorem fat_sector_holds_cluster:
  assumes b: "bytes_per_sector (fbs fi) = 512" and c: "0 < c" "unat c < length ws" "length ws = 128 * n" "n < 2 ^ 21"
  defines "off \<equiv> unat ((fat_sector_no fi c - 1) * 512)"
  shows "\<exists>src. sub_bytes (bytes_of (ws[unat c := v])) off 512 = Returns src
     \<and> (if unat c mod 128 = 0 then sub_bytes (bytes_of ws) off 512 = Returns src
        else take 4 (drop (4 * (unat c mod 128)) src) = word_le 4 v)"
proof -
  define a where "a = unat c div 128"
  define r where "r = unat c mod 128"
  define q where "q = (if r = 0 then a - 1 else a)"
  have ar: "unat c = 128 * a + r" "r < 128" by (simp_all add: a_def r_def)
  have cn: "unat c < 128 * n" using c(2,3) by simp
  then have c28: "unat c < 2 ^ 28" using c(4) by simp
  have c0: "0 < unat c" using c(1) by (simp add: unat_gt_0 word_gt_0)
  have "(r + 127) div 128 = (if r = 0 then 0 else 1)" using ar(2) by (simp add: div_nat_eqI)
  then have qs: "(unat c + 127) div 128 = Suc q"
    using ar c0 by (cases "r = 0") (simp_all add: q_def add.assoc)
  then have no: "fat_sector_no fi c - 1 = of_nat q"
    using fat_sector_of [OF c28 b] by (metis add_diff_cancel_left' of_nat_Suc of_nat_unat ucast_id)
  have q21: "q < 2 ^ 21" using ar c28 by (auto simp: q_def)
  have "unat (of_nat q * 512 :: u64) = q * 512" using q21 unat_of_nat_small [of "q * 512", where 'a = 64] by simp
  then have off: "off = 4 * (128 * q)" by (simp add: off_def no)
  have an: "a < n" using cn ar(1) by linarith
  have "q < n" using an by (auto simp: q_def)
  then have qn: "128 * q + 128 \<le> length ws" using c(3) by linarith
  have sub: "sub_bytes (bytes_of xs) off 512 = Returns (bytes_of (take 128 (drop (128 * q) xs)))"
    if "length xs = length ws" for xs
  proof -
    have "4 * (128 * q) + 512 \<le> length (bytes_of xs)" using qn that by (simp add: length_bytes_of)
    then show ?thesis unfolding sub_bytes_def off drop_bytes_of using take_bytes_of [of 128 "drop (128 * q) xs"] by simp
  qed
  show ?thesis
  proof (cases "r = 0")
    case True
    then have "128 * q + 128 \<le> unat c" using ar c0 by (cases a) (auto simp: q_def)
    then have "take 128 (drop (128 * q) (ws[unat c := v])) = take 128 (drop (128 * q) ws)"
      by (simp add: drop_update_swap)
    with True sub show ?thesis by (simp flip: r_def)
  next
    case False
    let ?xs = "take 128 (drop (128 * q) ws)"
    have qa: "unat c = 128 * q + r" using False ar(1) by (simp add: q_def)
    have xs: "take 128 (drop (128 * q) (ws[unat c := v])) = ?xs[r := v]"
      by (simp add: qa drop_update_swap take_update_swap)
    have len: "length ?xs = 128" using qn by simp
    have "take 4 (drop (4 * r) (bytes_of (?xs[r := v]))) = bytes_of (take 1 (drop r (?xs[r := v])))"
      using take_bytes_of [of 1] by (simp add: drop_bytes_of)
    also have "drop r (?xs[r := v]) = v # drop (Suc r) (?xs[r := v])"
      using ar(2) len by (subst Cons_nth_drop_Suc [symmetric]) simp_all
    finally have "take 4 (drop (4 * r) (bytes_of (?xs[r := v]))) = word_le 4 v"
      by (simp add: bytes_of_def take_Suc)
    with False sub xs show ?thesis by (simp flip: r_def)
  qed
qed

lemma fat_sector_holds_cluster_witness:
  "\<exists>src. sub_bytes (bytes_of ((replicate 256 0)[128 := 7])) 0 512 = Returns src
     \<and> sub_bytes (bytes_of (replicate 256 0)) 0 512 = Returns src"
proof -
  have b: "bytes_per_sector (fbs demo_fi) = 512" by (simp add: demo_fi_def)
  have u: "unat (128 :: u32) = 128" by simp
  have "(0 :: u32) < 128" "unat (128 :: u32) < length (replicate 256 (0 :: u32))"
    "length (replicate 256 (0 :: u32)) = 128 * 2" "(2 :: nat) < 2 ^ 21" by simp_all
  moreover have "unat ((fat_sector_no demo_fi 128 - 1) * 512) = 0" by (simp add: fat_sector_no_def b)
  ultimately show ?thesis using fat_sector_holds_cluster [OF b, of 128 "replicate 256 0" 2 7] by (simp only: u) auto
qed

section \<open>The VFS over FAT32\<close>



end
