(* ===== verification/Vfs_List.thy ===== *)
theory Vfs_List
  imports Vfs_Files
begin

text \<open>
  Listing a directory through the VFS: what \<open>vfs_refresh\<close> makes of the entries a file system answers,
  and what the calls of \<open>vfs_getdent\<close> that follow read back. What the VFS needs of the file system for
  this is a locale, which FAT32 provides.
\<close>

section \<open>Changes that leave the shape of the tree alone\<close>

definition shape :: "vfs_inode \<Rightarrow> vfs_inode" where
  "shape n = n\<lparr>iident := None, itm := zero_tm, irefcount := 0\<rparr>"

definition same_tree :: "'d vfs \<Rightarrow> 'd vfs \<Rightarrow> bool" where
  "same_tree s s' \<longleftrightarrow> tnodes s' = tnodes s \<and> fresh s' = fresh s
     \<and> (\<forall>i. map_option shape (inodes s' i) = map_option shape (inodes s i))"

lemma same_tree_refl [simp]: "same_tree s s"
  and same_tree_upd [simp]: "same_tree s (s\<lparr>fsdev := d\<rparr>)" "same_tree s (s\<lparr>openfiles := fs\<rparr>)"
  by (simp_all add: same_tree_def)

lemma same_tree_trans: "same_tree s s' \<Longrightarrow> same_tree s' s'' \<Longrightarrow> same_tree s s''"
  by (simp add: same_tree_def)

lemma shape_fields:
  "shape n = shape m \<Longrightarrow> itype n = itype m \<and> ichild n = ichild m \<and> ifs n = ifs m"
  by (cases n; cases m) (simp add: shape_def)

lemma same_tree_inode:
  assumes "same_tree s s'"
  shows "shape (inode_of s' t) = shape (inode_of s t)"
proof -
  have "tnodes s' = tnodes s"
    "map_option shape (inodes s' i) = map_option shape (inodes s i)" for i
    using assms by (simp_all add: same_tree_def)
  then show ?thesis unfolding inode_of_def
    by (cases "inodes s (tinode (the (tnodes s t)))"; cases "inodes s' (tinode (the (tnodes s t)))")
      (metis (no_types) option.map(2) option.sel option.simps(3) option.map_disc_iff)+
qed

lemmas same_tree_fields = shape_fields [OF same_tree_inode]

lemma same_tree_folder: "same_tree s s' \<Longrightarrow> folder s' t = folder s t"
  using same_tree_fields [of s s' t] by (simp add: folder_def IS_TRAVERSABLE_def)

lemma same_tree_child: "same_tree s s' \<Longrightarrow> child s' t c = child s t c"
  using same_tree_fields [of s s' t] by (simp add: child_def same_tree_def)

lemma same_tree_resolve: "same_tree s s' \<Longrightarrow> resolve s' t cs = resolve s t cs"
  by (induction cs arbitrary: t) (simp_all add: same_tree_folder same_tree_child cong: option.case_cong)

lemma same_tree_live: "same_tree s s' \<Longrightarrow> inodes s' i = None \<longleftrightarrow> inodes s i = None"
  by (metis same_tree_def map_option_is_None)

lemma same_tree_tree_ok:
  assumes "same_tree s s'" "tree_ok s"
  shows "tree_ok s'"
proof -
  note live = same_tree_live [OF assms(1)]
  have tn: "tnodes s' = tnodes s" "fresh s' = fresh s" using assms(1) by (simp_all add: same_tree_def)
  have "i < fresh s \<and> (\<forall>c \<in> set (ichild n). tnodes s c \<noteq> None)" if "inodes s' i = Some n" for i n
  proof -
    from that live [of i] obtain m where m: "inodes s i = Some m" by (cases "inodes s i") auto
    have "map_option shape (inodes s' i) = map_option shape (inodes s i)" using assms(1) unfolding same_tree_def by blast
    with that m have "shape n = shape m" by simp
    with shape_fields [OF this] assms(2) m show ?thesis unfolding tree_ok_def by auto
  qed
  then show ?thesis using assms(2) unfolding tree_ok_def tn by (simp add: live)
qed

text \<open>Setting the time of a node.\<close>

definition put_itm :: "nat \<Rightarrow> tm \<Rightarrow> 'd vfs \<Rightarrow> 'd vfs" where
  "put_itm c t s = put_inode (tinode (the (tnodes s c))) ((inode_of s c)\<lparr>itm := t\<rparr>) s"

lemma put_itm_shape:
  assumes "tree_ok s" "tnodes s c \<noteq> None"
  shows "same_tree s (put_itm c t s)"
  using tnode_live(3) [OF assms] by (simp add: same_tree_def put_itm_def put_inode_def shape_def)

lemma put_itm_inode:
  "inode_of (put_itm c t s) x
     = (if tinode (the (tnodes s x)) = tinode (the (tnodes s c)) then (inode_of s x)\<lparr>itm := t\<rparr> else inode_of s x)"
  by (simp add: put_itm_def put_inode_def inode_of_def)

lemma put_itm_fields [simp]: "tnodes (put_itm c t s) = tnodes s" "fsdev (put_itm c t s) = fsdev s"
    "openfiles (put_itm c t s) = openfiles s"
  by (simp_all add: put_itm_def put_inode_def)

section \<open>A directory as the list of its entries\<close>

definition dirent_of :: "'d vfs \<Rightarrow> nat \<Rightarrow> vfs_dirent" where
  "dirent_of s c = \<lparr>de_type = itype (inode_of s c), de_tm = itm (inode_of s c), de_name = tname (the (tnodes s c))\<rparr>"

definition listing :: "'d vfs \<Rightarrow> nat \<Rightarrow> vfs_dirent list" where
  "listing s u = map (dirent_of s) (ichild (inode_of s u))"

lemma files_upd [simp]: "inode_of (s\<lparr>openfiles := fs\<rparr>) x = inode_of s x" "listing (s\<lparr>openfiles := fs\<rparr>) u = listing s u"
  by (simp_all add: listing_def dirent_of_def inode_of_def cong: map_cong)

text \<open>Tree node \<open>u\<close> is a folder of file system \<open>k\<close> at the path \<open>cs\<close>, with one node per name.\<close>

definition dir_at :: "'d vfs \<Rightarrow> u8 list list \<Rightarrow> nat \<Rightarrow> nat \<Rightarrow> bool" where
  "dir_at s cs u k \<longleftrightarrow> tree_ok s \<and> (\<forall>c \<in> set cs. good_comp c) \<and> resolve s 0 cs = Some u \<and> folder s u
     \<and> ifs (inode_of s u) = Some k \<and> distinct (map (\<lambda>c. tinode (the (tnodes s c))) (ichild (inode_of s u)))
     \<and> distinct (map de_name (listing s u))"

text \<open>An entry joins a listing: under a known name it only brings its time.\<close>

definition merge_dirent :: "vfs_dirent list \<Rightarrow> vfs_dirent \<Rightarrow> vfs_dirent list" where
  "merge_dirent L de =
     (if de_name de \<in> de_name ` set L then map (\<lambda>d. if de_name d = de_name de then d\<lparr>de_tm := de_tm de\<rparr> else d) L
      else L @ [de])"

lemma names_listing: "map de_name (listing s u) = map (\<lambda>c. tname (the (tnodes s c))) (ichild (inode_of s u))"
  by (simp add: listing_def dirent_of_def)

lemma dir_at_live: "dir_at s cs u k \<Longrightarrow> tnodes s u \<noteq> None"
  unfolding dir_at_def using resolve_live root_live by blast

lemma dir_at_shape:
  assumes "dir_at s cs u k" "same_tree s s'"
  shows "dir_at s' cs u k"
proof -
  have "tnodes s' = tnodes s" using assms(2) by (simp add: same_tree_def)
  then show ?thesis
    using assms(1) same_tree_fields [OF assms(2), of u] unfolding dir_at_def names_listing
    by (simp add: same_tree_tree_ok [OF assms(2)] same_tree_resolve [OF assms(2)] same_tree_folder [OF assms(2)])
qed

lemma child_name:
  "length c \<le> VFS_MAX_NAME_LEN \<Longrightarrow> child s u c = find (\<lambda>k. tname (the (tnodes s k)) = c) (ichild (inode_of s u))"
  by (simp add: child_def)

lemma listing_put_itm:
  assumes d: "dir_at s cs u k" and c: "c \<in> set (ichild (inode_of s u))" "tname (the (tnodes s c)) = nm"
  shows "listing (put_itm c t s) u = map (\<lambda>d. if de_name d = nm then d\<lparr>de_tm := t\<rparr> else d) (listing s u)"
proof -
  let ?cs = "ichild (inode_of s u)"
  have dn: "inj_on (\<lambda>c. tname (the (tnodes s c))) (set ?cs)" "inj_on (\<lambda>c. tinode (the (tnodes s c))) (set ?cs)"
    using d unfolding dir_at_def names_listing by (simp_all add: distinct_map)
  have "dirent_of (put_itm c t s) x = (if de_name (dirent_of s x) = nm then (dirent_of s x)\<lparr>de_tm := t\<rparr> else dirent_of s x)"
    if "x \<in> set ?cs" for x
  proof -
    have "tinode (the (tnodes s x)) = tinode (the (tnodes s c)) \<longleftrightarrow> tname (the (tnodes s x)) = nm"
      using dn that c unfolding inj_on_def by metis
    then show ?thesis by (simp add: dirent_of_def put_itm_inode)
  qed
  then show ?thesis by (simp add: listing_def put_itm_inode)
qed

lemma listing_created:
  assumes d: "dir_at s cs u k" and c: "child s u nm = None" "length nm \<le> VFS_MAX_NAME_LEN"
  shows "listing (created u nm ty s) u = listing s u @ [\<lparr>de_type = ty, de_tm = zero_tm, de_name = nm\<rparr>]"
    and "distinct (map (\<lambda>c. tinode (the (tnodes (created u nm ty s) c))) (ichild (inode_of (created u nm ty s) u)))"
    and "ichild (inode_of (created u nm ty s) u) = ichild (inode_of s u) @ [fresh s + 1]"
    and "ifs (inode_of (created u nm ty s) u) = ifs (inode_of s u)"
proof -
  let ?s = "created u nm ty s" and ?cs = "ichild (inode_of s u)"
  have ok: "tree_ok s" using d by (simp add: dir_at_def)
  note u = dir_at_live [OF d]
  have live: "tnodes s x \<noteq> None" if "x \<in> set ?cs" for x using children_live [OF ok u that] .
  note f = created_fields [OF ok u, of nm ty]
  note iu = created_old(2) [OF ok u u, of nm ty]
  show ch: "ichild (inode_of ?s u) = ?cs @ [fresh s + 1]" and "ifs (inode_of ?s u) = ifs (inode_of s u)"
    by (simp_all add: iu)
  have "dirent_of ?s x = dirent_of s x" if "x \<in> set ?cs" for x
    using created_old [OF ok u live [OF that], of nm ty] by (auto simp: dirent_of_def inode_of_def)
  moreover have "dirent_of ?s (fresh s + 1) = \<lparr>de_type = ty, de_tm = zero_tm, de_name = nm\<rparr>"
    using c(2) by (simp add: dirent_of_def inode_of_def f)
  ultimately show "listing ?s u = listing s u @ [\<lparr>de_type = ty, de_tm = zero_tm, de_name = nm\<rparr>]"
    by (simp add: listing_def ch)
  have old: "map (\<lambda>c. tinode (the (tnodes ?s c))) ?cs = map (\<lambda>c. tinode (the (tnodes s c))) ?cs"
    using created_old(1) [OF ok u live, of _ nm ty] by simp
  have "fresh s \<notin> (\<lambda>c. tinode (the (tnodes s c))) ` set ?cs"
  proof
    assume "fresh s \<in> (\<lambda>c. tinode (the (tnodes s c))) ` set ?cs"
    then obtain x where "x \<in> set ?cs" "fresh s = tinode (the (tnodes s x))" by blast
    with tnode_below(2) [OF ok, of x "the (tnodes s x)"] live [of x] show False by auto
  qed
  then show "distinct (map (\<lambda>c. tinode (the (tnodes ?s c))) (ichild (inode_of ?s u)))"
    using d unfolding ch map_append old by (auto simp: dir_at_def f)
qed

lemma child_None_names: "child s u nm = None \<Longrightarrow> length nm \<le> VFS_MAX_NAME_LEN \<Longrightarrow> nm \<notin> de_name ` set (listing s u)"
  using names_listing [of s u, THEN arg_cong [where f = set]] by (auto simp: child_name find_None_iff)

lemma created_dir_at:
  assumes d: "dir_at s cs u k" and c: "child s u nm = None" "length nm \<le> VFS_MAX_NAME_LEN"
  shows "dir_at (created u nm ty s) cs u k"
proof -
  have ok: "tree_ok s" using d by (simp add: dir_at_def)
  note u = dir_at_live [OF d] and l = listing_created [OF d c]
  show ?thesis
    using d child_None_names [OF c] unfolding dir_at_def l(1)
    by (simp add: l(2,4) created_tree_ok [OF ok u] resolve_created [OF ok u root_live [OF ok]] folder_created [OF ok u u])
qed

section \<open>Refreshing a directory\<close>

text \<open>
  What the VFS relies on: the entries of a directory can be asked for one by one, and making a node
  changes neither them nor the tree.
\<close>

locale dir_provider =
  fixes f :: "'d vfs_fsinfo" and dirents :: "'d vfs \<Rightarrow> nat \<Rightarrow> vfs_dirent list"
  assumes getdent_in: "unat k < length (dirents s i) \<Longrightarrow> fs_getdent f i k s = Returns (0, dirents s i ! unat k, s)"
    and getdent_out: "length (dirents s i) \<le> unat k \<Longrightarrow> \<exists>de. fs_getdent f i k s = Returns (-1, de, s)"
    and mknode_law: "tree_ok s \<Longrightarrow> tnodes s t \<noteq> None \<Longrightarrow>
      \<exists>r s'. fs_mknode f t s = Returns (r, s') \<and> same_tree s s' \<and> inode_of s' = (\<lambda>x. (inode_of s x)\<lparr>iident := iident (inode_of s' x)\<rparr>)
         \<and> openfiles s' = openfiles s \<and> dirents s' = dirents s"
    and dirents_law: "fsdev s' = fsdev s \<Longrightarrow> dirents s' = dirents s"

lemma lookup_missing_fs:
  assumes "tree_ok s" "\<forall>d \<in> set (cs @ [c]). good_comp d" "resolve s 0 cs = Some u" "folder s u"
    "child s u c = None" "ifs (inode_of s u) = Some k"
  shows "vfs_path_to_node F (join_path (cs @ [c])) CREATE ty s
       = omap (\<lambda>(_, s'). (Some (fresh s + 1), s')) (fs_mknode (F k) (fresh s + 1) (created u c ty s))"
proof -
  have u: "tnodes s u \<noteq> None" using resolve_live [OF assms(1) root_live [OF assms(1)] assms(3)] .
  have p: "join_path (cs @ [c]) \<noteq> [] \<and> hd (join_path (cs @ [c])) = SLASH"
    by (rule path_of_comps) simp
  have f: "IS_TRAVERSABLE (inode_of s u)" using assms(4) by (simp add: folder_def)
  show ?thesis
    using p assms(6) unfolding vfs_path_to_node_def
    by (simp add: walk_missing [OF assms(1-5)] tnode_live [OF assms(1) u] f created_def vfs_alloc_inode_def
        vfs_alloc_tnode_def fs_at_def Let_def del: join_path_simps)
qed

context dir_provider
begin

lemma refresh_entry_merges:
  assumes d: "dir_at s cs u k" and F: "F k = f" and fd: "fpath fd = join_path cs"
    and nm: "good_comp (de_name de)" "length (de_name de) \<le> VFS_MAX_NAME_LEN"
      "length (join_path cs) + length (de_name de) + 1 < VFS_MAX_PATH_LEN"
  shows "\<exists>s'. refresh_entry F fd de s = Returns s' \<and> dir_at s' cs u k \<and> listing s' u = merge_dirent (listing s u) de
     \<and> openfiles s' = openfiles s \<and> dirents s' = dirents s \<and> tnodes s' u = tnodes s u"
proof -
  let ?nm = "de_name de"
  have ok: "tree_ok s" and good: "\<forall>c \<in> set (cs @ [?nm]). good_comp c" and r: "resolve s 0 cs = Some u" "folder s u"
    "ifs (inode_of s u) = Some k" using d nm(1) by (simp_all add: dir_at_def)
  note u = dir_at_live [OF d]
  have path: "fpath fd @ [SLASH] @ ?nm = join_path (cs @ [?nm])" by (simp add: fd)
  have len: "\<not> VFS_MAX_PATH_LEN \<le> length (join_path (cs @ [?nm]))" using nm(3) by simp
  have re: "refresh_entry F fd de s = Returns (put_itm c (de_tm de) s1)"
    if "vfs_path_to_node F (join_path (cs @ [?nm])) CREATE (de_type de) s = Returns (Some c, s1)" "tree_ok s1" "tnodes s1 c \<noteq> None"
    for c s1
    using len unfolding refresh_entry_def Let_def path
    by (simp add: that(1) tnode_live [OF that(2,3)] put_itm_def del: join_path_simps)
  show ?thesis
  proof (cases "child s u ?nm")
    case (Some c)
    then have c: "c \<in> set (ichild (inode_of s u))" "tname (the (tnodes s c)) = ?nm"
      unfolding child_name [OF nm(2)] by (auto simp: find_Some_iff in_set_conv_nth)
    have cl: "tnodes s c \<noteq> None" using children_live [OF ok u c(1)] .
    have "resolve s 0 (cs @ [?nm]) = Some c" using r Some by (simp add: resolve_append)
    then have "vfs_path_to_node F (join_path (cs @ [?nm])) CREATE (de_type de) s = Returns (Some c, s)"
      using lookup_found [OF ok good] by (simp del: join_path_simps)
    note e = re [OF this ok cl]
    have "?nm \<in> set (map de_name (listing s u))" unfolding names_listing set_map
      by (rule image_eqI [where x = c]) (simp_all add: c)
    then have "?nm \<in> de_name ` set (listing s u)" by simp
    then have "listing (put_itm c (de_tm de) s) u = merge_dirent (listing s u) de"
      by (simp add: listing_put_itm [OF d c] merge_dirent_def)
    moreover have "dirents (put_itm c (de_tm de) s) = dirents s" by (rule dirents_law) simp
    ultimately show ?thesis using e dir_at_shape [OF d put_itm_shape [OF ok cl]] by simp
  next
    case None
    let ?s1 = "created u ?nm (de_type de) s" and ?c = "fresh s + 1"
    note okc = created_tree_ok [OF ok u, of ?nm "de_type de"] and f = created_fields [OF ok u, of ?nm "de_type de"]
    note l = listing_created [OF d None nm(2), of "de_type de"] and d1 = created_dir_at [OF d None nm(2), of "de_type de"]
    have cl: "tnodes ?s1 ?c \<noteq> None" by (simp add: f)
    from mknode_law [OF okc cl] obtain rv s2 where m: "fs_mknode f ?c ?s1 = Returns (rv, s2)" "same_tree ?s1 s2"
      "inode_of s2 = (\<lambda>x. (inode_of ?s1 x)\<lparr>iident := iident (inode_of s2 x)\<rparr>)" "openfiles s2 = openfiles ?s1" "dirents s2 = dirents ?s1" by blast
    have "vfs_path_to_node F (join_path (cs @ [?nm])) CREATE (de_type de) s = Returns (Some ?c, s2)"
      unfolding lookup_missing_fs [OF ok good r(1,2) None r(3)] F m(1) by simp
    moreover have tn: "tnodes s2 = tnodes ?s1" using m(2) by (simp add: same_tree_def)
    ultimately have e: "refresh_entry F fd de s = Returns (put_itm ?c (de_tm de) s2)"
      using cl by (intro re same_tree_tree_ok [OF m(2) okc]) simp_all
    note d2 = dir_at_shape [OF d1 m(2)]
    have "itype (inode_of s2 x) = itype (inode_of ?s1 x)" "itm (inode_of s2 x) = itm (inode_of ?s1 x)"
      "ichild (inode_of s2 x) = ichild (inode_of ?s1 x)" for x
      by (subst m(3), simp)+
    then have l2: "listing s2 u = listing s u @ [\<lparr>de_type = de_type de, de_tm = zero_tm, de_name = ?nm\<rparr>]"
      and c2: "?c \<in> set (ichild (inode_of s2 u))"
      using l(1,3) by (simp_all add: listing_def dirent_of_def tn)
    note nn = child_None_names [OF None nm(2)]
    then have "map (\<lambda>d. if de_name d = ?nm then d\<lparr>de_tm := de_tm de\<rparr> else d) (listing s u) = listing s u"
      using nn by (intro map_idI) (metis imageI)
    then have "listing (put_itm ?c (de_tm de) s2) u = merge_dirent (listing s u) de"
      using nm(2) nn listing_put_itm [OF d2 c2, of ?nm "de_tm de"] by (simp add: tn f l2 merge_dirent_def)
    moreover have "dir_at (put_itm ?c (de_tm de) s2) cs u k"
      using cl by (intro dir_at_shape [OF d2] put_itm_shape same_tree_tree_ok [OF m(2) okc]) (simp add: tn)
    moreover have "dirents (put_itm ?c (de_tm de) s2) = dirents s2" by (rule dirents_law) simp
    moreover have "dirents ?s1 = dirents s" by (rule dirents_law) (rule f(6))
    moreover have "tnodes ?s1 u = tnodes s u" using created_old(1) [OF ok u u] .
    ultimately show ?thesis using e m(4,5) by (simp add: f(4) tn)
  qed
qed

lemma refresh_loop:
  assumes "dir_at s cs u k" "F k = f" "fpath fd = join_path cs" "finode fd = tinode (the (tnodes s u))"
    and "\<forall>de \<in> set (dirents s (finode fd)). good_comp (de_name de) \<and> length (de_name de) \<le> VFS_MAX_NAME_LEN
      \<and> length (join_path cs) + length (de_name de) + 1 < VFS_MAX_PATH_LEN"
    and "length (dirents s (finode fd)) < 2 ^ 64" "j \<le> length (dirents s (finode fd))"
  shows "\<exists>s'. loop_c (refresh_step F fd) (of_nat j, s) = Returns s' \<and> dir_at s' cs u k
     \<and> listing s' u = foldl merge_dirent (listing s u) (drop j (dirents s (finode fd)))
     \<and> openfiles s' = openfiles s \<and> tnodes s' u = tnodes s u \<and> dirents s' = dirents s"
  using assms
proof (induction "length (dirents s (finode fd)) - j" arbitrary: j s)
  case 0
  have "inode_at s (finode fd) = Returns (inode_of s u)"
    unfolding "0.prems"(4) using tnode_live(2) [OF _ dir_at_live [OF "0.prems"(1)]] "0.prems"(1) by (simp add: dir_at_def)
  moreover have "unat (of_nat j :: u64) = j" using "0.prems"(6,7) by (intro unat_of_nat_small) simp
  moreover from this obtain de where "fs_getdent f (finode fd) (of_nat j) s = Returns (-1, de, s)"
    using getdent_out [of s "finode fd" "of_nat j"] "0.hyps" by auto
  moreover have "ifs (inode_of s u) = Some k" using "0.prems"(1) by (simp add: dir_at_def)
  ultimately have "refresh_step F fd (of_nat j, s) = Returns (Inr s)"
    by (simp add: refresh_step_def fs_at_def "0.prems"(2))
  with 0 show ?case by (subst loop_c_unfold) simp
next
  case (Suc n)
  let ?ds = "dirents s (finode fd)"
  have j: "j < length ?ds" using Suc.hyps(2) by simp
  have i: "inode_at s (finode fd) = Returns (inode_of s u)"
    unfolding Suc.prems(4) using tnode_live(2) [OF _ dir_at_live [OF Suc.prems(1)]] Suc.prems(1) by (simp add: dir_at_def)
  have un: "unat (of_nat j :: u64) = j" using Suc.prems(6) j by (intro unat_of_nat_small) simp
  from getdent_in [of "of_nat j" s "finode fd"] j un
  have g: "fs_getdent f (finode fd) (of_nat j) s = Returns (0, ?ds ! j, s)" by simp
  have "?ds ! j \<in> set ?ds" using j by simp
  with Suc.prems(5) have nm: "good_comp (de_name (?ds ! j))" "length (de_name (?ds ! j)) \<le> VFS_MAX_NAME_LEN"
    "length (join_path cs) + length (de_name (?ds ! j)) + 1 < VFS_MAX_PATH_LEN" by blast+
  from refresh_entry_merges [of s cs u k F fd "?ds ! j", OF Suc.prems(1-3) nm] obtain s1 where
    s1: "refresh_entry F fd (?ds ! j) s = Returns s1" "dir_at s1 cs u k" "listing s1 u = merge_dirent (listing s u) (?ds ! j)"
      "openfiles s1 = openfiles s" "dirents s1 = dirents s" "tnodes s1 u = tnodes s u" by blast
  have "ifs (inode_of s u) = Some k" using Suc.prems(1) by (simp add: dir_at_def)
  then have step: "refresh_step F fd (of_nat j, s) = Returns (Inl (of_nat (Suc j), s1))"
    by (simp add: refresh_step_def i fs_at_def Suc.prems(2) g s1(1) add.commute)
  have "n = length ?ds - Suc j" using Suc.hyps(2) by simp
  with Suc.hyps(1) [of s1 "Suc j"] Suc.prems s1 j obtain s' where
    "loop_c (refresh_step F fd) (of_nat (Suc j), s1) = Returns s'" "dir_at s' cs u k"
    "listing s' u = foldl merge_dirent (listing s1 u) (drop (Suc j) ?ds)" "openfiles s' = openfiles s1" "tnodes s' u = tnodes s1 u"
    "dirents s' = dirents s1" by auto
  with step s1 show ?case
    by (subst loop_c_unfold) (simp add: Cons_nth_drop_Suc [OF j, symmetric])
qed

lemma refresh_lists:
  assumes "dir_at s cs u k" "F k = f" "vfs_handle_to_fd h s = Some fd" "fpath fd = join_path cs"
    "finode fd = tinode (the (tnodes s u))"
    and r: "fs_refresh f (finode fd) s = Returns (rv, s1)" "same_tree s s1" "inode_of s1 = inode_of s" "openfiles s1 = openfiles s"
    and "\<forall>de \<in> set (dirents s1 (finode fd)). good_comp (de_name de) \<and> length (de_name de) \<le> VFS_MAX_NAME_LEN
      \<and> length (join_path cs) + length (de_name de) + 1 < VFS_MAX_PATH_LEN"
    and "length (dirents s1 (finode fd)) < 2 ^ 64"
  shows "\<exists>s'. vfs_refresh F h s = Returns (0, s') \<and> dir_at s' cs u k
     \<and> listing s' u = foldl merge_dirent (listing s u) (dirents s1 (finode fd))
     \<and> openfiles s' = openfiles s \<and> tnodes s' u = tnodes s u \<and> dirents s' = dirents s1"
proof -
  have tn: "tnodes s1 = tnodes s" "openfiles s1 = openfiles s" using r(2,4) by (simp_all add: same_tree_def)
  have l: "listing s1 u = listing s u" by (simp add: listing_def dirent_of_def r(3) tn cong: map_cong)
  have "inode_at s (finode fd) = Returns (inode_of s u)"
    unfolding assms(5) using tnode_live(2) [OF _ dir_at_live [OF assms(1)]] assms(1) by (simp add: dir_at_def)
  moreover have "ifs (inode_of s u) = Some k" using assms(1) by (simp add: dir_at_def)
  ultimately have "vfs_refresh F h s = omap (\<lambda>s. (0, s)) (loop_c (refresh_step F fd) (of_nat 0, s1))"
    by (simp add: vfs_refresh_def assms(2,3) fs_at_def r(1))
  with refresh_loop [OF dir_at_shape [OF assms(1) r(2)], of F fd 0] assms(2,4,5,10,11) show ?thesis
    by (auto simp: l tn)
qed

end

text \<open>Changing the count of open files of the directory's inode.\<close>

lemma put_refcount_shape:
  assumes "inodes s i = Some n"
  shows "same_tree s (put_inode i (n\<lparr>irefcount := c\<rparr>) s)"
  using assms by (simp add: same_tree_def put_inode_def shape_def)

lemma listing_shape:
  assumes "tnodes s' = tnodes s" "\<And>x. itype (inode_of s' x) = itype (inode_of s x)"
    "\<And>x. itm (inode_of s' x) = itm (inode_of s x)" "ichild (inode_of s' u) = ichild (inode_of s u)"
  shows "listing s' u = listing s u"
  by (simp add: listing_def dirent_of_def assms)

lemma listing_refcount:
  assumes "inodes s i = Some n"
  shows "listing (put_inode i (n\<lparr>irefcount := c\<rparr>) s) u = listing s u"
  using assms by (intro listing_shape) (simp_all add: put_inode_def inode_of_def)

section \<open>Reading the entries back\<close>

lemma getdent_at:
  assumes d: "dir_at s cs u k" and h: "vfs_handle_to_fd h s = Some fd" "finode fd = tinode (the (tnodes s u))"
    and j: "fseek fd = of_nat j" "j \<le> length (listing s u)" "length (listing s u) < 2 ^ 64"
  shows "vfs_getdent h s =
     (if j < length (listing s u)
      then Returns (1, Some (listing s u ! j), s\<lparr>openfiles := (openfiles s)[unat (of_int h :: u64) :=
             Some (fd\<lparr>fseek := of_nat (Suc j)\<rparr>)]\<rparr>)
      else Returns (0, None, s))"
proof -
  let ?cs = "ichild (inode_of s u)"
  have ok: "tree_ok s" "IS_TRAVERSABLE (inode_of s u)" using d by (simp_all add: dir_at_def folder_def)
  note u = dir_at_live [OF d]
  have len: "length (listing s u) = length ?cs" by (simp add: listing_def)
  have uj: "unat (of_nat j :: u64) = j" "unat (of_nat (length ?cs) :: u64) = length ?cs"
    using j(2,3) unfolding len by (intro unat_of_nat_small; simp)+
  then have ge: "(of_nat j :: u64) \<ge> of_nat (length ?cs) \<longleftrightarrow> \<not> j < length ?cs" by (simp add: word_le_nat_alt not_less)
  show ?thesis
  proof (cases "j < length ?cs")
    case True
    then have "tnodes s (?cs ! j) \<noteq> None" using children_live [OF ok(1) u] by simp
    note c = tnode_live [OF ok(1) this]
    show ?thesis using True ok(2)
      by (simp add: vfs_getdent_def h tnode_live(2) [OF ok(1) u] j(1) ge uj c len rd_in listing_def dirent_of_def add.commute)
  next
    case False
    with ok(2) show ?thesis
      by (simp add: vfs_getdent_def h tnode_live(2) [OF ok(1) u] j(1) ge len)
  qed
qed

section \<open>Merging\<close>

lemma foldl_merge_new: "distinct (map de_name (L @ ds)) \<Longrightarrow> foldl merge_dirent L ds = L @ ds"
proof (induction ds arbitrary: L)
  case (Cons d ds)
  then have "merge_dirent L d = L @ [d]" by (auto simp: merge_dirent_def)
  with Cons.IH [of "L @ [d]"] Cons.prems show ?case by simp
qed simp

lemma merge_known: "distinct (map de_name L) \<Longrightarrow> d \<in> set L \<Longrightarrow> merge_dirent L d = L"
proof -
  assume L: "distinct (map de_name L)" "d \<in> set L"
  have "(if de_name x = de_name d then x\<lparr>de_tm := de_tm d\<rparr> else x) = x" if "x \<in> set L" for x
    using L that by (auto simp: distinct_map inj_on_def)
  then show ?thesis using L(2) by (auto simp: merge_dirent_def intro: map_idI)
qed

lemma foldl_merge_known: "distinct (map de_name L) \<Longrightarrow> set ds \<subseteq> set L \<Longrightarrow> foldl merge_dirent L ds = L"
  by (induction ds) (simp_all add: merge_known)

end
