(* ===== verification/Fat32_Dir.thy ===== *)
theory Fat32_Dir
  imports Fat32_Names Fat32_Files
begin

text \<open>
  Reading a directory (\<open>fat32_refresh\<close>, \<open>fat32_getdent\<close> of \<open>fs/fat32.c\<close>) against the format: a
  directory is a list of slots, each an unused entry, a plain entry with its short name, or the parts
  of a long name with the entry they belong to.
\<close>

section \<open>Slots\<close>

datatype dslot = Unused "u8 list" | Plain "u8 list" | Long "u8 list list" "u8 list" "u8 list"

fun slot_ents :: "dslot \<Rightarrow> u8 list list" where
  "slot_ents (Unused e) = [e]"
| "slot_ents (Plain e) = [e]"
| "slot_ents (Long ls nm e) = ls @ [e]"

definition stamp :: "u8 list \<Rightarrow> tm" where
  "stamp e = (case fat32_get_datetime e of Returns t \<Rightarrow> t | _ \<Rightarrow> zero_tm)"

fun slot_items :: "nat \<Rightarrow> dslot \<Rightarrow> fat32_ident_item list" where
  "slot_items this (Unused e) = []"
| "slot_items this (Plain e) =
     [\<lparr>it_entry = e, it_tm = stamp e, it_name = fat32_get_short_filename e, it_parent = this\<rparr>]"
| "slot_items this (Long ls nm e) = [\<lparr>it_entry = e, it_tm = stamp e, it_name = nm, it_parent = this\<rparr>]"

definition dated :: "u8 list \<Rightarrow> bool" where
  "dated e \<longleftrightarrow> length e = 32 \<and> (\<exists>t. fat32_get_datetime e = Returns t)"

fun slot_ok :: "dslot \<Rightarrow> bool" where
  "slot_ok (Unused e) \<longleftrightarrow> length e = 32 \<and> e ! 11 = 0"
| "slot_ok (Plain e) \<longleftrightarrow> dated e \<and> e ! 11 \<noteq> 0 \<and> e ! 11 AND FAT32_ATTR_LONGNAME = 0"
| "slot_ok (Long ls nm e) \<longleftrightarrow> dated e \<and> ls \<noteq> [] \<and> length ls < 2 ^ 32 \<and> (\<forall>l \<in> set ls. length l = 32)
     \<and> hd ls ! 11 AND FAT32_ATTR_LONGNAME \<noteq> 0 \<and> nm \<noteq> []
     \<and> (\<forall>es. fat32_get_long_filename (ls @ es) = Returns (of_nat (length ls), nm))"

definition listed :: "fat32_ident_item list \<Rightarrow> 'h fat_vfs \<Rightarrow> 'h fat_vfs" where
  "listed its s = s\<lparr>fsdev := (fsdev s)\<lparr>filelist := filelist (fsdev s) @ its\<rparr>\<rparr>"

lemma listed_simps [simp]:
  "listed [] s = s" "listed b (listed a s) = listed (a @ b) s" "drive (fsdev (listed a s)) = drive (fsdev s)"
  "fat_of (listed a s) fi = fat_of s fi" "next_cluster fi c (listed a s) = next_cluster fi c s"
  "with_drive h (listed a s) = listed a (with_drive h s)" "fresh_bytes (listed a s) n = fresh_bytes s n"
  "vol_ok ok ready fi ws dev (listed a s) = vol_ok ok ready fi ws dev s"
  by (simp_all add: listed_def with_drive_def fat_of_def next_cluster_def fresh_bytes_def vol_ok_def
      cong: option.case_cong)

definition ents_of :: "dslot list \<Rightarrow> u8 list list" where
  "ents_of ss = concat (map slot_ents ss)"

definition items_of :: "nat \<Rightarrow> dslot list \<Rightarrow> fat32_ident_item list" where
  "items_of this ss = concat (map (slot_items this) ss)"

lemma slot_ents_32: "slot_ok sl \<Longrightarrow> \<forall>e \<in> set (slot_ents sl). length e = 32"
  by (cases sl) (auto simp: dated_def)

lemma ents_32: "list_all slot_ok ss \<Longrightarrow> \<forall>e \<in> set (ents_of ss). length e = 32"
  using slot_ents_32 by (fastforce simp: ents_of_def list_all_iff)

lemma length_ents: "\<forall>e \<in> set es. length e = 32 \<Longrightarrow> length (concat es) = 32 * length es"
  by (induction es) auto

lemma chunks_of:
  assumes "\<forall>e \<in> set es. length e = 32" "length pre = 32 * i"
  shows "map (\<lambda>k. take 32 (drop (32 * k) (pre @ concat es))) [i..<i + length es] = es"
  using assms
proof (induction es arbitrary: pre i)
  case (Cons e es)
  from Cons.IH [of "pre @ e" "Suc i"] Cons.prems
  have "map (\<lambda>k. take 32 (drop (32 * k) (pre @ e @ concat es))) [Suc i..<Suc i + length es] = es" by simp
  moreover have "[i..<i + length (e # es)] = i # [Suc i..<Suc i + length es]"
    using upt_conv_Cons [of i "i + length (e # es)"] by simp
  ultimately show ?case using Cons.prems by (simp del: upt_Suc)
qed simp

section \<open>One cluster\<close>

text \<open>The position in the buffer: \<open>i\<close> entries are behind, the entries \<open>es\<close> are ahead.\<close>

definition at_entry :: "u8 list \<Rightarrow> u64 \<Rightarrow> u64 \<Rightarrow> u8 list list \<Rightarrow> bool" where
  "at_entry buf tlen i es \<longleftrightarrow> (\<exists>pre. buf = pre @ concat es \<and> length pre = 32 * unat i
     \<and> (\<forall>e \<in> set es. length e = 32) \<and> unat tlen = length buf)"

lemma at_entry_count: "at_entry buf tlen i es \<Longrightarrow> unat (tlen div 32) = unat i + length es"
  by (auto simp: at_entry_def unat_div_distrib length_ents)

lemma at_entry_more: "at_entry buf tlen i es \<Longrightarrow> i < tlen div 32 \<longleftrightarrow> es \<noteq> []"
  using at_entry_count [of buf tlen i es] by (simp add: word_less_nat_alt)

lemma at_entry_sub: "at_entry buf tlen i (e # es) \<Longrightarrow> sub_bytes buf (32 * unat i) 32 = Returns e"
  by (auto simp: at_entry_def sub_bytes_def)

lemma at_entry_from:
  assumes "at_entry buf tlen i es"
  shows "entries_from buf tlen i = es"
proof -
  from assms obtain pre where p: "buf = pre @ concat es" "length pre = 32 * unat i" "\<forall>e \<in> set es. length e = 32"
    by (auto simp: at_entry_def)
  show ?thesis
    using chunks_of [OF p(3,2)] unfolding entries_from_def at_entry_count [OF assms] p(1) .
qed

lemma at_entry_skip:
  assumes "at_entry buf tlen i (es1 @ es2)"
  shows "at_entry buf tlen (i + of_nat (length es1)) es2"
proof -
  from assms obtain pre where p: "buf = pre @ concat (es1 @ es2)" "length pre = 32 * unat i"
    "\<forall>e \<in> set (es1 @ es2). length e = 32" "unat tlen = length buf" by (auto simp: at_entry_def)
  have l: "length (concat es1) = 32 * length es1" using p(3) by (intro length_ents) auto
  have "unat i + length es1 < 2 ^ 64" using p unat_u64 [of tlen] l by simp
  then have "unat (i + of_nat (length es1)) = unat i + length es1" by (rule unat_add_of_nat)
  then show ?thesis unfolding at_entry_def using p l by (intro exI [of _ "pre @ concat es1"]) auto
qed

lemma at_entry_next: "at_entry buf tlen i (e # es) \<Longrightarrow> at_entry buf tlen (i + 1) es"
  using at_entry_skip [of buf tlen i "[e]" es] by simp

lemma add_item_eq:
  assumes "at_entry buf tlen i (e # es)" "dated e"
  shows "add_item this buf i fn s = Returns (listed [\<lparr>it_entry = e, it_tm = stamp e,
     it_name = (if fn = [] then fat32_get_short_filename e else fn), it_parent = this\<rparr>] s)"
  using assms(2) by (auto simp: add_item_def at_entry_sub [OF assms(1)] listed_def stamp_def dated_def)

lemma dir_step_slot:
  assumes at: "at_entry buf tlen i (slot_ents sl @ es)" and ok: "slot_ok sl"
  shows "dir_step D fi this next (i, tlen, buf, s)
       = Returns (Inl (i + of_nat (length (slot_ents sl)), tlen, buf, listed (slot_items this sl) s))"
proof (cases sl)
  case (Unused e)
  with at ok at_entry_more [of buf tlen i "e # es"] at_entry_sub [of buf tlen i e es]
  show ?thesis by (simp add: dir_step_def)
next
  case (Plain e)
  with at ok at_entry_more [of buf tlen i "e # es"] at_entry_sub [of buf tlen i e es]
    add_item_eq [of buf tlen i e es this "[]" s]
  show ?thesis by (simp add: dir_step_def)
next
  case (Long ls nm e)
  with ok obtain l ls' where ls: "ls = l # ls'" by (cases ls) auto
  let ?n = "of_nat (length ls) :: u32"
  have n: "length ls < 2 ^ 32" "dated e" "nm \<noteq> []" using ok Long by simp_all
  have a: "at_entry buf tlen i (ls @ e # es)" using at Long by simp
  then have a1: "at_entry buf tlen i (l # ls' @ e # es)" by (simp add: ls)
  have u: "unat ?n = length ls" using n(1) by (simp add: unat_of_nat)
  then have "unat (ucast ?n :: u64) = length ls" by (simp add: unat_ucast_up)
  moreover have "unat (of_nat (length ls) :: u64) = length ls" using n(1) by (simp add: unat_nat)
  ultimately have c: "(ucast ?n :: u64) = of_nat (length ls)" by (simp only: word_unat_eq_iff)
  have pos: "?n > 0" unfolding word_gt_0 using u ls by (metis length_0_conv list.distinct(1) unat_0)
  have "l ! 11 AND FAT32_ATTR_LONGNAME \<noteq> 0" using ok Long ls by simp
  moreover from this have "l ! 11 \<noteq> 0" by auto
  moreover have "fat32_get_long_filename (entries_from buf tlen i) = Returns (?n, nm)"
    unfolding at_entry_from [OF a] using ok Long by simp
  ultimately show ?thesis
    using add_item_eq [OF at_entry_skip [OF a] n(2), of this nm s] n(3) c pos Long
      at_entry_more [OF a1] at_entry_sub [OF a1]
    by (simp add: dir_step_def add.commute add.left_commute)
qed

lemma dir_loop_slots:
  assumes "at_entry buf tlen i (ents_of ss)" "list_all slot_ok ss"
  shows "loop_c (dir_step D fi this next) (i, tlen, buf, s) = Returns (tlen, buf, listed (items_of this ss) s)"
  using assms
proof (induction ss arbitrary: i s)
  case Nil
  then show ?case using at_entry_more [OF Nil.prems(1)]
    by (subst loop_c_unfold) (simp add: dir_step_def ents_of_def items_of_def)
next
  case (Cons sl ss)
  have at: "at_entry buf tlen i (slot_ents sl @ ents_of ss)" using Cons.prems(1) by (simp add: ents_of_def)
  from Cons.IH [OF at_entry_skip [OF at]] Cons.prems(2) dir_step_slot [OF at, of D fi this "next" s]
  show ?case by (subst loop_c_unfold) (simp add: items_of_def)
qed

text \<open>
  An entry with one of the four low attribute bits, and no long name behind it: the reader takes it
  for a long name and gives up.
\<close>

lemma dir_loop_stops:
  assumes "at_entry buf tlen i (ents_of ss @ e # es)" "list_all slot_ok ss"
    and "e ! 11 AND FAT32_ATTR_LONGNAME \<noteq> 0" "fat32_get_long_filename (e # es) = Returns (0, junk_name)"
  shows "loop_c (dir_step D fi this 0) (i, tlen, buf, s) = Returns (tlen, buf, listed (items_of this ss) s)"
  using assms(1,2)
proof (induction ss arbitrary: i s)
  case Nil
  have "e ! 11 \<noteq> 0" using assms(3) by auto
  moreover have at: "at_entry buf tlen i (e # es)" using Nil by (simp add: ents_of_def)
  ultimately show ?case using at_entry_more [OF at] at_entry_sub [OF at] assms(3,4)
    by (subst loop_c_unfold) (simp add: dir_step_def at_entry_from [OF at] items_of_def)
next
  case (Cons sl ss)
  have at: "at_entry buf tlen i (slot_ents sl @ ents_of ss @ e # es)" using Cons.prems(1) by (simp add: ents_of_def)
  from Cons.IH [OF at_entry_skip [OF at]] Cons.prems(2) dir_step_slot [OF at, of D fi this 0 s]
  show ?case by (subst loop_c_unfold) (simp add: items_of_def)
qed

section \<open>A chain of clusters\<close>

lemma next_cluster_bound: "fat32_get_next_cluster c ws len = Returns c' \<Longrightarrow> c' < 0xFFFFFFF8"
  by (auto simp: fat32_get_next_cluster_def omap_eq_Returns split: if_splits)

text \<open>The clusters of the chain hold these slots, cluster by cluster.\<close>

definition holds_slots :: "(nat \<Rightarrow> u8 list) \<Rightarrow> fat32_ident \<Rightarrow> u32 list \<Rightarrow> dslot list list \<Rightarrow> bool" where
  "holds_slots d fi cs sls \<longleftrightarrow>
     list_all2 (\<lambda>c ss. list_all slot_ok ss \<and> clus d fi c = concat (ents_of ss)) cs sls"

lemma at_entry_start:
  "\<forall>e \<in> set es. length e = 32 \<Longrightarrow> unat tlen = length (concat es) \<Longrightarrow> at_entry (concat es) tlen 0 es"
  by (auto simp: at_entry_def)

context sector_device
begin

text \<open>The part of a round before its entries are looked at.\<close>

lemma dir_round_read:
  assumes v: "vol_ok ok ready fi ws dev s" and r: "run_ok (cluster_lba fi c) (sectors_per_cluster (fbs fi))"
    and nx: "fat32_get_next_cluster c ws (ucast (fat_len fi)) = Returns c'" and l: "length buf = clen fi"
  shows "\<exists>h. ok h \<and> sector h = sector (drive (fsdev s)) \<and> dir_round D fi this (c, tlen, buf, s)
      = obind (loop_c (dir_step D fi this c') (0, tlen, clus (sector (drive (fsdev s)) dev) fi c, with_drive h s))
          (\<lambda>(tlen, buf, s). Returns (if c' = 0 then Inr s else Inl (c', tlen, buf, s)))"
proof -
  let ?b = "clus (sector (drive (fsdev s)) dev) fi c"
  from dev_read_cluster [OF v r] obtain h where h:
    "dev_read D fi (cluster_lba fi c) (sectors_per_cluster (fbs fi)) s = Returns (?b, with_drive h s)"
    "ok h" "sector h = sector (drive (fsdev s))" by blast
  have "length ?b = clen fi" using v
    by (intro length_clus) (simp add: vol_ok_def sector_length [unfolded ATA_SECTOR_SIZE_def])
  then have "blit buf 0 ?b = Returns ?b" using l by (simp add: blit_def)
  moreover have "next_cluster fi c s = Returns c'" using v nx by (simp add: next_cluster_def vol_ok_def)
  moreover have "\<not> c' \<ge> 0xFFFFFFF8" using next_cluster_bound [OF nx] by simp
  ultimately show ?thesis using h by (intro exI [of _ h]) (simp add: dir_round_def)
qed

lemma dir_rounds:
  assumes "chain fi ws (c # cs)" "vol_ok ok ready fi ws dev s" "length buf = clen fi" "unat tlen = clen fi"
    and "holds_slots (sector (drive (fsdev s)) dev) fi (c # cs) sls"
  shows "\<exists>h. loop_c (dir_round D fi this) (c, tlen, buf, s)
      = Returns (with_drive h (listed (items_of this (concat sls)) s)) \<and> ok h \<and> sector h = sector (drive (fsdev s))"
  using assms
proof (induction cs arbitrary: c buf s sls)
  case Nil
  let ?d = "sector (drive (fsdev s)) dev"
  from Nil.prems(1,5) obtain ss where sls: "sls = [ss]" "list_all slot_ok ss" "clus ?d fi c = concat (ents_of ss)"
    and r: "run_ok (cluster_lba fi c) (sectors_per_cluster (fbs fi))"
      "fat32_get_next_cluster c ws (ucast (fat_len fi)) = Returns 0"
    by (auto simp: holds_slots_def list_all2_Cons1)
  have "length (clus ?d fi c) = clen fi" using Nil.prems(2)
    by (intro length_clus) (simp add: vol_ok_def sector_length [unfolded ATA_SECTOR_SIZE_def])
  then have at: "at_entry (clus ?d fi c) tlen 0 (ents_of ss)"
    unfolding sls(3) using ents_32 [OF sls(2)] Nil.prems(4) by (intro at_entry_start) simp_all
  from dir_round_read [OF Nil.prems(2) r Nil.prems(3), of this tlen] obtain h where
    "ok h" "sector h = sector (drive (fsdev s))" "dir_round D fi this (c, tlen, buf, s)
      = Returns (Inr (with_drive h (listed (items_of this ss) s)))"
    by (auto simp: dir_loop_slots [OF at sls(2)])
  then show ?case by (subst loop_c_unfold) (auto simp: sls(1))
next
  case (Cons c' cs)
  let ?d = "sector (drive (fsdev s)) dev"
  from Cons.prems(1,5) obtain ss sls' where sls: "sls = ss # sls'" "list_all slot_ok ss" "clus ?d fi c = concat (ents_of ss)"
      "holds_slots ?d fi (c' # cs) sls'"
    and r: "run_ok (cluster_lba fi c) (sectors_per_cluster (fbs fi))"
      "fat32_get_next_cluster c ws (ucast (fat_len fi)) = Returns c'" "c' \<noteq> 0" "chain fi ws (c' # cs)"
    by (auto simp: holds_slots_def list_all2_Cons1)
  have len: "length (clus ?d fi c) = clen fi" using Cons.prems(2)
    by (intro length_clus) (simp add: vol_ok_def sector_length [unfolded ATA_SECTOR_SIZE_def])
  then have at: "at_entry (clus ?d fi c) tlen 0 (ents_of ss)"
    unfolding sls(3) using ents_32 [OF sls(2)] Cons.prems(4) by (intro at_entry_start) simp_all
  from dir_round_read [OF Cons.prems(2) r(1,2) Cons.prems(3), of this tlen] r(3) obtain h where
    h: "ok h" "sector h = sector (drive (fsdev s))" "dir_round D fi this (c, tlen, buf, s)
      = Returns (Inl (c', tlen, clus ?d fi c, listed (items_of this ss) (with_drive h s)))"
    by (auto simp: dir_loop_slots [OF at sls(2)])
  let ?s = "listed (items_of this ss) (with_drive h s)"
  from Cons.IH [OF r(4) _ len Cons.prems(4), of ?s sls'] vol_ok_drive [OF Cons.prems(2) h(1)] h(2) sls(4)
  obtain h' where "loop_c (dir_round D fi this) (c', tlen, clus ?d fi c, ?s)
      = Returns (with_drive h' (listed (items_of this (concat sls')) ?s))" "ok h'" "sector h' = sector (drive (fsdev s))"
    by auto
  moreover have "items_of this (concat sls) = items_of this ss @ items_of this (concat sls')"
    by (simp add: sls(1) items_of_def)
  ultimately show ?case using h(3) by (subst loop_c_unfold) auto
qed

lemma refresh_lists:
  assumes id: "ident_of s this = Returns fi" and v: "vol_ok ok ready fi ws dev s"
    and c: "chain fi ws (c # cs)" "c = (if fe_cluster (fentry fi) < 2 then 2 else fe_cluster (fentry fi))"
    and h: "holds_slots (sector (drive (fsdev s)) dev) fi (c # cs) sls"
  shows "\<exists>h. fat32_refresh D this s = Returns (0, with_drive h (listed (items_of this (concat sls)) s))
     \<and> ok h \<and> sector h = sector (drive (fsdev s))"
proof -
  have b: "unat (cluster_bytes fi) = clen fi" using v by (intro cluster_bytes_eq) (simp add: vol_ok_def)
  have "length (fresh_bytes s (cluster_bytes fi)) = clen fi" by (simp add: fresh_bytes_def b)
  from dir_rounds [OF c(1) v this b h, of this] show ?thesis
    by (auto simp: fat32_refresh_def id Let_def c(2))
qed

end

section \<open>What a refresh lists\<close>

definition item_dirent :: "fat32_ident_item \<Rightarrow> vfs_dirent" where
  "item_dirent it = \<lparr>de_type = (if it_entry it ! 11 AND FAT32_ATTR_DIRECTORY \<noteq> 0 then VFS_NODE_FOLDER else VFS_NODE_FILE),
     de_tm = it_tm it, de_name = it_name it\<rparr>"

text \<open>The entries filed under a directory, and those a list of slots stands for.\<close>

definition fat32_dirents :: "'h fat_vfs \<Rightarrow> nat \<Rightarrow> vfs_dirent list" where
  "fat32_dirents s this = map item_dirent (filter (\<lambda>it. it_parent it = this) (filelist (fsdev s)))"

definition slot_dirents :: "dslot list \<Rightarrow> vfs_dirent list" where
  "slot_dirents ss = map item_dirent (items_of 0 ss)"

lemma items_this: "filter (\<lambda>it. it_parent it = this) (items_of this ss) = items_of this ss"
proof -
  have "it_parent it = this" if "it \<in> set (slot_items this sl)" for it sl
    using that by (cases sl) auto
  then show ?thesis by (auto simp: items_of_def intro!: filter_True)
qed

lemma items_dirents: "map item_dirent (items_of this ss) = slot_dirents ss"
proof -
  have "map item_dirent (slot_items this sl) = map item_dirent (slot_items 0 sl)" for sl
    by (cases sl) (simp_all add: item_dirent_def)
  then show ?thesis by (simp add: items_of_def slot_dirents_def map_concat o_def)
qed

lemma dirents_listed: "fat32_dirents (listed (items_of this ss) s) this = fat32_dirents s this @ slot_dirents ss"
  by (simp add: fat32_dirents_def listed_def items_this items_dirents)

lemma dirents_drive [simp]: "fat32_dirents (with_drive h s) this = fat32_dirents s this"
  by (simp add: fat32_dirents_def with_drive_def)

lemma getdent_eq:
  "fat32_getdent this pos s =
     (if unat pos < length (fat32_dirents s this) then Returns (0, fat32_dirents s this ! unat pos, s)
      else Returns (-1, \<lparr>de_type = VFS_NODE_FILE, de_tm = zero_tm, de_name = []\<rparr>, s))"
  by (simp add: fat32_getdent_def fat32_dirents_def item_dirent_def Let_def)

text \<open>
  C32: refreshing a directory whose cluster chain holds a list of slots (unused entries, entries with a
  short name, long names with their entries) adds exactly its entries, in the order of the chain and
  under their names, to those listed before, and changes no sector; reading the entries one after the
  other then answers them all and no more.
\<close>

theorem fat32_refresh_lists:
  assumes D: "sector_device D ok ready sector"
    and f: "ident_of s this = Returns fi" "vol_ok ok ready fi ws dev s" "chain fi ws (c # cs)"
      "c = (if fe_cluster (fentry fi) < 2 then 2 else fe_cluster (fentry fi))"
    and sl: "holds_slots (sector (drive (fsdev s)) dev) fi (c # cs) sls"
  shows "\<exists>h s'. fat32_refresh D this s = Returns (0, s') \<and> ok h \<and> sector h = sector (drive (fsdev s))
     \<and> s' = with_drive h (listed (items_of this (concat sls)) s)
     \<and> fat32_dirents s' this = fat32_dirents s this @ slot_dirents (concat sls)
     \<and> (\<forall>k. omap (\<lambda>(r, de, _). (r, de)) (fat32_getdent this k s')
          = Returns (if unat k < length (fat32_dirents s' this) then (0, fat32_dirents s' this ! unat k)
                     else (-1, \<lparr>de_type = VFS_NODE_FILE, de_tm = zero_tm, de_name = []\<rparr>)))"
  using sector_device.refresh_lists [OF D f sl] by (auto simp: getdent_eq dirents_listed)

lemma long_slot_ok:
  assumes "nm \<noteq> []" "0 \<notin> set nm" "length nm < 256" "dated e"
  shows "slot_ok (Long (lfn_layout ck nm) nm e)"
proof -
  let ?n = "part_count nm"
  have "1 \<le> ?n" using assms(1) by (cases nm) (simp_all add: part_count_def div_greater_zero_iff Suc_le_eq)
  moreover have "?n \<le> length nm + 12" unfolding part_count_def by (rule div_le_dividend)
  ultimately have n: "1 \<le> ?n" "?n < 2 ^ 32" using assms(3) by simp_all
  have el: "length (lfn_entry sq ck part) = 32 \<and> lfn_entry sq ck part ! 11 = 0x0F" if "length part \<le> 13" for sq part
  proof -
    from list13 [OF length_lfn_pad [OF that]] obtain a b c d e f g h i j k l m where
      cs: "lfn_pad part = [a, b, c, d, e, f, g, h, i, j, k, l, m]" .
    show ?thesis unfolding lfn_entry_def cs Let_def by (simp add: lfn_bytes_def case_prod_beta)
  qed
  have part: "length (parts_of ?n nm ! j) \<le> 13" if "j < ?n" for j
    using parts_nth [OF that, of nm] by simp
  have ls: "length (lfn_layout ck nm) = ?n" by (simp add: lfn_layout_def Let_def)
  have all: "length l = 32 \<and> l ! 11 = 0x0F" if "l \<in> set (lfn_layout ck nm)" for l
  proof -
    from that obtain j where "1 \<le> j" "j < ?n + 1" "l = lfn_entry (sequence_no ?n j) ck (parts_of ?n nm ! (j - 1))"
      by (auto simp: lfn_layout_def Let_def)
    with el [OF part] show ?thesis by simp
  qed
  have ne: "lfn_layout ck nm \<noteq> []" using ls n(1) by auto
  then have "hd (lfn_layout ck nm) ! 11 = 0x0F" using all hd_in_set by blast
  with assms(1,4) n(2) ne all long_name_read [OF assms(1-3)] ls show ?thesis
    by (simp add: FAT32_ATTR_LONGNAME_def)
qed

text \<open>A directory of two clusters: a file, then a folder with a long name.\<close>

definition readme_entry :: "u8 list" where
  "readme_entry = [0x52, 0x45, 0x41, 0x44, 0x4D, 0x45, 0x20, 0x20, 0x54, 0x58, 0x54, 0x20] @ replicate 10 0
     @ [0xC1, 0x63, 0x5D, 0x58] @ [3, 0, 5, 0, 0, 0]"

definition boot_entry :: "u8 list" where
  "boot_entry = [0x42, 0x4F, 0x4F, 0x54, 0x20, 0x20, 0x20, 0x20, 0x20, 0x20, 0x20, 0x10] @ replicate 10 0
     @ [0xC1, 0x63, 0x5D, 0x58] @ [7, 0, 0, 0, 0, 0]"

definition boot_name :: "u8 list" where
  "boot_name = [0x42, 0x6F, 0x6F, 0x74]"

definition demo_slots :: "dslot list list" where
  "demo_slots = [Plain readme_entry # replicate 15 (Unused (replicate 32 0)),
     Long (lfn_layout 0 boot_name) boot_name boot_entry # replicate 14 (Unused (replicate 32 0))]"

definition dir_disk :: "dslot list list \<Rightarrow> nat \<Rightarrow> nat \<Rightarrow> u8 list" where
  "dir_disk sls d k = (if k = 12 then concat (ents_of (sls ! 0)) else if k = 13 then concat (ents_of (sls ! 1))
     else replicate 512 0)"

lemma demo_stamp: "stamped e 2024 2 29 12 30 2 \<Longrightarrow> fat32_get_datetime e = Returns (date_tm 2024 2 29 12 30 2)"
  by (rule datetime_ok) (simp_all add: valid_date_def days_in_month_def year_is_leap_def)

lemma demo_dated: "dated readme_entry" "dated boot_entry"
proof -
  have "stamped readme_entry 2024 2 29 12 30 2" "stamped boot_entry 2024 2 29 12 30 2"
    by (simp_all add: stamped_def field_def readme_entry_def boot_entry_def)
  then show "dated readme_entry" "dated boot_entry"
    by (simp_all add: dated_def demo_stamp, simp_all add: readme_entry_def boot_entry_def)
qed

lemma demo_slots_ok: "list_all (list_all slot_ok) demo_slots"
proof -
  have "slot_ok (Long (lfn_layout 0 boot_name) boot_name boot_entry)"
    by (intro long_slot_ok demo_dated) (simp_all add: boot_name_def)
  moreover have "slot_ok (Plain readme_entry)"
    using demo_dated by (simp add: readme_entry_def FAT32_ATTR_LONGNAME_def)
  ultimately show ?thesis by (simp add: demo_slots_def list_all_iff)
qed

lemma demo_ents: "length (concat (ents_of (demo_slots ! 0))) = 512" "length (concat (ents_of (demo_slots ! 1))) = 512"
proof -
  have "length (lfn_layout 0 boot_name) = 1" by (simp add: lfn_layout_def part_count_def boot_name_def Let_def)
  then have "length (ents_of (demo_slots ! 0)) = 16" "length (ents_of (demo_slots ! 1)) = 16"
    by (simp_all add: demo_slots_def ents_of_def numeral_eq_Suc)
  moreover have "list_all slot_ok (demo_slots ! 0)" "list_all slot_ok (demo_slots ! 1)"
    using demo_slots_ok by (simp_all add: demo_slots_def)
  ultimately show "length (concat (ents_of (demo_slots ! 0))) = 512" "length (concat (ents_of (demo_slots ! 1))) = 512"
    using length_ents [OF ents_32] by simp_all
qed

lemma dir_disk_ok: "length (dir_disk demo_slots d k) = ATA_SECTOR_SIZE"
  by (simp add: dir_disk_def ATA_SECTOR_SIZE_def demo_ents [simplified])

lemma dir_disk_slots: "holds_slots (dir_disk demo_slots 0) demo_fi [2, 3] demo_slots"
  using demo_slots_ok by (simp add: holds_slots_def clus_def dir_disk_def cluster_lba_def demo_fi_def demo_slots_def upt_conv_Cons)

lemma fat32_refresh_lists_witness:
  "\<exists>s'. fat32_refresh ram_disk 5 (demo_vfs (dir_disk demo_slots)) = Returns (0, s')
     \<and> map de_name (fat32_dirents s' 5) = [[0x52, 0x45, 0x41, 0x44, 0x4D, 0x45, 0x2E, 0x54, 0x58, 0x54], boot_name]
     \<and> map de_type (fat32_dirents s' 5) = [VFS_NODE_FILE, VFS_NODE_FOLDER]"
proof -
  note v = demo_volume [of "\<lambda>h. \<forall>d k. length (h d k) = ATA_SECTOR_SIZE" "dir_disk demo_slots" "\<lambda>_. True"]
  have c: "2 = (if fe_cluster (fentry demo_fi) < 2 then 2 else fe_cluster (fentry demo_fi))"
    by (simp add: demo_chain)
  from fat32_refresh_lists [OF ram_disk_ok v(1,2) demo_chain(1) c, unfolded v(3), of demo_slots] dir_disk_ok dir_disk_slots v(3)
  obtain s' where "fat32_refresh ram_disk 5 (demo_vfs (dir_disk demo_slots)) = Returns (0, s')"
    "fat32_dirents s' 5 = fat32_dirents (demo_vfs (dir_disk demo_slots)) 5 @ slot_dirents (concat demo_slots)"
    by auto
  moreover have "fat32_dirents (demo_vfs (dir_disk demo_slots)) 5 = []" by (simp add: fat32_dirents_def demo_vfs_def)
  moreover have "map de_name (slot_dirents (concat demo_slots)) = [[0x52, 0x45, 0x41, 0x44, 0x4D, 0x45, 0x2E, 0x54, 0x58, 0x54], boot_name]"
    "map de_type (slot_dirents (concat demo_slots)) = [VFS_NODE_FILE, VFS_NODE_FOLDER]"
    by (simp_all add: slot_dirents_def demo_slots_def items_of_def item_dirent_def fat32_get_short_filename_def
        readme_entry_def boot_entry_def SPACE_def DOT_def FAT32_ATTR_DIRECTORY_def)
  ultimately show ?thesis by auto
qed

section \<open>Entries with an attribute bit\<close>

lemma length_lfn_part: "length (lfn_part e) \<le> 13"
proof -
  have c: "length (fat32_name_copy e k n) = n" for k n by (induction e k n rule: fat32_name_copy.induct) simp_all
  have "length (lfn_part e) \<le> length (fat32_name_copy e 1 5 @ fat32_name_copy e 14 6 @ fat32_name_copy e 28 2)"
    unfolding lfn_part_def by (rule length_takeWhile_le)
  then show ?thesis by (simp only: length_append c)
qed

text \<open>No entry of the list has the number that ends a long name.\<close>

lemma lfn_none:
  assumes "\<forall>e \<in> set es. e ! 0 AND 0x3F \<noteq> 1" "length got + 13 * length es < 256"
  shows "\<exists>r. lfn_loop es cnt en got = Returns (0, r)"
  using assms
proof (induction es arbitrary: cnt en got)
  case (Cons e es)
  have "ucast (e ! 0 AND 0x3F) \<noteq> (1 :: u32)"
  proof
    assume "ucast (e ! 0 AND 0x3F) = (1 :: u32)"
    then have "unat (ucast (e ! 0 AND 0x3F) :: u32) = 1" by simp
    then have "unat (e ! 0 AND 0x3F) = unat (1 :: u8)" by (simp add: unat_ucast_up)
    with Cons.prems(1) show False by (simp only: word_unat_eq_iff [symmetric]) simp
  qed
  moreover have "length (lfn_part e @ got) + 13 * length es < 256"
    using Cons.prems(2) length_lfn_part [of e] by simp
  ultimately show ?case using Cons.IH [of "lfn_part e @ got"] Cons.prems(1)
    by (simp add: Let_def VFS_MAX_NAME_LEN_def)
qed simp

context sector_device
begin

lemma refresh_stops:
  assumes id: "ident_of s this = Returns fi" and v: "vol_ok ok ready fi ws dev s"
    and c: "chain fi ws [c]" "c = (if fe_cluster (fentry fi) < 2 then 2 else fe_cluster (fentry fi))"
    and d: "clus (sector (drive (fsdev s)) dev) fi c = concat (ents_of ss @ e # es)" "list_all slot_ok ss"
      "\<forall>x \<in> set (e # es). length x = 32"
    and e: "e ! 11 AND FAT32_ATTR_LONGNAME \<noteq> 0" "\<forall>x \<in> set (e # es). x ! 0 AND 0x3F \<noteq> 1" "length (e # es) \<le> 19"
  shows "\<exists>h. fat32_refresh D this s = Returns (0, with_drive h (listed (items_of this ss) s))
     \<and> ok h \<and> sector h = sector (drive (fsdev s))"
proof -
  let ?b = "clus (sector (drive (fsdev s)) dev) fi c"
  have b: "unat (cluster_bytes fi) = clen fi" using v by (intro cluster_bytes_eq) (simp add: vol_ok_def)
  have lf: "length (fresh_bytes s (cluster_bytes fi)) = clen fi" by (simp add: fresh_bytes_def b)
  have "length ?b = clen fi" using v
    by (intro length_clus) (simp add: vol_ok_def sector_length [unfolded ATA_SECTOR_SIZE_def])
  then have at: "at_entry ?b (cluster_bytes fi) 0 (ents_of ss @ e # es)"
    unfolding d(1) using ents_32 [OF d(2)] d(3) b by (intro at_entry_start) auto
  from lfn_none [OF e(2), of "[]" 0 0] e(3) obtain r where "fat32_get_long_filename (e # es) = Returns (0, r)"
    by (auto simp: fat32_get_long_filename_def)
  note l = dir_loop_stops [OF at d(2) e(1) this, of D fi this]
  from c(1) have "run_ok (cluster_lba fi c) (sectors_per_cluster (fbs fi))"
    "fat32_get_next_cluster c ws (ucast (fat_len fi)) = Returns 0" by simp_all
  from dir_round_read [OF v this lf, of this "cluster_bytes fi"] obtain h where
    h: "ok h" "sector h = sector (drive (fsdev s))"
    "dir_round D fi this (c, cluster_bytes fi, fresh_bytes s (cluster_bytes fi), s)
      = Returns (Inr (with_drive h (listed (items_of this ss) s)))"
    by (auto simp: l)
  from h(3) have "loop_c (dir_round D fi this) (c, cluster_bytes fi, fresh_bytes s (cluster_bytes fi), s)
      = Returns (with_drive h (listed (items_of this ss) s))" by (subst loop_c_unfold) simp
  then have "fat32_refresh D this s = Returns (0, with_drive h (listed (items_of this ss) s))"
    using c(2) by (auto simp: fat32_refresh_def Let_def id split: if_splits)
  with h(1,2) show ?thesis by blast
qed

end

text \<open>
  an entry with one of the four low attribute bits that is no part of a long name (a volume label,
  a file that is read only, hidden or of the system) ends the listing of the directory: it and the
  entries behind it, when none of them can pass for the last part of a long name, are not listed.
\<close>

theorem fat32_refresh_stops:
  assumes D: "sector_device D ok ready sector"
    and f: "ident_of s this = Returns fi" "vol_ok ok ready fi ws dev s" "chain fi ws [c]"
      "c = (if fe_cluster (fentry fi) < 2 then 2 else fe_cluster (fentry fi))"
    and d: "clus (sector (drive (fsdev s)) dev) fi c = concat (ents_of ss @ e # es)" "list_all slot_ok ss"
      "\<forall>x \<in> set (e # es). length x = 32"
    and e: "e ! 11 AND FAT32_ATTR_LONGNAME \<noteq> 0" "\<forall>x \<in> set (e # es). x ! 0 AND 0x3F \<noteq> 1" "length (e # es) \<le> 19"
  shows "\<exists>s'. fat32_refresh D this s = Returns (0, s')
     \<and> fat32_dirents s' this = fat32_dirents s this @ slot_dirents ss"
  using sector_device.refresh_stops [OF D f d e] by (auto simp: dirents_listed)

text \<open>A volume label (\<open>HANOS\<close>), then a file.\<close>

definition label_entry :: "u8 list" where
  "label_entry = [0x48, 0x41, 0x4E, 0x4F, 0x53, 0x20, 0x20, 0x20, 0x20, 0x20, 0x20, 0x08] @ replicate 20 0"

definition label_dir :: "u8 list list" where
  "label_dir = label_entry # readme_entry # replicate 14 (replicate 32 0)"

definition one_fi :: fat32_ident where
  "one_fi = demo_fi\<lparr>fentry := zero_entry\<lparr>fe_cluster := 3\<rparr>\<rparr>"

definition one_vfs :: "'h \<Rightarrow> 'h fat_vfs" where
  "one_vfs h = put_ident 1 one_fi (demo_vfs h)"

lemma one_volume:
  assumes "ok h" "ready 0"
  shows "ident_of (one_vfs h) 5 = Returns one_fi" "vol_ok ok ready one_fi demo_fat 0 (one_vfs h)"
    "drive (fsdev (one_vfs h)) = h" "chain one_fi demo_fat [3]" "cluster_lba one_fi 3 = 13"
proof -
  have "fat32_get_next_cluster 3 demo_fat 512 = Returns 0"
    by (simp add: fat32_get_next_cluster_def demo_fat_def nth_Cons')
  then show "chain one_fi demo_fat [3]" by (simp add: run_ok_def cluster_lba_def one_fi_def demo_fi_def)
qed (use assms in \<open>simp_all add: one_vfs_def demo_vfs_def put_ident_def ident_of_def ident_key_def ident_at_def inode_at_def
      vol_ok_def fat_of_def one_fi_def demo_fi_def cluster_lba_def\<close>)

lemma fat32_refresh_stops_witness:
  "\<exists>s'. fat32_refresh ram_disk 5 (one_vfs (\<lambda>_ _. concat label_dir)) = Returns (0, s') \<and> fat32_dirents s' 5 = []"
proof -
  let ?h = "\<lambda>(d :: nat) (k :: nat). concat label_dir" and ?ok = "\<lambda>h. \<forall>(d :: nat) (k :: nat). length (h d k :: u8 list) = ATA_SECTOR_SIZE"
  have all: "\<forall>x \<in> set label_dir. length x = 32" "length label_dir = 16"
    by (simp_all add: label_dir_def label_entry_def readme_entry_def)
  then have ok: "?ok ?h" by (simp add: length_ents ATA_SECTOR_SIZE_def)
  note v = one_volume [of ?ok ?h "\<lambda>_. True", OF ok TrueI]
  have c: "3 = (if fe_cluster (fentry one_fi) < 2 then 2 else fe_cluster (fentry one_fi))" by (simp add: one_fi_def)
  have d: "clus (?h 0) one_fi 3 = concat (ents_of [] @ label_entry # tl label_dir)"
    by (simp add: clus_def v(5) ents_of_def label_dir_def) (simp add: one_fi_def demo_fi_def)
  have e: "\<forall>x \<in> set (label_entry # tl label_dir). length x = 32" "label_entry ! 11 AND FAT32_ATTR_LONGNAME \<noteq> 0"
    "\<forall>x \<in> set (label_entry # tl label_dir). x ! 0 AND 0x3F \<noteq> 1" "length (label_entry # tl label_dir) \<le> 19"
    by (simp_all add: label_dir_def label_entry_def readme_entry_def FAT32_ATTR_LONGNAME_def)
  from fat32_refresh_stops [OF ram_disk_ok v(1,2,4) c _ _ e, unfolded v(3), of "[]", OF d] show ?thesis
    by (simp add: fat32_dirents_def slot_dirents_def items_of_def) (simp add: one_vfs_def demo_vfs_def put_ident_def)
qed

end
