(* ===== verification/File_Test.thy ===== *)
theory File_Test
  imports Vfs_List Fat32_Dir Fat32_Vfs Klog_Format
begin

text \<open>
  The file tests (\<open>test/file.c\<close>) over the VFS, FAT32 and the log: \<open>dir_test\<close>, which is the command
  \<open>ls\<close>, and \<open>file_test\<close>.
\<close>

section \<open>The command \<open>ls\<close>\<close>

definition print_dirent :: "u8 list \<Rightarrow> vfs_dirent \<Rightarrow> klogs \<times> terms \<Rightarrow> (klogs \<times> terms) outcome" where
  "print_dirent font de =
     kprintf font (c_lit (''%04d-%02d-%02d %02d:%02d ?[14;1m%5s?[0m %s'' @ NEWLINE))
       [Num (of_int (1900 + tm_year (de_tm de))), Num (of_int (tm_mon (de_tm de) + 1)), Num (of_int (tm_mday (de_tm de))),
        Num (of_int (tm_hour (de_tm de))), Num (of_int (tm_min (de_tm de))),
        Str (c_lit (if de_type de = VFS_NODE_FOLDER then ''<DIR>'' else [])), Str (de_name de @ [0])]"

definition dir_test_step :: "u8 list \<Rightarrow> int \<Rightarrow> 'd vfs \<times> klogs \<times> terms
    \<Rightarrow> (('d vfs \<times> klogs \<times> terms) + ('d vfs \<times> klogs \<times> terms)) outcome" where
  "dir_test_step font f1 x =
     (case x of (s, st) \<Rightarrow>
        obind (vfs_getdent f1 s) (\<lambda>(ret, de, s).
          if ret \<le> 0 then Returns (Inr (s, st)) else omap (\<lambda>st. Inl (s, st)) (print_dirent font (the de) st)))"

definition disk0_path :: "u8 list" where
  "disk0_path = map of_char ''/disk/0''"

definition dir_test :: "u8 list \<Rightarrow> log_env \<Rightarrow> 'd fs_table \<Rightarrow> 'd vfs \<times> klogs \<times> terms
    \<Rightarrow> ('d vfs \<times> klogs \<times> terms) outcome" where
  "dir_test font env F x =
     (case x of (s, st) \<Rightarrow>
        obind (kprintf font (c_lit (''List all files in \"%s\":'' @ NEWLINE)) [Str (disk0_path @ [0])] st) (\<lambda>st.
        obind (vfs_open F disk0_path VFS_MODE_READWRITE s) (\<lambda>(f1, s).
          if f1 \<noteq> -1 then
            obind (klogi font env (''Open %s(%d) successed'' @ NEWLINE) [Str (disk0_path @ [0]), Num (of_int f1)] st) (\<lambda>st.
            obind (vfs_refresh F f1 s) (\<lambda>(_, s).
            obind (loop_c (dir_test_step font f1) (s, st)) (\<lambda>(s, st).
              omap (\<lambda>(_, s). (s, st)) (vfs_close f1 s))))
          else
            omap (Pair s) (klogi font env (''Open %s(%d) failed'' @ NEWLINE) [Str (disk0_path @ [0]), Num (of_int f1)] st))))"

section \<open>What \<open>ls\<close> prints\<close>

fun print_dirents :: "u8 list \<Rightarrow> vfs_dirent list \<Rightarrow> klogs \<times> terms \<Rightarrow> (klogs \<times> terms) outcome" where
  "print_dirents font [] st = Returns st"
| "print_dirents font (d # ds) st = obind (print_dirent font d st) (print_dirents font ds)"

lemma print_dirents_Nil [simp]: "print_dirents font [] = Returns"
  by (rule ext) simp

text \<open>The open directory at position \<open>j\<close>.\<close>

definition seek_at :: "int \<Rightarrow> vfs_node_desc \<Rightarrow> nat \<Rightarrow> 'd vfs \<Rightarrow> 'd vfs" where
  "seek_at h fd j s = s\<lparr>openfiles := (openfiles s)[unat (of_int h :: u64) := Some (fd\<lparr>fseek := of_nat j\<rparr>)]\<rparr>"

lemma seek_at_simps [simp]:
  "tnodes (seek_at h fd j s) = tnodes s" "inodes (seek_at h fd j s) = inodes s" "fsdev (seek_at h fd j s) = fsdev s"
  "seek_at h fd' j' (seek_at h fd j s) = seek_at h fd' j' s" "inode_of (seek_at h fd j s) x = inode_of s x"
  "listing (seek_at h fd j s) u = listing s u" "same_tree s (seek_at h fd j s)"
  by (simp_all add: seek_at_def inode_of_def listing_def dirent_of_def same_tree_def cong: map_cong)

lemma seek_at_handle: "vfs_handle_to_fd h s = Some fd \<Longrightarrow> vfs_handle_to_fd h (seek_at h fd' j s) = Some (fd'\<lparr>fseek := of_nat j\<rparr>)"
  by (simp add: vfs_handle_to_fd_def seek_at_def not_le split: if_splits)

lemma dir_test_loop:
  assumes "dir_at s cs u k" "vfs_handle_to_fd h s = Some fd" "finode fd = tinode (the (tnodes s u))"
    and "length (listing s u) < 2 ^ 64" "j \<le> length (listing s u)"
  shows "loop_c (dir_test_step font h) (seek_at h fd j s, st)
       = omap (Pair (seek_at h fd (length (listing s u)) s)) (print_dirents font (drop j (listing s u)) st)"
  using assms(5)
proof (induction "length (listing s u) - j" arbitrary: j st)
  case 0
  from getdent_at [OF dir_at_shape [OF assms(1)] seek_at_handle [OF assms(2)], of fd j j] assms(3,4) 0
  show ?case by (subst loop_c_unfold) (simp add: dir_test_step_def)
next
  case (Suc n)
  have j: "j < length (listing s u)" using Suc.hyps(2) by simp
  have upd: "(seek_at h fd j s)\<lparr>openfiles := (openfiles (seek_at h fd j s))[unat (of_int h :: u64) := Some (fd\<lparr>fseek := of_nat (Suc j)\<rparr>)]\<rparr>
      = seek_at h fd (Suc j) s" by (simp add: seek_at_def)
  have g: "vfs_getdent h (seek_at h fd j s) = Returns (1, Some (listing s u ! j), seek_at h fd (Suc j) s)"
    using getdent_at [OF dir_at_shape [OF assms(1)] seek_at_handle [OF assms(2)], of fd j j] assms(3,4) Suc.prems j upd
    by simp
  have "n = length (listing s u) - Suc j" using Suc.hyps(2) by simp
  note ih = Suc.hyps(1) [OF this Suc_leI [OF j]]
  show ?case
    by (subst loop_c_unfold, cases "print_dirent font (listing s u ! j) st")
      (simp_all add: dir_test_step_def g ih Cons_nth_drop_Suc [OF j, symmetric])
qed

text \<open>The state after the directory has been opened, and after its handle has been closed.\<close>

definition opened :: "u8 list \<Rightarrow> vfs_openmode \<Rightarrow> nat \<Rightarrow> 'd vfs \<Rightarrow> 'd vfs" where
  "opened path m u s = (put_inode (tinode (the (tnodes s u))) ((inode_of s u)\<lparr>irefcount := irefcount (inode_of s u) + 1\<rparr>) s)
     \<lparr>openfiles := openfiles s @ [Some \<lparr>fpath = path, ftnode = u, finode = tinode (the (tnodes s u)), fmode = m, fseek = 0\<rparr>]\<rparr>"

lemma opened_simps [simp]: "tnodes (opened path m u s) = tnodes s" "fsdev (opened path m u s) = fsdev s"
  by (simp_all add: opened_def put_inode_def)

lemma opened_dir:
  assumes "dir_at s cs u k"
  shows "dir_at (opened path m u s) cs u k" "listing (opened path m u s) u = listing s u"
    "itype (inode_of (opened path m u s) x) = itype (inode_of s x)" "iident (inode_of (opened path m u s) x) = iident (inode_of s x)"
proof -
  have ok: "tree_ok s" using assms by (simp add: dir_at_def)
  note live = tnode_live(3) [OF ok dir_at_live [OF assms]]
  let ?s = "put_inode (tinode (the (tnodes s u))) ((inode_of s u)\<lparr>irefcount := irefcount (inode_of s u) + 1\<rparr>) s"
  have "same_tree s ?s" by (rule put_refcount_shape [OF live])
  then show "dir_at (opened path m u s) cs u k"
    unfolding opened_def by (intro dir_at_shape [OF assms] same_tree_trans [OF _ same_tree_upd(2)])
  show "listing (opened path m u s) u = listing s u"
    unfolding opened_def using listing_refcount [OF live] by simp
  show "itype (inode_of (opened path m u s) x) = itype (inode_of s x)"
    "iident (inode_of (opened path m u s) x) = iident (inode_of s x)"
    by (auto simp: opened_def put_inode_def inode_of_def)
qed

lemma open_node:
  assumes ok: "tree_ok s" "\<forall>c \<in> set cs. good_comp c" "resolve s 0 cs = Some u"
    and cs: "cs \<noteq> []" "join_path cs = path" "length path < VFS_MAX_PATH_LEN"
    and n: "n = length (openfiles s)" "n < 2 ^ 31"
  shows "vfs_open F path m s = Returns (int n, opened path m u s)"
proof -
  have u: "tnodes s u \<noteq> None" by (rule resolve_live [OF ok(1) root_live [OF ok(1)] ok(3)])
  have "open_handle (opened path m u s) = int n" using n by (intro open_handle_eq) (simp_all add: opened_def)
  then show ?thesis
    using open_found [OF ok(1,2) cs(1) ok(3), of F m] add_descriptor_eq [OF ok(1) u, of path m] cs
    by (simp add: vfs_open_def opened_def)
qed

lemma last_handle:
  assumes "openfiles s = fs @ [Some fd]" "length fs < 2 ^ 31"
  shows "vfs_handle_to_fd (int (length fs)) s = Some fd" "unat (of_int (int (length fs)) :: u64) = length fs"
proof -
  show n: "unat (of_int (int (length fs)) :: u64) = length fs" using assms(2) by (intro of_handle) simp
  show "vfs_handle_to_fd (int (length fs)) s = Some fd" using n by (simp add: vfs_handle_to_fd_def assms(1))
qed

lemma close_dir:
  assumes d: "dir_at s cs u k" and h: "openfiles s = fs @ [Some fd]" "finode fd = tinode (the (tnodes s u))" "length fs < 2 ^ 31"
  shows "\<exists>s'. vfs_close (int (length fs)) s = Returns (0, s') \<and> dir_at s' cs u k \<and> listing s' u = listing s u
     \<and> openfiles s' = fs @ [None] \<and> fsdev s' = fsdev s \<and> tnodes s' = tnodes s"
proof -
  have ok: "tree_ok s" using d by (simp add: dir_at_def)
  note live = tnode_live [OF ok dir_at_live [OF d]]
  note n = last_handle(2) [OF h(1,3)]
  let ?s = "put_inode (tinode (the (tnodes s u))) ((inode_of s u)\<lparr>irefcount := irefcount (inode_of s u) - 1\<rparr>) s"
  from last_handle(1) [OF h(1,3)] have c: "vfs_close (int (length fs)) s = Returns (0, ?s\<lparr>openfiles := fs @ [None]\<rparr>)"
    using n by (simp add: vfs_close_def h live) (simp add: put_inode_def h(1))
  have "same_tree s (?s\<lparr>openfiles := fs @ [None]\<rparr>)"
    using put_refcount_shape [OF live(3)] same_tree_upd(2) by (rule same_tree_trans)
  then have "dir_at (?s\<lparr>openfiles := fs @ [None]\<rparr>) cs u k" by (rule dir_at_shape [OF d])
  moreover have "listing (?s\<lparr>openfiles := fs @ [None]\<rparr>) u = listing s u" using listing_refcount [OF live(3)] by simp
  ultimately show ?thesis using c by (simp add: put_inode_def)
qed

text \<open>The lines before the entries.\<close>

definition print_opened :: "u8 list \<Rightarrow> log_env \<Rightarrow> nat \<Rightarrow> klogs \<times> terms \<Rightarrow> (klogs \<times> terms) outcome" where
  "print_opened font env n st =
     obind (kprintf font (c_lit (''List all files in \"%s\":'' @ NEWLINE)) [Str (disk0_path @ [0])] st)
       (klogi font env (''Open %s(%d) successed'' @ NEWLINE) [Str (disk0_path @ [0]), Num (of_nat n)])"

definition disk0_comps :: "u8 list list" where
  "disk0_comps = [map of_char ''disk'', map of_char ''0'']"

lemma disk0_join: "join_path disk0_comps = disk0_path" "disk0_comps \<noteq> []" "length disk0_path = 7"
  by (simp_all add: disk0_comps_def disk0_path_def SLASH_def)

context dir_provider
begin

lemma dir_test_lists:
  assumes d: "dir_at s disk0_comps u k" and F: "F k = f" and n: "n = length (openfiles s)" "n < 2 ^ 31"
    and i: "i = tinode (the (tnodes s u))"
    and r: "fs_refresh f i (opened disk0_path VFS_MODE_READWRITE u s) = Returns (rv, s2)"
      "same_tree (opened disk0_path VFS_MODE_READWRITE u s) s2"
      "inode_of s2 = inode_of (opened disk0_path VFS_MODE_READWRITE u s)"
      "openfiles s2 = openfiles (opened disk0_path VFS_MODE_READWRITE u s)"
    and nm: "\<forall>de \<in> set (dirents s2 i). good_comp (de_name de) \<and> length (de_name de) \<le> VFS_MAX_NAME_LEN"
    and len: "length (dirents s2 i) < 2 ^ 64" "length (foldl merge_dirent (listing s u) (dirents s2 i)) < 2 ^ 64"
  shows "\<exists>s'. (\<forall>font env st. dir_test font env F (s, st) = omap (Pair s') (obind (print_opened font env n st)
         (print_dirents font (foldl merge_dirent (listing s u) (dirents s2 i)))))
     \<and> dir_at s' disk0_comps u k \<and> listing s' u = foldl merge_dirent (listing s u) (dirents s2 i)
     \<and> openfiles s' = openfiles s @ [None] \<and> dirents s' = dirents s2"
proof -
  let ?s1 = "opened disk0_path VFS_MODE_READWRITE u s"
  define L where "L = foldl merge_dirent (listing s u) (dirents s2 i)"
  define fd where "fd = \<lparr>fpath = disk0_path, ftnode = u, finode = i, fmode = VFS_MODE_READWRITE, fseek = 0 :: u64\<rparr>"
  have o: "vfs_open F disk0_path VFS_MODE_READWRITE s = Returns (int n, ?s1)" "vfs_handle_to_fd (int n) ?s1 = Some fd"
  proof -
    have t: "tree_ok s" "\<forall>c \<in> set disk0_comps. good_comp c" "resolve s 0 disk0_comps = Some u"
      using d by (simp_all add: dir_at_def)
    show "vfs_open F disk0_path VFS_MODE_READWRITE s = Returns (int n, ?s1)"
      by (rule open_node [OF t disk0_join(2,1) _ n]) (simp add: disk0_join VFS_MAX_PATH_LEN_def)
    show "vfs_handle_to_fd (int n) ?s1 = Some fd"
      unfolding n(1) using n by (intro last_handle) (simp_all add: opened_def fd_def i)
  qed
  note d1 = opened_dir(1,2) [OF d, of disk0_path VFS_MODE_READWRITE]
  have "\<forall>de \<in> set (dirents s2 (finode fd)). good_comp (de_name de) \<and> length (de_name de) \<le> VFS_MAX_NAME_LEN
      \<and> length (join_path disk0_comps) + length (de_name de) + 1 < VFS_MAX_PATH_LEN"
    using nm by (auto simp: disk0_join VFS_MAX_NAME_LEN_def VFS_MAX_PATH_LEN_def fd_def)
  from refresh_lists [of ?s1 disk0_comps u k F "int n" fd, OF d1(1) F o(2) _ _ _ r(2-4) this] r(1) len(1) d1(2)
  obtain s3 where s3: "vfs_refresh F (int n) ?s1 = Returns (0, s3)" "dir_at s3 disk0_comps u k" "listing s3 u = L"
    "openfiles s3 = openfiles ?s1" "tnodes s3 u = tnodes s u" "dirents s3 = dirents s2"
    by (auto simp: fd_def i L_def disk0_join)
  have h3: "vfs_handle_to_fd (int n) s3 = Some fd" using o(2) by (simp only: vfs_handle_to_fd_def s3(4))
  have lp: "loop_c (dir_test_step font (int n)) (s3, st)
      = omap (Pair (seek_at (int n) fd (length L) s3)) (print_dirents font L st)" for font st
  proof -
    have un: "unat (of_int (int n) :: u64) = n" using n(2) by (intro of_handle) simp
    have "openfiles s3 ! n = Some fd" using h3 un by (simp add: vfs_handle_to_fd_def split: if_splits)
    then have "(openfiles s3)[n := Some fd] = openfiles s3" by (metis list_update_id)
    moreover have "fd\<lparr>fseek := of_nat 0\<rparr> = fd" by (simp add: fd_def)
    ultimately have "seek_at (int n) fd 0 s3 = s3" unfolding seek_at_def un by simp
    with dir_test_loop [OF s3(2) h3, of 0 font st] len(2) show ?thesis
      by (simp add: s3(3,5) fd_def i L_def)
  qed
  let ?s4 = "seek_at (int n) fd (length L) s3"
  have "openfiles ?s4 = openfiles s @ [Some (fd\<lparr>fseek := of_nat (length L)\<rparr>)]"
    using of_handle [of n] n by (simp add: seek_at_def s3(4) opened_def list_update_append)
  moreover have "dir_at ?s4 disk0_comps u k" by (rule dir_at_shape [OF s3(2)]) simp
  ultimately obtain s' where c: "vfs_close (int n) ?s4 = Returns (0, s')" "dir_at s' disk0_comps u k"
    "listing s' u = listing ?s4 u" "openfiles s' = openfiles s @ [None]" "fsdev s' = fsdev ?s4"
    using close_dir [of ?s4 disk0_comps u k "openfiles s" "fd\<lparr>fseek := of_nat (length L)\<rparr>"] n s3(5)
    by (auto simp: fd_def i)
  have "dirents s' = dirents ?s4" "dirents ?s4 = dirents s3" by (rule dirents_law, simp add: c(5))+
  have "dir_test font env F (s, st) = omap (Pair s') (obind (print_opened font env n st) (print_dirents font L))" for font env st
  proof -
    have "obind (omap (Pair ?s4) x) (\<lambda>(s, st). omap (\<lambda>(_, s). (s, st)) (vfs_close (int n) s)) = omap (Pair s') x"
      for x :: "(klogs \<times> terms) outcome" by (cases x) (simp_all add: c(1))
    moreover have "obind x (\<lambda>st. omap (Pair s') (g st)) = omap (Pair s') (obind x g)"
      for x and g :: "klogs \<times> terms \<Rightarrow> (klogs \<times> terms) outcome" by (cases x) simp_all
    ultimately show ?thesis by (simp add: dir_test_def print_opened_def o(1) s3(1) lp obind_assoc)
  qed
  with c s3(3,6) \<open>dirents s' = dirents ?s4\<close> \<open>dirents ?s4 = dirents s3\<close> show ?thesis
    unfolding L_def by (intro exI [of _ s']) simp
qed

end

section \<open>\<open>ls\<close> on FAT32\<close>

interpretation fat_dir: dir_provider "fat32 D k" fat32_dirents
proof
  fix i :: nat and p :: u64 and s :: "'a fat_vfs"
  show "unat p < length (fat32_dirents s i) \<Longrightarrow> fs_getdent (fat32 D k) i p s = Returns (0, fat32_dirents s i ! unat p, s)"
    "length (fat32_dirents s i) \<le> unat p \<Longrightarrow> \<exists>de. fs_getdent (fat32 D k) i p s = Returns (-1, de, s)"
    by (simp_all add: fat32_def getdent_eq)
next
  fix s :: "'a fat_vfs" and t
  assume s: "tree_ok s" "tnodes s t \<noteq> None"
  note live = tnode_live [OF s]
  let ?k = "next_addr (fsdev s)"
  let ?s' = "put_inode (tinode (the (tnodes s t))) ((inode_of s t)\<lparr>iident := Some ?k\<rparr>)
     (s\<lparr>fsdev := (fsdev s)\<lparr>idents := (idents (fsdev s))(?k \<mapsto> zero_ident), next_addr := ?k + 1\<rparr>\<rparr>)"
  have "fs_mknode (fat32 D k) t s = Returns (0, ?s')"
    using live by (simp add: fat32_def fat32_mknode_def create_ident_def Let_def tnode_at_def inode_at_def)
  moreover have "same_tree s ?s'" using live(3) by (simp add: same_tree_def put_inode_def shape_def)
  moreover have "inode_of ?s' = (\<lambda>x. (inode_of s x)\<lparr>iident := iident (inode_of ?s' x)\<rparr>)"
    by (rule ext) (simp add: put_inode_def inode_of_def)
  moreover have "fat32_dirents ?s' = fat32_dirents s" by (rule ext) (simp add: fat32_dirents_def put_inode_def)
  ultimately show "\<exists>r s'. fs_mknode (fat32 D k) t s = Returns (r, s') \<and> same_tree s s'
      \<and> inode_of s' = (\<lambda>x. (inode_of s x)\<lparr>iident := iident (inode_of s' x)\<rparr>)
      \<and> openfiles s' = openfiles s \<and> fat32_dirents s' = fat32_dirents s"
    by (intro exI [of _ "0 :: int"] exI [of _ ?s']) (simp add: put_inode_def)
next
  fix s s' :: "'a fat_vfs"
  show "fsdev s' = fsdev s \<Longrightarrow> fat32_dirents s' = fat32_dirents s" by (rule ext) (simp add: fat32_dirents_def)
qed

lemma opened_fat32:
  assumes "dir_at s cs u k" "i = tinode (the (tnodes s u))" "ident_of s i = Returns fi"
  shows "ident_of (opened path m u s) i = Returns fi"
    "vol_ok ok ready fi ws dev (opened path m u s) = vol_ok ok ready fi ws dev s"
    "fat32_dirents (opened path m u s) i = fat32_dirents s i"
proof -
  have "tree_ok s" using assms(1) by (simp add: dir_at_def)
  from tnode_live(3) [OF this dir_at_live [OF assms(1)]] have "inode_at (opened path m u s) i
      = Returns ((inode_of s u)\<lparr>irefcount := irefcount (inode_of s u) + 1\<rparr>)" "inode_at s i = Returns (inode_of s u)"
    by (simp_all add: opened_def put_inode_def inode_at_def assms(2))
  then show "ident_of (opened path m u s) i = Returns fi"
    using assms(3) by (auto simp: ident_of_def ident_key_def ident_at_def split: option.splits)
qed (simp_all add: vol_ok_def fat_of_def fat32_dirents_def cong: option.case_cong)

text \<open>
  the command \<open>ls\<close> prints, for a directory of FAT32 mounted at \<open>/disk/0\<close>, one line per entry and no
  other: the entries known before and those of its clusters, merged by name, in order; of a directory
  seen for the first time exactly its entries in the order of the disk, and of one that has not changed
  what was listed before. The handle it opens is closed,
  and the directory lists the same entries afterwards.
\<close>

theorem ls_lists_directory:
  assumes D: "sector_device D ok ready sector"
    and d: "dir_at s disk0_comps u k" "n = length (openfiles s)" "n < 2 ^ 31" "i = tinode (the (tnodes s u))"
    and f: "ident_of s i = Returns fi" "vol_ok ok ready fi ws dev s" "chain fi ws (c # cs)"
      "c = (if fe_cluster (fentry fi) < 2 then 2 else fe_cluster (fentry fi))"
    and sl: "holds_slots (sector (drive (fsdev s)) dev) fi (c # cs) sls" "ds = fat32_dirents s i @ slot_dirents (concat sls)"
    and nm: "\<forall>de \<in> set ds. good_comp (de_name de) \<and> length (de_name de) < VFS_MAX_NAME_LEN"
    and len: "length ds < 2 ^ 64" "length (foldl merge_dirent (listing s u) ds) < 2 ^ 64"
  shows "\<exists>s'. (\<forall>font env st. dir_test font env (fat32_table D) (s, st)
         = omap (Pair s') (obind (print_opened font env n st) (print_dirents font (foldl merge_dirent (listing s u) ds))))
     \<and> (listing s u = [] \<and> fat32_dirents s i = [] \<and> distinct (map de_name ds)
          \<longrightarrow> foldl merge_dirent (listing s u) ds = slot_dirents (concat sls))
     \<and> (set ds \<subseteq> set (listing s u) \<longrightarrow> foldl merge_dirent (listing s u) ds = listing s u)
     \<and> dir_at s' disk0_comps u k \<and> listing s' u = foldl merge_dirent (listing s u) ds
     \<and> openfiles s' = openfiles s @ [None]"
proof -
  let ?s1 = "opened disk0_path VFS_MODE_READWRITE u s"
  note o = opened_fat32 [OF d(1,4) f(1), where path = disk0_path and m = VFS_MODE_READWRITE]
  have dr: "drive (fsdev ?s1) = drive (fsdev s)" by simp
  from sector_device.refresh_lists [OF D o(1) _ f(3,4), of dev sls] f(2) sl(1) o(2)
  obtain h where h: "fat32_refresh D i ?s1 = Returns (0, with_drive h (listed (items_of i (concat sls)) ?s1))"
    unfolding dr by blast
  let ?s2 = "with_drive h (listed (items_of i (concat sls)) ?s1)"
  have ds: "fat32_dirents ?s2 i = ds" by (simp add: dirents_listed o(3) sl(2))
  have s2: "same_tree ?s1 ?s2" "inode_of ?s2 = inode_of ?s1" "openfiles ?s2 = openfiles ?s1"
    by (auto simp: with_drive_def listed_def inode_of_def same_tree_def)
  have r: "fs_refresh (fat32 D k) i ?s1 = Returns (0, ?s2)" by (simp add: fat32_def h)
  have "fat32_table D k = fat32 D k" by (simp add: fat32_table_def)
  note l = fat_dir.dir_test_lists [where F = "fat32_table D", OF d(1) this d(2,3,4) r s2, unfolded ds, OF _ len]
  have "foldl merge_dirent (listing s u) ds = slot_dirents (concat sls)"
    if "listing s u = []" "fat32_dirents s i = []" "distinct (map de_name ds)"
    using that foldl_merge_new [of "[]" ds] by (simp add: sl(2))
  moreover have "foldl merge_dirent (listing s u) ds = listing s u" if "set ds \<subseteq> set (listing s u)"
    using that d(1) by (intro foldl_merge_known) (simp_all add: dir_at_def)
  moreover have "\<forall>de \<in> set ds. good_comp (de_name de) \<and> length (de_name de) \<le> VFS_MAX_NAME_LEN" using nm by auto
  note l [OF this]
  ultimately show ?thesis by blast
qed

text \<open>A machine with the directory of \<open>Fat32_Dir\<close> at \<open>/disk/0\<close>.\<close>

definition plain_inode :: "nat option \<Rightarrow> nat option \<Rightarrow> nat list \<Rightarrow> vfs_inode" where
  "plain_inode fs p cs = \<lparr>itype = VFS_NODE_FOLDER, isize = 0, iperms = 0x1FF, iuid = 0, irefcount = 0, itm = zero_tm,
     ifs = fs, iident = p, imountpoint = None, ichild = cs\<rparr>"

definition ls_vfs :: "'h \<Rightarrow> 'h fat_vfs" where
  "ls_vfs h = \<lparr>
     tnodes = [0 \<mapsto> \<lparr>tname = [], tinode = 1, tparent = None\<rparr>, 2 \<mapsto> \<lparr>tname = map of_char ''disk'', tinode = 3, tparent = Some 1\<rparr>,
       4 \<mapsto> \<lparr>tname = map of_char ''0'', tinode = 5, tparent = Some 3\<rparr>],
     inodes = [1 \<mapsto> plain_inode None None [2], 3 \<mapsto> plain_inode None None [4], 5 \<mapsto> plain_inode (Some 0) (Some 1) []],
     fresh = 6, fslist = [0], openfiles = [], fsdev = fsdev (demo_vfs h)\<rparr>"

lemma ls_vfs_dir:
  "dir_at (ls_vfs h) disk0_comps 4 0" "tinode (the (tnodes (ls_vfs h) 4)) = 5" "listing (ls_vfs h) 4 = []"
  "fat32_dirents (ls_vfs h) i = []" "ident_of (ls_vfs h) 5 = Returns demo_fi"
proof -
  have "good_comp (map of_char ''disk'')" "good_comp (map of_char ''0'')"
    by (simp_all add: good_comp_def SLASH_def VFS_MAX_PATH_LEN_def)
  then show "dir_at (ls_vfs h) disk0_comps 4 0"
    by (auto simp: dir_at_def tree_ok_def ls_vfs_def plain_inode_def disk0_comps_def folder_def child_def inode_of_def
        IS_TRAVERSABLE_def listing_def VFS_MAX_NAME_LEN_def)
qed (simp_all add: ls_vfs_def plain_inode_def listing_def inode_of_def fat32_dirents_def ident_of_def ident_key_def
      ident_at_def inode_at_def demo_vfs_def)

text \<open>Its two entries, and the hypotheses of the theorem.\<close>

definition ls_entries :: "vfs_dirent list" where
  "ls_entries = slot_dirents (concat demo_slots)"

lemma ls_names: "map de_name ls_entries = [map of_char ''README.TXT'', map of_char ''Boot'']"
  by (simp add: ls_entries_def slot_dirents_def demo_slots_def items_of_def item_dirent_def fat32_get_short_filename_def
      readme_entry_def boot_name_def SPACE_def DOT_def)

definition whole_disk :: "(nat \<Rightarrow> nat \<Rightarrow> u8 list) \<Rightarrow> bool" where
  "whole_disk h \<longleftrightarrow> (\<forall>d k. length (h d k) = ATA_SECTOR_SIZE)"

lemma ls_volume:
  "vol_ok whole_disk (\<lambda>_. True) demo_fi demo_fat 0 (ls_vfs (dir_disk demo_slots))" "drive (fsdev (ls_vfs h)) = h"
  "2 = (if fe_cluster (fentry demo_fi) < 2 then 2 else fe_cluster (fentry demo_fi))"
  "holds_slots (dir_disk demo_slots 0) demo_fi [2, 3] demo_slots"
proof -
  have ok: "whole_disk (dir_disk demo_slots)" by (simp add: whole_disk_def dir_disk_ok)
  show "vol_ok whole_disk (\<lambda>_. True) demo_fi demo_fat 0 (ls_vfs (dir_disk demo_slots))" "drive (fsdev (ls_vfs h)) = h"
    using demo_volume(2,3) [of whole_disk "dir_disk demo_slots" "\<lambda>_. True", OF ok TrueI]
    by (simp_all add: vol_ok_def ls_vfs_def fat_of_def demo_vfs_def cong: option.case_cong)
qed (simp add: demo_chain, rule dir_disk_slots)

lemma ls_directory:
  "0 = length (openfiles (ls_vfs h))" "ls_entries = fat32_dirents (ls_vfs h) 5 @ slot_dirents (concat demo_slots)"
  "\<forall>de \<in> set ls_entries. good_comp (de_name de) \<and> length (de_name de) < VFS_MAX_NAME_LEN"
  "foldl merge_dirent (listing (ls_vfs h) 4) ls_entries = ls_entries" "length ls_entries < 2 ^ 64" "(0 :: nat) < 2 ^ 31"
proof -
  have "set (map de_name ls_entries) = {map of_char ''README.TXT'', map of_char ''Boot''}" by (simp only: ls_names) simp
  then have "\<forall>nm \<in> de_name ` set ls_entries. good_comp nm \<and> length nm < VFS_MAX_NAME_LEN"
    by (simp add: good_comp_def SLASH_def VFS_MAX_PATH_LEN_def VFS_MAX_NAME_LEN_def)
  then show "\<forall>de \<in> set ls_entries. good_comp (de_name de) \<and> length (de_name de) < VFS_MAX_NAME_LEN" by simp
  have dn: "distinct (map de_name ls_entries)" by (simp add: ls_names)
  then show "foldl merge_dirent (listing (ls_vfs h) 4) ls_entries = ls_entries"
    using foldl_merge_new [of "[]" ls_entries] by (simp add: ls_vfs_dir)
  show "length ls_entries < 2 ^ 64" using arg_cong [OF ls_names, of length] by simp
  show "0 = length (openfiles (ls_vfs h))" by (simp add: ls_vfs_def)
qed (simp_all add: ls_entries_def ls_vfs_dir)

lemmas ls_facts = ls_vfs_dir(1) ls_directory(1,6) ls_vfs_dir(2) [symmetric] ls_vfs_dir(5) ls_volume(1) demo_chain(1) ls_volume(3)

lemma ram_disk_whole: "sector_device ram_disk whole_disk (\<lambda>_. True) (\<lambda>h d k. h d k)"
  using ram_disk_ok by (simp add: whole_disk_def [abs_def])

lemma ls_lists_directory_witness:
  "\<exists>s' L. (\<forall>font env st. dir_test font env (fat32_table ram_disk) (ls_vfs (dir_disk demo_slots), st)
        = omap (Pair s') (obind (print_opened font env 0 st) (print_dirents font L)))
     \<and> map de_name L = [map of_char ''README.TXT'', map of_char ''Boot''] \<and> openfiles s' = [None]"
proof -
  from ls_lists_directory [OF ram_disk_whole ls_facts _ ls_directory(2,3) ls_directory(5), unfolded ls_volume(2) ls_directory(4),
      OF ls_volume(4) ls_directory(5)]
  obtain s' where "\<forall>font env st. dir_test font env (fat32_table ram_disk) (ls_vfs (dir_disk demo_slots), st)
        = omap (Pair s') (obind (print_opened font env 0 st) (print_dirents font ls_entries))"
      "openfiles s' = openfiles (ls_vfs (dir_disk demo_slots)) @ [None]"
    by auto
  then show ?thesis using ls_names ls_directory(1) [of "dir_disk demo_slots"] by (intro exI [of _ s'] exI [of _ ls_entries]) simp
qed

section \<open>The text of a line\<close>

definition dirent_pieces :: "vfs_dirent \<Rightarrow> piece list" where
  "dirent_pieces de =
     [Conv [0, 4] (CInt (1900 + tm_year (de_tm de))), Lit 0x2D, Conv [0, 2] (CInt (tm_mon (de_tm de) + 1)), Lit 0x2D,
      Conv [0, 2] (CInt (tm_mday (de_tm de))), Lit 0x20, Conv [0, 2] (CInt (tm_hour (de_tm de))), Lit 0x3A,
      Conv [0, 2] (CInt (tm_min (de_tm de)))] @ map Lit (map of_char '' ?[14;1m'')
     @ [Conv [5] (CStr (if de_type de = VFS_NODE_FOLDER then map of_char ''<DIR>'' else []) [])]
     @ map Lit (map of_char ''?[0m '') @ [Conv [] (CStr (de_name de) []), Lit 0x0A]"

definition dirent_text :: "vfs_dirent \<Rightarrow> u8 list" where
  "dirent_text de = concat (map piece_text (dirent_pieces de))"

definition tm_small :: "tm \<Rightarrow> bool" where
  "tm_small t \<longleftrightarrow> \<bar>tm_year t\<bar> < 10 ^ 9 \<and> \<bar>tm_mon t\<bar> < 10 ^ 9 \<and> \<bar>tm_mday t\<bar> < 10 ^ 9 \<and> \<bar>tm_hour t\<bar> < 10 ^ 9 \<and> \<bar>tm_min t\<bar> < 10 ^ 9"

text \<open>
  a line of the listing is the date and time of the entry, \<open><DIR>\<close> for a folder, and the name.
\<close>

theorem ls_line:
  assumes "tm_small (de_tm de)" "0 \<notin> set (de_name de)"
  shows "print_dirent font de st
       = obind (klog_putchs font TERM_MODE_CLI (dirent_text de) st) (klog_refresh font TERM_MODE_CLI)"
proof -
  have ok: "list_all piece_ok (dirent_pieces de)"
    using assms by (simp add: dirent_pieces_def field_width_def tm_small_def abs_if split: if_splits)
  have fmt: "c_lit (''%04d-%02d-%02d %02d:%02d ?[14;1m%5s?[0m %s'' @ NEWLINE) = concat (map unparse (dirent_pieces de)) @ 0 # []"
    by (simp add: c_lit_def NEWLINE_def dirent_pieces_def digit_char_def)
  have args: "[Num (of_int (1900 + tm_year (de_tm de))), Num (of_int (tm_mon (de_tm de) + 1)), Num (of_int (tm_mday (de_tm de))),
        Num (of_int (tm_hour (de_tm de))), Num (of_int (tm_min (de_tm de))),
        Str (c_lit (if de_type de = VFS_NODE_FOLDER then ''<DIR>'' else [])), Str (de_name de @ [0])]
      = concat (map piece_args (dirent_pieces de)) @ []"
    by (simp add: dirent_pieces_def c_lit_def)
  show ?thesis
    unfolding print_dirent_def kprintf_def fmt args render_ok [OF ok] dirent_text_def ..
qed

lemma ls_line_witness:
  "\<forall>font st. print_dirent font \<lparr>de_type = VFS_NODE_FOLDER, de_tm = date_tm 2024 2 29 12 30 2, de_name = map of_char ''Boot''\<rparr> st
     = obind (klog_putchs font TERM_MODE_CLI (map of_char ''2024-02-29 12:30 ?[14;1m<DIR>?[0m Boot'' @ [0x0A]) st)
         (klog_refresh font TERM_MODE_CLI)"
  (is "\<forall>font st. ?P font st")
proof (intro allI)
  fix font st
  let ?de = "\<lparr>de_type = VFS_NODE_FOLDER, de_tm = date_tm 2024 2 29 12 30 2, de_name = map of_char ''Boot''\<rparr>"
  have t: "de_tm ?de = date_tm 2024 2 29 12 30 2" by simp
  have a: "tm_small (de_tm ?de)" "0 \<notin> set (de_name ?de)" by (simp_all add: tm_small_def date_tm_def)
  have dec: "dec 2024 = [0x32, 0x30, 0x32, 0x34]" "dec 2 = [0x32]" "dec 29 = [0x32, 0x39]" "dec 12 = [0x31, 0x32]" "dec 30 = [0x33, 0x30]"
    by code_simp+
  have tm: "tm_year (de_tm ?de) = 124" "tm_mon (de_tm ?de) = 1" "tm_mday (de_tm ?de) = 29" "tm_hour (de_tm ?de) = 12"
    "tm_min (de_tm ?de) = 30" by (simp_all add: date_tm_def)
  have "dirent_text ?de = map of_char ''2024-02-29 12:30 ?[14;1m<DIR>?[0m Boot'' @ [0x0A]"
    unfolding dirent_text_def dirent_pieces_def tm
    by (simp add: pad_len_def field_width_def fill_char_def sign_def dec)
  with ls_line [OF a, of font st] show "?P font st" by simp
qed

end
