(* ===== verification/File_Rw.thy ===== *)
theory File_Rw
  imports File_Test
begin

text \<open>
  \<open>file_test\<close> of \<open>test/file.c\<close>: opening, writing, seeking, reading and closing a file through the VFS,
  FAT32 and the disk, in sequence.
\<close>

section \<open>The test\<close>

definition test_path :: "u8 list" where
  "test_path = map of_char ''/disk/0/HELLOWLD.TXT''"

definition text1 :: "u8 list" where "text1 = map of_char ''(1) This is a test -- END''"

text \<open>The text filled up with the letter A to 80 characters, and a B.\<close>

definition text2 :: "u8 list" where
  "text2 = (let t = map of_char ''(2) This is a test'' in t @ replicate (80 - length t) 0x41 @ [0x42])"

text \<open>Reading into a buffer of \<open>cap\<close> zero bytes and printing it as a string.\<close>

definition print_read :: "u8 list \<Rightarrow> log_env \<Rightarrow> int \<Rightarrow> int \<Rightarrow> u8 list \<Rightarrow> klogs \<times> terms \<Rightarrow> (klogs \<times> terms) outcome" where
  "print_read font env handle readlen buff =
     klogi font env (''Read %d bytes from %s(%d)'' @ NEWLINE @ ''%s'' @ NEWLINE)
       [Num (of_int readlen), Str (test_path @ [0]), Num (of_int handle), Str buff]"

definition read_back :: "u8 list \<Rightarrow> log_env \<Rightarrow> 'd fs_table \<Rightarrow> int \<Rightarrow> nat \<Rightarrow> 'd vfs \<times> klogs \<times> terms
    \<Rightarrow> ('d vfs \<times> klogs \<times> terms) outcome" where
  "read_back font env F f2 cap x =
     (case x of (s, st) \<Rightarrow>
        obind (vfs_read F f2 (of_nat (cap - 1)) s) (\<lambda>(readlen, data, s).
        obind (blit (replicate cap 0) 0 data) (\<lambda>buff.
        obind (print_read font env f2 readlen buff st) (\<lambda>st.
          omap (\<lambda>(_, s). (s, st)) (vfs_close f2 s)))))"

definition open_failed :: "u8 list \<Rightarrow> log_env \<Rightarrow> int \<Rightarrow> klogs \<times> terms \<Rightarrow> (klogs \<times> terms) outcome" where
  "open_failed font env f2 =
     kloge font env (''Open %s(%d) failed'' @ NEWLINE) [Str (test_path @ [0]), Num (of_int f2)]"

definition file_test_start :: "u8 list \<Rightarrow> log_env \<Rightarrow> 'd fs_table \<Rightarrow> 'd vfs \<times> klogs \<times> terms
    \<Rightarrow> ('d vfs \<times> klogs \<times> terms) outcome" where
  "file_test_start font env F x =
     (case x of (s, st) \<Rightarrow>
        obind (vfs_open F test_path VFS_MODE_READWRITE s) (\<lambda>(f2, s).
          if f2 \<noteq> -1 then
            obind (vfs_write F f2 (of_nat (length text1)) (text1 @ replicate (1024 - length text1) 0) s) (\<lambda>(_, s).
              read_back font env F f2 1024 (s, st))
          else omap (Pair s) (open_failed font env f2 st)))"

definition file_test_middle :: "u8 list \<Rightarrow> log_env \<Rightarrow> 'd fs_table \<Rightarrow> 'd vfs \<times> klogs \<times> terms
    \<Rightarrow> ('d vfs \<times> klogs \<times> terms) outcome" where
  "file_test_middle font env F x =
     (case x of (s, st) \<Rightarrow>
        obind (vfs_open F test_path VFS_MODE_READWRITE s) (\<lambda>(f21, s).
          if f21 \<noteq> -1 then
            obind (vfs_seek f21 10 s) (\<lambda>(_, s).
            obind (vfs_write F f21 (of_nat (length text2)) (text2 @ replicate (1800 - length text2) 0) s) (\<lambda>(_, s).
            obind (vfs_seek f21 0 s) (\<lambda>(_, s).
              read_back font env F f21 1800 (s, st))))
          else omap (Pair s) (open_failed font env f21 st)))"

definition file_test :: "u8 list \<Rightarrow> log_env \<Rightarrow> log_env \<Rightarrow> 'd fs_table \<Rightarrow> 'd vfs \<times> klogs \<times> terms
    \<Rightarrow> ('d vfs \<times> klogs \<times> terms) outcome" where
  "file_test font env1 env2 F x = obind (file_test_start font env1 F x) (file_test_middle font env2 F)"

section \<open>A file of one sector\<close>

text \<open>Node \<open>u\<close> at path \<open>cs\<close> is a FAT32 file of \<open>sz\<close> bytes in one cluster of one sector, which holds \<open>data\<close>.\<close>

definition small_file :: "('h \<Rightarrow> bool) \<Rightarrow> (nat \<Rightarrow> bool) \<Rightarrow> ('h \<Rightarrow> nat \<Rightarrow> nat \<Rightarrow> u8 list) \<Rightarrow> nat \<Rightarrow> fat32_ident \<Rightarrow> u32 list
    \<Rightarrow> nat \<Rightarrow> u8 list list \<Rightarrow> nat \<Rightarrow> nat \<Rightarrow> u8 list \<Rightarrow> 'h fat_vfs \<Rightarrow> bool" where
  "small_file ok ready sector dev fi ws k cs u sz data s \<longleftrightarrow>
     tree_ok s \<and> resolve s 0 cs = Some u \<and> ifs (inode_of s u) = Some k
     \<and> isize (inode_of s u) = of_nat sz \<and> ident_of s (tinode (the (tnodes s u))) = Returns fi
     \<and> vol_ok ok ready fi ws dev s \<and> file_bytes (sector (drive (fsdev s)) dev) fi [fe_cluster (fentry fi)] = data"

definition one_sector :: "fat32_ident \<Rightarrow> u32 list \<Rightarrow> nat \<Rightarrow> bool" where
  "one_sector fi ws sz \<longleftrightarrow> chain fi ws [fe_cluster (fentry fi)] \<and> clen fi = 512 \<and> fe_size (fentry fi) = of_nat sz
     \<and> 1 \<le> sz \<and> sz \<le> 512"

lemma small_live: "small_file ok ready sector dev fi ws k cs u sz data s \<Longrightarrow> tnodes s u \<noteq> None"
  unfolding small_file_def using resolve_live root_live by blast

lemma ident_at_tree: "idents (fsdev s') = idents (fsdev s) \<Longrightarrow> ident_at s' = ident_at s"
  by (rule ext) (simp add: ident_at_def)

lemma ident_of_tree:
  assumes "inodes s' i = Some m" "inodes s i = Some n" "iident m = iident n" "idents (fsdev s') = idents (fsdev s)"
  shows "ident_of s' i = ident_of s i"
  unfolding ident_of_def ident_at_tree [OF assms(4)] using assms(1-3) by (simp add: ident_key_def inode_at_def)

lemma small_file_files:
  assumes "small_file ok ready sector dev fi ws k cs u sz data s"
  shows "small_file ok ready sector dev fi ws k cs u sz data (s\<lparr>openfiles := fs\<rparr>)"
proof -
  have "same_tree s (s\<lparr>openfiles := fs\<rparr>)" by simp
  note sh = same_tree_tree_ok [OF this] same_tree_resolve [OF this]
  have "ident_at (s\<lparr>openfiles := fs\<rparr>) = ident_at s" by (rule ident_at_tree) simp
  then have "ident_of (s\<lparr>openfiles := fs\<rparr>) i = ident_of s i" for i
    by (simp add: ident_of_def ident_key_def inode_at_def)
  with assms sh show ?thesis unfolding small_file_def
    by (simp add: vol_ok_def fat_of_def cong: option.case_cong)
qed

lemma small_file_refcount:
  assumes "small_file ok ready sector dev fi ws k cs u sz data s" "i = tinode (the (tnodes s u))"
  shows "small_file ok ready sector dev fi ws k cs u sz data (put_inode i ((inode_of s u)\<lparr>irefcount := c\<rparr>) s)"
proof -
  let ?s = "put_inode i ((inode_of s u)\<lparr>irefcount := c\<rparr>) s"
  have ok: "tree_ok s" using assms(1) by (simp add: small_file_def)
  note live = tnode_live(3) [OF ok small_live [OF assms(1)]]
  have sh: "same_tree s ?s" unfolding assms(2) by (rule put_refcount_shape [OF live])
  have "inode_of ?s u = (inode_of s u)\<lparr>irefcount := c\<rparr>" by (simp add: put_inode_def inode_of_def assms(2))
  moreover have "ident_of ?s i = ident_of s i"
    using live by (intro ident_of_tree [of _ _ "(inode_of s u)\<lparr>irefcount := c\<rparr>" _ "inode_of s u"])
      (simp_all add: put_inode_def assms(2))
  ultimately show ?thesis
    using assms(1) same_tree_tree_ok [OF sh ok] same_tree_resolve [OF sh, of 0 cs] unfolding small_file_def
    by (simp add: assms(2)) (simp add: put_inode_def vol_ok_def fat_of_def cong: option.case_cong)
qed

lemma small_file_drive:
  assumes "small_file ok ready sector dev fi ws k cs u sz data s" "ok h"
  shows "small_file ok ready sector dev fi ws k cs u sz (file_bytes (sector h dev) fi [fe_cluster (fentry fi)]) (with_drive h s)"
proof -
  have sh: "same_tree s (with_drive h s)" by (simp add: with_drive_def)
  have "inode_of (with_drive h s) u = inode_of s u" "tnodes (with_drive h s) = tnodes s"
    by (simp_all add: with_drive_def inode_of_def)
  then show ?thesis
    using assms same_tree_tree_ok [OF sh] same_tree_resolve [OF sh, of 0 cs]
    unfolding small_file_def by (simp add: vol_ok_def)
qed

lemma small_tree: "small_file ok ready sector dev fi ws k cs u sz data s \<Longrightarrow> tree_ok s"
  by (simp add: small_file_def)

lemma small_inode: "small_file ok ready sector dev fi ws k cs u sz data s \<Longrightarrow> inode_at s (tinode (the (tnodes s u))) = Returns (inode_of s u)"
  by (rule tnode_live(2) [OF small_tree small_live])

lemma small_tnode: "small_file ok ready sector dev fi ws k cs u sz data s \<Longrightarrow> tnode_at s u = Returns (the (tnodes s u))"
  by (rule tnode_live(1) [OF small_tree small_live])

lemma small_len: "one_sector fi ws sz \<Longrightarrow> isize n = of_nat sz \<Longrightarrow> unat (isize n) = sz"
  by (simp add: one_sector_def unat_of_nat_small)

text \<open>The handle of the file.\<close>

definition file_fd :: "u8 list \<Rightarrow> nat \<Rightarrow> nat \<Rightarrow> nat \<Rightarrow> vfs_node_desc" where
  "file_fd path u i p = \<lparr>fpath = path, ftnode = u, finode = i, fmode = VFS_MODE_READWRITE, fseek = of_nat p\<rparr>"

context sector_device
begin

lemma small_write:
  assumes f: "small_file ok ready sector dev fi ws k cs u sz data s" "one_sector fi ws sz"
    and h: "vfs_handle_to_fd f2 s = Some (file_fd path u (tinode (the (tnodes s u))) p)"
    and b: "0 < length new" "p + length new \<le> sz"
  shows "\<exists>h. vfs_write (fat32_table D) f2 (of_nat (length new)) (new @ rest) s = Returns (int (length new), with_drive h s)
     \<and> small_file ok ready sector dev fi ws k cs u sz (splice data p new) (with_drive h s)"
proof -
  let ?i = "tinode (the (tnodes s u))" and ?c = "fe_cluster (fentry fi)" and ?l = "of_nat (length new) :: u64"
  have sz: "1 \<le> sz" "sz \<le> 512" using f(2) by (simp_all add: one_sector_def)
  have u: "unat (of_nat p :: u64) = p" "unat ?l = length new" "unat (of_nat p + ?l) = p + length new"
    using b(2) sz(2) by (simp_all add: unat_of_nat_small unat_word_ariths)
  have st: "ident_of s ?i = Returns fi" "vol_ok ok ready fi ws dev s" "ifs (inode_of s u) = Some k"
    "isize (inode_of s u) = of_nat sz" "file_bytes (sector (drive (fsdev s)) dev) fi [?c] = data"
    using f(1) by (simp_all add: small_file_def)
  have ch: "chain fi ws [?c]" "separate fi [?c]" using f(2) by (simp_all add: one_sector_def separate_def)
  have "unat (ucast (fe_size (fentry fi)) :: u64) = sz"
    using f(2) by (simp add: one_sector_def unat_ucast_up unat_of_nat_small)
  then have fs: "of_nat p + ?l \<le> ucast (fe_size (fentry fi))" using b(2) u(3) by (simp add: word_le_nat_alt)
  have "(p + length new + 511) div 512 = 1" using b sz(2) by arith
  then have cap: "length [?c] * clen fi = (unat (of_nat p :: u64) + unat ?l + 511) div 512 * 512"
    using f(2) unfolding u by (simp add: one_sector_def)
  from write_chain [OF st(1,2) ch(1) refl ch(2) _ cap fs, of "new @ rest"] b sz(2) obtain h where
    h: "fat32_write D ?i (of_nat p) ?l (new @ rest) s = Returns (sint ?l, with_drive h s)" "ok h"
      "file_bytes (sector h dev) fi [?c] = splice data p new"
    by (auto simp: u st(5))
  have "\<not> of_nat p + ?l > isize (inode_of s u)"
    using b(2) u(3) small_len [OF f(2) st(4)] by (simp add: word_less_nat_alt)
  moreover have "sint ?l = int (length new)" using b(2) sz(2)
    by (simp add: signed_of_nat signed_take_bit_int_eq_self)
  ultimately have "vfs_write (fat32_table D) f2 ?l (new @ rest) s = Returns (int (length new), with_drive h s)"
    using h(1) by (simp add: vfs_write_def assms(3) file_fd_def small_inode [OF f(1)] grow_file_def fs_at_def st(3)
        fat32_table_def fat32_def)
  with h small_file_drive [OF f(1) h(2)] show ?thesis by auto
qed

lemma small_read:
  assumes f: "small_file ok ready sector dev fi ws k cs u sz data s" "one_sector fi ws sz"
    and h: "vfs_handle_to_fd f2 s = Some (file_fd path u (tinode (the (tnodes s u))) 0)"
    and b: "sz \<le> m" "m < 2 ^ 63"
  shows "\<exists>h. vfs_read (fat32_table D) f2 (of_nat m) s = Returns (int sz, take sz data, with_drive h s)
     \<and> small_file ok ready sector dev fi ws k cs u sz data (with_drive h s)"
proof -
  let ?i = "tinode (the (tnodes s u))" and ?c = "fe_cluster (fentry fi)" and ?l = "of_nat sz :: u64"
  have sz: "1 \<le> sz" "sz \<le> 512" using f(2) by (simp_all add: one_sector_def)
  have u: "unat ?l = sz" "unat (of_nat m :: u64) = m" using b sz(2) by (simp_all add: unat_of_nat_small)
  have st: "ident_of s ?i = Returns fi" "vol_ok ok ready fi ws dev s" "ifs (inode_of s u) = Some k"
    "isize (inode_of s u) = of_nat sz" "file_bytes (sector (drive (fsdev s)) dev) fi [?c] = data"
    using f(1) by (simp_all add: small_file_def)
  have ch: "chain fi ws [?c]" using f(2) by (simp add: one_sector_def)
  have "(0 + sz + 511) div 512 = 1" using sz by arith
  then have cap: "length [?c] * clen fi = (unat (0 :: u64) + unat ?l + 511) div 512 * 512"
    using f(2) unfolding u by (simp add: one_sector_def)
  from read_chain(1) [OF st(1,2) ch refl _ cap] sz(2) obtain h where
    h: "fat32_read D ?i 0 ?l s = Returns (sint ?l, take sz data, with_drive h s)" "ok h" "sector h = sector (drive (fsdev s))"
    by (auto simp: u st(5))
  have "read_length 0 (of_nat m) (isize (inode_of s u)) = ?l"
    using b(1) u by (auto simp: read_length_def st(4) word_less_nat_alt word_unat_eq_iff)
  moreover have "?l \<noteq> 0" using u(1) sz(1) by (metis unat_0 not_one_le_zero)
  moreover have "sint ?l = int sz" using sz(2) by (simp add: signed_of_nat signed_take_bit_int_eq_self)
  ultimately have "vfs_read (fat32_table D) f2 (of_nat m) s = Returns (int sz, take sz data, with_drive h s)"
    using h(1) sz(1) by (simp add: vfs_read_def assms(3) file_fd_def small_inode [OF f(1)] small_tnode [OF f(1)] fs_at_def st(3)
        fat32_table_def fat32_def)
  with h small_file_drive [OF f(1) h(2)] st(5) show ?thesis by auto
qed

end

section \<open>The calls in sequence\<close>

lemma small_open:
  assumes f: "small_file ok ready sector dev fi ws k cs u sz data s" and cs: "\<forall>c \<in> set cs. good_comp c" "cs \<noteq> []"
      "join_path cs = path" "length path < VFS_MAX_PATH_LEN"
    and n: "n = length (openfiles s)" "n < 2 ^ 31"
  shows "vfs_open F path VFS_MODE_READWRITE s = Returns (int n, opened path VFS_MODE_READWRITE u s)"
    "small_file ok ready sector dev fi ws k cs u sz data (opened path VFS_MODE_READWRITE u s)"
    "openfiles (opened path VFS_MODE_READWRITE u s) = openfiles s @ [Some (file_fd path u (tinode (the (tnodes s u))) 0)]"
proof -
  have "resolve s 0 cs = Some u" using f by (simp add: small_file_def)
  then show "vfs_open F path VFS_MODE_READWRITE s = Returns (int n, opened path VFS_MODE_READWRITE u s)"
    by (rule open_node [OF small_tree [OF f] cs(1) _ cs(2-4) n])
  show "small_file ok ready sector dev fi ws k cs u sz data (opened path VFS_MODE_READWRITE u s)"
    unfolding opened_def by (rule small_file_files [OF small_file_refcount [OF f refl]])
qed (simp add: opened_def file_fd_def)

lemma small_close:
  assumes f: "small_file ok ready sector dev fi ws k cs u sz data s"
    and h: "openfiles s = fs @ [Some fd]" "finode fd = tinode (the (tnodes s u))" "length fs < 2 ^ 31"
  shows "\<exists>s'. vfs_close (int (length fs)) s = Returns (0, s') \<and> small_file ok ready sector dev fi ws k cs u sz data s'
     \<and> openfiles s' = fs @ [None] \<and> tnodes s' = tnodes s"
proof -
  let ?s = "put_inode (tinode (the (tnodes s u))) ((inode_of s u)\<lparr>irefcount := irefcount (inode_of s u) - 1\<rparr>) s"
  have "vfs_close (int (length fs)) s = Returns (0, ?s\<lparr>openfiles := fs @ [None]\<rparr>)"
    using last_handle [OF h(1,3)] by (simp add: vfs_close_def h small_inode [OF f]) (simp add: put_inode_def h(1))
  with small_file_files [OF small_file_refcount [OF f refl]] show ?thesis by (auto simp: put_inode_def)
qed

lemma small_seek:
  assumes f: "small_file ok ready sector dev fi ws k cs u sz data s"
    and h: "openfiles s = fs @ [Some (file_fd path u (tinode (the (tnodes s u))) p)]" "length fs < 2 ^ 31"
  shows "vfs_seek (int (length fs)) (of_nat q) s
       = Returns (0, s\<lparr>openfiles := fs @ [Some (file_fd path u (tinode (the (tnodes s u))) q)]\<rparr>)"
  using last_handle [OF h] by (simp add: vfs_seek_def file_fd_def small_inode [OF f] h(1))

context sector_device
begin

lemma small_read_back:
  assumes f: "small_file ok ready sector dev fi ws k cs u sz data s" "one_sector fi ws sz"
    and h: "openfiles s = fs @ [Some (file_fd path u (tinode (the (tnodes s u))) 0)]" "length fs < 2 ^ 31"
    and m: "sz < cap" "cap < 2 ^ 63"
  shows "\<exists>s'. (\<forall>font env st. read_back font env (fat32_table D) (int (length fs)) cap (s, st)
        = omap (Pair s') (print_read font env (int (length fs)) (int sz) (take sz data @ replicate (cap - sz) 0) st))
     \<and> small_file ok ready sector dev fi ws k cs u sz data s' \<and> openfiles s' = fs @ [None] \<and> tnodes s' = tnodes s"
proof -
  note hd = last_handle(1) [OF h]
  have "sz \<le> cap - 1" "cap - 1 < 2 ^ 63" using m by simp_all
  from small_read [OF f hd this] obtain d where
    r: "vfs_read (fat32_table D) (int (length fs)) (of_nat (cap - 1)) s = Returns (int sz, take sz data, with_drive d s)"
    "small_file ok ready sector dev fi ws k cs u sz data (with_drive d s)" by blast
  have ld: "length data = 512"
  proof -
    have "vol_ok ok ready fi ws dev s" "file_bytes (sector (drive (fsdev s)) dev) fi [fe_cluster (fentry fi)] = data"
      using f(1) by (simp_all add: small_file_def)
    moreover have "clen fi = 512" using f(2) by (simp add: one_sector_def)
    ultimately show ?thesis
      using length_file_bytes [of "sector (drive (fsdev s)) dev" fi "[fe_cluster (fentry fi)]"]
      by (simp add: vol_ok_def sector_length [unfolded ATA_SECTOR_SIZE_def])
  qed
  have b: "blit (replicate cap 0) 0 (take sz data) = Returns (take sz data @ replicate (cap - sz) 0)"
  proof -
    have "min 512 sz = sz" using f(2) by (simp add: one_sector_def)
    with ld m(1) show ?thesis by (simp add: blit_def)
  qed
  have o: "openfiles (with_drive d s) = fs @ [Some (file_fd path u (tinode (the (tnodes s u))) 0)]" "tnodes (with_drive d s) = tnodes s"
    using h(1) by (simp_all add: with_drive_def)
  from small_close [OF r(2) o(1) _ h(2)] obtain s' where
    c: "vfs_close (int (length fs)) (with_drive d s) = Returns (0, s')" "small_file ok ready sector dev fi ws k cs u sz data s'"
      "openfiles s' = fs @ [None]" "tnodes s' = tnodes s" by (auto simp: o(2) file_fd_def)
  have "read_back font env (fat32_table D) (int (length fs)) cap (s, st)
      = omap (Pair s') (print_read font env (int (length fs)) (int sz) (take sz data @ replicate (cap - sz) 0) st)" for font env st
    unfolding read_back_def by (simp add: r(1) [unfolded One_nat_def] b c(1))
      (cases "print_read font env (int (length fs)) (int sz) (take sz data @ replicate (cap - sz) 0) st"; simp)
  with c(2-4) show ?thesis by blast
qed

end

lemma text_lengths: "length text1 = 25" "length text2 = 81"
  by (simp_all add: text1_def text2_def Let_def)

definition test_comps :: "u8 list list" where
  "test_comps = [map of_char ''disk'', map of_char ''0'', map of_char ''HELLOWLD.TXT'']"

lemma test_join: "join_path test_comps = test_path" "test_comps \<noteq> []" "length test_path = 20" "\<forall>c \<in> set test_comps. good_comp c"
  by (simp_all add: test_comps_def test_path_def SLASH_def good_comp_def VFS_MAX_PATH_LEN_def)

text \<open>What the file holds after the first and after the second part.\<close>

definition after1 :: "u8 list \<Rightarrow> u8 list" where "after1 data = splice data 0 text1"
definition after2 :: "u8 list \<Rightarrow> u8 list" where "after2 data = splice (after1 data) 10 text2"

context sector_device
begin

lemma file_test_parts:
  assumes f: "small_file ok ready sector dev fi ws k test_comps u sz data s" "one_sector fi ws sz" "91 \<le> sz"
    and n: "n = length (openfiles s)" "n < 2 ^ 31"
  shows "\<exists>s'. (\<forall>font env st. file_test_start font env (fat32_table D) (s, st)
        = omap (Pair s') (print_read font env (int n) (int sz) (take sz (after1 data) @ replicate (1024 - sz) 0) st))
     \<and> small_file ok ready sector dev fi ws k test_comps u sz (after1 data) s' \<and> openfiles s' = openfiles s @ [None]"
    and "\<exists>s'. (\<forall>font env st. file_test_middle font env (fat32_table D) (s, st)
        = omap (Pair s') (print_read font env (int n) (int sz) (take sz (splice data 10 text2) @ replicate (1800 - sz) 0) st))
     \<and> small_file ok ready sector dev fi ws k test_comps u sz (splice data 10 text2) s' \<and> openfiles s' = openfiles s @ [None]"
proof -
  let ?i = "tinode (the (tnodes s u))" and ?s1 = "opened test_path VFS_MODE_READWRITE u s"
  have sz: "sz \<le> 512" using f(2) by (simp add: one_sector_def)
  have lp: "length test_path < VFS_MAX_PATH_LEN" by (simp add: test_join VFS_MAX_PATH_LEN_def)
  note o = small_open [OF f(1) test_join(4,2,1) lp n]
  have tn: "tnodes ?s1 = tnodes s" by (simp add: opened_def put_inode_def)
  have nl: "length (openfiles s) < 2 ^ 31" using n by simp
  { have h: "vfs_handle_to_fd (int n) ?s1 = Some (file_fd test_path u (tinode (the (tnodes ?s1 u))) 0)"
      unfolding n(1) tn by (rule last_handle(1) [OF o(3) nl])
    from small_write [OF o(2) f(2) h, of text1 "replicate (1024 - length text1) 0"] f(3)
    obtain d where w: "vfs_write (fat32_table D) (int n) (of_nat (length text1)) (text1 @ replicate (1024 - length text1) 0) ?s1
        = Returns (int (length text1), with_drive d ?s1)"
      "small_file ok ready sector dev fi ws k test_comps u sz (after1 data) (with_drive d ?s1)"
      unfolding after1_def text_lengths by auto
    have o2: "openfiles (with_drive d ?s1) = openfiles s @ [Some (file_fd test_path u (tinode (the (tnodes (with_drive d ?s1) u))) 0)]"
      using o(3) tn by (simp add: with_drive_def)
    from small_read_back [OF w(2) f(2) o2 nl, of 1024] sz obtain s' where
      r: "\<forall>font env st. read_back font env (fat32_table D) (int n) 1024 (with_drive d ?s1, st)
        = omap (Pair s') (print_read font env (int n) (int sz) (take sz (after1 data) @ replicate (1024 - sz) 0) st)"
      "small_file ok ready sector dev fi ws k test_comps u sz (after1 data) s'" "openfiles s' = openfiles s @ [None]"
      by (auto simp flip: n(1))
    have "file_test_start font env (fat32_table D) (s, st)
        = omap (Pair s') (print_read font env (int n) (int sz) (take sz (after1 data) @ replicate (1024 - sz) 0) st)" for font env st
      using r(1) [rule_format, of font env st] by (simp add: file_test_start_def o(1) w(1))
    with r(2,3) show "\<exists>s'. (\<forall>font env st. file_test_start font env (fat32_table D) (s, st)
        = omap (Pair s') (print_read font env (int n) (int sz) (take sz (after1 data) @ replicate (1024 - sz) 0) st))
     \<and> small_file ok ready sector dev fi ws k test_comps u sz (after1 data) s' \<and> openfiles s' = openfiles s @ [None]" by blast }
  { define s2 where "s2 = ?s1\<lparr>openfiles := openfiles s @ [Some (file_fd test_path u ?i 10)]\<rparr>"
    have k1: "vfs_seek (int n) 10 ?s1 = Returns (0, s2)"
      using small_seek [OF o(2) _ nl, of test_path 0 10] o(3) by (simp add: tn s2_def n(1))
    have s2: "small_file ok ready sector dev fi ws k test_comps u sz data s2" unfolding s2_def by (rule small_file_files [OF o(2)])
    have h: "vfs_handle_to_fd (int n) s2 = Some (file_fd test_path u (tinode (the (tnodes s2 u))) 10)"
      unfolding n(1) using last_handle(1) [of s2 "openfiles s"] nl by (simp add: s2_def tn)
    from small_write [OF s2 f(2) h, of text2 "replicate (1800 - length text2) 0"] f(3)
    obtain d where w: "vfs_write (fat32_table D) (int n) (of_nat (length text2)) (text2 @ replicate (1800 - length text2) 0) s2
        = Returns (int (length text2), with_drive d s2)"
      "small_file ok ready sector dev fi ws k test_comps u sz (splice data 10 text2) (with_drive d s2)"
      unfolding text_lengths by auto
    define s3 where "s3 = (with_drive d s2)\<lparr>openfiles := openfiles s @ [Some (file_fd test_path u ?i 0)]\<rparr>"
    have "openfiles (with_drive d s2) = openfiles s @ [Some (file_fd test_path u (tinode (the (tnodes (with_drive d s2) u))) 10)]"
      by (simp add: with_drive_def s2_def tn)
    from small_seek [OF w(2) this nl, of 0] have k2: "vfs_seek (int n) 0 (with_drive d s2) = Returns (0, s3)"
      by (simp add: s3_def n(1)) (simp add: with_drive_def s2_def tn)
    have s3: "small_file ok ready sector dev fi ws k test_comps u sz (splice data 10 text2) s3"
      unfolding s3_def by (rule small_file_files [OF w(2)])
    have o3: "openfiles s3 = openfiles s @ [Some (file_fd test_path u (tinode (the (tnodes s3 u))) 0)]"
      by (simp add: s3_def with_drive_def s2_def tn)
    from small_read_back [OF s3 f(2) o3 nl, of 1800] sz obtain s' where
      r: "\<forall>font env st. read_back font env (fat32_table D) (int n) 1800 (s3, st)
        = omap (Pair s') (print_read font env (int n) (int sz) (take sz (splice data 10 text2) @ replicate (1800 - sz) 0) st)"
      "small_file ok ready sector dev fi ws k test_comps u sz (splice data 10 text2) s'" "openfiles s' = openfiles s @ [None]"
      by (auto simp flip: n(1))
    have "file_test_middle font env (fat32_table D) (s, st)
        = omap (Pair s') (print_read font env (int n) (int sz) (take sz (splice data 10 text2) @ replicate (1800 - sz) 0) st)" for font env st
      using r(1) [rule_format, of font env st] by (simp add: file_test_middle_def o(1) k1 w(1) k2)
    with r(2,3) show "\<exists>s'. (\<forall>font env st. file_test_middle font env (fat32_table D) (s, st)
        = omap (Pair s') (print_read font env (int n) (int sz) (take sz (splice data 10 text2) @ replicate (1800 - sz) 0) st))
     \<and> small_file ok ready sector dev fi ws k test_comps u sz (splice data 10 text2) s' \<and> openfiles s' = openfiles s @ [None]" by blast }
qed

end

text \<open>
  C33: on a FAT32 file of one sector, with at least 91 bytes, \<open>file_test\<close> prints the file twice: with the
  first text at its start, and then with the second text from byte 10 on, each time the whole file and
  nothing else; it leaves the file so, of the same length, and both its handles closed.
\<close>

theorem file_test_shows:
  assumes D: "sector_device D ok ready sector"
    and f: "small_file ok ready sector dev fi ws k test_comps u sz data s" "one_sector fi ws sz" "91 \<le> sz"
    and n: "n = length (openfiles s)" "n + 1 < 2 ^ 31"
  shows "\<exists>s'. (\<forall>font env1 env2 st. file_test font env1 env2 (fat32_table D) (s, st)
        = omap (Pair s') (obind
            (print_read font env1 (int n) (int sz) (take sz (after1 data) @ replicate (1024 - sz) 0) st)
            (print_read font env2 (int (n + 1)) (int sz) (take sz (after2 data) @ replicate (1800 - sz) 0))))
     \<and> small_file ok ready sector dev fi ws k test_comps u sz (after2 data) s' \<and> openfiles s' = openfiles s @ [None, None]"
proof -
  from sector_device.file_test_parts(1) [OF D f n(1)] n(2) obtain s1 where 1:
    "\<forall>font env st. file_test_start font env (fat32_table D) (s, st)
        = omap (Pair s1) (print_read font env (int n) (int sz) (take sz (after1 data) @ replicate (1024 - sz) 0) st)"
    "small_file ok ready sector dev fi ws k test_comps u sz (after1 data) s1" "openfiles s1 = openfiles s @ [None]" by auto
  have n1: "n + 1 = length (openfiles s1)" by (simp add: 1(3) n(1))
  from sector_device.file_test_parts(2) [OF D 1(2) f(2,3) n1 n(2)] obtain s2 where 2:
    "\<forall>font env st. file_test_middle font env (fat32_table D) (s1, st)
        = omap (Pair s2) (print_read font env (int (n + 1)) (int sz) (take sz (after2 data) @ replicate (1800 - sz) 0) st)"
    "small_file ok ready sector dev fi ws k test_comps u sz (after2 data) s2" "openfiles s2 = openfiles s1 @ [None]"
    unfolding after2_def by blast
  have "obind (omap (Pair s1) x) (file_test_middle font env2 (fat32_table D))
      = omap (Pair s2) (obind x (print_read font env2 (int (n + 1)) (int sz) (take sz (after2 data) @ replicate (1800 - sz) 0)))"
    for x font env2
  proof (cases x)
    case (Returns st)
    with 2(1) [rule_format, of font env2 st] show ?thesis by simp
  qed simp_all
  then have "file_test font env1 env2 (fat32_table D) (s, st) = omap (Pair s2) (obind
            (print_read font env1 (int n) (int sz) (take sz (after1 data) @ replicate (1024 - sz) 0) st)
            (print_read font env2 (int (n + 1)) (int sz) (take sz (after2 data) @ replicate (1800 - sz) 0)))"
    for font env1 env2 st using 1(1) [rule_format, of font env1 st] unfolding file_test_def by simp
  with 2(2,3) 1(3) show ?thesis by (intro exI [of _ s2]) simp
qed

text \<open>A machine with a file of 100 bytes in cluster 3.\<close>

definition rw_fi :: fat32_ident where
  "rw_fi = one_fi\<lparr>fentry := (fentry one_fi)\<lparr>fe_size := 100\<rparr>\<rparr>"

definition rw_vfs :: "'h \<Rightarrow> 'h fat_vfs" where
  "rw_vfs h = (ls_vfs h)\<lparr>
     tnodes := (tnodes (ls_vfs h))(6 \<mapsto> \<lparr>tname = map of_char ''HELLOWLD.TXT'', tinode = 7, tparent = Some 5\<rparr>),
     inodes := (inodes (ls_vfs h))(5 \<mapsto> plain_inode (Some 0) (Some 1) [6],
       7 \<mapsto> (plain_inode (Some 0) (Some 2) [])\<lparr>itype := VFS_NODE_FILE, isize := 100\<rparr>),
     fresh := 8, fsdev := (fsdev (demo_vfs h))\<lparr>idents := [1 \<mapsto> demo_fi, 2 \<mapsto> rw_fi]\<rparr>\<rparr>"

lemma rw_file:
  assumes "ok h" "ready 0"
  shows "small_file ok ready sector 0 rw_fi demo_fat 0 test_comps 6 100 (sector h 0 13) (rw_vfs h)"
proof -
  have "tree_ok (rw_vfs h)" by (auto simp: tree_ok_def rw_vfs_def ls_vfs_def plain_inode_def)
  moreover have "resolve (rw_vfs h) 0 test_comps = Some 6"
    by (simp add: test_comps_def rw_vfs_def ls_vfs_def plain_inode_def folder_def child_def inode_of_def IS_TRAVERSABLE_def
        VFS_MAX_NAME_LEN_def)
  moreover have "ident_of (rw_vfs h) 7 = Returns rw_fi" "tinode (the (tnodes (rw_vfs h) 6)) = 7"
    "ifs (inode_of (rw_vfs h) 6) = Some 0" "isize (inode_of (rw_vfs h) 6) = 100"
    by (simp_all add: rw_vfs_def ident_of_def ident_key_def ident_at_def inode_at_def inode_of_def plain_inode_def)
  moreover have "vol_ok ok ready rw_fi demo_fat 0 (rw_vfs h)" "drive (fsdev (rw_vfs h)) = h"
    using assms by (simp_all add: vol_ok_def rw_vfs_def demo_vfs_def fat_of_def rw_fi_def one_fi_def demo_fi_def)
  moreover have "file_bytes (sector h 0) rw_fi [3] = sector h 0 13"
    by (simp add: file_bytes_def clus_def cluster_lba_def rw_fi_def one_fi_def demo_fi_def)
  ultimately show "small_file ok ready sector 0 rw_fi demo_fat 0 test_comps 6 100 (sector h 0 13) (rw_vfs h)"
    by (simp add: small_file_def) (simp add: rw_fi_def one_fi_def)
qed

lemma rw_file_start: "one_sector rw_fi demo_fat 100" "openfiles (rw_vfs h) = []"
proof -
  have "fat32_get_next_cluster 3 demo_fat 512 = Returns 0"
    by (simp add: fat32_get_next_cluster_def demo_fat_def nth_Cons')
  then show "one_sector rw_fi demo_fat 100"
    by (simp add: one_sector_def run_ok_def cluster_lba_def rw_fi_def one_fi_def demo_fi_def clen_def)
  show "openfiles (rw_vfs h) = []" by (simp add: rw_vfs_def ls_vfs_def)
qed

lemma file_test_shows_witness:
  "\<exists>s'. (\<forall>font env1 env2 st. file_test font env1 env2 (fat32_table ram_disk) (rw_vfs (\<lambda>_ _. replicate 512 0x2E), st)
        = omap (Pair s') (obind
            (print_read font env1 0 100 (take 100 (after1 (replicate 512 0x2E)) @ replicate 924 0) st)
            (print_read font env2 1 100 (take 100 (after2 (replicate 512 0x2E)) @ replicate 1700 0))))
     \<and> openfiles s' = [None, None]"
proof -
  let ?h = "\<lambda>(_ :: nat) (_ :: nat). replicate 512 (0x2E :: u8)"
  have "\<forall>d k. length (?h d k) = ATA_SECTOR_SIZE" by (simp add: ATA_SECTOR_SIZE_def)
  note v = rw_file(1) [of "\<lambda>h. \<forall>d k. length (h d k) = ATA_SECTOR_SIZE" ?h "\<lambda>_. True" "\<lambda>h. h", OF this TrueI]
  have n: "0 = length (openfiles (rw_vfs ?h))" "0 + 1 < (2 :: nat) ^ 31" "91 \<le> (100 :: nat)" by (simp_all add: rw_file_start)
  from file_test_shows [OF ram_disk_ok v rw_file_start(1) n(3,1,2)] show ?thesis by (auto simp: rw_file_start)
qed

end
