(* ===== verification/Dumps.thy ===== *)
theory Dumps
  imports Vfs_Files File_Test
begin

text \<open>
  What the kernel prints of its file system: \<open>vfs_debug\<close> (\<open>fs/vfs.c\<close>), the command \<open>vfs\<close>, which walks the tree
  of nodes, and \<open>fat32_dump_entry\<close> (\<open>fs/fat32.c\<close>). \<open>addr\<close> is the address of an inode, which is printed.
\<close>

section \<open>The walk\<close>

definition print_node :: "u8 list \<Rightarrow> (nat \<Rightarrow> u64) \<Rightarrow> int \<Rightarrow> vfs_tnode \<Rightarrow> vfs_inode \<Rightarrow> klogs \<times> terms \<Rightarrow> (klogs \<times> terms) outcome" where
  "print_node font addr lvl n i =
     kprintf font (c_lit ('' %d: [%s] -> %x inode (%d refs)'' @ NEWLINE))
       [Num (of_int lvl), Str (tname n @ [0]), Num (addr (tinode n)), Num (ucast (irefcount i))]"

text \<open>The line of a node, after \<open>1 + lvl\<close> blanks.\<close>

definition dump_line :: "u8 list \<Rightarrow> (nat \<Rightarrow> u64) \<Rightarrow> 'd vfs \<Rightarrow> nat \<times> int \<Rightarrow> klogs \<times> terms \<Rightarrow> (klogs \<times> terms) outcome" where
  "dump_line font addr s c st =
     (case c of (t, lvl) \<Rightarrow>
        if 1 + lvl \<ge> 2 ^ 31 then Faults IntOverflow
        else
          obind (foldo (\<lambda>_. kprintf font (c_lit '' '') []) [0..<nat (1 + lvl)] st) (\<lambda>st.
          obind (tnode_at s t) (\<lambda>n. obind (inode_at s (tinode n)) (\<lambda>i. print_node font addr lvl n i st))))"

text \<open>
  \<open>dumpnodes_helper\<close> calls itself on the children of a folder. The state of the loop is the calls that are
  still to be made, the innermost first: nothing else bounds the recursion.
\<close>

definition dump_step :: "u8 list \<Rightarrow> (nat \<Rightarrow> u64) \<Rightarrow> 'd vfs \<Rightarrow> (nat \<times> int) list \<times> klogs \<times> terms
    \<Rightarrow> (((nat \<times> int) list \<times> klogs \<times> terms) + (klogs \<times> terms)) outcome" where
  "dump_step font addr s x =
     (case x of
        ([], st) \<Rightarrow> Returns (Inr st)
      | ((t, lvl) # calls, st) \<Rightarrow>
          obind (dump_line font addr s (t, lvl) st) (\<lambda>st.
          obind (tnode_at s t) (\<lambda>n. obind (inode_at s (tinode n)) (\<lambda>i.
            Returns (Inl (if IS_TRAVERSABLE i then (map (\<lambda>c. (c, lvl + 1)) (ichild i) @ calls, st) else (calls, st)))))))"

definition dumpnodes_helper :: "u8 list \<Rightarrow> (nat \<Rightarrow> u64) \<Rightarrow> 'd vfs \<Rightarrow> nat \<Rightarrow> int \<Rightarrow> klogs \<times> terms \<Rightarrow> (klogs \<times> terms) outcome" where
  "dumpnodes_helper font addr s from lvl st = loop_c (dump_step font addr s) ([(from, lvl)], st)"

definition vfs_debug :: "u8 list \<Rightarrow> (nat \<Rightarrow> u64) \<Rightarrow> 'd vfs \<Rightarrow> klogs \<times> terms \<Rightarrow> (klogs \<times> terms) outcome" where
  "vfs_debug font addr s st =
     obind (kprintf font (c_lit (''Dumping VFS nodes:'' @ NEWLINE)) [] st) (\<lambda>st.
     obind (dumpnodes_helper font addr s 0 0 st)
       (kprintf font (c_lit (''Dumping done.'' @ NEWLINE)) []))"

section \<open>A directory entry\<close>

definition attribute_names :: "(u8 \<times> string) list" where
  "attribute_names = [(0x01, ''readonly''), (0x02, ''hidden''), (0x04, ''system''), (0x08, ''volumeid''),
     (FAT32_ATTR_DIRECTORY, ''directory''), (0x20, ''archive''), (FAT32_ATTR_LONGNAME, ''longname'')]"

definition print_attribute :: "u8 list \<Rightarrow> log_env \<Rightarrow> u8 \<Rightarrow> u8 \<times> string \<Rightarrow> klogs \<times> terms \<Rightarrow> (klogs \<times> terms) outcome" where
  "print_attribute font env a x st =
     (if a AND fst x \<noteq> 0 then klogu font env (''  Attribute    : '' @ snd x @ NEWLINE) [] st else Returns st)"

definition fat32_dump_entry :: "u8 list \<Rightarrow> log_env \<Rightarrow> fat32_entry \<Rightarrow> klogs \<times> terms \<Rightarrow> (klogs \<times> terms) outcome" where
  "fat32_dump_entry font env fe st =
     (if fe_attribute fe = 0 \<and> fe_cluster fe = 0 then Returns st
      else
        obind (klogi font env (''Dump FAT32 file entry information:'' @ NEWLINE) [] st) (\<lambda>st.
        obind (klogu font env (''  Name         : %s'' @ NEWLINE) [Str (take 11 (fe_name fe) @ [0])] st) (\<lambda>st.
        obind (foldo (print_attribute font env (fe_attribute fe)) attribute_names st) (\<lambda>st.
        obind (klogu font env (''  Cluster begin: %d'' @ NEWLINE) [Num (ucast (fe_cluster fe))] st) (\<lambda>st.
        obind (klogu font env (''  File size    : %d'' @ NEWLINE) [Num (ucast (fe_size fe))] st) (\<lambda>st.
        obind (klogu font env (''  Dent cluster : %d'' @ NEWLINE) [Num (ucast (fe_dir_cluster fe))] st)
          (klogu font env (''  Dent index   : %d'' @ NEWLINE) [Num (fe_dir_index fe)])))))))"

text \<open>
  The attributes printed. All four low bits make a long name, and one of them is enough to be called one:
  the mask is tested for any of its bits.
\<close>

lemma foldo_filter:
  "foldo (print_attribute font env a) xs
     = foldo (\<lambda>nm. klogu font env (''  Attribute    : '' @ nm @ NEWLINE) []) (map snd (filter (\<lambda>x. a AND fst x \<noteq> 0) xs))"
proof (rule ext)
  fix st
  show "foldo (print_attribute font env a) xs st
     = foldo (\<lambda>nm. klogu font env (''  Attribute    : '' @ nm @ NEWLINE) []) (map snd (filter (\<lambda>x. a AND fst x \<noteq> 0) xs)) st"
  proof (induction xs arbitrary: st)
    case (Cons x xs)
    then have "foldo (print_attribute font env a) xs
        = foldo (\<lambda>nm. klogu font env (''  Attribute    : '' @ nm @ NEWLINE) []) (map snd (filter (\<lambda>x. a AND fst x \<noteq> 0) xs))"
      by blast
    then show ?case by (simp add: print_attribute_def [of font env a x])
  qed simp
qed

lemma volume_label_printed:
  "foldo (print_attribute font env 0x08) attribute_names
     = foldo (\<lambda>nm. klogu font env (''  Attribute    : '' @ nm @ NEWLINE) []) [''volumeid'', ''longname'']"
  by (simp add: foldo_filter attribute_names_def FAT32_ATTR_DIRECTORY_def FAT32_ATTR_LONGNAME_def)

section \<open>The tree\<close>

datatype ftree = Node nat "ftree list"

fun root :: "ftree \<Rightarrow> nat" where
  "root (Node t cs) = t"

text \<open>\<open>T\<close> is the part of the file system below its root.\<close>

fun tree_at :: "'d vfs \<Rightarrow> ftree \<Rightarrow> bool" where
  "tree_at s (Node t cs) \<longleftrightarrow> tnodes s t \<noteq> None \<and> map root cs = (if folder s t then kids s t else []) \<and> (\<forall>c \<in> set cs. tree_at s c)"

fun preorder :: "int \<Rightarrow> ftree \<Rightarrow> (nat \<times> int) list" where
  "preorder l (Node t cs) = (t, l) # concat (map (preorder (l + 1)) cs)"

fun height :: "ftree \<Rightarrow> nat" where
  "height (Node t cs) = Suc (Max (insert 0 (height ` set cs)))"

lemma tree_exists:
  assumes "tree_ok s" "forest s" "tnodes s t \<noteq> None"
  shows "\<exists>T. root T = t \<and> tree_at s T \<and> t + height T \<le> fresh s"
  using assms(3)
proof (induction "fresh s - t" arbitrary: t rule: less_induct)
  case less
  then have t: "t < fresh s" using tnode_below(1) [OF assms(1)] by blast
  let ?ks = "if folder s t then kids s t else []"
  have k: "t < c \<and> tnodes s c \<noteq> None" if "c \<in> set ?ks" for c
    using that assms(2) children_live [OF assms(1) less.prems, of c] less.prems
    by (auto simp: forest_def kids_def split: if_splits)
  have "\<exists>T. root T = c \<and> tree_at s T \<and> c + height T \<le> fresh s" if "c \<in> set ?ks" for c
    using k [OF that] t by (intro less.hyps) auto
  then obtain T where T: "\<And>c. c \<in> set ?ks \<Longrightarrow> root (T c) = c \<and> tree_at s (T c) \<and> c + height (T c) \<le> fresh s" by metis
  let ?T = "Node t (map T ?ks)"
  have "map root (map T ?ks) = ?ks" using T by (simp add: map_idI)
  then have "tree_at s ?T" using T less.prems by (auto simp only: tree_at.simps set_map)
  moreover have "h \<le> fresh s - Suc t" if "h \<in> insert 0 (height ` set (map T ?ks))" for h
    using that T k by fastforce
  then have "Max (insert 0 (height ` set (map T ?ks))) \<le> fresh s - Suc t" by (subst Max_le_iff) auto
  then have "t + height ?T \<le> fresh s" using t by (simp only: height.simps)
  ultimately show ?case by (intro exI [of _ ?T]) simp
qed

text \<open>The walk prints the nodes in preorder.\<close>

lemma dump_calls:
  assumes "tree_ok s" "\<forall>T \<in> set Ts. tree_at s (fst T)"
  shows "loop_c (dump_step font addr s) (map (\<lambda>(T, l). (root T, l)) Ts, st)
    = foldo (dump_line font addr s) (concat (map (\<lambda>(T, l). preorder l T) Ts)) st"
  using assms(2)
proof (induction "sum_list (map (size \<circ> fst) Ts)" arbitrary: Ts st rule: less_induct)
  case less
  show ?case
  proof (cases Ts)
    case Nil
    then show ?thesis by (subst loop_c_unfold) (simp add: dump_step_def)
  next
    case (Cons x Us)
    obtain t cs l where x: "x = (Node t cs, l)" by (metis ftree.exhaust prod.exhaust)
    let ?Vs = "map (\<lambda>c. (c, l + 1)) cs @ Us"
    have T: "tnodes s t \<noteq> None" "map root cs = (if folder s t then kids s t else [])" "\<forall>c \<in> set cs. tree_at s c"
      using less.prems Cons x by auto
    note live = tnode_live [OF assms(1) T(1)]
    have "sum_list (map (size \<circ> fst) (map (\<lambda>c. (c, l + 1)) cs)) = sum_list (map size cs)" by (simp add: comp_def)
    moreover have "sum_list (map size cs) \<le> size_list size cs" by (induction cs) auto
    ultimately have "sum_list (map (size \<circ> fst) ?Vs) < sum_list (map (size \<circ> fst) Ts)" using Cons x by simp
    moreover have "\<forall>T \<in> set ?Vs. tree_at s (fst T)" using T(3) less.prems Cons by auto
    ultimately have ih: "loop_c (dump_step font addr s) (map (\<lambda>(T, l). (root T, l)) ?Vs, st)
      = foldo (dump_line font addr s) (concat (map (\<lambda>(T, l). preorder l T) ?Vs)) st" for st by (rule less.hyps)
    have calls: "map (\<lambda>c. (root c, l + 1)) cs = (if folder s t then map (\<lambda>c. (c, l + 1)) (ichild (inode_of s t)) else [])"
      using arg_cong [OF T(2), of "map (\<lambda>c. (c, l + 1))"] by (simp add: comp_def kids_def)
    have st: "dump_step font addr s (map (\<lambda>(T, l). (root T, l)) Ts, st)
        = omap (\<lambda>st. Inl (map (\<lambda>(T, l). (root T, l)) ?Vs, st)) (dump_line font addr s (t, l) st)" for st
      using calls by (cases "dump_line font addr s (t, l) st")
        (auto simp: dump_step_def Cons x live folder_def comp_def)
    have "foldo (dump_line font addr s) (concat (map (\<lambda>(T, l). preorder l T) Ts)) st
        = obind (dump_line font addr s (t, l) st) (foldo (dump_line font addr s) (concat (map (\<lambda>(T, l). preorder l T) ?Vs)))"
      by (simp add: Cons x comp_def)
    with ih st show ?thesis by (subst loop_c_unfold, cases "dump_line font addr s (t, l) st") simp_all
  qed
qed

text \<open>Every node once, with its depth.\<close>

fun nodes :: "ftree \<Rightarrow> nat list" where
  "nodes (Node t cs) = t # concat (map nodes cs)"

lemma preorder_nodes: "map fst (preorder l T) = nodes T"
  by (induction l T rule: preorder.induct) (simp add: map_concat comp_def cong: map_cong)

lemma root_nodes [simp]: "root T \<in> set (nodes T)"
  by (cases T) simp

lemma nodes_live: "tree_at s T \<Longrightarrow> u \<in> set (nodes T) \<Longrightarrow> tnodes s u \<noteq> None"
  by (induction s T rule: tree_at.induct) auto

lemma child_kid: "tree_at s (Node t cs) \<Longrightarrow> C \<in> set cs \<Longrightarrow> root C \<in> set (kids s t)"
proof -
  assume t: "tree_at s (Node t cs)" and c: "C \<in> set cs"
  from c have "root C \<in> set (map root cs)" by simp
  also have "map root cs = (if folder s t then kids s t else [])" using t by simp
  finally show ?thesis by (simp split: if_splits)
qed

lemma nodes_parent:
  "tree_at s T \<Longrightarrow> u \<in> set (nodes T) \<Longrightarrow> u \<noteq> root T \<Longrightarrow> \<exists>v \<in> set (nodes T). u \<in> set (kids s v)"
proof (induction s T rule: tree_at.induct)
  case (1 s t cs)
  from 1(3,4) obtain C where C: "C \<in> set cs" "u \<in> set (nodes C)" by auto
  show ?case
  proof (cases "u = root C")
    case True
    with child_kid [OF 1(2) C(1)] show ?thesis by auto
  next
    case False
    with 1(1) [OF C(1) _ C(2)] 1(2) C(1) show ?thesis by auto
  qed
qed

lemma nodes_above: "forest s \<Longrightarrow> tree_at s T \<Longrightarrow> u \<in> set (nodes T) \<Longrightarrow> root T \<le> u"
proof (induction s T rule: tree_at.induct)
  case (1 s t cs)
  show ?case
  proof (cases "u = t")
    case False
    with 1(4) obtain C where C: "C \<in> set cs" "u \<in> set (nodes C)" by auto
    have "t < root C" using child_kid [OF 1(3) C(1)] 1(2,3) by (auto simp: forest_def)
    moreover have "root C \<le> u" using 1(1) [OF C(1) 1(2) _ C(2)] 1(3) C(1) by simp
    ultimately show ?thesis by simp
  qed simp
qed

lemma one_parent:
  "forest s \<Longrightarrow> tnodes s v \<noteq> None \<Longrightarrow> tnodes s w \<noteq> None \<Longrightarrow> u \<in> set (kids s v) \<Longrightarrow> u \<in> set (kids s w) \<Longrightarrow> v = w"
  unfolding forest_def by blast

lemma nodes_meet:
  assumes "forest s" "tree_at s T1" "tree_at s T2" "u \<in> set (nodes T1)" "u \<in> set (nodes T2)"
  shows "root T1 \<in> set (nodes T2) \<or> root T2 \<in> set (nodes T1)"
  using assms
proof (induction s T1 rule: tree_at.induct)
  case (1 s t cs)
  show ?case
  proof (cases "u = t")
    case False
    with 1(5) obtain C where C: "C \<in> set cs" "u \<in> set (nodes C)" by auto
    have c: "tree_at s C" "root C \<in> set (kids s t)" "tnodes s t \<noteq> None" using child_kid [OF 1(3) C(1)] 1(3) C(1) by auto
    from 1(1) [OF C(1) 1(2) c(1) 1(4) C(2) 1(6)] show ?thesis
    proof
      assume "root T2 \<in> set (nodes C)"
      with C(1) show ?thesis by auto
    next
      assume r: "root C \<in> set (nodes T2)"
      show ?thesis
      proof (cases "root C = root T2")
        case True
        with C(1) root_nodes [of C] show ?thesis by auto
      next
        case False
        from nodes_parent [OF 1(4) r this] obtain v where v: "v \<in> set (nodes T2)" "root C \<in> set (kids s v)" by blast
        have "t = v" by (rule one_parent [OF 1(2) c(3) nodes_live [OF 1(4) v(1)] c(2) v(2)])
        with v(1) show ?thesis by simp
      qed
    qed
  qed (use 1(6) in simp)
qed

lemma nodes_distinct: "forest s \<Longrightarrow> tree_at s T \<Longrightarrow> distinct (nodes T)"
proof (induction s T rule: tree_at.induct)
  case (1 s t cs)
  have live: "tnodes s t \<noteq> None" using 1(3) by simp
  have sub: "tree_at s C" "root C \<in> set (kids s t)" "t < root C" if "C \<in> set cs" for C
    using child_kid [OF 1(3) that] 1(2,3) that live by (auto simp: forest_def)
  have t: "t \<notin> set (nodes C)" if "C \<in> set cs" for C
    using nodes_above [OF 1(2) sub(1) [OF that], of t] sub(3) [OF that] by auto
  have apart: "root C \<notin> set (nodes D)" if "C \<in> set cs" "D \<in> set cs" "root C \<noteq> root D" for C D
  proof
    assume "root C \<in> set (nodes D)"
    from nodes_parent [OF sub(1) [OF that(2)] this that(3)] obtain v where v: "v \<in> set (nodes D)" "root C \<in> set (kids s v)"
      by blast
    have "v = t" using one_parent [OF 1(2) nodes_live [OF sub(1) [OF that(2)] v(1)] live v(2) sub(2) [OF that(1)]] .
    with v(1) t [OF that(2)] show False by simp
  qed
  have disj: "set (nodes C) \<inter> set (nodes D) = {}" if "C \<in> set cs" "D \<in> set cs" "root C \<noteq> root D" for C D
    using nodes_meet [OF 1(2) sub(1) [OF that(1)] sub(1) [OF that(2)]] apart [OF that] apart [OF that(2,1) that(3) [symmetric]]
    by blast
  have "distinct (map root cs)" using 1(2,3) live by (auto simp: forest_def)
  then have "distinct (concat (map nodes cs))" if "set ds \<subseteq> set cs" "cs = ds" for ds
  proof -
    have "set es \<subseteq> set cs \<Longrightarrow> distinct (map root es) \<Longrightarrow> distinct (concat (map nodes es))" for es
    proof (induction es)
      case (Cons C es)
      have "set (nodes C) \<inter> set (nodes D) = {}" if "D \<in> set es" for D
        using Cons.prems that by (intro disj) auto
      moreover have "distinct (nodes C)" using 1(1) [OF _ 1(2)] 1(3) Cons.prems(1) by auto
      ultimately show ?case using Cons by auto
    qed simp
    with \<open>distinct (map root cs)\<close> show ?thesis by blast
  qed
  with t show ?case by auto
qed

lemma preorder_level: "(u, m) \<in> set (preorder l T) \<Longrightarrow> l \<le> m \<and> m < l + int (height T)"
proof (induction l T rule: preorder.induct)
  case (1 l t cs)
  show ?case
  proof (cases "(u, m) = (t, l)")
    case False
    with 1(2) obtain C where C: "C \<in> set cs" "(u, m) \<in> set (preorder (l + 1) C)" by auto
    have "height C \<le> Max (insert 0 (height ` set cs))" using C(1) by (intro Max_ge) auto
    then have "int (height C) < int (height (Node t cs))" by simp
    with 1(1) [OF C] show ?thesis by linarith
  qed simp
qed

lemma resolve_preorder:
  assumes "tree_at s T" "resolve s (root T) cs = Some u"
  shows "(u, l + int (length cs)) \<in> set (preorder l T)"
  using assms
proof (induction cs arbitrary: T l)
  case Nil
  then show ?case by (cases T) simp
next
  case (Cons c cs)
  obtain t Cs where T: "T = Node t Cs" by (cases T)
  with Cons.prems obtain k where k: "folder s t" "child s t c = Some k" "resolve s k cs = Some u"
    by (auto split: if_splits option.splits)
  from k(2) have "k \<in> set (kids s t)" by (auto simp: child_def kids_def find_Some_iff in_set_conv_nth)
  then have "k \<in> set (map root Cs)" using Cons.prems(1) k(1) by (simp add: T)
  then obtain C where C: "C \<in> set Cs" "root C = k" by auto
  have "(u, (l + 1) + int (length cs)) \<in> set (preorder (l + 1) C)"
    using Cons.prems(1) k(3) C by (intro Cons.IH) (auto simp: T)
  with C(1) show ?case by (force simp: T add.assoc)
qed



end
