(* ===== verification/Pci.thy ===== *)
theory Pci
  imports Ports Klog
begin

text \<open>
  PCI configuration space (\<open>core/pci.c\<close>, \<open>pci.h\<close>): the accesses through the two configuration
  ports, the decoding of base address registers, and the recursive scan of the buses. The list
  \<open>pci_devices\<close> is a list here (\<open>Vector\<close> shows that the code's vector is one).
\<close>

section \<open>Data\<close>

definition PCI_PORT_ADDR :: u16 where "PCI_PORT_ADDR = 0xCF8"
definition PCI_PORT_DATA :: u16 where "PCI_PORT_DATA = 0xCFC"
definition PCI_CONFIG_BAR0 :: u32 where "PCI_CONFIG_BAR0 = 0x10"
definition PCI_BAR_IO :: u32 where "PCI_BAR_IO = 0x01"
definition PCI_BAR_64 :: u32 where "PCI_BAR_64 = 0x04"
definition PCI_CLASS_LEGACY :: u32 where "PCI_CLASS_LEGACY = 0x00"
definition PCI_CLASS_PERIHPERALS :: u32 where "PCI_CLASS_PERIHPERALS = 0x08"
definition PCI_CLASS_SERIAL_BUS :: u32 where "PCI_CLASS_SERIAL_BUS = 0x0c"
definition MAX_FUNCTION :: nat where "MAX_FUNCTION = 8"
definition MAX_DEVICE :: nat where "MAX_DEVICE = 16"

text \<open>The fields of \<open>pci_device_t\<close> that the code reads or writes; the others stay zero.\<close>

record pci_device =
  pci_bus :: u8
  pci_func :: u8
  pci_dev :: u8
  device_id :: u16
  vendor_id :: u16
  multifunction :: bool

definition pci_device_at :: "u8 \<Rightarrow> u8 \<Rightarrow> u8 \<Rightarrow> pci_device" where
  "pci_device_at b d f = \<lparr>pci_bus = b, pci_func = f, pci_dev = d, device_id = 0, vendor_id = 0, multifunction = False\<rparr>"

definition PCI_MAKE_DEVICE_ID :: "pci_device \<Rightarrow> u32" where
  "PCI_MAKE_DEVICE_ID dev = push_bit 16 (ucast (pci_bus dev)) OR push_bit 11 (ucast (pci_dev dev)) OR push_bit 8 (ucast (pci_func dev))"

datatype bar_place = Address u64 | Port u16

record pci_bar =
  bar_u :: bar_place
  bar_size :: u64
  bar_flags :: u32

section \<open>Accesses\<close>

definition pci_address :: "u32 \<Rightarrow> u32 \<Rightarrow> u32" where
  "pci_address pid off = 0x80000000 OR pid OR (off AND 0xFC)"

definition data_port :: "u32 \<Rightarrow> u32 \<Rightarrow> u16" where
  "data_port off m = PCI_PORT_DATA + ucast (off AND m)"

definition pci_inb :: "'d io_ports \<Rightarrow> u32 \<Rightarrow> u32 \<Rightarrow> 'd \<Rightarrow> u8 \<times> 'd" where
  "pci_inb P pid off d = inb P (data_port off 0x03) (outd P PCI_PORT_ADDR (pci_address pid off) d)"

definition pci_outb :: "'d io_ports \<Rightarrow> u32 \<Rightarrow> u32 \<Rightarrow> u8 \<Rightarrow> 'd \<Rightarrow> 'd" where
  "pci_outb P pid off v d = outb P (data_port off 0x03) v (outd P PCI_PORT_ADDR (pci_address pid off) d)"

definition pci_inw :: "'d io_ports \<Rightarrow> u32 \<Rightarrow> u32 \<Rightarrow> 'd \<Rightarrow> u16 \<times> 'd" where
  "pci_inw P pid off d = inw P (data_port off 0x02) (outd P PCI_PORT_ADDR (pci_address pid off) d)"

definition pci_outw :: "'d io_ports \<Rightarrow> u32 \<Rightarrow> u32 \<Rightarrow> u16 \<Rightarrow> 'd \<Rightarrow> 'd" where
  "pci_outw P pid off v d = outw P (data_port off 0x02) v (outd P PCI_PORT_ADDR (pci_address pid off) d)"

definition pci_ind :: "'d io_ports \<Rightarrow> u32 \<Rightarrow> u32 \<Rightarrow> 'd \<Rightarrow> u32 \<times> 'd" where
  "pci_ind P pid off d = ind P PCI_PORT_DATA (outd P PCI_PORT_ADDR (pci_address pid off) d)"

definition pci_outd :: "'d io_ports \<Rightarrow> u32 \<Rightarrow> u32 \<Rightarrow> u32 \<Rightarrow> 'd \<Rightarrow> 'd" where
  "pci_outd P pid off v d = outd P PCI_PORT_DATA v (outd P PCI_PORT_ADDR (pci_address pid off) d)"

section \<open>Base address registers\<close>

definition pci_read_bar :: "'d io_ports \<Rightarrow> u32 \<Rightarrow> u32 \<Rightarrow> 'd \<Rightarrow> (u32 \<times> u32) \<times> 'd" where
  "pci_read_bar P pid index d =
     (let reg = PCI_CONFIG_BAR0 + index * 4;
          (address, d) = pci_ind P pid reg d;
          (msk, d) = pci_ind P pid reg (pci_outd P pid reg 0xFFFFFFFF d)
      in ((address, msk), pci_outd P pid reg address d))"

definition wide_bar :: "u32 \<Rightarrow> u32 \<Rightarrow> u32 \<Rightarrow> u32 \<Rightarrow> pci_bar" where
  "wide_bar addr_low mask_low addr_high mask_high =
     \<lparr>bar_u = Address (push_bit 32 (ucast addr_high) OR ucast (addr_low AND NOT 0xF)),
      bar_size = NOT (push_bit 32 (ucast mask_high) OR ucast (mask_low AND NOT 0xF)) + 1,
      bar_flags = addr_low AND 0xF\<rparr>"

definition port_bar :: "u32 \<Rightarrow> u32 \<Rightarrow> pci_bar" where
  "port_bar addr msk =
     \<lparr>bar_u = Port (ucast (addr AND NOT 0x3)), bar_size = ucast (ucast (NOT (msk AND NOT 0x3) + 1) :: u16),
      bar_flags = addr AND 0x3\<rparr>"

definition mem_bar :: "u32 \<Rightarrow> u32 \<Rightarrow> pci_bar" where
  "mem_bar addr msk =
     \<lparr>bar_u = Address (ucast (addr AND NOT 0xF)), bar_size = ucast (NOT (msk AND NOT 0xF) + 1),
      bar_flags = addr AND 0xF\<rparr>"

definition pci_get_bar :: "'d io_ports \<Rightarrow> u32 \<Rightarrow> u32 \<Rightarrow> 'd \<Rightarrow> pci_bar \<times> 'd" where
  "pci_get_bar P pid index d =
     (let ((addr_low, mask_low), d) = pci_read_bar P pid index d
      in if addr_low AND PCI_BAR_64 \<noteq> 0 then
           let ((addr_high, mask_high), d) = pci_read_bar P pid (index + 1) d
           in (wide_bar addr_low mask_low addr_high mask_high, d)
         else if addr_low AND PCI_BAR_IO \<noteq> 0 then (port_bar addr_low mask_low, d)
         else (mem_bar addr_low mask_low, d))"

section \<open>Device descriptions\<close>

definition device_table :: "(u16 \<times> u16 \<times> string) list" where
  "device_table = [
     (0x8086, 0x0154, ''3rd Gen Core processor DRAM Controller''),
     (0x8086, 0x0166, ''3rd Gen Core processor Graphics Controller''),
     (0x8086, 0x100E, ''Gigabit Ethernet Controller''),
     (0x8086, 0x0A04, ''Haswell-ULT DRAM Controller''),
     (0x8086, 0x0A0C, ''Haswell-ULT HD Audio Controller''),
     (0x8086, 0x0A16, ''Haswell-ULT Integrated Graphics Controller''),
     (0x8086, 0x153A, ''Ethernet Connection I217-LM''),
     (0x8086, 0x10D3, ''82574L Gigabit Network Connection''),
     (0x8086, 0x10EA, ''82577LM Gigabit Network Connection''),
     (0x8086, 0x7000, ''82371SB PIIX3 ISA''),
     (0x8086, 0x7010, ''82371SB PIIX3 IDE''),
     (0x8086, 0x7110, ''82371AB/EB/MB PIIX4 ISA''),
     (0x8086, 0x7111, ''82371AB/EB/MB PIIX4 IDE''),
     (0x8086, 0x7113, ''82371AB/EB/MB PIIX4 ACPI''),
     (0x8086, 0x7192, ''440BX/ZX/DX - 82443BX/ZX/DX Host bridge (AGP disabled)''),
     (0x8086, 0x1237, ''440FX - 82441FX PMC''),
     (0x8086, 0x2922, ''82801IR/IO/IH (ICH9R/DO/DH) 6 port SATA Controller''),
     (0x8086, 0x29C0, ''82G33/G31/P35/P31 Express DRAM Controller''),
     (0x10EC, 0x8139, ''RTL-8100/8101L/8139 pci Fast Ethernet Adapter''),
     (0x1234, 0x1111, ''QEMU Virtual Video Controller''),
     (0x80EE, 0xBEEF, ''VirtualBox Graphics Adapter''),
     (0x80EE, 0xCAFE, ''VirtualBox Guest Service''),
     (0x1414, 0x5353, ''Hyper-V virtual VGA''),
     (0, 0, ''Unknown device'')]"

definition unknown_device_desc :: string where
  "unknown_device_desc = ''Unknown device''"

fun find_desc :: "(u16 \<times> u16 \<times> string) list \<Rightarrow> u16 \<Rightarrow> u16 \<Rightarrow> string outcome" where
  "find_desc [] v i = Faults OutOfBounds"
| "find_desc ((v', i', desc) # tab) v i =
     (if v' = 0 then Returns unknown_device_desc
      else if v' = v \<and> i' = i then Returns desc
      else find_desc tab v i)"

definition pci_device_id_to_string :: "pci_device \<Rightarrow> string outcome" where
  "pci_device_id_to_string device = find_desc device_table (vendor_id device) (device_id device)"

section \<open>The scan\<close>

definition pci_func_exist :: "'d io_ports \<Rightarrow> pci_device \<Rightarrow> 'd \<Rightarrow> bool \<times> 'd" where
  "pci_func_exist P dev d =
     (let (v, d) = pci_ind P (PCI_MAKE_DEVICE_ID dev) PCI_CLASS_LEGACY d in ((ucast (v AND 0xFFFF) :: u16) \<noteq> 0xFFFF, d))"

definition pci_read_vendor_id :: "'d io_ports \<Rightarrow> pci_device \<Rightarrow> 'd \<Rightarrow> u16 \<times> 'd" where
  "pci_read_vendor_id P dev d =
     (let (v, d) = pci_ind P (PCI_MAKE_DEVICE_ID dev) PCI_CLASS_LEGACY d in (ucast (v AND 0xFFFF), d))"

definition pci_read_device_id :: "'d io_ports \<Rightarrow> pci_device \<Rightarrow> 'd \<Rightarrow> u16 \<times> 'd" where
  "pci_read_device_id P dev d =
     (let (v, d) = pci_ind P (PCI_MAKE_DEVICE_ID dev) PCI_CLASS_LEGACY d in (ucast (drop_bit 16 v), d))"

definition pci_read_class :: "'d io_ports \<Rightarrow> pci_device \<Rightarrow> 'd \<Rightarrow> u32 \<times> 'd" where
  "pci_read_class P dev d =
     (let (v, d) = pci_ind P (PCI_MAKE_DEVICE_ID dev) PCI_CLASS_PERIHPERALS d in (drop_bit 24 v, d))"

definition pci_read_header :: "'d io_ports \<Rightarrow> pci_device \<Rightarrow> 'd \<Rightarrow> u32 \<times> 'd" where
  "pci_read_header P dev d =
     (let (v, d) = pci_ind P (PCI_MAKE_DEVICE_ID dev) PCI_CLASS_PERIHPERALS d
      in (drop_bit 16 v AND NOT 0x80 AND 0xFF, d))"

definition pci_read_sub_bus :: "'d io_ports \<Rightarrow> pci_device \<Rightarrow> 'd \<Rightarrow> u8 \<times> 'd" where
  "pci_read_sub_bus P dev d =
     (let (v, d) = pci_ind P (PCI_MAKE_DEVICE_ID dev) 0x18 d in (ucast (drop_bit 8 v AND 0xFF), d))"

definition pci_is_bridge :: "'d io_ports \<Rightarrow> pci_device \<Rightarrow> 'd \<Rightarrow> bool \<times> 'd" where
  "pci_is_bridge P dev d =
     (let (h, d) = pci_read_header P dev d
      in if h = 0x1 then let (c, d) = pci_read_class P dev d in (c = 0x6, d) else (False, d))"

text \<open>The identity of a function that exists, as it is put in the list.\<close>

definition read_ids :: "'d io_ports \<Rightarrow> pci_device \<Rightarrow> 'd \<Rightarrow> pci_device \<times> 'd" where
  "read_ids P dev d =
     (let (i, d) = pci_read_device_id P dev d; (v, d) = pci_read_vendor_id P dev d
      in (dev\<lparr>device_id := i, vendor_id := v\<rparr>, d))"

fun scan_functions :: "'d io_ports \<Rightarrow> u8 \<Rightarrow> u8 \<Rightarrow> u8 list \<Rightarrow> pci_device list \<times> 'd \<Rightarrow> pci_device list \<times> 'd" where
  "scan_functions P b dv [] st = st"
| "scan_functions P b dv (f # fs) (devs, d) =
     (let dev = pci_device_at b dv f; (ex, d) = pci_func_exist P dev d
      in if ex then let (dev, d) = read_ids P dev d in scan_functions P b dv fs (devs @ [dev], d)
         else scan_functions P b dv fs (devs, d))"

text \<open>
  The reads at the start of \<open>pci_scan_device\<close>: whether the device exists, and the bus to scan first, if it
  is a bridge to another bus.
\<close>

definition probe :: "'d io_ports \<Rightarrow> u8 \<Rightarrow> u8 \<Rightarrow> 'd \<Rightarrow> bool \<times> bool \<times> u8 option \<times> 'd" where
  "probe P b dv d =
     (let dev = pci_device_at b dv 0;
          (func_exist, d) = pci_func_exist P dev d;
          (is_bridge, d) = pci_is_bridge P dev d;
          (has_multi_func, d) = pci_func_exist P dev d
      in if func_exist \<and> is_bridge then
           let (sub, d) = pci_read_sub_bus P dev d
           in if sub \<noteq> b then let (sub, d) = pci_read_sub_bus P dev d in (True, has_multi_func, Some sub, d)
              else (True, has_multi_func, None, d)
         else (func_exist, has_multi_func, None, d))"

text \<open>The rest of \<open>pci_scan_device\<close>, for a device that exists.\<close>

definition record_device :: "'d io_ports \<Rightarrow> u8 \<Rightarrow> u8 \<Rightarrow> bool \<Rightarrow> pci_device list \<times> 'd \<Rightarrow> pci_device list \<times> 'd" where
  "record_device P b dv multi st =
     (case st of (devs, d) \<Rightarrow>
        let (dev, d) = read_ids P ((pci_device_at b dv 0)\<lparr>multifunction := multi\<rparr>) d
        in if multi then scan_functions P b dv (map of_nat [1..<MAX_FUNCTION]) (devs @ [dev], d)
           else (devs @ [dev], d))"

text \<open>
  \<open>pci_scan_bus\<close> from device \<open>dv\<close> on, with \<open>pci_scan_device\<close> in it: the scan of a bridge's bus comes
  before the bridge itself is put in the list. Nothing bounds the recursion: \<open>None\<close> is a scan that
  never ends.
\<close>

partial_function (option) scan_from ::
  "'d io_ports \<Rightarrow> u8 \<Rightarrow> nat \<Rightarrow> pci_device list \<times> 'd \<Rightarrow> (pci_device list \<times> 'd) option"
where
  "scan_from P b dv st =
     (if dv \<ge> MAX_DEVICE then Some st
      else case st of (devs, d) \<Rightarrow>
        (case probe P b (of_nat dv) d of (ex, multi, sub, d) \<Rightarrow>
           Option.bind (case sub of None \<Rightarrow> Some (devs, d) | Some s \<Rightarrow> scan_from P s 0 (devs, d)) (\<lambda>st.
             scan_from P b (Suc dv) (if ex then record_device P b (of_nat dv) multi st else st))))"

definition pci_scan_bus :: "'d io_ports \<Rightarrow> u8 \<Rightarrow> pci_device list \<times> 'd \<Rightarrow> (pci_device list \<times> 'd) outcome" where
  "pci_scan_bus P b st = (case scan_from P b 0 st of None \<Rightarrow> Diverges | Some st \<Rightarrow> Returns st)"

definition pci_init :: "'d io_ports \<Rightarrow> pci_device list \<times> 'd \<Rightarrow> (pci_device list \<times> 'd) outcome" where
  "pci_init P st = pci_scan_bus P 0 st"

text \<open>The listing that the command line prints.\<close>

definition print_device :: "u8 list \<Rightarrow> pci_device \<Rightarrow> klogs \<times> terms \<Rightarrow> (klogs \<times> terms) outcome" where
  "print_device font dev st =
     obind (pci_device_id_to_string dev) (\<lambda>desc.
       kprintf font (c_lit (''PCI:'' @ [CHR 0x09] @ ''%2x:%2x.%1x - %4x:%4x %s'' @ [CHR 0x0A]))
         [Num (ucast (pci_bus dev)), Num (ucast (pci_dev dev)), Num (ucast (pci_func dev)),
          Num (ucast (vendor_id dev)), Num (ucast (device_id dev)), Str (c_lit desc)] st)"

definition pci_debug :: "u8 list \<Rightarrow> pci_device list \<Rightarrow> klogs \<times> terms \<Rightarrow> (klogs \<times> terms) outcome" where
  "pci_debug font devs st = foldo (print_device font) devs st"

end
