(* ===== verification/Descriptors.thy ===== *)
theory Descriptors
  imports CMemory
begin

text \<open>
  The descriptor tables of the CPU (\<open>core/gdt.c\<close>, \<open>gdt.h\<close>, \<open>idt.h\<close> and the gates of \<open>idt.c\<close>): the
  entries the code builds, and what the CPU reads out of them. The instructions that load the
  tables are the values they load.
\<close>

section \<open>Segment descriptors\<close>

record gdt_entry =
  limit_low :: u16
  base_low :: u16
  base_mid :: u8
  access :: u8
  granularity :: u8
  base_high :: u8

definition zero_gdt_entry :: gdt_entry where
  "zero_gdt_entry = \<lparr>limit_low = 0, base_low = 0, base_mid = 0, access = 0, granularity = 0, base_high = 0\<rparr>"

record sys_seg_desc =
  segment_limit_low :: u16
  segment_base_low :: u16
  segment_base_mid :: u8
  segment_type :: "4 word"
  zero_1 :: "1 word"
  segment_dpl :: "2 word"
  segment_present :: "1 word"
  segment_limit_high :: "4 word"
  segment_avail :: "1 word"
  zero_2 :: "2 word"
  segment_gran :: "1 word"
  segment_base_mid2 :: u8
  segment_base_high :: u32
  reserved_1 :: u8
  zero_3 :: "5 word"
  reserved_2 :: "19 word"

definition zero_seg_desc :: sys_seg_desc where
  "zero_seg_desc = \<lparr>segment_limit_low = 0, segment_base_low = 0, segment_base_mid = 0, segment_type = 0, zero_1 = 0,
     segment_dpl = 0, segment_present = 0, segment_limit_high = 0, segment_avail = 0, zero_2 = 0, segment_gran = 0,
     segment_base_mid2 = 0, segment_base_high = 0, reserved_1 = 0, zero_3 = 0, reserved_2 = 0\<rparr>"

record gdt_table =
  gdt_null :: gdt_entry
  kcode :: gdt_entry
  kdata :: gdt_entry
  ucode :: gdt_entry
  udata :: gdt_entry
  gdt_tss :: sys_seg_desc

definition zero_gdt :: gdt_table where
  "zero_gdt = \<lparr>gdt_null = zero_gdt_entry, kcode = zero_gdt_entry, kdata = zero_gdt_entry, ucode = zero_gdt_entry,
     udata = zero_gdt_entry, gdt_tss = zero_seg_desc\<rparr>"


text \<open>The tables of the CPUs, the number in use, and for each CPU the register that names its table.\<close>

record gdts =
  gdt_list :: "gdt_table list"
  gdt_num :: nat

definition gdts_start :: gdts where
  "gdts_start = \<lparr>gdt_list = replicate CPU_MAX zero_gdt, gdt_num = 0\<rparr>"

definition gdt_make_entry :: "u64 \<Rightarrow> u64 \<Rightarrow> u8 \<Rightarrow> gdt_entry" where
  "gdt_make_entry base limit type =
     (let (limit, gran) = (if limit > 65536 then (drop_bit 12 limit, 0xA0) else (limit, 0x80))
      in \<lparr>limit_low = ucast (limit AND 0xFFFF), base_low = ucast (base AND 0xFFFF),
          base_mid = ucast (drop_bit 16 base AND 0xFF), access = type,
          granularity = gran OR ucast (drop_bit 16 limit AND 0xF), base_high = ucast (drop_bit 24 base AND 0xFF)\<rparr>)"

definition kernel_gdt :: gdt_table where
  "kernel_gdt = zero_gdt\<lparr>gdt_null := gdt_make_entry 0 0 0, kcode := gdt_make_entry 0 0xFFFFFFFF 0x9A,
     kdata := gdt_make_entry 0 0xFFFFFFFF 0x92, ucode := gdt_make_entry 0 0xFFFFFFFF 0xFA,
     udata := gdt_make_entry 0 0xFFFFFFFF 0xF2\<rparr>"

text \<open>The answer is the index of the table that the CPU's register is loaded with.\<close>

definition gdt_init :: "gdts \<Rightarrow> (nat \<times> gdts) outcome" where
  "gdt_init g =
     omap (\<lambda>tabs. (gdt_num g, \<lparr>gdt_list = tabs, gdt_num = gdt_num g + 1\<rparr>)) (wr (gdt_list g) (gdt_num g) kernel_gdt)"

definition put_tss :: "u64 \<Rightarrow> sys_seg_desc \<Rightarrow> sys_seg_desc" where
  "put_tss baseaddr t = t\<lparr>segment_base_low := ucast (baseaddr AND 0xFFFF),
     segment_base_mid := ucast (drop_bit 16 baseaddr AND 0xFF), segment_base_mid2 := ucast (drop_bit 24 baseaddr AND 0xFF),
     segment_base_high := ucast (drop_bit 32 baseaddr AND 0xFFFFFFFF), segment_limit_low := 0x67, segment_present := 1,
     segment_type := 0b1001\<rparr>"

definition gdt_install_tss :: "nat \<Rightarrow> u64 \<Rightarrow> gdts \<Rightarrow> gdts outcome" where
  "gdt_install_tss gdtr baseaddr g =
     obind (rd (gdt_list g) gdtr) (\<lambda>gt. omap (\<lambda>tabs. g\<lparr>gdt_list := tabs\<rparr>)
       (wr (gdt_list g) gdtr (gt\<lparr>gdt_tss := put_tss baseaddr (gdt_tss gt)\<rparr>)))"

section \<open>Gates\<close>

definition IDT_ENTRIES :: nat where "IDT_ENTRIES = 256"
definition IDT_DEFAULT_TYPE_ATTRIBUTES :: u8 where "IDT_DEFAULT_TYPE_ATTRIBUTES = 0b10001110"

record idt_entry =
  offset_1 :: u16
  selector :: u16
  ist :: u8
  type_attributes :: u8
  offset_2 :: u16
  offset_3 :: u32
  idt_zero :: u32

definition zero_gate :: idt_entry where
  "zero_gate = \<lparr>offset_1 = 0, selector = 0, ist = 0, type_attributes = 0, offset_2 = 0, offset_3 = 0, idt_zero = 0\<rparr>"

definition idt_make_entry :: "u64 \<Rightarrow> idt_entry" where
  "idt_make_entry off =
     \<lparr>offset_1 = ucast (off AND 0xFFFF), selector = 0x08, ist = 0, type_attributes = IDT_DEFAULT_TYPE_ATTRIBUTES,
      offset_2 = ucast (drop_bit 16 off AND 0xFFFF), offset_3 = ucast (drop_bit 32 off AND 0xFFFFFFFF), idt_zero = 0\<rparr>"

definition idt_set_handler :: "u8 \<Rightarrow> u64 \<Rightarrow> idt_entry list \<Rightarrow> idt_entry list outcome" where
  "idt_set_handler vector handler idt = wr idt (unat vector) (idt_make_entry handler)"

text \<open>\<open>available_vector\<close>, a byte, is the last vector handed out.\<close>

definition idt_get_available_vector :: "u8 \<Rightarrow> (u8 \<times> u8) outcome" where
  "idt_get_available_vector available_vector =
     (let v = available_vector + 1 in if v = 0 then Faults Panic else Returns (v, v))"

fun get_vectors :: "nat \<Rightarrow> u8 \<Rightarrow> (u8 list \<times> u8) outcome" where
  "get_vectors 0 av = Returns ([], av)"
| "get_vectors (Suc n) av =
     obind (idt_get_available_vector av) (\<lambda>(v, av). omap (\<lambda>(vs, av). (v # vs, av)) (get_vectors n av))"

section \<open>What the CPU reads\<close>

text \<open>
  Base and limit of a segment: with the granularity bit the limit counts pages of 4096 bytes.
\<close>

definition seg_base :: "gdt_entry \<Rightarrow> u64" where
  "seg_base e = ucast (base_low e) OR push_bit 16 (ucast (base_mid e)) OR push_bit 24 (ucast (base_high e))"

definition seg_limit :: "gdt_entry \<Rightarrow> u64" where
  "seg_limit e =
     (let l = ucast (limit_low e) OR push_bit 16 (ucast (granularity e AND 0xF))
      in if bit (granularity e) 7 then push_bit 12 l OR 0xFFF else l)"

definition tss_base :: "sys_seg_desc \<Rightarrow> u64" where
  "tss_base t = ucast (segment_base_low t) OR push_bit 16 (ucast (segment_base_mid t))
     OR push_bit 24 (ucast (segment_base_mid2 t)) OR push_bit 32 (ucast (segment_base_high t))"

definition gate_offset :: "idt_entry \<Rightarrow> u64" where
  "gate_offset e = ucast (offset_1 e) OR push_bit 16 (ucast (offset_2 e)) OR push_bit 32 (ucast (offset_3 e))"

definition gate_present :: "idt_entry \<Rightarrow> bool" where
  "gate_present e \<longleftrightarrow> bit (type_attributes e) 7"

text \<open>Fields cut out of a word and put together again.\<close>

lemma bit_field: "bit (ucast (drop_bit n w AND mask k) :: 'b::len word) j
    \<longleftrightarrow> j < LENGTH('b) \<and> j < k \<and> bit (w :: 'a::len word) (n + j)"
  by (auto simp: bit_simps dest: bit_imp_le_length)

lemma masks: "(0xF :: u64) = mask 4" "(0xFF :: u64) = mask 8" "(0xFFFF :: u64) = mask 16" "(0xFFFFFFFF :: u64) = mask 32"
    "(0xFFF :: u64) = mask 12" "(0xF :: u8) = mask 4"
  by (simp_all add: mask_eq_exp_minus_1)

text \<open>A field of \<open>m\<close> bits put back where it was cut out.\<close>

lemma bit_put_back:
  "bit (push_bit k (ucast (ucast (drop_bit k w AND mask m) :: 'b::len word) :: u64)) j
    \<longleftrightarrow> k \<le> j \<and> j < 64 \<and> j < k + LENGTH('b) \<and> j < k + m \<and> bit (w :: u64) j"
  by (auto simp: bit_push_bit_iff bit_ucast_iff bit_and_iff bit_mask_iff bit_drop_bit_eq)

lemma bit_put_back_0:
  "bit (ucast (ucast (w AND mask m) :: 'b::len word) :: u64) j
    \<longleftrightarrow> j < 64 \<and> j < LENGTH('b) \<and> j < m \<and> bit (w :: u64) j"
  using bit_put_back[of 0 w m j] by simp

lemma gate_offset_make: "gate_offset (idt_make_entry a) = a"
  unfolding gate_offset_def idt_make_entry_def idt_entry.simps masks
  by (rule bit_word_eqI) (auto simp: bit_or_iff bit_put_back bit_put_back_0)

lemma tss_base_put: "tss_base (put_tss a t) = a"
  unfolding tss_base_def put_tss_def sys_seg_desc.simps masks
  by (rule bit_word_eqI) (auto simp: bit_or_iff bit_put_back bit_put_back_0)

lemma high_bits_clear: "(b :: u64) < 2 ^ k \<Longrightarrow> k < 64 \<Longrightarrow> k \<le> j \<Longrightarrow> \<not> bit b j"
proof -
  assume "b < 2 ^ k" "k < 64" and j: "k \<le> j"
  moreover from this(2) have "(2 :: nat) ^ k < 2 ^ 64" by (rule power_strict_increasing) simp
  then have "unat ((2 :: u64) ^ k) = 2 ^ k"
    using unat_of_nat_small[of "2 ^ k", where ?'a = 64] by simp
  ultimately have "unat b < 2 ^ k" by (simp add: word_less_nat_alt)
  then have "take_bit k (unat b) = unat b" by (simp add: take_bit_nat_eq_self)
  then have "\<not> bit (unat b) j" using j by (metis bit_take_bit_iff not_le)
  then show ?thesis by (auto simp: bit_unsigned_iff dest: bit_imp_le_length)
qed

lemma put_tss_present: "segment_present (put_tss a t) = 1"
  by (simp add: put_tss_def)

lemma seg_base_make:
  assumes "b < 2 ^ 32" shows "seg_base (gdt_make_entry b l t) = b"
proof -
  have e: "seg_base (gdt_make_entry b l t) = ucast (ucast (b AND mask 16) :: u16)
      OR push_bit 16 (ucast (ucast (drop_bit 16 b AND mask 8) :: u8))
      OR push_bit 24 (ucast (ucast (drop_bit 24 b AND mask 8) :: u8))"
    by (simp add: seg_base_def gdt_make_entry_def Let_def masks split: prod.splits)
  show ?thesis
    unfolding e by (rule bit_word_eqI) (use high_bits_clear[OF assms] in \<open>auto simp: bit_or_iff bit_put_back bit_put_back_0 not_less\<close>)
qed


text \<open>The limit and the flags in the \<open>granularity\<close> byte do not disturb each other.\<close>

lemma gran_byte:
  fixes n :: u8
  assumes "f AND 0xF = 0" "bit f 7"
  shows "(f OR (n AND 0xF)) AND 0xF = n AND 0xF" "bit (f OR (n AND 0xF)) 7"
proof -
  have "(f OR (n AND 0xF)) AND 0xF = (f AND 0xF) OR (n AND 0xF)"
    by (rule bit_word_eqI) (auto simp: bit_or_iff bit_and_iff)
  then show "(f OR (n AND 0xF)) AND 0xF = n AND 0xF" using assms(1) by simp
  show "bit (f OR (n AND 0xF)) 7" using assms(2) by (simp add: bit_or_iff)
qed

lemma seg_limit_at:
  assumes g: "granularity e = f OR (ucast (drop_bit 16 x AND mask 4) :: u8)" "f AND 0xF = 0" "bit f 7"
    and lo: "limit_low e = ucast (x AND mask 16)" and x: "x < 2 ^ 20"
  shows "seg_limit e = push_bit 12 x OR 0xFFF"
proof -
  let ?n = "ucast (drop_bit 16 x AND mask 4) :: u8"
  have n: "?n AND 0xF = ?n"
    unfolding masks(6) by (rule bit_word_eqI) (auto simp: bit_simps dest: bit_imp_le_length)
  have top: "bit x j \<Longrightarrow> j < 20" for j using high_bits_clear[OF x] by (cases "j < 20") auto
  have "ucast (ucast (x AND mask 16) :: u16) OR push_bit 16 (ucast ?n) = x"
    by (rule bit_word_eqI) (auto simp: bit_or_iff bit_put_back bit_put_back_0 not_less dest: top)
  moreover have "granularity e AND 0xF = ?n" "bit (granularity e) 7"
    using gran_byte[OF g(2,3), of ?n] n g(1) by simp_all
  ultimately show ?thesis by (simp add: seg_limit_def lo)
qed

lemma limit_bits: "(l :: u64) < 2 ^ 32 \<Longrightarrow> push_bit 12 (drop_bit 12 l) OR 0xFFF = l OR 0xFFF"
  unfolding masks by (rule bit_word_eqI) (auto simp: bit_simps)

lemma seg_limit_make:
  assumes "l < 2 ^ 32"
  shows "seg_limit (gdt_make_entry b l t) = (if l > 65536 then l OR 0xFFF else push_bit 12 l OR 0xFFF)"
proof (cases "l > 65536")
  case True
  have "drop_bit 12 l < 2 ^ 20"
    using assms by (simp add: word_less_nat_alt unat_drop_bit_eq drop_bit_eq_div unat_div less_mult_imp_div_less)
  then have "seg_limit (gdt_make_entry b l t) = push_bit 12 (drop_bit 12 l) OR 0xFFF"
    by (intro seg_limit_at[where f = "0xA0"]) (simp_all add: True gdt_make_entry_def masks(1-5))
  then show ?thesis using True limit_bits[OF assms] by simp
next
  case False
  then have "l < 2 ^ 20" by (simp add: word_less_nat_alt word_le_nat_alt not_less)
  then have "seg_limit (gdt_make_entry b l t) = push_bit 12 l OR 0xFFF"
    by (intro seg_limit_at[where f = "0x80"]) (simp_all add: False gdt_make_entry_def masks(1-5))
  then show ?thesis using False by simp
qed


section \<open>Properties\<close>

lemma get_vectors_run:
  "unat av + n \<le> 255 \<Longrightarrow> get_vectors n av = Returns (map of_nat [Suc (unat av)..<Suc (unat av + n)], of_nat (unat av + n))"
proof (induction n arbitrary: av)
  case (Suc n)
  then have s: "unat (av + 1) = Suc (unat av)" by (simp add: unat_word_ariths)
  then have "av + 1 \<noteq> 0" by (metis nat.distinct(1) unat_0)
  then show ?case
    using Suc.IH[of "av + 1"] Suc.prems s
    by (simp add: idt_get_available_vector_def Let_def upt_conv_Cons del: upt_Suc)
qed simp

text \<open>
  The vectors handed out by \<open>idt_get_available_vector\<close>, from the 80 it starts with: the first 175
  calls give 81, 82, ... 255, each once and none a vector of an exception or of the interrupt
  controllers, and the call after them panics instead of wrapping round to vector 0.
\<close>

theorem vectors_run_out:
  "get_vectors 175 80 = Returns (map of_nat [81..<256], 255) \<and> idt_get_available_vector 255 = Faults Panic"
  using get_vectors_run[of 80 175] by (simp add: idt_get_available_vector_def)

lemma gdt_install_tss_in:
  "r < length (gdt_list g) \<Longrightarrow> gdt_install_tss r a g
    = Returns (g\<lparr>gdt_list := (gdt_list g)[r := (gdt_list g ! r)\<lparr>gdt_tss := put_tss a (gdt_tss (gdt_list g ! r))\<rparr>]\<rparr>)"
  by (simp add: gdt_install_tss_def)

text \<open>
  C38: Descriptors of a CPU: \<open>gdt_init\<close> for the next CPU and then \<open>gdt_install_tss\<close> with the address of
  its task state segment leave a table whose four segments are based at 0 and reach to 4 GiB, whose
  task segment is present and decodes to exactly that address, with all 64 bits, and leave the tables
  of the other CPUs alone; for a CPU beyond \<open>CPU_MAX\<close> the table would lie outside the array.
\<close>

theorem gdt_per_cpu:
  "\<forall>g a. length (gdt_list g) = CPU_MAX \<longrightarrow>
    (case obind (gdt_init g) (\<lambda>(r, g). gdt_install_tss r a g) of
       Returns g' \<Rightarrow> gdt_num g < CPU_MAX \<and> gdt_num g' = gdt_num g + 1
         \<and> tss_base (gdt_tss (gdt_list g' ! gdt_num g)) = a \<and> segment_present (gdt_tss (gdt_list g' ! gdt_num g)) = 1
         \<and> list_all (\<lambda>e. seg_base e = 0 \<and> seg_limit e = 0xFFFFFFFF)
             (map (\<lambda>seg. seg (gdt_list g' ! gdt_num g)) [kcode, kdata, ucode, udata])
         \<and> (\<forall>r. r \<noteq> gdt_num g \<longrightarrow> gdt_list g' ! r = gdt_list g ! r)
     | Faults e \<Rightarrow> \<not> gdt_num g < CPU_MAX \<and> e = OutOfBounds
     | Diverges \<Rightarrow> False)"
proof (intro allI impI)
  fix g :: gdts and a
  assume len: "length (gdt_list g) = CPU_MAX"
  show "case obind (gdt_init g) (\<lambda>(r, g). gdt_install_tss r a g) of
       Returns g' \<Rightarrow> gdt_num g < CPU_MAX \<and> gdt_num g' = gdt_num g + 1
         \<and> tss_base (gdt_tss (gdt_list g' ! gdt_num g)) = a \<and> segment_present (gdt_tss (gdt_list g' ! gdt_num g)) = 1
         \<and> list_all (\<lambda>e. seg_base e = 0 \<and> seg_limit e = 0xFFFFFFFF)
             (map (\<lambda>seg. seg (gdt_list g' ! gdt_num g)) [kcode, kdata, ucode, udata])
         \<and> (\<forall>r. r \<noteq> gdt_num g \<longrightarrow> gdt_list g' ! r = gdt_list g ! r)
     | Faults e \<Rightarrow> \<not> gdt_num g < CPU_MAX \<and> e = OutOfBounds
     | Diverges \<Rightarrow> False"
  proof (cases "gdt_num g < CPU_MAX")
    case True
    have seg: "seg_base (gdt_make_entry 0 0xFFFFFFFF t) = 0" "seg_limit (gdt_make_entry 0 0xFFFFFFFF t) = 0xFFFFFFFF" for t
      using seg_base_make[of 0 "0xFFFFFFFF" t] seg_limit_make[of "0xFFFFFFFF" 0 t] by simp_all
    show ?thesis
      using True len by (simp add: gdt_init_def gdt_install_tss_in tss_base_put kernel_gdt_def seg put_tss_present)
  next
    case False
    then show ?thesis using len by (simp add: gdt_init_def)
  qed
qed

text \<open>The bound of the hypothesis is that of the array itself.\<close>

theorem gdt_per_cpu_witness:
  "case obind (gdt_init gdts_start) (\<lambda>(r, g). gdt_install_tss r 0xFFFF800012345678 g) of
     Returns g' \<Rightarrow> tss_base (gdt_tss (gdt_list g' ! 0)) = 0xFFFF800012345678 | Faults e \<Rightarrow> False | Diverges \<Rightarrow> False"
proof -
  have "length (gdt_list gdts_start) = CPU_MAX" "gdt_num gdts_start = 0" by (simp_all add: gdts_start_def)
  then show ?thesis
    using gdt_per_cpu[rule_format, of gdts_start "0xFFFF800012345678"] by (auto simp: CPU_MAX_def split: outcome.splits)
qed

text \<open>
  Segment limits: for a limit below 4 GiB the entry of \<open>gdt_make_entry\<close> has the granularity bit set
  on both branches, so that the CPU reads the limit asked for (filled up to the end of its page) only
  when it is above 65536; a smaller limit, stored in bytes, is read as a number of pages.
\<close>

theorem seg_limit_scaled:
  "l < 2 ^ 32 \<Longrightarrow> seg_limit (gdt_make_entry b l t) = (if l > 65536 then l OR 0xFFF else push_bit 12 l OR 0xFFF)"
  by (rule seg_limit_make)

theorem seg_limit_scaled_witness: "seg_limit (gdt_make_entry 0 0xFFF 0x92) = 0xFFFFFF"
  using seg_limit_scaled[of "0xFFF" 0 "0x92"] by simp

end
