(* ===== verification/Interrupts.thy ===== *)
theory Interrupts
  imports Descriptors Ports
begin

text \<open>
  Interrupts (\<open>core/idt.c\<close>, \<open>isr.c\<close>, \<open>isr_base.h\<close>): the set-up of the two 8259 interrupt controllers and of
  the gates, the interrupt masks, and the common handler. The entry points of \<open>isr_base.s\<close> are
  assembly: their addresses are parameters. The controllers are ports; the second half of the theory has
  a pair of 8259s behind them, as its data sheet has it.
\<close>

section \<open>The code\<close>

definition PIC1 :: u16 where "PIC1 = 0x20"
definition PIC2 :: u16 where "PIC2 = 0xA0"
definition PIC1_DATA :: u16 where "PIC1_DATA = PIC1 + 1"
definition PIC2_DATA :: u16 where "PIC2_DATA = PIC2 + 1"
definition PIC_EOI :: u8 where "PIC_EOI = 0x20"
definition IRQ0 :: nat where "IRQ0 = 32"

definition irq_port :: "u8 \<Rightarrow> u16 \<times> u8" where
  "irq_port line = (if line < 8 then (PIC1_DATA, line) else (PIC2_DATA, line - 8))"

definition irq_set_mask :: "('d, 'm) byte_ports_scheme \<Rightarrow> u8 \<Rightarrow> 'd \<Rightarrow> 'd" where
  "irq_set_mask P line d =
     (let (port, line) = irq_port line; (value, d) = inb P port d
      in outb P port (value OR push_bit (unat line) 1) d)"

definition irq_clear_mask :: "('d, 'm) byte_ports_scheme \<Rightarrow> u8 \<Rightarrow> 'd \<Rightarrow> 'd" where
  "irq_clear_mask P line d =
     (let (port, line) = irq_port line; (value, d) = inb P port d
      in outb P port (value AND NOT (push_bit (unat line) 1)) d)"

definition pic_init :: "('d, 'm) byte_ports_scheme \<Rightarrow> 'd \<Rightarrow> 'd" where
  "pic_init P d =
     fold (\<lambda>(port, v). outb P port v)
       [(PIC1, 0x11), (PIC2, 0x11), (PIC1_DATA, of_nat IRQ0), (PIC2_DATA, of_nat (IRQ0 + 8)), (PIC1_DATA, 0x04),
        (PIC2_DATA, 0x02), (PIC1_DATA, 0x01), (PIC2_DATA, 0x01), (PIC1_DATA, 0xFF), (PIC2_DATA, 0xFF)] d"

text \<open>The exceptions and the interrupt lines that have an entry point in \<open>isr_base.s\<close>.\<close>

definition exc_numbers :: "nat list" where
  "exc_numbers = [0, 1, 2, 3, 4, 5, 6, 7, 8, 10, 11, 12, 13, 14, 16, 17, 18, 19, 20, 30]"

definition irq_numbers :: "nat list" where
  "irq_numbers = [0, 1, 2, 3, 4, 5, 6, 7, 8, 9, 10, 11, 12]"

definition idt_gates :: "(nat \<Rightarrow> u64) \<Rightarrow> (nat \<Rightarrow> u64) \<Rightarrow> idt_entry list" where
  "idt_gates exc irq =
     fold (\<lambda>(i, a) idt. idt[i := idt_make_entry a])
       (map (\<lambda>n. (n, exc n)) exc_numbers @ map (\<lambda>n. (32 + n, irq n)) irq_numbers)
       (replicate IDT_ENTRIES zero_gate)"

definition idt_init :: "('d, 'm) byte_ports_scheme \<Rightarrow> (nat \<Rightarrow> u64) \<Rightarrow> (nat \<Rightarrow> u64) \<Rightarrow> 'd \<Rightarrow> idt_entry list \<times> 'd" where
  "idt_init P exc irq d = (let d = pic_init P d in (idt_gates exc irq, d))"

text \<open>
  Handlers act on the device state as well. \<open>exceptions\<close> names the first 45 exceptions (\<open>None\<close> is a null
  pointer); the panic message reads the name of the exception before \<open>kpanic\<close> is called.
\<close>

type_synonym 'd exc_handler = "'d \<Rightarrow> 'd outcome"

definition exceptions :: "string option list" where
  "exceptions = [
     Some ''Division by Zero'', Some ''Debug'', Some ''Non Maskable Interrupt'', Some ''Breakpoint'',
     Some ''Overflow'', Some ''Bound Range Exceeded'', Some ''Invalid opcode'', Some ''Device Not Available'',
     Some ''Double Fault'', None, Some ''Invalid TSS'', Some ''Segment Not Present'', Some ''Stack Exception'',
     Some ''General Protection Fault'', Some ''Page Fault'', None, Some ''x87 Floating Point Exception'',
     Some ''Alignment Check'', Some ''Machine Check'', Some ''SIMD Floating Point Exception'',
     Some ''Virtualization Exception'', None, None, None, None, None, None, None, None, None,
     Some ''Security Exception'', None, Some ''Reserved'', Some ''Reserved'', Some ''Reserved'',
     Some ''Reserved'', Some ''Reserved'', Some ''Reserved'', Some ''Reserved'', Some ''Reserved'',
     Some ''Reserved'', Some ''Reserved'', Some ''Reserved'', Some ''Reserved'', Some ''Reserved'']"

definition exceptions_len :: nat where "exceptions_len = length exceptions"

definition exc_register_handler :: "u64 \<Rightarrow> 'd exc_handler \<Rightarrow> 'd exc_handler option list \<Rightarrow> 'd exc_handler option list outcome" where
  "exc_register_handler n handler handlers = wr handlers (unat n) (Some handler)"

definition send_eoi :: "('d, 'm) byte_ports_scheme \<Rightarrow> u64 \<Rightarrow> 'd \<Rightarrow> 'd" where
  "send_eoi P excno d =
     (if excno \<ge> of_nat (IRQ0 + 8) then outb P PIC2 PIC_EOI (outb P PIC1 PIC_EOI d) else outb P PIC1 PIC_EOI d)"

definition exc_handler_proc ::
  "('d, 'm) byte_ports_scheme \<Rightarrow> 'd exc_handler option list \<Rightarrow> u64 \<Rightarrow> u64 \<Rightarrow> 'd \<Rightarrow> 'd outcome" where
  "exc_handler_proc P handlers errcode excno d =
     obind (rd handlers (unat excno)) (\<lambda>h.
       case h of Some handler \<Rightarrow> omap (send_eoi P excno) (handler d)
       | None \<Rightarrow> Faults (if unat excno < exceptions_len then Panic else OutOfBounds))"

section \<open>A pair of 8259s\<close>

text \<open>
  \<open>icw\<close> is the initialisation word the chip waits for at its data port (0: none, the chip is
  operating); \<open>isr_bits\<close> are the lines in service.
\<close>

record pic =
  icw :: nat
  vec_base :: u8
  imr :: u8
  isr_bits :: u8

record pic_pair =
  pic1 :: pic
  pic2 :: pic

text \<open>The end-of-interrupt command without a level ends the line of highest priority in service.\<close>

definition lowest_bit :: "u8 \<Rightarrow> nat option" where
  "lowest_bit b = List.find (bit b) [0..<8]"

definition pic_eoi :: "pic \<Rightarrow> pic" where
  "pic_eoi p = (case lowest_bit (isr_bits p) of None \<Rightarrow> p | Some n \<Rightarrow> p\<lparr>isr_bits := unset_bit n (isr_bits p)\<rparr>)"

definition pic_command :: "u8 \<Rightarrow> pic \<Rightarrow> pic" where
  "pic_command b p =
     (if bit b 4 then p\<lparr>icw := 2, imr := 0, isr_bits := 0\<rparr>
      else if b = 0x20 then pic_eoi p else p)"

definition pic_data :: "u8 \<Rightarrow> pic \<Rightarrow> pic" where
  "pic_data b p =
     (if icw p = 2 then p\<lparr>icw := 3, vec_base := b AND 0xF8\<rparr>
      else if icw p = 3 then p\<lparr>icw := 4\<rparr>
      else if icw p = 4 then p\<lparr>icw := 0\<rparr>
      else p\<lparr>imr := b\<rparr>)"

definition pic_ports :: "pic_pair byte_ports" where
  "pic_ports =
     \<lparr>outb = (\<lambda>port b d. if port = 0x20 then pic1_update (pic_command b) d else if port = 0x21 then pic1_update (pic_data b) d
        else if port = 0xA0 then pic2_update (pic_command b) d else if port = 0xA1 then pic2_update (pic_data b) d else d),
      inb = (\<lambda>port d. (if port = 0x21 then imr (pic1 d) else if port = 0xA1 then imr (pic2 d) else 0, d))\<rparr>"

definition masked :: "nat \<Rightarrow> pic_pair \<Rightarrow> bool" where
  "masked line d \<longleftrightarrow> (if line < 8 then bit (imr (pic1 d)) line else bit (imr (pic2 d)) (line - 8))"

text \<open>
  A line of a chip is taken if it is not masked and no line of higher or equal priority is in service.
  The lines of the second chip come through line 2 of the first.
\<close>

definition pic_takes :: "pic \<Rightarrow> nat \<Rightarrow> bool" where
  "pic_takes p n \<longleftrightarrow> icw p = 0 \<and> \<not> bit (imr p) n \<and> isr_bits p AND mask (n + 1) = 0"

definition into_service :: "nat \<Rightarrow> pic \<Rightarrow> pic" where
  "into_service n p = p\<lparr>isr_bits := set_bit n (isr_bits p)\<rparr>"

definition raise_irq :: "nat \<Rightarrow> pic_pair \<Rightarrow> (u8 \<times> pic_pair) option" where
  "raise_irq line d =
     (if line < 8 then
        if pic_takes (pic1 d) line then Some (vec_base (pic1 d) + of_nat line, pic1_update (into_service line) d) else None
      else if pic_takes (pic1 d) 2 \<and> pic_takes (pic2 d) (line - 8)
        then Some (vec_base (pic2 d) + of_nat (line - 8), pic2_update (into_service (line - 8)) (pic1_update (into_service 2) d))
      else None)"

section \<open>Masks\<close>

lemma imr_after:
  assumes "icw (pic1 d) = 0" "icw (pic2 d) = 0"
  shows "line < 8 \<Longrightarrow> irq_set_mask pic_ports line d = pic1_update (imr_update (\<lambda>v. v OR push_bit (unat line) 1)) d"
    "\<not> line < 8 \<Longrightarrow> irq_set_mask pic_ports line d = pic2_update (imr_update (\<lambda>v. v OR push_bit (unat (line - 8)) 1)) d"
    "line < 8 \<Longrightarrow> irq_clear_mask pic_ports line d = pic1_update (imr_update (\<lambda>v. v AND NOT (push_bit (unat line) 1))) d"
    "\<not> line < 8 \<Longrightarrow> irq_clear_mask pic_ports line d
      = pic2_update (imr_update (\<lambda>v. v AND NOT (push_bit (unat (line - 8)) 1))) d"
  using assms
  by (simp_all add: irq_set_mask_def irq_clear_mask_def irq_port_def PIC1_DATA_def PIC2_DATA_def PIC1_def PIC2_def
      pic_ports_def pic_data_def)

lemma masked_set:
  assumes "icw (pic1 d) = 0" "icw (pic2 d) = 0" "unat line < 16" "n < 16"
  shows "masked n (irq_set_mask pic_ports line d) \<longleftrightarrow> n = unat line \<or> masked n d"
proof (cases "line < 8")
  case True
  then show ?thesis using assms
    by (auto simp: imr_after masked_def bit_simps word_less_nat_alt)
next
  case False
  then have "unat (line - 8) = unat line - 8" by (simp add: unat_sub word_le_nat_alt not_less)
  then show ?thesis using assms False
    by (auto simp: imr_after masked_def bit_simps word_less_nat_alt)
qed

lemma masked_clear:
  assumes "icw (pic1 d) = 0" "icw (pic2 d) = 0" "unat line < 16" "n < 16"
  shows "masked n (irq_clear_mask pic_ports line d) \<longleftrightarrow> n \<noteq> unat line \<and> masked n d"
proof (cases "line < 8")
  case True
  then show ?thesis using assms
    by (auto simp: imr_after masked_def bit_simps word_less_nat_alt)
next
  case False
  then have "unat (line - 8) = unat line - 8" by (simp add: unat_sub word_le_nat_alt not_less)
  then show ?thesis using assms False
    by (auto simp: imr_after masked_def bit_simps word_less_nat_alt)
qed

section \<open>Set-up, delivery and end of an interrupt\<close>

lemma pic_init_ports:
  "pic_init pic_ports d = \<lparr>pic1 = \<lparr>icw = 0, vec_base = 0x20, imr = 0xFF, isr_bits = 0\<rparr>,
                           pic2 = \<lparr>icw = 0, vec_base = 0x28, imr = 0xFF, isr_bits = 0\<rparr>\<rparr>"
  by (simp add: pic_init_def pic_ports_def pic_command_def pic_data_def PIC1_def PIC2_def PIC1_DATA_def PIC2_DATA_def
      IRQ0_def bit_simps)

lemma fold_updates_other:
  "k \<notin> set (map fst kvs) \<Longrightarrow> fold (\<lambda>(i, a) xs. xs[i := f a]) kvs xs ! k = xs ! k"
  by (induction kvs arbitrary: xs) auto

lemma fold_updates:
  "distinct (map fst kvs) \<Longrightarrow> (k, v) \<in> set kvs \<Longrightarrow> k < length xs \<Longrightarrow> fold (\<lambda>(i, a) xs. xs[i := f a]) kvs xs ! k = f v"
proof (induction kvs arbitrary: xs)
  case (Cons kv kvs)
  show ?case
  proof (cases "kv = (k, v)")
    case True
    then show ?thesis using Cons.prems by (simp add: fold_updates_other)
  next
    case False
    then have "(k, v) \<in> set kvs" using Cons.prems(2) by auto
    then show ?thesis using Cons.IH[of "xs[fst kv := f (snd kv)]"] Cons.prems by (simp add: case_prod_unfold)
  qed
qed simp

lemma gate_of:
  "n \<in> set exc_numbers \<Longrightarrow> idt_gates exc irq ! n = idt_make_entry (exc n)"
  "n \<in> set irq_numbers \<Longrightarrow> idt_gates exc irq ! (32 + n) = idt_make_entry (irq n)"
  "k \<notin> set exc_numbers \<union> (\<lambda>n. 32 + n) ` set irq_numbers \<Longrightarrow> k < IDT_ENTRIES \<Longrightarrow> idt_gates exc irq ! k = zero_gate"
proof -
  let ?kvs = "map (\<lambda>n. (n, exc n)) exc_numbers @ map (\<lambda>n. (32 + n, irq n)) irq_numbers"
  have d: "distinct (map fst ?kvs)" by (simp add: exc_numbers_def irq_numbers_def)
  have b: "\<forall>n \<in> set exc_numbers. n < 256" "\<forall>n \<in> set irq_numbers. 32 + n < 256"
    by (simp_all add: exc_numbers_def irq_numbers_def)
  show "n \<in> set exc_numbers \<Longrightarrow> idt_gates exc irq ! n = idt_make_entry (exc n)"
    unfolding idt_gates_def by (rule fold_updates[OF d]) (use b in \<open>auto simp: IDT_ENTRIES_def\<close>)
  show "n \<in> set irq_numbers \<Longrightarrow> idt_gates exc irq ! (32 + n) = idt_make_entry (irq n)"
    unfolding idt_gates_def by (rule fold_updates[OF d]) (use b in \<open>auto simp: IDT_ENTRIES_def\<close>)
  assume k: "k \<notin> set exc_numbers \<union> (\<lambda>n. 32 + n) ` set irq_numbers" "k < IDT_ENTRIES"
  then have "k \<notin> set (map fst ?kvs)" by (auto simp: comp_def)
  then show "idt_gates exc irq ! k = zero_gate"
    unfolding idt_gates_def using k(2) by (subst fold_updates_other) simp_all
qed

text \<open>The controllers with no line in service, and what it takes for the end-of-interrupt to undo a delivery.\<close>

definition pics_idle :: "pic_pair \<Rightarrow> bool" where
  "pics_idle d \<longleftrightarrow> icw (pic1 d) = 0 \<and> icw (pic2 d) = 0 \<and> isr_bits (pic1 d) = 0 \<and> isr_bits (pic2 d) = 0
     \<and> vec_base (pic1 d) = 0x20 \<and> vec_base (pic2 d) = 0x28"

definition reaches :: "nat \<Rightarrow> pic_pair \<Rightarrow> bool" where
  "reaches line d \<longleftrightarrow> \<not> masked line d \<and> (8 \<le> line \<longrightarrow> \<not> masked 2 d)"

lemma eoi_into_service:
  assumes "n < 8" "isr_bits p = 0" shows "pic_eoi (into_service n p) = p"
proof -
  have nth: "[0..<8] ! j = j" if "j < 8" for j using nth_upt[of 0 j 8] that by simp
  have find: "List.find (bit (set_bit n (0 :: u8))) [0..<8] = Some n"
    unfolding find_Some_iff using assms(1) by (intro exI[of _ n]) (simp add: nth bit_simps)
  have "unset_bit n (set_bit n (0 :: u8)) = 0" by (rule bit_word_eqI) (simp add: bit_simps)
  then show ?thesis using find assms(2) by (simp add: pic_eoi_def lowest_bit_def into_service_def)
qed

lemma raise_idle:
  assumes "pics_idle d" "line < 16"
  shows "raise_irq line d = (if reaches line d then
      Some (of_nat (32 + line), if line < 8 then pic1_update (into_service line) d
                                else pic2_update (into_service (line - 8)) (pic1_update (into_service 2) d)) else None)"
proof -
  have v: "(0x28 :: u8) + of_nat (line - 8) = 0x20 + of_nat line" if "8 \<le> line"
  proof -
    have "(0x28 :: u8) = 0x20 + of_nat 8" by simp
    then show ?thesis using that by (simp only: add.assoc flip: of_nat_add) simp
  qed
  show ?thesis
    using assms v by (auto simp: raise_irq_def reaches_def masked_def pics_idle_def pic_takes_def)
qed

lemma proc_ends:
  assumes idle: "pics_idle d" and line: "line < 16" and h: "256 \<le> length hs" "hs ! (32 + line) = Some Returns"
    and raise: "raise_irq line d = Some (v, d')"
  shows "exc_handler_proc pic_ports hs 0 (of_nat (32 + line)) d' = Returns d"
proof -
  have u: "unat (of_nat (32 + line) :: u64) = 32 + line" using line by (subst unat_of_nat_small) simp_all
  have d': "d' = (if line < 8 then pic1_update (into_service line) d
      else pic2_update (into_service (line - 8)) (pic1_update (into_service 2) d))"
    using raise raise_idle[OF idle line] by (simp split: if_splits)
  have ge: "(of_nat (32 + line) :: u64) \<ge> of_nat (IRQ0 + 8) \<longleftrightarrow> 8 \<le> line"
    using u by (simp add: word_le_nat_alt IRQ0_def)
  have e: "exc_handler_proc pic_ports hs 0 (of_nat (32 + line)) d' = Returns (send_eoi pic_ports (of_nat (32 + line)) d')"
    unfolding exc_handler_proc_def u using h line by simp
  have "send_eoi pic_ports (of_nat (32 + line)) d' = d"
    unfolding send_eoi_def ge d' using idle line
    by (auto simp: pic_ports_def PIC1_def PIC2_def PIC_EOI_def pic_command_def bit_simps eoi_into_service pics_idle_def)
  then show ?thesis using e by simp
qed

lemma idle_after_clear:
  "pics_idle d \<Longrightarrow> pics_idle (irq_clear_mask pic_ports line d)"
  by (cases "line < 8") (simp_all add: pics_idle_def imr_after)

text \<open>Unmasking a line the way the drivers do: for a line of the second chip, line 2 as well.\<close>

definition unmask :: "nat \<Rightarrow> pic_pair \<Rightarrow> pic_pair" where
  "unmask line d =
     irq_clear_mask pic_ports (of_nat line) (if 8 \<le> line then irq_clear_mask pic_ports 2 d else d)"

lemma idle_unmask: "pics_idle d \<Longrightarrow> pics_idle (unmask line d)"
  by (simp add: unmask_def idle_after_clear)

lemma masked_unmask:
  assumes "pics_idle d" "line < 16" "n < 16"
  shows "masked n (unmask line d) \<longleftrightarrow> masked n d \<and> n \<noteq> line \<and> \<not> (8 \<le> line \<and> n = 2)"
proof -
  have u: "unat (of_nat line :: u8) = line" using assms(2) by (subst unat_of_nat_small) simp_all
  have icw: "icw (pic1 e) = 0" "icw (pic2 e) = 0" if "pics_idle e" for e using that by (simp_all add: pics_idle_def)
  have c: "masked n (irq_clear_mask pic_ports 2 d) \<longleftrightarrow> n \<noteq> 2 \<and> masked n d"
    using masked_clear[of d 2 n] icw assms by simp
  have "masked n (irq_clear_mask pic_ports (of_nat line) e) \<longleftrightarrow> n \<noteq> line \<and> masked n e" if "pics_idle e" for e
    using masked_clear[of e "of_nat line" n] icw[OF that] assms u by simp
  then show ?thesis using assms(1) c idle_after_clear[OF assms(1)] by (auto simp: unmask_def)
qed

lemma raise_unmasked:
  assumes "pics_idle d" "line < 16"
  shows "\<exists>d'. raise_irq line (unmask line d) = Some (of_nat (32 + line), d')"
proof -
  have "reaches line (unmask line d)"
    using masked_unmask[OF assms assms(2)] masked_unmask[OF assms, of 2] by (auto simp: reaches_def)
  then show ?thesis using raise_idle[OF idle_unmask[OF assms(1)] assms(2)] by simp
qed

lemma masked_start: "n < 16 \<Longrightarrow> masked n (pic_init pic_ports d)"
proof -
  assume n: "n < 16"
  have "bit (0xFF :: u8) k" if "k < 8" for k
  proof -
    have "(0xFF :: u8) = mask 8" by (simp add: mask_eq_exp_minus_1)
    then show ?thesis using that by (simp only: bit_mask_iff) simp
  qed
  then show ?thesis using n by (auto simp: pic_init_ports masked_def)
qed

text \<open>
  C12: From \<open>idt_init\<close> to the end of an interrupt, on a pair of 8259s in any state. After \<open>idt_init\<close> no
  line gets through. Once the mask of a line up to 12 is cleared (and that of line 2, for a line of the
  second chip), a request on it is delivered with vector 32 + line, whose gate is present and leads to the
  entry point of that line; while it is in service the same line does not interrupt again; and when the
  registered handler returns, \<open>exc_handler_proc\<close> has ended exactly that service: the controllers are as
  they were before the request.
\<close>

theorem irq_delivery:
  "\<forall>d0 exc irq line hs.
     let (idt, d1) = idt_init pic_ports exc irq d0 in
     (line < 16 \<longrightarrow> raise_irq line d1 = None)
     \<and> (line \<le> 12 \<longrightarrow>
        (\<exists>d3. raise_irq line (unmask line d1) = Some (of_nat (32 + line), d3)
            \<and> gate_present (idt ! (32 + line)) \<and> gate_offset (idt ! (32 + line)) = irq line
            \<and> raise_irq line d3 = None
            \<and> (256 \<le> length hs \<and> hs ! (32 + line) = Some Returns \<longrightarrow>
                exc_handler_proc pic_ports hs 0 (of_nat (32 + line)) d3 = Returns (unmask line d1))))"
  (is "\<forall>d0 exc irq line hs. ?P d0 exc irq line hs")
proof (intro allI)
  fix d0 exc irq line and hs :: "pic_pair exc_handler option list"
  let ?d1 = "pic_init pic_ports d0" and ?idt = "idt_gates exc irq"
  have idle: "pics_idle ?d1" by (simp add: pic_init_ports pics_idle_def)
  have none: "raise_irq line ?d1 = None" if "line < 16"
    using raise_idle[OF idle that] masked_start[OF that, of d0] by (simp add: reaches_def)
  have gate: "gate_present (?idt ! (32 + line))" "gate_offset (?idt ! (32 + line)) = irq line" if "line \<le> 12"
  proof -
    have "irq_numbers = [0..<13]" by (simp add: irq_numbers_def upt_rec)
    then have "line \<in> set irq_numbers" unfolding \<open>irq_numbers = _\<close> set_upt using that by simp
    then show "gate_present (?idt ! (32 + line))" "gate_offset (?idt ! (32 + line)) = irq line"
      by (simp_all add: gate_of gate_offset_make)
        (simp add: gate_present_def idt_make_entry_def IDT_DEFAULT_TYPE_ATTRIBUTES_def)
  qed
  have busy: "raise_irq line d3 = None" if l: "line \<le> 12" and r: "raise_irq line (unmask line ?d1) = Some (v, d3)" for d3 v
  proof -
    have l16: "line < 16" using l by simp
    have "d3 = (if line < 8 then pic1_update (into_service line) (unmask line ?d1)
        else pic2_update (into_service (line - 8)) (pic1_update (into_service 2) (unmask line ?d1)))"
      using r raise_idle[OF idle_unmask[OF idle] l16] by (simp split: if_splits)
    moreover have "set_bit n b AND mask (n + 1) \<noteq> 0" if "n < 8" for n and b :: u8
    proof
      assume "set_bit n b AND mask (n + 1) = 0"
      then have "bit (set_bit n b AND mask (n + 1)) n = bit (0 :: u8) n" by simp
      then show False using that by (simp add: bit_simps)
    qed
    ultimately show ?thesis using l16 by (auto simp: raise_irq_def pic_takes_def into_service_def)
  qed
  have deliver: "\<exists>d3. raise_irq line (unmask line ?d1) = Some (of_nat (32 + line), d3)
            \<and> gate_present (?idt ! (32 + line)) \<and> gate_offset (?idt ! (32 + line)) = irq line
            \<and> raise_irq line d3 = None
            \<and> (256 \<le> length hs \<and> hs ! (32 + line) = Some Returns \<longrightarrow>
                exc_handler_proc pic_ports hs 0 (of_nat (32 + line)) d3 = Returns (unmask line ?d1))" if l: "line \<le> 12"
  proof -
    have l16: "line < 16" using l by simp
    obtain d3 where r: "raise_irq line (unmask line ?d1) = Some (of_nat (32 + line), d3)"
      using raise_unmasked[OF idle l16] by blast
    then show ?thesis
      using gate[OF l] busy[OF l r] proc_ends[OF idle_unmask[OF idle] l16 _ _ r, of hs] by blast
  qed
  show "?P d0 exc irq line hs"
    unfolding idt_init_def Let_def prod.case using none deliver by blast
qed

definition pics_bios :: pic_pair where
  "pics_bios = \<lparr>pic1 = \<lparr>icw = 0, vec_base = 8, imr = 0, isr_bits = 1\<rparr>, pic2 = \<lparr>icw = 0, vec_base = 0x70, imr = 0, isr_bits = 0\<rparr>\<rparr>"

theorem irq_delivery_witness:
  "\<exists>d3. raise_irq 1 (unmask 1 (pic_init pic_ports pics_bios)) = Some (33, d3)
     \<and> exc_handler_proc pic_ports (replicate 256 (Some Returns)) 0 33 d3 = Returns (unmask 1 (pic_init pic_ports pics_bios))"
proof -
  let ?hs = "replicate 256 (Some Returns) :: pic_pair exc_handler option list"
  have h: "256 \<le> length ?hs" "?hs ! 33 = Some Returns" by simp_all
  have n: "(32 + 1 :: nat) = 33" "(of_nat 33 :: u8) = 33" "(of_nat 33 :: u64) = 33" "(1 :: nat) \<le> 12" by simp_all
  show ?thesis
    using irq_delivery[THEN spec[of _ pics_bios], THEN spec[of _ "\<lambda>n. 0"], THEN spec[of _ "\<lambda>n. 0"],
      THEN spec[of _ 1], THEN spec[of _ ?hs]] h n(4)
    unfolding idt_init_def Let_def prod.case n(1-3) by blast
qed

text \<open>
  An exception with a handler also sends an end-of-interrupt: a page fault with a handler, taken
  while a line of the first chip is in service, ends the service of that line before its own handler has
  returned, and a second request on the line gets through.
\<close>

theorem exception_ends_service:
  "\<forall>d line. pics_idle d \<and> line < 8 \<and> reaches line d \<longrightarrow>
     (\<exists>v d'. raise_irq line d = Some (v, d') \<and> exc_handler_proc pic_ports (replicate 256 (Some Returns)) 0 14 d' = Returns d)"
proof (intro allI impI)
  fix d line assume a: "pics_idle d \<and> line < 8 \<and> reaches line d"
  then have "raise_irq line d = Some (of_nat (32 + line), pic1_update (into_service line) d)"
    using raise_idle[of d line] by simp
  moreover have "exc_handler_proc pic_ports (replicate 256 (Some Returns)) 0 14 (pic1_update (into_service line) d) = Returns d"
    using a by (simp add: exc_handler_proc_def send_eoi_def IRQ0_def pic_ports_def PIC1_def PIC_EOI_def pic_command_def
        bit_simps eoi_into_service pics_idle_def)
  ultimately show "\<exists>v d'. raise_irq line d = Some (v, d')
      \<and> exc_handler_proc pic_ports (replicate 256 (Some Returns)) 0 14 d' = Returns d" by blast
qed

theorem exception_ends_service_witness:
  "\<exists>v d'. raise_irq 1 (unmask 1 (pic_init pic_ports undefined)) = Some (v, d')
     \<and> exc_handler_proc pic_ports (replicate 256 (Some Returns)) 0 14 d' = Returns (unmask 1 (pic_init pic_ports undefined))"
proof -
  have "pics_idle (pic_init pic_ports undefined)" by (simp add: pic_init_ports pics_idle_def)
  then show ?thesis
    using exception_ends_service[rule_format, of "unmask 1 (pic_init pic_ports undefined)" 1]
      idle_unmask[of _ 1] masked_unmask[of _ 1 1] by (simp add: reaches_def)
qed

end
