(* ===== verification/Acpi.thy ===== *)
theory Acpi
  imports Descriptors Pmm
begin

text \<open>
  The firmware's tables (\<open>core/acpi.c\<close>, \<open>madt.c\<close>): finding a table by its signature, and the walk over the
  records of the MADT that collects the local and the I/O APICs. The tables lie in a \<open>memory\<close>; a
  structure is read at the offsets of its packed C type, and a pointer is an address, 0 for \<open>NULL\<close>.
\<close>

section \<open>Finding a table\<close>

definition ld32 :: "memory \<Rightarrow> u64 \<Rightarrow> u32" where "ld32 m a = le_word (load m a 4)"

definition SDT_HDR_SIZE :: u64 where "SDT_HDR_SIZE = 36"
definition MADT_SIZE :: u64 where "MADT_SIZE = 44"

definition sdt_length :: "memory \<Rightarrow> u64 \<Rightarrow> u64" where "sdt_length m t = ucast (ld32 m (t + 4))"

record acpi_state =
  sdt :: u64
  use_xsdt :: bool

definition acpi_start :: acpi_state where "acpi_start = \<lparr>sdt = 0, use_xsdt = False\<rparr>"

text \<open>The \<open>i\<close>th table that the root table lists.\<close>

definition sdt_entry :: "memory \<Rightarrow> acpi_state \<Rightarrow> u64 \<Rightarrow> u64" where
  "sdt_entry m a i =
     PHYS_TO_VIRT (if use_xsdt a then ld64 m (sdt a + SDT_HDR_SIZE + 8 * i)
                   else ucast (ld32 m (sdt a + SDT_HDR_SIZE + 4 * i)))"

definition sdt_len :: "memory \<Rightarrow> acpi_state \<Rightarrow> u64" where
  "sdt_len m a = (sdt_length m (sdt a) - SDT_HDR_SIZE) div (if use_xsdt a then 8 else 4)"

definition acpi_get_sdt :: "memory \<Rightarrow> acpi_state \<Rightarrow> u8 list \<Rightarrow> u64 outcome" where
  "acpi_get_sdt m a sign =
     (if sdt a = 0 then Faults NullDeref
      else omap (\<lambda>c. case c of Inl _ \<Rightarrow> 0 | Inr table \<Rightarrow> table)
        (for_u64 0 (sdt_len m a) 1
           (\<lambda>i s. let table = sdt_entry m a i in
              Returns (if load m table (length sign) = sign then Inr table else Inl s)) ()))"

text \<open>The four letters of \<open>APIC\<close> and of \<open>HPET\<close>.\<close>

definition sign_hpet :: "u8 list" where "sign_hpet = [0x48, 0x50, 0x45, 0x54]"
definition sign_apic :: "u8 list" where "sign_apic = [0x41, 0x50, 0x49, 0x43]"

section \<open>The MADT\<close>

record madt_state =
  madt :: u64
  num_lapic :: nat
  lapics :: "u64 list"
  num_ioapic :: nat
  io_apics :: "u64 list"

definition madt_start :: madt_state where
  "madt_start = \<lparr>madt = 0, num_lapic = 0, lapics = replicate CPU_MAX 0, num_ioapic = 0, io_apics = replicate 4 0\<rparr>"

definition madt_record :: "memory \<Rightarrow> u64 \<Rightarrow> madt_state \<Rightarrow> madt_state outcome" where
  "madt_record m rec s =
     (if m rec = 0 then
        if num_lapic s \<ge> CPU_MAX then Returns s
        else omap (\<lambda>l. s\<lparr>lapics := l, num_lapic := num_lapic s + 1\<rparr>) (wr (lapics s) (num_lapic s) rec)
      else if m rec = 1 then
        if num_ioapic s > 2 then Returns s
        else omap (\<lambda>l. s\<lparr>io_apics := l, num_ioapic := num_ioapic s + 1\<rparr>) (wr (io_apics s) (num_ioapic s) rec)
      else Returns s)"

definition madt_step :: "memory \<Rightarrow> u64 \<Rightarrow> u64 \<Rightarrow> u64 \<times> madt_state \<Rightarrow> ((u64 \<times> madt_state) + madt_state) outcome" where
  "madt_step m recs sz st =
     (case st of (i, s) \<Rightarrow>
        if i < sz then omap (\<lambda>s. Inl (i + ucast (m (recs + i + 1)), s)) (madt_record m (recs + i) s)
        else Returns (Inr s))"

definition madt_init :: "memory \<Rightarrow> acpi_state \<Rightarrow> madt_state \<Rightarrow> madt_state outcome" where
  "madt_init m a s =
     obind (acpi_get_sdt m a sign_apic) (\<lambda>t.
       if t = 0 then Faults Panic
       else loop_c (madt_step m (t + MADT_SIZE) (sdt_length m t - MADT_SIZE)) (0, s\<lparr>madt := t\<rparr>))"

definition madt_get_lapic_base :: "memory \<Rightarrow> madt_state \<Rightarrow> u64" where
  "madt_get_lapic_base m s = ucast (ld32 m (madt s + SDT_HDR_SIZE))"

text \<open>The revision byte and the two addresses of the root pointer \<open>rsdp\<close>.\<close>

definition acpi_init :: "memory \<Rightarrow> u64 \<Rightarrow> madt_state \<Rightarrow> (acpi_state \<times> madt_state) outcome" where
  "acpi_init m rsdp s =
     (let a = (if m (rsdp + 15) = 2 then \<lparr>sdt = PHYS_TO_VIRT (ld64 m (rsdp + 24)), use_xsdt = True\<rparr>
               else \<lparr>sdt = PHYS_TO_VIRT (ucast (ld32 m (rsdp + 16))), use_xsdt = False\<rparr>)
      in omap (Pair a) (madt_init m a s))"

section \<open>What the search finds\<close>

lemma run_list_find:
  "run_list (\<lambda>i s. Returns (if P (g i) then Inr (g i) else Inl s)) is s
    = Returns (case List.find P (map g is) of None \<Rightarrow> Inl s | Some x \<Rightarrow> Inr x)"
  by (induction "is" arbitrary: s) simp_all

definition sdt_tables :: "memory \<Rightarrow> acpi_state \<Rightarrow> u64 list" where
  "sdt_tables m a = map (\<lambda>k. sdt_entry m a (of_nat k)) [0..<unat (sdt_len m a)]"

lemma steps_from_one: "steps_from 0 1 n = map of_nat [0..<n]"
  by (simp add: steps_from_def)

lemma acpi_get_sdt_find:
  assumes "sdt a \<noteq> 0"
  shows "acpi_get_sdt m a sign =
    Returns (case List.find (\<lambda>t. load m t (length sign) = sign) (sdt_tables m a) of None \<Rightarrow> 0 | Some t \<Rightarrow> t)"
proof -
  let ?body = "\<lambda>i s. Returns (if load m (sdt_entry m a i) (length sign) = sign then Inr (sdt_entry m a i) else Inl s)"
  have "for_u64 0 (sdt_len m a) (of_nat 1) ?body () = run_list ?body (steps_from 0 1 (unat (sdt_len m a))) ()"
    by (rule for_u64_run_list) (use unat_u64 in simp_all)
  also have "\<dots> = Returns (case List.find (\<lambda>t. load m t (length sign) = sign) (sdt_tables m a) of None \<Rightarrow> Inl () | Some t \<Rightarrow> Inr t)"
    using run_list_find[of "\<lambda>t. load m t (length sign) = sign" "sdt_entry m a"
      "map of_nat [0..<unat (sdt_len m a)]" "()"]
    unfolding steps_from_one sdt_tables_def by (simp add: comp_def)
  finally show ?thesis
    using assms by (simp add: acpi_get_sdt_def Let_def split: option.splits)
qed

section \<open>What the walk over the MADT collects\<close>

text \<open>
  The records as the firmware lays them out: the type, the length of the whole record, and the rest. The
  walk is to list where each record begins.
\<close>

definition wf_record :: "u8 list \<Rightarrow> bool" where
  "wf_record r \<longleftrightarrow> 2 \<le> length r \<and> length r < 256 \<and> r ! 1 = of_nat (length r)"

fun record_addrs :: "u8 \<Rightarrow> u64 \<Rightarrow> u8 list list \<Rightarrow> u64 list" where
  "record_addrs t p [] = []"
| "record_addrs t p (r # rs) = (if r ! 0 = t then [p] else []) @ record_addrs t (p + of_nat (length r)) rs"

definition madt_of :: "u64 \<Rightarrow> u64 list \<Rightarrow> u64 list \<Rightarrow> madt_state" where
  "madt_of t ls ios = \<lparr>madt = t, num_lapic = length ls, lapics = ls @ replicate (CPU_MAX - length ls) 0,
     num_ioapic = length ios, io_apics = ios @ replicate (4 - length ios) 0\<rparr>"

lemma append_pad: "length xs < n \<Longrightarrow> (xs @ replicate (n - length xs) z)[length xs := x] = (xs @ [x]) @ replicate (n - length (xs @ [x])) z"
proof -
  assume "length xs < n"
  then obtain k where "n - length xs = Suc k" "n - Suc (length xs) = k" by (metis Suc_diff_Suc)
  then show ?thesis by (simp add: list_update_append)
qed

lemma madt_record_of:
  assumes "length ls \<le> 256" "length ios \<le> 3"
  shows "madt_record m p (madt_of t ls ios) = Returns (madt_of t (if m p = 0 then take 256 (ls @ [p]) else ls)
     (if m p = 1 then take 3 (ios @ [p]) else ios))"
proof -
  have "length ls < 256 \<or> length ls = 256" "length ios < 3 \<or> length ios = 3" using assms by auto
  then show ?thesis
    by (auto simp: madt_record_def madt_of_def CPU_MAX_def append_pad)
qed

lemma load_append_iff: "load m a (length (xs @ ys)) = xs @ ys \<longleftrightarrow> load m a (length xs) = xs \<and> load m (a + of_nat (length xs)) (length ys) = ys"
proof -
  have "load m a (length xs + n) = load m a (length xs) @ load m (a + of_nat (length xs)) n" for n
    by (induction n) (simp_all add: load_def add.assoc)
  then show ?thesis by simp
qed

lemma madt_walk:
  assumes "\<forall>r \<in> set rs. wf_record r" "load m (recs + i) (length (concat rs)) = concat rs"
    and "unat i + length (concat rs) = unat sz" "length ls \<le> 256" "length ios \<le> 3"
  shows "loop_c (madt_step m recs sz) (i, madt_of t ls ios)
    = Returns (madt_of t (take 256 (ls @ record_addrs 0 (recs + i) rs)) (take 3 (ios @ record_addrs 1 (recs + i) rs)))"
  using assms
proof (induction rs arbitrary: i ls ios)
  case Nil
  then have "i = sz" by (simp add: word_unat_eq_iff)
  then show ?case using Nil.prems by (subst loop_c_unfold) (simp add: madt_step_def)
next
  case (Cons r rs)
  have wf: "2 \<le> length r" "length r < 256" "r ! 1 = of_nat (length r)" using Cons.prems(1) by (simp_all add: wf_record_def)
  have ld: "load m (recs + i) (length r) = r" "load m (recs + i + of_nat (length r)) (length (concat rs)) = concat rs"
    using Cons.prems(2) load_append_iff[of m "recs + i" r "concat rs"] by simp_all
  have "r \<noteq> []" using wf(1) by auto
  then have byte: "m (recs + i) = r ! 0" "m (recs + i + 1) = r ! 1"
    using nth_load[of 0 "length r" m "recs + i"] nth_load[of 1 "length r" m "recs + i"] wf(1) unfolding ld(1) by auto
  have len: "ucast (r ! 1) = (of_nat (length r) :: u64)"
    unfolding wf(3) word_unat_eq_iff using wf(2) by (simp add: unat_ucast_up unat_of_nat_small)
  have lt: "i < sz" using Cons.prems(3) wf(1) by (simp add: word_less_nat_alt)
  have u: "unat (i + of_nat (length r)) = unat i + length r"
    by (rule unat_add_of_nat) (use Cons.prems(3) unat_u64[of sz] in simp)
  let ?ls = "if r ! 0 = 0 then take 256 (ls @ [recs + i]) else ls" and ?ios = "if r ! 0 = 1 then take 3 (ios @ [recs + i]) else ios"
  have "madt_step m recs sz (i, madt_of t ls ios) = Returns (Inl (i + of_nat (length r), madt_of t ?ls ?ios))"
    using lt len by (simp add: madt_step_def madt_record_of Cons.prems(4,5) byte)
  moreover have "loop_c (madt_step m recs sz) (i + of_nat (length r), madt_of t ?ls ?ios)
    = Returns (madt_of t (take 256 (?ls @ record_addrs 0 (recs + (i + of_nat (length r))) rs))
        (take 3 (?ios @ record_addrs 1 (recs + (i + of_nat (length r))) rs)))"
    using Cons.prems u ld(2) by (intro Cons.IH) (auto simp: add.assoc)
  moreover have "take 256 (?ls @ xs) = take 256 (ls @ (if r ! 0 = 0 then [recs + i] else []) @ xs)"
      "take 3 (?ios @ xs) = take 3 (ios @ (if r ! 0 = 1 then [recs + i] else []) @ xs)" for xs
    by (auto simp: min_def)
  ultimately show ?case by (subst loop_c_unfold) (simp add: add.assoc)
qed


lemma get_apic:
  assumes "sdt a \<noteq> 0" "List.find (\<lambda>t. load m t 4 = sign_apic) (sdt_tables m a) = Some t"
  shows "acpi_get_sdt m a sign_apic = Returns t"
proof -
  have "length sign_apic = 4" by (simp add: sign_apic_def)
  then show ?thesis using assms(2) unfolding acpi_get_sdt_find[OF assms(1)] by simp
qed

lemma madt_start_of: "madt_start\<lparr>madt := t\<rparr> = madt_of t [] []"
  by (simp add: madt_start_def madt_of_def)


text \<open>A firmware with a 64-bit root table at \<open>0x1000\<close> and a MADT of one local and one I/O APIC.\<close>

definition fw_table :: u64 where "fw_table = 0xffff800000002000"
definition fw_acpi :: acpi_state where "fw_acpi = \<lparr>sdt = 0x1000, use_xsdt = True\<rparr>"

definition fw_records :: "u8 list list" where
  "fw_records = [[0, 8, 0, 0, 1, 0, 0, 0], [1, 12, 0, 0, 0, 0, 0xC0, 0xFE, 0, 0, 0, 0]]"

definition fw_memory :: "u8 list \<Rightarrow> memory" where
  "fw_memory recs =
     store (store (store (store (\<lambda>_. 0) 0x1004 [44]) 0x1025 [0x20]) fw_table (sign_apic @ [44 + of_nat (length recs), 0, 0, 0]))
       (fw_table + MADT_SIZE) recs"


text \<open>
  A record of length 0 in the MADT, which the loop reaches at an offset inside the table, keeps the
  walk where it is: \<open>madt_init\<close> never returns.
\<close>

theorem madt_init_stuck:
  assumes "sdt a \<noteq> 0" "List.find (\<lambda>t. load m t 4 = sign_apic) (sdt_tables m a) = Some t" "t \<noteq> 0"
    and "0 < sdt_length m t - MADT_SIZE" "m (t + MADT_SIZE + 1) = 0"
  shows "madt_init m a madt_start = Diverges"
proof -
  have "loop_c (madt_step m (t + MADT_SIZE) (sdt_length m t - MADT_SIZE)) (0, madt_of t [] []) = Diverges"
  proof (rule loop_c_diverges[where I = "\<lambda>st. \<exists>ls ios. st = (0 :: u64, madt_of t ls ios) \<and> length ls \<le> 256 \<and> length ios \<le> 3"])
    fix st assume "\<exists>ls ios. st = (0 :: u64, madt_of t ls ios) \<and> length ls \<le> 256 \<and> length ios \<le> 3"
    then obtain ls ios where st: "st = (0, madt_of t ls ios)" "length ls \<le> 256" "length ios \<le> 3" by blast
    let ?p = "t + MADT_SIZE"
    let ?ls = "if m ?p = 0 then take 256 (ls @ [?p]) else ls" and ?ios = "if m ?p = 1 then take 3 (ios @ [?p]) else ios"
    have "madt_step m ?p (sdt_length m t - MADT_SIZE) st = Returns (Inl (0, madt_of t ?ls ?ios))"
      using assms(4,5) st by (simp add: madt_step_def madt_record_of)
    moreover have "length ?ls \<le> 256" "length ?ios \<le> 3" using st by auto
    ultimately show "\<exists>s'. madt_step m ?p (sdt_length m t - MADT_SIZE) st = Returns (Inl s')
        \<and> (\<exists>ls ios. s' = (0, madt_of t ls ios) \<and> length ls \<le> 256 \<and> length ios \<le> 3)" by blast
  qed (rule exI[of _ "[]"], rule exI[of _ "[]"], simp)
  then show ?thesis
    using get_apic[OF assms(1,2)] assms(3) by (simp add: madt_init_def madt_start_of)
qed

theorem madt_init_stuck_witness:
  "madt_init (fw_memory [0, 0]) fw_acpi madt_start = Diverges"
proof -
  let ?m = "fw_memory [0, 0]"
  have 1: "List.find (\<lambda>t. load ?m t 4 = sign_apic) (sdt_tables ?m fw_acpi) = Some fw_table" by code_simp
  have 2: "0 < sdt_length ?m fw_table - MADT_SIZE" "?m (fw_table + MADT_SIZE + 1) = 0" by code_simp+
  show ?thesis
    using madt_init_stuck[OF _ 1 _ 2] by (simp add: fw_acpi_def fw_table_def)
qed

end
