(* ===== verification/Timers.thy ===== *)
theory Timers
  imports Interrupts Time_Types Acpi Vmm
begin

text \<open>
  The clocks (\<open>core/pit.c\<close>, \<open>hpet.c\<close>, \<open>timer.c\<close>, \<open>apic.c\<close>, and \<open>sleep\<close> of \<open>lib/time.h\<close>): waiting for ticks
  of the interval timer, reading and sleeping on the HPET, and the timer of the local APIC with its
  calibration. Everything that changes behind the code's back is read through \<open>clock_reads\<close>: the
  volatile tick and second counts that the interrupt handler advances, and the main counter of the
  HPET.
\<close>

record 'd clock_reads =
  ticks_read :: "'d \<Rightarrow> u64 \<times> 'd"
  secs_read :: "'d \<Rightarrow> u64 \<times> 'd"
  main_counter :: "'d \<Rightarrow> u64 \<times> 'd"

section \<open>The interval timer\<close>

record pit =
  pit_ticks :: u64
  pit_start_time :: u64
  pit_secs :: u64

definition PIT_FREQ_HZ :: nat where "PIT_FREQ_HZ = 1000"

text \<open>\<open>now\<close> is the answer of \<open>cmos_current_time\<close>.\<close>

definition pit_callback :: "u64 \<Rightarrow> pit \<Rightarrow> pit" where
  "pit_callback now p = p\<lparr>pit_ticks := pit_ticks p + 1, pit_secs := now - pit_start_time p\<rparr>"

definition pit_divisor :: u16 where
  "pit_divisor = (let x = of_nat (1193182 div PIT_FREQ_HZ) in if 1193182 mod PIT_FREQ_HZ > PIT_FREQ_HZ div 2 then x + 1 else x)"

text \<open>\<open>now\<close> reads the clock (\<open>cmos_current_time\<close>).\<close>

definition pit_init :: "('d, 'm) byte_ports_scheme \<Rightarrow> ('d \<Rightarrow> (u64 \<times> 'd) outcome) \<Rightarrow> 'e exc_handler \<Rightarrow> 'e exc_handler option list \<Rightarrow> pit \<Rightarrow> 'd
    \<Rightarrow> (pit \<times> 'e exc_handler option list \<times> 'd) outcome" where
  "pit_init P now callback handlers p d =
     (let d = outb P 0x43 0x36 d; d = outb P 0x40 (ucast (pit_divisor AND 0xFF)) d;
          d = outb P 0x40 (ucast (drop_bit 8 (pit_divisor AND 0xFF00))) d
      in obind (exc_register_handler (of_nat IRQ0) callback handlers) (\<lambda>handlers.
         obind (now d) (\<lambda>(t, d).
           Returns (p\<lparr>pit_start_time := t, pit_ticks := 0\<rparr>, handlers, irq_clear_mask P 0 d))))"

definition wait_target :: "('d, 'm) clock_reads_scheme \<Rightarrow> u64 \<Rightarrow> 'd \<Rightarrow> (u64 \<times> 'd) outcome" where
  "wait_target C ms d =
     (let (t, d) = ticks_read C d; target = t + ms; (s, d) = secs_read C d in
      if s > 0 then
        let (t, d) = ticks_read C d; (t', d) = ticks_read C d; (s, d) = secs_read C d in
        if s * 1000 = 0 then Faults DivByZero else Returns (t + ms * t' div (s * 1000), d)
      else Returns (target, d))"

definition wait_step :: "('d, 'm) clock_reads_scheme \<Rightarrow> u64 \<Rightarrow> 'd \<Rightarrow> ('d + 'd) outcome" where
  "wait_step C target d = (let (t, d) = ticks_read C d in Returns (if t \<ge> target then Inr d else Inl d))"

definition pit_wait :: "('d, 'm) clock_reads_scheme \<Rightarrow> u64 \<Rightarrow> 'd \<Rightarrow> 'd outcome" where
  "pit_wait C ms d = obind (wait_target C ms d) (\<lambda>(target, d). loop_c (wait_step C target) d)"

section \<open>The HPET\<close>

text \<open>\<open>hpet\<close> is whether the device is there; its registers are read through the clock.\<close>

record hpet_state =
  hpet :: bool
  hpet_period :: u64

definition hpet_get_nanos :: "('d, 'm) clock_reads_scheme \<Rightarrow> hpet_state \<Rightarrow> 'd \<Rightarrow> u64 \<times> 'd" where
  "hpet_get_nanos C h d =
     (if \<not> hpet h then ticks_read C d
      else let (c, d) = main_counter C d in (c * hpet_period h, d))"

definition nano_step :: "('d, 'm) clock_reads_scheme \<Rightarrow> hpet_state \<Rightarrow> u64 \<Rightarrow> u64 \<Rightarrow> u64 \<Rightarrow> 'd \<Rightarrow> ('d + 'd) outcome" where
  "nano_step C h nanos stt tgt d =
     (let (cur, d) = hpet_get_nanos C h d in
      if cur \<ge> tgt then Returns (Inr d)
      else if cur \<le> stt then omap Inr (pit_wait C (nanos div MILLIS_TO_NANOS 1) d)
      else Returns (Inl d))"

definition hpet_nanosleep :: "('d, 'm) clock_reads_scheme \<Rightarrow> hpet_state \<Rightarrow> u64 \<Rightarrow> 'd \<Rightarrow> 'd outcome" where
  "hpet_nanosleep C h nanos d =
     (if \<not> hpet h then pit_wait C (nanos div MILLIS_TO_NANOS 1) d
      else let (stt, d) = hpet_get_nanos C h d; (cur, d) = hpet_get_nanos C h d
           in loop_c (nano_step C h nanos stt (cur + nanos)) d)"

definition sleep_ms :: "('d, 'm) clock_reads_scheme \<Rightarrow> hpet_state \<Rightarrow> u64 \<Rightarrow> 'd \<Rightarrow> 'd outcome" where
  "sleep_ms C h x d = hpet_nanosleep C h (MILLIS_TO_NANOS x) d"

text \<open>
  The set-up: what is done with the capability register \<open>caps\<close> and the configuration register, and the
  whole, from the table, whose base address is 44 bytes on, and the mapping of the registers. The answer carries
  the new configuration.
\<close>

definition hpet_setup :: "u64 \<Rightarrow> u64 \<Rightarrow> hpet_state \<Rightarrow> (hpet_state \<times> u64) outcome" where
  "hpet_setup caps config h =
     (if \<not> bit caps 15 then Returns (h\<lparr>hpet := False\<rparr>, config)
      else let counter_clk_period = drop_bit 32 caps in
        if counter_clk_period = 0 then Faults DivByZero
        else Returns (\<lparr>hpet = True, hpet_period = counter_clk_period div 1000000\<rparr>, config OR 1))"

definition hpet_init :: "memory \<Rightarrow> acpi_state \<Rightarrow> u64 \<Rightarrow> u64 \<Rightarrow> hpet_state \<Rightarrow> vm \<Rightarrow> (hpet_state \<times> u64 \<times> vm) outcome" where
  "hpet_init m a caps config h v =
     obind (acpi_get_sdt m a sign_hpet) (\<lambda>t.
       if t = 0 then Returns (h, config, v)
       else let address = ld64 m (t + 44) in
         obind (vmm_map v (PHYS_TO_VIRT address) address 1 VMM_FLAGS_MMIO) (\<lambda>v.
           omap (\<lambda>(h, config). (h, config, v)) (hpet_setup caps config h)))"

section \<open>The local APIC and its timer\<close>

record 'd lapic_io =
  apic_read_reg :: "u16 \<Rightarrow> 'd \<Rightarrow> u32 \<times> 'd"
  apic_write_reg :: "u16 \<Rightarrow> u32 \<Rightarrow> 'd \<Rightarrow> 'd"

definition APIC_REG_ID :: u16 where "APIC_REG_ID = 0x20"
definition APIC_REG_VERSION :: u16 where "APIC_REG_VERSION = 0x30"
definition APIC_REG_SPURIOUS_INT :: u16 where "APIC_REG_SPURIOUS_INT = 0xF0"
definition APIC_REG_EOI :: u16 where "APIC_REG_EOI = 0xB0"
definition APIC_REG_ICR_LOW :: u16 where "APIC_REG_ICR_LOW = 0x300"
definition APIC_REG_ICR_HIGH :: u16 where "APIC_REG_ICR_HIGH = 0x310"
definition APIC_REG_TIMER_LVT :: u16 where "APIC_REG_TIMER_LVT = 0x320"
definition APIC_REG_TIMER_ICR :: u16 where "APIC_REG_TIMER_ICR = 0x380"
definition APIC_REG_TIMER_CCR :: u16 where "APIC_REG_TIMER_CCR = 0x390"
definition APIC_REG_TIMER_DCR :: u16 where "APIC_REG_TIMER_DCR = 0x3e0"
definition APIC_TIMER_FLAG_PERIODIC :: u32 where "APIC_TIMER_FLAG_PERIODIC = push_bit 17 1"
definition APIC_TIMER_FLAG_MASKED :: u32 where "APIC_TIMER_FLAG_MASKED = push_bit 16 1"

definition apic_send_eoi :: "('d, 'm) lapic_io_scheme \<Rightarrow> 'd \<Rightarrow> 'd" where
  "apic_send_eoi L d = apic_write_reg L APIC_REG_EOI 1 d"

definition apic_send_ipi :: "('d, 'm) lapic_io_scheme \<Rightarrow> u8 \<Rightarrow> u8 \<Rightarrow> u32 \<Rightarrow> 'd \<Rightarrow> 'd" where
  "apic_send_ipi L dest vec mtype d =
     apic_write_reg L APIC_REG_ICR_LOW (push_bit 8 mtype OR ucast vec)
       (apic_write_reg L APIC_REG_ICR_HIGH (push_bit 24 (ucast dest)) d)"

definition apic_enable :: "('d, 'm) lapic_io_scheme \<Rightarrow> 'd \<Rightarrow> 'd" where
  "apic_enable L d = apic_write_reg L APIC_REG_SPURIOUS_INT (push_bit 8 1 OR 0xFF) d"

text \<open>The answer is the address of the registers, the page tables and the device.\<close>

definition apic_init :: "('d, 'm) lapic_io_scheme \<Rightarrow> memory \<Rightarrow> madt_state \<Rightarrow> vm \<Rightarrow> 'd \<Rightarrow> (u64 \<times> vm \<times> 'd) outcome" where
  "apic_init L m ms v d =
     (let lapic_base = PHYS_TO_VIRT (madt_get_lapic_base m ms) in
      obind (vmm_map v lapic_base (VIRT_TO_PHYS lapic_base) 1 VMM_FLAGS_MMIO) (\<lambda>v.
        Returns (lapic_base, v, snd (apic_read_reg L APIC_REG_VERSION (apic_enable L d)))))"

record apic_timer =
  base_freq :: u64
  divisor :: u8
  tvector :: u8

definition apic_timer_start_state :: apic_timer where
  "apic_timer_start_state = \<lparr>base_freq = 0, divisor = 0, tvector = 0\<rparr>"

datatype apic_timer_mode = PERIODIC | ONESHOT

definition change_lvt :: "('d, 'm) lapic_io_scheme \<Rightarrow> (u32 \<Rightarrow> u32) \<Rightarrow> 'd \<Rightarrow> 'd" where
  "change_lvt L f d = (let (v, d) = apic_read_reg L APIC_REG_TIMER_LVT d in apic_write_reg L APIC_REG_TIMER_LVT (f v) d)"

definition apic_timer_stop :: "('d, 'm) lapic_io_scheme \<Rightarrow> 'd \<Rightarrow> 'd" where
  "apic_timer_stop L d = change_lvt L (\<lambda>v. v OR APIC_TIMER_FLAG_MASKED) d"

definition apic_timer_start :: "('d, 'm) lapic_io_scheme \<Rightarrow> 'd \<Rightarrow> 'd" where
  "apic_timer_start L d = change_lvt L (\<lambda>v. v AND NOT APIC_TIMER_FLAG_MASKED) d"

definition apic_timer_set_mode :: "('d, 'm) lapic_io_scheme \<Rightarrow> apic_timer_mode \<Rightarrow> 'd \<Rightarrow> 'd" where
  "apic_timer_set_mode L mode d =
     change_lvt L (\<lambda>v. if mode = PERIODIC then v OR APIC_TIMER_FLAG_PERIODIC else v AND NOT APIC_TIMER_FLAG_PERIODIC) d"

definition apic_timer_set_handler :: "apic_timer \<Rightarrow> u64 \<Rightarrow> idt_entry list \<Rightarrow> idt_entry list outcome" where
  "apic_timer_set_handler a h idt = idt_set_handler (tvector a) h idt"

definition apic_timer_set_frequency :: "('d, 'm) lapic_io_scheme \<Rightarrow> apic_timer \<Rightarrow> u64 \<Rightarrow> 'd \<Rightarrow> 'd outcome" where
  "apic_timer_set_frequency L a freq d =
     (if freq * ucast (divisor a) = 0 then Faults DivByZero
      else Returns (apic_write_reg L APIC_REG_TIMER_ICR (ucast (base_freq a div (freq * ucast (divisor a)))) d))"

definition apic_timer_set_period :: "('d, 'm) lapic_io_scheme \<Rightarrow> apic_timer \<Rightarrow> u64 \<Rightarrow> 'd \<Rightarrow> 'd outcome" where
  "apic_timer_set_period L a tv d =
     (if tv = 0 then Faults DivByZero else apic_timer_set_frequency L a (1000000000 div tv) d)"

definition apic_timer_get_vector :: "apic_timer \<Rightarrow> u8" where "apic_timer_get_vector a = tvector a"

definition apic_timer_enable :: "('d, 'm) lapic_io_scheme \<Rightarrow> apic_timer \<Rightarrow> 'd \<Rightarrow> 'd" where
  "apic_timer_enable L a d =
     apic_write_reg L APIC_REG_TIMER_DCR 1 (apic_write_reg L APIC_REG_TIMER_ICR 0xFFFFFFFF
       (apic_write_reg L APIC_REG_TIMER_LVT (APIC_TIMER_FLAG_MASKED OR ucast (tvector a)) d))"

text \<open>
  \<open>handler\<close> is the address of \<open>apic_timer_handler\<close>. The frequency is computed in 32 bits. The state
  after the call: the timer's, the gates, the vectors handed out, and the device.
\<close>

definition apic_timer_init ::
  "('d, 'm) clock_reads_scheme \<Rightarrow> ('d, 'n) lapic_io_scheme \<Rightarrow> hpet_state \<Rightarrow> u64 \<Rightarrow> u8 \<Rightarrow> idt_entry list \<Rightarrow> 'd
    \<Rightarrow> (apic_timer \<times> idt_entry list \<times> u8 \<times> 'd) outcome" where
  "apic_timer_init C L h handler available_vector idt d =
     obind (idt_get_available_vector available_vector) (\<lambda>(v, av).
     obind (idt_set_handler v handler idt) (\<lambda>idt.
       let d = apic_write_reg L APIC_REG_TIMER_LVT (APIC_TIMER_FLAG_MASKED OR ucast v) d;
           d = apic_write_reg L APIC_REG_TIMER_DCR 1 d;
           d = apic_write_reg L APIC_REG_TIMER_ICR 0xFFFFFFFF d in
       obind (sleep_ms C h 50 d) (\<lambda>d.
         let (ccr, d) = apic_read_reg L APIC_REG_TIMER_CCR d;
             base_freq = ((0xFFFFFFFF - ccr) * 2) * 4 :: u32
         in Returns (\<lparr>base_freq = ucast base_freq, divisor = 4, tvector = v\<rparr>, idt, av, d))))"

section \<open>Waiting on a clock that runs\<close>

text \<open>
  A clock whose \<open>k\<close>th read sees \<open>T k\<close> ticks, \<open>S k\<close> seconds or \<open>M k\<close> counts; the state is the number of
  reads so far.
\<close>

definition running :: "(nat \<Rightarrow> nat) \<Rightarrow> (nat \<Rightarrow> nat) \<Rightarrow> (nat \<Rightarrow> nat) \<Rightarrow> nat clock_reads" where
  "running T S M = \<lparr>ticks_read = (\<lambda>k. (of_nat (T k), Suc k)), secs_read = (\<lambda>k. (of_nat (S k), Suc k)),
     main_counter = (\<lambda>k. (of_nat (M k), Suc k))\<rparr>"

text \<open>A loop that reads until the first read that is enough.\<close>

lemma loop_until:
  assumes step: "\<And>k. a \<le> k \<Longrightarrow> k \<le> K \<Longrightarrow> body k = Returns (if Q k then Inr (Suc k) else Inl (Suc k))"
    and K: "a \<le> K" "Q K"
  shows "\<exists>k. a \<le> k \<and> k \<le> K \<and> Q k \<and> (\<forall>j. a \<le> j \<and> j < k \<longrightarrow> \<not> Q j) \<and> loop_c body a = Returns (Suc k)"
proof -
  define k where "k = (LEAST k. a \<le> k \<and> Q k)"
  have k: "a \<le> k \<and> Q k" unfolding k_def by (rule LeastI[of _ K]) (use K in simp)
  have kK: "k \<le> K" unfolding k_def by (rule Least_le) (use K in simp)
  have before: "\<not> Q j" if "a \<le> j" "j < k" for j using that not_less_Least[of j "\<lambda>k. a \<le> k \<and> Q k"] by (auto simp: k_def)
  have "loop_c body ((\<lambda>n. a + n) 0) = Returns (Suc k)"
  proof (rule loop_c_steps[where n = "k - a"])
    fix j assume "j < k - a"
    then show "body (a + j) = Returns (Inl (a + Suc j))" using step[of "a + j"] before[of "a + j"] kK by simp
  next
    show "body (a + (k - a)) = Returns (Inr (Suc k))" using step[of k] k kK by simp
  qed
  then show ?thesis using k kK before by auto
qed

lemma le_of_nat_u64: "x < 2 ^ 64 \<Longrightarrow> y < 2 ^ 64 \<Longrightarrow> (of_nat x :: u64) \<le> of_nat y \<longleftrightarrow> x \<le> y"
  by (simp add: word_le_nat_alt unat_of_nat_small)

text \<open>
  \<open>pit_wait\<close> before the first second has been counted, on a tick count that runs, does not go
  back and does not wrap around while it waits: it returns, at the first read that finds at least \<open>ms\<close> more ticks than
  when it was called.
\<close>

theorem pit_wait_returns:
  "\<forall>T M K ms. mono T \<and> 2 \<le> K \<and> T 0 + ms \<le> T K \<and> T K < 2 ^ 64 \<longrightarrow>
     (\<exists>k. pit_wait (running T (\<lambda>_. 0) M) (of_nat ms) 0 = Returns (Suc k) \<and> 2 \<le> k \<and> k \<le> K
        \<and> T 0 + ms \<le> T k \<and> (\<forall>j. 2 \<le> j \<and> j < k \<longrightarrow> T j < T 0 + ms))"
proof (intro allI impI)
  fix T M :: "nat \<Rightarrow> nat" and K ms
  assume a: "mono T \<and> 2 \<le> K \<and> T 0 + ms \<le> T K \<and> T K < 2 ^ 64"
  let ?C = "running T (\<lambda>_. 0) M"
  have T: "T k < 2 ^ 64" if "k \<le> K" for k using monoD[of T k K] a that by simp
  have t: "wait_target ?C (of_nat ms) 0 = Returns (of_nat (T 0 + ms), 2)"
    by (simp add: wait_target_def running_def numeral_2_eq_2)
  have "wait_step ?C (of_nat (T 0 + ms)) k = Returns (if T 0 + ms \<le> T k then Inr (Suc k) else Inl (Suc k))" if "k \<le> K" for k
    using le_of_nat_u64[of "T 0 + ms" "T k"] T[OF that] a unfolding wait_step_def by (simp add: running_def del: of_nat_add)
  then have "\<exists>k. 2 \<le> k \<and> k \<le> K \<and> T 0 + ms \<le> T k \<and> (\<forall>j. 2 \<le> j \<and> j < k \<longrightarrow> \<not> T 0 + ms \<le> T j)
      \<and> loop_c (wait_step ?C (of_nat (T 0 + ms))) 2 = Returns (Suc k)"
    by (intro loop_until) (use a in auto)
  then show "\<exists>k. pit_wait ?C (of_nat ms) 0 = Returns (Suc k) \<and> 2 \<le> k \<and> k \<le> K
        \<and> T 0 + ms \<le> T k \<and> (\<forall>j. 2 \<le> j \<and> j < k \<longrightarrow> T j < T 0 + ms)"
    unfolding pit_wait_def t by (auto simp: not_le simp del: of_nat_add)
qed

theorem pit_wait_returns_witness:
  "\<exists>k. pit_wait (running (\<lambda>k. k) (\<lambda>_. 0) (\<lambda>_. 0)) (of_nat 5) 0 = Returns (Suc k) \<and> 2 \<le> k \<and> k \<le> 7 \<and> 0 + 5 \<le> k"
  using pit_wait_returns[THEN spec[of _ "\<lambda>k. k"], THEN spec[of _ "\<lambda>_. 0"], THEN spec[of _ 7], THEN spec[of _ 5]]
  by (auto simp: mono_def)

text \<open>
  C37: \<open>hpet_nanosleep\<close> on a main counter that runs between any two reads and does not make the
  nanoseconds wrap around: it returns, at the first read at which the time since the call, in whole
  nanoseconds per count, is at least the time asked for; since the period of \<open>hpet_init\<close> is that of the device
  rounded down, the time that has really passed is then no shorter.
\<close>

theorem hpet_sleep_returns:
  "\<forall>caps config M T S K ns h c.
     hpet_setup caps config h0 = Returns (h, c) \<and> hpet h \<and> strict_mono M \<and> 2 \<le> K
     \<and> M 1 * unat (hpet_period h) + ns \<le> M K * unat (hpet_period h) \<and> M K * unat (hpet_period h) < 2 ^ 64
     \<and> 0 < hpet_period h
     \<longrightarrow> (\<exists>k. hpet_nanosleep (running T S M) h (of_nat ns) 0 = Returns (Suc k) \<and> 2 \<le> k \<and> k \<le> K
            \<and> (\<forall>j. 2 \<le> j \<and> j < k \<longrightarrow> M j * unat (hpet_period h) < M 1 * unat (hpet_period h) + ns)
            \<and> ns * 1000000 \<le> (M k - M 1) * unat (drop_bit 32 caps))"
proof (intro allI impI)
  fix caps config c :: u64 and M T S :: "nat \<Rightarrow> nat" and K ns h
  assume a: "hpet_setup caps config h0 = Returns (h, c) \<and> hpet h \<and> strict_mono M \<and> 2 \<le> K
     \<and> M 1 * unat (hpet_period h) + ns \<le> M K * unat (hpet_period h) \<and> M K * unat (hpet_period h) < 2 ^ 64
     \<and> 0 < hpet_period h"
  let ?C = "running T S M" and ?p = "unat (hpet_period h)" and ?fs = "unat (drop_bit 32 caps)"
  have on: "hpet h" and sm: "strict_mono M" using a by auto
  have p: "?p = ?fs div 1000000"
    using a by (auto simp: hpet_setup_def Let_def unat_div split: if_splits)
  have p0: "0 < ?p" using a by (simp add: word_less_nat_alt)
  have M: "M k * ?p < 2 ^ 64" if "k \<le> K" for k
    using mult_le_mono1[OF monoD[OF strict_mono_mono[OF sm] that], of ?p] a by linarith
  have nanos: "hpet_get_nanos ?C h k = (of_nat (M k * ?p), Suc k)" for k
    using on by (simp add: hpet_get_nanos_def running_def)
  have late: "M 0 * ?p < M k * ?p" if "2 \<le> k" for k using strict_monoD[OF sm, of 0 k] that p0 by simp
  let ?tgt = "M 1 * ?p + ns"
  have "nano_step ?C h (of_nat ns) (of_nat (M 0 * ?p)) (of_nat ?tgt) k
      = Returns (if ?tgt \<le> M k * ?p then Inr (Suc k) else Inl (Suc k))" if "2 \<le> k" "k \<le> K" for k
    using le_of_nat_u64[of ?tgt "M k * ?p"] le_of_nat_u64[of "M k * ?p" "M 0 * ?p"] M[OF that(2)] M[of 0] a late[OF that(1)]
    unfolding nano_step_def nanos by (simp del: of_nat_add of_nat_mult)
  then have "\<exists>k. 2 \<le> k \<and> k \<le> K \<and> ?tgt \<le> M k * ?p \<and> (\<forall>j. 2 \<le> j \<and> j < k \<longrightarrow> \<not> ?tgt \<le> M j * ?p)
      \<and> loop_c (nano_step ?C h (of_nat ns) (of_nat (M 0 * ?p)) (of_nat ?tgt)) 2 = Returns (Suc k)"
    by (intro loop_until) (use a in auto)
  then obtain k where k: "2 \<le> k" "k \<le> K" "?tgt \<le> M k * ?p" "\<forall>j. 2 \<le> j \<and> j < k \<longrightarrow> \<not> ?tgt \<le> M j * ?p"
      "loop_c (nano_step ?C h (of_nat ns) (of_nat (M 0 * ?p)) (of_nat ?tgt)) 2 = Returns (Suc k)" by blast
  have "hpet_nanosleep ?C h (of_nat ns) 0 = Returns (Suc k)"
    using on k(5) by (simp add: hpet_nanosleep_def nanos numeral_2_eq_2)
  moreover have "ns * 1000000 \<le> (M k - M 1) * ?fs"
  proof -
    have "ns \<le> (M k - M 1) * ?p" using k(3) by (simp add: diff_mult_distrib)
    then have "ns * 1000000 \<le> (M k - M 1) * (?p * 1000000)" by (simp add: mult.assoc)
    also have "\<dots> \<le> (M k - M 1) * ?fs" unfolding p by (intro mult_le_mono2) simp
    finally show ?thesis .
  qed
  ultimately show "\<exists>k. hpet_nanosleep ?C h (of_nat ns) 0 = Returns (Suc k) \<and> 2 \<le> k \<and> k \<le> K
            \<and> (\<forall>j. 2 \<le> j \<and> j < k \<longrightarrow> M j * ?p < M 1 * ?p + ns) \<and> ns * 1000000 \<le> (M k - M 1) * ?fs"
    using k by (auto simp: not_le)
qed

theorem hpet_sleep_returns_witness:
  "\<exists>k. hpet_nanosleep (running (\<lambda>_. 0) (\<lambda>_. 0) (\<lambda>k. 10 * k)) \<lparr>hpet = True, hpet_period = 69\<rparr> (of_nat 5000) 0 = Returns (Suc k)
     \<and> 5000 * 1000000 \<le> (10 * k - 10) * 69841279"
  using hpet_sleep_returns[where ?h0.0 = "\<lparr>hpet = False, hpet_period = 0\<rparr>", THEN spec[of _ "push_bit 32 69841279 OR 0x8000"], THEN spec[of _ 0],
    THEN spec[of _ "\<lambda>k. 10 * k"], THEN spec[of _ "\<lambda>_. 0"], THEN spec[of _ "\<lambda>_. 0"], THEN spec[of _ 10],
    THEN spec[of _ 5000], THEN spec[of _ "\<lparr>hpet = True, hpet_period = 69\<rparr>"], THEN spec[of _ 1]]
  by (auto simp: hpet_setup_def strict_mono_def)

section \<open>The calibration of the APIC timer\<close>

text \<open>
  The frequency of the APIC timer. If the timer counts down \<open>c\<close> times during the 50 ms of the
  calibration, it counts \<open>20 * c\<close> times a second, so that a period of one \<open>f\<close>th of a second takes
  \<open>20 * c div f\<close> counts; after \<open>apic_timer_init\<close>, \<open>apic_timer_set_frequency f\<close> loads \<open>2 * c div f\<close> instead:
  the timer interrupts ten times as often as asked for.
\<close>

theorem apic_timer_too_fast:
  "\<forall>C L h handler av idt d0 d1 d2 c.
     av < 255 \<and> length idt = IDT_ENTRIES \<and> 8 * c < 2 ^ 32
     \<and> sleep_ms C h 50 (apic_write_reg L APIC_REG_TIMER_ICR 0xFFFFFFFF (apic_write_reg L APIC_REG_TIMER_DCR 1
          (apic_write_reg L APIC_REG_TIMER_LVT (APIC_TIMER_FLAG_MASKED OR ucast (av + 1)) d0))) = Returns d1
     \<and> apic_read_reg L APIC_REG_TIMER_CCR d1 = (0xFFFFFFFF - of_nat c, d2)
     \<longrightarrow> (\<exists>a idt'. apic_timer_init C L h handler av idt d0 = Returns (a, idt', av + 1, d2)
          \<and> gate_offset (idt' ! unat (apic_timer_get_vector a)) = handler
          \<and> (\<forall>f d. 0 < f \<and> 4 * f < 2 ^ 64 \<longrightarrow>
               apic_timer_set_frequency L a (of_nat f) d = Returns (apic_write_reg L APIC_REG_TIMER_ICR (of_nat (2 * c div f)) d)))"
proof (intro allI impI)
  fix C :: "('d, 'm) clock_reads_scheme" and L :: "('d, 'n) lapic_io_scheme" and h handler and av :: u8 and idt :: "idt_entry list" and d0 d1 d2 c
  assume a: "av < 255 \<and> length idt = IDT_ENTRIES \<and> 8 * c < 2 ^ 32
     \<and> sleep_ms C h 50 (apic_write_reg L APIC_REG_TIMER_ICR 0xFFFFFFFF (apic_write_reg L APIC_REG_TIMER_DCR 1
          (apic_write_reg L APIC_REG_TIMER_LVT (APIC_TIMER_FLAG_MASKED OR ucast (av + 1)) d0))) = Returns d1
     \<and> apic_read_reg L APIC_REG_TIMER_CCR d1 = (0xFFFFFFFF - of_nat c, d2)"
  let ?a = "\<lparr>base_freq = of_nat (8 * c), divisor = 4, tvector = av + 1\<rparr>" and ?idt = "idt[unat (av + 1) := idt_make_entry handler]"
  have "unat av < 255" using a by (simp add: word_less_nat_alt)
  then have "unat (av + 1) = Suc (unat av)" by (simp add: unat_word_ariths)
  then have av: "av + 1 \<noteq> 0" by (metis nat.distinct(1) unat_0)
  have vec: "unat (av + 1) < length idt" using a unat_u8[of "av + 1"] by (simp add: IDT_ENTRIES_def)
  have freq: "(ucast ((of_nat c * 2) * 4 :: u32) :: u64) = of_nat (8 * c)"
  proof -
    have "(of_nat c * 2) * 4 = (of_nat (8 * c) :: u32)" by simp
    then show ?thesis using a by (simp add: word_unat_eq_iff unat_ucast_up unat_of_nat_small del: of_nat_mult)
  qed
  have init: "apic_timer_init C L h handler av idt d0 = Returns (?a, ?idt, av + 1, d2)"
    using a av vec freq by (simp add: apic_timer_init_def idt_get_available_vector_def idt_set_handler_def Let_def)
  have set: "apic_timer_set_frequency L ?a (of_nat f) d = Returns (apic_write_reg L APIC_REG_TIMER_ICR (of_nat (2 * c div f)) d)"
    if f: "0 < f \<and> 4 * f < 2 ^ 64" for f d
  proof -
    have m: "(of_nat f * ucast (4 :: u8) :: u64) = of_nat (4 * f)" by simp
    have "of_nat (8 * c) div (of_nat (4 * f) :: u64) = of_nat (8 * c div (4 * f))"
    proof -
      have b: "8 * c < 2 ^ LENGTH(64)" "4 * f < 2 ^ LENGTH(64)" using a f by simp_all
      then have q: "8 * c div (4 * f) < 2 ^ LENGTH(64)" by (intro le_less_trans[OF div_le_dividend])
      show ?thesis unfolding word_unat_eq_iff unat_div by (simp only: unat_of_nat_small[OF b(1)] unat_of_nat_small[OF b(2)] unat_of_nat_small[OF q])
    qed
    moreover have "8 * c div (4 * f) = 2 * c div f" using div_mult_mult1[of 4 "2 * c" f] by simp
    moreover have "(of_nat (4 * f) :: u64) \<noteq> 0" using f by (simp add: word_unat_eq_iff unat_of_nat_small del: of_nat_mult)
    moreover have "(ucast (of_nat n :: u64) :: u32) = of_nat n" for n
      by (simp add: unsigned_of_nat word_unat_eq_iff unat_of_nat take_bit_eq_mod mod_mod_cancel)
    ultimately show ?thesis unfolding apic_timer_set_frequency_def apic_timer.simps m by (simp del: of_nat_mult)
  qed
  show "\<exists>a idt'. apic_timer_init C L h handler av idt d0 = Returns (a, idt', av + 1, d2)
          \<and> gate_offset (idt' ! unat (apic_timer_get_vector a)) = handler
          \<and> (\<forall>f d. 0 < f \<and> 4 * f < 2 ^ 64 \<longrightarrow>
               apic_timer_set_frequency L a (of_nat f) d = Returns (apic_write_reg L APIC_REG_TIMER_ICR (of_nat (2 * c div f)) d))"
    using init set vec by (intro exI[of _ ?a] exI[of _ ?idt]) (simp add: apic_timer_get_vector_def gate_offset_make)
qed


text \<open>A bus of 1 GHz: 12500000 counts in the 50 ms; for 1000 interrupts a second, 250000 counts are right and 25000 are loaded.\<close>

definition demo_lapic :: "nat lapic_io" where
  "demo_lapic = \<lparr>apic_read_reg = (\<lambda>r k. (0xFFFFFFFF - of_nat 12500000, k)),
     apic_write_reg = (\<lambda>r v k. if r = APIC_REG_TIMER_ICR \<and> v \<noteq> 0xFFFFFFFF then unat v else 0)\<rparr>"

theorem apic_timer_too_fast_witness:
  "\<exists>a idt'. apic_timer_init (running (\<lambda>k. 50 * k) (\<lambda>_. 0) (\<lambda>_. 0)) demo_lapic \<lparr>hpet = False, hpet_period = 0\<rparr> 0x1234 80
       (replicate 256 zero_gate) 0 = Returns (a, idt', 81, 3)
     \<and> apic_timer_set_frequency demo_lapic a (of_nat 1000) 0 = Returns 25000"
proof -
  let ?C = "running (\<lambda>k. 50 * k) (\<lambda>_. 0) (\<lambda>_. 0)" and ?h = "\<lparr>hpet = False, hpet_period = 0\<rparr>"
  have d: "apic_write_reg demo_lapic APIC_REG_TIMER_ICR 0xFFFFFFFF d = 0" for d by (simp add: demo_lapic_def)
  have sl: "sleep_ms ?C ?h 50 0 = Returns 3"
    by (simp add: sleep_ms_def hpet_nanosleep_def MILLIS_TO_NANOS_def pit_wait_def wait_target_def)
      (simp add: running_def, subst loop_c_unfold, simp add: wait_step_def)
  have r: "apic_read_reg demo_lapic APIC_REG_TIMER_CCR 3 = (0xFFFFFFFF - of_nat 12500000, 3)" by (simp add: demo_lapic_def)
  have c: "(80 :: u8) < 255" "length (replicate 256 zero_gate) = IDT_ENTRIES" "8 * 12500000 < (2 ^ 32 :: nat)"
    by (simp_all add: IDT_ENTRIES_def)
  have last: "apic_write_reg demo_lapic APIC_REG_TIMER_ICR (of_nat (2 * 12500000 div 1000)) 0 = 25000"
    by (simp add: demo_lapic_def)
  have e: "(80 :: u8) + 1 = 81" by simp
  have "\<exists>a idt'. apic_timer_init ?C demo_lapic ?h 0x1234 80 (replicate 256 zero_gate) 0 = Returns (a, idt', 80 + 1, 3)
      \<and> gate_offset (idt' ! unat (apic_timer_get_vector a)) = 0x1234
      \<and> (\<forall>f d. 0 < f \<and> 4 * f < 2 ^ 64 \<longrightarrow> apic_timer_set_frequency demo_lapic a (of_nat f) d
            = Returns (apic_write_reg demo_lapic APIC_REG_TIMER_ICR (of_nat (2 * 12500000 div f)) d))"
    by (rule apic_timer_too_fast[THEN spec[of _ ?C], THEN spec[of _ demo_lapic], THEN spec[of _ ?h], THEN spec[of _ "0x1234"],
      THEN spec[of _ 80], THEN spec[of _ "replicate 256 zero_gate"], THEN spec[of _ 0], THEN spec[of _ 3], THEN spec[of _ 3],
      THEN spec[of _ 12500000], THEN mp]) (use c sl r in \<open>simp add: d\<close>)
  then obtain a idt' where i: "apic_timer_init ?C demo_lapic ?h 0x1234 80 (replicate 256 zero_gate) 0 = Returns (a, idt', 80 + 1, 3)"
    and f: "\<forall>f d. 0 < f \<and> 4 * f < 2 ^ 64 \<longrightarrow> apic_timer_set_frequency demo_lapic a (of_nat f) d
            = Returns (apic_write_reg demo_lapic APIC_REG_TIMER_ICR (of_nat (2 * 12500000 div f)) d)" by blast
  have "apic_timer_set_frequency demo_lapic a (of_nat 1000) 0 = Returns 25000"
    using f[THEN spec[of _ 1000], THEN spec[of _ 0]] last by simp
  then show ?thesis using i unfolding e by blast
qed

end
