(* ===== verification/Gfx.thy ===== *)
theory Gfx
  imports Pci Vmm Timers
begin

text \<open>
  The Intel graphics device (\<open>device/display/gfx.c\<close>, \<open>gfx.h\<close>, \<open>gfx_reg.h\<close>): finding it among the PCI
  devices, mapping its windows, and the address ranges of its memory. Its registers are memory mapped,
  32 and 64 bits wide, at offsets from the window; the PCI configuration space is behind the ports.
\<close>

record 'd gfx_regs =
  gfx_ind :: "u32 \<Rightarrow> 'd \<Rightarrow> u32 \<times> 'd"
  gfx_outd :: "u32 \<Rightarrow> u32 \<Rightarrow> 'd \<Rightarrow> 'd"
  gfx_outl :: "u32 \<Rightarrow> u64 \<Rightarrow> 'd \<Rightarrow> 'd"

definition MB :: u64 where "MB = 1024 * 1024"

text \<open>In units of a megabyte.\<close>

definition GMS_TO_SIZE :: "u32 list" where
  "GMS_TO_SIZE = map (\<lambda>n. n * ucast MB)
     [0, 32, 64, 96, 128, 32, 48, 64, 128, 256, 96, 160, 224, 352, 448, 480, 512]"

definition MGGC0 :: u32 where "MGGC0 = 0x50"
definition BDSM :: u32 where "BDSM = 0x5C"
definition GTT_PAGE_SHIFT :: nat where "GTT_PAGE_SHIFT = 12"

record gfx_pci =
  aperture_bar :: u64
  mmio_bar :: u64
  gtt_addr :: u64
  iobase :: u16
  aperture_size :: u32

record gfx_gtt =
  stolen_mem_size :: u32
  gtt_mem_size :: u32
  stolen_mem_base :: u32
  num_total_entries :: u32
  num_mappable_entries :: u32
  entries :: u64

record gfx_mem_range =
  range_base :: u64
  range_top :: u64
  range_current :: u64

record gfx_mem_manager =
  vram :: gfx_mem_range
  shared :: gfx_mem_range
  priv :: gfx_mem_range
  gfx_mem_base :: u64
  gfx_mem_next :: u64

text \<open>
  The union of the base address register: writing the port leaves the upper bytes as they were. One
  variable is used for the three registers; \<open>junk\<close> is what it holds at first.
\<close>

definition bar_bits :: "u64 \<Rightarrow> bar_place \<Rightarrow> u64" where
  "bar_bits old b = (case b of Address a \<Rightarrow> a | Port p \<Rightarrow> (old AND NOT 0xFFFF) OR ucast p)"

definition gfx_init_pci :: "'d io_ports \<Rightarrow> u64 \<Rightarrow> u64 \<Rightarrow> u64 \<Rightarrow> pci_device \<Rightarrow> vm \<Rightarrow> 'd \<Rightarrow> (gfx_pci \<times> vm \<times> 'd) outcome" where
  "gfx_init_pci P junk virtual_base physical_base dev v d =
     (let pid = PCI_MAKE_DEVICE_ID dev;
          (bar, d) = pci_get_bar P pid 0 d;
          a0 = bar_bits junk (bar_u bar); mmio = virtual_base + a0 - physical_base in
      obind (vmm_map v mmio a0 (NUM_PAGES (bar_size bar)) VMM_FLAGS_MMIO) (\<lambda>v.
      let (bar, d) = pci_get_bar P pid 2 d;
          a2 = bar_bits a0 (bar_u bar); apt = virtual_base + a2 - physical_base; apt_size = ucast (bar_size bar) in
      obind (vmm_map v apt a2 (NUM_PAGES (bar_size bar)) VMM_FLAGS_MMIO) (\<lambda>v.
      let (bar, d) = pci_get_bar P pid 4 d in
      Returns (\<lparr>aperture_bar = apt, mmio_bar = mmio, gtt_addr = mmio + 2 * MB, iobase = ucast (bar_bits a2 (bar_u bar)),
                aperture_size = apt_size\<rparr>, v, d))))"

definition gtt_size :: "u16 \<Rightarrow> u32" where
  "gtt_size ggms = (if ggms = 0 then 0 else if ggms = 1 then ucast MB else if ggms = 2 then 2 * ucast MB else - 1)"

definition gfx_init_gtt :: "'d io_ports \<Rightarrow> gfx_pci \<Rightarrow> pci_device \<Rightarrow> 'd \<Rightarrow> (gfx_gtt \<times> 'd) outcome" where
  "gfx_init_gtt P pci dev d =
     (let pid = PCI_MAKE_DEVICE_ID dev; (ggc, d) = pci_inw P pid MGGC0 d; (bdsm, d) = pci_ind P pid BDSM d;
          gms = drop_bit 3 ggc AND 0x1F; ggms = drop_bit 8 ggc AND 0x3 in
      obind (rd GMS_TO_SIZE (unat gms)) (\<lambda>stolen.
        Returns (\<lparr>stolen_mem_size = stolen, gtt_mem_size = gtt_size ggms, stolen_mem_base = bdsm AND push_bit 20 0xFFF,
          num_total_entries = gtt_size ggms div 4, num_mappable_entries = drop_bit GTT_PAGE_SHIFT (aperture_size pci),
          entries = gtt_addr pci\<rparr>, d)))"

definition FENCE_BASE :: u32 where "FENCE_BASE = 0x100000"
definition FENCE_COUNT :: nat where "FENCE_COUNT = 16"

definition clear_fences :: "'d gfx_regs \<Rightarrow> 'd \<Rightarrow> 'd" where
  "clear_fences G d = fold (\<lambda>n. gfx_outl G (FENCE_BASE + 8 * of_nat n) 0) [0..<FENCE_COUNT] d"

definition mem_range :: "u64 \<Rightarrow> u64 \<Rightarrow> gfx_mem_range" where
  "mem_range b t = \<lparr>range_base = b, range_top = t, range_current = b\<rparr>"

definition gfx_init_mem_manager :: "'d gfx_regs \<Rightarrow> gfx_pci \<Rightarrow> gfx_gtt \<Rightarrow> 'd \<Rightarrow> gfx_mem_manager \<times> 'd" where
  "gfx_init_mem_manager G pci gtt d =
     (let mappable = ucast (push_bit GTT_PAGE_SHIFT (num_mappable_entries gtt)); stolen = ucast (stolen_mem_size gtt) in
      (\<lparr>vram = mem_range 0 stolen, shared = mem_range stolen mappable,
        priv = mem_range mappable (push_bit GTT_PAGE_SHIFT (ucast (num_total_entries gtt))),
        gfx_mem_base = aperture_bar pci, gfx_mem_next = aperture_bar pci + 4 * 4096\<rparr>, clear_fences G d))"

definition gfx_disable_vga :: "('d, 'm) byte_ports_scheme \<Rightarrow> ('d, 'k) clock_reads_scheme \<Rightarrow> 'd gfx_regs \<Rightarrow> 'd \<Rightarrow> 'd outcome" where
  "gfx_disable_vga P C G d =
     (let d = outb P 0x3c4 0x01 d; (b, d) = inb P 0x3c5 d; d = outb P 0x3c5 (b OR push_bit 5 1) d in
      omap (gfx_outd G 0x41000 (push_bit 31 1)) (pit_wait C 100 d))"

definition force_wake_step :: "'d gfx_regs \<Rightarrow> (u32 \<Rightarrow> bool) \<Rightarrow> 'd \<Rightarrow> ('d + 'd) outcome" where
  "force_wake_step G again d = (let (ack, d) = gfx_ind G 0x130040 d in Returns (if again ack then Inl d else Inr d))"

definition gfx_enter_force_wake :: "'d gfx_regs \<Rightarrow> 'd \<Rightarrow> 'd outcome" where
  "gfx_enter_force_wake G d =
     obind (loop_c (force_wake_step G (\<lambda>ack. ack \<noteq> 0)) d) (\<lambda>d.
       loop_c (force_wake_step G (\<lambda>ack. ack = 0)) (snd (gfx_ind G 0xA180 (gfx_outd G 0xA188 (push_bit 16 1 OR 1) d))))"

definition gfx_exit_force_wake :: "'d gfx_regs \<Rightarrow> 'd \<Rightarrow> 'd" where
  "gfx_exit_force_wake G d = snd (gfx_ind G 0xA180 (gfx_outd G 0xA188 (push_bit 16 1) d))"

definition zero_pci_device :: pci_device where
  "zero_pci_device = \<lparr>pci_bus = 0, pci_func = 0, pci_dev = 0, device_id = 0, vendor_id = 0, multifunction = False\<rparr>"

text \<open>The device the loop ends at, and whether it is the one looked for.\<close>

fun find_gfx :: "pci_device \<Rightarrow> pci_device list \<Rightarrow> pci_device \<times> bool" where
  "find_gfx dev [] = (dev, False)"
| "find_gfx dev (x # xs) =
     (if vendor_id x \<noteq> 0x8086 \<or> device_id x \<noteq> 0x0A16 then find_gfx x xs else (x, True))"

definition pci_get_gfx_device :: "'d io_ports \<Rightarrow> 'd gfx_regs \<Rightarrow> u64 \<Rightarrow> u64 \<Rightarrow> u64 \<Rightarrow> pci_device list \<Rightarrow> vm \<Rightarrow> 'd
    \<Rightarrow> (pci_device \<times> gfx_mem_manager option \<times> vm \<times> 'd) outcome" where
  "pci_get_gfx_device P G junk virtual_base physical_base devs v d =
     (let (dev, found) = find_gfx zero_pci_device devs in
      if \<not> found then Returns (dev, None, v, d)
      else obind (gfx_init_pci P junk virtual_base physical_base dev v d) (\<lambda>(pci, v, d).
           obind (gfx_init_gtt P pci dev d) (\<lambda>(gtt, d).
             let (mgr, d) = gfx_init_mem_manager G pci gtt d in Returns (dev, Some mgr, v, d))))"

section \<open>Properties\<close>

lemma find_gfx_absent:
  "\<forall>x \<in> set xs. vendor_id x \<noteq> 0x8086 \<or> device_id x \<noteq> 0x0A16 \<Longrightarrow> find_gfx dev xs = (last (dev # xs), False)"
  by (induction xs arbitrary: dev) auto

lemma gms_size:
  "n \<le> 16 \<Longrightarrow> unat (GMS_TO_SIZE ! n) \<le> 512 * 2 ^ 20"
proof -
  assume "n \<le> 16"
  then have "GMS_TO_SIZE ! n \<in> set GMS_TO_SIZE" by (intro nth_mem) (simp add: GMS_TO_SIZE_def)
  then show ?thesis unfolding GMS_TO_SIZE_def MB_def by auto
qed

text \<open>
  The memory of the graphics device: the mode field of the control register selects the size of the
  stolen memory from a table of 17, and a larger field reads beyond the table; otherwise the three
  ranges of the memory manager follow each other without a gap from 0 on, none is in use, the first is the stolen
  memory, at most 512 MiB, and the second ends with the aperture: they are in order exactly when the aperture, in
  whole pages, is no smaller than the stolen memory.
\<close>

theorem gfx_memory_ranges:
  "\<forall>P G pci dev d0. let (ggc, d1) = pci_inw P (PCI_MAKE_DEVICE_ID dev) MGGC0 d0; gms = unat (drop_bit 3 ggc AND 0x1F) in
     (case gfx_init_gtt P pci dev d0 of
        Returns (gtt, d2) \<Rightarrow>
          (let m = fst (gfx_init_mem_manager G pci gtt d2) in
           gms \<le> 16 \<and> range_base (vram m) = 0 \<and> range_top (vram m) = range_base (shared m) \<and> range_top (shared m) = range_base (priv m)
           \<and> range_current (vram m) = range_base (vram m) \<and> range_current (shared m) = range_base (shared m)
           \<and> range_current (priv m) = range_base (priv m)
           \<and> unat (range_top (vram m)) \<le> 512 * 2 ^ 20
           \<and> unat (range_top (shared m)) = unat (aperture_size pci) div 4096 * 4096
           \<and> (range_base (shared m) \<le> range_top (shared m)) = (unat (GMS_TO_SIZE ! gms) \<le> unat (aperture_size pci) div 4096 * 4096))
      | Faults e \<Rightarrow> 16 < gms \<and> e = OutOfBounds
      | Diverges \<Rightarrow> False)"
  (is "\<forall>P G pci dev d0. ?Q P G pci dev d0")
proof (intro allI)
  fix P :: "'a io_ports" and G :: "'a gfx_regs" and pci dev d0
  obtain ggc d1 where g: "pci_inw P (PCI_MAKE_DEVICE_ID dev) MGGC0 d0 = (ggc, d1)" by (cases "pci_inw P (PCI_MAKE_DEVICE_ID dev) MGGC0 d0")
  obtain bdsm d2 where b: "pci_ind P (PCI_MAKE_DEVICE_ID dev) BDSM d1 = (bdsm, d2)" by (cases "pci_ind P (PCI_MAKE_DEVICE_ID dev) BDSM d1")
  let ?gms = "unat (drop_bit 3 ggc AND 0x1F)"
  have len: "length GMS_TO_SIZE = 17" by (simp add: GMS_TO_SIZE_def)
  show "?Q P G pci dev d0"
  proof (cases "?gms \<le> 16")
    case False
    then show ?thesis by (simp add: gfx_init_gtt_def g b len Let_def)
  next
    case True
    let ?apt = "push_bit 12 (drop_bit 12 (aperture_size pci)) :: u32"
    have ap: "unat ?apt = unat (aperture_size pci) div 4096 * 4096"
    proof -
      have "unat (aperture_size pci) div 4096 * 4096 < 2 ^ 32"
        using unat_u32[of "aperture_size pci"] by (meson div_times_less_eq_dividend le_less_trans)
      then show ?thesis
        by (simp add: push_bit_eq_mult drop_bit_eq_div unat_word_ariths unat_div)
    qed
    have st: "unat (ucast (GMS_TO_SIZE ! ?gms) :: u64) = unat (GMS_TO_SIZE ! ?gms)" "unat (ucast ?apt :: u64) = unat ?apt"
      by (rule unat_ucast_up, simp)+
    show ?thesis
      using True gms_size[OF True]
      by (simp add: gfx_init_gtt_def g b len Let_def gfx_init_mem_manager_def mem_range_def GTT_PAGE_SHIFT_def
          word_le_nat_alt st ap)
  qed
qed

end
