(* ===== verification/Pci_Scan.thy ===== *)
theory Pci_Scan
  imports Pci
begin

text \<open>
  The PCI functions over a configuration space: what an access reads, what a base address register
  decodes to, and what the scan of the buses finds.
\<close>

section \<open>A configuration space\<close>

text \<open>
  The mechanism behind the two ports: the address written to the first selects the double word that
  the second reads and writes. Only the bits of \<open>writable\<close> take what is written.
\<close>

record pci_space =
  latch :: u32
  cfg :: "u32 \<Rightarrow> u32"
  writable :: "u32 \<Rightarrow> u32"

definition merge :: "u32 \<Rightarrow> u32 \<Rightarrow> u32 \<Rightarrow> u32" where
  "merge w old new = (old AND NOT w) OR (new AND w)"

definition space_outd :: "u16 \<Rightarrow> u32 \<Rightarrow> pci_space \<Rightarrow> pci_space" where
  "space_outd p v s =
     (if p = 0xCF8 then s\<lparr>latch := v\<rparr>
      else if p = 0xCFC then s\<lparr>cfg := (cfg s)(latch s := merge (writable s (latch s)) (cfg s (latch s)) v)\<rparr> else s)"

definition space_ind :: "u16 \<Rightarrow> pci_space \<Rightarrow> u32 \<times> pci_space" where
  "space_ind p s = (if p = 0xCFC then cfg s (latch s) else if p = 0xCF8 then latch s else 0xFFFFFFFF, s)"

definition pci_ports :: "pci_space io_ports" where
  "pci_ports = \<lparr>outb = (\<lambda>_ _ s. s), inb = (\<lambda>p s. (ucast (drop_bit (8 * unat (p AND 3)) (cfg s (latch s))), s)),
     outw = (\<lambda>_ _ s. s), inw = (\<lambda>p s. (ucast (drop_bit (8 * unat (p AND 2)) (cfg s (latch s))), s)),
     outd = space_outd, ind = space_ind\<rparr>"

text \<open>A read leaves the space as it is, up to the selected address.\<close>

lemma pci_ind_space: "pci_ind pci_ports i r s = (cfg s (pci_address i r), s\<lparr>latch := pci_address i r\<rparr>)"
  by (simp add: pci_ind_def pci_ports_def space_outd_def space_ind_def PCI_PORT_ADDR_def PCI_PORT_DATA_def)

lemma pci_outd_space: "pci_outd pci_ports i r v s
    = s\<lparr>latch := pci_address i r, cfg := (cfg s)(pci_address i r := merge (writable s (pci_address i r)) (cfg s (pci_address i r)) v)\<rparr>"
  by (simp add: pci_outd_def pci_ports_def space_outd_def PCI_PORT_ADDR_def PCI_PORT_DATA_def)

section \<open>Base address registers\<close>

definition bar_addr :: "u32 \<Rightarrow> u32 \<Rightarrow> u32" where
  "bar_addr i index = pci_address i (PCI_CONFIG_BAR0 + index * 4)"

lemma read_bar_space:
  "pci_read_bar pci_ports i index s =
     ((cfg s (bar_addr i index), cfg s (bar_addr i index) OR writable s (bar_addr i index)), s\<lparr>latch := bar_addr i index\<rparr>)"
proof -
  have one: "(0xFFFFFFFF :: u32) = - 1" by simp
  have m: "merge w a 0xFFFFFFFF = a OR w" "merge w (a OR w) a = a" for w a :: u32
    unfolding one by (auto simp: merge_def bit_eq_iff bit_simps)
  show ?thesis
    by (cases s) (simp add: pci_read_bar_def pci_ind_space pci_outd_space bar_addr_def Let_def m)
qed

lemma unat_two_power: "k < LENGTH('a::len) \<Longrightarrow> unat (2 ^ k :: 'a word) = 2 ^ k"
proof -
  assume "k < LENGTH('a)"
  then have "(2 :: nat) ^ k < 2 ^ LENGTH('a)" by (rule power_strict_increasing) simp
  from unat_of_nat_small [OF this] show ?thesis by simp
qed

text \<open>The size that the writable bits of a register stand for.\<close>

lemma bar_size_bits:
  fixes a :: "'a::len word"
  assumes "4 \<le> k" "k < LENGTH('a)" "a AND mask k AND NOT 0xF = 0" "w = NOT (mask k)"
  shows "NOT ((a OR w) AND NOT 0xF) + 1 = 2 ^ k"
proof -
  have f: "(0xF :: 'a word) = mask 4" by (simp add: mask_eq_exp_minus_1)
  have "(a OR w) AND NOT 0xF = w"
  proof (rule bit_word_eqI)
    fix n assume n: "n < LENGTH('a)"
    have "\<not> (bit a n \<and> n < k \<and> \<not> n < 4)" using arg_cong [OF assms(3), of "\<lambda>x. bit x n"] n by (simp add: f bit_simps)
    then show "bit ((a OR w) AND NOT 0xF) n = bit w n" using n assms(1) by (auto simp: f assms(4) bit_simps)
  qed
  then show ?thesis by (simp add: assms(4) mask_eq_exp_minus_1)
qed

text \<open>
  a base address register whose writable bits are those above its size decodes to its address and
  size, for 32-bit memory registers of 2 ^ k bytes, and for port registers whose address has bit 2
  clear; a port register with bit 2 set, as at 0x1F4, is taken for the low half of a 64-bit memory
  register, whatever the next register holds. The register is left as it was.
\<close>

theorem pci_get_bar_decodes:
  assumes a: "a = cfg s (bar_addr i index)" and w: "writable s (bar_addr i index) = NOT (mask k)"
    and size: "a AND mask k AND NOT 0xF = 0" "4 \<le> k" "k < 32"
  shows "\<exists>bar s'. pci_get_bar pci_ports i index s = (bar, s') \<and> cfg s' = cfg s
     \<and> (a AND 0x5 = 0 \<longrightarrow> bar = \<lparr>bar_u = Address (ucast (a AND NOT 0xF)), bar_size = 2 ^ k, bar_flags = a AND 0xF\<rparr>)
     \<and> (a AND 0x5 = 1 \<longrightarrow> bar_u bar = Port (ucast (a AND NOT 0x3)) \<and> bar_flags bar = a AND 0x3)
     \<and> (a AND 0x4 \<noteq> 0 \<longrightarrow> bar_u bar = Address (push_bit 32 (ucast (cfg s (bar_addr i (index + 1)))) OR ucast (a AND NOT 0xF)))"
proof -
  have sz: "NOT ((a OR NOT (mask k)) AND NOT 0xF) + 1 = (2 ^ k :: u32)"
    using bar_size_bits [OF size(2) _ size(1) refl] size(3) by simp
  have "unat (2 ^ k :: u32) = 2 ^ k" using size(3) by (simp add: unat_two_power)
  then have u: "ucast (2 ^ k :: u32) = (2 ^ k :: u64)"
    using size(3) by (simp add: word_unat_eq_iff unat_ucast_up unat_two_power)
  have split: "a AND 0x5 = (a AND 0x4) OR (a AND 0x1)"
  proof -
    have "(0x5 :: u32) = 0x4 OR 0x1" by simp
    then show ?thesis by (simp only: bit.conj_disj_distrib)
  qed
  then have b: "a AND 0x5 = 0 \<longleftrightarrow> a AND 0x4 = 0 \<and> a AND 0x1 = 0" by (simp only: or_eq_0_iff)
  have b1: "a AND 0x4 = 0 \<and> a AND 0x1 \<noteq> 0" if "a AND 0x5 = 1"
  proof -
    have "(a AND 0x5) AND 0x4 = a AND 0x4" "(a AND 0x5) AND 0x1 = a AND 0x1" by (simp_all add: and.assoc)
    then show ?thesis using that by simp
  qed
  have mb: "mem_bar a (a OR NOT (mask k)) = \<lparr>bar_u = Address (ucast (a AND NOT 0xF)), bar_size = 2 ^ k, bar_flags = a AND 0xF\<rparr>"
    unfolding mem_bar_def sz u ..
  show ?thesis
    using b b1 by (cases "a AND 0x4 = 0"; cases "a AND 0x1 = 0")
      (auto simp: pci_get_bar_def read_bar_space w a [symmetric] PCI_BAR_64_def PCI_BAR_IO_def mb wide_bar_def
        port_bar_def)
qed

lemma pci_get_bar_decodes_witness:
  "\<exists>bar s'. pci_get_bar pci_ports 0x800 0
       \<lparr>latch = 0, cfg = (\<lambda>_. 0xFEB00008), writable = (\<lambda>_. NOT (mask 20))\<rparr> = (bar, s')
     \<and> bar = \<lparr>bar_u = Address 0xFEB00000, bar_size = 2 ^ 20, bar_flags = 0x8\<rparr>"
proof -
  let ?s = "\<lparr>latch = 0, cfg = (\<lambda>_. 0xFEB00008), writable = (\<lambda>_. NOT (mask 20))\<rparr>"
  have "(0xFEB00008 :: u32) = cfg ?s (bar_addr 0x800 0)" "writable ?s (bar_addr 0x800 0) = NOT (mask 20)"
    "(0xFEB00008 :: u32) AND mask 20 AND NOT 0xF = 0" by (simp_all add: mask_eq_exp_minus_1)
  from pci_get_bar_decodes [OF this] show ?thesis by auto
qed

section \<open>What the scan finds\<close>

text \<open>The facts that the scan reads of a configuration space, by bus, device and function.\<close>

definition dword :: "(u32 \<Rightarrow> u32) \<Rightarrow> u8 \<Rightarrow> u8 \<Rightarrow> u8 \<Rightarrow> u32 \<Rightarrow> u32" where
  "dword c b dv f r = c (pci_address (PCI_MAKE_DEVICE_ID (pci_device_at b dv f)) r)"

definition present :: "(u32 \<Rightarrow> u32) \<Rightarrow> u8 \<Rightarrow> u8 \<Rightarrow> u8 \<Rightarrow> bool" where
  "present c b dv f \<longleftrightarrow> (ucast (dword c b dv f 0 AND 0xFFFF) :: u16) \<noteq> 0xFFFF"

definition sub_bus :: "(u32 \<Rightarrow> u32) \<Rightarrow> u8 \<Rightarrow> u8 \<Rightarrow> u8" where
  "sub_bus c b dv = ucast (drop_bit 8 (dword c b dv 0 0x18) AND 0xFF)"

text \<open>What the code takes for a bridge: class 6 with a subclass of 1, up to its top bit.\<close>

definition bridge :: "(u32 \<Rightarrow> u32) \<Rightarrow> u8 \<Rightarrow> u8 \<Rightarrow> bool" where
  "bridge c b dv \<longleftrightarrow> drop_bit 16 (dword c b dv 0 8) AND NOT 0x80 AND 0xFF = 1 \<and> drop_bit 24 (dword c b dv 0 8) = 6"

definition leads :: "(u32 \<Rightarrow> u32) \<Rightarrow> u8 \<Rightarrow> u8 \<Rightarrow> bool" where
  "leads c b dv \<longleftrightarrow> present c b dv 0 \<and> bridge c b dv \<and> sub_bus c b dv \<noteq> b"

definition entry :: "(u32 \<Rightarrow> u32) \<Rightarrow> u8 \<Rightarrow> u8 \<Rightarrow> u8 \<Rightarrow> pci_device" where
  "entry c b dv f = (pci_device_at b dv f)\<lparr>device_id := ucast (drop_bit 16 (dword c b dv f 0)),
     vendor_id := ucast (dword c b dv f 0 AND 0xFFFF), multifunction := (f = 0)\<rparr>"

text \<open>The functions of a slot: all that exist, if function 0 does.\<close>

definition slot :: "(u32 \<Rightarrow> u32) \<Rightarrow> u8 \<Rightarrow> u8 \<Rightarrow> pci_device list" where
  "slot c b dv = (if present c b dv 0 then map (entry c b dv) (filter (present c b dv) (map of_nat [0..<MAX_FUNCTION])) else [])"

text \<open>The reference: a bus is the list of its slots, each preceded by the bus behind it, if any.\<close>

function bus_list :: "(u32 \<Rightarrow> u32) \<Rightarrow> u8 \<Rightarrow> pci_device list" where
  "bus_list c b = concat (map (\<lambda>dv. (if leads c b (of_nat dv) \<and> b < sub_bus c b (of_nat dv)
       then bus_list c (sub_bus c b (of_nat dv)) else []) @ slot c b (of_nat dv)) [0..<MAX_DEVICE])"
  by pat_completeness auto
termination
  by (relation "measure (\<lambda>(c, b). 256 - unat b)")
    (auto simp: word_less_nat_alt intro!: diff_less_mono2 less_le_trans [OF _ unat_u8 [THEN less_imp_le, simplified]] unat_u8 [simplified])

declare bus_list.simps [simp del]

definition same_cfg :: "pci_space \<Rightarrow> pci_space \<Rightarrow> bool" where
  "same_cfg s s' \<longleftrightarrow> cfg s' = cfg s"

lemma exist_space: "pci_func_exist pci_ports (pci_device_at b dv f) s
    = (present (cfg s) b dv f, s\<lparr>latch := pci_address (PCI_MAKE_DEVICE_ID (pci_device_at b dv f)) 0\<rparr>)"
  by (simp add: pci_func_exist_def pci_ind_space present_def dword_def PCI_CLASS_LEGACY_def)

lemma is_bridge_space: "\<exists>s'. pci_is_bridge pci_ports (pci_device_at b dv 0) s = (bridge (cfg s) b dv, s') \<and> cfg s' = cfg s"
  by (simp add: pci_is_bridge_def pci_read_header_def pci_read_class_def pci_ind_space bridge_def dword_def
      PCI_CLASS_PERIHPERALS_def)

lemma sub_bus_space: "pci_read_sub_bus pci_ports (pci_device_at b dv 0) s
    = (sub_bus (cfg s) b dv, s\<lparr>latch := pci_address (PCI_MAKE_DEVICE_ID (pci_device_at b dv 0)) 0x18\<rparr>)"
  by (simp add: pci_read_sub_bus_def pci_ind_space sub_bus_def dword_def)

lemma probe_space:
  "\<exists>s'. probe pci_ports b dv s = (present (cfg s) b dv 0, present (cfg s) b dv 0,
      if leads (cfg s) b dv then Some (sub_bus (cfg s) b dv) else None, s') \<and> cfg s' = cfg s"
proof -
  let ?s = "s\<lparr>latch := pci_address (PCI_MAKE_DEVICE_ID (pci_device_at b dv 0)) 0\<rparr>"
  obtain s' where s': "pci_is_bridge pci_ports (pci_device_at b dv 0) ?s = (bridge (cfg s) b dv, s')" "cfg s' = cfg s"
    using is_bridge_space [of b dv ?s] by auto
  then show ?thesis
    by (cases "present (cfg s) b dv 0 \<and> bridge (cfg s) b dv"; cases "sub_bus (cfg s) b dv = b")
      (auto simp: probe_def exist_space sub_bus_space leads_def Let_def)
qed

lemma read_ids_space:
  "\<exists>s'. read_ids pci_ports dev s = (dev\<lparr>device_id := ucast (drop_bit 16 (cfg s (pci_address (PCI_MAKE_DEVICE_ID dev) 0))),
      vendor_id := ucast (cfg s (pci_address (PCI_MAKE_DEVICE_ID dev) 0) AND 0xFFFF)\<rparr>, s') \<and> cfg s' = cfg s"
  by (simp add: read_ids_def pci_read_device_id_def pci_read_vendor_id_def pci_ind_space PCI_CLASS_LEGACY_def)

lemma scan_functions_space:
  "0 \<notin> set fs \<Longrightarrow> \<exists>s'. scan_functions pci_ports b dv fs (devs, s)
      = (devs @ map (entry (cfg s) b dv) (filter (present (cfg s) b dv) fs), s') \<and> cfg s' = cfg s"
proof (induction fs arbitrary: devs s)
  case (Cons f fs)
  let ?s = "s\<lparr>latch := pci_address (PCI_MAKE_DEVICE_ID (pci_device_at b dv f)) 0\<rparr>"
  show ?case
  proof (cases "present (cfg s) b dv f")
    case False
    from Cons.IH [of devs ?s] Cons.prems False show ?thesis by (simp add: exist_space)
  next
    case True
    from read_ids_space [of "pci_device_at b dv f" ?s] obtain s1 where
      s1: "read_ids pci_ports (pci_device_at b dv f) ?s = (entry (cfg s) b dv f, s1)" "cfg s1 = cfg s"
      using Cons.prems by (auto simp: entry_def dword_def pci_device_at_def)
    from Cons.IH [of "devs @ [entry (cfg s) b dv f]" s1] Cons.prems True s1 show ?thesis by (simp add: exist_space)
  qed
qed simp

lemma record_device_space:
  assumes "present (cfg s) b dv 0"
  shows "\<exists>s'. record_device pci_ports b dv True (devs, s) = (devs @ slot (cfg s) b dv, s') \<and> cfg s' = cfg s"
proof -
  let ?d = "(pci_device_at b dv 0)\<lparr>multifunction := True\<rparr>"
  have id: "PCI_MAKE_DEVICE_ID ?d = PCI_MAKE_DEVICE_ID (pci_device_at b dv 0)"
    by (simp add: PCI_MAKE_DEVICE_ID_def)
  have "?d\<lparr>device_id := ucast (drop_bit 16 (dword (cfg s) b dv 0 0)), vendor_id := ucast (dword (cfg s) b dv 0 0 AND 0xFFFF)\<rparr>
      = entry (cfg s) b dv 0"
    by (simp add: entry_def pci_device_at_def)
  with read_ids_space [of ?d s] obtain s1 where s1: "read_ids pci_ports ?d s = (entry (cfg s) b dv 0, s1)" "cfg s1 = cfg s"
    unfolding id dword_def by auto
  have fs: "map of_nat [0..<MAX_FUNCTION] = (0 :: u8) # map of_nat [1..<MAX_FUNCTION]"
    by (simp add: MAX_FUNCTION_def upt_conv_Cons)
  have "0 \<notin> set (map of_nat [1..<MAX_FUNCTION] :: u8 list)" by (simp add: MAX_FUNCTION_def upt_conv_Cons)
  from scan_functions_space [OF this, of b dv "devs @ [entry (cfg s) b dv 0]" s1] s1 assms show ?thesis
    by (simp add: record_device_def slot_def fs)
qed

text \<open>Buses are numbered as firmware numbers them: a bus behind a bridge has a higher number.\<close>

definition ordered :: "(u32 \<Rightarrow> u32) \<Rightarrow> bool" where
  "ordered c \<longleftrightarrow> (\<forall>b dv. leads c b dv \<longrightarrow> b < sub_bus c b dv)"

definition bus_slot :: "(u32 \<Rightarrow> u32) \<Rightarrow> u8 \<Rightarrow> nat \<Rightarrow> pci_device list" where
  "bus_slot c b dv = (if leads c b (of_nat dv) then bus_list c (sub_bus c b (of_nat dv)) else []) @ slot c b (of_nat dv)"

lemma bus_list_slots: "ordered c \<Longrightarrow> bus_list c b = concat (map (bus_slot c b) [0..<MAX_DEVICE])"
  by (subst bus_list.simps) (auto simp: ordered_def bus_slot_def intro!: arg_cong [where f = concat])

lemma scan_space:
  assumes ord: "ordered c"
  shows "cfg s = c \<Longrightarrow> dv \<le> MAX_DEVICE \<Longrightarrow>
    \<exists>s'. scan_from pci_ports b dv (devs, s) = Some (devs @ concat (map (bus_slot c b) [dv..<MAX_DEVICE]), s') \<and> cfg s' = c"
proof (induction "256 - unat b" arbitrary: b dv devs s rule: less_induct)
  case less
  note outer = less.hyps
  from less.prems show ?case
  proof (induction "MAX_DEVICE - dv" arbitrary: dv devs s)
    case 0
    then show ?case by (subst scan_from.simps) simp
  next
    case (Suc n)
    have dv: "dv < MAX_DEVICE" using Suc.hyps(2) by simp
    let ?dv = "of_nat dv :: u8"
    from probe_space [of b ?dv s] Suc.prems(1) obtain s1 where
      s1: "probe pci_ports b ?dv s = (present c b ?dv 0, present c b ?dv 0,
          if leads c b ?dv then Some (sub_bus c b ?dv) else None, s1)" "cfg s1 = c" by auto
    define devs1 where "devs1 = devs @ (if leads c b ?dv then bus_list c (sub_bus c b ?dv) else [])"
    have "\<exists>s2. (case (if leads c b ?dv then Some (sub_bus c b ?dv) else None) of None \<Rightarrow> Some (devs, s1)
           | Some sb \<Rightarrow> scan_from pci_ports sb 0 (devs, s1)) = Some (devs1, s2) \<and> cfg s2 = c"
    proof (cases "leads c b ?dv")
      case True
      then have "b < sub_bus c b ?dv" using ord by (simp add: ordered_def)
      then have "256 - unat (sub_bus c b ?dv) < 256 - unat b"
        using unat_u8 [of "sub_bus c b ?dv"] by (simp add: word_less_nat_alt)
      from outer [OF this s1(2), of 0 devs] True show ?thesis by (simp add: devs1_def bus_list_slots [OF ord])
    qed (simp add: devs1_def s1(2))
    then obtain s2 where s2: "(case (if leads c b ?dv then Some (sub_bus c b ?dv) else None) of None \<Rightarrow> Some (devs, s1)
           | Some sb \<Rightarrow> scan_from pci_ports sb 0 (devs, s1)) = Some (devs1, s2)" "cfg s2 = c" by blast
    obtain s3 where s3: "(if present c b ?dv 0 then record_device pci_ports b ?dv (present c b ?dv 0) (devs1, s2) else (devs1, s2))
        = (devs1 @ slot c b ?dv, s3)" "cfg s3 = c"
      using record_device_space [of s2 b ?dv devs1] s2(2) by (cases "present c b ?dv 0") (auto simp: slot_def)
    have "n = MAX_DEVICE - Suc dv" "Suc dv \<le> MAX_DEVICE" using Suc.hyps(2) dv by auto
    from Suc.hyps(1) [OF this(1) s3(2) this(2), of "devs1 @ slot c b ?dv"] obtain s' where
      s': "scan_from pci_ports b (Suc dv) (devs1 @ slot c b ?dv, s3)
          = Some ((devs1 @ slot c b ?dv) @ concat (map (bus_slot c b) [Suc dv..<MAX_DEVICE]), s')" "cfg s' = c" by blast
    have "scan_from pci_ports b dv (devs, s) = scan_from pci_ports b (Suc dv) (devs1 @ slot c b ?dv, s3)"
      using dv by (subst scan_from.simps) (simp add: s1(1) s2(1) s3(1) del: split_paired_Ex)
    with s' dv show ?case by (simp add: upt_conv_Cons devs1_def bus_slot_def)
  qed
qed

lemma pci_init_finds:
  assumes "ordered (cfg s)"
  shows "\<exists>s'. pci_init pci_ports (devs, s) = Returns (devs @ bus_list (cfg s) 0, s') \<and> cfg s' = cfg s"
  using scan_space [OF assms refl, of 0 0 devs] by (auto simp: pci_init_def pci_scan_bus_def bus_list_slots [OF assms])

text \<open>
  C10: on a machine whose buses are numbered in order the scan ends, and finds the functions of every
  slot it looks at, bus by bus, each once and in the order of the reference list; it changes no
  register.
\<close>

theorem pci_scan_finds_all:
  assumes "ordered (cfg s)"
  shows "\<exists>s'. pci_init pci_ports (devs, s) = Returns (devs @ bus_list (cfg s) 0, s') \<and> cfg s' = cfg s"
  using assms by (rule pci_init_finds)

text \<open>
  two buses that each lead to the other from their first slot are scanned for ever: the
  recursion has no bound.
\<close>

theorem pci_scan_cycle_diverges:
  assumes x: "leads (cfg s) x 0" "sub_bus (cfg s) x 0 = y" and y: "leads (cfg s) y 0" "sub_bus (cfg s) y 0 = x"
  shows "pci_scan_bus pci_ports x (devs, s) = Diverges"
proof -
  let ?c = "cfg s"
  let ?P = "\<lambda>(((P, b), dv), st) r. P = pci_ports \<longrightarrow> (b = x \<or> b = y) \<longrightarrow> dv = (0 :: nat) \<longrightarrow> cfg (snd st) \<noteq> ?c"
  have "False" if "scan_from pci_ports x 0 (devs, s) = Some r" for r
  proof -
    have "?P (((pci_ports, x), 0), (devs, s)) r"
    proof (rule scan_from.raw_induct [where Pa = ?P, OF _ that], unfold prod.case, intro impI notI)
      fix f and P :: "pci_space io_ports" and b :: u8 and dv :: nat and st :: "pci_device list \<times> pci_space" and r
      assume IH: "\<And>P b dv st r. f P b dv st = Some r \<Longrightarrow> P = pci_ports \<longrightarrow> (b = x \<or> b = y) \<longrightarrow> dv = (0 :: nat) \<longrightarrow> cfg (snd st) \<noteq> ?c"
        and f: "(if MAX_DEVICE \<le> dv then Some st else case st of (devs, d) \<Rightarrow>
          (case probe P b (of_nat dv) d of (ex, multi, sub, d) \<Rightarrow>
             Option.bind (case sub of None \<Rightarrow> Some (devs, d) | Some s \<Rightarrow> f P s 0 (devs, d)) (\<lambda>st.
               f P b (Suc dv) (if ex then record_device P b (of_nat dv) multi st else st)))) = Some r"
        and a: "P = pci_ports" "b = x \<or> b = y" "dv = 0" "cfg (snd st) = ?c"
      from probe_space [of b 0 "snd st"] x y a obtain d1 z where
        p: "probe P b 0 (snd st) = (True, True, Some z, d1)" "cfg d1 = ?c" "z = x \<or> z = y"
        by (auto simp: leads_def)
      from f a p obtain r1 where "f P z 0 (fst st, d1) = Some r1"
        by (cases st) (auto simp: MAX_DEVICE_def Option.bind_eq_Some_conv split: option.splits)
      from IH [OF this] p a(1) show False by simp
    qed
    then show False by simp
  qed
  then have "scan_from pci_ports x 0 (devs, s) = None" by (cases "scan_from pci_ports x 0 (devs, s)") auto
  then show ?thesis by (simp add: pci_scan_bus_def)
qed

definition demo_cfg :: "u32 \<Rightarrow> u32" where
  "demo_cfg a = (if a = 0x80000000 then 0x12378086 else if a = 0x80000008 then 0x06000000
     else if a = 0x80001800 then 0x100E8086 else 0xFFFFFFFF)"

lemma demo_ordered: "ordered demo_cfg" "\<not> leads demo_cfg b dv"
proof -
  have "\<not> bridge demo_cfg b dv" for b dv by (auto simp: bridge_def dword_def demo_cfg_def)
  then show "\<not> leads demo_cfg b dv" for b dv by (simp add: leads_def)
  then show "ordered demo_cfg" by (simp add: ordered_def)
qed

lemma demo_present: "present demo_cfg 0 dv f \<longleftrightarrow> (let a = pci_address (PCI_MAKE_DEVICE_ID (pci_device_at 0 dv f)) 0
    in a = 0x80000000 \<or> a = 0x80001800 \<or> a = 0x80000008)"
  by (simp add: present_def dword_def demo_cfg_def Let_def)

lemma demo_slots: "map (\<lambda>d. (pci_dev d, vendor_id d, device_id d)) (concat (map (slot demo_cfg 0) (map of_nat [0..<MAX_DEVICE])))
    = [(0, 0x8086, 0x1237), (3, 0x8086, 0x100E)]"
  by (simp add: slot_def demo_present MAX_DEVICE_def MAX_FUNCTION_def upt_conv_Cons pci_address_def
      PCI_MAKE_DEVICE_ID_def pci_device_at_def entry_def dword_def demo_cfg_def)

lemma pci_scan_finds_all_witness:
  "\<exists>devs s'. pci_init pci_ports ([], \<lparr>latch = 0, cfg = demo_cfg, writable = \<lambda>_. 0\<rparr>) = Returns (devs, s')
     \<and> map (\<lambda>d. (pci_dev d, vendor_id d, device_id d)) devs = [(0, 0x8086, 0x1237), (3, 0x8086, 0x100E)]"
proof -
  have "bus_list demo_cfg 0 = concat (map (slot demo_cfg 0) (map of_nat [0..<MAX_DEVICE]))"
    unfolding bus_list_slots [OF demo_ordered(1)]
    by (intro arg_cong [where f = concat]) (simp add: bus_slot_def demo_ordered(2))
  with demo_slots pci_scan_finds_all [of "\<lparr>latch = 0, cfg = demo_cfg, writable = \<lambda>_. 0\<rparr>" "[]"] demo_ordered(1)
  show ?thesis by auto
qed

lemma pci_scan_cycle_diverges_witness:
  "pci_scan_bus pci_ports 0 ([], \<lparr>latch = 0, cfg = \<lambda>a. if a = 0x80000018 then 0x100 else if a = 0x80010018 then 0
       else if a = 0x80000008 \<or> a = 0x80010008 then 0x06010000 else 0x70008086, writable = \<lambda>_. 0\<rparr>) = Diverges"
  by (rule pci_scan_cycle_diverges [where y = 1])
    (simp_all add: leads_def present_def bridge_def sub_bus_def dword_def pci_address_def PCI_MAKE_DEVICE_ID_def pci_device_at_def)

text \<open>
  the header type is read from the class register, so that the test for a bridge answers yes for
  an ISA bridge (class 06, subclass 01), and no for a PCI-to-PCI bridge (class 06, subclass 04):
  the buses behind those are never scanned.
\<close>

theorem pci_bridge_test:
  "(drop_bit 16 (dword (cfg s) b dv 0 8) = 0x0601 \<longrightarrow> fst (pci_is_bridge pci_ports (pci_device_at b dv 0) s))
    \<and> (drop_bit 16 (dword (cfg s) b dv 0 8) = 0x0604 \<longrightarrow> \<not> fst (pci_is_bridge pci_ports (pci_device_at b dv 0) s))"
proof -
  have "fst (pci_is_bridge pci_ports (pci_device_at b dv 0) s) = bridge (cfg s) b dv"
    using is_bridge_space [of b dv s] by auto
  moreover have e: "drop_bit 24 (dword (cfg s) b dv 0 8) = drop_bit 8 (drop_bit 16 (dword (cfg s) b dv 0 8))" by simp
  ultimately show ?thesis unfolding bridge_def e by (auto simp del: drop_bit_drop_bit)
qed

lemma pci_bridge_test_witness:
  "\<not> fst (pci_is_bridge pci_ports (pci_device_at 0 1 0) \<lparr>latch = 0, cfg = \<lambda>_. 0x06040012, writable = \<lambda>_. 0\<rparr>)"
  using pci_bridge_test [of "\<lparr>latch = 0, cfg = \<lambda>_. 0x06040012, writable = \<lambda>_. 0\<rparr>" 0 1] by (simp add: dword_def)

end
