(* ===== verification/Commands.thy ===== *)
theory Commands
  imports Dumps Shell Gfx Pci_Scan
begin

text \<open>
  The kernel's commands (\<open>cmd_list\<close> of \<open>kmain.c\<close>): \<open>memory\<close>, \<open>vfs\<close>, \<open>pci\<close> and \<open>ls\<close>, what \<open>kshell\<close> does before its
  first key, and what typing a command does to the machine. The commands work on the file system; the memory figures and
  the list of PCI devices do not change while they run.
\<close>

section \<open>The commands\<close>

definition pmm_dump_usage :: "u8 list \<Rightarrow> mem_info \<Rightarrow> klogs \<times> terms \<Rightarrow> (klogs \<times> terms) outcome" where
  "pmm_dump_usage font m =
     kprintf font (c_lit (''Physical memory usage:'' @ NEWLINE @ ''  Total: %8d KB (%4d MB)'' @ NEWLINE
         @ ''  Free : %8d KB (%4d MB)'' @ NEWLINE @ ''  Used : %8d KB (%4d MB)'' @ NEWLINE))
       (map Num (usage_figures m))"

definition kernel_command :: "u8 list \<Rightarrow> log_env \<Rightarrow> 'd fs_table \<Rightarrow> (nat \<Rightarrow> u64) \<Rightarrow> mem_info \<Rightarrow> pci_device list
    \<Rightarrow> nat \<Rightarrow> 'd vfs command" where
  "kernel_command font env F addr m devs k x =
     (case x of (s, st) \<Rightarrow>
        if k = 0 then omap (Pair s) (pmm_dump_usage font m st)
        else if k = 1 then omap (Pair s) (vfs_debug font addr s st)
        else if k = 2 then omap (Pair s) (pci_debug font devs st)
        else dir_test font env F (s, st))"

section \<open>The start of the shell\<close>

definition shell_greeting :: "u8 list \<Rightarrow> log_env \<Rightarrow> klogs \<times> terms \<Rightarrow> (klogs \<times> terms) outcome" where
  "shell_greeting font env st =
     obind (klogi font env (''Shell task started'' @ NEWLINE) [] st) (\<lambda>st.
     obind (kprintf font (c_lit (''?[11;1m%s?[0m'' @ NEWLINE @ NEWLINE)) [Str (c_lit ''Hello World'')] st) (\<lambda>st.
     obind (kprintf font (c_lit (''?[11;1m%s?[0m Type \"?[14;1m%s?[0m\" for command list'' @ NEWLINE))
       [Str (c_lit ''Welcome to HanOS world!''), Str (c_lit ''help'')] st) (prompt font)))"

text \<open>The bus is scanned and the graphics device set up. \<open>env\<close> has the times of the first two log lines.\<close>

definition kshell_begin :: "u8 list \<Rightarrow> log_env \<Rightarrow> log_env \<Rightarrow> 'd io_ports \<Rightarrow> 'd gfx_regs \<Rightarrow> u64 \<Rightarrow> u64 \<Rightarrow> u64
    \<Rightarrow> pci_device list \<Rightarrow> vm \<Rightarrow> 'd \<Rightarrow> klogs \<times> terms \<Rightarrow> (shell \<times> pci_device list \<times> vm \<times> 'd \<times> klogs \<times> terms) outcome" where
  "kshell_begin font env env' P G stale virtual_base physical_base devs v d st =
     obind (shell_greeting font env st) (\<lambda>st.
     obind (pci_init P (devs, d)) (\<lambda>(devs, d).
     obind (klogi font env' (''PCI: Full recursive device scan done, [%d] devices found'' @ NEWLINE)
       [Num (of_nat (length devs))] st) (\<lambda>st.
     obind (pci_get_gfx_device P G stale virtual_base physical_base devs v d) (\<lambda>(_, _, v, d).
       Returns (kshell_start, devs, v, d, st)))))"

section \<open>Typing a command\<close>

lemma run_known:
  assumes "k < 4"
  shows "run_command font proc (map of_char (fst (cmd_list ! k)) @ [0]) = proc k"
proof -
  have "k = 0 \<or> k = Suc 0 \<or> k = Suc (Suc 0) \<or> k = Suc (Suc (Suc 0))" using assms by arith
  then show ?thesis
    by (intro ext) (auto simp: run_command_def same_text_def c_text_def cmd_list_def split: prod.split)
qed

lemma command_printable: "k < 4 \<Longrightarrow> list_all printable (map of_char (fst (cmd_list ! k))) \<and> fst (cmd_list ! k) \<noteq> [] \<and> length (fst (cmd_list ! k)) \<le> 6"
proof -
  assume "k < 4"
  then have "k = 0 \<or> k = Suc 0 \<or> k = Suc (Suc 0) \<or> k = Suc (Suc (Suc 0))" by arith
  then show ?thesis by (auto simp: cmd_list_def printable_def)
qed

text \<open>Typing the name of a command runs it.\<close>

lemma typed_runs:
  assumes "holds sh []" "k < 4"
  shows "\<exists>sh'. holds sh' [] \<and> (\<forall>x st. in_cli st \<longrightarrow>
     kshell_keys font proc (map of_char (fst (cmd_list ! k)) @ [0x0A]) (sh, x, st)
       = obind (echo_keys font (map of_char (fst (cmd_list ! k))) st) (\<lambda>st. obind (enter_line font st) (\<lambda>st.
           obind (proc k (x, st)) (\<lambda>(x, st). omap (\<lambda>st. (sh', x, st)) (prompt font st)))))"
proof -
  let ?l = "map of_char (fst (cmd_list ! k)) :: u8 list"
  have "?l \<noteq> []" "length ?l \<le> 1022" "list_all printable ?l" using command_printable [OF assms(2)] by auto
  from line_runs [OF assms(1) this, of font proc] obtain sh' where h: "holds sh' []"
    "\<forall>x st. in_cli st \<longrightarrow> kshell_keys font proc (?l @ [0x0A]) (sh, x, st)
       = obind (echo_keys font ?l st) (\<lambda>st. omap (Pair sh') (run_line font proc ?l (x, st)))" by blast
  have "omap (Pair sh') (run_line font proc ?l (x, st)) = obind (enter_line font st) (\<lambda>st.
           obind (proc k (x, st)) (\<lambda>(x, st). omap (\<lambda>st. (sh', x, st)) (prompt font st)))" for x st
    by (simp add: run_line_def run_known [OF assms(2)] outcome_laws case_prod_unfold)
  with h show ?thesis by auto
qed





end
