(* ===== verification/Ata.thy ===== *)
theory Ata
  imports Sectors Ports CMemory
begin

text \<open>
  The ATA driver (\<open>device/storage/ata.c\<close>, \<open>ata.h\<close>), down to its port accesses: reset, polling,
  IDENTIFY of ATA and ATAPI devices, and reading and writing sectors by programmed I/O with 28-bit
  addresses. The drives are the device behind the ports \<open>P\<close>. Log lines are left out.
\<close>

section \<open>Registers and data\<close>

definition ATA_SR_BSY :: u8 where "ATA_SR_BSY = 0x80"
definition ATA_SR_DRDY :: u8 where "ATA_SR_DRDY = 0x40"
definition ATA_SR_DF :: u8 where "ATA_SR_DF = 0x20"
definition ATA_SR_DRQ :: u8 where "ATA_SR_DRQ = 0x08"
definition ATA_SR_ERR :: u8 where "ATA_SR_ERR = 0x01"

definition ATA_CMD_READ_PIO :: u8 where "ATA_CMD_READ_PIO = 0x20"
definition ATA_CMD_WRITE_PIO :: u8 where "ATA_CMD_WRITE_PIO = 0x30"
definition ATA_CMD_CACHE_FLUSH :: u8 where "ATA_CMD_CACHE_FLUSH = 0xE7"
definition ATA_CMD_PACKET :: u8 where "ATA_CMD_PACKET = 0xA0"
definition ATA_CMD_IDENTIFY_PACKET :: u8 where "ATA_CMD_IDENTIFY_PACKET = 0xA1"
definition ATA_CMD_IDENTIFY :: u8 where "ATA_CMD_IDENTIFY = 0xEC"

definition ATA_REG_DATA :: u16 where "ATA_REG_DATA = 0x00"
definition ATA_REG_ERROR :: u16 where "ATA_REG_ERROR = 0x01"
definition ATA_REG_FEATURES :: u16 where "ATA_REG_FEATURES = 0x01"
definition ATA_REG_SECCOUNT0 :: u16 where "ATA_REG_SECCOUNT0 = 0x02"
definition ATA_REG_LBA0 :: u16 where "ATA_REG_LBA0 = 0x03"
definition ATA_REG_LBA1 :: u16 where "ATA_REG_LBA1 = 0x04"
definition ATA_REG_LBA2 :: u16 where "ATA_REG_LBA2 = 0x05"
definition ATA_REG_HDDEVSEL :: u16 where "ATA_REG_HDDEVSEL = 0x06"
definition ATA_REG_COMMAND :: u16 where "ATA_REG_COMMAND = 0x07"
definition ATA_REG_STATUS :: u16 where "ATA_REG_STATUS = 0x07"
definition ATA_REG_CONTROL :: u16 where "ATA_REG_CONTROL = 0x0C"
definition ATA_REG_ALTSTATUS :: u16 where "ATA_REG_ALTSTATUS = 0x0C"

lemmas ata_regs = ATA_REG_DATA_def ATA_REG_ERROR_def ATA_REG_FEATURES_def ATA_REG_SECCOUNT0_def ATA_REG_LBA0_def
  ATA_REG_LBA1_def ATA_REG_LBA2_def ATA_REG_HDDEVSEL_def ATA_REG_COMMAND_def ATA_REG_STATUS_def ATA_REG_CONTROL_def
  ATA_REG_ALTSTATUS_def

lemmas ata_status = ATA_SR_BSY_def ATA_SR_DRDY_def ATA_SR_DF_def ATA_SR_DRQ_def ATA_SR_ERR_def

text \<open>A device: \<open>identity\<close> holds the 512 bytes of \<open>ata_identify_t\<close>.\<close>

record ata_device =
  io_base :: u16
  control :: u16
  slave :: u8
  is_atapi :: bool
  identity :: "u8 list"
  atapi_lba :: u32
  atapi_sector_size :: u32

definition ata_device_at :: "u16 \<Rightarrow> u16 \<Rightarrow> u8 \<Rightarrow> ata_device" where
  "ata_device_at base ctrl sl = \<lparr>io_base = base, control = ctrl, slave = sl, is_atapi = False,
     identity = replicate 512 0, atapi_lba = 0, atapi_sector_size = 0\<rparr>"

definition ata_primary_master :: ata_device where "ata_primary_master = ata_device_at 0x1F0 0x3F6 0"
definition ata_primary_slave :: ata_device where "ata_primary_slave = ata_device_at 0x1F0 0x3F6 1"
definition ata_secondary_master :: ata_device where "ata_secondary_master = ata_device_at 0x170 0x376 0"
definition ata_secondary_slave :: ata_device where "ata_secondary_slave = ata_device_at 0x170 0x376 1"

definition model_off :: nat where "model_off = 54"
definition serial_off :: nat where "serial_off = 20"

definition sectors_28 :: "ata_device \<Rightarrow> u32" where "sectors_28 dv = le_word (take 4 (drop 120 (identity dv)))"
definition sectors_48 :: "ata_device \<Rightarrow> u64" where "sectors_48 dv = le_word (take 8 (drop 200 (identity dv)))"

section \<open>Port accesses\<close>

definition rin :: "'d io_ports \<Rightarrow> ata_device \<Rightarrow> u16 \<Rightarrow> 'd \<Rightarrow> u8 \<times> 'd" where
  "rin P dv r d = inb P (io_base dv + r) d"

definition rout :: "'d io_ports \<Rightarrow> ata_device \<Rightarrow> u16 \<Rightarrow> u8 \<Rightarrow> 'd \<Rightarrow> 'd" where
  "rout P dv r b d = outb P (io_base dv + r) b d"

text \<open>\<open>rep insw\<close>: the words read, low byte first.\<close>

fun port_insw :: "'d io_ports \<Rightarrow> u16 \<Rightarrow> nat \<Rightarrow> 'd \<Rightarrow> u8 list \<times> 'd" where
  "port_insw P port 0 d = ([], d)"
| "port_insw P port (Suc n) d =
     (let (w, d) = inw P port d; (bs, d) = port_insw P port n d in (word_le 2 w @ bs, d))"

fun port_outs :: "'d io_ports \<Rightarrow> u16 \<Rightarrow> u16 list \<Rightarrow> 'd \<Rightarrow> 'd" where
  "port_outs P port [] d = d"
| "port_outs P port (w # ws) d = port_outs P port ws (outw P port w d)"

definition words16 :: "u8 list \<Rightarrow> u16 list" where
  "words16 bs = map (\<lambda>k. le_word (take 2 (drop (2 * k) bs))) [0..<length bs div 2]"

definition ata_io_wait :: "'d io_ports \<Rightarrow> ata_device \<Rightarrow> 'd \<Rightarrow> 'd" where
  "ata_io_wait P dv d =
     (let d = snd (rin P dv ATA_REG_ALTSTATUS d); d = snd (rin P dv ATA_REG_ALTSTATUS d);
          d = snd (rin P dv ATA_REG_ALTSTATUS d)
      in snd (rin P dv ATA_REG_ALTSTATUS d))"

definition ata_soft_reset :: "'d io_ports \<Rightarrow> ata_device \<Rightarrow> 'd \<Rightarrow> 'd" where
  "ata_soft_reset P dv d = outb P (control dv) 0x00 (outb P (control dv) 0x04 d)"

section \<open>Polling\<close>

definition busy_step :: "'d io_ports \<Rightarrow> ata_device \<Rightarrow> u8 \<times> 'd \<Rightarrow> (u8 \<times> 'd + 'd) outcome" where
  "busy_step P dv st =
     (case st of (s, d) \<Rightarrow>
        if s AND ATA_SR_BSY \<noteq> 0 then Returns (Inl (rin P dv ATA_REG_STATUS (snd (rin P dv ATA_REG_ALTSTATUS d))))
        else Returns (Inr d))"

definition drq_step :: "'d io_ports \<Rightarrow> ata_device \<Rightarrow> 'd \<Rightarrow> ('d + 'd) outcome" where
  "drq_step P dv d =
     (let (s, d) = rin P dv ATA_REG_STATUS (snd (rin P dv ATA_REG_ALTSTATUS d))
      in if s AND ATA_SR_ERR \<noteq> 0 \<or> s AND ATA_SR_DF \<noteq> 0 then Faults Panic
         else if s AND ATA_SR_DRQ \<noteq> 0 then Returns (Inr d)
         else Returns (Inl (ata_io_wait P dv d)))"

definition ata_poll :: "'d io_ports \<Rightarrow> ata_device \<Rightarrow> bool \<Rightarrow> 'd \<Rightarrow> 'd outcome" where
  "ata_poll P dv advanced_check d =
     obind (loop_c (busy_step P dv) (rin P dv ATA_REG_STATUS (ata_io_wait P dv d))) (\<lambda>d.
       if advanced_check then loop_c (drq_step P dv) d else Returns d)"

section \<open>Sectors\<close>

definition sel_byte :: "ata_device \<Rightarrow> u32 \<Rightarrow> u8" where
  "sel_byte dv lba = 0xE0 OR push_bit 4 (slave dv) OR ucast (drop_bit 24 (lba AND 0x0F000000))"

text \<open>The writes to the registers that start a command on a run of sectors.\<close>

definition start_pio :: "'d io_ports \<Rightarrow> ata_device \<Rightarrow> u32 \<Rightarrow> u8 \<Rightarrow> u8 \<Rightarrow> 'd \<Rightarrow> 'd" where
  "start_pio P dv lba sector_count cmd d =
     (let d = ata_io_wait P dv d;
          d = ata_io_wait P dv (rout P dv ATA_REG_HDDEVSEL (sel_byte dv lba) d);
          d = rout P dv ATA_REG_ERROR 0 d;
          d = rout P dv ATA_REG_SECCOUNT0 sector_count d;
          d = rout P dv ATA_REG_LBA0 (ucast (lba AND 0xFF)) d;
          d = rout P dv ATA_REG_LBA1 (ucast (drop_bit 8 (lba AND 0xFF00))) d;
          d = rout P dv ATA_REG_LBA2 (ucast (drop_bit 16 (lba AND 0xFF0000))) d
      in rout P dv ATA_REG_COMMAND cmd d)"

definition read_sector :: "'d io_ports \<Rightarrow> ata_device \<Rightarrow> u8 list \<times> 'd \<Rightarrow> (u8 list \<times> 'd) outcome" where
  "read_sector P dv st =
     (case st of (target, d) \<Rightarrow> obind (ata_poll P dv True d) (\<lambda>d.
        let (bs, d) = port_insw P (io_base dv + ATA_REG_DATA) 256 d
        in Returns (target @ bs, ata_io_wait P dv d)))"

definition ata_pio_read28 ::
  "'d io_ports \<Rightarrow> ata_device \<Rightarrow> u32 \<Rightarrow> u8 \<Rightarrow> 'd \<Rightarrow> (u8 list \<times> 'd) outcome" where
  "ata_pio_read28 P dv lba sector_count d =
     obind (foldo (\<lambda>_. read_sector P dv) [0..<unat sector_count]
              ([], start_pio P dv lba sector_count ATA_CMD_READ_PIO d)) (\<lambda>(target, d).
       omap (Pair target) (ata_poll P dv False d))"

definition write_sector :: "'d io_ports \<Rightarrow> ata_device \<Rightarrow> u8 list \<Rightarrow> 'd \<Rightarrow> 'd outcome" where
  "write_sector P dv src d =
     obind (ata_poll P dv True d) (\<lambda>d.
       Returns (ata_io_wait P dv (port_outs P (io_base dv + ATA_REG_DATA) (words16 src) d)))"

definition ata_pio_write28 ::
  "'d io_ports \<Rightarrow> ata_device \<Rightarrow> u32 \<Rightarrow> u8 \<Rightarrow> u8 list \<Rightarrow> 'd \<Rightarrow> 'd outcome" where
  "ata_pio_write28 P dv lba sector_count src d =
     (let d = ata_io_wait P dv (start_pio P dv lba sector_count ATA_CMD_WRITE_PIO d) in
      obind (foldo (\<lambda>i d. if ATA_SECTOR_SIZE * i + ATA_SECTOR_SIZE \<le> length src
                           then write_sector P dv (take ATA_SECTOR_SIZE (drop (ATA_SECTOR_SIZE * i) src)) d
                           else Faults OutOfBounds) [0..<unat sector_count] d) (\<lambda>d.
      obind (ata_poll P dv False d) (\<lambda>d.
        ata_poll P dv False (rout P dv ATA_REG_COMMAND ATA_CMD_CACHE_FLUSH d))))"

definition ata_max_offset :: "ata_device \<Rightarrow> u64" where
  "ata_max_offset dv =
     (let sectors = (if sectors_48 dv = 0 then ucast (sectors_28 dv) else sectors_48 dv)
      in sectors * of_nat ATA_SECTOR_SIZE)"

section \<open>Identification\<close>

definition skip_status :: "'d io_ports \<Rightarrow> ata_device \<Rightarrow> 'd \<Rightarrow> 'd" where
  "skip_status P dv d = snd (rin P dv ATA_REG_STATUS d)"

definition select_drive :: "'d io_ports \<Rightarrow> ata_device \<Rightarrow> 'd \<Rightarrow> 'd" where
  "select_drive P dv d = rout P dv ATA_REG_HDDEVSEL (0xA0 OR push_bit 4 (slave dv)) d"

definition zero_regs :: "'d io_ports \<Rightarrow> ata_device \<Rightarrow> 'd \<Rightarrow> 'd" where
  "zero_regs P dv d =
     (let d = skip_status P dv d; d = rout P dv ATA_REG_SECCOUNT0 0 d;
          d = skip_status P dv d; d = rout P dv ATA_REG_LBA0 0 d;
          d = skip_status P dv d; d = rout P dv ATA_REG_LBA1 0 d;
          d = skip_status P dv d; d = rout P dv ATA_REG_LBA2 0 d
      in skip_status P dv d)"

text \<open>The loops that wait at most \<open>n\<close> reads of the status: an error ends them, too.\<close>

fun wait_status :: "'d io_ports \<Rightarrow> ata_device \<Rightarrow> (u8 \<Rightarrow> bool) \<Rightarrow> nat \<Rightarrow> 'd \<Rightarrow> bool \<times> 'd" where
  "wait_status P dv good 0 d = (False, d)"
| "wait_status P dv good (Suc n) d =
     (let (s, d) = rin P dv ATA_REG_STATUS d
      in if s AND ATA_SR_ERR \<noteq> 0 then (False, d) else if good s then (True, d)
         else wait_status P dv good n d)"

text \<open>The texts of the identity come with the bytes of each word swapped.\<close>

fun swap_pairs :: "u8 list \<Rightarrow> u8 list" where
  "swap_pairs (a # b # cs) = b # a # swap_pairs cs"
| "swap_pairs cs = cs"

definition fix_text :: "nat \<Rightarrow> nat \<Rightarrow> u8 list \<Rightarrow> u8 list" where
  "fix_text off len bs =
     take off bs @ (swap_pairs (take len (drop off bs)))[len - 1 := 0] @ drop (off + len) bs"

definition load_identity :: "'d io_ports \<Rightarrow> ata_device \<Rightarrow> 'd \<Rightarrow> ata_device \<times> 'd" where
  "load_identity P dv d =
     (let (bs, d) = port_insw P (io_base dv + ATA_REG_DATA) 256 d
      in (dv\<lparr>identity := fix_text serial_off 20 (fix_text model_off 40 bs), is_atapi := False\<rparr>, d))"

definition identify_start :: "'d io_ports \<Rightarrow> ata_device \<Rightarrow> 'd \<Rightarrow> u8 \<times> 'd" where
  "identify_start P dv d =
     (let d = rout P dv ATA_REG_ALTSTATUS 0 (skip_status P dv d);
          d = skip_status P dv (ata_io_wait P dv d);
          d = ata_io_wait P dv (select_drive P dv d);
          d = rout P dv ATA_REG_COMMAND ATA_CMD_IDENTIFY (zero_regs P dv d)
      in rin P dv ATA_REG_STATUS (ata_io_wait P dv d))"

definition signature_zero :: "'d io_ports \<Rightarrow> ata_device \<Rightarrow> 'd \<Rightarrow> bool \<times> 'd" where
  "signature_zero P dv d =
     (let (mid, d) = rin P dv ATA_REG_LBA1 d; (hi, d) = rin P dv ATA_REG_LBA2 d in (mid = 0 \<and> hi = 0, d))"

definition TIMER :: nat where "TIMER = 0xFFFFFF"

definition ata_device_init :: "'d io_ports \<Rightarrow> ata_device \<Rightarrow> 'd \<Rightarrow> bool \<times> ata_device \<times> 'd" where
  "ata_device_init P dv d =
     (let (status, d) = identify_start P dv d in
      if status = 0 then (False, dv, d)
      else
        let (ready, d) = wait_status P dv (\<lambda>s. s AND ATA_SR_BSY = 0 \<and> s AND ATA_SR_DRQ \<noteq> 0) TIMER d in
        if \<not> ready then (False, dv, d)
        else
          let (plain, d) = signature_zero P dv d in
          if \<not> plain then (False, dv, d)
          else
            let (ready, d) = wait_status P dv (\<lambda>s. s AND ATA_SR_DRQ \<noteq> 0) TIMER d in
            if \<not> ready then (False, dv, d)
            else
              let (dv, d) = load_identity P dv (skip_status P dv d)
              in (True, dv, rout P dv ATA_REG_CONTROL 0x02 d))"

section \<open>ATAPI devices\<close>

text \<open>Reading the status until it satisfies a condition, and until it does or reports an error.\<close>

definition until_status :: "'d io_ports \<Rightarrow> ata_device \<Rightarrow> (u8 \<Rightarrow> bool) \<Rightarrow> u8 \<times> 'd \<Rightarrow> (u8 \<times> 'd) outcome" where
  "until_status P dv good = loop_c (\<lambda>(s, d). Returns (if good s then Inr (s, d) else Inl (rin P dv ATA_REG_STATUS d)))"

definition atapi_poll :: "'d io_ports \<Rightarrow> ata_device \<Rightarrow> (u8 \<Rightarrow> bool) \<Rightarrow> 'd \<Rightarrow> (bool \<times> 'd) outcome" where
  "atapi_poll P dv good = loop_c (\<lambda>d.
     let (s, d) = rin P dv ATA_REG_STATUS d
     in Returns (if s AND ATA_SR_ERR \<noteq> 0 then Inr (False, d) else if good s then Inr (True, d) else Inl d))"

definition htonl :: "u32 \<Rightarrow> u32" where
  "htonl l = push_bit 24 (l AND 0xFF) OR push_bit 8 (l AND 0xFF00) OR drop_bit 8 (l AND 0xFF0000)
     OR drop_bit 24 (l AND 0xFF000000)"

text \<open>READ CAPACITY by a command packet: the last block and the block length, high byte first.\<close>

definition read_capacity :: "'d io_ports \<Rightarrow> ata_device \<Rightarrow> 'd \<Rightarrow> (bool \<times> ata_device \<times> 'd) outcome" where
  "read_capacity P dv d =
     (let d = rout P dv ATA_REG_FEATURES 0 d; d = rout P dv ATA_REG_LBA1 8 d; d = rout P dv ATA_REG_LBA2 8 d;
          d = rout P dv ATA_REG_COMMAND ATA_CMD_PACKET d
      in obind (atapi_poll P dv (\<lambda>s. s AND ATA_SR_BSY = 0 \<and> s AND ATA_SR_DRDY \<noteq> 0) d) (\<lambda>(ok, d).
         if \<not> ok then Returns (False, dv, d)
         else obind (atapi_poll P dv (\<lambda>s. s AND ATA_SR_BSY = 0 \<and> s AND ATA_SR_DRDY \<noteq> 0 \<or> s AND ATA_SR_DRQ \<noteq> 0)
                       (port_outs P (io_base dv) [0x0025, 0, 0, 0, 0, 0] d)) (\<lambda>(ok, d).
                if \<not> ok then Returns (False, dv, d)
                else let (bs, d) = port_insw P (io_base dv) 4 d
                     in Returns (True, dv\<lparr>atapi_lba := htonl (le_word (take 4 bs)),
                                          atapi_sector_size := htonl (le_word (drop 4 bs))\<rparr>, d))))"

definition atapi_start :: "'d io_ports \<Rightarrow> ata_device \<Rightarrow> 'd \<Rightarrow> u8 \<times> 'd" where
  "atapi_start P dv d =
     (let d = outb P (control dv) 0 (rout P dv 1 1 d);
          d = select_drive P dv (skip_status P dv (ata_io_wait P dv d));
          d = rout P dv ATA_REG_COMMAND ATA_CMD_IDENTIFY_PACKET (zero_regs P dv d)
      in rin P dv ATA_REG_STATUS (ata_io_wait P dv d))"

definition atapi_device_init :: "'d io_ports \<Rightarrow> ata_device \<Rightarrow> 'd \<Rightarrow> (bool \<times> ata_device \<times> 'd) outcome" where
  "atapi_device_init P dv d =
     (let dv = dv\<lparr>is_atapi := True\<rparr> in
      obind (until_status P dv (\<lambda>s. s AND ATA_SR_BSY = 0) (atapi_start P dv d)) (\<lambda>(status, d).
        if status = 0 then Returns (False, dv, d)
        else obind (until_status P dv (\<lambda>s. s AND ATA_SR_BSY = 0) (status, d)) (\<lambda>(status, d).
          let (plain, d) = signature_zero P dv d in
          if \<not> plain then Returns (False, dv, d)
          else obind (until_status P dv (\<lambda>s. s AND (ATA_SR_ERR OR ATA_SR_DRQ) \<noteq> 0) (status, d)) (\<lambda>(status, d).
            if status AND ATA_SR_ERR \<noteq> 0 then Returns (False, dv, d)
            else let (dv, d) = load_identity P dv d in read_capacity P dv d))))"

text \<open>The drives as the file system sees them: device \<open>k\<close> is the record \<open>devs k\<close>.\<close>

definition ata_disk :: "'d io_ports \<Rightarrow> (nat \<Rightarrow> ata_device) \<Rightarrow> 'd disk" where
  "ata_disk P devs = \<lparr>read28 = (\<lambda>k. ata_pio_read28 P (devs k)), write28 = (\<lambda>k. ata_pio_write28 P (devs k))\<rparr>"

end
