(* ===== verification/Cpu.thy ===== *)
theory Cpu
  imports Descriptors
begin

text \<open>
  The registers of one CPU and its set-up (\<open>core/cpu.c\<close>, \<open>cpu.h\<close>). \<open>cpuid_fn\<close> is what the \<open>cpuid\<close>
  instruction answers for a leaf and a parameter: EAX, EBX, ECX and EDX. \<open>rdmsr\<close> and \<open>wrmsr\<close> move the
  two halves of a model specific register.
\<close>

section \<open>Registers\<close>

datatype cpuid_reg = CPUID_REG_EAX | CPUID_REG_EBX | CPUID_REG_ECX | CPUID_REG_EDX

record cpuid_feature =
  func :: u32
  param :: u32
  freg :: cpuid_reg
  fmask :: u32

definition CPUID_FEATURE_PAT :: cpuid_feature where
  "CPUID_FEATURE_PAT = \<lparr>func = 1, param = 0, freg = CPUID_REG_EDX, fmask = push_bit 16 1\<rparr>"

definition CPUID_FEATURE_APIC :: cpuid_feature where
  "CPUID_FEATURE_APIC = \<lparr>func = 1, param = 0, freg = CPUID_REG_EDX, fmask = push_bit 9 1\<rparr>"

type_synonym cpuid_fn = "u32 \<Rightarrow> u32 \<Rightarrow> cpuid_reg \<Rightarrow> u32"

record cpu_regs =
  cr0 :: u64
  cr4 :: u64
  msr_low :: "u32 \<Rightarrow> u32"
  msr_high :: "u32 \<Rightarrow> u32"
  gdtr :: nat
  cpu_initialized :: bool

definition MSR_PAT :: u32 where "MSR_PAT = 0x277"
definition MSR_GS_BASE :: u32 where "MSR_GS_BASE = 0xC0000102"

definition read_msr :: "u32 \<Rightarrow> cpu_regs \<Rightarrow> u64" where
  "read_msr m c = push_bit 32 (ucast (msr_high c m)) OR ucast (msr_low c m)"

definition write_msr :: "u32 \<Rightarrow> u64 \<Rightarrow> cpu_regs \<Rightarrow> cpu_regs" where
  "write_msr m v c =
     c\<lparr>msr_low := (msr_low c)(m := ucast (v AND 0xFFFFFFFF)), msr_high := (msr_high c)(m := ucast (drop_bit 32 v AND 0xFFFFFFFF))\<rparr>"

section \<open>Set-up\<close>

definition cpuid_check_feature :: "cpuid_fn \<Rightarrow> cpuid_feature \<Rightarrow> bool" where
  "cpuid_check_feature cpuid f =
     (let maxleaf = cpuid 0 0 CPUID_REG_EAX; maxhighleaf = cpuid 0x80000000 0 CPUID_REG_EAX in
      if maxleaf < func f \<and> func f < 0x80000000 \<or> maxhighleaf < func f \<and> func f \<ge> 0x80000000 then False
      else cpuid (func f) (param f) (freg f) AND fmask f \<noteq> 0)"

definition pat_write_combining :: "u64 \<Rightarrow> u64" where
  "pat_write_combining v = (v AND NOT (push_bit 32 7)) OR push_bit 32 1"

definition cpu_init :: "cpuid_fn \<Rightarrow> cpu_regs \<Rightarrow> cpu_regs" where
  "cpu_init cpuid c =
     (let c = (if cpuid_check_feature cpuid CPUID_FEATURE_PAT
               then write_msr MSR_PAT (pat_write_combining (read_msr MSR_PAT c)) c else c);
          c = c\<lparr>cr0 := (cr0 c AND NOT (push_bit 2 1)) OR push_bit 1 1\<rparr>;
          c = c\<lparr>cr4 := (cr4 c OR push_bit 9 1) OR push_bit 10 1\<rparr>
      in c\<lparr>cpu_initialized := True\<rparr>)"

definition cpu_ok :: "cpu_regs \<Rightarrow> bool" where "cpu_ok c = cpu_initialized c"

text \<open>\<open>apic_init\<close> asks for the feature and reports it missing when the answer is that it is there.\<close>

definition apic_reports_unsupported :: "cpuid_fn \<Rightarrow> bool" where
  "apic_reports_unsupported cpuid = cpuid_check_feature cpuid CPUID_FEATURE_APIC"

section \<open>Properties\<close>

lemma read_write_msr: "read_msr m (write_msr m v c) = v"
  unfolding read_msr_def write_msr_def masks
  by (rule bit_word_eqI) (auto simp: bit_or_iff bit_put_back bit_put_back_0)

lemma read_write_msr_other: "m \<noteq> n \<Longrightarrow> read_msr n (write_msr m v c) = read_msr n c"
  by (simp add: read_msr_def write_msr_def)

text \<open>Entry \<open>n\<close> of the page attribute table.\<close>

definition pat_entry :: "nat \<Rightarrow> u64 \<Rightarrow> u64" where
  "pat_entry n v = take_bit 3 (drop_bit (8 * n) v)"

lemma bit_push_seven: "bit (push_bit k 7 :: u64) j \<longleftrightarrow> k \<le> j \<and> j < 64 \<and> j < k + 3"
proof -
  have "(7 :: u64) = mask 3" by (simp add: mask_eq_exp_minus_1)
  then show ?thesis by (simp only: bit_push_bit_iff bit_mask_iff) auto
qed

lemma bit_push_one: "bit (push_bit k 1 :: u64) j \<longleftrightarrow> j = k \<and> k < 64"
  by (auto simp only: bit_push_bit_iff bit_1_iff) auto

lemma bit_pat_wc: "bit (pat_write_combining v) i \<longleftrightarrow> i < 64 \<and> (i = 32 \<or> bit v i \<and> \<not> (32 \<le> i \<and> i < 35))"
  unfolding pat_write_combining_def bit_or_iff bit_and_iff bit_not_iff bit_push_seven bit_push_one
  by (auto dest: bit_imp_le_length)

lemma bit_pat_entry: "bit (pat_entry n v) j \<longleftrightarrow> j < 3 \<and> bit v (8 * n + j)"
  by (simp add: pat_entry_def bit_simps)

lemma pat_entry_write_combining:
  "n < 8 \<Longrightarrow> pat_entry n (pat_write_combining v) = (if n = 4 then 1 else pat_entry n v)"
proof -
  assume n: "n < 8"
  show ?thesis
  proof (rule bit_word_eqI)
    fix j
    have "j < 3 \<Longrightarrow> 8 * n + j < 64" using n by simp
    moreover have "n \<noteq> 4 \<Longrightarrow> j < 3 \<Longrightarrow> \<not> (32 \<le> 8 * n + j \<and> 8 * n + j < 35)" by presburger
    moreover have "n \<noteq> 4 \<Longrightarrow> j < 3 \<Longrightarrow> 8 * n + j \<noteq> 32" by presburger
    ultimately show "bit (pat_entry n (pat_write_combining v)) j = bit (if n = 4 then 1 else pat_entry n v) j"
      by (auto simp: bit_pat_entry bit_pat_wc bit_1_iff)
  qed
qed

text \<open>
  \<open>cpu_init\<close> on a CPU with a page attribute table makes entry 4 write-combining and leaves the
  other seven as they are; on every CPU it turns coprocessor emulation off and monitoring on, enables
  SSE and its exceptions, and changes no other bit of CR0 and CR4; it leaves every other model specific
  register alone.
\<close>

theorem cpu_init_registers:
  "\<forall>cpuid c. let c' = cpu_init cpuid c in
     cpu_ok c' \<and> gdtr c' = gdtr c
     \<and> (\<forall>j. bit (cr0 c') j = (if j = 2 then False else if j = 1 then True else bit (cr0 c) j))
     \<and> (\<forall>j. bit (cr4 c') j = (j = 9 \<or> j = 10 \<or> bit (cr4 c) j))
     \<and> (\<forall>m. m \<noteq> MSR_PAT \<longrightarrow> read_msr m c' = read_msr m c)
     \<and> (\<forall>n < 8. pat_entry n (read_msr MSR_PAT c')
           = (if n = 4 \<and> cpuid_check_feature cpuid CPUID_FEATURE_PAT then 1 else pat_entry n (read_msr MSR_PAT c)))"
proof (intro allI)
  fix cpuid :: cpuid_fn and c
  let ?c = "cpu_init cpuid c"
  have msr: "read_msr m ?c = (if cpuid_check_feature cpuid CPUID_FEATURE_PAT
      then read_msr m (write_msr MSR_PAT (pat_write_combining (read_msr MSR_PAT c)) c) else read_msr m c)" for m
    by (simp add: cpu_init_def Let_def read_msr_def)
  have other: "\<forall>m. m \<noteq> MSR_PAT \<longrightarrow> read_msr m ?c = read_msr m c" by (simp add: msr read_write_msr_other)
  have pat: "\<forall>n < 8. pat_entry n (read_msr MSR_PAT ?c)
      = (if n = 4 \<and> cpuid_check_feature cpuid CPUID_FEATURE_PAT then 1 else pat_entry n (read_msr MSR_PAT c))"
    by (auto simp: msr read_write_msr pat_entry_write_combining)
  have cr: "\<forall>j. bit (cr0 ?c) j = (if j = 2 then False else if j = 1 then True else bit (cr0 c) j)"
      "\<forall>j. bit (cr4 ?c) j = (j = 9 \<or> j = 10 \<or> bit (cr4 c) j)"
  proof -
    have "cr0 ?c = (cr0 c AND NOT (push_bit 2 1)) OR push_bit 1 1" "cr4 ?c = (cr4 c OR push_bit 9 1) OR push_bit 10 1"
      by (simp_all add: cpu_init_def Let_def write_msr_def)
    then have bits: "bit (cr0 ?c) j = ((bit (cr0 c) j \<and> j < 64 \<and> j \<noteq> 2) \<or> j = 1)"
        "bit (cr4 ?c) j = ((bit (cr4 c) j \<or> j = 9) \<or> j = 10)" for j
      by (simp_all only: bit_or_iff bit_and_iff bit_not_iff bit_push_one) auto
    have "bit (cr0 c) j \<Longrightarrow> j < 64" for j by (drule bit_imp_le_length) simp
    then show "\<forall>j. bit (cr0 ?c) j = (if j = 2 then False else if j = 1 then True else bit (cr0 c) j)"
        "\<forall>j. bit (cr4 ?c) j = (j = 9 \<or> j = 10 \<or> bit (cr4 c) j)"
      unfolding bits by auto
  qed
  show "let c' = ?c in cpu_ok c' \<and> gdtr c' = gdtr c
     \<and> (\<forall>j. bit (cr0 c') j = (if j = 2 then False else if j = 1 then True else bit (cr0 c) j))
     \<and> (\<forall>j. bit (cr4 c') j = (j = 9 \<or> j = 10 \<or> bit (cr4 c) j))
     \<and> (\<forall>m. m \<noteq> MSR_PAT \<longrightarrow> read_msr m c' = read_msr m c)
     \<and> (\<forall>n < 8. pat_entry n (read_msr MSR_PAT c')
           = (if n = 4 \<and> cpuid_check_feature cpuid CPUID_FEATURE_PAT then 1 else pat_entry n (read_msr MSR_PAT c)))"
    unfolding Let_def using cr other pat
    by (simp add: cpu_ok_def) (simp add: cpu_init_def write_msr_def Let_def)
qed

end
