(* ===== verification/Smp.thy ===== *)
theory Smp
  imports Acpi Timers Cpu Vmm Sched
begin

text \<open>
  Starting the other processors (\<open>core/smp.c\<close>): the bootstrap processor walks over the local APICs of
  the MADT, sends each core its start-up interrupts, and waits until all of them have reached the
  scheduler. The cores run on their own: the boot counter that the trampoline increments and the number
  of CPUs the scheduler counts are read through \<open>ap_reads\<close>, and each read may find a new value.
\<close>

section \<open>State\<close>

record 'd ap_reads =
  boot_counter :: "'d \<Rightarrow> u32 \<times> 'd"
  sched_cpus :: "'d \<Rightarrow> u16 \<times> 'd"

definition TSS_SIZE :: nat where "TSS_SIZE = 104"
definition CPU_SIZE :: nat where "CPU_SIZE = 112"
definition SMP_INFO_SIZE :: nat where "SMP_INFO_SIZE = CPU_MAX * CPU_SIZE + 2"

record cpu_info =
  tss :: "u8 list"
  cpu_no :: u16
  lapic_no :: u16
  is_bsp :: bool

text \<open>\<open>info_at\<close> is the address of the structure, 0 while there is none.\<close>

record smp_info =
  info_at :: u64
  cpus :: "cpu_info list"
  num_cpus :: u16

definition zero_cpu :: cpu_info where
  "zero_cpu = \<lparr>tss = replicate TSS_SIZE 0, cpu_no = 0, lapic_no = 0, is_bsp = False\<rparr>"

record 'd smp =
  svm :: vm
  sgdts :: gdts
  sregs :: cpu_regs
  sinfo :: smp_info
  sdev :: 'd
  smp_initialized :: bool

definition cpu_addr :: "smp_info \<Rightarrow> nat \<Rightarrow> u64" where
  "cpu_addr i n = info_at i + of_nat (CPU_SIZE * n)"

definition smem :: "('d, 'm) smp_scheme \<Rightarrow> memory" where "smem s = kmem (vheap (svm s))"

definition on_heap :: "heap \<Rightarrow> ('d, 'm) smp_scheme \<Rightarrow> ('d, 'm) smp_scheme" where
  "on_heap h s = s\<lparr>svm := (svm s)\<lparr>vheap := h\<rparr>\<rparr>"

definition on_mem :: "(memory \<Rightarrow> memory) \<Rightarrow> ('d, 'm) smp_scheme \<Rightarrow> ('d, 'm) smp_scheme" where
  "on_mem f s = on_heap ((vheap (svm s))\<lparr>kmem := f (smem s)\<rparr>) s"

definition SMP_TRAMPOLINE_BLOB_ADDR :: u64 where "SMP_TRAMPOLINE_BLOB_ADDR = 0x70000"
definition SMP_TRAMPOLINE_ARG_IDTPTR :: u64 where "SMP_TRAMPOLINE_ARG_IDTPTR = 0xfa0"
definition SMP_TRAMPOLINE_ARG_RSP :: u64 where "SMP_TRAMPOLINE_ARG_RSP = 0xfb0"
definition SMP_TRAMPOLINE_ARG_ENTRYPOINT :: u64 where "SMP_TRAMPOLINE_ARG_ENTRYPOINT = 0xfc0"
definition SMP_TRAMPOLINE_ARG_CR3 :: u64 where "SMP_TRAMPOLINE_ARG_CR3 = 0xfd0"
definition SMP_TRAMPOLINE_ARG_CPUINFO :: u64 where "SMP_TRAMPOLINE_ARG_CPUINFO = 0xfe0"
definition APIC_IPI_TYPE_INIT :: u32 where "APIC_IPI_TYPE_INIT = 0b101"
definition APIC_IPI_TYPE_STARTUP :: u32 where "APIC_IPI_TYPE_STARTUP = 0b110"

section \<open>The operations\<close>

definition smp_get_current_cpu :: "bool \<Rightarrow> ('d, 'm) smp_scheme \<Rightarrow> u64" where
  "smp_get_current_cpu force_read s =
     (if smp_initialized s \<or> force_read then read_msr MSR_GS_BASE (sregs s) else 0)"

definition init_tss :: "u64 \<Rightarrow> ('d, 'm) smp_scheme \<Rightarrow> ('d, 'm) smp_scheme outcome" where
  "init_tss cpuinfo s = omap (\<lambda>g. s\<lparr>sgdts := g\<rparr>) (gdt_install_tss (gdtr (sregs s)) cpuinfo (sgdts s))"

text \<open>What a core runs when it has come up; \<open>cpu_id\<close> is the one in its \<open>cpu_t\<close>, at the address \<open>cpuinfo\<close>.\<close>

definition smp_ap_entrypoint ::
  "('d, 'm) clock_reads_scheme \<Rightarrow> ('d, 'n) lapic_io_scheme \<Rightarrow> hpet_state \<Rightarrow> cpuid_fn \<Rightarrow> u64 \<Rightarrow> u16 \<Rightarrow> u64
    \<Rightarrow> gdts \<Rightarrow> cpu_regs \<Rightarrow> sched \<Rightarrow> 'd \<Rightarrow> (gdts \<times> cpu_regs \<times> sched \<times> 'd) outcome" where
  "smp_ap_entrypoint C L h cpuid cpuinfo cpu_id idle_proc g c sc d =
     obind (gdt_init g) (\<lambda>(r, g).
     let c = cpu_init cpuid (c\<lparr>gdtr := r\<rparr>) in
     obind (gdt_install_tss (gdtr c) cpuinfo g) (\<lambda>g.
     let c = write_msr MSR_GS_BASE cpuinfo c; d = apic_enable L d in
     obind (sleep_ms C h 100 d) (\<lambda>d.
     omap (\<lambda>sc. (g, c, sc, d)) (sched_init sc cpu_id idle_proc))))"

text \<open>
  The trampoline: the code between the two symbols, and its arguments. \<open>sidt\<close> stores the ten bytes of
  the register.
\<close>

definition prepare_trampoline :: "u64 \<Rightarrow> u64 \<Rightarrow> u8 list \<Rightarrow> u64 \<Rightarrow> ('d, 'm) smp_scheme \<Rightarrow> ('d, 'm) smp_scheme" where
  "prepare_trampoline blob_start blob_end idtr entrypoint s =
     on_mem (\<lambda>m.
       let m = memcpy m (PHYS_TO_VIRT SMP_TRAMPOLINE_BLOB_ADDR) blob_start (blob_end - blob_start);
           m = st64 m (PHYS_TO_VIRT SMP_TRAMPOLINE_ARG_CR3) (cr3 (svm s));
           m = store m (PHYS_TO_VIRT SMP_TRAMPOLINE_ARG_IDTPTR) idtr
       in st64 m (PHYS_TO_VIRT SMP_TRAMPOLINE_ARG_ENTRYPOINT) entrypoint) s"

fun wait_boot :: "('d, 'm) clock_reads_scheme \<Rightarrow> ('d, 'n) ap_reads_scheme \<Rightarrow> hpet_state \<Rightarrow> nat \<Rightarrow> u32 \<Rightarrow> 'd \<Rightarrow> (bool \<times> 'd) outcome" where
  "wait_boot C A h 0 counter_prev d = Returns (False, d)"
| "wait_boot C A h (Suc n) counter_prev d =
     (let (counter_curr, d) = boot_counter A d in
      if counter_curr \<noteq> counter_prev then Returns (True, d)
      else obind (sleep_ms C h 100 d) (wait_boot C A h n counter_prev))"

fun startup :: "('d, 'm) clock_reads_scheme \<Rightarrow> ('d, 'n) ap_reads_scheme \<Rightarrow> ('d, 'k) lapic_io_scheme \<Rightarrow> hpet_state
    \<Rightarrow> nat \<Rightarrow> u8 \<Rightarrow> u32 \<Rightarrow> 'd \<Rightarrow> (bool \<times> 'd) outcome" where
  "startup C A L h 0 dest counter_prev d = Returns (False, d)"
| "startup C A L h (Suc n) dest counter_prev d =
     (let d = apic_send_ipi L dest (ucast (SMP_TRAMPOLINE_BLOB_ADDR div PAGE_SIZE)) APIC_IPI_TYPE_STARTUP d in
      obind (wait_boot C A h 20 counter_prev d) (\<lambda>(success, d).
        if success then Returns (True, d) else startup C A L h n dest counter_prev d))"

definition upd_entry :: "(cpu_info \<Rightarrow> cpu_info) \<Rightarrow> ('d, 'm) smp_scheme \<Rightarrow> ('d, 'm) smp_scheme outcome" where
  "upd_entry f s =
     (let i = sinfo s; n = unat (num_cpus i) in
      obind (rd (cpus i) n) (\<lambda>c. omap (\<lambda>cs. s\<lparr>sinfo := i\<lparr>cpus := cs\<rparr>\<rparr>) (wr (cpus i) n (f c))))"

definition count_cpu :: "('d, 'm) smp_scheme \<Rightarrow> ('d, 'm) smp_scheme" where
  "count_cpu s = s\<lparr>sinfo := (sinfo s)\<lparr>num_cpus := num_cpus (sinfo s) + 1\<rparr>\<rparr>"

definition this_cpu :: "('d, 'm) smp_scheme \<Rightarrow> u64" where
  "this_cpu s = cpu_addr (sinfo s) (unat (num_cpus (sinfo s)))"

text \<open>The bootstrap processor itself, and another core that is brought up.\<close>

definition boot_bsp :: "('d, 'm) smp_scheme \<Rightarrow> ('d, 'm) smp_scheme outcome" where
  "boot_bsp s =
     obind (upd_entry (\<lambda>c. c\<lparr>is_bsp := True\<rparr>) s) (\<lambda>s.
       let s = s\<lparr>sregs := write_msr MSR_GS_BASE (this_cpu s) (sregs s)\<rparr> in
       omap count_cpu (init_tss (this_cpu s) s))"

definition boot_ap :: "('d, 'm) clock_reads_scheme \<Rightarrow> ('d, 'n) ap_reads_scheme \<Rightarrow> ('d, 'k) lapic_io_scheme \<Rightarrow> hpet_state
    \<Rightarrow> u8 \<Rightarrow> u32 \<Rightarrow> ('d, 'l) smp_scheme \<Rightarrow> ('d, 'l) smp_scheme outcome" where
  "boot_ap C A L h dest counter_prev s =
     obind (kmalloc (vheap (svm s)) PAGE_SIZE) (\<lambda>(stack, hp).
       let s = on_heap hp s;
           s = on_mem (\<lambda>m. st64 m (PHYS_TO_VIRT SMP_TRAMPOLINE_ARG_RSP) (stack + PAGE_SIZE)) s;
           s = on_mem (\<lambda>m. st64 m (PHYS_TO_VIRT SMP_TRAMPOLINE_ARG_CPUINFO) (this_cpu s)) s in
       obind (sleep_ms C h 100 (apic_send_ipi L dest 0 APIC_IPI_TYPE_INIT (sdev s))) (\<lambda>d.
       obind (startup C A L h 2 dest counter_prev d) (\<lambda>(success, d).
         let s = s\<lparr>sdev := d\<rparr> in
         omap count_cpu
           (if \<not> success then omap (\<lambda>hp. on_heap hp s) (kmfree (vheap (svm s)) stack)
            else upd_entry (\<lambda>c. c\<lparr>is_bsp := False\<rparr>) s))))"

text \<open>The fields of a local APIC record: \<open>proc_id\<close>, \<open>apic_id\<close> and \<open>flags\<close> at the offsets 2, 3 and 4.\<close>

definition lapic_usable :: "memory \<Rightarrow> u64 \<Rightarrow> bool" where
  "lapic_usable m la \<longleftrightarrow> bit (ld32 m (la + 4)) 1 \<or> bit (ld32 m (la + 4)) 0"

definition boot_core :: "('d, 'm) clock_reads_scheme \<Rightarrow> ('d, 'n) ap_reads_scheme \<Rightarrow> ('d, 'k) lapic_io_scheme \<Rightarrow> hpet_state
    \<Rightarrow> u64 \<Rightarrow> ('d, 'l) smp_scheme \<Rightarrow> ('d, 'l) smp_scheme outcome" where
  "boot_core C A L h la s =
     obind (upd_entry (\<lambda>c. c\<lparr>tss := replicate TSS_SIZE 0\<rparr>) s) (\<lambda>s.
       let (counter_prev, d) = boot_counter A (sdev s); s = s\<lparr>sdev := d\<rparr> in
       if \<not> lapic_usable (smem s) la then Returns s
       else
         obind (upd_entry (\<lambda>c. c\<lparr>lapic_no := ucast (smem s (la + 3)), cpu_no := ucast (smem s (la + 2))\<rparr>) s) (\<lambda>s.
           let (r, d) = apic_read_reg L APIC_REG_ID (sdev s); s = s\<lparr>sdev := d\<rparr> in
           if r = ucast (smem s (la + 3)) then boot_bsp s
           else boot_ap C A L h (smem s (la + 3)) counter_prev s))"

definition wait_up :: "('d, 'm) clock_reads_scheme \<Rightarrow> ('d, 'n) ap_reads_scheme \<Rightarrow> hpet_state \<Rightarrow> u16 \<Rightarrow> 'd \<Rightarrow> ('d + 'd) outcome" where
  "wait_up C A h num d =
     (let (n, d) = sched_cpus A d in
      if int (unat n) = int (unat num) - 1 then Returns (Inr d) else omap Inl (sleep_ms C h 1 d))"

definition smp_wait :: "('d, 'm) clock_reads_scheme \<Rightarrow> ('d, 'n) ap_reads_scheme \<Rightarrow> hpet_state \<Rightarrow> ('d, 'l) smp_scheme
    \<Rightarrow> ('d, 'l) smp_scheme outcome" where
  "smp_wait C A h s = omap (\<lambda>d. s\<lparr>sdev := d\<rparr>) (loop_c (wait_up C A h (num_cpus (sinfo s))) (sdev s))"

definition smp_boot :: "('d, 'm) clock_reads_scheme \<Rightarrow> ('d, 'n) ap_reads_scheme \<Rightarrow> ('d, 'k) lapic_io_scheme \<Rightarrow> hpet_state
    \<Rightarrow> madt_state \<Rightarrow> ('d, 'l) smp_scheme \<Rightarrow> ('d, 'l) smp_scheme outcome" where
  "smp_boot C A L h mt s =
     foldo (\<lambda>i s. obind (rd (lapics mt) i) (\<lambda>la. boot_core C A L h la s)) [0..<num_lapic mt] s"

definition smp_init :: "('d, 'm) clock_reads_scheme \<Rightarrow> ('d, 'n) ap_reads_scheme \<Rightarrow> ('d, 'k) lapic_io_scheme \<Rightarrow> hpet_state
    \<Rightarrow> madt_state \<Rightarrow> u64 \<Rightarrow> u64 \<Rightarrow> u8 list \<Rightarrow> u64 \<Rightarrow> ('d, 'l) smp_scheme \<Rightarrow> ('d, 'l) smp_scheme outcome" where
  "smp_init C A L h mt blob_start blob_end idtr entrypoint s =
     obind (kmalloc (vheap (svm s)) (of_nat SMP_INFO_SIZE)) (\<lambda>(p, hp).
     let s = on_heap hp s;
         s = on_mem (\<lambda>m. memset m p 0 (of_nat SMP_INFO_SIZE)) s;
         s = s\<lparr>sinfo := \<lparr>info_at = p, cpus = replicate CPU_MAX zero_cpu, num_cpus = 0\<rparr>\<rparr> in
     obind (vmm_map (svm s) 0 0 (NUM_PAGES 0x100000) VMM_FLAGS_DEFAULT) (\<lambda>v.
     let s = prepare_trampoline blob_start blob_end idtr entrypoint (s\<lparr>svm := v\<rparr>) in
     obind (smp_boot C A L h mt s) (\<lambda>s.
     obind (smp_wait C A h s) (\<lambda>s.
     obind (vmm_unmap (svm s) 0 (NUM_PAGES 0x100000)) (\<lambda>v.
       Returns (s\<lparr>svm := v, smp_initialized := True\<rparr>))))))"

section \<open>What the table of CPUs holds\<close>

abbreviation ncpu :: "('d, 'm) smp_scheme \<Rightarrow> nat" where
  "ncpu s \<equiv> unat (num_cpus (sinfo s))"

text \<open>The steps that leave the table and its count alone.\<close>

lemma sinfo_on_heap [simp]: "sinfo (on_heap hp s) = sinfo s" by (simp add: on_heap_def)
lemma sinfo_on_mem [simp]: "sinfo (on_mem f s) = sinfo s" by (simp add: on_mem_def)
lemma sinfo_init_tss: "init_tss a s = Returns s' \<Longrightarrow> sinfo s' = sinfo s"
  by (auto simp: init_tss_def omap_eq_Returns)

lemma upd_entry_returns:
  "upd_entry f s = Returns s' \<longleftrightarrow> ncpu s < length (cpus (sinfo s))
     \<and> s' = s\<lparr>sinfo := (sinfo s)\<lparr>cpus := (cpus (sinfo s))[ncpu s := f (cpus (sinfo s) ! ncpu s)]\<rparr>\<rparr>"
  by (cases "ncpu s < length (cpus (sinfo s))") (auto simp: upd_entry_def Let_def not_less)

text \<open>An entry changed by \<open>f\<close> and counted, where \<open>f\<close> keeps the two numbers of the entry.\<close>

definition counted :: "('d, 'm) smp_scheme \<Rightarrow> ('d, 'k) smp_scheme \<Rightarrow> (cpu_info \<Rightarrow> cpu_info) \<Rightarrow> bool" where
  "counted s s' f \<longleftrightarrow> num_cpus (sinfo s') = num_cpus (sinfo s) + 1
     \<and> cpus (sinfo s') = (cpus (sinfo s))[ncpu s := f (cpus (sinfo s) ! ncpu s)]"

lemma boot_bsp_counted: "boot_bsp s = Returns s' \<Longrightarrow> counted s s' (\<lambda>c. c\<lparr>is_bsp := True\<rparr>)"
  by (auto simp: boot_bsp_def Let_def obind_eq_Returns omap_eq_Returns upd_entry_returns count_cpu_def counted_def
      dest!: sinfo_init_tss)

lemma boot_ap_counted:
  "boot_ap C A L h dest prev s = Returns s' \<Longrightarrow> counted s s' (\<lambda>c. c) \<or> counted s s' (\<lambda>c. c\<lparr>is_bsp := False\<rparr>)"
  by (auto simp: boot_ap_def Let_def obind_eq_Returns omap_eq_Returns upd_entry_returns count_cpu_def counted_def
      split: prod.splits if_splits)

lemma boot_core_cases:
  assumes "boot_core C A L h la s = Returns s'"
  obtains (skipped) "\<not> lapic_usable (smem s) la" "ncpu s < length (cpus (sinfo s))" "num_cpus (sinfo s') = num_cpus (sinfo s)"
      "cpus (sinfo s') = (cpus (sinfo s))[ncpu s := (cpus (sinfo s) ! ncpu s)\<lparr>tss := replicate TSS_SIZE 0\<rparr>]"
  | (listed) f where "lapic_usable (smem s) la" "ncpu s < length (cpus (sinfo s))" "num_cpus (sinfo s') = num_cpus (sinfo s) + 1"
      "cpus (sinfo s') = (cpus (sinfo s))[ncpu s := f ((cpus (sinfo s) ! ncpu s)\<lparr>tss := replicate TSS_SIZE 0,
         lapic_no := ucast (smem s (la + 3)), cpu_no := ucast (smem s (la + 2))\<rparr>)]"
      "if fst (apic_read_reg L APIC_REG_ID (snd (boot_counter A (sdev s)))) = ucast (smem s (la + 3))
         then f = is_bsp_update (\<lambda>_. True) else f = (\<lambda>c. c) \<or> f = is_bsp_update (\<lambda>_. False)"
proof (cases "lapic_usable (smem s) la")
  case False
  then show ?thesis using assms skipped
    by (auto simp: boot_core_def Let_def obind_eq_Returns upd_entry_returns smem_def split: prod.splits if_splits)
next
  case True
  obtain prev d1 where bc: "boot_counter A (sdev s) = (prev, d1)" by (cases "boot_counter A (sdev s)")
  obtain r d2 where rd: "apic_read_reg L APIC_REG_ID d1 = (r, d2)" by (cases "apic_read_reg L APIC_REG_ID d1")
  let ?c = "(cpus (sinfo s) ! ncpu s)\<lparr>tss := replicate TSS_SIZE 0, lapic_no := ucast (smem s (la + 3)), cpu_no := ucast (smem s (la + 2))\<rparr>"
  let ?s = "s\<lparr>sinfo := (sinfo s)\<lparr>cpus := (cpus (sinfo s))[ncpu s := ?c]\<rparr>, sdev := d2\<rparr>"
  have n: "ncpu s < length (cpus (sinfo s))"
    using assms by (auto simp: boot_core_def obind_eq_Returns upd_entry_returns)
  have m: "smem (s\<lparr>sinfo := i, sdev := d\<rparr>) = smem s" "smem (s\<lparr>sinfo := i\<rparr>) = smem s" "smem (s\<lparr>sdev := d\<rparr>) = smem s" for i d
    by (simp_all add: smem_def)
  have run: "(if r = ucast (smem s (la + 3)) then boot_bsp ?s else boot_ap C A L h (smem s (la + 3)) prev ?s) = Returns s'"
    using assms True n by (auto simp: boot_core_def Let_def obind_eq_Returns upd_entry_returns bc rd smem_def split: prod.splits if_splits)
  show ?thesis
  proof (cases "r = ucast (smem s (la + 3))")
    case True': True
    then have "counted ?s s' (is_bsp_update (\<lambda>_. True))" using run boot_bsp_counted[of ?s s'] by simp
    then show ?thesis using listed[of "is_bsp_update (\<lambda>_. True)"] True True' n bc rd by (simp add: counted_def)
  next
    case False
    then have "\<exists>f. counted ?s s' f \<and> (f = (\<lambda>c. c) \<or> f = is_bsp_update (\<lambda>_. False))"
      using run boot_ap_counted[of C A L h "smem s (la + 3)" prev ?s s'] by auto
    then show ?thesis using listed True False n bc rd by (auto simp: counted_def)
  qed
qed

section \<open>Properties\<close>

lemma id_shifted: "push_bit 24 (ucast b) = (ucast b :: u32) \<longleftrightarrow> (b :: u8) = 0"
proof
  assume e: "push_bit 24 (ucast b) = (ucast b :: u32)"
  show "b = 0"
  proof (rule bit_word_eqI)
    fix j assume j: "j < LENGTH(8)"
    have "bit (push_bit 24 (ucast b) :: u32) j = bit (ucast b :: u32) j" by (simp only: e)
    then show "bit b j = bit 0 j" using j by (simp add: bit_simps)
  qed
qed simp

text \<open>
  The bootstrap processor is told from the others by comparing the ID register of the local APIC
  with the \<open>apic_id\<close> of its record. The register holds the ID in its top byte, and the code does not
  shift it: a usable core that is the one running, and whose ID is not 0, is listed as another
  processor; it is not marked as the bootstrap processor (and is sent the start-up interrupts).
\<close>

theorem bsp_only_if_id_0:
  assumes "boot_core C A L h la s = Returns s'" "lapic_usable (smem s) la"
    and "\<forall>d. fst (apic_read_reg L APIC_REG_ID d) = push_bit 24 (ucast (smem s (la + 3)))"
    and "is_bsp (cpus (sinfo s) ! ncpu s) = False"
  shows "num_cpus (sinfo s') = num_cpus (sinfo s) + 1
    \<and> lapic_no (cpus (sinfo s') ! ncpu s) = ucast (smem s (la + 3))
    \<and> is_bsp (cpus (sinfo s') ! ncpu s) = (smem s (la + 3) = 0)"
  using assms(1)
proof (cases rule: boot_core_cases)
  case skipped
  then show ?thesis using assms(2) by simp
next
  case (listed f)
  show ?thesis
    using listed assms(3,4) id_shifted[of "smem s (la + 3)"] by (auto split: if_splits)
qed

lemma smp_wait_hangs:
  assumes "\<And>d. unat (fst (sched_cpus A d)) + 1 < ncpu s" "\<And>x d. \<exists>d'. sleep_ms C h x d = Returns d'"
  shows "smp_wait C A h s = Diverges"
proof -
  have "loop_c (wait_up C A h (num_cpus (sinfo s))) (sdev s) = Diverges"
  proof (rule loop_c_diverges[where I = "\<lambda>_. True"])
    fix d
    obtain n d1 where n: "sched_cpus A d = (n, d1)" by (cases "sched_cpus A d")
    obtain d2 where "sleep_ms C h 1 d1 = Returns d2" using assms(2) by blast
    moreover have "int (unat n) \<noteq> int (ncpu s) - 1" using assms(1)[of d] unfolding n fst_conv by linarith
    ultimately show "\<exists>s'. wait_up C A h (num_cpus (sinfo s)) d = Returns (Inl s') \<and> True"
      using n by (simp add: wait_up_def)
  qed simp
  then show ?thesis by (simp add: smp_wait_def)
qed

text \<open>
  C36: A core that does not come up is still counted, although the log says that its initialization
  failed and its stack is freed: if of the usable cores up to and with this one never all but the
  bootstrap processor reach the scheduler, the wait after the last core never ends, and with it
  \<open>smp_init\<close>, on a machine whose sleeps all end.
\<close>

theorem failed_core_hangs:
  assumes "boot_core C A L h la s = Returns s'" "lapic_usable (smem s) la" "ncpu s < 65535"
    and "\<forall>d. unat (fst (sched_cpus A d)) < ncpu s" "\<forall>x d. \<exists>d'. sleep_ms C h x d = Returns d'"
  shows "smp_wait C A h s' = Diverges"
  using assms(1)
proof (cases rule: boot_core_cases)
  case skipped
  then show ?thesis using assms(2) by simp
next
  case (listed f)
  have "ncpu s' = Suc (ncpu s)" using listed(3) assms(3) by (simp add: unat_word_ariths)
  then show ?thesis using assms(4,5) by (intro smp_wait_hangs) simp_all
qed

section \<open>A machine\<close>

text \<open>
  Sleeps that always end: a tick count whose reads alternate between 0 and the largest value. The
  boot counter never changes.
\<close>

definition demo_clock :: "nat clock_reads" where
  "demo_clock = \<lparr>ticks_read = (\<lambda>k. (if even k then 0 else - 1, Suc k)), secs_read = (\<lambda>k. (0, Suc k)), main_counter = (\<lambda>k. (0, k))\<rparr>"

definition demo_pit :: hpet_state where "demo_pit = \<lparr>hpet = False, hpet_period = 0\<rparr>"

lemma wait_step_demo: "\<exists>k'. loop_c (wait_step demo_clock t) k = Returns k'"
proof -
  have odd: "loop_c (wait_step demo_clock t) k = Returns (Suc k)" if "odd k" for k
    using that by (subst loop_c_unfold) (simp add: wait_step_def demo_clock_def)
  show ?thesis
  proof (cases "odd k")
    case False
    then have "wait_step demo_clock t k = Returns (if t = 0 then Inr (Suc k) else Inl (Suc k))"
      by (simp add: wait_step_def demo_clock_def)
    then show ?thesis using False by (subst loop_c_unfold) (simp add: odd)
  qed (use odd in blast)
qed

lemma sleep_demo: "\<exists>d'. sleep_ms demo_clock demo_pit x d = Returns d'"
proof -
  have "wait_target demo_clock ms d = Returns (fst (ticks_read demo_clock d) + ms, Suc (Suc d))" for ms
    by (simp add: wait_target_def demo_clock_def Let_def)
  then show ?thesis
    using wait_step_demo by (simp add: sleep_ms_def hpet_nanosleep_def demo_pit_def pit_wait_def)
qed


text \<open>
  The ID register reads ID 3 and the record at \<open>0x9000\<close> has APIC ID 3 and processor ID 1; the bootstrap
  processor's table is not yet listed. Or, the register reads ID 0, one CPU is listed, and no other comes up.
\<close>

definition demo_aps :: "nat ap_reads" where
  "demo_aps = \<lparr>boot_counter = (\<lambda>k. (7, k)), sched_cpus = (\<lambda>k. (0, k))\<rparr>"

definition demo_ids :: "u8 \<Rightarrow> nat lapic_io" where
  "demo_ids n = \<lparr>apic_read_reg = (\<lambda>r k. (push_bit 24 (ucast n), k)), apic_write_reg = (\<lambda>r v k. k)\<rparr>"

definition demo_smp :: "u16 \<Rightarrow> nat smp" where
  "demo_smp n = \<lparr>svm = \<lparr>vheap = demo_heap\<lparr>kmem := store (kmem demo_heap) 0x9000 [0, 8, 1, 3, 1, 0, 0, 0]\<rparr>, vPML4 = 0, cr3 = 0, tlb = []\<rparr>,
     sgdts = gdts_start, sregs = \<lparr>cr0 = 0, cr4 = 0, msr_low = (\<lambda>_. 0), msr_high = (\<lambda>_. 0), gdtr = 0, cpu_initialized = True\<rparr>,
     sinfo = \<lparr>info_at = 0x100000, cpus = replicate 256 zero_cpu, num_cpus = n\<rparr>, sdev = 0, smp_initialized = False\<rparr>"

lemma demo_record: "smem (demo_smp n) 0x9003 = 3" "lapic_usable (smem (demo_smp n)) 0x9000"
proof -
  have m: "smem (demo_smp n) = store (kmem demo_heap) 0x9000 [0, 8, 1, 3, 1, 0, 0, 0]" by (simp add: smem_def demo_smp_def)
  show "smem (demo_smp n) 0x9003 = 3" unfolding m by simp
  have "load (smem (demo_smp n)) 0x9004 4 = [1, 0, 0, 0]" unfolding m by (simp add: load_def upt_rec)
  then show "lapic_usable (smem (demo_smp n)) 0x9000" by (simp add: lapic_usable_def ld32_def)
qed

lemma startup_fails:
  assumes "\<And>d. boot_counter A d = (c, d)" "\<And>x d. \<exists>d'. sleep_ms C h x d = Returns d'"
  shows "\<exists>d'. startup C A L h n dest c d = Returns (False, d')"
proof -
  have w: "\<exists>d'. wait_boot C A h n c d = Returns (False, d')" for n d
  proof (induction n arbitrary: d)
    case (Suc n)
    obtain d1 where "sleep_ms C h 100 d = Returns d1" using assms(2) by blast
    then show ?case using Suc.IH[of d1] by (simp add: assms(1))
  qed simp
  show ?thesis
  proof (induction n arbitrary: d)
    case (Suc n)
    obtain d1 where "wait_boot C A h 20 c (apic_send_ipi L dest (ucast (SMP_TRAMPOLINE_BLOB_ADDR div PAGE_SIZE)) APIC_IPI_TYPE_STARTUP d)
        = Returns (False, d1)" using w by blast
    then show ?case using Suc.IH[of d1] by (simp add: Let_def)
  qed simp
qed

lemma kmfree_same_meta:
  assumes "kmfree h a = Returns h2" "meta_numpages m' (a - PAGE_SIZE) = meta_numpages (kmem h) (a - PAGE_SIZE)"
  shows "kmfree (h\<lparr>kmem := m'\<rparr>) a = Returns (h2\<lparr>kmem := m'\<rparr>)"
  using assms by (auto simp: kmfree_def Let_def obind_eq_Returns)

lemma demo_kmalloc_page:
  assumes "kpmm hp = demo_mem"
  shows "\<exists>h1 h2. kmalloc hp PAGE_SIZE = Returns (0xffff800000005000, h1) \<and> kmfree h1 0xffff800000005000 = Returns h2"
proof -
  have g: "pmm_get demo_mem 2 0 = Returns (0x4000, demo_mem\<lparr>free_size := 20480, bitmap := [0xC0, 0x13]\<rparr>)"
    by (simp add: pmm_run cong: obind_weak_cong)
  then obtain h1 where k: "kmalloc hp PAGE_SIZE = Returns (0xffff800000005000, h1)"
    using assms by (simp add: kmalloc_def NUM_PAGES_def PAGE_SIZE_def PHYS_TO_VIRT_def MEM_VIRT_OFFSET_def)
  have "heap_inv hp Map.empty" using demo_heap_inv assms by (simp add: heap_inv_def demo_heap_def)
  moreover have "request_ok hp PAGE_SIZE"
    using assms by (simp add: request_ok_def fits_def demo_mem_def NUM_PAGES_def PAGE_SIZE_def)
  ultimately show ?thesis using kheap.alloc_release[OF _ _ k] k by blast
qed

lemma meta_kept:
  "meta_numpages (st64 (st64 m (PHYS_TO_VIRT SMP_TRAMPOLINE_ARG_RSP) v) (PHYS_TO_VIRT SMP_TRAMPOLINE_ARG_CPUINFO) w)
     (0xffff800000005000 - PAGE_SIZE) = meta_numpages m (0xffff800000005000 - PAGE_SIZE)"
proof -
  have "addrs 0xffff800000004000 8 \<inter> addrs (PHYS_TO_VIRT x) 8 = {}"
    if "x = SMP_TRAMPOLINE_ARG_RSP \<or> x = SMP_TRAMPOLINE_ARG_CPUINFO" for x
    by (rule addrs_disjoint)
      (use that in \<open>auto simp: SMP_TRAMPOLINE_ARG_RSP_def SMP_TRAMPOLINE_ARG_CPUINFO_def PHYS_TO_VIRT_def MEM_VIRT_OFFSET_def\<close>)
  then show ?thesis by (simp add: meta_numpages_def ld64_st64_other PAGE_SIZE_def)
qed

lemma demo_ap:
  assumes "kpmm (vheap (svm s)) = demo_mem"
  shows "\<exists>s'. boot_ap demo_clock demo_aps L demo_pit dest 7 s = Returns s'"
proof -
  obtain h1 h2 where k: "kmalloc (vheap (svm s)) PAGE_SIZE = Returns (0xffff800000005000, h1)" and f: "kmfree h1 0xffff800000005000 = Returns h2"
    using demo_kmalloc_page[OF assms] by blast
  let ?f = "\<lambda>m. st64 (st64 m (PHYS_TO_VIRT SMP_TRAMPOLINE_ARG_RSP) (0xffff800000005000 + PAGE_SIZE))
      (PHYS_TO_VIRT SMP_TRAMPOLINE_ARG_CPUINFO) (this_cpu s)"
  have free: "kmfree (h1\<lparr>kmem := ?f (kmem h1)\<rparr>) 0xffff800000005000 = Returns (h2\<lparr>kmem := ?f (kmem h1)\<rparr>)"
    by (rule kmfree_same_meta[OF f meta_kept])
  obtain d1 where d1: "sleep_ms demo_clock demo_pit 100 (apic_send_ipi L dest 0 APIC_IPI_TYPE_INIT (sdev s)) = Returns d1"
    using sleep_demo by blast
  have "boot_counter demo_aps d = (7, d)" for d by (simp add: demo_aps_def)
  then obtain d2 where d2: "startup demo_clock demo_aps L demo_pit 2 dest 7 d1 = Returns (False, d2)"
    using startup_fails[of demo_aps 7 demo_clock demo_pit L 2 dest d1] sleep_demo by blast
  show ?thesis
    unfolding boot_ap_def k using free d1 d2
    by (simp add: on_heap_def on_mem_def smem_def this_cpu_def Let_def)
qed

lemma demo_boot: "\<exists>s'. boot_core demo_clock demo_aps (demo_ids k) demo_pit 0x9000 (demo_smp 1) = Returns s'"
proof -
  let ?s = "demo_smp 1"
  have up: "upd_entry f s = Returns (s\<lparr>sinfo := (sinfo s)\<lparr>cpus := (cpus (sinfo s))[ncpu s := f (cpus (sinfo s) ! ncpu s)]\<rparr>\<rparr>)"
    if "ncpu s < length (cpus (sinfo s))" for f :: "cpu_info \<Rightarrow> cpu_info" and s :: "nat smp"
    using that by (simp add: upd_entry_returns)
  have "push_bit 24 (ucast k) \<noteq> (3 :: u32)"
  proof
    assume e: "push_bit 24 (ucast k) = (3 :: u32)"
    have "bit (push_bit 24 (ucast k) :: u32) 0 = bit (3 :: u32) 0" by (simp only: e)
    then show False by (simp add: bit_simps)
  qed
  moreover have "smem (?s\<lparr>sinfo := i\<rparr>) = smem ?s" for i by (simp add: smem_def)
  moreover have "ncpu ?s < length (cpus (sinfo ?s))" by (simp add: demo_smp_def)
  moreover have "boot_counter demo_aps (sdev ?s) = (7, sdev ?s)" "apic_read_reg (demo_ids k) r d = (push_bit 24 (ucast k), d)" for r d
    by (simp_all add: demo_aps_def demo_ids_def)
  moreover have "\<exists>s'. boot_ap demo_clock demo_aps L demo_pit dest 7 (?s\<lparr>sinfo := i\<rparr>) = Returns s'" for L dest i
    by (rule demo_ap) (simp add: demo_smp_def demo_heap_def)
  ultimately show ?thesis
    using demo_record[of 1] by (simp add: boot_core_def up Let_def)
qed

theorem bsp_only_if_id_0_witness:
  "\<exists>s'. boot_core demo_clock demo_aps (demo_ids 3) demo_pit 0x9000 (demo_smp 1) = Returns s'
     \<and> lapic_no (cpus (sinfo s') ! 1) = 3 \<and> is_bsp (cpus (sinfo s') ! 1) = False"
proof -
  obtain s' where b: "boot_core demo_clock demo_aps (demo_ids 3) demo_pit 0x9000 (demo_smp 1) = Returns s'" using demo_boot by blast
  have "\<forall>d. fst (apic_read_reg (demo_ids 3) APIC_REG_ID d) = push_bit 24 (ucast (smem (demo_smp 1) (0x9000 + 3)))"
    using demo_record(1)[of 1] by (simp add: demo_ids_def)
  moreover have "is_bsp (cpus (sinfo (demo_smp 1)) ! ncpu (demo_smp 1)) = False" "ncpu (demo_smp 1) = 1"
    by (simp_all add: demo_smp_def zero_cpu_def)
  ultimately show ?thesis
    using bsp_only_if_id_0[OF b demo_record(2)] demo_record(1)[of 1] b by auto
qed

theorem failed_core_hangs_witness:
  "\<exists>s'. boot_core demo_clock demo_aps (demo_ids 0) demo_pit 0x9000 (demo_smp 1) = Returns s'
     \<and> smp_wait demo_clock demo_aps demo_pit s' = Diverges"
proof -
  obtain s' where b: "boot_core demo_clock demo_aps (demo_ids 0) demo_pit 0x9000 (demo_smp 1) = Returns s'" using demo_boot by blast
  have n: "ncpu (demo_smp 1) = 1" "\<forall>d. unat (fst (sched_cpus demo_aps d)) < 1" by (simp_all add: demo_smp_def demo_aps_def)
  show ?thesis
    using failed_core_hangs[OF b demo_record(2)] n sleep_demo b by auto
qed

end
