(* ===== verification/Layout.thy ===== *)
theory Layout
  imports Fat32_Files Ata Smp
begin

text \<open>
  The packed structures that the kernel shares with the disk and the firmware (\<open>fs/fat32.h\<close>, \<open>core/acpi.h\<close>,
  \<open>core/madt.h\<close>, \<open>core/hpet.h\<close>, \<open>device/storage/ata.h\<close>, \<open>device/display/edid.h\<close>) as types with a layout, their values
  as bytes, and that the offsets at which the other theories read them are those of the declared fields.
\<close>

section \<open>Types, values and bytes\<close>

text \<open>A number of some bytes, an array, or a packed structure.\<close>

datatype ctype = U nat | Arr ctype nat | Struct "(string \<times> ctype) list"

datatype cval = Num_v "u8 list" | Arr_v "cval list" | Struct_v "(string \<times> cval) list"

datatype sel = Fld string | Idx nat

fun csize :: "ctype \<Rightarrow> nat" and fields_size :: "(string \<times> ctype) list \<Rightarrow> nat" where
  "csize (U n) = n"
| "csize (Arr t n) = n * csize t"
| "csize (Struct fs) = fields_size fs"
| "fields_size [] = 0"
| "fields_size ((f, t) # fs) = csize t + fields_size fs"

fun typed :: "ctype \<Rightarrow> cval \<Rightarrow> bool" and typed_fields :: "(string \<times> ctype) list \<Rightarrow> (string \<times> cval) list \<Rightarrow> bool" where
  "typed (U n) (Num_v bs) \<longleftrightarrow> length bs = n"
| "typed (Arr t n) (Arr_v vs) \<longleftrightarrow> length vs = n \<and> (\<forall>v \<in> set vs. typed t v)"
| "typed (Struct fs) (Struct_v gs) \<longleftrightarrow> typed_fields fs gs"
| "typed _ _ \<longleftrightarrow> False"
| "typed_fields [] [] \<longleftrightarrow> True"
| "typed_fields ((f, t) # fs) ((g, v) # gs) \<longleftrightarrow> f = g \<and> typed t v \<and> typed_fields fs gs"
| "typed_fields _ _ \<longleftrightarrow> False"

fun encode :: "cval \<Rightarrow> u8 list" and encode_fields :: "(string \<times> cval) list \<Rightarrow> u8 list" where
  "encode (Num_v bs) = bs"
| "encode (Arr_v vs) = concat (map encode vs)"
| "encode (Struct_v gs) = encode_fields gs"
| "encode_fields [] = []"
| "encode_fields ((g, v) # gs) = encode v @ encode_fields gs"

text \<open>The value that bytes hold.\<close>

fun decode :: "ctype \<Rightarrow> u8 list \<Rightarrow> cval" and decode_fields :: "(string \<times> ctype) list \<Rightarrow> u8 list \<Rightarrow> (string \<times> cval) list" where
  "decode (U n) b = Num_v (take n b)"
| "decode (Arr t n) b = Arr_v (map (\<lambda>i. decode t (take (csize t) (drop (i * csize t) b))) [0..<n])"
| "decode (Struct fs) b = Struct_v (decode_fields fs b)"
| "decode_fields [] b = []"
| "decode_fields ((f, t) # fs) b = (f, decode t (take (csize t) b)) # decode_fields fs (drop (csize t) b)"

fun field_at :: "(string \<times> ctype) list \<Rightarrow> string \<Rightarrow> (nat \<times> ctype) option" where
  "field_at [] f = None"
| "field_at ((g, t) # fs) f = (if g = f then Some (0, t) else map_option (\<lambda>(off, t'). (csize t + off, t')) (field_at fs f))"

fun part :: "ctype \<Rightarrow> sel \<Rightarrow> (nat \<times> ctype) option" where
  "part (Struct fs) (Fld f) = field_at fs f"
| "part (Arr t n) (Idx i) = (if i < n then Some (i * csize t, t) else None)"
| "part _ _ = None"

text \<open>Offset and type of a part, as \<open>offsetof\<close> has it.\<close>

fun locate :: "ctype \<Rightarrow> sel list \<Rightarrow> (nat \<times> ctype) option" where
  "locate t [] = Some (0, t)"
| "locate t (s # p) = (case part t s of None \<Rightarrow> None
     | Some (off, t') \<Rightarrow> map_option (\<lambda>(off', t''). (off + off', t'')) (locate t' p))"

fun sub_val :: "cval \<Rightarrow> sel \<Rightarrow> cval option" where
  "sub_val (Struct_v gs) (Fld f) = map_of gs f"
| "sub_val (Arr_v vs) (Idx i) = (if i < length vs then Some (vs ! i) else None)"
| "sub_val _ _ = None"

fun select :: "cval \<Rightarrow> sel list \<Rightarrow> cval option" where
  "select v [] = Some v"
| "select v (s # p) = (case sub_val v s of None \<Rightarrow> None | Some v' \<Rightarrow> select v' p)"

definition bytes_at :: "cval \<Rightarrow> sel list \<Rightarrow> u8 list" where
  "bytes_at v p = encode (the (select v p))"

definition num_at :: "cval \<Rightarrow> sel list \<Rightarrow> 'a::len word" where
  "num_at v p = le_word (bytes_at v p)"

lemma length_chunks: "\<forall>v \<in> set vs. length (encode v) = k \<Longrightarrow> length (concat (map encode vs)) = length vs * k"
  by (induction vs) auto

lemma length_encode:
  "typed t v \<Longrightarrow> length (encode v) = csize t"
  "typed_fields fs gs \<Longrightarrow> length (encode_fields gs) = fields_size fs"
  by (induction t v and fs gs rule: typed_typed_fields.induct) (simp_all add: length_chunks)

lemma field_at_bound: "field_at fs f = Some (off, t) \<Longrightarrow> off + csize t \<le> fields_size fs"
  by (induction fs arbitrary: off) (auto split: if_splits)

lemma part_bound: "part t s = Some (off, t') \<Longrightarrow> off + csize t' \<le> csize t"
proof (induction t s rule: part.induct)
  case (2 t n i)
  then have "i * csize t + csize t \<le> n * csize t" using mult_le_mono1 [of "Suc i" n "csize t"] by (simp split: if_splits)
  with 2 show ?case by (auto split: if_splits)
qed (auto dest: field_at_bound)

lemma locate_bound: "locate t p = Some (off, t') \<Longrightarrow> off + csize t' \<le> csize t"
proof (induction p arbitrary: t off)
  case (Cons s p)
  then obtain o1 t1 o2 where 1: "part t s = Some (o1, t1)" "locate t1 p = Some (o2, t')" "off = o1 + o2"
    by (auto split: option.splits)
  from part_bound [OF 1(1)] Cons.IH [OF 1(2)] 1(3) show ?case by simp
qed simp

lemma typed_field:
  "typed_fields fs gs \<Longrightarrow> field_at fs f = Some (off, t) \<Longrightarrow>
     \<exists>v. map_of gs f = Some v \<and> typed t v \<and> take (csize t) (drop off (encode_fields gs)) = encode v"
proof (induction fs gs arbitrary: off rule: list_induct2')
  case (4 x fs y gs)
  obtain g u h w where xy: "x = (g, u)" "y = (h, w)" by (cases x, cases y)
  have t: "h = g" "typed u w" "typed_fields fs gs" using 4(2) xy by auto
  show ?case
  proof (cases "g = f")
    case True
    with 4(3) xy t show ?thesis by (auto simp: length_encode)
  next
    case False
    with 4(3) xy obtain off' where off': "field_at fs f = Some (off', t)" "off = csize u + off'" by auto
    from 4(1) [OF t(3) off'(1)] obtain v where "map_of gs f = Some v" "typed t v"
      "take (csize t) (drop off' (encode_fields gs)) = encode v" by blast
    with False xy t off'(2) show ?thesis by (simp add: length_encode)
  qed
qed auto

lemma nth_chunk:
  "\<forall>v \<in> set vs. length (encode v) = k \<Longrightarrow> i < length vs \<Longrightarrow> take k (drop (i * k) (concat (map encode vs))) = encode (vs ! i)"
proof (induction vs arbitrary: i)
  case (Cons v vs)
  then show ?case by (cases i) auto
qed simp

lemma typed_part:
  assumes "typed t v" "part t s = Some (off, t')"
  shows "\<exists>v'. sub_val v s = Some v' \<and> typed t' v' \<and> take (csize t') (drop off (encode v)) = encode v'"
proof (cases t)
  case (Arr u n)
  have p: "part (Arr u n) s = Some (off, t')" using assms(2) Arr by simp
  then obtain i where s: "s = Idx i" by (cases s) simp_all
  with p have i: "i < n" "off = i * csize u" "t' = u" by (auto split: if_splits)
  from assms(1) Arr obtain vs where v: "v = Arr_v vs" "length vs = n" "\<forall>v \<in> set vs. typed u v" by (cases v) auto
  from v(3) have "\<forall>v \<in> set vs. length (encode v) = csize u" by (auto dest: length_encode(1))
  with v s i show ?thesis using nth_chunk [of vs "csize u" i] by simp
next
  case (Struct fs)
  from assms(2) Struct obtain f where f: "s = Fld f" "field_at fs f = Some (off, t')" by (cases s) auto
  from assms(1) Struct obtain gs where v: "v = Struct_v gs" "typed_fields fs gs" by (cases v) auto
  from typed_field [OF v(2) f(2)] v(1) f(1) show ?thesis by auto
qed (use assms(2) in simp)

text \<open>The bytes at the offset of a part are the bytes of the part's value.\<close>

lemma typed_locate:
  "typed t v \<Longrightarrow> locate t p = Some (off, t') \<Longrightarrow>
     \<exists>v'. select v p = Some v' \<and> typed t' v' \<and> take (csize t') (drop off (encode v)) = encode v'"
proof (induction p arbitrary: t v off)
  case Nil
  then show ?case by (auto simp: length_encode)
next
  case (Cons s p)
  from Cons.prems(2) obtain o1 t1 o2 where 1: "part t s = Some (o1, t1)" "locate t1 p = Some (o2, t')" "off = o1 + o2"
    by (auto split: option.splits)
  from typed_part [OF Cons.prems(1) 1(1)] obtain v1 where v1: "sub_val v s = Some v1" "typed t1 v1"
    "take (csize t1) (drop o1 (encode v)) = encode v1" by blast
  from Cons.IH [OF v1(2) 1(2)] obtain v' where v': "select v1 p = Some v'" "typed t' v'"
    "take (csize t') (drop o2 (encode v1)) = encode v'" by blast
  have "o2 + csize t' \<le> csize t1" using 1(2) by (rule locate_bound)
  then have "take (csize t') (drop o2 (take (csize t1) (drop o1 (encode v)))) = take (csize t') (drop (o1 + o2) (encode v))"
    by (simp add: drop_take add.commute min_def)
  with v1 v' 1(3) show ?case by simp
qed

lemma bytes_at_offset: "typed t v \<Longrightarrow> locate t p = Some (off, t') \<Longrightarrow> bytes_at v p = take (csize t') (drop off (encode v))"
  using typed_locate [of t v p off t'] by (auto simp: bytes_at_def)

text \<open>Every sequence of bytes of the right length is a value.\<close>

lemma chunks_whole:
  "length b = n * k \<Longrightarrow> concat (map (\<lambda>i. take k (drop (i * k) b)) [0..<n]) = b"
proof (induction n arbitrary: b)
  case (Suc n)
  have "length (take (n * k) b) = n * k" using Suc.prems by simp
  note ih = Suc.IH [OF this]
  have "take k (drop (i * k) b) = take k (drop (i * k) (take (n * k) b))" if "i < n" for i
  proof -
    have "i * k + k \<le> n * k" using mult_le_mono1 [of "Suc i" n k] that by simp
    then show ?thesis by (simp add: drop_take min_def)
  qed
  then have "concat (map (\<lambda>i. take k (drop (i * k) b)) [0..<n]) = take (n * k) b"
    using ih by (metis (no_types, lifting) atLeastLessThan_iff map_cong set_upt)
  then show ?case using Suc.prems by simp
qed simp

lemma decode_typed:
  "length b = csize t \<Longrightarrow> typed t (decode t b) \<and> encode (decode t b) = b"
  "length b = fields_size fs \<Longrightarrow> typed_fields fs (decode_fields fs b) \<and> encode_fields (decode_fields fs b) = b"
proof (induction t b and fs b rule: decode_decode_fields.induct)
  case (2 t n b)
  have "typed t (decode t (take (csize t) (drop (i * csize t) b)))
      \<and> encode (decode t (take (csize t) (drop (i * csize t) b))) = take (csize t) (drop (i * csize t) b)" if "i < n" for i
  proof -
    have "i * csize t + csize t \<le> length b" using mult_le_mono1 [of "Suc i" n "csize t"] that 2(2) by simp
    with 2(1) that show ?thesis by simp
  qed
  then have m: "map (\<lambda>i. encode (decode t (take (csize t) (drop (i * csize t) b)))) [0..<n]
      = map (\<lambda>i. take (csize t) (drop (i * csize t) b)) [0..<n]"
    and t: "\<forall>i < n. typed t (decode t (take (csize t) (drop (i * csize t) b)))" by auto
  have "encode (decode (Arr t n) b) = b" using chunks_whole [of b n "csize t"] 2(2) arg_cong [OF m, of concat] by (simp add: comp_def)
  with t show ?case by auto
qed auto

lemma decode_encode:
  "typed t v \<Longrightarrow> decode t (encode v) = v" "typed_fields fs gs \<Longrightarrow> decode_fields fs (encode_fields gs) = gs"
proof (induction t v and fs gs rule: typed_typed_fields.induct)
  case (2 t n vs)
  have "\<forall>v \<in> set vs. length (encode v) = csize t" using 2 by (auto dest: length_encode(1))
  with 2 show ?case by (auto simp: nth_chunk intro!: nth_equalityI)
qed (auto dest: length_encode(1))

section \<open>The structures\<close>

definition fat_extbs_32_t :: ctype where
  "fat_extbs_32_t = Struct [(''table_size_32'', U 4), (''extended_flags'', U 2), (''fat_version'', U 2), (''root_cluster'', U 4),
     (''fat_info'', U 2), (''backup_BS_sector'', U 2), (''reserved_0'', Arr (U 1) 12), (''drive_number'', U 1),
     (''reserved_1'', U 1), (''boot_signature'', U 1), (''volume_id'', U 4), (''volume_label'', Arr (U 1) 11),
     (''fat_type_label'', Arr (U 1) 8)]"

definition fat_bs_t :: ctype where
  "fat_bs_t = Struct [(''bootjmp'', Arr (U 1) 3), (''oem_name'', Arr (U 1) 8), (''bytes_per_sector'', U 2),
     (''sectors_per_cluster'', U 1), (''reserved_sector_count'', U 2), (''table_count'', U 1), (''root_entry_count'', U 2),
     (''total_sectors_16'', U 2), (''media_type'', U 1), (''table_size_16'', U 2), (''sectors_per_track'', U 2),
     (''head_side_count'', U 2), (''hidden_sector_count'', U 4), (''total_sectors_32'', U 4), (''extended_section'', Arr (U 1) 54)]"

text \<open>The first sector as the code uses it: \<open>extended_section\<close> is cast to \<open>fat_extbs_32_t\<close>.\<close>

definition fat32_bs_t :: ctype where
  "fat32_bs_t = (case fat_bs_t of Struct fs \<Rightarrow> Struct (butlast fs @ [(''extended_section'', fat_extbs_32_t)]) | t \<Rightarrow> t)"

definition fat_dir_entry_t :: ctype where
  "fat_dir_entry_t = Struct [(''file_name_and_ext'', Arr (U 1) 11), (''attribute'', U 1), (''file_data_1'', Arr (U 1) 2),
     (''create_time'', U 2), (''create_date'', U 2), (''last_visit_date'', U 2), (''cluster_num_high'', U 2),
     (''modify_time'', U 2), (''modify_date'', U 2), (''cluster_num_low'', U 2), (''file_size_bytes'', U 4)]"

definition fat_lfn_entry_t :: ctype where
  "fat_lfn_entry_t = Struct [(''sequence_number'', U 1), (''name1'', Arr (U 1) 10), (''attribute'', U 1), (''type'', U 1),
     (''dos_checksum'', U 1), (''name2'', Arr (U 1) 12), (''first_cluster'', U 2), (''name3'', Arr (U 1) 4)]"

definition partition_t :: ctype where
  "partition_t = Struct [(''status'', U 1), (''chs_start'', Arr (U 1) 3), (''type'', U 1), (''chs_end'', Arr (U 1) 3),
     (''lba_start'', U 4), (''sector_count'', U 4)]"

definition mbr_t :: ctype where
  "mbr_t = Struct [(''boostrap'', Arr (U 1) 446), (''partitions'', Arr partition_t 4), (''signature'', Arr (U 1) 2)]"

definition ata_identify_t :: ctype where
  "ata_identify_t = Struct [(''flags'', U 2), (''unused1'', Arr (U 2) 9), (''serial'', Arr (U 1) 20), (''unused2'', Arr (U 2) 3),
     (''firmware'', Arr (U 1) 8), (''model'', Arr (U 1) 40), (''sectors_per_int'', U 2), (''unused3'', U 2),
     (''capabilities'', Arr (U 2) 2), (''unused4'', Arr (U 2) 2), (''valid_ext_data'', U 2), (''unused5'', Arr (U 2) 5),
     (''size_of_rw_mult'', U 2), (''sectors_28'', U 4), (''unused6'', Arr (U 2) 38), (''sectors_48'', U 8), (''unused7'', Arr (U 2) 152)]"

definition rsdp_t :: ctype where
  "rsdp_t = Struct [(''sign'', Arr (U 1) 8), (''chksum'', U 1), (''oem_id'', Arr (U 1) 6), (''revision'', U 1), (''rsdt_addr'', U 4),
     (''length'', U 4), (''xsdt_addr'', U 8), (''chksum_ext'', U 1), (''reserved'', Arr (U 1) 3)]"

definition acpi_sdt_hdr_t :: ctype where
  "acpi_sdt_hdr_t = Struct [(''sign'', Arr (U 1) 4), (''length'', U 4), (''rev'', U 1), (''chksum'', U 1), (''oem_id'', Arr (U 1) 6),
     (''oem_table_id'', Arr (U 1) 8), (''oem_rev'', U 4), (''creator_id'', U 4), (''creator_rev'', U 4)]"

definition acpi_gas_t :: ctype where
  "acpi_gas_t = Struct [(''addr_space_id'', U 1), (''reg_bit_width'', U 1), (''reg_bit_offset'', U 1), (''reserved'', U 1), (''address'', U 8)]"

definition madt_record_hdr_t :: ctype where
  "madt_record_hdr_t = Struct [(''type'', U 1), (''len'', U 1)]"

definition madt_record_lapic_t :: ctype where
  "madt_record_lapic_t = Struct [(''hdr'', madt_record_hdr_t), (''proc_id'', U 1), (''apic_id'', U 1), (''flags'', U 4)]"

definition madt_record_ioapic_t :: ctype where
  "madt_record_ioapic_t = Struct [(''hdr'', madt_record_hdr_t), (''id'', U 1), (''reserved'', U 1), (''addr'', U 4), (''gsi_base'', U 4)]"

definition madt_record_iso_t :: ctype where
  "madt_record_iso_t = Struct [(''hdr'', madt_record_hdr_t), (''bus_src'', U 1), (''irq_src'', U 1), (''gsi'', U 4), (''flags'', U 2)]"

definition madt_record_nmi_t :: ctype where
  "madt_record_nmi_t = Struct [(''hdr'', madt_record_hdr_t), (''proc_id'', U 1), (''flags'', U 2), (''lint'', U 1)]"

text \<open>The fixed part of the MADT; its records follow.\<close>

definition madt_t :: ctype where
  "madt_t = Struct [(''hdr'', acpi_sdt_hdr_t), (''lapic_addr'', U 4), (''flags'', U 4)]"

text \<open>The byte of bit fields is one number here.\<close>

definition hpet_sdt_t :: ctype where
  "hpet_sdt_t = Struct [(''hdr'', acpi_sdt_hdr_t), (''hardware_rev_id'', U 1), (''comparators'', U 1), (''pci_vendor_id'', U 2),
     (''base_addr'', acpi_gas_t), (''hpet_number'', U 1), (''minimum_tick'', U 2), (''page_protection'', U 1)]"

definition hpet_timer_t :: ctype where
  "hpet_timer_t = Struct [(''config_and_capabilities'', U 8), (''comparator_value'', U 8), (''fsb_interrupt_route'', U 8), (''unused'', U 8)]"

text \<open>The registers of the HPET with \<open>n\<close> timers, a flexible array.\<close>

definition hpet_t :: "nat \<Rightarrow> ctype" where
  "hpet_t n = Struct [(''general_capabilities'', U 8), (''unused0'', U 8), (''general_configuration'', U 8), (''unused1'', U 8),
     (''general_int_status'', U 8), (''unused2'', U 8), (''unused3'', Arr (Arr (U 8) 12) 2), (''main_counter_value'', U 8), (''unused4'', U 8),
     (''timers'', Arr hpet_timer_t n)]"

definition edid_info_t :: ctype where
  "edid_info_t = Struct [(''padding'', Arr (U 1) 8), (''manufacturer_id_be'', U 2), (''edid_id_code'', U 2), (''serial_num'', U 4),
     (''man_week'', U 1), (''man_year'', U 1), (''edid_version'', U 1), (''edid_revision'', U 1), (''video_input_type'', U 1),
     (''max_hor_size'', U 1), (''max_ver_size'', U 1), (''gamma_factor'', U 1), (''dpms_flags'', U 1), (''chroma_info'', Arr (U 1) 10),
     (''est_timings1'', U 1), (''est_timings2'', U 1), (''man_res_timing'', U 1), (''std_timing_id'', Arr (U 2) 8),
     (''det_timing_desc1'', Arr (U 1) 18), (''det_timing_desc2'', Arr (U 1) 18), (''det_timing_desc3'', Arr (U 1) 18),
     (''det_timing_desc4'', Arr (U 1) 18), (''unused'', U 1), (''checksum'', U 1)]"

lemmas struct_defs = fat_extbs_32_t_def fat_bs_t_def fat32_bs_t_def fat_dir_entry_t_def fat_lfn_entry_t_def partition_t_def mbr_t_def
  ata_identify_t_def rsdp_t_def acpi_sdt_hdr_t_def acpi_gas_t_def madt_record_hdr_t_def madt_record_lapic_t_def
  madt_record_ioapic_t_def madt_record_iso_t_def madt_record_nmi_t_def madt_t_def hpet_sdt_t_def edid_info_t_def

text \<open>The sizes that disk, drive and firmware give them.\<close>

lemma struct_sizes:
  "csize fat_dir_entry_t = 32" "csize fat_lfn_entry_t = 32" "csize fat_bs_t = 90" "csize fat_extbs_32_t = 54"
  "csize fat32_bs_t = 90" "csize partition_t = 16" "csize mbr_t = ATA_SECTOR_SIZE" "csize ata_identify_t = 512"
  "csize rsdp_t = 36" "csize acpi_sdt_hdr_t = unat SDT_HDR_SIZE" "csize madt_t = unat MADT_SIZE" "csize madt_record_lapic_t = 8"
  "csize madt_record_ioapic_t = 12" "csize madt_record_iso_t = 10" "csize madt_record_nmi_t = 6" "csize hpet_sdt_t = 56"
  "csize edid_info_t = 128"
  by (simp_all add: struct_defs ATA_SECTOR_SIZE_def SDT_HDR_SIZE_def MADT_SIZE_def)

text \<open>The registers lie where the data sheet of the HPET has them; timer \<open>i\<close> at \<open>0x100 + 0x20 * i\<close>.\<close>

lemma hpet_registers:
  "locate (hpet_t n) [Fld ''general_capabilities''] = Some (0, U 8)" "locate (hpet_t n) [Fld ''general_configuration''] = Some (0x10, U 8)"
  "locate (hpet_t n) [Fld ''general_int_status''] = Some (0x20, U 8)" "locate (hpet_t n) [Fld ''main_counter_value''] = Some (0xF0, U 8)"
  "i < n \<Longrightarrow> locate (hpet_t n) [Fld ''timers'', Idx i, Fld ''comparator_value''] = Some (0x100 + 0x20 * i + 8, U 8)"
  by (simp_all add: hpet_t_def hpet_timer_t_def)

section \<open>What the code reads\<close>

lemma field_at_part:
  "typed t v \<Longrightarrow> locate t p = Some (off, U n) \<Longrightarrow> field (encode v) off n = num_at v p"
  using bytes_at_offset [of t v p off "U n"] by (simp add: field_def num_at_def)

lemma byte_at_part:
  assumes "typed t v" "locate t p = Some (off, U 1)"
  shows "encode v ! off = num_at v p"
proof -
  have l: "off < length (encode v)" using locate_bound [OF assms(2)] length_encode(1) [OF assms(1)] by simp
  have "take 1 (drop off (encode v)) = [encode v ! off]" using l by (simp add: take_Suc_conv_app_nth)
  then show ?thesis using bytes_at_offset [OF assms] by (simp add: num_at_def)
qed

lemma field_append: "off + n \<le> length xs \<Longrightarrow> field (xs @ ys) off n = field xs off n"
  by (simp add: field_def)

lemma field_part:
  assumes "typed t v" "locate t p = Some (off, U n)"
  shows "field (encode v @ r) off n = num_at v p"
  using locate_bound [OF assms(2)] length_encode(1) [OF assms(1)] field_at_part [OF assms] by (simp add: field_append)

lemma byte_part:
  assumes "typed t v" "locate t p = Some (off, U 1)"
  shows "(encode v @ r) ! off = num_at v p"
  using locate_bound [OF assms(2)] length_encode(1) [OF assms(1)] byte_at_part [OF assms] by (simp add: nth_append)

definition entry_of :: "cval \<Rightarrow> u32 \<Rightarrow> u64 \<Rightarrow> fat32_entry" where
  "entry_of e cluster index = \<lparr>fe_name = bytes_at e [Fld ''file_name_and_ext''], fe_attribute = num_at e [Fld ''attribute''],
     fe_cluster = num_at e [Fld ''cluster_num_low''] OR push_bit 16 (num_at e [Fld ''cluster_num_high'']),
     fe_size = num_at e [Fld ''file_size_bytes''], fe_dir_cluster = cluster, fe_dir_index = index\<rparr>"

lemma read_entry_typed:
  assumes "typed fat_dir_entry_t e" "ident_of s this = Returns fi"
    and "dev_read D fi (cluster_lba fi cluster) 1 s = Returns (dd, s')" "sub_bytes dd (32 * unat index) 32 = Returns (encode e)"
  shows "fat32_read_entry D this cluster index s = Returns (entry_of e cluster index, s')"
proof -
  note loc = fat_dir_entry_t_def
  have "take 11 (encode e) = bytes_at e [Fld ''file_name_and_ext'']"
    using bytes_at_offset [OF assms(1), of "[Fld ''file_name_and_ext'']" 0 "Arr (U 1) 11"] by (simp add: loc)
  moreover have "encode e ! 11 = num_at e [Fld ''attribute'']"
    by (rule byte_at_part [OF assms(1)]) (simp add: loc)
  moreover have "field (encode e) 26 2 = (num_at e [Fld ''cluster_num_low''] :: u32)"
    "field (encode e) 20 2 = (num_at e [Fld ''cluster_num_high''] :: u32)"
    "field (encode e) 28 4 = (num_at e [Fld ''file_size_bytes''] :: u32)"
    by (rule field_at_part [OF assms(1)], simp add: loc)+
  ultimately show ?thesis using assms(2-4) by (simp add: fat32_read_entry_def entry_of_def)
qed

text \<open>Writing an entry back changes the five fields of \<open>src\<close> and no other.\<close>

lemma set_entry_typed:
  assumes "typed fat_dir_entry_t e" "length (fe_name src) = 11"
  shows "\<exists>e'. typed fat_dir_entry_t e' \<and> encode e' = set_dir_entry (encode e) src
     \<and> entry_of e' (fe_dir_cluster src) (fe_dir_index src) = src
     \<and> (\<forall>f \<in> {''file_data_1'', ''create_time'', ''create_date'', ''last_visit_date'', ''modify_time'', ''modify_date''}.
          bytes_at e' [Fld f] = bytes_at e [Fld f])"
proof -
  let ?b = "set_dir_entry (encode e) src" and ?e' = "decode fat_dir_entry_t (set_dir_entry (encode e) src)"
  have l: "length (encode e) = 32" using length_encode(1) [OF assms(1)] by (simp add: struct_sizes)
  have b: "length ?b = 32" using assms(2) l by (simp add: set_dir_entry_def length_word_le)
  then have t: "typed fat_dir_entry_t ?e'" "encode ?e' = ?b" using decode_typed(1) [of ?b fat_dir_entry_t] by (simp_all add: struct_sizes)
  note at = bytes_at_offset [OF t(1), unfolded t(2)]
  note new = fat_dir_entry_t_def set_dir_entry_def assms(2) l length_word_le
  have n: "bytes_at ?e' [Fld ''file_name_and_ext''] = fe_name src" "bytes_at ?e' [Fld ''attribute''] = [fe_attribute src]"
    "bytes_at ?e' [Fld ''cluster_num_high''] = word_le 2 (drop_bit 16 (fe_cluster src))"
    "bytes_at ?e' [Fld ''cluster_num_low''] = word_le 2 (fe_cluster src)"
    "bytes_at ?e' [Fld ''file_size_bytes''] = word_le 4 (fe_size src)"
    by (subst at, simp add: new, simp add: new)+
  have "take_bit 16 (fe_cluster src) OR push_bit 16 (take_bit 16 (drop_bit 16 (fe_cluster src))) = fe_cluster src"
    by (rule bit_eqI) (auto simp: bit_simps)
  then have "entry_of ?e' (fe_dir_cluster src) (fe_dir_index src) = src"
    by (simp add: entry_of_def num_at_def n le_word_word_le take_bit_word_eq_self)
  moreover have "bytes_at ?e' [Fld f] = bytes_at e [Fld f]"
    if "f \<in> {''file_data_1'', ''create_time'', ''create_date'', ''last_visit_date'', ''modify_time'', ''modify_date''}" for f
    using that by (elim insertE emptyE; simp only:; subst at, simp add: new, subst bytes_at_offset [OF assms(1)], simp add: new)
      (simp_all add: new drop_take)
  ultimately show ?thesis using t by blast
qed

text \<open>
  C30: a directory entry on the disk is a value of \<open>fat_dir_entry_t\<close>: reading it yields the fields the structure
  declares, and writing an entry back leaves, in its place in the sector, a value of the same type that reads as
  what was written and keeps the fields the kernel does not know.
\<close>

theorem dir_entry_typed:
  assumes e: "typed fat_dir_entry_t e" and src: "length (fe_name src) = 11"
    and fi: "ident_of s this = Returns fi"
    and rd: "dev_read D fi (cluster_lba fi (fe_dir_cluster src)) 1 s = Returns (dd, s')"
    and dd: "dd = pre @ encode e @ post" "length pre = 32 * unat (fe_dir_index src)"
  shows "fat32_read_entry D this (fe_dir_cluster src) (fe_dir_index src) s
      = Returns (entry_of e (fe_dir_cluster src) (fe_dir_index src), s')
     \<and> (\<exists>e'. typed fat_dir_entry_t e' \<and> entry_of e' (fe_dir_cluster src) (fe_dir_index src) = src
       \<and> (\<forall>f \<in> {''file_data_1'', ''create_time'', ''create_date'', ''last_visit_date'', ''modify_time'', ''modify_date''}.
            bytes_at e' [Fld f] = bytes_at e [Fld f])
       \<and> fat32_write_entry D this src s
           = dev_write D fi (cluster_lba fi (fe_dir_cluster src)) 1 (pre @ encode e' @ post) s')"
proof -
  have l: "length (encode e) = 32" using length_encode(1) [OF e] by (simp add: struct_sizes)
  then have sub: "sub_bytes dd (32 * unat (fe_dir_index src)) 32 = Returns (encode e)" by (simp add: sub_bytes_def dd)
  from set_entry_typed [OF e src] obtain e' where e': "typed fat_dir_entry_t e'" "encode e' = set_dir_entry (encode e) src"
    "entry_of e' (fe_dir_cluster src) (fe_dir_index src) = src"
    "\<forall>f \<in> {''file_data_1'', ''create_time'', ''create_date'', ''last_visit_date'', ''modify_time'', ''modify_date''}.
       bytes_at e' [Fld f] = bytes_at e [Fld f]" by blast
  have "length (encode e') = 32" using length_encode(1) [OF e'(1)] by (simp add: struct_sizes)
  then have "blit dd (32 * unat (fe_dir_index src)) (encode e') = Returns (pre @ encode e' @ post)"
    using l by (simp add: blit_def dd)
  then have "fat32_write_entry D this src s
      = dev_write D fi (cluster_lba fi (fe_dir_cluster src)) 1 (pre @ encode e' @ post) s'"
    by (simp add: fat32_write_entry_def fi rd sub e'(2) [symmetric] Let_def)
  with e' read_entry_typed [OF e fi rd sub] show ?thesis by blast
qed

text \<open>An entry whose bytes are 0 to 31, the fourth of its sector.\<close>

definition demo_entry :: cval where
  "demo_entry = decode fat_dir_entry_t (map of_nat [0..<32])"

definition demo_source :: fat32_entry where
  "demo_source = \<lparr>fe_name = replicate 11 0x41, fe_attribute = 0x20, fe_cluster = 0x12345678, fe_size = 7,
     fe_dir_cluster = 2, fe_dir_index = 3\<rparr>"

lemma demo_entry_typed: "typed fat_dir_entry_t demo_entry" "encode demo_entry = map of_nat [0..<32]"
  unfolding demo_entry_def using decode_typed(1) [of "map of_nat [0..<32]" fat_dir_entry_t] by (simp_all add: struct_sizes)

lemma dir_entry_typed_witness:
  "\<exists>s e'. fat32_read_entry ram_disk 5 2 3 (demo_vfs (\<lambda>_ _. replicate 96 0 @ map of_nat [0..<32] @ replicate 384 0))
       = Returns (entry_of demo_entry 2 3, s)
     \<and> entry_of demo_entry 2 3 = \<lparr>fe_name = map of_nat [0..<11], fe_attribute = 11, fe_cluster = 0x15141B1A, fe_size = 0x1F1E1D1C,
          fe_dir_cluster = 2, fe_dir_index = 3\<rparr>
     \<and> entry_of e' 2 3 = demo_source \<and> bytes_at e' [Fld ''modify_date''] = [24, 25]
     \<and> fat32_write_entry ram_disk 5 demo_source (demo_vfs (\<lambda>_ _. replicate 96 0 @ map of_nat [0..<32] @ replicate 384 0))
       = dev_write ram_disk demo_fi (cluster_lba demo_fi 2) 1 (replicate 96 0 @ encode e' @ replicate 384 0) s"
proof -
  let ?h = "\<lambda>_ _. replicate 96 0 @ encode demo_entry @ replicate 384 0"
  have fi: "ident_of (demo_vfs ?h) 5 = Returns demo_fi" by (rule demo_volume(1) [of "\<lambda>_. True" _ "\<lambda>_. True"]) simp_all
  have src: "length (fe_name demo_source) = 11" "fe_dir_cluster demo_source = 2" "fe_dir_index demo_source = 3"
    by (simp_all add: demo_source_def)
  have l: "unat (cluster_lba demo_fi 2) = 12" by (simp add: cluster_lba_def demo_fi_def)
  have "dev_read ram_disk demo_fi (cluster_lba demo_fi (fe_dir_cluster demo_source)) 1 (demo_vfs ?h)
      = Returns (replicate 96 0 @ encode demo_entry @ replicate 384 0, demo_vfs ?h)"
    unfolding src(2) by (simp add: dev_read_def ram_disk_def l) (simp add: demo_fi_def demo_vfs_def)
  note t = dir_entry_typed [OF demo_entry_typed(1) src(1) fi this refl, unfolded src(2,3)]
  have "length (replicate 96 (0 :: u8)) = 32 * unat (3 :: u64)" by simp
  from t [OF this] obtain e' where e': "entry_of e' 2 3 = demo_source"
    "bytes_at e' [Fld ''modify_date''] = bytes_at demo_entry [Fld ''modify_date'']"
    "fat32_write_entry ram_disk 5 demo_source (demo_vfs ?h)
      = dev_write ram_disk demo_fi (cluster_lba demo_fi 2) 1 (replicate 96 0 @ encode e' @ replicate 384 0) (demo_vfs ?h)"
    "fat32_read_entry ram_disk 5 2 3 (demo_vfs ?h) = Returns (entry_of demo_entry 2 3, demo_vfs ?h)"
    by auto
  note at = bytes_at_offset [OF demo_entry_typed(1), unfolded demo_entry_typed(2)]
  have b: "bytes_at demo_entry [Fld ''modify_date''] = [24, 25]" "bytes_at demo_entry [Fld ''file_name_and_ext''] = map of_nat [0..<11]"
    "bytes_at demo_entry [Fld ''attribute''] = [11]" "bytes_at demo_entry [Fld ''cluster_num_low''] = [26, 27]"
    "bytes_at demo_entry [Fld ''cluster_num_high''] = [20, 21]" "bytes_at demo_entry [Fld ''file_size_bytes''] = [28, 29, 30, 31]"
    by (subst at, simp add: fat_dir_entry_t_def, simp add: upt_conv_Cons)+
  have "entry_of demo_entry 2 3 = \<lparr>fe_name = map of_nat [0..<11], fe_attribute = 11, fe_cluster = 0x15141B1A, fe_size = 0x1F1E1D1C,
          fe_dir_cluster = 2, fe_dir_index = 3\<rparr>"
    by (simp add: entry_of_def num_at_def b)
  with e' b(1) show ?thesis unfolding demo_entry_typed(2) by (intro exI [of _ "demo_vfs _"] exI [of _ e']) simp
qed

text \<open>
  the boot sector, the partition table and the identity of a drive are read by the fields of their types.
\<close>

theorem volume_typed:
  assumes b: "typed fat32_bs_t b" and p: "typed mbr_t p" and i: "typed ata_identify_t v" "identity dv = encode v"
  shows "boot_info lba (encode b @ rest) =
      (let fat_begin = lba + ucast (num_at b [Fld ''reserved_sector_count''] :: u16);
           nfats = num_at b [Fld ''table_count''] :: u8; per_fat = num_at b [Fld ''extended_section'', Fld ''table_size_32'']
       in \<lparr>bytes_per_sector = num_at b [Fld ''bytes_per_sector''], sectors_per_cluster = num_at b [Fld ''sectors_per_cluster''],
           reserved_sector_count = num_at b [Fld ''reserved_sector_count''], num_fats = nfats, sectors_per_fat = per_fat,
           root_dir_first_cluster = num_at b [Fld ''extended_section'', Fld ''root_cluster''],
           fat_begin_lba = fat_begin, cluster_begin_lba = fat_begin + ucast nfats * per_fat,
           total_sectors = num_at b [Fld ''total_sectors_32'']\<rparr>)"
    and "j < 4 \<Longrightarrow> encode p ! (446 + 16 * j + 4) = num_at p [Fld ''partitions'', Idx j, Fld ''type'']"
    and "j < 4 \<Longrightarrow> field (encode p) (446 + 16 * j + 8) 4 = (num_at p [Fld ''partitions'', Idx j, Fld ''lba_start''] :: u32)"
    and "[encode p ! 510, encode p ! 511] = bytes_at p [Fld ''signature'']"
    and "sectors_28 dv = num_at v [Fld ''sectors_28'']" and "sectors_48 dv = num_at v [Fld ''sectors_48'']"
proof -
  note n = field_part [OF b, where r = rest] byte_part [OF b, where r = rest]
  have "field (encode b @ rest) 14 2 = (num_at b [Fld ''reserved_sector_count''] :: u16)"
    "field (encode b @ rest) 11 2 = (num_at b [Fld ''bytes_per_sector''] :: u16)"
    "(encode b @ rest) ! 13 = num_at b [Fld ''sectors_per_cluster'']" "(encode b @ rest) ! 16 = num_at b [Fld ''table_count'']"
    "field (encode b @ rest) 36 4 = (num_at b [Fld ''extended_section'', Fld ''table_size_32''] :: u32)"
    "field (encode b @ rest) 44 4 = (num_at b [Fld ''extended_section'', Fld ''root_cluster''] :: u32)"
    "field (encode b @ rest) 32 4 = (num_at b [Fld ''total_sectors_32''] :: u32)"
    by (rule n, simp add: struct_defs)+
  then show "boot_info lba (encode b @ rest) =
      (let fat_begin = lba + ucast (num_at b [Fld ''reserved_sector_count''] :: u16);
           nfats = num_at b [Fld ''table_count''] :: u8; per_fat = num_at b [Fld ''extended_section'', Fld ''table_size_32'']
       in \<lparr>bytes_per_sector = num_at b [Fld ''bytes_per_sector''], sectors_per_cluster = num_at b [Fld ''sectors_per_cluster''],
           reserved_sector_count = num_at b [Fld ''reserved_sector_count''], num_fats = nfats, sectors_per_fat = per_fat,
           root_dir_first_cluster = num_at b [Fld ''extended_section'', Fld ''root_cluster''],
           fat_begin_lba = fat_begin, cluster_begin_lba = fat_begin + ucast nfats * per_fat,
           total_sectors = num_at b [Fld ''total_sectors_32'']\<rparr>)"
    by (simp add: boot_info_def Let_def)
  show "encode p ! (446 + 16 * j + 4) = num_at p [Fld ''partitions'', Idx j, Fld ''type'']" if "j < 4"
    by (rule byte_at_part [OF p]) (use that in \<open>simp add: struct_defs\<close>)
  show "field (encode p) (446 + 16 * j + 8) 4 = (num_at p [Fld ''partitions'', Idx j, Fld ''lba_start''] :: u32)" if "j < 4"
    by (rule field_at_part [OF p]) (use that in \<open>simp add: struct_defs\<close>)
  have l: "length (encode p) = 512" using length_encode(1) [OF p] by (simp add: struct_sizes ATA_SECTOR_SIZE_def)
  have "take 2 (drop 510 (encode p)) = [encode p ! 510, encode p ! 511]"
    by (rule nth_equalityI) (use l in \<open>auto simp: less_2_cases_iff\<close>)
  then show "[encode p ! 510, encode p ! 511] = bytes_at p [Fld ''signature'']"
    using bytes_at_offset [OF p, of "[Fld ''signature'']" 510 "Arr (U 1) 2"] by (simp add: struct_defs)
  have "field (encode v) 120 4 = (num_at v [Fld ''sectors_28''] :: u32)" "field (encode v) 200 8 = (num_at v [Fld ''sectors_48''] :: u64)"
    by (rule field_at_part [OF i(1)], simp add: struct_defs)+
  then show "sectors_28 dv = num_at v [Fld ''sectors_28'']" "sectors_48 dv = num_at v [Fld ''sectors_48'']"
    by (simp_all add: sectors_28_def sectors_48_def i(2) field_def)
qed

section \<open>The firmware's tables\<close>

text \<open>A value at an address of the memory.\<close>

definition holds_at :: "memory \<Rightarrow> u64 \<Rightarrow> ctype \<Rightarrow> cval \<Rightarrow> bool" where
  "holds_at m a t v \<longleftrightarrow> typed t v \<and> load m a (csize t) = encode v"

lemma load_part:
  assumes "holds_at m a t v" "locate t p = Some (off, U n)"
  shows "le_word (load m (a + of_nat off) n) = num_at v p"
proof -
  have "off + n \<le> csize t" using locate_bound [OF assms(2)] by simp
  then have "take n (drop off (load m a (csize t))) = load m (a + of_nat off) n"
    by (intro nth_equalityI) (simp_all add: add.assoc)
  then show ?thesis using assms bytes_at_offset [of t v p off "U n"] by (simp add: holds_at_def num_at_def)
qed

lemma byte_load:
  assumes "holds_at m a t v" "locate t p = Some (off, U 1)"
  shows "m (a + of_nat off) = num_at v p"
proof -
  have "load m (a + of_nat off) 1 = [m (a + of_nat off)]" by (simp add: load_def)
  moreover have "(le_word (load m (a + of_nat off) 1) :: u8) = num_at v p" by (rule load_part [OF assms])
  ultimately show ?thesis by simp
qed

text \<open>
  with tables of the declared types in memory, the root pointer, the table header, the MADT, its local APIC
  records and the HPET's table are read by their fields.
\<close>

theorem firmware_tables_typed:
  assumes r: "holds_at m rp rsdp_t r" and h: "holds_at m t acpi_sdt_hdr_t hv" and md: "holds_at m (madt ms) madt_t md"
    and la: "holds_at m la madt_record_lapic_t rec" and hp: "holds_at m tp hpet_sdt_t hp" "acpi_get_sdt m a sign_hpet = Returns tp" "tp \<noteq> 0"
  shows "acpi_init m rp ms =
      (let a = (if num_at r [Fld ''revision''] = (2 :: u8)
                then \<lparr>sdt = PHYS_TO_VIRT (num_at r [Fld ''xsdt_addr'']), use_xsdt = True\<rparr>
                else \<lparr>sdt = PHYS_TO_VIRT (ucast (num_at r [Fld ''rsdt_addr''] :: u32)), use_xsdt = False\<rparr>)
       in omap (Pair a) (madt_init m a ms))
     \<and> sdt_length m t = ucast (num_at hv [Fld ''length''] :: u32)
     \<and> madt_get_lapic_base m ms = ucast (num_at md [Fld ''lapic_addr''] :: u32)
     \<and> m la = num_at rec [Fld ''hdr'', Fld ''type''] \<and> m (la + 1) = num_at rec [Fld ''hdr'', Fld ''len'']
     \<and> m (la + 2) = num_at rec [Fld ''proc_id''] \<and> m (la + 3) = num_at rec [Fld ''apic_id'']
     \<and> (lapic_usable m la \<longleftrightarrow> bit (num_at rec [Fld ''flags''] :: u32) 1 \<or> bit (num_at rec [Fld ''flags''] :: u32) 0)
     \<and> hpet_init m a caps config hs v =
         (let address = num_at hp [Fld ''base_addr'', Fld ''address''] in
          obind (vmm_map v (PHYS_TO_VIRT address) address 1 VMM_FLAGS_MMIO) (\<lambda>v.
            omap (\<lambda>(h, config). (h, config, v)) (hpet_setup caps config hs)))"
proof -
  have 1: "m (rp + 15) = num_at r [Fld ''revision'']"
    using byte_load [OF r, of "[Fld ''revision'']" 15] by (simp add: struct_defs)
  have 2: "ld32 m (rp + 16) = num_at r [Fld ''rsdt_addr'']" "ld64 m (rp + 24) = num_at r [Fld ''xsdt_addr'']"
    using load_part [OF r, of "[Fld ''rsdt_addr'']" 16 4] load_part [OF r, of "[Fld ''xsdt_addr'']" 24 8]
    by (simp_all add: struct_defs ld32_def ld64_def)
  have 3: "ld32 m (t + 4) = num_at hv [Fld ''length'']"
    using load_part [OF h, of "[Fld ''length'']" 4 4] by (simp add: struct_defs ld32_def)
  have 4: "ld32 m (madt ms + SDT_HDR_SIZE) = num_at md [Fld ''lapic_addr'']"
    using load_part [OF md, of "[Fld ''lapic_addr'']" 36 4] by (simp add: struct_defs ld32_def SDT_HDR_SIZE_def)
  have 5: "m la = num_at rec [Fld ''hdr'', Fld ''type'']" "m (la + 1) = num_at rec [Fld ''hdr'', Fld ''len'']"
    "m (la + 2) = num_at rec [Fld ''proc_id'']" "m (la + 3) = num_at rec [Fld ''apic_id'']"
    "ld32 m (la + 4) = num_at rec [Fld ''flags'']"
    using byte_load [OF la, of "[Fld ''hdr'', Fld ''type'']" 0] byte_load [OF la, of "[Fld ''hdr'', Fld ''len'']" 1]
      byte_load [OF la, of "[Fld ''proc_id'']" 2] byte_load [OF la, of "[Fld ''apic_id'']" 3] load_part [OF la, of "[Fld ''flags'']" 4 4]
    by (simp_all add: struct_defs ld32_def)
  have 6: "ld64 m (tp + 44) = num_at hp [Fld ''base_addr'', Fld ''address'']"
    using load_part [OF hp(1), of "[Fld ''base_addr'', Fld ''address'']" 44 8] by (simp add: struct_defs ld64_def)
  have "hpet_init m a caps config hs v =
         (let address = num_at hp [Fld ''base_addr'', Fld ''address''] in
          obind (vmm_map v (PHYS_TO_VIRT address) address 1 VMM_FLAGS_MMIO) (\<lambda>v.
            omap (\<lambda>(h, config). (h, config, v)) (hpet_setup caps config hs)))"
    using hp(2,3) 6 by (simp add: hpet_init_def Let_def)
  moreover have "acpi_init m rp ms =
      (let a = (if num_at r [Fld ''revision''] = (2 :: u8)
                then \<lparr>sdt = PHYS_TO_VIRT (num_at r [Fld ''xsdt_addr'']), use_xsdt = True\<rparr>
                else \<lparr>sdt = PHYS_TO_VIRT (ucast (num_at r [Fld ''rsdt_addr''] :: u32)), use_xsdt = False\<rparr>)
       in omap (Pair a) (madt_init m a ms))"
    by (simp add: acpi_init_def 1 2)
  ultimately show ?thesis using 5
    by (simp add: sdt_length_def 3 madt_get_lapic_base_def 4 lapic_usable_def)
qed

text \<open>A root table with one entry, the table of the HPET; everything else is what the bytes happen to be.\<close>

definition table_memory :: memory where
  "table_memory a = (if a = 0x1004 then 40 else if a = 0x1025 then 0x20
     else if a = PHYS_TO_VIRT 0x2000 then 0x48 else if a = PHYS_TO_VIRT 0x2001 then 0x50
     else if a = PHYS_TO_VIRT 0x2002 then 0x45 else if a = PHYS_TO_VIRT 0x2003 then 0x54 else 0)"

lemma holds_decoded: "holds_at m a t (decode t (load m a (csize t)))"
  using decode_typed(1) [of "load m a (csize t)" t] by (simp add: holds_at_def)

lemma table_found: "acpi_get_sdt table_memory \<lparr>sdt = 0x1000, use_xsdt = False\<rparr> sign_hpet = Returns (PHYS_TO_VIRT 0x2000)"
proof -
  let ?a = "\<lparr>sdt = 0x1000, use_xsdt = False\<rparr>"
  have l: "ld32 table_memory 0x1004 = 40" "ld32 table_memory 0x1024 = 0x2000"
    by (simp_all add: ld32_def load_def upt_conv_Cons table_memory_def PHYS_TO_VIRT_def MEM_VIRT_OFFSET_def)
  have "sdt_tables table_memory ?a = [PHYS_TO_VIRT 0x2000]"
    by (simp add: sdt_tables_def sdt_len_def sdt_length_def sdt_entry_def SDT_HDR_SIZE_def l)
  moreover have "load table_memory (PHYS_TO_VIRT 0x2000) (length sign_hpet) = sign_hpet"
    by (simp add: sign_hpet_def load_def upt_conv_Cons table_memory_def PHYS_TO_VIRT_def MEM_VIRT_OFFSET_def)
  ultimately show ?thesis by (simp add: acpi_get_sdt_find)
qed

lemma firmware_tables_typed_witness:
  "\<forall>v. hpet_init table_memory \<lparr>sdt = 0x1000, use_xsdt = False\<rparr> 0 7 \<lparr>hpet = True, hpet_period = 1\<rparr> v
     = obind (vmm_map v (PHYS_TO_VIRT 0) 0 1 VMM_FLAGS_MMIO) (\<lambda>v. Returns (\<lparr>hpet = False, hpet_period = 1\<rparr>, 7, v))"
  (is "\<forall>v. ?P v")
proof (rule allI)
  fix v
  let ?m = table_memory and ?T = "PHYS_TO_VIRT 0x2000"
  let ?hp = "decode hpet_sdt_t (load ?m ?T (csize hpet_sdt_t))"
  have nz: "?T \<noteq> 0" by (simp add: PHYS_TO_VIRT_def MEM_VIRT_OFFSET_def)
  have "le_word (load ?m (?T + of_nat 44) 8) = (num_at ?hp [Fld ''base_addr'', Fld ''address''] :: u64)"
    by (rule load_part [OF holds_decoded]) (simp add: struct_defs)
  then have z: "num_at ?hp [Fld ''base_addr'', Fld ''address''] = (0 :: u64)"
    by (simp add: load_def upt_conv_Cons table_memory_def PHYS_TO_VIRT_def MEM_VIRT_OFFSET_def)
  from firmware_tables_typed [where rp = 0 and t = 0 and ms = madt_start and la = 0 and caps = 0 and config = 7
      and hs = "\<lparr>hpet = True, hpet_period = 1\<rparr>" and v = v, OF holds_decoded holds_decoded holds_decoded holds_decoded
      holds_decoded table_found nz] z
  show "?P v" by (simp add: hpet_setup_def)
qed

end
