(* ===== verification/Ata_Detect.thy ===== *)
theory Ata_Detect
  imports Ata Fat32_Vfs Fat32_Files
begin

text \<open>
  Detection of the four drives (\<open>ata_init\<close> and what it calls): each drive found gets a node under
  \<open>/dev\<close>, and the first FAT32 partition of a disk is mounted under \<open>/disk\<close>. The device state is the
  drive of the FAT32 file system, whose disk is the driver itself.
\<close>

record ata_driver =
  ata_drive_char :: u8
  cdrom_number :: u8
  ata_devs :: "nat \<Rightarrow> ata_device"

definition ata_boot :: ata_driver where
  "ata_boot = \<lparr>ata_drive_char = 0x61, cdrom_number = 0,
     ata_devs = (\<lambda>k. if k = 0 then ata_primary_master else if k = 1 then ata_primary_slave
                     else if k = 2 then ata_secondary_master else ata_secondary_slave)\<rparr>"

text \<open>The file systems as the detection sees them: FAT32 over the drives known so far.\<close>

definition ata_table :: "'d io_ports \<Rightarrow> ata_driver \<Rightarrow> 'd fat32_dev fs_table" where
  "ata_table P drv = fat32_table (ata_disk P (ata_devs drv))"

definition hd_path :: "u8 list" where "hd_path = [0x2F, 0x64, 0x65, 0x76, 0x2F, 0x68, 0x64]"
definition cdrom_path :: "u8 list" where
  "cdrom_path = [0x2F, 0x64, 0x65, 0x76, 0x2F, 0x63, 0x64, 0x72, 0x6F, 0x6D]"
definition disk_prefix :: "u8 list" where "disk_prefix = [0x2F, 0x64, 0x69, 0x73, 0x6B, 0x2F]"

definition register_device ::
  "'d io_ports \<Rightarrow> ata_driver \<Rightarrow> nat \<Rightarrow> u8 list \<Rightarrow> 'd fat_vfs \<Rightarrow> 'd fat_vfs outcome" where
  "register_device P drv k devname s =
     obind (vfs_path_to_node (ata_table P drv) devname CREATE VFS_NODE_BLOCK_DEVICE s) (\<lambda>(tn, s).
       case tn of
         None \<Rightarrow> Faults NullDeref
       | Some t \<Rightarrow>
           (let (i, s) = vfs_alloc_inode VFS_NODE_BLOCK_DEVICE 0x1FF 0 None (Some t) s
            in obind (tnode_at s t) (\<lambda>n. omap (\<lambda>ino.
                 put_inode i (ino\<lparr>iident := Some k\<rparr>) (s\<lparr>tnodes := (tnodes s)(t \<mapsto> n\<lparr>tinode := i\<rparr>)\<rparr>))
               (inode_at s i))))"

definition ata_read_partition_map ::
  "'d io_ports \<Rightarrow> ata_driver \<Rightarrow> nat \<Rightarrow> u8 list \<Rightarrow> 'd fat_vfs \<Rightarrow> (int \<times> 'd fat_vfs) outcome" where
  "ata_read_partition_map P drv k devname s =
     obind (ata_pio_read28 P (ata_devs drv k) 0 1 (drive (fsdev s))) (\<lambda>(mbr, d).
       let s = with_drive d s in
       if mbr ! 510 = 0x55 \<and> mbr ! 511 = 0xAA then
         (case find (\<lambda>j. is_fat32_type (mbr ! (446 + 16 * j + 4))) [0..<4] of
            None \<Rightarrow> Returns (0, s)
          | Some j \<Rightarrow>
              let path = disk_prefix @ [0x30 + of_nat j] in
              obind (vfs_path_to_node (ata_table P drv) path CREATE VFS_NODE_FOLDER s) (\<lambda>(_, s).
                omap (\<lambda>(_, s). (0, s)) (vfs_mount (ata_table P drv) devname path fat32_name s)))
       else Returns (1, s))"

definition set_device :: "nat \<Rightarrow> ata_device \<Rightarrow> ata_driver \<Rightarrow> ata_driver" where
  "set_device k dv drv = drv\<lparr>ata_devs := (ata_devs drv)(k := dv)\<rparr>"

definition detect_disk ::
  "'d io_ports \<Rightarrow> nat \<Rightarrow> ata_driver \<times> 'd fat_vfs \<Rightarrow> (int \<times> ata_driver \<times> 'd fat_vfs) outcome" where
  "detect_disk P k st =
     (case st of (drv, s) \<Rightarrow>
        let (ready, dv, d) = ata_device_init P (ata_devs drv k) (drive (fsdev s));
            drv = set_device k dv drv; s = with_drive d s; devname = hd_path @ [ata_drive_char drv]
        in if \<not> ready then Returns (0, drv, s)
           else obind (register_device P drv k devname s) (\<lambda>s.
             omap (\<lambda>(_, s). (1, drv\<lparr>ata_drive_char := ata_drive_char drv + 1\<rparr>, s))
               (ata_read_partition_map P drv k devname s)))"

definition detect_cdrom ::
  "'d io_ports \<Rightarrow> nat \<Rightarrow> ata_driver \<times> 'd fat_vfs \<Rightarrow> (int \<times> ata_driver \<times> 'd fat_vfs) outcome" where
  "detect_cdrom P k st =
     (case st of (drv, s) \<Rightarrow>
        obind (atapi_device_init P (ata_devs drv k) (drive (fsdev s))) (\<lambda>(ready, dv, d).
          let drv = set_device k dv drv; s = with_drive d s in
          if \<not> ready then Returns (0, drv, s)
          else omap (\<lambda>s. (2, drv\<lparr>cdrom_number := cdrom_number drv + 1\<rparr>, s))
                 (register_device P drv k (cdrom_path @ [0x31 + cdrom_number drv]) s)))"

definition ata_device_detect ::
  "'d io_ports \<Rightarrow> nat \<Rightarrow> ata_driver \<times> 'd fat_vfs \<Rightarrow> (int \<times> ata_driver \<times> 'd fat_vfs) outcome" where
  "ata_device_detect P k st =
     (case st of (drv, s) \<Rightarrow>
        let dv = ata_devs drv k;
            d = ata_io_wait P dv (select_drive P dv (ata_soft_reset P dv (drive (fsdev s))));
            (cl, d) = rin P dv ATA_REG_LBA1 d; (ch, d) = rin P dv ATA_REG_LBA2 d;
            st = (drv, with_drive d s)
        in if cl = 0xFF \<and> ch = 0xFF then Returns (0, st)
           else if cl = 0 \<and> ch = 0 \<or> cl = 0x3C \<and> ch = 0xC3 then detect_disk P k st
           else if cl = 0x14 \<and> ch = 0xEB \<or> cl = 0x69 \<and> ch = 0x96 then detect_cdrom P k st
           else Returns (0, st))"

definition ata_init :: "'d io_ports \<Rightarrow> ata_driver \<times> 'd fat_vfs \<Rightarrow> (int \<times> ata_driver \<times> 'd fat_vfs) outcome" where
  "ata_init P st =
     omap (Pair 1) (foldo (\<lambda>k st. omap snd (ata_device_detect P k st)) [0, 1, 2, 3] st)"

end
