(* ===== verification/Ata_Drive.thy ===== *)
theory Ata_Drive
  imports Ata
begin

text \<open>
  Four drives behind two channels, as the ATA standard has them, and the proof that the driver
  reads and writes their sectors: with these drives it is a \<open>sector_device\<close>. A drive stays busy for
  a number of status reads of its choice (\<open>lag\<close>) after a command and between sectors.
\<close>

section \<open>The drives\<close>

text \<open>
  What the selected drive of a channel is doing: sending the rest of a sector and further sectors, or
  taking the words of a sector, with the number of sectors to come.
\<close>

datatype xfer = Idle | Sending "u16 list" "u16 list list" | Taking nat nat "u16 list"

record ide_chan =
  c_sel :: u8
  c_cnt :: u8
  c_lba0 :: u8
  c_lba1 :: u8
  c_lba2 :: u8
  c_busy :: nat
  c_mode :: xfer

record ide =
  chans :: "bool \<Rightarrow> ide_chan"
  media :: "nat \<Rightarrow> nat \<Rightarrow> u8 list"
  ident_data :: "nat \<Rightarrow> u8 list"
  lag :: "nat \<Rightarrow> nat"
  tick :: nat

definition port_of :: "u16 \<Rightarrow> (bool \<times> u16) option" where
  "port_of p = (if p AND 0xFFF8 = 0x1F0 then Some (False, p AND 7)
                else if p AND 0xFFF8 = 0x170 then Some (True, p AND 7) else None)"

definition drive_no :: "bool \<Rightarrow> ide_chan \<Rightarrow> nat" where
  "drive_no c ch = (if c then 2 else 0) + (if bit (c_sel ch) 4 then 1 else 0)"

definition lba_of :: "ide_chan \<Rightarrow> nat" where
  "lba_of ch = unat (c_lba0 ch) + 2 ^ 8 * unat (c_lba1 ch) + 2 ^ 16 * unat (c_lba2 ch) + 2 ^ 24 * unat (c_sel ch AND 0x0F)"

definition count_of :: "ide_chan \<Rightarrow> nat" where
  "count_of ch = (if c_cnt ch = 0 then 256 else unat (c_cnt ch))"

text \<open>Sectors to send, one after the other, and the state of a channel that goes on to the next.\<close>

fun sending :: "u16 list list \<Rightarrow> xfer" where
  "sending [] = Idle"
| "sending (ws # wss) = Sending ws wss"

definition put_chan :: "bool \<Rightarrow> ide_chan \<Rightarrow> ide \<Rightarrow> ide" where
  "put_chan c ch d = d\<lparr>chans := (chans d)(c := ch)\<rparr>"

text \<open>The channel goes over to a mode and is busy for a while.\<close>

definition turn :: "bool \<Rightarrow> xfer \<Rightarrow> ide \<Rightarrow> ide" where
  "turn c m d = (put_chan c ((chans d c)\<lparr>c_mode := m, c_busy := lag d (tick d)\<rparr>) d)\<lparr>tick := tick d + 1\<rparr>"

definition ide_command :: "bool \<Rightarrow> u8 \<Rightarrow> ide \<Rightarrow> ide" where
  "ide_command c cmd d =
     (let ch = chans d c; k = drive_no c ch in
      if cmd = 0x20 then
        turn c (sending (map (\<lambda>n. words16 (media d k n)) [lba_of ch..<lba_of ch + count_of ch])) d
      else if cmd = 0x30 then turn c (Taking (lba_of ch) (count_of ch) []) d
      else if cmd = 0xEC then turn c (sending [words16 (ident_data d k)]) d
      else turn c Idle d)"

definition set_reg :: "u16 \<Rightarrow> u8 \<Rightarrow> ide_chan \<Rightarrow> ide_chan" where
  "set_reg r b ch =
     (if r = 2 then ch\<lparr>c_cnt := b\<rparr> else if r = 3 then ch\<lparr>c_lba0 := b\<rparr> else if r = 4 then ch\<lparr>c_lba1 := b\<rparr>
      else if r = 5 then ch\<lparr>c_lba2 := b\<rparr> else if r = 6 then ch\<lparr>c_sel := b\<rparr> else ch)"

definition ide_outb :: "u16 \<Rightarrow> u8 \<Rightarrow> ide \<Rightarrow> ide" where
  "ide_outb p b d =
     (case port_of p of None \<Rightarrow> d
      | Some (c, r) \<Rightarrow> if r = 7 then ide_command c b d else put_chan c (set_reg r b (chans d c)) d)"

definition status_of :: "ide_chan \<Rightarrow> u8" where
  "status_of ch = (if c_busy ch \<noteq> 0 then 0x80 else if c_mode ch = Idle then 0x40 else 0x48)"

definition ide_inb :: "u16 \<Rightarrow> ide \<Rightarrow> u8 \<times> ide" where
  "ide_inb p d =
     (case port_of p of None \<Rightarrow> (0xFF, d)
      | Some (c, r) \<Rightarrow>
          let ch = chans d c in
          if r = 7 then (status_of ch, put_chan c (ch\<lparr>c_busy := c_busy ch - 1\<rparr>) d)
          else if r = 4 then (c_lba1 ch, d) else if r = 5 then (c_lba2 ch, d) else (0, d))"

definition ide_inw :: "u16 \<Rightarrow> ide \<Rightarrow> u16 \<times> ide" where
  "ide_inw p d =
     (case port_of p of None \<Rightarrow> (0xFFFF, d)
      | Some (c, r) \<Rightarrow>
          (case c_mode (chans d c) of
             Sending (w # ws) wss \<Rightarrow>
               if r \<noteq> 0 then (0, d)
               else (w, if ws = [] then turn c (sending wss) d
                        else put_chan c ((chans d c)\<lparr>c_mode := Sending ws wss\<rparr>) d)
           | _ \<Rightarrow> (0, d)))"

text \<open>The word that completes a sector puts it on the medium.\<close>

definition ide_outw :: "u16 \<Rightarrow> u16 \<Rightarrow> ide \<Rightarrow> ide" where
  "ide_outw p w d =
     (case port_of p of None \<Rightarrow> d
      | Some (c, r) \<Rightarrow>
          (case c_mode (chans d c) of
             Taking lba left ws \<Rightarrow>
               if r \<noteq> 0 then d
               else if length ws < 255 then put_chan c ((chans d c)\<lparr>c_mode := Taking lba left (ws @ [w])\<rparr>) d
               else
                 let k = drive_no c (chans d c)
                 in turn c (if left \<le> 1 then Idle else Taking (lba + 1) (left - 1) [])
                      (d\<lparr>media := (media d)(k := (media d k)(lba := concat (map (word_le 2) (ws @ [w]))))\<rparr>)
           | _ \<Rightarrow> d))"

definition ide_ports :: "ide io_ports" where
  "ide_ports = \<lparr>outb = ide_outb, inb = ide_inb, outw = ide_outw, inw = ide_inw, outd = (\<lambda>_ _ d. d), ind = (\<lambda>_ d. (0, d))\<rparr>"

section \<open>The driver's registers on its channel\<close>

text \<open>Device record \<open>dv\<close> is drive \<open>k\<close>.\<close>

definition drive_at :: "ata_device \<Rightarrow> nat \<Rightarrow> bool" where
  "drive_at dv k \<longleftrightarrow> k < 4 \<and> io_base dv = (if k < 2 then 0x1F0 else 0x170) \<and> slave dv = of_nat (k mod 2)"

definition chan_of :: "nat \<Rightarrow> bool" where
  "chan_of k \<longleftrightarrow> 2 \<le> k"

lemma ports_ide [simp]: "outb ide_ports = ide_outb" "inb ide_ports = ide_inb" "outw ide_ports = ide_outw" "inw ide_ports = ide_inw"
  by (simp_all add: ide_ports_def)

lemma port_of_reg:
  assumes "drive_at dv k"
  shows "port_of (io_base dv + ATA_REG_ALTSTATUS) = None" "port_of (io_base dv + ATA_REG_CONTROL) = None"
    "port_of (io_base dv + ATA_REG_DATA) = Some (chan_of k, 0)" "port_of (io_base dv + ATA_REG_ERROR) = Some (chan_of k, 1)"
    "port_of (io_base dv + ATA_REG_SECCOUNT0) = Some (chan_of k, 2)" "port_of (io_base dv + ATA_REG_LBA0) = Some (chan_of k, 3)"
    "port_of (io_base dv + ATA_REG_LBA1) = Some (chan_of k, 4)" "port_of (io_base dv + ATA_REG_LBA2) = Some (chan_of k, 5)"
    "port_of (io_base dv + ATA_REG_HDDEVSEL) = Some (chan_of k, 6)" "port_of (io_base dv + ATA_REG_COMMAND) = Some (chan_of k, 7)"
    "port_of (io_base dv + ATA_REG_STATUS) = Some (chan_of k, 7)"
proof -
  have b: "io_base dv = (if chan_of k then 0x170 else 0x1F0)" using assms by (auto simp: drive_at_def chan_of_def)
  show "port_of (io_base dv + ATA_REG_ALTSTATUS) = None" "port_of (io_base dv + ATA_REG_CONTROL) = None"
    "port_of (io_base dv + ATA_REG_DATA) = Some (chan_of k, 0)" "port_of (io_base dv + ATA_REG_ERROR) = Some (chan_of k, 1)"
    "port_of (io_base dv + ATA_REG_SECCOUNT0) = Some (chan_of k, 2)" "port_of (io_base dv + ATA_REG_LBA0) = Some (chan_of k, 3)"
    "port_of (io_base dv + ATA_REG_LBA1) = Some (chan_of k, 4)" "port_of (io_base dv + ATA_REG_LBA2) = Some (chan_of k, 5)"
    "port_of (io_base dv + ATA_REG_HDDEVSEL) = Some (chan_of k, 6)" "port_of (io_base dv + ATA_REG_COMMAND) = Some (chan_of k, 7)"
    "port_of (io_base dv + ATA_REG_STATUS) = Some (chan_of k, 7)"
    unfolding b by (cases "chan_of k"; simp add: port_of_def ata_regs)+
qed

lemma put_chan_simps [simp]:
  "chans (put_chan c ch d) = (chans d)(c := ch)" "put_chan c ch' (put_chan c ch d) = put_chan c ch' d"
  "media (put_chan c ch d) = media d" "lag (put_chan c ch d) = lag d" "tick (put_chan c ch d) = tick d"
  "ident_data (put_chan c ch d) = ident_data d" "put_chan c (chans d c) d = d"
  by (simp_all add: put_chan_def)

lemma io_wait_ide [simp]: "drive_at dv k \<Longrightarrow> ata_io_wait ide_ports dv d = d"
  by (simp add: ata_io_wait_def rin_def ide_inb_def port_of_reg)

lemma rin_status: "drive_at dv k \<Longrightarrow> rin ide_ports dv ATA_REG_STATUS d
    = (status_of (chans d (chan_of k)), put_chan (chan_of k) ((chans d (chan_of k))\<lparr>c_busy := c_busy (chans d (chan_of k)) - 1\<rparr>) d)"
  by (simp add: rin_def ide_inb_def port_of_reg Let_def)

lemma rin_alt: "drive_at dv k \<Longrightarrow> rin ide_ports dv ATA_REG_ALTSTATUS d = (0xFF, d)"
  by (simp add: rin_def ide_inb_def port_of_reg)

section \<open>Polling\<close>

text \<open>A channel that has run out its busy time.\<close>

definition calm :: "bool \<Rightarrow> ide \<Rightarrow> ide" where
  "calm c d = put_chan c ((chans d c)\<lparr>c_busy := 0\<rparr>) d"

lemma busy_loop:
  assumes "drive_at dv k"
  shows "loop_c (busy_step ide_ports dv) (rin ide_ports dv ATA_REG_STATUS d) = Returns (calm (chan_of k) d)"
proof (induction "c_busy (chans d (chan_of k))" arbitrary: d)
  case 0
  then show ?case unfolding rin_status [OF assms]
    by (subst loop_c_unfold) (simp add: status_of_def busy_step_def ATA_SR_BSY_def calm_def)
next
  case (Suc n)
  let ?d = "put_chan (chan_of k) ((chans d (chan_of k))\<lparr>c_busy := n\<rparr>) d"
  have b: "c_busy (chans d (chan_of k)) = Suc n" using Suc(2) by simp
  have "loop_c (busy_step ide_ports dv) (rin ide_ports dv ATA_REG_STATUS d)
      = loop_c (busy_step ide_ports dv) (rin ide_ports dv ATA_REG_STATUS ?d)"
    unfolding rin_status [OF assms, of d] b
    by (subst loop_c_unfold) (simp add: status_of_def b busy_step_def ATA_SR_BSY_def rin_alt [OF assms])
  also have "\<dots> = Returns (calm (chan_of k) ?d)" by (rule Suc(1)) simp
  finally show ?case by (simp add: calm_def)
qed

lemma poll_ide:
  assumes "drive_at dv k" "adv \<longrightarrow> c_mode (chans d (chan_of k)) \<noteq> Idle"
  shows "ata_poll ide_ports dv adv d = Returns (calm (chan_of k) d)"
proof -
  have "loop_c (drq_step ide_ports dv) (calm (chan_of k) d) = Returns (calm (chan_of k) d)" if adv
    using assms that
    by (subst loop_c_unfold) (simp add: drq_step_def rin_alt [OF assms(1)] rin_status [OF assms(1)] calm_def status_of_def ata_status)
  then show ?thesis by (simp add: ata_poll_def io_wait_ide [OF assms(1)] busy_loop [OF assms(1)])
qed

section \<open>Bytes and words of a sector\<close>

lemma words16_bytes: "even (length bs) \<Longrightarrow> concat (map (word_le 2) (words16 bs)) = bs"
proof (induction bs rule: induct_list012)
  case (3 a b bs)
  have w: "words16 (a # b # bs) = le_word [a, b] # words16 bs"
    by (simp add: words16_def upt_conv_Cons o_def flip: map_Suc_upt del: upt_Suc)
  have two: "length [a, b] = 2" by simp
  have "word_le (length [a, b]) (le_word [a, b] :: u16) = [a, b]" by (rule word_le_le_word) simp
  then have "word_le 2 (le_word [a, b] :: u16) = [a, b]" unfolding two .
  with 3 show ?case by (simp add: w)
qed (simp_all add: words16_def)

lemma length_words16 [simp]: "length (words16 bs) = length bs div 2"
  by (simp add: words16_def)

section \<open>Reading\<close>

text \<open>Only the channel \<open>c\<close> and the clock differ.\<close>

definition chan_only :: "bool \<Rightarrow> ide \<Rightarrow> ide \<Rightarrow> bool" where
  "chan_only c d d' \<longleftrightarrow> media d' = media d \<and> (\<forall>c'. c' \<noteq> c \<longrightarrow> chans d' c' = chans d c')"

lemma chan_only_simps [simp]: "chan_only c d d" "chan_only c d (put_chan c ch d)" "chan_only c d (calm c d)"
    "chan_only c d (turn c m d)"
  by (simp_all add: chan_only_def calm_def turn_def)

lemma chan_only_trans: "chan_only c d d' \<Longrightarrow> chan_only c d' d'' \<Longrightarrow> chan_only c d d''"
  by (simp add: chan_only_def)

lemma mode_simps [simp]: "c_mode (chans (calm c d) c) = c_mode (chans d c)" "c_mode (chans (turn c m d) c) = m"
    "c_sel (chans (calm c d) c) = c_sel (chans d c)" "c_sel (chans (turn c m d) c) = c_sel (chans d c)"
    "media (calm c d) = media d" "media (turn c m d) = media d"
  by (simp_all add: calm_def turn_def)

lemma insw_ide:
  assumes "drive_at dv k"
  shows "ws \<noteq> [] \<Longrightarrow> c_mode (chans d (chan_of k)) = Sending ws wss \<Longrightarrow>
    \<exists>d'. port_insw ide_ports (io_base dv + ATA_REG_DATA) (length ws) d = (concat (map (word_le 2) ws), d')
       \<and> c_mode (chans d' (chan_of k)) = sending wss \<and> chan_only (chan_of k) d d'"
proof (induction ws arbitrary: d)
  case (Cons w ws)
  show ?case
  proof (cases "ws = []")
    case True
    with Cons.prems show ?thesis by (simp add: ide_inw_def port_of_reg [OF assms] case_prod_beta)
  next
    case False
    let ?d = "put_chan (chan_of k) ((chans d (chan_of k))\<lparr>c_mode := Sending ws wss\<rparr>) d"
    have "c_mode (chans ?d (chan_of k)) = Sending ws wss" by simp
    from Cons.IH [OF False this] obtain d' where
      "port_insw ide_ports (io_base dv + ATA_REG_DATA) (length ws) ?d = (concat (map (word_le 2) ws), d')"
      "c_mode (chans d' (chan_of k)) = sending wss" "chan_only (chan_of k) ?d d'" by blast
    moreover have "chan_only (chan_of k) d d'" by (rule chan_only_trans [OF _ calculation(3)]) simp
    ultimately show ?thesis using Cons.prems False by (simp add: ide_inw_def port_of_reg [OF assms] case_prod_beta)
  qed
qed simp

lemma read_sector_ide:
  assumes "drive_at dv k" "length ws = 256" "c_mode (chans d (chan_of k)) = Sending ws wss"
  shows "\<exists>d'. read_sector ide_ports dv (target, d) = Returns (target @ concat (map (word_le 2) ws), d')
    \<and> c_mode (chans d' (chan_of k)) = sending wss \<and> chan_only (chan_of k) d d'"
proof -
  have ne: "ws \<noteq> []" using assms(2) by auto
  have "c_mode (chans (calm (chan_of k) d) (chan_of k)) = Sending ws wss" using assms(3) by simp
  from insw_ide [OF assms(1) ne this] obtain d' where
    d': "port_insw ide_ports (io_base dv + ATA_REG_DATA) 256 (calm (chan_of k) d) = (concat (map (word_le 2) ws), d')"
      "c_mode (chans d' (chan_of k)) = sending wss" "chan_only (chan_of k) (calm (chan_of k) d) d'"
    unfolding assms(2) by blast
  have "chan_only (chan_of k) d d'" by (rule chan_only_trans [OF _ d'(3)]) simp
  with d' show ?thesis using poll_ide [of dv k True d] assms
    by (simp add: read_sector_def io_wait_ide [OF assms(1)])
qed

lemma read_sectors_ide:
  assumes "drive_at dv k"
  shows "\<forall>ws \<in> set wss. length ws = 256 \<Longrightarrow> length is = length wss \<Longrightarrow> c_mode (chans d (chan_of k)) = sending wss \<Longrightarrow>
    \<exists>d'. foldo (\<lambda>_. read_sector ide_ports dv) is (target, d)
        = Returns (target @ concat (map (\<lambda>ws. concat (map (word_le 2) ws)) wss), d')
      \<and> c_mode (chans d' (chan_of k)) = Idle \<and> chan_only (chan_of k) d d'"
proof (induction wss arbitrary: "is" target d)
  case (Cons ws wss)
  then obtain i js where is_eq: "is = i # js" "length js = length wss" by (cases "is") auto
  from Cons.prems read_sector_ide [OF assms, of ws d wss target] obtain d1 where
    d1: "read_sector ide_ports dv (target, d) = Returns (target @ concat (map (word_le 2) ws), d1)"
      "c_mode (chans d1 (chan_of k)) = sending wss" "chan_only (chan_of k) d d1" by auto
  from Cons.IH [OF _ is_eq(2) d1(2), of "target @ concat (map (word_le 2) ws)"] Cons.prems(1) obtain d2 where
    "foldo (\<lambda>_. read_sector ide_ports dv) js (target @ concat (map (word_le 2) ws), d1)
        = Returns ((target @ concat (map (word_le 2) ws)) @ concat (map (\<lambda>ws. concat (map (word_le 2) ws)) wss), d2)"
    "c_mode (chans d2 (chan_of k)) = Idle" "chan_only (chan_of k) d1 d2" by auto
  with d1 is_eq chan_only_trans show ?case by fastforce
qed auto

section \<open>Starting a command\<close>

lemma byte_field:
  assumes "drop_bit n m = (mask b :: u32)" "b \<le> 8"
  shows "unat (ucast (drop_bit n (w AND m)) :: u8) = unat w div 2 ^ n mod 2 ^ b"
proof -
  have "drop_bit n (w AND m) = take_bit b (drop_bit n w)" using assms(1) by (simp add: drop_bit_and take_bit_eq_mask)
  then have "unat (ucast (drop_bit n (w AND m)) :: u8) = take_bit 8 (take_bit b (drop_bit n (unat w)))"
    by (simp only: unsigned_ucast_eq unsigned_take_bit_eq unsigned_drop_bit_eq)
      (simp add: take_bit_nat_eq_self [of "unat w" 32] unat_u32 [simplified] min.commute)
  also have "\<dots> = take_bit b (drop_bit n (unat w))" using assms(2) by (simp add: min_def)
  finally show ?thesis by (simp only: drop_bit_eq_div take_bit_eq_mod)
qed

lemma sel_byte_bits:
  assumes "drive_at dv k"
  shows "bit (sel_byte dv lba) 4 \<longleftrightarrow> odd k" "unat (sel_byte dv lba AND 0x0F) = unat lba div 2 ^ 24 mod 2 ^ 4"
proof -
  define x :: u8 where "x = ucast (drop_bit 24 (lba AND 0x0F000000))"
  have ux: "unat x = unat lba div 2 ^ 24 mod 2 ^ 4" unfolding x_def by (rule byte_field) (simp_all add: mask_eq_exp_minus_1)
  then have "unat x < 2 ^ 4" by simp
  then have tx: "take_bit 4 x = x" by (simp add: word_unat_eq_iff unsigned_take_bit_eq take_bit_nat_eq_self)
  have sl: "slave dv = (if odd k then 1 else 0)" using assms by (auto simp: drive_at_def mod_2_eq_odd)
  have sel: "sel_byte dv lba = (if odd k then 0xF0 else 0xE0) OR x"
    unfolding sel_byte_def sl x_def [symmetric] by (simp flip: or.assoc)
  have "\<not> bit x 4" by (subst tx [symmetric]) (simp add: bit_take_bit_iff)
  then show "bit (sel_byte dv lba) 4 \<longleftrightarrow> odd k" by (simp add: sel bit_or_iff)
  have "x AND 0x0F = x" using tx by (simp add: take_bit_eq_mask mask_eq_exp_minus_1)
  then have "sel_byte dv lba AND 0x0F = x" by (simp add: sel bit.conj_disj_distrib2)
  with ux show "unat (sel_byte dv lba AND 0x0F) = unat lba div 2 ^ 24 mod 2 ^ 4" by simp
qed

text \<open>The registers after \<open>start_pio\<close> name the drive, the first sector and the number of sectors.\<close>

definition armed :: "ata_device \<Rightarrow> u32 \<Rightarrow> u8 \<Rightarrow> ide_chan \<Rightarrow> ide_chan" where
  "armed dv lba n ch = ch\<lparr>c_sel := sel_byte dv lba, c_cnt := n, c_lba0 := ucast (lba AND 0xFF),
     c_lba1 := ucast (drop_bit 8 (lba AND 0xFF00)), c_lba2 := ucast (drop_bit 16 (lba AND 0xFF0000))\<rparr>"

lemma armed_reads:
  assumes "drive_at dv k" "run_ok lba n"
  shows "drive_no (chan_of k) (armed dv lba n ch) = k" "lba_of (armed dv lba n ch) = unat lba"
    "count_of (armed dv lba n ch) = unat n"
proof -
  have "k < 4" using assms(1) by (simp add: drive_at_def)
  then have "k = 0 \<or> k = 1 \<or> k = 2 \<or> k = 3" by auto
  then show "drive_no (chan_of k) (armed dv lba n ch) = k"
    using sel_byte_bits(1) [OF assms(1)] by (auto simp: drive_no_def armed_def chan_of_def)
  have mk: "drop_bit 0 (0xFF :: u32) = mask 8" "drop_bit 8 (0xFF00 :: u32) = mask 8" "drop_bit 16 (0xFF0000 :: u32) = mask 8"
    by (simp_all add: mask_eq_exp_minus_1)
  have "unat lba < 2 ^ 28" using assms(2) by (auto simp: run_ok_def word_less_nat_alt)
  then have "unat lba div 2 ^ 24 mod 2 ^ 4 = unat lba div 2 ^ 24" by simp
  moreover have "unat lba mod 2 ^ 8 + 2 ^ 8 * (unat lba div 2 ^ 8 mod 2 ^ 8) + 2 ^ 16 * (unat lba div 2 ^ 16 mod 2 ^ 8)
      + 2 ^ 24 * (unat lba div 2 ^ 24) = unat lba" for lba :: u32
  proof -
    define a where "a = unat lba"
    have "a mod 2 ^ 24 = a mod 2 ^ 16 + 2 ^ 16 * (a div 2 ^ 16 mod 2 ^ 8)"
      using mod_mult2_eq [of a "2 ^ 16" "2 ^ 8"] by simp
    moreover have "a mod 2 ^ 16 = a mod 2 ^ 8 + 2 ^ 8 * (a div 2 ^ 8 mod 2 ^ 8)"
      using mod_mult2_eq [of a "2 ^ 8" "2 ^ 8"] by simp
    ultimately show ?thesis using mod_mult_div_eq [of a "2 ^ 24"] unfolding a_def by linarith
  qed
  ultimately show "lba_of (armed dv lba n ch) = unat lba"
    using byte_field [OF mk(1), of lba] byte_field [OF mk(2), of lba] byte_field [OF mk(3), of lba]
      sel_byte_bits(2) [OF assms(1), of lba] by (simp add: lba_of_def armed_def)
  show "count_of (armed dv lba n ch) = unat n" using assms(2) by (auto simp: count_of_def armed_def run_ok_def)
qed

lemma start_pio_ide:
  assumes "drive_at dv k"
  shows "start_pio ide_ports dv lba n cmd d
    = ide_command (chan_of k) cmd (put_chan (chan_of k) (armed dv lba n (chans d (chan_of k))) d)"
  by (simp add: start_pio_def rout_def ide_outb_def port_of_reg [OF assms] io_wait_ide [OF assms] set_reg_def armed_def Let_def)

lemma read28_ide:
  assumes "drive_at dv k" "run_ok lba n" "\<And>j. length (media d k j) = ATA_SECTOR_SIZE"
  shows "\<exists>d'. ata_pio_read28 ide_ports dv lba n d = Returns (concat (map (media d k) [unat lba..<unat lba + unat n]), d')
    \<and> media d' = media d"
proof -
  let ?c = "chan_of k" and ?ns = "[unat lba..<unat lba + unat n]"
  let ?d = "put_chan ?c (armed dv lba n (chans d ?c)) d"
  define d1 where "d1 = start_pio ide_ports dv lba n ATA_CMD_READ_PIO d"
  have d1: "d1 = turn ?c (sending (map (\<lambda>j. words16 (media d k j)) ?ns)) ?d"
    by (simp add: d1_def start_pio_ide [OF assms(1)] ide_command_def ATA_CMD_READ_PIO_def armed_reads [OF assms(1,2)] Let_def)
  have "chan_only ?c d d1" unfolding d1 by (rule chan_only_trans [of _ _ ?d]) simp_all
  have "\<exists>d2. foldo (\<lambda>_. read_sector ide_ports dv) [0..<unat n] ([], d1)
      = Returns ([] @ concat (map (\<lambda>ws. concat (map (word_le 2) ws)) (map (\<lambda>j. words16 (media d k j)) ?ns)), d2)
      \<and> c_mode (chans d2 ?c) = Idle \<and> chan_only ?c d1 d2"
    by (rule read_sectors_ide [OF assms(1)]) (simp_all add: assms(3) ATA_SECTOR_SIZE_def d1)
  then obtain d2 where d2: "foldo (\<lambda>_. read_sector ide_ports dv) [0..<unat n] ([], d1)
      = Returns (concat (map (media d k) ?ns), d2)" "chan_only ?c d1 d2"
    by (auto simp: o_def words16_bytes assms(3) ATA_SECTOR_SIZE_def)
  have "ata_pio_read28 ide_ports dv lba n d = Returns (concat (map (media d k) ?ns), calm ?c d2)"
    by (simp add: ata_pio_read28_def d2(1) poll_ide [OF assms(1)] flip: d1_def)
  moreover have "media (calm ?c d2) = media d" using d2(2) \<open>chan_only ?c d d1\<close> by (simp add: chan_only_def)
  ultimately show ?thesis by blast
qed

section \<open>Writing\<close>

lemma outs_ide:
  assumes "drive_at dv k"
  shows "ws \<noteq> [] \<Longrightarrow> length (ws0 @ ws) = 256 \<Longrightarrow> c_mode (chans d (chan_of k)) = Taking lba left ws0 \<Longrightarrow>
     drive_no (chan_of k) (chans d (chan_of k)) = k \<Longrightarrow>
    \<exists>d'. port_outs ide_ports (io_base dv + ATA_REG_DATA) ws d = d'
       \<and> c_mode (chans d' (chan_of k)) = (if left \<le> 1 then Idle else Taking (lba + 1) (left - 1) [])
       \<and> drive_no (chan_of k) (chans d' (chan_of k)) = k
       \<and> media d' = (media d)(k := (media d k)(lba := concat (map (word_le 2) (ws0 @ ws))))"
proof (induction ws arbitrary: d ws0)
  case (Cons w ws)
  show ?case
  proof (cases "ws = []")
    case True
    with Cons.prems show ?thesis
      by (simp add: ide_outw_def port_of_reg [OF assms] drive_no_def Let_def turn_def fun_upd_def)
  next
    case False
    then have l: "length ws0 < 255" using Cons.prems(2) by (cases ws) auto
    let ?d = "put_chan (chan_of k) ((chans d (chan_of k))\<lparr>c_mode := Taking lba left (ws0 @ [w])\<rparr>) d"
    have "length ((ws0 @ [w]) @ ws) = 256" "c_mode (chans ?d (chan_of k)) = Taking lba left (ws0 @ [w])"
      "drive_no (chan_of k) (chans ?d (chan_of k)) = k"
      using Cons.prems by (simp_all add: drive_no_def)
    from Cons.IH [OF False this] Cons.prems(3) l show ?thesis
      by (simp add: ide_outw_def port_of_reg [OF assms])
  qed
qed simp

lemma write_sector_ide:
  assumes "drive_at dv k" "length src = ATA_SECTOR_SIZE" "c_mode (chans d (chan_of k)) = Taking lba left []"
    "drive_no (chan_of k) (chans d (chan_of k)) = k"
  shows "\<exists>d'. write_sector ide_ports dv src d = Returns d'
     \<and> c_mode (chans d' (chan_of k)) = (if left \<le> 1 then Idle else Taking (lba + 1) (left - 1) [])
     \<and> drive_no (chan_of k) (chans d' (chan_of k)) = k \<and> media d' = (media d)(k := (media d k)(lba := src))"
proof -
  have "length ([] @ words16 src) = 256" using assms(2) by (simp add: ATA_SECTOR_SIZE_def)
  moreover have "words16 src \<noteq> []" using assms(2) by (simp add: words16_def ATA_SECTOR_SIZE_def)
  moreover have "drive_no (chan_of k) (chans (calm (chan_of k) d) (chan_of k)) = k"
    using assms(4) by (simp add: drive_no_def)
  ultimately show ?thesis
    using outs_ide [OF assms(1), of "words16 src" "[]" "calm (chan_of k) d" lba left] assms(2,3) poll_ide [OF assms(1), of True d]
    by (simp add: write_sector_def io_wait_ide [OF assms(1)] words16_bytes ATA_SECTOR_SIZE_def)
qed

lemma write_sectors_ide:
  assumes dv: "drive_at dv k" and src: "length src = n * ATA_SECTOR_SIZE"
  defines "f \<equiv> \<lambda>i d. if ATA_SECTOR_SIZE * i + ATA_SECTOR_SIZE \<le> length src
      then write_sector ide_ports dv (take ATA_SECTOR_SIZE (drop (ATA_SECTOR_SIZE * i) src)) d else Faults OutOfBounds"
  shows "j \<le> n \<Longrightarrow> j < n \<longrightarrow> c_mode (chans d (chan_of k)) = Taking (lba + j) (n - j) [] \<Longrightarrow>
     drive_no (chan_of k) (chans d (chan_of k)) = k \<Longrightarrow>
    \<exists>d'. foldo f [j..<n] d = Returns d'
      \<and> (\<forall>i. j \<le> i \<and> i < n \<longrightarrow> media d' k (lba + i) = take ATA_SECTOR_SIZE (drop (ATA_SECTOR_SIZE * i) src))
      \<and> (\<forall>k' b. k' \<noteq> k \<or> b \<notin> {lba + j..<lba + n} \<longrightarrow> media d' k' b = media d k' b)"
proof (induction "n - j" arbitrary: j d)
  case (Suc m)
  let ?s = "take ATA_SECTOR_SIZE (drop (ATA_SECTOR_SIZE * j) src)"
  have j: "j < n" using Suc(2) by simp
  have "ATA_SECTOR_SIZE * j + ATA_SECTOR_SIZE = (j + 1) * ATA_SECTOR_SIZE" by (simp add: algebra_simps)
  also have "\<dots> \<le> n * ATA_SECTOR_SIZE" using j by (intro mult_le_mono1) simp
  finally have fit: "ATA_SECTOR_SIZE * j + ATA_SECTOR_SIZE \<le> length src" using src by simp
  then have "length ?s = ATA_SECTOR_SIZE" by simp
  from write_sector_ide [OF dv this, of d "lba + j" "n - j"] Suc(4,5) j obtain d1 where
    d1: "f j d = Returns d1" "c_mode (chans d1 (chan_of k)) = (if n - j \<le> 1 then Idle else Taking (lba + j + 1) (n - j - 1) [])"
      "drive_no (chan_of k) (chans d1 (chan_of k)) = k" "media d1 = (media d)(k := (media d k)(lba + j := ?s))"
    using fit by (auto simp: f_def)
  have "m = n - Suc j" "Suc j \<le> n" "Suc j < n \<longrightarrow> c_mode (chans d1 (chan_of k)) = Taking (lba + Suc j) (n - Suc j) []"
    using Suc(2) j d1(2) by auto
  from Suc(1) [OF this d1(3)] obtain d' where
    d': "foldo f [Suc j..<n] d1 = Returns d'"
      "\<And>i. Suc j \<le> i \<and> i < n \<Longrightarrow> media d' k (lba + i) = take ATA_SECTOR_SIZE (drop (ATA_SECTOR_SIZE * i) src)"
      "\<And>k' b. k' \<noteq> k \<or> b \<notin> {lba + Suc j..<lba + n} \<Longrightarrow> media d' k' b = media d1 k' b" by blast
  have "foldo f [j..<n] d = Returns d'" using d1(1) d'(1) j by (simp add: upt_conv_Cons)
  moreover have "media d' k (lba + i) = take ATA_SECTOR_SIZE (drop (ATA_SECTOR_SIZE * i) src)" if "j \<le> i" "i < n" for i
    using d'(2) [of i] d'(3) [of k "lba + i"] d1(4) that by (cases "i = j") auto
  moreover have "media d' k' b = media d k' b" if "k' \<noteq> k \<or> b \<notin> {lba + j..<lba + n}" for k' b
    using d'(3) [of k' b] d1(4) that j by auto
  ultimately show ?case by blast
qed auto

lemma write28_ide:
  assumes "drive_at dv k" "run_ok lba n" "length src = unat n * ATA_SECTOR_SIZE"
  shows "\<exists>d'. ata_pio_write28 ide_ports dv lba n src d = Returns d'
     \<and> (\<forall>i < unat n. media d' k (unat lba + i) = take ATA_SECTOR_SIZE (drop (ATA_SECTOR_SIZE * i) src))
     \<and> (\<forall>k' b. k' \<noteq> k \<or> b \<notin> {unat lba..<unat lba + unat n} \<longrightarrow> media d' k' b = media d k' b)"
proof -
  let ?c = "chan_of k"
  let ?d = "put_chan ?c (armed dv lba n (chans d ?c)) d"
  define d1 where "d1 = start_pio ide_ports dv lba n ATA_CMD_WRITE_PIO d"
  have d1: "d1 = turn ?c (Taking (unat lba) (unat n) []) ?d"
    by (simp add: d1_def start_pio_ide [OF assms(1)] ide_command_def ATA_CMD_WRITE_PIO_def armed_reads [OF assms(1,2)] Let_def)
  have "drive_no ?c (chans d1 ?c) = k"
    using armed_reads(1) [OF assms(1,2), of "chans d ?c"] by (simp add: d1 drive_no_def)
  moreover have "0 < unat n \<longrightarrow> c_mode (chans d1 ?c) = Taking (unat lba + 0) (unat n - 0) []" by (simp add: d1)
  ultimately obtain d2 where
    d2: "foldo (\<lambda>i d. if ATA_SECTOR_SIZE * i + ATA_SECTOR_SIZE \<le> length src
      then write_sector ide_ports dv (take ATA_SECTOR_SIZE (drop (ATA_SECTOR_SIZE * i) src)) d else Faults OutOfBounds)
        [0..<unat n] d1 = Returns d2"
      "\<And>i. i < unat n \<Longrightarrow> media d2 k (unat lba + i) = take ATA_SECTOR_SIZE (drop (ATA_SECTOR_SIZE * i) src)"
      "\<And>k' b. k' \<noteq> k \<or> b \<notin> {unat lba..<unat lba + unat n} \<Longrightarrow> media d2 k' b = media d1 k' b"
    using write_sectors_ide [OF assms(1,3), of 0 d1 "unat lba"] by auto
  define d3 where "d3 = calm ?c (rout ide_ports dv ATA_REG_COMMAND ATA_CMD_CACHE_FLUSH (calm ?c d2))"
  have "ata_pio_write28 ide_ports dv lba n src d = Returns d3"
    by (simp add: ata_pio_write28_def io_wait_ide [OF assms(1)] d2(1) poll_ide [OF assms(1)] d3_def flip: d1_def)
  moreover have "media d3 = media d2"
    by (simp add: d3_def rout_def ide_outb_def port_of_reg [OF assms(1)] ide_command_def ATA_CMD_CACHE_FLUSH_def Let_def)
  moreover have "media d1 = media d" by (simp add: d1)
  ultimately show ?thesis using d2(2,3) by auto
qed

section \<open>The contract\<close>

definition drives_ok :: "(nat \<Rightarrow> ata_device) \<Rightarrow> bool" where
  "drives_ok devs \<longleftrightarrow> (\<forall>k < 4. drive_at (devs k) k)"

definition ide_ok :: "ide \<Rightarrow> bool" where
  "ide_ok d \<longleftrightarrow> (\<forall>k j. length (media d k j) = ATA_SECTOR_SIZE)"

lemma ata_sector_device:
  assumes "drives_ok devs"
  shows "sector_device (ata_disk ide_ports devs) ide_ok (\<lambda>k. k < 4) media"
proof
  fix h :: ide and dev :: nat and lba :: u32 and n :: u8
  assume h: "ide_ok h" "dev < 4" "run_ok lba n"
  have dv: "drive_at (devs dev) dev" using assms h(2) by (simp add: drives_ok_def)
  show "\<exists>h'. read28 (ata_disk ide_ports devs) dev lba n h = Returns (concat (map (media h dev) [unat lba..<unat lba + unat n]), h')
      \<and> ide_ok h' \<and> (\<forall>d k. media h' d k = media h d k)"
    using read28_ide [OF dv h(3), of h] h(1) by (auto simp: ata_disk_def ide_ok_def)
  fix src :: "u8 list"
  assume l: "length src = unat n * ATA_SECTOR_SIZE"
  from write28_ide [OF dv h(3) l, of h] obtain h' where
    h': "ata_pio_write28 ide_ports (devs dev) lba n src h = Returns h'"
      "\<forall>i < unat n. media h' dev (unat lba + i) = take ATA_SECTOR_SIZE (drop (ATA_SECTOR_SIZE * i) src)"
      "\<forall>k' b. k' \<noteq> dev \<or> b \<notin> {unat lba..<unat lba + unat n} \<longrightarrow> media h' k' b = media h k' b" by blast
  have "length (media h' k j) = ATA_SECTOR_SIZE" for k j
  proof (cases "k \<noteq> dev \<or> j \<notin> {unat lba..<unat lba + unat n}")
    case True
    with h'(3) h(1) show ?thesis by (auto simp: ide_ok_def)
  next
    case False
    define i where "i = j - unat lba"
    have i: "j = unat lba + i" "i < unat n" "k = dev" using False by (auto simp: i_def)
    have "(i + 1) * ATA_SECTOR_SIZE \<le> unat n * ATA_SECTOR_SIZE" using i(2) by (intro mult_le_mono1) simp
    then have "ATA_SECTOR_SIZE * i + ATA_SECTOR_SIZE \<le> length src" using l by (simp add: algebra_simps)
    then show ?thesis using h'(2) i by simp
  qed
  then show "\<exists>h'. write28 (ata_disk ide_ports devs) dev lba n src h = Returns h' \<and> ide_ok h'
      \<and> (\<forall>k < unat n. media h' dev (unat lba + k) = take ATA_SECTOR_SIZE (drop (ATA_SECTOR_SIZE * k) src))
      \<and> (\<forall>d k. d \<noteq> dev \<or> k \<notin> {unat lba..<unat lba + unat n} \<longrightarrow> media h' d k = media h d k)"
    using h' by (auto simp: ata_disk_def ide_ok_def)
qed (simp add: ide_ok_def)

section \<open>Polling any device\<close>

text \<open>The status and the device after \<open>n\<close> rounds of the busy loop, for an arbitrary device.\<close>

fun polled :: "'d io_ports \<Rightarrow> ata_device \<Rightarrow> 'd \<Rightarrow> nat \<Rightarrow> u8 \<times> 'd" where
  "polled P dv d 0 = rin P dv ATA_REG_STATUS (ata_io_wait P dv d)"
| "polled P dv d (Suc n) = rin P dv ATA_REG_STATUS (snd (rin P dv ATA_REG_ALTSTATUS (snd (polled P dv d n))))"

text \<open>
  the plain wait for a drive ends exactly when some read of the status finds the busy bit clear,
  and then with the device as the first such read leaves it; a drive that stays busy is waited for
  for ever, as the loop has no bound.
\<close>

theorem ata_poll_terminates:
  "ata_poll P dv False d =
     (if \<exists>n. fst (polled P dv d n) AND ATA_SR_BSY = 0
      then Returns (snd (polled P dv d (LEAST n. fst (polled P dv d n) AND ATA_SR_BSY = 0)))
      else Diverges)"
proof -
  let ?f = "polled P dv d" and ?free = "\<lambda>n. fst (polled P dv d n) AND ATA_SR_BSY = 0"
  have go: "busy_step P dv (?f n) = Returns (if ?free n then Inr (snd (?f n)) else Inl (?f (Suc n)))" for n
    by (cases "?f n") (simp add: busy_step_def)
  have poll: "ata_poll P dv False d = loop_c (busy_step P dv) (?f 0)" by (simp add: ata_poll_def)
  show ?thesis
  proof (cases "\<exists>n. ?free n")
    case True
    define m where "m = (LEAST n. ?free n)"
    have "loop_c (busy_step P dv) (?f 0) = Returns (snd (?f m))"
    proof (rule loop_c_steps)
      fix k assume "k < m"
      then have "\<not> ?free k" unfolding m_def by (rule not_less_Least)
      with go show "busy_step P dv (?f k) = Returns (Inl (?f (Suc k)))" by simp
    next
      have "?free m" unfolding m_def using True by (rule LeastI_ex)
      with go show "busy_step P dv (?f m) = Returns (Inr (snd (?f m)))" by simp
    qed
    with True poll show ?thesis by (simp add: m_def)
  next
    case False
    have "loop_c (busy_step P dv) (?f 0) = Diverges"
    proof (rule loop_c_diverges [where I = "\<lambda>s. \<exists>n. s = ?f n"])
      fix s assume "\<exists>n. s = ?f n"
      then obtain n where s: "s = ?f n" ..
      have "\<not> ?free n" using False by blast
      then have "busy_step P dv s = Returns (Inl (?f (Suc n)))" unfolding s go by (simp only: if_False)
      then show "\<exists>s'. busy_step P dv s = Returns (Inl s') \<and> (\<exists>n. s' = ?f n)" by blast
    qed blast
    with False poll show ?thesis by simp
  qed
qed

section \<open>Identification of a drive\<close>

lemma wait_ide:
  assumes "drive_at dv k" "good 0x48" "\<not> good 0x80"
  shows "c_mode (chans d (chan_of k)) \<noteq> Idle \<Longrightarrow>
    (if c_busy (chans d (chan_of k)) < n then wait_status ide_ports dv good n d = (True, calm (chan_of k) d)
     else \<exists>d'. wait_status ide_ports dv good n d = (False, d'))"
proof (induction n arbitrary: d)
  case (Suc n)
  let ?ch = "chans d (chan_of k)"
  show ?case
  proof (cases "c_busy ?ch")
    case 0
    with Suc.prems assms(2) show ?thesis
      by (simp add: rin_status [OF assms(1)] status_of_def ATA_SR_ERR_def calm_def)
  next
    case (Suc b)
    let ?d = "put_chan (chan_of k) (?ch\<lparr>c_busy := b\<rparr>) d"
    have "wait_status ide_ports dv good (Suc n) d = wait_status ide_ports dv good n ?d"
      using assms(3) Suc by (simp add: rin_status [OF assms(1)] status_of_def ATA_SR_ERR_def)
    moreover have "calm (chan_of k) ?d = calm (chan_of k) d" by (simp add: calm_def)
    ultimately show ?thesis using Suc.IH [of ?d] Suc.prems Suc by simp
  qed
qed auto

lemma rout_ide:
  assumes "drive_at dv k"
  shows "rout ide_ports dv ATA_REG_SECCOUNT0 b d = put_chan (chan_of k) ((chans d (chan_of k))\<lparr>c_cnt := b\<rparr>) d"
    "rout ide_ports dv ATA_REG_LBA0 b d = put_chan (chan_of k) ((chans d (chan_of k))\<lparr>c_lba0 := b\<rparr>) d"
    "rout ide_ports dv ATA_REG_LBA1 b d = put_chan (chan_of k) ((chans d (chan_of k))\<lparr>c_lba1 := b\<rparr>) d"
    "rout ide_ports dv ATA_REG_LBA2 b d = put_chan (chan_of k) ((chans d (chan_of k))\<lparr>c_lba2 := b\<rparr>) d"
    "rout ide_ports dv ATA_REG_HDDEVSEL b d = put_chan (chan_of k) ((chans d (chan_of k))\<lparr>c_sel := b\<rparr>) d"
    "rout ide_ports dv ATA_REG_COMMAND b d = ide_command (chan_of k) b d"
    "rout ide_ports dv ATA_REG_ALTSTATUS b d = d" "rout ide_ports dv ATA_REG_CONTROL b d = d"
  by (simp_all add: rout_def ide_outb_def port_of_reg [OF assms] set_reg_def)

lemma identify_start_ide:
  assumes "drive_at dv k"
  shows "\<exists>d'. identify_start ide_ports dv d = (if lag d (tick d) = 0 then 0x48 else 0x80, d')
     \<and> c_mode (chans d' (chan_of k)) = sending [words16 (ident_data d k)]
     \<and> c_busy (chans d' (chan_of k)) = lag d (tick d) - 1
     \<and> c_lba1 (chans d' (chan_of k)) = 0 \<and> c_lba2 (chans d' (chan_of k)) = 0 \<and> media d' = media d"
proof -
  have "k < 4" using assms by (simp add: drive_at_def)
  then have k: "(if chan_of k then 2 else 0) + (if odd k then 1 else 0) = k"
  proof -
    from \<open>k < 4\<close> have "k = 0 \<or> k = 1 \<or> k = 2 \<or> k = 3" by auto
    then show ?thesis by (auto simp: chan_of_def)
  qed
  have sl: "slave dv = (if odd k then 1 else 0)" using assms by (auto simp: drive_at_def mod_2_eq_odd)
  have sel: "bit (0xA0 OR push_bit 4 (slave dv)) 4 \<longleftrightarrow> odd k" by (simp add: sl)
  show ?thesis
    by (simp add: identify_start_def skip_status_def select_drive_def zero_regs_def io_wait_ide [OF assms] rout_ide [OF assms]
        rin_status [OF assms] ide_command_def ATA_CMD_IDENTIFY_def drive_no_def sel k turn_def status_of_def Let_def)
qed

text \<open>
  identifying a drive succeeds exactly when the drive answers within the bound of the driver's
  wait, and then the device holds the identity block with its two texts turned to byte order.
\<close>

theorem ata_device_init_ide:
  assumes "drive_at dv k" "length (ident_data d k) = 512"
  shows "\<exists>ok dv' d'. ata_device_init ide_ports dv d = (ok, dv', d') \<and> (ok \<longleftrightarrow> lag d (tick d) \<le> TIMER)
     \<and> (if ok then dv' = dv\<lparr>identity := fix_text serial_off 20 (fix_text model_off 40 (ident_data d k)), is_atapi := False\<rparr>
           \<and> media d' = media d else dv' = dv)"
proof -
  let ?c = "chan_of k" and ?ws = "words16 (ident_data d k)"
  let ?g1 = "\<lambda>s :: u8. s AND ATA_SR_BSY = 0 \<and> s AND ATA_SR_DRQ \<noteq> 0" and ?g2 = "\<lambda>s :: u8. s AND ATA_SR_DRQ \<noteq> 0"
  from identify_start_ide [OF assms(1), of d] obtain d1 where
    d1: "identify_start ide_ports dv d = (if lag d (tick d) = 0 then 0x48 else 0x80, d1)"
      "c_mode (chans d1 ?c) = Sending ?ws []" "c_busy (chans d1 ?c) = lag d (tick d) - 1"
      "c_lba1 (chans d1 ?c) = 0" "c_lba2 (chans d1 ?c) = 0" "media d1 = media d" by auto
  have g: "?g1 0x48" "\<not> ?g1 0x80" "?g2 0x48" "\<not> ?g2 0x80" by (simp_all add: ata_status)
  have m1: "c_mode (chans d1 ?c) \<noteq> Idle" "c_mode (chans (calm ?c d1) ?c) \<noteq> Idle" by (simp_all add: d1(2))
  note w1 = wait_ide [of dv k ?g1 d1 TIMER, OF assms(1) g(1,2) m1(1)]
  show ?thesis
  proof (cases "lag d (tick d) \<le> TIMER")
    case False
    then have "\<not> c_busy (chans d1 ?c) < TIMER" by (simp add: d1(3))
    with w1 obtain d' where "wait_status ide_ports dv ?g1 TIMER d1 = (False, d')" by auto
    with False show ?thesis by (simp add: ata_device_init_def d1(1)) blast
  next
    case True
    then have "c_busy (chans d1 ?c) < TIMER" by (simp add: d1(3) TIMER_def)
    with w1 have 1: "wait_status ide_ports dv ?g1 TIMER d1 = (True, calm ?c d1)" by simp
    have 2: "signature_zero ide_ports dv (calm ?c d1) = (True, calm ?c d1)"
      by (simp add: signature_zero_def rin_def ide_inb_def port_of_reg [OF assms(1)] calm_def d1(4,5) Let_def)
    have "c_busy (chans (calm ?c d1) ?c) < TIMER" by (simp add: calm_def TIMER_def)
    then have 3: "wait_status ide_ports dv ?g2 TIMER (calm ?c d1) = (True, calm ?c d1)"
      using wait_ide [of dv k ?g2 "calm ?c d1" TIMER, OF assms(1) g(3,4) m1(2)] by (simp add: calm_def)
    have 4: "skip_status ide_ports dv (calm ?c d1) = calm ?c d1"
      by (simp add: skip_status_def rin_status [OF assms(1)] calm_def)
    have ws: "?ws \<noteq> []" "length ?ws = 256" using assms(2) by (auto simp: words16_def)
    have "c_mode (chans (calm ?c d1) ?c) = Sending ?ws []" by (simp add: d1(2))
    from insw_ide [OF assms(1) ws(1) this] obtain d' where
      d': "port_insw ide_ports (io_base dv + ATA_REG_DATA) 256 (calm ?c d1) = (ident_data d k, d')" "chan_only ?c (calm ?c d1) d'"
      unfolding ws(2) using assms(2) by (auto simp: words16_bytes)
    moreover have 5: "rout ide_ports (dv\<lparr>identity := i, is_atapi := b\<rparr>) r v x = rout ide_ports dv r v x" for i b r v x
      by (simp add: rout_def)
    ultimately have "ata_device_init ide_ports dv d = (True, dv\<lparr>identity := fix_text serial_off 20
        (fix_text model_off 40 (ident_data d k)), is_atapi := False\<rparr>, d')"
      by (simp add: ata_device_init_def d1(1) 1 2 3 4 5 load_identity_def rout_ide [OF assms(1)])
    moreover have "media d' = media d" using d'(2) d1(6) by (simp add: chan_only_def)
    ultimately show ?thesis using True by simp blast
  qed
qed

lemma ata_device_init_ide_witness:
  "\<exists>dv' d'. ata_device_init ide_ports (ata_device_at 0x170 0x376 1)
      \<lparr>chans = \<lambda>_. \<lparr>c_sel = 0, c_cnt = 0, c_lba0 = 0, c_lba1 = 0, c_lba2 = 0, c_busy = 0, c_mode = Idle\<rparr>,
       media = \<lambda>_ _. [], ident_data = \<lambda>_. replicate 512 0x20, lag = \<lambda>_. 3, tick = 0\<rparr> = (True, dv', d')"
  using ata_device_init_ide [of "ata_device_at 0x170 0x376 1" 3 "\<lparr>chans = \<lambda>_. \<lparr>c_sel = 0, c_cnt = 0, c_lba0 = 0,
      c_lba1 = 0, c_lba2 = 0, c_busy = 0, c_mode = Idle\<rparr>, media = \<lambda>_ _. [],
      ident_data = \<lambda>_. replicate 512 0x20, lag = \<lambda>_. 3, tick = 0\<rparr>"]
  by (auto simp: drive_at_def ata_device_at_def TIMER_def)

end
