(* ===== verification/Ata_Files.thy ===== *)
theory Ata_Files
  imports Ata_Drive Ata_Detect Fat32_Files
begin

text \<open>
  The driver and its drives as the disk of the file system: the four device records of \<open>ata.c\<close>
  satisfy the sector contract, and so what \<open>Fat32_Files\<close> shows of any such disk holds of them.
\<close>

lemma boot_drives: "drives_ok (ata_devs ata_boot)"
proof -
  have "drive_at (ata_devs ata_boot k) k" if "k = 0 \<or> k = 1 \<or> k = 2 \<or> k = 3" for k
    using that by (auto simp: drive_at_def ata_boot_def ata_primary_master_def ata_primary_slave_def
        ata_secondary_master_def ata_secondary_slave_def ata_device_at_def)
  then show ?thesis by (auto simp: drives_ok_def less_Suc_eq numeral_eq_Suc)
qed

definition boot_disk :: "ide disk" where
  "boot_disk = ata_disk ide_ports (ata_devs ata_boot)"

interpretation ata: sector_device boot_disk ide_ok "\<lambda>k. k < 4" media
  unfolding boot_disk_def by (rule ata_sector_device [OF boot_drives])

text \<open>
  C9: sectors written to a drive by programmed I/O are read back as written, and every other sector of
  every drive keeps its content, however long the drive takes over each command and sector.
\<close>

theorem ata_write_read:
  assumes "ide_ok d" "k < 4" "run_ok lba n" "length src = unat n * ATA_SECTOR_SIZE"
  shows "\<exists>d1 d2. ata_pio_write28 ide_ports (ata_devs ata_boot k) lba n src d = Returns d1
     \<and> ata_pio_read28 ide_ports (ata_devs ata_boot k) lba n d1 = Returns (src, d2)
     \<and> (\<forall>k' b. k' \<noteq> k \<or> b \<notin> {unat lba..<unat lba + unat n} \<longrightarrow> media d2 k' b = media d k' b)"
proof -
  from ata.write_run [OF assms] obtain d1 where d1:
    "ata_pio_write28 ide_ports (ata_devs ata_boot k) lba n src d = Returns d1" "ide_ok d1"
    "concat (map (media d1 k) [unat lba..<unat lba + unat n]) = src"
    "\<forall>k' b. k' \<noteq> k \<or> b \<notin> {unat lba..<unat lba + unat n} \<longrightarrow> media d1 k' b = media d k' b"
    by (auto simp: boot_disk_def ata_disk_def)
  from ata.read_law [OF d1(2) assms(2,3)] d1 show ?thesis by (auto simp: boot_disk_def ata_disk_def)
qed

definition blank_ide :: "(nat \<Rightarrow> nat) \<Rightarrow> ide" where
  "blank_ide l = \<lparr>chans = \<lambda>_. \<lparr>c_sel = 0, c_cnt = 0, c_lba0 = 0, c_lba1 = 0, c_lba2 = 0, c_busy = 0, c_mode = Idle\<rparr>,
     media = \<lambda>_ _. replicate 512 0, ident_data = \<lambda>_. replicate 512 0, lag = l, tick = 0\<rparr>"

lemma blank_ide_ok [simp]: "ide_ok (blank_ide l)"
  by (simp add: ide_ok_def blank_ide_def ATA_SECTOR_SIZE_def)

lemma ata_write_read_witness:
  "\<exists>d1 d2. ata_pio_write28 ide_ports ata_secondary_slave 0x0ABCDEF 2 (replicate 512 1 @ replicate 512 2) (blank_ide (\<lambda>n. n)) = Returns d1
     \<and> ata_pio_read28 ide_ports ata_secondary_slave 0x0ABCDEF 2 d1 = Returns (replicate 512 1 @ replicate 512 2, d2)
     \<and> media d2 0 0x0ABCDEF = replicate 512 0"
proof -
  have dv: "ata_devs ata_boot 3 = ata_secondary_slave" by (simp add: ata_boot_def)
  have r: "run_ok 0x0ABCDEF 2" "length (replicate 512 (1 :: u8) @ replicate 512 2) = unat (2 :: u8) * ATA_SECTOR_SIZE"
    by (simp_all add: run_ok_def ATA_SECTOR_SIZE_def)
  have "media (blank_ide (\<lambda>n. n)) 0 0x0ABCDEF = replicate 512 0" by (simp add: blank_ide_def)
  with ata_write_read [OF blank_ide_ok _ r, of 3 "\<lambda>n. n", unfolded dv] show ?thesis by auto
qed



end
