(* ===== verification/Boot.thy ===== *)
theory Boot
  imports Commands Layout Keyboard Calendar
begin

text \<open>
  The entry of the kernel (\<open>kmain\<close> of \<open>kmain.c\<close>): the initialisations of the other theories in their order, on one
  state. What the boot loader answers, the addresses of code and the devices are parameters; the handler of the
  timer and that of the keyboard are parameters too, since they work on a state that contains the device. The log lines of
  \<open>kmain\<close> itself are printed, those of the parts are left out. \<open>kmain\<close> never returns: it answers the
  state in which it halts for good (\<open>done\<close>) and from which interrupts go on.
\<close>

section \<open>The state and the parameters\<close>

record ('d, 'v) kernel =
  k_log :: "klogs \<times> terms"
  k_smp :: "'d smp"
  k_idt :: "idt_entry list"
  k_handlers :: "'d exc_handler option list"
  k_pit :: pit
  k_acpi :: acpi_state
  k_madt :: madt_state
  k_hpet :: hpet_state
  k_boot_time :: u64
  k_lapic :: u64
  k_vfs :: "'v vfs"
  k_sched :: sched

text \<open>What the boot loader answers; a frame buffer comes with its EDID bytes and its address.\<close>

record boot_answers =
  hhdm :: "(u64 \<times> u64) option"
  framebuffers :: "(limine_framebuffer \<times> u8 list \<times> u64) list option"
  memory_map :: "memmap_entry list"
  kernel_virtual :: u64
  kernel_physical :: u64
  rsdp :: u64

text \<open>
  \<open>other_cores\<close> is the scheduler on the heap of that time as the other cores have left it, each of which has made its
  idle task when \<open>smp_init\<close> comes back.
\<close>

record 'd machine =
  bports :: "'d byte_ports"
  lapic :: "'d lapic_io"
  clocks :: "'d clock_reads"
  ap_cores :: "'d ap_reads"
  exc_entry :: "nat \<Rightarrow> u64"
  irq_entry :: "nat \<Rightarrow> u64"
  pit_handler :: "'d exc_handler"
  keyboard_handler :: "'d exc_handler"
  hpet_caps :: u64
  hpet_config :: u64
  blob_start :: u64
  blob_end :: u64
  idtr_bytes :: "u8 list"
  ap_entry :: u64
  kshell_entry :: u64
  kcursor_entry :: u64
  idle_entry :: u64
  other_cores :: "heap \<Rightarrow> sched"
  line_env :: "nat \<Rightarrow> log_env"

section \<open>Halting, and the boot loader's terminal\<close>

definition done_halt :: "'a outcome" where
  "done_halt = loop_c (\<lambda>_. Returns (Inl ())) ()"

lemma done_never_ends: "done_halt = Diverges"
  unfolding done_halt_def by (rule loop_c_diverges [where I = "\<lambda>_. True"]) simp_all

text \<open>\<open>terminals\<close> is the answer of the boot loader and \<open>write\<close> its function.\<close>

definition kdisplay :: "('t \<Rightarrow> u8 list \<Rightarrow> 'd \<Rightarrow> 'd) \<Rightarrow> 't list option \<Rightarrow> u8 list \<Rightarrow> 'd \<Rightarrow> 'd outcome" where
  "kdisplay write terminals s d =
     (case terminals of None \<Rightarrow> done_halt
      | Some [] \<Rightarrow> done_halt
      | Some (t # _) \<Rightarrow> Returns (write t (c_text s) d))"

section \<open>The keyboard's lines\<close>

definition mouse_callback :: "('d, 'm) byte_ports_scheme \<Rightarrow> 'd exc_handler" where
  "mouse_callback P d = Returns (snd (inb P KEYBOARD_PORT_DATA d))"

text \<open>The whole of \<open>keyboard_init\<close>: the controller, then the handlers and the lines 1, 2 and 12.\<close>

definition keyboard_start :: "('d, 'm) byte_ports_scheme \<Rightarrow> 'd exc_handler \<Rightarrow> 'd exc_handler option list \<Rightarrow> 'd
    \<Rightarrow> ('d exc_handler option list \<times> 'd) outcome" where
  "keyboard_start P kb_callback handlers d =
     obind (keyboard_init P d) (\<lambda>d.
     obind (exc_register_handler (of_nat (IRQ0 + 1)) kb_callback handlers) (\<lambda>handlers.
     obind (exc_register_handler (of_nat (IRQ0 + 12)) (mouse_callback P) handlers) (\<lambda>handlers.
       Returns (handlers, irq_clear_mask P 12 (irq_clear_mask P 2 (irq_clear_mask P 1 d))))))"

text \<open>What the vector of the APIC timer runs until a handler is set (\<open>core/timer.c\<close>): a warning and the end of the interrupt.\<close>

definition apic_timer_handler :: "u8 list \<Rightarrow> log_env \<Rightarrow> ('d, 'm) lapic_io_scheme \<Rightarrow> klogs \<times> terms \<Rightarrow> 'd \<Rightarrow> ((klogs \<times> terms) \<times> 'd) outcome" where
  "apic_timer_handler font env L st d =
     omap (\<lambda>st. (st, apic_send_eoi L d)) (klogw font env (''APIC Timer: No handler registered'' @ NEWLINE) [] st)"

section \<open>The stages of \<open>kmain\<close>\<close>

definition on_dev :: "'d \<Rightarrow> ('d, 'v) kernel \<Rightarrow> ('d, 'v) kernel" where
  "on_dev d k = k\<lparr>k_smp := (k_smp k)\<lparr>sdev := d\<rparr>\<rparr>"

definition on_vm :: "vm \<Rightarrow> ('d, 'v) kernel \<Rightarrow> ('d, 'v) kernel" where
  "on_vm v k = k\<lparr>k_smp := (k_smp k)\<lparr>svm := v\<rparr>\<rparr>"

definition log_line :: "u8 list \<Rightarrow> log_env \<Rightarrow> string \<Rightarrow> karg list \<Rightarrow> ('d, 'v) kernel \<Rightarrow> ('d, 'v) kernel outcome" where
  "log_line font env s args k = omap (\<lambda>st. k\<lparr>k_log := st\<rparr>) (klogi font env s args (k_log k))"

definition edid_line :: "u8 list \<Rightarrow> log_env \<Rightarrow> u8 list \<Rightarrow> ('d, 'v) kernel \<Rightarrow> ('d, 'v) kernel outcome" where
  "edid_line font env bytes k =
     (if length bytes = csize edid_info_t then
        let edid = decode edid_info_t bytes in
        log_line font env (''EDID %d.%d: %d * %d'' @ NEWLINE)
          (map (\<lambda>f. Num (num_at edid [Fld f])) [''edid_version'', ''edid_revision'', ''max_hor_size'', ''max_ver_size'']) k
      else Returns k)"

text \<open>\<open>None\<close>: without a frame buffer nothing else is done.\<close>

definition start_display :: "u8 list \<Rightarrow> boot_answers \<Rightarrow> (nat \<Rightarrow> log_env) \<Rightarrow> ('d, 'v) kernel
    \<Rightarrow> (('d, 'v) kernel option \<times> ('d, 'v) kernel) outcome" where
  "start_display font B env k =
     obind (log_line font (env 0) (''HanOS version 0.1 starting...'' @ NEWLINE) [] (k\<lparr>k_log := (klog_init, snd (k_log k))\<rparr>)) (\<lambda>k.
     obind (case hhdm B of None \<Rightarrow> Returns k
            | Some (off, revision) \<Rightarrow> log_line font (env 1) (''HHDM offset 0x%x, revision %d'' @ NEWLINE) [Num off, Num revision] k) (\<lambda>k.
       case framebuffers B of None \<Rightarrow> Returns (None, k)
       | Some [] \<Rightarrow> Returns (None, k)
       | Some ((fb, edid, address) # _) \<Rightarrow>
           obind (term_init font fb (snd (k_log k))) (\<lambda>tm.
           obind (edid_line font (env 2) edid (k\<lparr>k_log := (fst (k_log k), tm)\<rparr>)) (\<lambda>k.
           omap (\<lambda>k. (Some k, k)) (log_line font (env 3) (''Framebuffer address 0x%x'' @ NEWLINE) [Num address] k)))))"

definition start_memory :: "u8 list \<Rightarrow> boot_answers \<Rightarrow> 'd machine \<Rightarrow> ('d, 'v) kernel \<Rightarrow> ('d, 'v) kernel outcome" where
  "start_memory font B M k =
     obind (gdt_init (sgdts (k_smp k))) (\<lambda>(n, g).
     let (gates, d) = idt_init (bports M) (exc_entry M) (irq_entry M) (sdev (k_smp k));
         k = k\<lparr>k_smp := (k_smp k)\<lparr>sgdts := g, sregs := (sregs (k_smp k))\<lparr>gdtr := n\<rparr>, sdev := d\<rparr>, k_idt := gates\<rparr> in
     obind (pmm_init (memory_map B)) (\<lambda>pm.
     obind (vmm_init (memory_map B) (kernel_virtual B) (kernel_physical B) \<lparr>kpmm = pm, kmem = smem (k_smp k)\<rparr> (cr3 (svm (k_smp k)))) (\<lambda>v.
     omap (\<lambda>st. (on_vm v k)\<lparr>k_log := st\<rparr>) (term_start font (k_log k)))))"

definition start_devices :: "boot_answers \<Rightarrow> 'd machine \<Rightarrow> ('d, 'v) kernel \<Rightarrow> ('d, 'v) kernel outcome" where
  "start_devices B M k =
     obind (pit_init (bports M) (cmos_current_time (bports M)) (pit_handler M) (k_handlers k) (k_pit k) (sdev (k_smp k))) (\<lambda>(p, handlers, d).
     obind (keyboard_start (bports M) (keyboard_handler M) handlers d) (\<lambda>(handlers, d).
     obind (acpi_init (smem (k_smp k)) (rsdp B) (k_madt k)) (\<lambda>(a, mt).
     obind (hpet_init (smem (k_smp k)) a (hpet_caps M) (hpet_config M) (k_hpet k) (svm (k_smp k))) (\<lambda>(h, _, v).
     obind (cmos_init (bports M) d) (\<lambda>(t, d).
     obind (apic_init (lapic M) (kmem (vheap v)) mt v d) (\<lambda>(base, v, d).
       Returns ((on_vm v (on_dev d k))\<lparr>k_handlers := handlers, k_pit := p, k_acpi := a, k_madt := mt, k_hpet := h,
                  k_boot_time := t, k_lapic := base\<rparr>)))))))"

text \<open>The number of the CPU that \<open>smp_get_current_cpu\<close> points at.\<close>

definition cpu_id_at :: "u64 \<Rightarrow> smp_info \<Rightarrow> u16 outcome" where
  "cpu_id_at a i = omap cpu_no (rd (cpus i) (unat (a - info_at i) div CPU_SIZE))"

definition start_tasks :: "u8 list \<Rightarrow> 'd machine \<Rightarrow> 'v fs_table \<Rightarrow> nat \<Rightarrow> ('d, 'v) kernel \<Rightarrow> ('d, 'v) kernel outcome" where
  "start_tasks font M F fs_no k =
     obind (vfs_init F fs_no (k_vfs k)) (\<lambda>fs.
     obind (smp_init (clocks M) (ap_cores M) (lapic M) (k_hpet k) (k_madt k) (blob_start M) (blob_end M) (idtr_bytes M) (ap_entry M)
       (k_smp k)) (\<lambda>sm.
     obind (log_line font (line_env M 4) (''Press \"?[14;1m%s?[0m\" (left) to shell and \"?[14;1m%s?[0m\" back'' @ NEWLINE)
       [Str (c_lit ''ctrl+shift+1''), Str (c_lit ''ctrl+shift+2'')] (k\<lparr>k_vfs := fs, k_smp := sm\<rparr>)) (\<lambda>k.
     obind (sched_add (other_cores M (vheap (svm sm))) (kshell_entry M)) (\<lambda>sc.
     obind (sched_add sc (kcursor_entry M)) (\<lambda>sc.
     let cpu = smp_get_current_cpu False sm in
     if cpu = 0 then Faults Panic
     else obind (cpu_id_at cpu (sinfo sm)) (\<lambda>cpu_id.
          omap (\<lambda>sc. k\<lparr>k_sched := sc\<rparr>) (sched_init sc cpu_id (idle_entry M))))))))"

definition kmain :: "u8 list \<Rightarrow> boot_answers \<Rightarrow> 'd machine \<Rightarrow> 'v fs_table \<Rightarrow> nat \<Rightarrow> ('d, 'v) kernel \<Rightarrow> ('d, 'v) kernel outcome" where
  "kmain font B M F fs_no k =
     obind (start_display font B (line_env M) k) (\<lambda>(display, k).
       case display of None \<Rightarrow> Returns k
       | Some k \<Rightarrow>
           obind (start_memory font B M k) (\<lambda>k.
           obind (start_devices B M k) (start_tasks font M F fs_no)))"


section \<open>What the boot leaves\<close>

lemma log_line_only:
  "log_line font env s args k = Returns k' \<Longrightarrow> \<exists>a b. k' = k\<lparr>k_log := (a, b)\<rparr>"
  by (auto simp: log_line_def omap_eq_Returns)

lemma edid_line_only:
  assumes "edid_line font env bytes k = Returns k'"
  shows "\<exists>a b. k' = k\<lparr>k_log := (a, b)\<rparr>"
proof (cases "length bytes = csize edid_info_t")
  case True
  then show ?thesis using assms by (auto simp: edid_line_def Let_def dest!: log_line_only)
next
  case False
  moreover have "k = k\<lparr>k_log := (fst (k_log k), snd (k_log k))\<rparr>" by simp
  ultimately show ?thesis using assms unfolding edid_line_def by (metis outcome.inject(1))
qed

lemma display_only_logs:
  assumes "start_display font B env k = Returns (r, k')"
  shows "k' = k\<lparr>k_log := k_log k'\<rparr> \<and> r = (if framebuffers B \<in> {None, Some []} then None else Some k')"
  using assms
  by (auto simp: start_display_def obind_eq_Returns omap_eq_Returns split: option.splits list.splits
      dest!: log_line_only edid_line_only)

text \<open>Without a frame buffer the kernel prints its first lines and halts: no other part has been started.\<close>

theorem kmain_no_display:
  assumes "framebuffers B \<in> {None, Some []}" and "kmain font B M F fs_no k = Returns k'"
  shows "k' = k\<lparr>k_log := k_log k'\<rparr>"
proof -
  obtain r k1 where d: "start_display font B (line_env M) k = Returns (r, k1)"
    using assms(2) by (auto simp: kmain_def obind_eq_Returns)
  then show ?thesis using assms display_only_logs [OF d] by (simp add: kmain_def)
qed

lemma keyboard_handlers:
  assumes "keyboard_start P h hs d = Returns (hs', d')"
  shows "hs' = hs[33 := Some h, 44 := Some (mouse_callback P)]"
  using assms by (auto simp: keyboard_start_def obind_eq_Returns exc_register_handler_def IRQ0_def wr_def split: if_splits)

lemma pit_handlers:
  assumes "pit_init P now h hs p d = Returns (p', hs', d')"
  shows "hs' = hs[32 := Some h]"
  using assms by (auto simp: pit_init_def Let_def obind_eq_Returns exc_register_handler_def IRQ0_def wr_def split: if_splits)

text \<open>The gates, the handlers of the lines and the file system as they are when the tasks are made.\<close>

lemma memory_gates:
  "start_memory font B M k = Returns k' \<Longrightarrow>
     k_idt k' = idt_gates (exc_entry M) (irq_entry M) \<and> k_handlers k' = k_handlers k \<and> k_vfs k' = k_vfs k"
  by (auto simp: start_memory_def obind_eq_Returns omap_eq_Returns idt_init_def on_vm_def Let_def)

lemma devices_handlers:
  "start_devices B M k = Returns k' \<Longrightarrow>
     k_idt k' = k_idt k \<and> k_vfs k' = k_vfs k
     \<and> k_handlers k' = (k_handlers k)[32 := Some (pit_handler M), 33 := Some (keyboard_handler M), 44 := Some (mouse_callback (bports M))]"
  by (auto simp: start_devices_def obind_eq_Returns on_vm_def on_dev_def dest!: keyboard_handlers pit_handlers)

text \<open>
  A boot that comes to its end has the gates of the assembly entries, the handlers of the timer, the keyboard and the mouse at 32,
  33 and 44 and the file system with /dev and /disk; the CPUs are listed, and the shell and the cursor are the
  two tasks that the boot core has added last.
\<close>

lemma tasks_last:
  assumes "start_tasks font M F fs_no k = Returns k'"
  obtains sm sc1 sc2 fs cpu_id where
    "vfs_init F fs_no (k_vfs k) = Returns fs"
    "smp_init (clocks M) (ap_cores M) (lapic M) (k_hpet k) (k_madt k) (blob_start M) (blob_end M) (idtr_bytes M) (ap_entry M) (k_smp k)
       = Returns sm"
    "sched_add (other_cores M (vheap (svm sm))) (kshell_entry M) = Returns sc1" "sched_add sc1 (kcursor_entry M) = Returns sc2"
    "cpu_id_at (smp_get_current_cpu False sm) (sinfo sm) = Returns cpu_id" "sched_init sc2 cpu_id (idle_entry M) = Returns (k_sched k')"
    "k_vfs k' = fs" "k_smp k' = sm" "k_idt k' = k_idt k" "k_handlers k' = k_handlers k"
  using assms
  by (auto simp: start_tasks_def Let_def obind_eq_Returns omap_eq_Returns split: if_splits dest!: log_line_only)

theorem kmain_leaves:
  assumes "framebuffers B \<notin> {None, Some []}" "k_vfs k = boot_vfs fd" "kmain font B M F fs_no k = Returns k'"
  shows "k_idt k' = idt_gates (exc_entry M) (irq_entry M)"
    "k_handlers k' = (k_handlers k)[32 := Some (pit_handler M), 33 := Some (keyboard_handler M), 44 := Some (mouse_callback (bports M))]"
    "k_vfs k' = init_vfs fs_no fd" "smp_initialized (k_smp k')"
proof -
  from assms(3) obtain r k1 where d: "start_display font B (line_env M) k = Returns (r, k1)"
    by (auto simp: kmain_def obind_eq_Returns)
  have e: "k1 = k\<lparr>k_log := k_log k1\<rparr>" and r: "r = Some k1" using display_only_logs [OF d] assms(1) by simp_all
  have k1: "k_vfs k1 = k_vfs k" "k_handlers k1 = k_handlers k" by (subst e, simp)+
  from assms(3) obtain k2 k3 where m: "start_memory font B M k1 = Returns k2" and dv: "start_devices B M k2 = Returns k3"
    and t: "start_tasks font M F fs_no k3 = Returns k'"
    unfolding kmain_def d r by (auto simp: obind_eq_Returns)
  have k3: "k_vfs k3 = boot_vfs fd" using memory_gates [OF m] devices_handlers [OF dv] k1 assms(2) by simp
  from t obtain sm where s: "smp_initialized (k_smp k') = smp_initialized sm"
    "smp_init (clocks M) (ap_cores M) (lapic M) (k_hpet k3) (k_madt k3) (blob_start M) (blob_end M) (idtr_bytes M) (ap_entry M) (k_smp k3)
       = Returns sm"
    by (auto elim: tasks_last)
  show "smp_initialized (k_smp k')" unfolding s(1) using s(2) by (auto simp: smp_init_def Let_def obind_eq_Returns)
  from t show "k_vfs k' = init_vfs fs_no fd" by (rule tasks_last) (simp add: k3 vfs_init_eq)
  from t show "k_idt k' = idt_gates (exc_entry M) (irq_entry M)"
    by (rule tasks_last) (use memory_gates [OF m] devices_handlers [OF dv] in simp)
  from t show "k_handlers k' = (k_handlers k)[32 := Some (pit_handler M), 33 := Some (keyboard_handler M), 44 := Some (mouse_callback (bports M))]"
    by (rule tasks_last) (use memory_gates [OF m] devices_handlers [OF dv] k1 in simp)
qed

end
