(* ===== verification/Backtrace.thy ===== *)
theory Backtrace
  imports CMemory Klog
begin

text \<open>
  A panic and its stack trace (\<open>core/panic.h\<close>, \<open>panic.c\<close>): the search of an address in the symbol table and the walk
  over the stack frames. The table, which the build generates, is a parameter, with the entry of the
  largest address that ends it; its entries are an address and a name, a C string. A frame holds the address of the
  frame above and, 8 bytes on, the return address. Printing does not write to the stack that is walked; the lock of
  the log, which \<open>klogu\<close> does not take, is held meanwhile.
\<close>

fun symbols_from :: "(u64 \<times> 'n) list \<Rightarrow> u64 \<Rightarrow> nat \<Rightarrow> int outcome" where
  "symbols_from [] addr i = Faults OutOfBounds"
| "symbols_from ((a, _) # rest) addr i =
     (if \<not> a < 0xFFFFFFFFFFFFFFFF then Returns (- 1)
      else if a < addr then
        (case rest of [] \<Rightarrow> Faults OutOfBounds
         | (b, _) # _ \<Rightarrow> if b \<ge> addr then Returns (int i) else symbols_from rest addr (Suc i))
      else symbols_from rest addr (Suc i))"

definition symbols_get_index :: "(u64 \<times> 'n) list \<Rightarrow> u64 \<Rightarrow> int outcome" where
  "symbols_get_index symtab addr = symbols_from symtab addr 0"

text \<open>
  The line of a return address, with its symbol and the offset from it, if there is one.
\<close>

definition trace_line :: "u8 list \<Rightarrow> log_env \<Rightarrow> u64 \<Rightarrow> u64 \<times> (u8 list \<times> u64) option \<Rightarrow> klogs \<times> terms \<Rightarrow> (klogs \<times> terms) outcome" where
  "trace_line font env i l =
     (case l of
        (f, None) \<Rightarrow> klogu font env ('' '' @ TABCH @ ''[%02d] '' @ TABCH @ ''%x (Unknown Function)'' @ NEWLINE) [Num i, Num f]
      | (f, Some (name, off)) \<Rightarrow> klogu font env ('' '' @ TABCH @ ''[%02d] '' @ TABCH @ ''%x (%s+%04x)'' @ NEWLINE) [Num i, Num f, Str name, Num off])"

text \<open>One round of the walk: its number, the frame, the previous return address and the log.\<close>

definition trace_step :: "u8 list \<Rightarrow> log_env \<Rightarrow> (u64 \<times> u8 list) list \<Rightarrow> memory \<Rightarrow> u64 \<times> u64 \<times> u64 \<times> klogs \<times> terms
    \<Rightarrow> ((u64 \<times> u64 \<times> u64 \<times> klogs \<times> terms) + (klogs \<times> terms)) outcome" where
  "trace_step font env symtab m x =
     (case x of (i, rbp, prev, st) \<Rightarrow>
        let f = ld64 m (rbp + 8) in
        if f = 0 \<or> f = prev then Returns (Inr st)
        else obind (symbols_get_index symtab f) (\<lambda>idx.
          if idx < 0 then omap (\<lambda>st. Inl (i + 1, rbp, f, st)) (trace_line font env i (f, None) st)
          else obind (rd symtab (nat idx)) (\<lambda>(a, name).
                 omap (\<lambda>st. Inl (i + 1, ld64 m rbp, f, st)) (trace_line font env i (f, Some (name, f - a)) st))))"

definition trace_end :: "u8 list \<Rightarrow> log_env \<Rightarrow> klogs \<times> terms \<Rightarrow> (klogs \<times> terms) outcome" where
  "trace_end font env =
     (case log_cpu env of
        Some cpu \<Rightarrow> klogu font env (''End of trace. CPU %d System halted.'' @ NEWLINE @ '' '' @ NEWLINE @ '' '' @ NEWLINE) [Num (ucast cpu)]
      | None \<Rightarrow> klogu font env (''End of trace. System halted.'' @ NEWLINE @ '' '' @ NEWLINE @ '' '' @ NEWLINE) [])"

definition dump_backtrace :: "u8 list \<Rightarrow> log_env \<Rightarrow> (u64 \<times> u8 list) list \<Rightarrow> memory \<Rightarrow> u64 \<Rightarrow> klogs \<times> terms \<Rightarrow> (klogs \<times> terms) outcome" where
  "dump_backtrace font env symtab m rbp st =
     obind (klogu font env (NEWLINE @ ''Stacktrace:'' @ NEWLINE) [] st) (\<lambda>st.
     obind (loop_c (trace_step font env symtab m) (0, rbp, 0, st)) (trace_end font env))"

text \<open>A panic: the state in which it halts for good. The other theories stop at the fault \<open>Panic\<close>.\<close>

definition kpanic :: "u8 list \<Rightarrow> log_env \<Rightarrow> (u64 \<times> u8 list) list \<Rightarrow> memory \<Rightarrow> u64 \<Rightarrow> u8 list \<Rightarrow> karg list \<Rightarrow> klogs \<times> terms
    \<Rightarrow> (klogs \<times> terms) outcome" where
  "kpanic font env symtab m rbp s args st =
     obind (klog_vprintf font env KLOG_LEVEL_ERROR s args st) (dump_backtrace font env symtab m rbp)"

section \<open>What the search finds\<close>

text \<open>A table in ascending order, ended by the largest address.\<close>

definition wf_symtab :: "(u64 \<times> 'n) list \<Rightarrow> bool" where
  "wf_symtab t \<longleftrightarrow> t \<noteq> [] \<and> sorted (map fst t) \<and> fst (last t) = 0xFFFFFFFFFFFFFFFF
     \<and> (\<forall>k. Suc k < length t \<longrightarrow> fst (t ! k) < 0xFFFFFFFFFFFFFFFF)"

lemma wf_symtab_Cons: "wf_symtab (x # y # t) \<Longrightarrow> wf_symtab (y # t)"
  unfolding wf_symtab_def by (auto dest: spec[where x = "Suc _"])

text \<open>The last symbol below an address, as a number from \<open>i\<close>; \<open>- 1\<close> if there is none.\<close>

lemma symbols_from_iff:
  assumes "wf_symtab t"
  shows "symbols_from t addr i = Returns (if fst (hd t) < addr
     then int i + int (length (takeWhile (\<lambda>e. fst e < addr) t)) - 1 else - 1)"
  using assms
proof (induction t arbitrary: i)
  case Nil
  then show ?case by (simp add: wf_symtab_def)
next
  case (Cons x t)
  obtain a nm where x: "x = (a, nm)" by (cases x)
  show ?case
  proof (cases t)
    case Nil
    have "\<not> (0xFFFFFFFFFFFFFFFF :: u64) < addr" using unat_u64[of addr] by (simp add: word_less_nat_alt)
    then show ?thesis using Cons.prems x Nil by (simp add: wf_symtab_def)
  next
    case (Cons y t')
    obtain b bn where y: "y = (b, bn)" by (cases y)
    have wf: "wf_symtab t" using Cons.prems Cons wf_symtab_Cons by blast
    have a: "a < 0xFFFFFFFFFFFFFFFF" using Cons.prems x Cons by (auto simp: wf_symtab_def)
    have le: "a \<le> b" using Cons.prems x y Cons by (simp add: wf_symtab_def)
    show ?thesis
      using Cons.IH[OF wf, of "Suc i"] a le x y Cons by (auto simp: not_le)
  qed
qed


section \<open>What the trace shows\<close>

text \<open>
  The frames from an address on: the return addresses, down to the one that is 0.
\<close>

fun frames :: "memory \<Rightarrow> u64 \<Rightarrow> u64 list \<Rightarrow> bool" where
  "frames m rbp [] \<longleftrightarrow> ld64 m (rbp + 8) = 0"
| "frames m rbp (f # fs) \<longleftrightarrow> f \<noteq> 0 \<and> ld64 m (rbp + 8) = f \<and> frames m (ld64 m rbp) fs"

text \<open>Name and offset of the last symbol below an address.\<close>

definition symbol_of :: "(u64 \<times> 'n) list \<Rightarrow> u64 \<Rightarrow> ('n \<times> u64) option" where
  "symbol_of t f = (if fst (hd t) < f then (case last (takeWhile (\<lambda>e. fst e < f) t) of (a, name) \<Rightarrow> Some (name, f - a)) else None)"

text \<open>The lines for a list of return addresses: up to one that repeats the one before or is below every symbol.\<close>

fun lines_of :: "(u64 \<times> 'n) list \<Rightarrow> u64 \<Rightarrow> u64 list \<Rightarrow> (u64 \<times> ('n \<times> u64) option) list" where
  "lines_of t prev [] = []"
| "lines_of t prev (f # fs) =
     (if f = prev then [] else case symbol_of t f of None \<Rightarrow> [(f, None)] | Some sy \<Rightarrow> (f, Some sy) # lines_of t f fs)"

lemma symbol_at_index:
  assumes "wf_symtab t"
  shows "obind (symbols_get_index t f) (\<lambda>idx. if idx < 0 then Returns (g None) else obind (rd t (nat idx)) (\<lambda>(a, name). Returns (g (Some (name, f - a)))))
    = Returns (g (symbol_of t f))"
proof (cases "fst (hd t) < f")
  case True
  let ?w = "takeWhile (\<lambda>e. fst e < f) t"
  have ne: "t \<noteq> []" using assms by (simp add: wf_symtab_def)
  then have w: "?w \<noteq> []" using True by (cases t) auto
  then have l: "nat (int (length ?w) - 1) = length ?w - 1" "length ?w - 1 < length t"
    using length_takeWhile_le[of "\<lambda>e. fst e < f" t] by (cases ?w; simp)+
  have "t ! (length ?w - 1) = last ?w" using w by (simp add: last_conv_nth takeWhile_nth)
  then show ?thesis
    using symbols_from_iff[OF assms, of f 0] True w l
    by (simp add: symbols_get_index_def symbol_of_def case_prod_unfold Suc_le_eq)
next
  case False
  then show ?thesis using symbols_from_iff[OF assms, of f 0] by (simp add: symbols_get_index_def symbol_of_def)
qed

lemma trace_step_line:
  assumes "wf_symtab t" "ld64 m (rbp + 8) = f" "f \<noteq> 0" "f \<noteq> prev"
  shows "trace_step font env t m (i, rbp, prev, st)
     = omap (\<lambda>st. Inl (i + 1, if symbol_of t f = None then rbp else ld64 m rbp, f, st)) (trace_line font env i (f, symbol_of t f) st)"
proof -
  have "trace_step font env t m (i, rbp, prev, st)
     = obind (obind (symbols_get_index t f) (\<lambda>idx. if idx < 0 then Returns None else obind (rd t (nat idx)) (\<lambda>(a, name). Returns (Some (name, f - a)))))
         (\<lambda>so. omap (\<lambda>st. Inl (i + 1, if so = None then rbp else ld64 m rbp, f, st)) (trace_line font env i (f, so) st))"
    using assms by (auto simp: trace_step_def Let_def obind_assoc case_prod_unfold intro!: obind_cong)
  then show ?thesis using symbol_at_index[OF assms(1), of f "\<lambda>so. so"] by simp
qed

lemma trace_lines:
  assumes "wf_symtab t" "frames m rbp fs"
  shows "loop_c (trace_step font env t m) (of_nat i, rbp, prev, st)
    = foldo (\<lambda>(i, l). trace_line font env (of_nat i) l) (enumerate i (lines_of t prev fs)) st"
  using assms(2)
proof (induction fs arbitrary: i rbp prev st)
  case Nil
  then show ?case by (subst loop_c_unfold) (simp add: trace_step_def)
next
  case (Cons f fs)
  have f: "ld64 m (rbp + 8) = f" "f \<noteq> 0" "frames m (ld64 m rbp) fs" using Cons.prems by auto
  show ?case
  proof (cases "f = prev")
    case True
    then show ?thesis using f by (subst loop_c_unfold) (simp add: trace_step_def)
  next
    case False
    have stop: "loop_c (trace_step font env t m) (j, rbp, f, st) = Returns st" for j st
      using f by (subst loop_c_unfold) (simp add: trace_step_def)
    have next_no: "(of_nat i + 1 :: u64) = of_nat (Suc i)" by simp
    show ?thesis
    proof (cases "symbol_of t f")
      case None
      then show ?thesis using trace_step_line[OF assms(1) f(1,2) False] False stop
        by (subst loop_c_unfold) (simp add: obind_omap cong: obind_cong)
    next
      case (Some sy)
      then show ?thesis using trace_step_line[OF assms(1) f(1,2) False] False Cons.IH[OF f(3), of "Suc i" f]
        by (subst loop_c_unfold) (simp add: obind_omap next_no del: of_nat_Suc)
    qed
  qed
qed

text \<open>
  C39: The trace of a panic, over a stack whose frames end in a return address of 0 and a symbol table in
  ascending order: it ends, and prints its head, one numbered line for each return address, with the last symbol below
  it, and the line of the halted CPU; but it stops at the second of two equal return addresses (a function that called
  itself) and after the first address below every symbol, since the walk stays at that frame.
\<close>

theorem backtrace_shows:
  assumes "wf_symtab t" "frames m rbp fs"
  shows "dump_backtrace font env t m rbp st =
     obind (klogu font env (NEWLINE @ ''Stacktrace:'' @ NEWLINE) [] st) (\<lambda>st.
     obind (foldo (\<lambda>(i, l). trace_line font env (of_nat i) l) (enumerate 0 (lines_of t 0 fs)) st)
       (trace_end font env))"
  using trace_lines[OF assms, of font env 0 0] by (simp add: dump_backtrace_def)

text \<open>A stack of three frames: the addresses \<open>0x150\<close>, \<open>0x50\<close> and \<open>0x250\<close>; the second is below every symbol.\<close>

definition demo_stack :: memory where
  "demo_stack = st64 (st64 (st64 (st64 (st64 (\<lambda>_. 0) 0x1000 0x2000) 0x1008 0x150) 0x2000 0x3000) 0x2008 0x50) 0x3008 0x250"

definition demo_symtab :: "(u64 \<times> u8 list) list" where
  "demo_symtab = [(0x100, c_lit ''kmain''), (0x200, c_lit ''done''), (0xFFFFFFFFFFFFFFFF, [0])]"

theorem backtrace_shows_witness:
  "\<forall>font env st. dump_backtrace font env demo_symtab demo_stack 0x1000 st =
     obind (klogu font env (NEWLINE @ ''Stacktrace:'' @ NEWLINE) [] st) (\<lambda>st.
     obind (trace_line font env 0 (0x150, Some (c_lit ''kmain'', 0x50)) st) (\<lambda>st.
     obind (trace_line font env 1 (0x50, None) st) (trace_end font env)))"
proof -
  have "wf_symtab demo_symtab" by (simp add: wf_symtab_def demo_symtab_def less_Suc_eq)
  moreover have "frames demo_stack 0x1000 [0x150, 0x50, 0x250]" by code_simp
  moreover have "lines_of demo_symtab 0 [0x150, 0x50, 0x250] = [(0x150, Some (c_lit ''kmain'', 0x50)), (0x50, None)]" by code_simp
  ultimately show ?thesis using backtrace_shows[of demo_symtab demo_stack "0x1000" "[0x150, 0x50, 0x250]"] by (simp add: obind_assoc)
qed

end
