(* ===== verification/Spec2Isabelle.thy ===== *)
theory Spec2Isabelle
  imports Fifo Pmm CMemory CString Kmalloc Vmm Vector Sched Spinlock Calendar Vfs_Files Terminal Keyboard Klog_Format Shell
    Fat32_Names Fat32_Files Fat32_Vfs Fat32_Lookup File_Rw Commands Layout Ata_Detect Ata_Files Pci_Scan Smp Boot Backtrace Gfx Asc16
begin

text \<open>
  A verification development of the HanOS kernel, a 64-bit kernel for x86 machines written in C
  (\<open>src/kernel\<close>).

  The program. \<open>kmain\<close> (\<open>kmain.c\<close>) starts the parts in order and ends in the scheduler. The physical
  and virtual memory managers (\<open>core/mm.c\<close>) and the heap on top of them (\<open>lib/kmalloc.c\<close>) serve everybody
  else; vectors (\<open>lib/vector.h\<close>) and strings (\<open>lib/string.c\<close>, \<open>memutils.c\<close>) lie on the heap. Interrupts
  (\<open>core/idt.c\<close>, \<open>isr.c\<close>) drive the keyboard (\<open>device/keyboard\<close>) and the clocks (\<open>core/pit.c\<close>, \<open>timer.c\<close>), the
  clocks drive the scheduler (\<open>proc/sched.c\<close>), whose tasks are the shell and the cursor. The shell reads the
  ring of the keyboard and prints through the log (\<open>lib/klog.c\<close>) to the terminals (\<open>device/display/term.c\<close>),
  which draw on the frame buffer (\<open>fb.c\<close>) with the font (\<open>asc16.c\<close>). Files go through the VFS
  (\<open>fs/vfs.c\<close>, \<open>filebase.c\<close>) to FAT32 (\<open>fs/fat32.c\<close>) and from there to the ATA driver
  (\<open>device/storage/ata.c\<close>). At start the firmware tables (\<open>core/acpi.c\<close>, \<open>madt.c\<close>) name the cores, which
  \<open>core/smp.c\<close> brings up, each with its descriptor tables (\<open>core/gdt.c\<close>) and registers (\<open>core/cpu.c\<close>).

  How the model reads. A C structure is a record with the fields of the source, a fixed-width integer a word of
  that width, so that sums, products and shifts wrap as in the code; a field of type \<open>int\<close> is an integer, and an
  operation of it that leaves the type is the fault \<open>IntOverflow\<close>. A function of the source is a definition of
  the same name that takes the state it reads and returns the state it leaves; the static variables of a
  file are the record of its theory. Every call that can fail answers an \<open>outcome\<close> (\<open>Hanos_Prelude\<close>): \<open>Returns\<close> with a
  value, \<open>Faults\<close> (an access outside an object, a null pointer, a division by zero, a signed overflow, or
  the kernel's own panic), or \<open>Diverges\<close> for a loop that never ends. Loops over a counter are \<open>for_u64\<close>, whose counter
  wraps; loops without a bound are \<open>loop_c\<close>, a partial function whose absence of a result is \<open>Diverges\<close>. No
  loop of the model has fuel except where the code counts down itself (the waits of the ATA
  identification, the 20 polls of a starting core). Volatile reads, ports and
  device registers are operations of a device, which is a parameter; so are the answers of the boot loader, the
  addresses of assembly code, the symbol table, and the contents of fresh memory.

  Theories, with the code each one models.

  Base: \<open>Hanos_Prelude\<close> (outcomes, checked array access, the loops and their rules, words), \<open>Fifo\<close> (the queue
  interface), \<open>Ports\<close> (port input and output), \<open>Time_Types\<close> (\<open>lib/time.h\<close>), \<open>CMemory\<close> (byte memory and
  \<open>lib/memutils.c\<close>), \<open>CString\<close> (\<open>lib/string.c\<close>), \<open>Vector\<close> (\<open>lib/vector.h\<close>), \<open>Spinlock\<close> (\<open>lib/lock.h\<close>, as a step
  relation over any number of CPUs).

  Memory: \<open>Pmm\<close> and \<open>Vmm\<close> (\<open>core/mm.c\<close>), \<open>Kmalloc\<close> (\<open>lib/kmalloc.c\<close>). The set of free pages is the
  abstraction of the bitmap, the translation of addresses that of the page tables, and a map from live blocks to their
  sizes that of the heap: allocation is first fit and takes exactly its pages, mapping changes one
  translation, a block handed out overlaps no other, and freeing and unmapping undo it.

  Tasks: \<open>Sched\<close> (\<open>proc/sched.c\<close>, \<open>task.c\<close>): an invariant of every reachable state (\<open>sched_step\<close> is the step relation), and
  that a ready task runs within as many switches as there are tasks.

  Time: \<open>Calendar\<close> (\<open>core/cmos.c\<close>, \<open>lib/time.c\<close>) against the calendar with its leap years; \<open>Timers\<close>
  (\<open>core/pit.c\<close>, \<open>hpet.c\<close>, \<open>timer.c\<close>, \<open>apic.c\<close>): sleeps end and last long enough on a clock that runs, and what
  the calibration of the APIC timer makes of a frequency.

  Input and output: \<open>Framebuffer\<close> (\<open>fb.c\<close>), \<open>Asc16\<close> (\<open>asc16.c\<close>), \<open>Terminal\<close> (\<open>term.c\<close>), \<open>Keyboard\<close>
  (\<open>keyboard.c\<close>, \<open>keycode.c\<close>), \<open>Klog\<close> and \<open>Klog_Format\<close> (\<open>klog.c\<close>: the log rings as the latest
  characters written, and the formatter against a reference), \<open>Shell\<close> (the two tasks of \<open>kmain.c\<close>, over any table of
  commands), \<open>Commands\<close> (the kernel's four commands and the start of the shell) and \<open>Dumps\<close> (the printing of the tree of
  files and of directory entries). The bounds of the cursor, of the parser's parameters and of the ring indices are
  invariants; what is typed is what runs, and what the commands print is stated from the key to the last line.

  Files: \<open>Vfs\<close>, \<open>Vfs_Files\<close> and \<open>Vfs_List\<close> (\<open>vfs.c\<close>, \<open>filebase.c\<close>: the tree, a forest in every reachable
  state; open files with reference counts; the listing of a directory, which merges what the disk answers into the
  tree), \<open>Fat32\<close> (\<open>fat32.c\<close>, \<open>fat32.h\<close>) with \<open>Fat32_Names\<close>, \<open>Fat32_Lookup\<close>, \<open>Fat32_Files\<close>, \<open>Fat32_Dir\<close> and
  \<open>Fat32_Vfs\<close>: names, lookup, cluster chains, the entries of a directory, and FAT32 as a file system of the VFS;
  \<open>Layout\<close> (the packed structures of the disk and of the firmware as types of byte strings); \<open>File_Test\<close> and
  \<open>File_Rw\<close> (\<open>test/file.c\<close>: the directory test behind the command ls, and the file test); \<open>Ata\<close>, \<open>Ata_Detect\<close>, \<open>Ata_Drive\<close>
  and \<open>Ata_Files\<close> (\<open>ata.c\<close>): the driver, and a byte written through FAT32, the driver and the ports of the drives
  is read back the same way.

  Devices and cores: \<open>Pci\<close> and \<open>Pci_Scan\<close> (\<open>core/pci.c\<close>), \<open>Gfx\<close> (\<open>gfx.c\<close>), \<open>Descriptors\<close>
  (\<open>core/gdt.c\<close> and the gates of \<open>idt.c\<close>), \<open>Interrupts\<close> (\<open>core/idt.c\<close>, \<open>isr.c\<close>), \<open>Acpi\<close> (\<open>core/acpi.c\<close>,
  \<open>madt.c\<close>), \<open>Cpu\<close> (\<open>core/cpu.c\<close>), \<open>Smp\<close> (\<open>core/smp.c\<close>), \<open>Backtrace\<close> (\<open>core/panic.c\<close>). The devices their
  theorems speak of (the interrupt controllers, the configuration space, the drives, a running counter) are
  defined in the same theories from their data sheets, and are used by the statements only.

  Interfaces. A locale states what one part relies on another for, and is interpreted on the definitions of the
  part that provides it: queues (\<open>Fifo\<close>, by the task queue and the keyboard ring), pages (\<open>Pmm\<close>), the heap of blocks (\<open>Kmalloc\<close>), the
  disk of the file system (\<open>Sectors\<close>, by the driver on its drives), the file system of the VFS (\<open>Vfs_Files\<close>, by
  FAT32) and the directory of a file system that can be listed (\<open>Vfs_List\<close>, by FAT32).

  Boot: \<open>Boot\<close> composes the initialisations in the order of \<open>kmain\<close> (\<open>kmain.c\<close>) on one state, up to the loop that halts
  for good, and states what a boot leaves behind.

  Left out. Log lines, where they are not themselves the subject: those of the shell, of the commands, of the tests and of
  \<open>kmain\<close> are printed. Assembly (\<open>isr_base.s\<close>, \<open>smp_base.s\<close>, \<open>sched_base.s\<close>, \<open>trampoline.nasm\<close>), whose effect on
  registers is below this model; the Chinese font, an object file; the symbol table, which the build generates; code
  that \<open>#if 0\<close> switches off. Concurrency between CPUs is modelled where the code's own locks are the subject (\<open>Spinlock\<close>, the race of two
  opens in \<open>Vfs_Files\<close>) and where other cores are only counted (\<open>Smp\<close>); elsewhere an operation that runs under its lock is one
  step.
\<close>

end
